(* ===== verification/Prelude.thy ===== *)
theory Prelude
  imports Main "HOL-Library.Word" "HOL-Library.Sublist"
begin

text \<open>
  Shared vocabulary of the development: machine integers, byte strings, little-endian
  words, the outcome of a C routine that may read out of bounds or report a failure, and
  the generic lemmas on lists, words and outcomes that the component theories rely on.

  Conventions.  A \<open>uint8_t\<close>, \<open>uint32_t\<close> or \<open>uint64_t\<close> whose bits matter is a word of that
  width.  A \<open>size_t\<close> is a \<open>nat\<close>; the source tests every addition and multiplication of
  sizes that could exceed \<open>SIZE_MAX\<close>, and the model keeps those tests.  A C buffer
  (pointer and size) is a list of bytes, a pointer that may be \<open>NULL\<close> is an option, and a
  pointer into a buffer is an offset.
\<close>

unbundle bit_operations_syntax

named_theorems outcome_simps \<open>inversion of outcome-valued computations\<close>
named_theorems fails_intros \<open>structural rules for the failures a computation can report\<close>
named_theorems safe_intros \<open>structural rules for computations that do not fault\<close>
named_theorems delivers_intros \<open>delivered results, one rule per construct\<close>
named_theorems yields_intros \<open>structural rules for the result of a computation that succeeds\<close>
named_theorems slice_simps \<open>lengths and compositions of slices\<close>

type_synonym u8 = "8 word"
type_synonym u32 = "32 word"
type_synonym u64 = "64 word"
type_synonym bytes = "u8 list"

abbreviation (input) UINT32_MAX :: nat where "UINT32_MAX \<equiv> 4294967295"
abbreviation (input) INT_MAX :: nat where "INT_MAX \<equiv> 2147483647"
abbreviation (input) SIZE_MAX :: nat where "SIZE_MAX \<equiv> 18446744073709551615"

section \<open>Outcomes\<close>

text \<open>
  \<open>Fault\<close> is undefined behaviour: the routine dereferenced a byte outside its buffer.
  \<open>Fail\<close> is a reported failure (a \<open>false\<close> return, with the diagnostic the routine wrote).
\<close>

datatype (dead 'e, 'a) outcome = Fault | Fail 'e | Done 'a

fun obind :: "('e, 'a) outcome \<Rightarrow> ('a \<Rightarrow> ('e, 'b) outcome) \<Rightarrow> ('e, 'b) outcome" where
  "obind Fault f = Fault"
| "obind (Fail e) f = Fail e"
| "obind (Done x) f = f x"

definition mem :: "'a option \<Rightarrow> ('e, 'a) outcome" where
  "mem m = (case m of None \<Rightarrow> Fault | Some x \<Rightarrow> Done x)"

definition guard :: "bool \<Rightarrow> 'e \<Rightarrow> ('e, unit) outcome" where
  "guard c e = (if c then Done () else Fail e)"

text \<open>A C \<open>for\<close> loop over a list of work items, left at the first failure.\<close>

fun ofold :: "('i \<Rightarrow> 's \<Rightarrow> ('e, 's) outcome) \<Rightarrow> 'i list \<Rightarrow> 's \<Rightarrow> ('e, 's) outcome" where
  "ofold step [] s = Done s"
| "ofold step (i # is) s = obind (step i s) (ofold step is)"

lemma obind_cong [fundef_cong]:
  "m = m' \<Longrightarrow> (\<And>x. m' = Done x \<Longrightarrow> f x = f' x) \<Longrightarrow> obind m f = obind m' f'"
  by (cases m') auto

lemma obind_Done_iff [outcome_simps]:
  "obind m f = Done y \<longleftrightarrow> (\<exists>x. m = Done x \<and> f x = Done y)"
  by (cases m) auto

lemma obind_Fail_iff [outcome_simps]:
  "obind m f = Fail e \<longleftrightarrow> m = Fail e \<or> (\<exists>x. m = Done x \<and> f x = Fail e)"
  by (cases m) auto

lemma obind_Fault_iff [outcome_simps]:
  "obind m f = Fault \<longleftrightarrow> m = Fault \<or> (\<exists>x. m = Done x \<and> f x = Fault)"
  by (cases m) auto

lemma mem_iffs [outcome_simps]:
  "mem m = Done x \<longleftrightarrow> m = Some x"
  "mem m = Fault \<longleftrightarrow> m = None"
  "mem m \<noteq> Fail e"
  by (auto simp: mem_def split: option.splits)

lemma guard_iffs [outcome_simps]:
  "guard c e = Done (u :: unit) \<longleftrightarrow> c"
  "guard c e = Fail e' \<longleftrightarrow> \<not> c \<and> e' = e"
  "guard c e \<noteq> Fault"
  by (auto simp: guard_def)

lemma mem_Some [simp]: "mem (Some x) = Done x" and mem_None: "mem None = Fault"
  by (simp_all add: mem_def)

lemma guard_True [simp]: "guard True e = Done ()" and guard_False [simp]: "guard False e = Fail e"
  by (simp_all add: guard_def)

text \<open>\<open>if (!call()) { ... }\<close>: a failed call is handled by the caller.\<close>

fun on_fail :: "('e, 'a) outcome \<Rightarrow> ('f, 'a) outcome \<Rightarrow> ('f, 'a) outcome" where
  "on_fail Fault h = Fault"
| "on_fail (Fail _) h = h"
| "on_fail (Done x) h = Done x"

lemma on_fail_iffs [outcome_simps]:
  "on_fail m h = Done x \<longleftrightarrow> m = Done x \<or> (\<exists>e. m = Fail e) \<and> h = Done x"
  "on_fail m h = Fail f \<longleftrightarrow> (\<exists>e. m = Fail e) \<and> h = Fail f"
  "on_fail m h = Fault \<longleftrightarrow> m = Fault \<or> (\<exists>e. m = Fail e) \<and> h = Fault"
  by (cases m; auto)+

text \<open>
  The contract of a loop body: one step keeps the invariant and never faults.  Every loop
  of the components that runs over a list of work items is an instance; the lemmas on
  whole runs are proved here once.
\<close>

locale loop_machine =
  fixes step :: "'i \<Rightarrow> 's \<Rightarrow> ('e, 's) outcome"
    and inv :: "'s \<Rightarrow> bool"
  assumes step_keeps: "inv s \<Longrightarrow> step i s = Done s' \<Longrightarrow> inv s'"
    and step_safe: "inv s \<Longrightarrow> step i s \<noteq> Fault"
begin

lemma run_keeps: "inv s \<Longrightarrow> ofold step is s = Done s' \<Longrightarrow> inv s'"
  by (induction "is" arbitrary: s) (auto simp: outcome_simps dest: step_keeps)

lemma run_safe: "inv s \<Longrightarrow> ofold step is s \<noteq> Fault"
  by (induction "is" arbitrary: s) (auto simp: outcome_simps dest: step_keeps step_safe)

end

text \<open>
  The contract of a counted loop \<open>for (i = 0; i < bound; ++i)\<close>: the invariant may depend on
  the loop counter.
\<close>

locale counted_loop =
  fixes step :: "nat \<Rightarrow> 's \<Rightarrow> ('e, 's) outcome"
    and inv :: "nat \<Rightarrow> 's \<Rightarrow> bool"
    and bound :: nat
  assumes turn_keeps: "inv i s \<Longrightarrow> i < bound \<Longrightarrow> step i s = Done s' \<Longrightarrow> inv (Suc i) s'"
    and turn_safe: "inv i s \<Longrightarrow> i < bound \<Longrightarrow> step i s \<noteq> Fault"
begin

lemma count_keeps: "inv a s \<Longrightarrow> a \<le> b \<Longrightarrow> b \<le> bound \<Longrightarrow> ofold step [a..<b] s = Done s' \<Longrightarrow> inv b s'"
proof (induction "b - a" arbitrary: a s)
  case (Suc k)
  then have "a < b" by simp
  with Suc.prems obtain t where t: "step a s = Done t" "ofold step [Suc a..<b] t = Done s'"
    by (auto simp: upt_conv_Cons outcome_simps)
  have "inv (Suc a) t" using turn_keeps [OF _ _ t(1)] Suc.prems \<open>a < b\<close> by simp
  then show ?case using Suc.hyps(1) [of "Suc a" t] Suc.hyps(2) Suc.prems t(2) \<open>a < b\<close> by simp
qed simp

lemma count_safe: "inv a s \<Longrightarrow> a \<le> b \<Longrightarrow> b \<le> bound \<Longrightarrow> ofold step [a..<b] s \<noteq> Fault"
proof (induction "b - a" arbitrary: a s)
  case (Suc k)
  then have "a < b" by simp
  have "ofold step [Suc a..<b] t \<noteq> Fault" if "step a s = Done t" for t
    using turn_keeps [OF _ _ that] Suc.hyps(1) [of "Suc a" t] Suc.hyps(2) Suc.prems \<open>a < b\<close> by simp
  with \<open>a < b\<close> Suc.prems show ?case
    using turn_safe [of a s] by (auto simp: upt_conv_Cons outcome_simps)
qed simp

end

text \<open>
  The contract of a scan: the invariant relates the state to the items consumed so far, for
  items that satisfy a precondition.
\<close>

locale prefix_loop =
  fixes step :: "'i \<Rightarrow> 's \<Rightarrow> ('e, 's) outcome"
    and inv :: "'i list \<Rightarrow> 's \<Rightarrow> bool"
    and item :: "'i \<Rightarrow> bool"
  assumes item_keeps: "inv seen s \<Longrightarrow> item i \<Longrightarrow> step i s = Done s' \<Longrightarrow> inv (seen @ [i]) s'"
    and item_safe: "inv seen s \<Longrightarrow> item i \<Longrightarrow> step i s \<noteq> Fault"
begin

lemma scan_keeps: "inv seen s \<Longrightarrow> \<forall>i\<in>set is. item i \<Longrightarrow> ofold step is s = Done s' \<Longrightarrow> inv (seen @ is) s'"
proof (induction "is" arbitrary: s seen)
  case (Cons i "is")
  then obtain t where t: "step i s = Done t" "ofold step is t = Done s'" by (auto simp: outcome_simps)
  have "inv (seen @ [i]) t" using item_keeps [OF Cons.prems(1) _ t(1)] Cons.prems(2) by simp
  from Cons.IH [OF this _ t(2)] Cons.prems(2) show ?case by simp
qed simp

lemma scan_safe: "inv seen s \<Longrightarrow> \<forall>i\<in>set is. item i \<Longrightarrow> ofold step is s \<noteq> Fault"
proof (induction "is" arbitrary: s seen)
  case (Cons i "is")
  then show ?case
    using item_safe [OF Cons.prems(1)] item_keeps [OF Cons.prems(1)] by (fastforce simp: outcome_simps)
qed simp

end

lemma ofold_append:
  "ofold step (is @ js) s = obind (ofold step is s) (ofold step js)"
proof (induction "is" arbitrary: s)
  case (Cons i "is")
  show ?case by (cases "step i s") (simp_all add: Cons.IH)
qed simp

text \<open>
  Two judgements with one rule per construct of the outcome language: every failure a
  computation can report satisfies \<open>P\<close>, and a computation cannot fault.
\<close>

definition fails_only :: "('e \<Rightarrow> bool) \<Rightarrow> ('e, 'a) outcome \<Rightarrow> bool" where
  "fails_only P m \<longleftrightarrow> (\<forall>e. m = Fail e \<longrightarrow> P e)"

definition safe :: "('e, 'a) outcome \<Rightarrow> bool" where
  "safe m \<longleftrightarrow> m \<noteq> Fault"

lemma fails_onlyD: "fails_only P m \<Longrightarrow> m = Fail e \<Longrightarrow> P e"
  by (simp add: fails_only_def)

lemma fails_only_rules [fails_intros]:
  "fails_only P (Done x)" "fails_only P Fault" "P e \<Longrightarrow> fails_only P (Fail e)" "fails_only P (mem mo)"
  "fails_only P m \<Longrightarrow> (\<And>x. m = Done x \<Longrightarrow> fails_only P (f x)) \<Longrightarrow> fails_only P (obind m f)"
  "(c \<Longrightarrow> fails_only P m) \<Longrightarrow> (\<not> c \<Longrightarrow> fails_only P n) \<Longrightarrow> fails_only P (if c then m else n)"
  by (auto simp: fails_only_def outcome_simps)

lemma fails_only_case [fails_intros]:
  "(o' = None \<Longrightarrow> fails_only P m) \<Longrightarrow> (\<And>x. o' = Some x \<Longrightarrow> fails_only P (g x)) \<Longrightarrow>
   fails_only P (case o' of None \<Rightarrow> m | Some x \<Rightarrow> g x)"
  "(\<And>a b. p = (a, b) \<Longrightarrow> fails_only P (h a b)) \<Longrightarrow> fails_only P (case p of (a, b) \<Rightarrow> h a b)"
  by (auto split: option.split prod.split)

lemma fails_only_ofold [fails_intros]:
  "(\<And>i s. i \<in> set is \<Longrightarrow> fails_only P (step i s)) \<Longrightarrow> fails_only P (ofold step is s)"
  by (induction "is" arbitrary: s) (auto intro!: fails_only_rules)

lemma safeD: "safe m \<Longrightarrow> m \<noteq> Fault"
  by (simp add: safe_def)

lemma safe_rules [safe_intros]:
  "safe (Done x)" "safe (Fail e)"
  "safe m \<Longrightarrow> (\<And>x. m = Done x \<Longrightarrow> safe (f x)) \<Longrightarrow> safe (obind m f)"
  "(c \<Longrightarrow> safe m) \<Longrightarrow> (\<not> c \<Longrightarrow> safe n) \<Longrightarrow> safe (if c then m else n)"
  by (auto simp: safe_def outcome_simps)

lemma safe_case [safe_intros]:
  "(o' = None \<Longrightarrow> safe m) \<Longrightarrow> (\<And>x. o' = Some x \<Longrightarrow> safe (g x)) \<Longrightarrow>
   safe (case o' of None \<Rightarrow> m | Some x \<Rightarrow> g x)"
  "(\<And>a b. p = (a, b) \<Longrightarrow> safe (h a b)) \<Longrightarrow> safe (case p of (a, b) \<Rightarrow> h a b)"
  by (auto split: option.split prod.split)

lemma safe_ofold [safe_intros]:
  "(\<And>i s. i \<in> set is \<Longrightarrow> safe (step i s)) \<Longrightarrow> safe (ofold step is s)"
  by (induction "is" arbitrary: s) (auto intro!: safe_rules)

text \<open>A third judgement: when the computation succeeds, its result satisfies \<open>Q\<close>.\<close>

definition yields :: "('a \<Rightarrow> bool) \<Rightarrow> ('e, 'a) outcome \<Rightarrow> bool" where
  "yields Q m \<longleftrightarrow> (\<forall>x. m = Done x \<longrightarrow> Q x)"

lemma yieldsD: "yields Q m \<Longrightarrow> m = Done x \<Longrightarrow> Q x"
  by (simp add: yields_def)

lemma yields_rules [yields_intros]:
  "Q x \<Longrightarrow> yields Q (Done x)" "yields Q Fault" "yields Q (Fail e)"
  "(\<And>y. k = Done y \<Longrightarrow> yields Q (f y)) \<Longrightarrow> yields Q (obind k f)"
  "(c \<Longrightarrow> yields Q m) \<Longrightarrow> (\<not> c \<Longrightarrow> yields Q n) \<Longrightarrow> yields Q (if c then m else n)"
  by (auto simp: yields_def outcome_simps)

lemma yields_case [yields_intros]:
  "(o' = None \<Longrightarrow> yields Q m) \<Longrightarrow> (\<And>x. o' = Some x \<Longrightarrow> yields Q (g x)) \<Longrightarrow>
   yields Q (case o' of None \<Rightarrow> m | Some x \<Rightarrow> g x)"
  "(\<And>a b. p = (a, b) \<Longrightarrow> yields Q (h a b)) \<Longrightarrow> yields Q (case p of (a, b) \<Rightarrow> h a b)"
  by (auto split: option.split prod.split)

lemma yields_obind: "yields R m \<Longrightarrow> (\<And>x. R x \<Longrightarrow> yields Q (f x)) \<Longrightarrow> yields Q (obind m f)"
  by (auto simp: yields_def outcome_simps)

text \<open>The last two together: the computation does not fault, and a result satisfies \<open>Q\<close>.\<close>

definition delivers :: "('a \<Rightarrow> bool) \<Rightarrow> ('e, 'a) outcome \<Rightarrow> bool" where
  "delivers Q m \<longleftrightarrow> safe m \<and> yields Q m"

lemma delivers_done: "delivers Q (Done x) \<longleftrightarrow> Q x"
  by (simp add: delivers_def safe_def yields_def)

lemma delivers_basic [delivers_intros]: "Q x \<Longrightarrow> delivers Q (Done x)" "delivers Q (Fail e)"
  by (simp_all add: delivers_def safe_def yields_def)

lemma delivers_if [delivers_intros]: "(c \<Longrightarrow> delivers Q m) \<Longrightarrow> (\<not> c \<Longrightarrow> delivers Q n) \<Longrightarrow> delivers Q (if c then m else n)"
  by simp

lemma delivers_obind: "delivers R m \<Longrightarrow> (\<And>x. R x \<Longrightarrow> delivers Q (f x)) \<Longrightarrow> delivers Q (obind m f)"
  by (cases m) (simp_all add: delivers_def safe_def yields_def)

lemma delivers_mono: "delivers R m \<Longrightarrow> (\<And>x. R x \<Longrightarrow> Q x) \<Longrightarrow> delivers Q m"
  by (simp add: delivers_def yields_def)

lemma delivers_ofold:
  assumes "holds 0 s" "\<And>k s. k < length xs \<Longrightarrow> holds k s \<Longrightarrow> delivers (holds (Suc k)) (step (xs ! k) s)"
  shows "delivers (holds (length xs)) (ofold step xs s)"
  using assms
proof (induction xs arbitrary: s holds)
  case (Cons x xs)
  have "delivers (holds (Suc 0)) (step x s)" using Cons.prems(2) [of 0 s] Cons.prems(1) by simp
  moreover have "delivers (holds (Suc (length xs))) (ofold step xs t)" if "holds (Suc 0) t" for t
    using Cons.IH [of "\<lambda>k. holds (Suc k)" t] that Cons.prems(2) [of "Suc k" for k] by simp
  ultimately show ?case by (auto intro: delivers_obind)
qed (simp add: delivers_done)

lemma list_all2_set2: "list_all2 R xs ys \<Longrightarrow> y \<in> set ys \<Longrightarrow> \<exists>j<length xs. R (xs ! j) y"
  by (auto simp: in_set_conv_nth list_all2_conv_all_nth)

section \<open>Byte strings\<close>

definition bslice :: "bytes \<Rightarrow> nat \<Rightarrow> nat \<Rightarrow> bytes" where
  "bslice bs off n = take n (drop off bs)"

lemma length_bslice [slice_simps]: "off + n \<le> length bs \<Longrightarrow> length (bslice bs off n) = n"
  by (simp add: bslice_def)

lemma nth_bslice [slice_simps]: "i < n \<Longrightarrow> off + n \<le> length bs \<Longrightarrow> bslice bs off n ! i = bs ! (off + i)"
  by (simp add: bslice_def)

lemma bslice_bslice [slice_simps]:
  "i + k \<le> n \<Longrightarrow> bslice (bslice bs off n) i k = bslice bs (off + i) k"
  by (simp add: bslice_def drop_take take_take add.commute min_def)

lemma bslice_append: "bslice bs off (m + n) = bslice bs off m @ bslice bs (off + m) n"
  by (simp add: bslice_def take_add add.commute)

lemma bslice_zero [simp]: "bslice bs off 0 = []"
  by (simp add: bslice_def)

lemma bslice_all [simp]: "bslice bs 0 (length bs) = bs"
  by (simp add: bslice_def)

section \<open>Little-endian words\<close>

definition le32 :: "u8 \<Rightarrow> u8 \<Rightarrow> u8 \<Rightarrow> u8 \<Rightarrow> u32" where
  "le32 a b c d = ucast a OR push_bit 8 (ucast b) OR push_bit 16 (ucast c) OR push_bit 24 (ucast d)"

definition bytes32 :: "u32 \<Rightarrow> bytes" where
  "bytes32 v = [ucast v, ucast (drop_bit 8 v), ucast (drop_bit 16 v), ucast (drop_bit 24 v)]"

lemma length_bytes32 [simp]: "length (bytes32 v) = 4"
  by (simp add: bytes32_def)

lemma u8_bit_high [simp]:
  "\<not> bit (w :: u8) (8 + n)" "\<not> bit (w :: u8) (16 + n)" "\<not> bit (w :: u8) (24 + n)"
  by (auto dest: bit_imp_le_length)

lemma le32_bytes32: "le32 (ucast v) (ucast (drop_bit 8 v)) (ucast (drop_bit 16 v)) (ucast (drop_bit 24 v)) = v"
proof (rule bit_word_eqI)
  fix n assume "n < LENGTH(32)"
  then consider "n < 8" | "8 \<le> n" "n < 16" | "16 \<le> n" "n < 24" | "24 \<le> n" "n < 32"
    by fastforce
  then show "bit (le32 (ucast v) (ucast (drop_bit 8 v)) (ucast (drop_bit 16 v)) (ucast (drop_bit 24 v))) n = bit v n"
    by cases (auto simp: le32_def bit_simps)
qed

lemma bytes32_le32: "bytes32 (le32 a b c d) = [a, b, c, d]"
  unfolding bytes32_def le32_def
  by (auto intro!: bit_word_eqI simp: bit_simps)

lemma le32_inject: "le32 a b c d = le32 a' b' c' d' \<longleftrightarrow> a = a' \<and> b = b' \<and> c = c' \<and> d = d'"
proof
  assume "le32 a b c d = le32 a' b' c' d'"
  then have "bytes32 (le32 a b c d) = bytes32 (le32 a' b' c' d')" by simp
  then show "a = a' \<and> b = b' \<and> c = c' \<and> d = d'" by (simp add: bytes32_le32)
qed simp

lemma unat_inject [simp]: "unat (v :: 'a :: len word) = unat w \<longleftrightarrow> v = w"
  by (simp flip: word_eq_iff_unsigned)

lemma unat_u32: "unat (w :: u32) < 4294967296"
  using unsigned_less [of w] by simp

lemma unat_and_mask: "unat (w AND mask n) = unat (w :: 'a :: len word) mod 2 ^ n"
  by (simp flip: take_bit_eq_mask take_bit_eq_mod unsigned_take_bit_eq)

lemma unat_and_not_mask: "unat (w AND NOT (mask n)) = unat (w :: 'a :: len word) - unat w mod 2 ^ n"
proof -
  have "(w AND mask n) + (w AND NOT (mask n)) = w"
    by (subst disjunctive_add_eq_or) (auto simp: bit_eq_iff bit_simps)
  then have "w AND NOT (mask n) = w - (w AND mask n)"
    by (metis add_diff_cancel_left')
  moreover have "w AND mask n \<le> w" by (rule word_and_le2)
  ultimately show ?thesis by (simp add: unat_sub unat_and_mask)
qed

text \<open>Reading a word through a pointer: defined only where the four bytes exist.\<close>

definition rd32 :: "bytes \<Rightarrow> nat \<Rightarrow> u32 option" where
  "rd32 bs off = (if off + 4 \<le> length bs
     then Some (le32 (bs ! off) (bs ! (off + 1)) (bs ! (off + 2)) (bs ! (off + 3))) else None)"

definition rd8 :: "bytes \<Rightarrow> nat \<Rightarrow> u8 option" where
  "rd8 bs off = (if off < length bs then Some (bs ! off) else None)"

lemma rd32_None [simp]: "rd32 bs off = None \<longleftrightarrow> length bs < off + 4"
  by (auto simp: rd32_def)

lemma rd32_SomeD: "rd32 bs off = Some v \<Longrightarrow> off + 4 \<le> length bs"
  by (auto simp: rd32_def split: if_splits)

lemma rd32_ex: "off + 4 \<le> length bs \<Longrightarrow> \<exists>v. rd32 bs off = Some v"
  by (simp add: rd32_def)

lemma rd32_bslice: "i + 4 \<le> n \<Longrightarrow> off + n \<le> length bs \<Longrightarrow> rd32 (bslice bs off n) i = rd32 bs (off + i)"
  by (simp add: rd32_def slice_simps add.assoc)

lemma bslice_four:
  assumes "off + 4 \<le> length bs"
  shows "bslice bs off 4 = [bs ! off, bs ! (off + 1), bs ! (off + 2), bs ! (off + 3)]"
proof -
  have "drop off bs = bs ! off # bs ! (off + 1) # bs ! (off + 2) # bs ! (off + 3) # drop (off + 4) bs"
    using assms Cons_nth_drop_Suc [of off bs] Cons_nth_drop_Suc [of "off + 1" bs]
      Cons_nth_drop_Suc [of "off + 2" bs] Cons_nth_drop_Suc [of "off + 3" bs]
    by (simp add: eval_nat_numeral)
  then show ?thesis by (simp add: bslice_def)
qed

lemma rd32_bslice4: "rd32 bs off = Some v \<longleftrightarrow> off + 4 \<le> length bs \<and> bslice bs off 4 = bytes32 v"
proof (cases "off + 4 \<le> length bs")
  case True
  then show ?thesis
    by (auto simp: rd32_def bslice_four bytes32_le32) (simp add: bytes32_def le32_bytes32)
qed (simp add: rd32_def)

text \<open>Reading from a concatenation, for images that are written as a sequence of words.\<close>

named_theorems image_simps \<open>evaluation of reads on concatenated images\<close>

lemma rd32_append [image_simps]: "length xs \<le> off \<Longrightarrow> rd32 (xs @ ys) off = rd32 ys (off - length xs)"
  by (auto simp: rd32_def nth_append Suc_diff_le)

lemma rd32_here [image_simps]: "rd32 (bytes32 v @ ys) 0 = Some v" "rd32 (bytes32 v) 0 = Some v"
  by (simp_all add: rd32_bslice4 bslice_def)

lemma bytes32_inject [simp]: "bytes32 v = bytes32 w \<longleftrightarrow> v = w"
proof
  assume "bytes32 v = bytes32 w"
  then have "rd32 (bytes32 v) 0 = rd32 (bytes32 w) 0" by simp
  then show "v = w" by (simp add: rd32_here)
qed simp

lemma bslice_append_after [image_simps]: "length xs \<le> off \<Longrightarrow> bslice (xs @ ys) off n = bslice ys (off - length xs) n"
  by (simp add: bslice_def)

lemma bslice_append_here [image_simps]: "n = length xs \<Longrightarrow> bslice (xs @ ys) 0 n = xs"
  by (simp add: bslice_def)

end
