(* ===== verification/Unity_Common.thy ===== *)
theory Unity_Common
  imports Prelude
begin

text \<open>
  The services the sources take from the UnityCommon submodule, which is not part of the
  repository: byte-order conversion, the checked-size helpers, the allocator and the byte
  stream.  They are a parameter of the model, a record of functions that every definition
  using them takes as its first argument.  What the callers rely on is stated as named
  predicates on that record; theorems carry them as hypotheses.

  The host is a 64-bit little-endian machine, the only kind the checksum routine
  supports (it reinterprets words as bytes in place).
\<close>

record byte_stream =
  bs_data :: bytes
  bs_position :: nat
  bs_big_endian :: bool

text \<open>
  \<open>mem_alloc uc n\<close> and \<open>mem_realloc uc old new\<close> tell whether the allocator returns storage
  for the request.  A stream read returns the value and the advanced stream, or nothing
  when it reports failure.
\<close>

record unity_common =
  read_le32 :: "u32 \<Rightarrow> u32"
  size_add_overflows :: "nat \<Rightarrow> nat \<Rightarrow> bool"
  size_multiply_overflows :: "nat \<Rightarrow> nat \<Rightarrow> bool"
  mem_alloc :: "nat \<Rightarrow> bool"
  mem_realloc :: "nat \<Rightarrow> nat \<Rightarrow> bool"
  stream_init :: "bytes \<Rightarrow> byte_stream"
  stream_set_endian :: "byte_stream \<Rightarrow> bool \<Rightarrow> byte_stream"
  stream_read_uint32 :: "byte_stream \<Rightarrow> (u32 \<times> byte_stream) option"
  stream_read_bytes :: "byte_stream \<Rightarrow> nat \<Rightarrow> (bytes \<times> byte_stream) option"

section \<open>What the callers rely on\<close>

definition little_endian_host :: "unity_common \<Rightarrow> bool" where
  "little_endian_host uc \<longleftrightarrow> (\<forall>x. read_le32 uc x = x)"

definition exact_size_checks :: "unity_common \<Rightarrow> bool" where
  "exact_size_checks uc \<longleftrightarrow>
     (\<forall>a b. size_add_overflows uc a b \<longleftrightarrow> SIZE_MAX < a + b) \<and>
     (\<forall>a b. size_multiply_overflows uc a b \<longleftrightarrow> SIZE_MAX < a * b)"

definition memory_available :: "unity_common \<Rightarrow> bool" where
  "memory_available uc \<longleftrightarrow> (\<forall>n. mem_alloc uc n) \<and> (\<forall>m n. mem_realloc uc m n)"

definition byte_stream_contract :: "unity_common \<Rightarrow> bool" where
  "byte_stream_contract uc \<longleftrightarrow>
     (\<forall>bs. bs_data (stream_init uc bs) = bs \<and> bs_position (stream_init uc bs) = 0) \<and>
     (\<forall>s e. stream_set_endian uc s e = s\<lparr>bs_big_endian := e\<rparr>) \<and>
     (\<forall>s. \<not> bs_big_endian s \<longrightarrow> stream_read_uint32 uc s =
        map_option (\<lambda>v. (v, s\<lparr>bs_position := bs_position s + 4\<rparr>)) (rd32 (bs_data s) (bs_position s))) \<and>
     (\<forall>s n. stream_read_bytes uc s n =
        (if bs_position s + n \<le> length (bs_data s)
         then Some (bslice (bs_data s) (bs_position s) n, s\<lparr>bs_position := bs_position s + n\<rparr>)
         else None))"

lemma little_endian_hostD [simp]: "little_endian_host uc \<Longrightarrow> read_le32 uc x = x"
  by (simp add: little_endian_host_def)

lemma exact_size_checksD:
  assumes "exact_size_checks uc"
  shows "size_add_overflows uc a b \<longleftrightarrow> SIZE_MAX < a + b"
    and "size_multiply_overflows uc a b \<longleftrightarrow> SIZE_MAX < a * b"
  using assms unfolding exact_size_checks_def by blast+

lemma memory_availableD [simp]:
  assumes "memory_available uc"
  shows "mem_alloc uc n" "mem_realloc uc m n"
  using assms unfolding memory_available_def by blast+

lemma stream_read_uint32_eq:
  assumes "byte_stream_contract uc" "\<not> bs_big_endian s"
  shows "stream_read_uint32 uc s =
    map_option (\<lambda>v. (v, s\<lparr>bs_position := bs_position s + 4\<rparr>)) (rd32 (bs_data s) (bs_position s))"
  using assms unfolding byte_stream_contract_def by blast

lemma stream_read_bytes_eq:
  assumes "byte_stream_contract uc"
  shows "stream_read_bytes uc s n =
    (if bs_position s + n \<le> length (bs_data s)
     then Some (bslice (bs_data s) (bs_position s) n, s\<lparr>bs_position := bs_position s + n\<rparr>) else None)"
  using assms unfolding byte_stream_contract_def by blast

lemma stream_open_eq:
  assumes "byte_stream_contract uc"
  shows "bs_data (stream_set_endian uc (stream_init uc bs) e) = bs"
    and "bs_position (stream_set_endian uc (stream_init uc bs) e) = 0"
    and "bs_big_endian (stream_set_endian uc (stream_init uc bs) e) = e"
  using assms unfolding byte_stream_contract_def by simp_all

section \<open>An instance\<close>

text \<open>
  A concrete choice of the services, with an allocator that never refuses.  It shows that
  the hypotheses above can hold together and is what the witnesses evaluate.
\<close>

definition lp64_common :: unity_common where
  "lp64_common = \<lparr>
     read_le32 = (\<lambda>x. x),
     size_add_overflows = (\<lambda>a b. SIZE_MAX < a + b),
     size_multiply_overflows = (\<lambda>a b. SIZE_MAX < a * b),
     mem_alloc = (\<lambda>_. True),
     mem_realloc = (\<lambda>_ _. True),
     stream_init = (\<lambda>bs. \<lparr>bs_data = bs, bs_position = 0, bs_big_endian = True\<rparr>),
     stream_set_endian = (\<lambda>s e. s\<lparr>bs_big_endian := e\<rparr>),
     stream_read_uint32 = (\<lambda>s. map_option (\<lambda>v. (v, s\<lparr>bs_position := bs_position s + 4\<rparr>))
        (rd32 (bs_data s) (bs_position s))),
     stream_read_bytes = (\<lambda>s n. if bs_position s + n \<le> length (bs_data s)
         then Some (bslice (bs_data s) (bs_position s) n, s\<lparr>bs_position := bs_position s + n\<rparr>)
         else None)\<rparr>"

lemma lp64_common_ok [simp]:
  "little_endian_host lp64_common"
  "exact_size_checks lp64_common"
  "memory_available lp64_common"
  "byte_stream_contract lp64_common"
  by (simp_all add: lp64_common_def little_endian_host_def exact_size_checks_def
      memory_available_def byte_stream_contract_def)

lemma lp64_common_simps [simp]:
  "read_le32 lp64_common x = x"
  "mem_alloc lp64_common n" "mem_realloc lp64_common m n"
  "size_add_overflows lp64_common a b \<longleftrightarrow> SIZE_MAX < a + b"
  "size_multiply_overflows lp64_common a b \<longleftrightarrow> SIZE_MAX < a * b"
  by (simp_all add: lp64_common_def)

end
