(* ===== verification/Container_View.thy ===== *)
theory Container_View
  imports Unity_Common
begin

text \<open>
  \<open>src/dxbc/dxbc_container.c\<close>: finding the first DXBC container in a raw blob, in a Unity
  2021 compiled-program record or in a USBD record table.  A pointer and a size are an
  offset into the input and a length; every dereference goes through \<open>mem\<close>, so that a read
  outside the input is visible as \<open>Fault\<close>.
\<close>

abbreviation (input) DXBC_HEADER_SIZE :: nat where "DXBC_HEADER_SIZE \<equiv> 32"
abbreviation (input) USBD_HEADER_SIZE :: nat where "USBD_HEADER_SIZE \<equiv> 8"
abbreviation (input) UNITY_DXBC_HEADER_SIZE :: nat where "UNITY_DXBC_HEADER_SIZE \<equiv> 38"

definition magic_DXBC :: bytes where "magic_DXBC = [0x44, 0x58, 0x42, 0x43]"
definition magic_USBD :: bytes where "magic_USBD = [0x55, 0x53, 0x42, 0x44]"

lemma length_magic [simp]: "length magic_DXBC = 4" "length magic_USBD = 4"
  by (simp_all add: magic_DXBC_def magic_USBD_def)

text \<open>\<open>memcmp(bytes + off, lit, |lit|) == 0\<close>\<close>

definition memcmp_eq :: "bytes \<Rightarrow> nat \<Rightarrow> bytes \<Rightarrow> ('e, bool) outcome" where
  "memcmp_eq bs off lit = (if off + length lit \<le> length bs
     then Done (bslice bs off (length lit) = lit) else Fault)"

lemma memcmp_eq_iffs [outcome_simps]:
  "memcmp_eq bs off lit = Done b \<longleftrightarrow> off + length lit \<le> length bs \<and> b = (bslice bs off (length lit) = lit)"
  "memcmp_eq bs off lit = Fault \<longleftrightarrow> length bs < off + length lit"
  "memcmp_eq bs off lit \<noteq> Fail e"
  by (auto simp: memcmp_eq_def)

text \<open>A C buffer argument: a size with a \<open>NULL\<close> pointer, or a pointer to that many bytes.\<close>

datatype c_buffer = NullBuf nat | Buf bytes

fun buf_size :: "c_buffer \<Rightarrow> nat" where
  "buf_size (NullBuf n) = n"
| "buf_size (Buf bs) = length bs"

record container_view =
  view_data :: nat
  view_size :: nat

section \<open>Definitions\<close>

definition read_le_u32_at :: "unity_common \<Rightarrow> bytes \<Rightarrow> nat \<Rightarrow> nat \<Rightarrow> nat \<Rightarrow> (unit, u32) outcome" where
  "read_le_u32_at uc bs data sz offset =
     (if offset > sz \<or> sz - offset < 4 then Fail ()
      else obind (mem (rd32 bs (data + offset))) (\<lambda>raw. Done (read_le32 uc raw)))"

definition raw_dxbc_view :: "unity_common \<Rightarrow> bytes \<Rightarrow> nat \<Rightarrow> nat \<Rightarrow> (unit, container_view) outcome" where
  "raw_dxbc_view uc bs data sz =
     (if sz < DXBC_HEADER_SIZE then Fail ()
      else obind (memcmp_eq bs data magic_DXBC) (\<lambda>eq.
        if \<not> eq then Fail ()
        else obind (read_le_u32_at uc bs data sz 24) (\<lambda>total_size.
          if unat total_size < DXBC_HEADER_SIZE \<or> unat total_size > sz then Fail ()
          else Done \<lparr>view_data = data, view_size = unat total_size\<rparr>)))"

text \<open>One iteration of the record loop; the state is the offset and the first record.\<close>

definition usbd_view_record ::
  "unity_common \<Rightarrow> bytes \<Rightarrow> nat \<Rightarrow> nat \<Rightarrow> nat \<times> container_view \<Rightarrow> (unit, nat \<times> container_view) outcome" where
  "usbd_view_record uc bs sz i = (\<lambda>(offset, first).
     obind (read_le_u32_at uc bs 0 sz offset) (\<lambda>name_length.
     let offset = offset + 4 in
     if name_length = 0 \<or> unat name_length > sz - offset then Fail ()
     else let offset = offset + unat name_length in
       obind (read_le_u32_at uc bs 0 sz offset) (\<lambda>payload_length.
       let offset = offset + 4 in
       if unat payload_length > sz - offset then Fail ()
       else obind (raw_dxbc_view uc bs offset (unat payload_length)) (\<lambda>record.
         if view_size record \<noteq> unat payload_length then Fail ()
         else Done (offset + unat payload_length, if i = 0 then record else first)))))"

definition usbd_view_first :: "unity_common \<Rightarrow> bytes \<Rightarrow> (unit, container_view) outcome" where
  "usbd_view_first uc bs = (let sz = length bs in
     if sz < USBD_HEADER_SIZE then Fail ()
     else obind (memcmp_eq bs 0 magic_USBD) (\<lambda>eq.
       if \<not> eq then Fail ()
       else obind (read_le_u32_at uc bs 0 sz 4) (\<lambda>record_count.
         if record_count = 0 \<or> unat record_count > (sz - USBD_HEADER_SIZE) div 9 then Fail ()
         else obind (ofold (usbd_view_record uc bs sz) [0..<unat record_count]
                       (USBD_HEADER_SIZE, \<lparr>view_data = 0, view_size = 0\<rparr>))
                (\<lambda>(offset, first). if offset \<noteq> sz then Fail () else Done first))))"

definition unity_program_view :: "unity_common \<Rightarrow> bytes \<Rightarrow> (unit, container_view) outcome" where
  "unity_program_view uc bs = (let sz = length bs in
     if sz \<le> UNITY_DXBC_HEADER_SIZE then Fail ()
     else obind (mem (rd8 bs 0)) (\<lambda>b0.
       if b0 \<noteq> 2 then Fail ()
       else obind (raw_dxbc_view uc bs UNITY_DXBC_HEADER_SIZE (sz - UNITY_DXBC_HEADER_SIZE))
              (\<lambda>v. if view_size v = sz - UNITY_DXBC_HEADER_SIZE then Done v else Fail ())))"

fun or_else :: "('e, 'a) outcome \<Rightarrow> ('e, 'a) outcome \<Rightarrow> ('e, 'a) outcome" where
  "or_else (Fail _) m = m"
| "or_else r m = r"

text \<open>
  With a \<open>NULL\<close> pointer the first two recognisers fail on their own test of it; the USBD
  recogniser has none and passes the pointer to \<open>memcmp\<close> once the size reaches the header.
\<close>

definition dxbc_container_view_first :: "unity_common \<Rightarrow> c_buffer \<Rightarrow> (unit, container_view) outcome" where
  "dxbc_container_view_first uc data = (case data of
       NullBuf sz \<Rightarrow> if sz < USBD_HEADER_SIZE then Fail () else Fault
     | Buf bs \<Rightarrow> or_else (raw_dxbc_view uc bs 0 (length bs))
                   (or_else (unity_program_view uc bs) (usbd_view_first uc bs)))"

section \<open>Views are complete containers inside the input\<close>

definition good_view :: "bytes \<Rightarrow> container_view \<Rightarrow> bool" where
  "good_view bs v \<longleftrightarrow> DXBC_HEADER_SIZE \<le> view_size v \<and> view_data v + view_size v \<le> length bs \<and>
     bslice bs (view_data v) 4 = magic_DXBC \<and>
     map_option unat (rd32 bs (view_data v + 24)) = Some (view_size v)"

lemma read_le_u32_at_safe: "data + sz \<le> length bs \<Longrightarrow> read_le_u32_at uc bs data sz off \<noteq> Fault"
  by (auto simp: read_le_u32_at_def outcome_simps)

lemma read_le_u32_at_Done:
  assumes "read_le_u32_at uc bs data sz off = Done v"
  shows "off + 4 \<le> sz \<and> (\<exists>raw. rd32 bs (data + off) = Some raw \<and> v = read_le32 uc raw)"
  using assms by (auto simp: read_le_u32_at_def outcome_simps split: if_splits)

lemma raw_dxbc_view_safe: "data + sz \<le> length bs \<Longrightarrow> raw_dxbc_view uc bs data sz \<noteq> Fault"
  using read_le_u32_at_safe by (auto simp: raw_dxbc_view_def outcome_simps split: if_splits)

lemma raw_dxbc_view_good:
  assumes "little_endian_host uc" "data + sz \<le> length bs" "raw_dxbc_view uc bs data sz = Done v"
  shows "good_view bs v \<and> view_data v = data \<and> view_size v \<le> sz"
  using assms
  by (auto simp: raw_dxbc_view_def good_view_def outcome_simps dest!: read_le_u32_at_Done split: if_splits)

lemma raw_dxbc_view_goodI:
  "raw_dxbc_view uc bs data sz = Done v \<Longrightarrow> little_endian_host uc \<Longrightarrow> data + sz \<le> length bs \<Longrightarrow> good_view bs v"
  using raw_dxbc_view_good by blast

lemma usbd_view_record_step:
  assumes "usbd_view_record uc bs (length bs) i (offset, first) = Done (offset', first')" "offset \<le> length bs"
  shows "offset \<le> offset'" "offset' \<le> length bs" "i \<noteq> 0 \<Longrightarrow> first' = first"
    "little_endian_host uc \<Longrightarrow> i = 0 \<Longrightarrow> good_view bs first'"
  using assms
  by (auto simp: usbd_view_record_def outcome_simps Let_def split: if_splits
      dest!: read_le_u32_at_Done intro: raw_dxbc_view_goodI)

lemma usbd_view_record_safe: "usbd_view_record uc bs (length bs) i s \<noteq> Fault"
proof (cases s)
  case (Pair offset first)
  show ?thesis
    unfolding Pair usbd_view_record_def
    by (auto simp: outcome_simps Let_def read_le_u32_at_safe raw_dxbc_view_safe
        split: if_splits dest!: read_le_u32_at_Done)
qed

interpretation usbd_records: loop_machine "usbd_view_record uc bs (length bs)" "\<lambda>s. fst s \<le> length bs" for uc bs
proof
  fix s i s'
  assume "fst s \<le> length bs" "usbd_view_record uc bs (length bs) i s = Done s'"
  then show "fst s' \<le> length bs"
    by (cases s; cases s') (auto dest: usbd_view_record_step(2))
qed (rule usbd_view_record_safe)

lemma usbd_view_later_records:
  assumes "ofold (usbd_view_record uc bs (length bs)) is (offset, first) = Done (offset', first')"
    and "offset \<le> length bs" "0 \<notin> set is"
  shows "first' = first"
  using assms
proof (induction "is" arbitrary: offset first)
  case (Cons i "is")
  then obtain o1 f1 where step: "usbd_view_record uc bs (length bs) i (offset, first) = Done (o1, f1)"
    and rest: "ofold (usbd_view_record uc bs (length bs)) is (o1, f1) = Done (offset', first')"
    by (auto simp: outcome_simps)
  from step Cons.prems have "o1 \<le> length bs" "f1 = first"
    by (auto dest: usbd_view_record_step)
  with Cons.IH [OF rest] Cons.prems show ?case by simp
qed simp

lemma usbd_view_first_good:
  assumes "little_endian_host uc" "usbd_view_first uc bs = Done v"
  shows "good_view bs v"
proof -
  from assms(2) obtain n where "n \<noteq> 0" "8 \<le> length bs"
    and run: "ofold (usbd_view_record uc bs (length bs)) [0..<unat (n :: u32)]
        (USBD_HEADER_SIZE, \<lparr>view_data = 0, view_size = 0\<rparr>) = Done (length bs, v)"
    by (auto simp: usbd_view_first_def outcome_simps Let_def split: if_splits)
  have "[0..<unat n] = 0 # [1..<unat n]"
    using \<open>n \<noteq> 0\<close> by (simp add: upt_conv_Cons unat_gt_0)
  with run obtain o1 f1
    where step: "usbd_view_record uc bs (length bs) 0 (8, \<lparr>view_data = 0, view_size = 0\<rparr>) = Done (o1, f1)"
      and rest: "ofold (usbd_view_record uc bs (length bs)) [1..<unat n] (o1, f1) = Done (length bs, v)"
    by (auto simp: outcome_simps)
  have "o1 \<le> length bs" "good_view bs f1"
    using usbd_view_record_step [OF step] \<open>8 \<le> length bs\<close> assms(1) by auto
  with usbd_view_later_records [OF rest] show ?thesis by simp
qed

lemma usbd_view_first_safe: "usbd_view_first uc bs \<noteq> Fault"
  using usbd_records.run_safe [of "(8, \<lparr>view_data = 0, view_size = 0\<rparr>)" bs uc] read_le_u32_at_safe [of 0]
  by (auto simp: usbd_view_first_def outcome_simps Let_def split: if_splits)

lemma unity_program_view_good:
  assumes "little_endian_host uc" "unity_program_view uc bs = Done v"
  shows "good_view bs v \<and> view_data v = UNITY_DXBC_HEADER_SIZE \<and> view_data v + view_size v = length bs"
  using assms raw_dxbc_view_good [of uc UNITY_DXBC_HEADER_SIZE "length bs - UNITY_DXBC_HEADER_SIZE" bs]
  by (fastforce simp: unity_program_view_def outcome_simps Let_def split: if_splits)

lemma unity_program_view_safe: "unity_program_view uc bs \<noteq> Fault"
  using raw_dxbc_view_safe [of 38 "length bs - 38" bs uc]
  by (auto simp: unity_program_view_def outcome_simps Let_def rd8_def split: if_splits)

lemma or_else_Done: "or_else m n = Done x \<longleftrightarrow> m = Done x \<or> (\<exists>e. m = Fail e) \<and> n = Done x"
  by (cases m) auto

lemma or_else_Fault: "or_else m n = Fault \<longleftrightarrow> m = Fault \<or> (\<exists>e. m = Fail e) \<and> n = Fault"
  by (cases m) auto

lemma container_view_first_safe: "dxbc_container_view_first uc (Buf bs) \<noteq> Fault"
  using raw_dxbc_view_safe [of 0 "length bs" bs uc]
  by (simp add: dxbc_container_view_first_def or_else_Fault unity_program_view_safe usbd_view_first_safe)

lemma container_view_first_good:
  assumes "little_endian_host uc" "dxbc_container_view_first uc (Buf bs) = Done v"
  shows "good_view bs v"
  using assms raw_dxbc_view_good [of uc 0 "length bs" bs v]
  by (auto simp: dxbc_container_view_first_def or_else_Done
      dest: unity_program_view_good usbd_view_first_good)

text \<open>
  The recognisers are tried on a \<open>NULL\<close> pointer with a size of at least eight, and the last one
  compares the magic through the pointer.
\<close>

lemma container_view_first_null: "8 \<le> n \<Longrightarrow> dxbc_container_view_first uc (NullBuf n) = Fault"
  by (simp add: dxbc_container_view_first_def)

section \<open>Properties\<close>

text \<open>
  A view that is found is a complete container inside the input: it starts with the DXBC
  magic, is at least a header long, ends inside the input and has exactly the size its header
  declares, for raw containers, Unity program records and USBD tables alike.
\<close>

lemma container_view_is_complete:
  assumes "little_endian_host uc" "dxbc_container_view_first uc (Buf bs) = Done v"
  shows "good_view bs v"
  using assms by (rule container_view_first_good)

end
