(* ===== verification/Dxbc_Hash.thy ===== *)
theory Dxbc_Hash
  imports Container_View
begin

text \<open>
  \<open>src/dxbc/dxbc_hash.c\<close>: the modified MD5 checksum of a DXBC container.  The buffer of
  the digest context is automatic storage that \<open>md5_init\<close> does not clear; its indeterminate
  content is an argument of the model, and the correctness theorem shows that the checksum
  does not depend on it.
\<close>

section \<open>The compression function\<close>

type_synonym md5_buf = "u32 \<times> u32 \<times> u32 \<times> u32"

definition MD5_F :: "u32 \<Rightarrow> u32 \<Rightarrow> u32 \<Rightarrow> u32" where
  "MD5_F x y z = (x AND y) OR (NOT x AND z)"
definition MD5_G :: "u32 \<Rightarrow> u32 \<Rightarrow> u32 \<Rightarrow> u32" where
  "MD5_G x y z = (x AND z) OR (y AND NOT z)"
definition MD5_H :: "u32 \<Rightarrow> u32 \<Rightarrow> u32 \<Rightarrow> u32" where
  "MD5_H x y z = x XOR y XOR z"
definition MD5_I :: "u32 \<Rightarrow> u32 \<Rightarrow> u32 \<Rightarrow> u32" where
  "MD5_I x y z = y XOR (x OR NOT z)"

definition ROTATE_LEFT :: "u32 \<Rightarrow> nat \<Rightarrow> u32" where
  "ROTATE_LEFT x n = push_bit n x OR drop_bit (32 - n) x"

text \<open>
  The body the macros \<open>MD5_FF\<close>, \<open>MD5_GG\<close>, \<open>MD5_HH\<close> and \<open>MD5_II\<close> share: the new value of
  the register they name first.
\<close>

definition MD5_STEP :: "(u32 \<Rightarrow> u32 \<Rightarrow> u32 \<Rightarrow> u32) \<Rightarrow> u32 \<Rightarrow> u32 \<Rightarrow> u32 \<Rightarrow> u32 \<Rightarrow> u32 \<Rightarrow> nat \<Rightarrow> u32 \<Rightarrow> u32" where
  "MD5_STEP f a b c d x s ac = ROTATE_LEFT (a + (f b c d + x + ac)) s + b"

text \<open>Four consecutive macro calls, on (a b c d), (d a b c), (c d a b) and (b c d a).\<close>

definition MD5_QUAD ::
  "(u32 \<Rightarrow> u32 \<Rightarrow> u32 \<Rightarrow> u32) \<Rightarrow> nat \<times> nat \<times> nat \<times> nat \<Rightarrow> u32 list \<Rightarrow>
   (nat \<times> u32) \<times> (nat \<times> u32) \<times> (nat \<times> u32) \<times> (nat \<times> u32) \<Rightarrow> md5_buf \<Rightarrow> md5_buf" where
  "MD5_QUAD f = (\<lambda>(s1, s2, s3, s4) inp ((k1, c1), (k2, c2), (k3, c3), (k4, c4)) (a, b, c, d).
     let a = MD5_STEP f a b c d (inp ! k1) s1 c1;
         d = MD5_STEP f d a b c (inp ! k2) s2 c2;
         c = MD5_STEP f c d a b (inp ! k3) s3 c3;
         b = MD5_STEP f b c d a (inp ! k4) s4 c4
     in (a, b, c, d))"

definition md5_round1 :: "u32 list \<Rightarrow> md5_buf \<Rightarrow> md5_buf" where
  "md5_round1 inp = (let q = MD5_QUAD MD5_F (7, 12, 17, 22) inp in
      q ((12, 1804603682), (13, 4254626195), (14, 2792965006), (15, 1236535329))
    \<circ> q ((8, 1770035416), (9, 2336552879), (10, 4294925233), (11, 2304563134))
    \<circ> q ((4, 4118548399), (5, 1200080426), (6, 2821735955), (7, 4249261313))
    \<circ> q ((0, 3614090360), (1, 3905402710), (2, 606105819), (3, 3250441966)))"

definition md5_round2 :: "u32 list \<Rightarrow> md5_buf \<Rightarrow> md5_buf" where
  "md5_round2 inp = (let q = MD5_QUAD MD5_G (5, 9, 14, 20) inp in
      q ((13, 2850285829), (2, 4243563512), (7, 1735328473), (12, 2368359562))
    \<circ> q ((9, 568446438), (14, 3275163606), (3, 4107603335), (8, 1163531501))
    \<circ> q ((5, 3593408605), (10, 38016083), (15, 3634488961), (4, 3889429448))
    \<circ> q ((1, 4129170786), (6, 3225465664), (11, 643717713), (0, 3921069994)))"

definition md5_round3 :: "u32 list \<Rightarrow> md5_buf \<Rightarrow> md5_buf" where
  "md5_round3 inp = (let q = MD5_QUAD MD5_H (4, 11, 16, 23) inp in
      q ((9, 3654602809), (12, 3873151461), (15, 530742520), (2, 3299628645))
    \<circ> q ((13, 681279174), (0, 3936430074), (3, 3572445317), (6, 76029189))
    \<circ> q ((1, 2763975236), (4, 1272893353), (7, 4139469664), (10, 3200236656))
    \<circ> q ((5, 4294588738), (8, 2272392833), (11, 1839030562), (14, 4259657740)))"

definition md5_round4 :: "u32 list \<Rightarrow> md5_buf \<Rightarrow> md5_buf" where
  "md5_round4 inp = (let q = MD5_QUAD MD5_I (6, 10, 15, 21) inp in
      q ((4, 4149444226), (11, 3174756917), (2, 718787259), (9, 3951481745))
    \<circ> q ((8, 1873313359), (15, 4264355552), (6, 2734768916), (13, 1309151649))
    \<circ> q ((12, 1700485571), (3, 2399980690), (10, 4293915773), (1, 2240044497))
    \<circ> q ((0, 4096336452), (7, 1126891415), (14, 2878612391), (5, 4237533241)))"

definition md5_transform :: "md5_buf \<Rightarrow> u32 list \<Rightarrow> md5_buf" where
  "md5_transform buf inp = (case buf of (a0, b0, c0, d0) \<Rightarrow>
     case (md5_round4 inp \<circ> md5_round3 inp \<circ> md5_round2 inp \<circ> md5_round1 inp) buf of
       (a, b, c, d) \<Rightarrow> (a0 + a, b0 + b, c0 + c, d0 + d))"

section \<open>The digest context\<close>

record md5_ctx =
  md5_i0 :: u32
  md5_i1 :: u32
  md5_buf :: md5_buf
  md5_in :: bytes

definition md5_iv :: md5_buf where
  "md5_iv = (0x67452301, 0xefcdab89, 0x98badcfe, 0x10325476)"

definition md5_init :: "bytes \<Rightarrow> md5_ctx" where
  "md5_init stack = \<lparr>md5_i0 = 0, md5_i1 = 0, md5_buf = md5_iv, md5_in = stack\<rparr>"

definition words_of :: "bytes \<Rightarrow> u32 list" where
  "words_of blk = map (\<lambda>i. le32 (blk ! (4 * i)) (blk ! (4 * i + 1)) (blk ! (4 * i + 2)) (blk ! (4 * i + 3))) [0..<16]"

text \<open>The byte loop of \<open>md5_update\<close>: its state is the context and the index \<open>mdi\<close>.\<close>

fun md5_update_loop :: "bytes \<Rightarrow> md5_ctx \<times> nat \<Rightarrow> md5_ctx \<times> nat" where
  "md5_update_loop [] (ctx, mdi) = (ctx, mdi)"
| "md5_update_loop (b # bs) (ctx, mdi) =
     (let ctx = ctx\<lparr>md5_in := (md5_in ctx)[mdi := b]\<rparr> in
      if mdi + 1 = 0x40
      then md5_update_loop bs (ctx\<lparr>md5_buf := md5_transform (md5_buf ctx) (words_of (md5_in ctx))\<rparr>, 0)
      else md5_update_loop bs (ctx, mdi + 1))"

definition md5_update :: "md5_ctx \<Rightarrow> bytes \<Rightarrow> md5_ctx" where
  "md5_update ctx inBuf = (let
     inLen = of_nat (length inBuf) :: u32;
     mdi = unat (drop_bit 3 (md5_i0 ctx) AND 0x3F);
     ctx = (if md5_i0 ctx + push_bit 3 inLen < md5_i0 ctx then ctx\<lparr>md5_i1 := md5_i1 ctx + 1\<rparr> else ctx);
     ctx = ctx\<lparr>md5_i0 := md5_i0 ctx + push_bit 3 inLen, md5_i1 := md5_i1 ctx + drop_bit 29 inLen\<rparr>
     in fst (md5_update_loop inBuf (ctx, mdi)))"

definition MD5_PADDING :: bytes where
  "MD5_PADDING = 0x80 # replicate 63 0"

text \<open>\<open>memcpy(dst + off, src, |src|)\<close> on a byte array.\<close>

definition overwrite :: "'a list \<Rightarrow> nat \<Rightarrow> 'a list \<Rightarrow> 'a list" where
  "overwrite dst off src = take off dst @ src @ drop (off + length src) dst"

section \<open>The container checksum\<close>

text \<open>\<open>pData\<close> is the container and \<open>dwSize\<close> its declared size; the first 20 bytes are skipped.\<close>

definition calculate_dxbc_checksum :: "bytes \<Rightarrow> bytes \<Rightarrow> u32 \<Rightarrow> md5_buf" where
  "calculate_dxbc_checksum stack pData dwSize = (let
     md5Ctx = md5_init stack;
     dwSize = dwSize - 20;
     pData = drop 20 pData;
     dwNumberOfBits = dwSize * 8;
     dwFullChunksSize = dwSize AND 0xffffffc0;
     md5Ctx = md5_update md5Ctx (take (unat dwFullChunksSize) pData);
     dwLastChunkSize = dwSize - dwFullChunksSize;
     dwPaddingSize = 64 - dwLastChunkSize;
     pLastChunkData = drop (unat dwFullChunksSize) pData
     in if dwLastChunkSize \<ge> 56 then
          let md5Ctx = md5_update md5Ctx (take (unat dwLastChunkSize) pLastChunkData);
              md5Ctx = md5_update md5Ctx (take (unat dwPaddingSize) MD5_PADDING);
              inp = (replicate 16 0)[0 := dwNumberOfBits, 15 := drop_bit 2 dwNumberOfBits OR 1]
          in md5_transform (md5_buf md5Ctx) inp
        else
          let md5Ctx = md5_update md5Ctx (bytes32 dwNumberOfBits);
              md5Ctx = (if dwLastChunkSize \<noteq> 0
                        then md5_update md5Ctx (take (unat dwLastChunkSize) pLastChunkData) else md5Ctx);
              dwLastChunkSize = dwLastChunkSize + 4;
              dwPaddingSize = dwPaddingSize - 4;
              buf_in = overwrite (md5_in md5Ctx) (unat dwLastChunkSize) (take (unat dwPaddingSize) MD5_PADDING);
              buf_in = overwrite buf_in 60 (bytes32 (drop_bit 2 dwNumberOfBits OR 1))
          in md5_transform (md5_buf md5Ctx) (words_of buf_in))"

definition hash_bytes :: "md5_buf \<Rightarrow> bytes" where
  "hash_bytes = (\<lambda>(a, b, c, d). bytes32 a @ bytes32 b @ bytes32 c @ bytes32 d)"

text \<open>
  The checksum reads the container up to its declared size; the call is a fault when the
  buffer ends before.
\<close>

definition dxbc_compute_hash :: "unity_common \<Rightarrow> bytes \<Rightarrow> c_buffer \<Rightarrow> (unit, bytes) outcome" where
  "dxbc_compute_hash uc stack data = (case data of
       NullBuf _ \<Rightarrow> Fail ()
     | Buf bs \<Rightarrow>
         if length bs < 32 then Fail ()
         else obind (mem (rd32 bs 24)) (\<lambda>total_size_raw.
           let total_size = read_le32 uc total_size_raw in
           if unat total_size < 32 \<or> unat total_size > length bs then Fail ()
           else Done (hash_bytes (calculate_dxbc_checksum stack bs total_size))))"

definition dxbc_verify_hash :: "unity_common \<Rightarrow> bytes \<Rightarrow> c_buffer \<Rightarrow> bool" where
  "dxbc_verify_hash uc stack data = (case data of
       NullBuf _ \<Rightarrow> False
     | Buf bs \<Rightarrow>
         if length bs < 32 then False
         else (case dxbc_compute_hash uc stack data of
                 Done computed_hash \<Rightarrow> bslice bs 4 16 = computed_hash
               | _ \<Rightarrow> False))"

section \<open>The buffered digest feeds whole blocks\<close>

function blocks :: "bytes \<Rightarrow> bytes list" where
  "blocks bs = (if length bs < 64 then [] else take 64 bs # blocks (drop 64 bs))"
  by pat_completeness auto
termination
  by (relation "measure length") auto

declare blocks.simps [simp del]

definition absorb :: "md5_buf \<Rightarrow> bytes list \<Rightarrow> md5_buf" where
  "absorb = foldl (\<lambda>buf blk. md5_transform buf (words_of blk))"

lemma absorb_simps [simp]:
  "absorb buf [] = buf"
  "absorb buf (blk # blks) = absorb (md5_transform buf (words_of blk)) blks"
  "absorb buf (blks @ blks') = absorb (absorb buf blks) blks'"
  by (simp_all add: absorb_def)

lemma overwrite_Nil [simp]: "overwrite dst off [] = dst"
  by (simp add: overwrite_def)

lemma length_overwrite [simp]: "off + length src \<le> length dst \<Longrightarrow> length (overwrite dst off src) = length dst"
  by (simp add: overwrite_def)

lemma overwrite_snoc:
  "off + length src < length dst \<Longrightarrow> (overwrite dst off src)[off + length src := x] = overwrite dst off (src @ [x])"
  by (simp add: overwrite_def list_update_append upd_conv_take_nth_drop min_def drop_Suc)

lemma overwrite_all: "length src = length dst \<Longrightarrow> overwrite dst 0 src = src"
  by (simp add: overwrite_def)

lemma overwrite_overwrite:
  "off + length src \<le> length dst \<Longrightarrow> overwrite (overwrite dst off src) (off + length src) src' = overwrite dst off (src @ src')"
  by (simp add: overwrite_def ac_simps)

lemma md5_update_loop_append:
  "md5_update_loop (xs @ ys) s = md5_update_loop ys (md5_update_loop xs s)"
proof (induction xs arbitrary: s)
  case Nil
  then show ?case by (cases s) simp
next
  case (Cons x xs)
  then show ?case by (cases s) (simp add: Let_def)
qed

lemma md5_update_loop_partial:
  assumes "length (md5_in ctx) = 64" "mdi + length bs < 64"
  shows "md5_update_loop bs (ctx, mdi) = (ctx\<lparr>md5_in := overwrite (md5_in ctx) mdi bs\<rparr>, mdi + length bs)"
  using assms
proof (induction bs rule: rev_induct)
  case (snoc b bs)
  then show ?case by (simp add: md5_update_loop_append overwrite_snoc Let_def)
qed simp

lemma md5_update_loop_fill:
  assumes "length (md5_in ctx) = 64" "mdi + length bs = 64" "bs \<noteq> []"
  shows "md5_update_loop bs (ctx, mdi) =
    (ctx\<lparr>md5_in := overwrite (md5_in ctx) mdi bs,
         md5_buf := md5_transform (md5_buf ctx) (words_of (overwrite (md5_in ctx) mdi bs))\<rparr>, 0)"
proof -
  obtain xs b where bs: "bs = xs @ [b]" using assms(3) by (cases bs rule: rev_cases) auto
  with assms show ?thesis
    by (simp add: md5_update_loop_append md5_update_loop_partial overwrite_snoc [symmetric])
qed

lemma md5_update_loop_blocks:
  assumes "length (md5_in ctx) = 64" "length bs = 64 * n"
  shows "\<exists>inp. length inp = 64 \<and>
    md5_update_loop bs (ctx, 0) = (ctx\<lparr>md5_in := inp, md5_buf := absorb (md5_buf ctx) (blocks bs)\<rparr>, 0)"
  using assms
proof (induction n arbitrary: bs ctx)
  case 0
  then show ?case by (auto simp: blocks.simps)
next
  case (Suc n)
  have split: "bs = take 64 bs @ drop 64 bs" by simp
  have fill: "md5_update_loop (take 64 bs) (ctx, 0) =
      (ctx\<lparr>md5_in := take 64 bs, md5_buf := md5_transform (md5_buf ctx) (words_of (take 64 bs))\<rparr>, 0)" (is "_ = (?ctx1, 0)")
    using Suc.prems by (subst md5_update_loop_fill) (auto simp: overwrite_all)
  obtain inp where inp: "length inp = 64" "md5_update_loop (drop 64 bs) (?ctx1, 0) =
      (?ctx1\<lparr>md5_in := inp, md5_buf := absorb (md5_buf ?ctx1) (blocks (drop 64 bs))\<rparr>, 0)"
    using Suc.IH [of ?ctx1 "drop 64 bs"] Suc.prems by auto
  have "md5_update_loop bs (ctx, 0) = md5_update_loop (drop 64 bs) (?ctx1, 0)"
    by (metis split fill md5_update_loop_append)
  moreover have "blocks bs = take 64 bs # blocks (drop 64 bs)"
    using Suc.prems by (subst blocks.simps) simp
  ultimately show ?case using inp by auto
qed

text \<open>\<open>fed m ctx\<close>: the context has absorbed \<open>m\<close> bytes, so \<open>mdi\<close> is \<open>m mod 64\<close>.\<close>

definition fed :: "nat \<Rightarrow> md5_ctx \<Rightarrow> bool" where
  "fed m ctx \<longleftrightarrow> md5_i0 ctx = of_nat (8 * m) \<and> length (md5_in ctx) = 64"

lemma mdi_of_fed:
  assumes "fed m ctx"
  shows "unat (drop_bit 3 (md5_i0 ctx) AND 0x3F) = m mod 64"
proof -
  have m6: "(0x3F :: u32) = mask 6" by (simp add: mask_eq_exp_minus_1)
  have "unat (drop_bit 3 (md5_i0 ctx) AND 0x3F) = unat (drop_bit 3 (md5_i0 ctx)) mod 64"
    unfolding m6 by (simp add: unat_and_mask)
  also have "unat (drop_bit 3 (md5_i0 ctx)) = (8 * m mod 2 ^ 32) div 8"
  proof -
    have "unat (md5_i0 ctx) = 8 * m mod 2 ^ 32"
      using assms unfolding fed_def by (simp only: unat_of_nat) simp
    then show ?thesis by (simp only: unat_drop_bit_eq) (simp add: drop_bit_eq_div)
  qed
  also have "(8 * m mod 2 ^ 32) div 8 = m mod 2 ^ 29"
    using mod_mult_mult1 [of 8 m "2 ^ 29"] by simp
  also have "m mod 2 ^ 29 mod 64 = m mod 64"
    by (rule mod_mod_cancel) (simp add: dvd_def)
  finally show ?thesis .
qed

lemma md5_update_eq:
  assumes "fed m ctx"
  obtains ctx' where "md5_i0 ctx' = of_nat (8 * (m + length bs))"
    "md5_buf ctx' = md5_buf ctx" "md5_in ctx' = md5_in ctx"
    "md5_update ctx bs = fst (md5_update_loop bs (ctx', m mod 64))"
proof -
  have i0: "md5_i0 ctx + push_bit 3 (of_nat (length bs)) = of_nat (8 * (m + length bs))"
    using assms by (simp add: fed_def push_bit_eq_mult algebra_simps)
  show ?thesis
    by (rule that, unfold md5_update_def Let_def mdi_of_fed [OF assms]) (auto simp: i0)
qed

lemma md5_update_blocks:
  assumes "fed m ctx" "m mod 64 = 0" "length bs = 64 * n"
  shows "md5_buf (md5_update ctx bs) = absorb (md5_buf ctx) (blocks bs)"
    "fed (m + length bs) (md5_update ctx bs)"
proof -
  obtain ctx' where c: "md5_i0 ctx' = of_nat (8 * (m + length bs))" "md5_buf ctx' = md5_buf ctx"
      "md5_in ctx' = md5_in ctx" "md5_update ctx bs = fst (md5_update_loop bs (ctx', m mod 64))"
    using md5_update_eq [OF assms(1)] by blast
  moreover have "length (md5_in ctx') = 64" using c assms by (simp add: fed_def)
  ultimately show "md5_buf (md5_update ctx bs) = absorb (md5_buf ctx) (blocks bs)"
    "fed (m + length bs) (md5_update ctx bs)"
    using md5_update_loop_blocks [of ctx' bs n] assms by (auto simp: fed_def)
qed

lemma md5_update_partial:
  assumes "fed m ctx" "m mod 64 + length bs < 64"
  shows "md5_buf (md5_update ctx bs) = md5_buf ctx"
    "md5_in (md5_update ctx bs) = overwrite (md5_in ctx) (m mod 64) bs"
    "fed (m + length bs) (md5_update ctx bs)"
proof -
  obtain ctx' where c: "md5_i0 ctx' = of_nat (8 * (m + length bs))" "md5_buf ctx' = md5_buf ctx"
      "md5_in ctx' = md5_in ctx" "md5_update ctx bs = fst (md5_update_loop bs (ctx', m mod 64))"
    using md5_update_eq [OF assms(1)] by blast
  moreover have "length (md5_in ctx') = 64" using c assms by (simp add: fed_def)
  ultimately show "md5_buf (md5_update ctx bs) = md5_buf ctx"
    "md5_in (md5_update ctx bs) = overwrite (md5_in ctx) (m mod 64) bs"
    "fed (m + length bs) (md5_update ctx bs)"
    using assms by (simp_all add: md5_update_loop_partial fed_def)
qed

lemma md5_update_fill:
  assumes "fed m ctx" "m mod 64 + length bs = 64" "bs \<noteq> []"
  shows "md5_buf (md5_update ctx bs) = md5_transform (md5_buf ctx) (words_of (overwrite (md5_in ctx) (m mod 64) bs))"
proof -
  obtain ctx' where c: "md5_buf ctx' = md5_buf ctx"
      "md5_in ctx' = md5_in ctx" "md5_update ctx bs = fst (md5_update_loop bs (ctx', m mod 64))"
    using md5_update_eq [OF assms(1)] by blast
  moreover have "length (md5_in ctx') = 64" using c assms by (simp add: fed_def)
  ultimately show ?thesis
    using assms by (simp add: md5_update_loop_fill)
qed

lemma blocks_take: "blocks (take (64 * (length bs div 64)) bs) = blocks bs"
proof (induction bs rule: blocks.induct)
  case (1 bs)
  show ?case
  proof (cases "length bs < 64")
    case True
    then show ?thesis by (simp add: blocks.simps)
  next
    case False
    define k where "k = length (drop 64 bs) div 64"
    have k: "length bs div 64 = Suc k" unfolding k_def using False by (simp add: le_div_geq)
    have "k * 64 \<le> length bs - 64" unfolding k_def by simp
    then have "take 64 (take (64 * (length bs div 64)) bs) = take 64 bs"
      "drop 64 (take (64 * (length bs div 64)) bs) = take (64 * k) (drop 64 bs)"
      "\<not> length (take (64 * (length bs div 64)) bs) < 64"
      using False by (simp_all add: k min_def drop_take)
    with False 1 show ?thesis
      by (subst blocks.simps, subst (2) blocks.simps) (simp add: k_def)
  qed
qed

section \<open>The reference checksum\<close>

text \<open>
  The message is the container after its first 20 bytes.  Its whole 64-byte blocks are
  followed by one block when fewer than 56 bytes remain: the bit count, the remaining bytes, a
  set bit and zeros, and the closing word.  Otherwise the remaining bytes are padded to a
  block of their own and the bit count and the closing word go into one more.
\<close>

definition dxbc_padded :: "bytes \<Rightarrow> bytes list" where
  "dxbc_padded msg = (let
     bits = of_nat (length msg) * 8 :: u32;
     closing = bytes32 (drop_bit 2 bits OR 1);
     rest = drop (64 * (length msg div 64)) msg
     in blocks msg @
        (if 56 \<le> length rest
         then [rest @ 0x80 # replicate (63 - length rest) 0, bytes32 bits @ replicate 56 0 @ closing]
         else [bytes32 bits @ rest @ 0x80 # replicate (55 - length rest) 0 @ closing]))"

lemma words_of_length_block:
  "words_of (bytes32 v @ replicate 56 0 @ bytes32 w) = (replicate 16 0)[0 := v, 15 := w]"
proof (rule nth_equalityI)
  fix i assume "i < length (words_of (bytes32 v @ replicate 56 0 @ bytes32 w))"
  then have i: "i < 16" by (simp add: words_of_def)
  then consider "i = 0" | "0 < i" "i < 15" | "i = 15" by linarith
  then show "words_of (bytes32 v @ replicate 56 0 @ bytes32 w) ! i = (replicate 16 0)[0 := v, 15 := w] ! i"
  proof cases
    case 2
    then have z: "(bytes32 v @ replicate 56 0 @ bytes32 w) ! (4 * i + k) = 0" if "k < 4" for k
      using that by (auto simp: nth_append)
    from 2 show ?thesis
      using z [of 0] z [of 1] z [of 2] z [of 3] by (simp add: words_of_def le32_def)
  qed (simp_all add: words_of_def bytes32_def nth_append le32_bytes32)
qed (simp add: words_of_def)

lemma MD5_PADDING_take: "0 < n \<Longrightarrow> n \<le> 64 \<Longrightarrow> take n MD5_PADDING = 0x80 # replicate (n - 1) 0"
  by (cases n) (auto simp: MD5_PADDING_def min_def)

text \<open>The last block of the short form, assembled in place in the digest buffer.\<close>

lemma overwrite_closing:
  assumes "length inp = 64" "length rest < 56" "length closing = 4"
  shows "overwrite (overwrite (overwrite inp 0 (bytes32 bits @ rest)) (length rest + 4)
      (take (60 - length rest) MD5_PADDING)) 60 closing =
    bytes32 bits @ rest @ 0x80 # replicate (55 - length rest) 0 @ closing"
proof -
  have "overwrite (overwrite inp 0 (bytes32 bits @ rest)) (length rest + 4) (take (60 - length rest) MD5_PADDING)
      = bytes32 bits @ rest @ 0x80 # replicate (59 - length rest) 0"
    using assms by (simp add: overwrite_def MD5_PADDING_take)
  then show ?thesis
    using assms by (simp add: overwrite_def take_Cons' min_def)
qed

lemma unat_low_bits: "w - (w AND NOT (mask 6)) = (w AND mask 6 :: u32)"
proof -
  have "(w AND mask 6) + (w AND NOT (mask 6)) = w"
    by (subst disjunctive_add_eq_or) (auto simp: bit_eq_iff bit_simps)
  then show ?thesis by (metis add_diff_cancel_right')
qed

lemma checksum_long_form:
  assumes "fed (64 * k) ctx" "56 \<le> length rest" "length rest < 64"
  shows "md5_buf (md5_update (md5_update ctx rest) (take (64 - length rest) MD5_PADDING)) =
    md5_transform (md5_buf ctx) (words_of (rest @ 0x80 # replicate (63 - length rest) 0))"
proof -
  have ctx1: "md5_buf (md5_update ctx rest) = md5_buf ctx"
      "md5_in (md5_update ctx rest) = overwrite (md5_in ctx) 0 rest"
      "fed (64 * k + length rest) (md5_update ctx rest)"
    using md5_update_partial [OF assms(1), of rest] assms by simp_all
  have "overwrite (overwrite (md5_in ctx) 0 rest) (length rest) (take (64 - length rest) MD5_PADDING)
      = rest @ 0x80 # replicate (63 - length rest) 0"
    using assms by (simp add: overwrite_def MD5_PADDING_take fed_def)
  then show ?thesis
    using md5_update_fill [OF ctx1(3), of "take (64 - length rest) MD5_PADDING"] assms
    by (simp add: MD5_PADDING_take ctx1)
qed

lemma checksum_short_form:
  fixes bits :: u32
  assumes "fed (64 * k) ctx" "length rest < 56"
  defines "ctx2 \<equiv> (if rest \<noteq> [] then md5_update (md5_update ctx (bytes32 bits)) rest else md5_update ctx (bytes32 bits))"
  shows "md5_buf ctx2 = md5_buf ctx"
    "overwrite (overwrite (md5_in ctx2) (length rest + 4) (take (60 - length rest) MD5_PADDING)) 60 (bytes32 closing)
     = bytes32 bits @ rest @ 0x80 # replicate (55 - length rest) 0 @ bytes32 closing"
proof -
  have ctx1: "md5_buf (md5_update ctx (bytes32 bits)) = md5_buf ctx"
      "md5_in (md5_update ctx (bytes32 bits)) = overwrite (md5_in ctx) 0 (bytes32 bits)"
      "fed (64 * k + 4) (md5_update ctx (bytes32 bits))"
    using md5_update_partial [OF assms(1), of "bytes32 bits"] by simp_all
  have ctx2: "md5_buf ctx2 = md5_buf ctx" "md5_in ctx2 = overwrite (md5_in ctx) 0 (bytes32 bits @ rest)"
    using md5_update_partial [OF ctx1(3), of rest] assms(1,2) overwrite_overwrite [of 0 "bytes32 bits" "md5_in ctx" rest]
    by (auto simp: ctx2_def ctx1 fed_def)
  then show "md5_buf ctx2 = md5_buf ctx" by simp
  have "length (md5_in ctx) = 64" using assms(1) by (simp add: fed_def)
  then show "overwrite (overwrite (md5_in ctx2) (length rest + 4) (take (60 - length rest) MD5_PADDING)) 60 (bytes32 closing)
     = bytes32 bits @ rest @ 0x80 # replicate (55 - length rest) 0 @ bytes32 closing"
    unfolding ctx2(2) using assms(2) by (rule overwrite_closing) simp
qed

lemma checksum_is_reference:
  assumes stack: "length stack = 64" and sz: "20 \<le> unat dwSize" "unat dwSize \<le> length bs"
  shows "calculate_dxbc_checksum stack bs dwSize = absorb md5_iv (dxbc_padded (bslice bs 20 (unat dwSize - 20)))"
proof -
  define msg where "msg = bslice bs 20 (unat dwSize - 20)"
  define w where "w = dwSize - 20"
  define n where "n = length msg"
  define rest where "rest = drop (64 * (n div 64)) msg"
  have n: "n = unat dwSize - 20" using sz by (simp add: n_def msg_def slice_simps)
  have w: "unat w = n" unfolding w_def n using sz(1) by (simp add: unat_sub word_le_nat_alt)
  have wn: "of_nat n = w" using w [symmetric] by simp
  have m6: "(0xffffffc0 :: u32) = NOT (mask 6)" by (simp add: mask_eq_exp_minus_1)
  have full: "unat (w AND 0xffffffc0) = 64 * (n div 64)"
    unfolding m6 unat_and_not_mask w by (simp add: minus_mod_eq_mult_div)
  define lw where "lw = w - (w AND 0xffffffc0)"
  have lastw: "unat lw = n mod 64"
    unfolding lw_def m6 unat_low_bits unat_and_mask w by simp
  have rest: "length rest = n mod 64"
    by (simp add: rest_def n_def minus_mult_div_eq_mod)
  define ctx0 where "ctx0 = md5_update (md5_init stack) (take (64 * (n div 64)) msg)"
  have fed0: "fed 0 (md5_init stack)" using stack by (simp add: fed_def md5_init_def)
  have lfull: "length (take (64 * (n div 64)) msg) = 64 * (n div 64)" by (simp add: n_def)
  have ctx0: "md5_buf ctx0 = absorb md5_iv (blocks msg)" "fed (64 * (n div 64)) ctx0"
    using md5_update_blocks [OF fed0 _ lfull] by (simp_all add: ctx0_def lfull blocks_take n_def md5_init_def)
  have take_full: "take (64 * (n div 64)) (drop 20 bs) = take (64 * (n div 64)) msg"
    by (simp add: msg_def bslice_def n min_def)
  have take_rest: "take (n mod 64) (drop (64 * (n div 64)) (drop 20 bs)) = rest"
    by (simp add: rest_def msg_def bslice_def n drop_take modulo_nat_def mult.commute)
  have take_rest': "take (length rest) (drop (64 * (n div 64) + 20) bs) = rest"
    using take_rest by (simp add: rest)
  have rest64: "length rest < 64" "n mod 64 = length rest" by (simp_all add: rest)
  note unfolded = calculate_dxbc_checksum_def Let_def w_def [symmetric] lw_def [symmetric] full lastw take_full take_rest' ctx0_def [symmetric]
    dxbc_padded_def msg_def [symmetric] n_def [symmetric] wn rest_def [symmetric] rest64(2)
  show ?thesis
  proof (cases "56 \<le> length rest")
    case True
    then have ge: "lw \<ge> 56" by (simp add: word_le_nat_alt lastw rest)
    have pad: "unat (64 - lw) = 64 - length rest"
      by (subst unat_sub) (simp_all add: word_le_nat_alt lastw rest less_imp_le)
    show ?thesis
      using True checksum_long_form [OF ctx0(2) True rest64(1)]
      by (simp add: unfolded ge pad ctx0(1) words_of_length_block)
  next
    case False
    then have lt: "\<not> lw \<ge> 56" by (simp add: word_le_nat_alt lastw rest)
    have pad: "unat (60 - lw) = 60 - length rest"
      using False by (subst unat_sub) (simp_all add: word_le_nat_alt lastw rest)
    have off: "unat (lw + 4) = length rest + 4"
      using False by (simp add: unat_word_ariths lastw rest)
    have nz: "lw \<noteq> 0 \<longleftrightarrow> rest \<noteq> []"
      by (metis lastw rest length_0_conv unat_eq_zero)
    show ?thesis
      using checksum_short_form [OF ctx0(2), of rest "w * 8"] False
      by (cases "rest = []") (simp_all add: unfolded lt pad off nz ctx0(1))
  qed
qed

section \<open>Properties\<close>

lemma length_hash_bytes [simp]: "length (hash_bytes h) = 16"
  by (cases h) (simp add: hash_bytes_def)

lemma checksum_skips_header:
  assumes "length stack = 64" "length stack' = 64" "32 \<le> unat dwSize" "unat dwSize \<le> length bs"
    "length bs' = length bs" "drop 20 bs' = drop 20 bs"
  shows "calculate_dxbc_checksum stack' bs' dwSize = calculate_dxbc_checksum stack bs dwSize"
  using assms by (simp add: checksum_is_reference bslice_def)

lemma rd32_overwrite_hash:
  "length h = 16 \<Longrightarrow> 32 \<le> length bs \<Longrightarrow> 20 \<le> off \<Longrightarrow> rd32 (overwrite bs 4 h) off = rd32 bs off"
  by (auto simp: rd32_def overwrite_def nth_append min_def ac_simps)

lemma dxbc_compute_hash_safe: "dxbc_compute_hash uc stack data \<noteq> Fault"
  by (auto simp: dxbc_compute_hash_def outcome_simps Let_def split: c_buffer.splits if_splits)

lemma compute_then_verify:
  assumes "length stack = 64" "length stack' = 64" "dxbc_compute_hash uc stack (Buf bs) = Done h"
  shows "dxbc_verify_hash uc stack' (Buf (overwrite bs 4 h))"
proof -
  from assms(3) obtain raw where raw: "rd32 bs 24 = Some raw" "32 \<le> length bs"
    and range: "32 \<le> unat (read_le32 uc raw)" "unat (read_le32 uc raw) \<le> length bs"
    and h: "h = hash_bytes (calculate_dxbc_checksum stack bs (read_le32 uc raw))"
    by (auto simp: dxbc_compute_hash_def outcome_simps Let_def split: if_splits)
  let ?bs = "overwrite bs 4 h"
  have len: "length ?bs = length bs" "length h = 16" using raw h by simp_all
  have "drop 20 ?bs = drop 20 bs" using len raw by (simp add: overwrite_def min_def)
  with assms range len have "calculate_dxbc_checksum stack' ?bs (read_le32 uc raw)
      = calculate_dxbc_checksum stack bs (read_le32 uc raw)"
    by (intro checksum_skips_header) simp_all
  moreover have "bslice ?bs 4 16 = h"
    using len raw by (simp add: bslice_def overwrite_def min_def)
  ultimately show ?thesis
    using raw range len h by (simp add: dxbc_verify_hash_def dxbc_compute_hash_def rd32_overwrite_hash)
qed

text \<open>
  A container stamped with its own hash, with the digest buffer of the stack cleared, is how
  the examples of the development are built.
\<close>

definition stamp :: "bytes \<Rightarrow> bytes" where
  "stamp bs = overwrite bs 4 (hash_bytes (calculate_dxbc_checksum (replicate 64 0) bs (of_nat (length bs))))"

lemma stamp_shape:
  assumes "32 \<le> length bs"
  obtains h where "length h = 16" "stamp bs = take 4 bs @ h @ drop 20 bs"
  using assms by (intro that [of "hash_bytes (calculate_dxbc_checksum (replicate 64 0) bs (of_nat (length bs)))"])
    (simp_all add: stamp_def overwrite_def)

lemma stamp_verifies:
  assumes "length stack = 64" "32 \<le> length bs" "length bs < 2 ^ 32" "rd32 bs 24 = Some (of_nat (length bs))"
  shows "dxbc_verify_hash lp64_common stack (Buf (stamp bs))"
proof -
  have "unat (of_nat (length bs) :: u32) = length bs"
    using assms(3) by (simp add: unat_of_nat take_bit_nat_eq_self)
  then have "dxbc_compute_hash lp64_common (replicate 64 0) (Buf bs) =
      Done (hash_bytes (calculate_dxbc_checksum (replicate 64 0) bs (of_nat (length bs))))"
    using assms by (simp add: dxbc_compute_hash_def)
  from compute_then_verify [OF _ assms(1) this] show ?thesis by (simp add: stamp_def)
qed

text \<open>The smallest container: a header with no chunks.\<close>

definition empty_container :: bytes where
  "empty_container = magic_DXBC @ replicate 16 0 @ bytes32 1 @ bytes32 32 @ bytes32 0"

lemma empty_container_simps [simp]:
  "length empty_container = 32" "rd32 empty_container 24 = Some 32"
  by (simp_all add: empty_container_def image_simps)

text \<open>
  C5: for a container whose declared size fits its buffer, the checksum routine returns the
  reference checksum (whole blocks, then the modified padding) of the bytes after the first 20,
  whatever the indeterminate content of the digest buffer on the stack.
\<close>

theorem compute_hash_is_reference:
  assumes "little_endian_host uc" "length stack = 64"
    and "rd32 bs 24 = Some dwSize" "32 \<le> unat dwSize" "unat dwSize \<le> length bs"
  shows "dxbc_compute_hash uc stack (Buf bs) =
    Done (hash_bytes (absorb md5_iv (dxbc_padded (bslice bs 20 (unat dwSize - 20)))))"
  using assms by (simp add: dxbc_compute_hash_def checksum_is_reference)

theorem compute_hash_is_reference_witness:
  "dxbc_compute_hash lp64_common (replicate 64 0) (Buf empty_container) =
    Done (hash_bytes (absorb md5_iv (dxbc_padded (bslice empty_container 20 12))))"
  using compute_hash_is_reference [of lp64_common "replicate 64 0" empty_container 32] by simp

text \<open>
  C6: stamping a container with its computed hash (bytes 4 to 19) yields a container that
  verifies, and changes nothing the hash depends on.
\<close>

theorem stamped_container_verifies:
  assumes "length stack = 64" "length stack' = 64" "dxbc_compute_hash uc stack (Buf bs) = Done h"
  shows "dxbc_verify_hash uc stack' (Buf (overwrite bs 4 h))"
  using assms by (rule compute_then_verify)

theorem stamped_container_verifies_witness:
  "dxbc_verify_hash lp64_common (replicate 64 1) (Buf (stamp empty_container))"
  using stamped_container_verifies [of "replicate 64 0" "replicate 64 1" lp64_common empty_container]
  by (simp add: dxbc_compute_hash_def stamp_def)

end
