(* ===== verification/Dxbc_Document.thy ===== *)
theory Dxbc_Document
  imports Dxbc_Hash
begin

text \<open>
  \<open>src/dxbc/dxbc_document.c\<close>: the lossless document.  The parser copies the container,
  validates its chunk table and its hash and slices every executable chunk into raw
  instructions.  Views (\<open>raw_bytes\<close>, \<open>payload_bytes\<close>) are offsets into the owned copy.
\<close>

section \<open>Data\<close>

datatype document_diagnostic_kind = DXBC_DOCUMENT_DIAGNOSTIC_VALIDATION | DXBC_DOCUMENT_DIAGNOSTIC_UNSUPPORTED

datatype document_diagnostic_code =
    DXBC_DOCUMENT_OK
  | DXBC_DOCUMENT_INVALID_ARGUMENT
  | DXBC_DOCUMENT_OUT_OF_MEMORY
  | DXBC_DOCUMENT_NOT_DXBC
  | DXBC_DOCUMENT_TRUNCATED_HEADER
  | DXBC_DOCUMENT_UNSUPPORTED_CONTAINER_VERSION
  | DXBC_DOCUMENT_DECLARED_SIZE_INVALID
  | DXBC_DOCUMENT_DECLARED_SIZE_MISMATCH
  | DXBC_DOCUMENT_CHUNK_TABLE_OVERFLOW
  | DXBC_DOCUMENT_CHUNK_OFFSET_UNALIGNED
  | DXBC_DOCUMENT_CHUNK_OFFSET_IN_HEADER
  | DXBC_DOCUMENT_DUPLICATE_CHUNK_OFFSET
  | DXBC_DOCUMENT_TRUNCATED_CHUNK_HEADER
  | DXBC_DOCUMENT_CHUNK_RANGE_OVERFLOW
  | DXBC_DOCUMENT_TRUNCATED_CHUNK_PAYLOAD
  | DXBC_DOCUMENT_OVERLAPPING_CHUNKS
  | DXBC_DOCUMENT_HASH_MISMATCH
  | DXBC_DOCUMENT_EXECUTABLE_SIZE_UNALIGNED
  | DXBC_DOCUMENT_TRUNCATED_EXECUTABLE_HEADER
  | DXBC_DOCUMENT_EXECUTABLE_LENGTH_MISMATCH
  | DXBC_DOCUMENT_TRUNCATED_INSTRUCTION
  | DXBC_DOCUMENT_INSTRUCTION_LENGTH_INVALID
  | DXBC_DOCUMENT_TRUNCATED_OPCODE_EXTENSION
  | DXBC_DOCUMENT_UNSUPPORTED_SHADER_STAGE
  | DXBC_DOCUMENT_CORRUPT_DOCUMENT

abbreviation (input) DXBC_DOCUMENT_NO_INDEX :: nat where "DXBC_DOCUMENT_NO_INDEX \<equiv> UINT32_MAX"
abbreviation (input) DXBC_DOCUMENT_HEADER_SIZE :: nat where "DXBC_DOCUMENT_HEADER_SIZE \<equiv> 32"

record document_diagnostic =
  diag_kind :: document_diagnostic_kind
  diag_code :: document_diagnostic_code
  diag_byte_offset :: nat
  diag_chunk_index :: nat
  diag_instruction_index :: nat
  diag_expected :: nat
  diag_actual :: nat

datatype document_chunk_kind =
    DXBC_DOCUMENT_CHUNK_UNKNOWN
  | DXBC_DOCUMENT_CHUNK_EXECUTABLE
  | DXBC_DOCUMENT_CHUNK_SIGNATURE
  | DXBC_DOCUMENT_CHUNK_REFLECTION
  | DXBC_DOCUMENT_CHUNK_STATISTICS
  | DXBC_DOCUMENT_CHUNK_DEBUG

record document_chunk =
  chunk_fourcc :: bytes
  chunk_kind :: document_chunk_kind
  chunk_table_index :: nat
  chunk_offset :: u32
  chunk_payload_size :: u32
  chunk_raw_size :: nat
  chunk_raw_bytes :: nat
  chunk_payload_bytes :: nat

record document_instruction =
  inst_chunk_index :: nat
  inst_instruction_index :: nat
  inst_byte_offset :: nat
  inst_byte_size :: nat
  inst_token_count :: u32
  inst_opcode :: u32
  inst_encoded_length :: u32
  inst_extended_opcode_token_count :: nat
  inst_uses_customdata_length :: bool
  inst_raw_bytes :: "nat option"

record document =
  doc_magic :: bytes
  doc_hash :: bytes
  doc_container_version :: u32
  doc_declared_size :: u32
  doc_chunk_count :: u32
  doc_hash_valid :: bool
  doc_owned_bytes :: "bytes option"
  doc_owned_size :: nat
  doc_chunks :: "document_chunk list"
  doc_instructions :: "document_instruction list"
  doc_instruction_capacity :: nat
  doc_diagnostics :: "document_diagnostic list"
  doc_diagnostic_capacity :: nat

text \<open>Sizes of the elements of the owned arrays under the LP64 data model.\<close>

abbreviation (input) sizeof_chunk :: nat where "sizeof_chunk \<equiv> 48"
abbreviation (input) sizeof_instruction :: nat where "sizeof_instruction \<equiv> 56"
abbreviation (input) sizeof_diagnostic :: nat where "sizeof_diagnostic \<equiv> 40"

section \<open>Diagnostics and classification\<close>

definition read_u32_le :: "unity_common \<Rightarrow> bytes \<Rightarrow> nat \<Rightarrow> ('e, u32) outcome" where
  "read_u32_le uc bs off = obind (mem (rd32 bs off)) (\<lambda>value. Done (read_le32 uc value))"

definition clear_diagnostic :: document_diagnostic where
  "clear_diagnostic = \<lparr>diag_kind = DXBC_DOCUMENT_DIAGNOSTIC_VALIDATION, diag_code = DXBC_DOCUMENT_OK,
     diag_byte_offset = 0, diag_chunk_index = DXBC_DOCUMENT_NO_INDEX,
     diag_instruction_index = DXBC_DOCUMENT_NO_INDEX, diag_expected = 0, diag_actual = 0\<rparr>"

fun diagnostic_kind :: "document_diagnostic_code \<Rightarrow> document_diagnostic_kind" where
  "diagnostic_kind DXBC_DOCUMENT_UNSUPPORTED_CONTAINER_VERSION = DXBC_DOCUMENT_DIAGNOSTIC_UNSUPPORTED"
| "diagnostic_kind DXBC_DOCUMENT_UNSUPPORTED_SHADER_STAGE = DXBC_DOCUMENT_DIAGNOSTIC_UNSUPPORTED"
| "diagnostic_kind _ = DXBC_DOCUMENT_DIAGNOSTIC_VALIDATION"

definition make_diagnostic :: "document_diagnostic_code \<Rightarrow> nat \<Rightarrow> nat \<Rightarrow> nat \<Rightarrow> nat \<Rightarrow> nat \<Rightarrow> document_diagnostic" where
  "make_diagnostic code byte_offset chunk_index instruction_index expected actual =
     \<lparr>diag_kind = diagnostic_kind code, diag_code = code, diag_byte_offset = byte_offset,
      diag_chunk_index = chunk_index, diag_instruction_index = instruction_index,
      diag_expected = expected, diag_actual = actual\<rparr>"

definition report_failure ::
  "document_diagnostic_code \<Rightarrow> nat \<Rightarrow> nat \<Rightarrow> nat \<Rightarrow> nat \<Rightarrow> nat \<Rightarrow> (document_diagnostic, 'a) outcome" where
  "report_failure code byte_offset chunk_index instruction_index expected actual =
     Fail (make_diagnostic code byte_offset chunk_index instruction_index expected actual)"

text \<open>Four-character codes as the bytes \<open>memcmp\<close> compares.\<close>

definition fourcc :: "string \<Rightarrow> bytes" where
  "fourcc s = map (\<lambda>c. of_nat (of_char c)) s"

definition fourcc_equal :: "bytes \<Rightarrow> string \<Rightarrow> bool" where
  "fourcc_equal bs name \<longleftrightarrow> bs = fourcc name"

definition classify_chunk :: "bytes \<Rightarrow> document_chunk_kind" where
  "classify_chunk c =
     (if fourcc_equal c ''SHDR'' \<or> fourcc_equal c ''SHEX'' then DXBC_DOCUMENT_CHUNK_EXECUTABLE
      else if fourcc_equal c ''ISGN'' \<or> fourcc_equal c ''ISG1'' \<or> fourcc_equal c ''OSGN'' \<or>
              fourcc_equal c ''OSG1'' \<or> fourcc_equal c ''OSG5'' \<or> fourcc_equal c ''PCSG'' \<or>
              fourcc_equal c ''PSG1'' then DXBC_DOCUMENT_CHUNK_SIGNATURE
      else if fourcc_equal c ''RDEF'' \<or> fourcc_equal c ''RD11'' then DXBC_DOCUMENT_CHUNK_REFLECTION
      else if fourcc_equal c ''STAT'' then DXBC_DOCUMENT_CHUNK_STATISTICS
      else if fourcc_equal c ''SDBG'' \<or> fourcc_equal c ''SPDB'' \<or> fourcc_equal c ''ILDB'' \<or>
              fourcc_equal c ''ILDN'' then DXBC_DOCUMENT_CHUNK_DEBUG
      else DXBC_DOCUMENT_CHUNK_UNKNOWN)"

section \<open>Growing the owned arrays\<close>

definition append_diagnostic ::
  "unity_common \<Rightarrow> document \<Rightarrow> document_diagnostic_code \<Rightarrow> nat \<Rightarrow> nat \<Rightarrow> nat \<Rightarrow> nat \<Rightarrow> nat \<Rightarrow> (document_diagnostic, document) outcome" where
  "append_diagnostic uc doc code byte_offset chunk_index instruction_index expected actual =
     obind (if length (doc_diagnostics doc) = doc_diagnostic_capacity doc then
              let old_capacity = doc_diagnostic_capacity doc;
                  new_capacity = (if old_capacity = 0 then 4 else old_capacity * 2 mod 2 ^ 64) in
              if new_capacity < old_capacity \<or> new_capacity > SIZE_MAX div sizeof_diagnostic \<or>
                 \<not> mem_realloc uc (old_capacity * sizeof_diagnostic) (new_capacity * sizeof_diagnostic)
              then report_failure DXBC_DOCUMENT_OUT_OF_MEMORY byte_offset chunk_index instruction_index 0 0
              else Done (doc\<lparr>doc_diagnostic_capacity := new_capacity\<rparr>)
            else Done doc)
       (\<lambda>doc. Done (doc\<lparr>doc_diagnostics := doc_diagnostics doc @
          [make_diagnostic code byte_offset chunk_index instruction_index expected actual]\<rparr>))"

definition append_instruction ::
  "unity_common \<Rightarrow> document \<Rightarrow> document_instruction \<Rightarrow> (document_diagnostic, document) outcome" where
  "append_instruction uc doc inst =
     obind (if length (doc_instructions doc) = doc_instruction_capacity doc then
              let old_capacity = doc_instruction_capacity doc;
                  new_capacity = (if old_capacity = 0 then 64 else old_capacity * 2 mod 2 ^ 64) in
              if new_capacity < old_capacity \<or> new_capacity > SIZE_MAX div sizeof_instruction \<or>
                 \<not> mem_realloc uc (old_capacity * sizeof_instruction) (new_capacity * sizeof_instruction)
              then report_failure DXBC_DOCUMENT_OUT_OF_MEMORY (inst_byte_offset inst)
                     (inst_chunk_index inst) (inst_instruction_index inst) 0 0
              else Done (doc\<lparr>doc_instruction_capacity := new_capacity\<rparr>)
            else Done doc)
       (\<lambda>doc. Done (doc\<lparr>doc_instructions := doc_instructions doc @ [inst]\<rparr>))"

section \<open>Slicing an executable chunk into instructions\<close>

text \<open>The extension loop of one instruction; \<open>count\<close> is the number of tokens seen so far.\<close>

function scan_extensions ::
  "unity_common \<Rightarrow> bytes \<Rightarrow> nat \<Rightarrow> nat \<Rightarrow> nat \<Rightarrow> nat \<Rightarrow> nat \<Rightarrow> nat \<Rightarrow> (document_diagnostic, nat) outcome" where
  "scan_extensions uc owned instruction_offset chunk_index instruction_index token_count extension_word count =
     (if extension_word \<ge> token_count then
        report_failure DXBC_DOCUMENT_TRUNCATED_OPCODE_EXTENSION (instruction_offset + extension_word * 4)
          chunk_index instruction_index (extension_word + 1) token_count
      else obind (read_u32_le uc owned (instruction_offset + extension_word * 4)) (\<lambda>extension_token.
        if extension_token AND 0x80000000 \<noteq> 0
        then scan_extensions uc owned instruction_offset chunk_index instruction_index token_count
               (extension_word + 1) (count + 1)
        else Done (count + 1)))"
  by pat_completeness auto
termination
  by (relation "measure (\<lambda>(uc, owned, io, ci, ii, tc, ew, c). tc - ew)") auto

declare scan_extensions.simps [simp del]

text \<open>
  One turn of the instruction loop up to the record it builds.  \<open>word_offset\<close> and
  \<open>instruction_index\<close> count words and instructions of one chunk, so they stay below \<open>2 ^ 30\<close>.
\<close>

definition read_instruction ::
  "unity_common \<Rightarrow> bytes \<Rightarrow> nat \<Rightarrow> nat \<Rightarrow> nat \<Rightarrow> nat \<Rightarrow> nat \<Rightarrow> (document_diagnostic, document_instruction) outcome" where
  "read_instruction uc owned payload_offset chunk_index declared_tokens word_offset instruction_index = (let
     instruction_offset = payload_offset + word_offset * 4 in
     obind (read_u32_le uc owned instruction_offset) (\<lambda>first_token. let
       opcode = first_token AND 0x7ff;
       encoded_length = drop_bit 24 first_token AND 0x7f;
       uses_customdata_length = (opcode = 53) in
     obind (if uses_customdata_length then
              if declared_tokens - word_offset < 2 then
                report_failure DXBC_DOCUMENT_TRUNCATED_INSTRUCTION instruction_offset chunk_index
                  instruction_index 2 (declared_tokens - word_offset)
              else read_u32_le uc owned (instruction_offset + 4)
            else if encoded_length = 0 then
              report_failure DXBC_DOCUMENT_INSTRUCTION_LENGTH_INVALID instruction_offset chunk_index
                instruction_index 1 0
            else Done encoded_length) (\<lambda>token_count. let
       minimum_tokens = (if uses_customdata_length then 2 else 1 :: nat) in
     if unat token_count < minimum_tokens then
       report_failure DXBC_DOCUMENT_INSTRUCTION_LENGTH_INVALID instruction_offset chunk_index
         instruction_index minimum_tokens (unat token_count)
     else if unat token_count > declared_tokens - word_offset then
       report_failure DXBC_DOCUMENT_TRUNCATED_INSTRUCTION instruction_offset chunk_index
         instruction_index (unat token_count) (declared_tokens - word_offset)
     else obind (if first_token AND 0x80000000 \<noteq> 0
                 then scan_extensions uc owned instruction_offset chunk_index instruction_index
                        (unat token_count) minimum_tokens 0
                 else Done 0) (\<lambda>extension_count.
       Done \<lparr>inst_chunk_index = chunk_index, inst_instruction_index = instruction_index,
             inst_byte_offset = instruction_offset, inst_byte_size = unat token_count * 4,
             inst_token_count = token_count, inst_opcode = opcode, inst_encoded_length = encoded_length,
             inst_extended_opcode_token_count = extension_count,
             inst_uses_customdata_length = uses_customdata_length,
             inst_raw_bytes = Some instruction_offset\<rparr>))))"

lemma read_instruction_extent:
  assumes "read_instruction uc owned po ci declared wo ii = Done inst"
  shows "1 \<le> unat (inst_token_count inst)" "unat (inst_token_count inst) \<le> declared - wo"
    "inst_byte_offset inst = po + wo * 4" "inst_byte_size inst = unat (inst_token_count inst) * 4"
    "inst_raw_bytes inst = Some (po + wo * 4)" "inst_chunk_index inst = ci" "inst_instruction_index inst = ii"
  using assms by (auto simp: read_instruction_def outcome_simps Let_def report_failure_def split: if_splits)

function scan_instructions ::
  "unity_common \<Rightarrow> bytes \<Rightarrow> nat \<Rightarrow> nat \<Rightarrow> nat \<Rightarrow> nat \<Rightarrow> nat \<Rightarrow> document \<Rightarrow> (document_diagnostic, document) outcome" where
  "scan_instructions uc owned payload_offset chunk_index declared_tokens word_offset instruction_index doc =
     (if word_offset < declared_tokens then
        obind (read_instruction uc owned payload_offset chunk_index declared_tokens word_offset instruction_index) (\<lambda>inst.
        obind (append_instruction uc doc inst) (\<lambda>doc.
          scan_instructions uc owned payload_offset chunk_index declared_tokens
            (word_offset + unat (inst_token_count inst)) (instruction_index + 1) doc))
      else Done doc)"
  by pat_completeness auto
termination
  by (relation "measure (\<lambda>(uc, owned, po, ci, dt, wo, ii, doc). dt - wo)")
    (auto dest: read_instruction_extent(1))

declare scan_instructions.simps [simp del]

definition parse_executable_chunk ::
  "unity_common \<Rightarrow> document_chunk \<Rightarrow> document \<Rightarrow> (document_diagnostic, document) outcome" where
  "parse_executable_chunk uc chunk doc = (let
     chunk_index = chunk_table_index chunk;
     payload_offset = unat (chunk_offset chunk) + 8;
     no_index = DXBC_DOCUMENT_NO_INDEX in
     if chunk_payload_size chunk AND 3 \<noteq> 0 then
       report_failure DXBC_DOCUMENT_EXECUTABLE_SIZE_UNALIGNED payload_offset chunk_index no_index 4
         (unat (chunk_payload_size chunk AND 3))
     else if unat (chunk_payload_size chunk) < 8 then
       report_failure DXBC_DOCUMENT_TRUNCATED_EXECUTABLE_HEADER payload_offset chunk_index no_index 8
         (unat (chunk_payload_size chunk))
     else
       obind (mem (doc_owned_bytes doc)) (\<lambda>owned.
       obind (read_u32_le uc owned (chunk_payload_bytes chunk)) (\<lambda>version_token.
       obind (read_u32_le uc owned (chunk_payload_bytes chunk + 4)) (\<lambda>declared_tokens. let
         available_tokens = unat (chunk_payload_size chunk) div 4 in
       if unat declared_tokens \<noteq> available_tokens \<or> unat declared_tokens < 2 then
         report_failure DXBC_DOCUMENT_EXECUTABLE_LENGTH_MISMATCH (payload_offset + 4) chunk_index no_index
           available_tokens (unat declared_tokens)
       else let shader_stage = drop_bit 16 version_token AND 0xffff in
         obind (if unat shader_stage > 5
                then append_diagnostic uc doc DXBC_DOCUMENT_UNSUPPORTED_SHADER_STAGE payload_offset
                       chunk_index no_index 5 (unat shader_stage)
                else Done doc) (\<lambda>doc.
         scan_instructions uc owned payload_offset chunk_index (unat declared_tokens) 2 0 doc)))))"

section \<open>Parsing a container\<close>

definition dxbc_document_init :: document where
  "dxbc_document_init = \<lparr>doc_magic = [0, 0, 0, 0], doc_hash = replicate 16 0, doc_container_version = 0,
     doc_declared_size = 0, doc_chunk_count = 0, doc_hash_valid = False, doc_owned_bytes = None,
     doc_owned_size = 0, doc_chunks = [], doc_instructions = [], doc_instruction_capacity = 0,
     doc_diagnostics = [], doc_diagnostic_capacity = 0\<rparr>"

text \<open>
  One turn of the chunk-table loop: the descriptor of entry \<open>i\<close>, appended to those of the
  entries before it.  \<open>bs\<close> is the input and, since the owned copy has the same bytes, also what
  is read through \<open>parsed.owned_bytes\<close>.
\<close>

definition parse_chunk ::
  "unity_common \<Rightarrow> bytes \<Rightarrow> nat \<Rightarrow> nat \<Rightarrow> document_chunk list \<Rightarrow> (document_diagnostic, document_chunk list) outcome" where
  "parse_chunk uc bs chunk_table_end i chunks = (let
     table_offset = DXBC_DOCUMENT_HEADER_SIZE + i * 4;
     no_index = DXBC_DOCUMENT_NO_INDEX in
     obind (read_u32_le uc bs table_offset) (\<lambda>offset.
     if offset AND 3 \<noteq> 0 then
       report_failure DXBC_DOCUMENT_CHUNK_OFFSET_UNALIGNED table_offset i no_index 4 (unat (offset AND 3))
     else if unat offset < chunk_table_end then
       report_failure DXBC_DOCUMENT_CHUNK_OFFSET_IN_HEADER table_offset i no_index chunk_table_end (unat offset)
     else case List.find (\<lambda>previous. chunk_offset (chunks ! previous) = offset) [0..<i] of
       Some previous \<Rightarrow>
         report_failure DXBC_DOCUMENT_DUPLICATE_CHUNK_OFFSET table_offset i no_index previous (unat offset)
     | None \<Rightarrow>
     if unat offset > length bs \<or> length bs - unat offset < 8 then
       report_failure DXBC_DOCUMENT_TRUNCATED_CHUNK_HEADER (unat offset) i no_index 8
         (if unat offset \<le> length bs then length bs - unat offset else 0)
     else let code = bslice bs (unat offset) 4 in
     obind (read_u32_le uc bs (unat offset + 4)) (\<lambda>payload_size.
     if payload_size > 0xffffffff - offset - 8 then
       report_failure DXBC_DOCUMENT_CHUNK_RANGE_OVERFLOW (unat offset + 4) i no_index
         (unat (0xffffffff - offset - 8)) (unat payload_size)
     else let payload_offset = unat offset + 8 in
     if unat payload_size > length bs - payload_offset then
       report_failure DXBC_DOCUMENT_TRUNCATED_CHUNK_PAYLOAD payload_offset i no_index
         (unat payload_size) (length bs - payload_offset)
     else let raw_size = 8 + unat payload_size;
              this_start = unat offset;
              this_end = this_start + raw_size in
     case List.find (\<lambda>previous. let c = chunks ! previous in
            this_start < unat (chunk_offset c) + chunk_raw_size c \<and> unat (chunk_offset c) < this_end) [0..<i] of
       Some previous \<Rightarrow>
         report_failure DXBC_DOCUMENT_OVERLAPPING_CHUNKS (unat offset) i no_index previous (unat offset)
     | None \<Rightarrow>
         Done (chunks @ [\<lparr>chunk_fourcc = code, chunk_kind = classify_chunk code, chunk_table_index = i,
                 chunk_offset = offset, chunk_payload_size = payload_size, chunk_raw_size = raw_size,
                 chunk_raw_bytes = unat offset, chunk_payload_bytes = payload_offset\<rparr>]))))"

definition parse_if_executable ::
  "unity_common \<Rightarrow> document_chunk \<Rightarrow> document \<Rightarrow> (document_diagnostic, document) outcome" where
  "parse_if_executable uc chunk doc =
     (if chunk_kind chunk = DXBC_DOCUMENT_CHUNK_EXECUTABLE then parse_executable_chunk uc chunk doc else Done doc)"

text \<open>The header tests, in the order of the code; the result is (version, size, chunk count).\<close>

definition parse_header :: "unity_common \<Rightarrow> bytes \<Rightarrow> (document_diagnostic, u32 \<times> u32 \<times> u32) outcome" where
  "parse_header uc bs = (let
     sz = length bs; n = DXBC_DOCUMENT_NO_INDEX in
     if sz < 4 then report_failure DXBC_DOCUMENT_TRUNCATED_HEADER 0 n n DXBC_DOCUMENT_HEADER_SIZE sz
     else obind (memcmp_eq bs 0 magic_DXBC) (\<lambda>eq.
     if \<not> eq then report_failure DXBC_DOCUMENT_NOT_DXBC 0 n n 0 0
     else if sz < DXBC_DOCUMENT_HEADER_SIZE then
       report_failure DXBC_DOCUMENT_TRUNCATED_HEADER sz n n DXBC_DOCUMENT_HEADER_SIZE sz
     else
     obind (read_u32_le uc bs 20) (\<lambda>container_version.
     obind (read_u32_le uc bs 24) (\<lambda>declared_size.
     obind (read_u32_le uc bs 28) (\<lambda>chunk_count. let
       overflow = report_failure DXBC_DOCUMENT_CHUNK_TABLE_OVERFLOW 28 n n
                    ((unat declared_size - DXBC_DOCUMENT_HEADER_SIZE) div 4) (unat chunk_count) in
     if container_version \<noteq> 1 then
       report_failure DXBC_DOCUMENT_UNSUPPORTED_CONTAINER_VERSION 20 n n 1 (unat container_version)
     else if unat declared_size < DXBC_DOCUMENT_HEADER_SIZE then
       report_failure DXBC_DOCUMENT_DECLARED_SIZE_INVALID 24 n n DXBC_DOCUMENT_HEADER_SIZE (unat declared_size)
     else if unat declared_size \<noteq> sz then
       report_failure DXBC_DOCUMENT_DECLARED_SIZE_MISMATCH 24 n n (unat declared_size) sz
     else if unat chunk_count > (UINT32_MAX - DXBC_DOCUMENT_HEADER_SIZE) div 4 \<or>
             size_multiply_overflows uc (unat chunk_count) 4 \<or>
             size_add_overflows uc DXBC_DOCUMENT_HEADER_SIZE (unat chunk_count * 4) then overflow
     else if DXBC_DOCUMENT_HEADER_SIZE + unat chunk_count * 4 > unat declared_size then overflow
     else if size_multiply_overflows uc (unat chunk_count) sizeof_chunk then
       report_failure DXBC_DOCUMENT_OUT_OF_MEMORY 28 n n 0 (unat chunk_count)
     else Done (container_version, declared_size, chunk_count))))))"

text \<open>
  The document argument is \<open>None\<close> for a \<open>NULL\<close> pointer.  \<open>Done\<close> carries the new content of
  the caller's document, which only the last two statements of the source write; after
  \<open>Fail\<close> the caller's document is what it was.
\<close>

definition dxbc_document_parse ::
  "unity_common \<Rightarrow> bytes \<Rightarrow> document option \<Rightarrow> c_buffer \<Rightarrow> (document_diagnostic, document) outcome" where
  "dxbc_document_parse uc stack doc data = (let n = DXBC_DOCUMENT_NO_INDEX in
     case (doc, data) of
       (Some _, Buf bs) \<Rightarrow>
         obind (parse_header uc bs) (\<lambda>(container_version, declared_size, chunk_count).
         if \<not> mem_alloc uc (length bs) then
           report_failure DXBC_DOCUMENT_OUT_OF_MEMORY 0 n n (length bs) 0
         else if chunk_count \<noteq> 0 \<and> \<not> mem_alloc uc (unat chunk_count * sizeof_chunk) then
           report_failure DXBC_DOCUMENT_OUT_OF_MEMORY 28 n n (unat chunk_count) 0
         else let chunk_table_end = DXBC_DOCUMENT_HEADER_SIZE + unat chunk_count * 4 in
           obind (ofold (parse_chunk uc bs chunk_table_end) [0..<unat chunk_count] []) (\<lambda>chunks.
           if \<not> dxbc_verify_hash uc stack (Buf bs) then
             report_failure DXBC_DOCUMENT_HASH_MISMATCH 4 n n 0 0
           else ofold (parse_if_executable uc) chunks
             (dxbc_document_init\<lparr>doc_magic := bslice bs 0 4, doc_hash := bslice bs 4 16,
                doc_container_version := container_version, doc_declared_size := declared_size,
                doc_chunk_count := chunk_count, doc_hash_valid := True, doc_owned_bytes := Some bs,
                doc_owned_size := length bs, doc_chunks := chunks\<rparr>)))
     | _ \<Rightarrow> report_failure DXBC_DOCUMENT_INVALID_ARGUMENT 0 n n 0 0)"

section \<open>Serialising and reading tokens\<close>

definition dxbc_document_serialize_exact ::
  "unity_common \<Rightarrow> document option \<Rightarrow> (document_diagnostic, bytes) outcome" where
  "dxbc_document_serialize_exact uc doc = (let n = DXBC_DOCUMENT_NO_INDEX;
     corrupt = (\<lambda>sz. report_failure DXBC_DOCUMENT_CORRUPT_DOCUMENT 0 n n 0 sz) in
     case doc of
       None \<Rightarrow> corrupt 0
     | Some d \<Rightarrow>
         (case doc_owned_bytes d of
            None \<Rightarrow> corrupt (doc_owned_size d)
          | Some owned \<Rightarrow>
              if doc_owned_size d = 0 \<or> unat (doc_declared_size d) \<noteq> doc_owned_size d \<or>
                 doc_magic d \<noteq> magic_DXBC then corrupt (doc_owned_size d)
              else if \<not> mem_alloc uc (doc_owned_size d) then
                report_failure DXBC_DOCUMENT_OUT_OF_MEMORY 0 n n (doc_owned_size d) 0
              else if doc_owned_size d \<le> length owned then Done (take (doc_owned_size d) owned) else Fault))"

text \<open>\<open>None\<close> is the return value \<open>false\<close>; \<open>owned\<close> is the storage the instruction points into.\<close>

definition dxbc_document_instruction_token ::
  "unity_common \<Rightarrow> bytes \<Rightarrow> document_instruction option \<Rightarrow> nat \<Rightarrow> (unit, u32) outcome" where
  "dxbc_document_instruction_token uc owned inst token_index =
     (case inst of
        None \<Rightarrow> Fail ()
      | Some i \<Rightarrow>
          (case inst_raw_bytes i of
             None \<Rightarrow> Fail ()
           | Some raw \<Rightarrow> if token_index \<ge> unat (inst_token_count i) then Fail ()
                         else read_u32_le uc owned (raw + token_index * 4)))"

definition dxbc_document_free :: "document \<Rightarrow> document" where
  "dxbc_document_free doc = dxbc_document_init"

fun dxbc_document_diagnostic_code_name :: "document_diagnostic_code \<Rightarrow> string" where
  "dxbc_document_diagnostic_code_name DXBC_DOCUMENT_OK = ''ok''"
| "dxbc_document_diagnostic_code_name DXBC_DOCUMENT_INVALID_ARGUMENT = ''invalid_argument''"
| "dxbc_document_diagnostic_code_name DXBC_DOCUMENT_OUT_OF_MEMORY = ''out_of_memory''"
| "dxbc_document_diagnostic_code_name DXBC_DOCUMENT_NOT_DXBC = ''not_dxbc''"
| "dxbc_document_diagnostic_code_name DXBC_DOCUMENT_TRUNCATED_HEADER = ''truncated_header''"
| "dxbc_document_diagnostic_code_name DXBC_DOCUMENT_UNSUPPORTED_CONTAINER_VERSION = ''unsupported_container_version''"
| "dxbc_document_diagnostic_code_name DXBC_DOCUMENT_DECLARED_SIZE_INVALID = ''declared_size_invalid''"
| "dxbc_document_diagnostic_code_name DXBC_DOCUMENT_DECLARED_SIZE_MISMATCH = ''declared_size_mismatch''"
| "dxbc_document_diagnostic_code_name DXBC_DOCUMENT_CHUNK_TABLE_OVERFLOW = ''chunk_table_overflow''"
| "dxbc_document_diagnostic_code_name DXBC_DOCUMENT_CHUNK_OFFSET_UNALIGNED = ''chunk_offset_unaligned''"
| "dxbc_document_diagnostic_code_name DXBC_DOCUMENT_CHUNK_OFFSET_IN_HEADER = ''chunk_offset_in_header''"
| "dxbc_document_diagnostic_code_name DXBC_DOCUMENT_DUPLICATE_CHUNK_OFFSET = ''duplicate_chunk_offset''"
| "dxbc_document_diagnostic_code_name DXBC_DOCUMENT_TRUNCATED_CHUNK_HEADER = ''truncated_chunk_header''"
| "dxbc_document_diagnostic_code_name DXBC_DOCUMENT_CHUNK_RANGE_OVERFLOW = ''chunk_range_overflow''"
| "dxbc_document_diagnostic_code_name DXBC_DOCUMENT_TRUNCATED_CHUNK_PAYLOAD = ''truncated_chunk_payload''"
| "dxbc_document_diagnostic_code_name DXBC_DOCUMENT_OVERLAPPING_CHUNKS = ''overlapping_chunks''"
| "dxbc_document_diagnostic_code_name DXBC_DOCUMENT_HASH_MISMATCH = ''hash_mismatch''"
| "dxbc_document_diagnostic_code_name DXBC_DOCUMENT_EXECUTABLE_SIZE_UNALIGNED = ''executable_size_unaligned''"
| "dxbc_document_diagnostic_code_name DXBC_DOCUMENT_TRUNCATED_EXECUTABLE_HEADER = ''truncated_executable_header''"
| "dxbc_document_diagnostic_code_name DXBC_DOCUMENT_EXECUTABLE_LENGTH_MISMATCH = ''executable_length_mismatch''"
| "dxbc_document_diagnostic_code_name DXBC_DOCUMENT_TRUNCATED_INSTRUCTION = ''truncated_instruction''"
| "dxbc_document_diagnostic_code_name DXBC_DOCUMENT_INSTRUCTION_LENGTH_INVALID = ''instruction_length_invalid''"
| "dxbc_document_diagnostic_code_name DXBC_DOCUMENT_TRUNCATED_OPCODE_EXTENSION = ''truncated_opcode_extension''"
| "dxbc_document_diagnostic_code_name DXBC_DOCUMENT_UNSUPPORTED_SHADER_STAGE = ''unsupported_shader_stage''"
| "dxbc_document_diagnostic_code_name DXBC_DOCUMENT_CORRUPT_DOCUMENT = ''corrupt_document''"

section \<open>Well-formed chunk tables\<close>

lemma read_u32_le_iffs [outcome_simps]:
  "read_u32_le uc bs off = Fault \<longleftrightarrow> length bs < off + 4"
  "read_u32_le uc bs off \<noteq> Fail e"
  "read_u32_le uc bs off = Done v \<longleftrightarrow> (\<exists>raw. rd32 bs off = Some raw \<and> v = read_le32 uc raw)"
  by (auto simp: read_u32_le_def outcome_simps)

lemma report_failure_iffs [outcome_simps]:
  "report_failure c b ci ii e a \<noteq> Fault" "report_failure c b ci ii e a \<noteq> Done x"
  "report_failure c b ci ii e a = Fail g \<longleftrightarrow> g = make_diagnostic c b ci ii e a"
  by (auto simp: report_failure_def)

definition chunk_end :: "document_chunk \<Rightarrow> nat" where
  "chunk_end c = unat (chunk_offset c) + chunk_raw_size c"

definition chunk_ok :: "bytes \<Rightarrow> nat \<Rightarrow> nat \<Rightarrow> document_chunk \<Rightarrow> bool" where
  "chunk_ok bs table_end i c \<longleftrightarrow>
     chunk_table_index c = i \<and>
     rd32 bs (32 + i * 4) = Some (chunk_offset c) \<and> 4 dvd unat (chunk_offset c) \<and>
     table_end \<le> unat (chunk_offset c) \<and> chunk_end c \<le> length bs \<and>
     chunk_fourcc c = bslice bs (unat (chunk_offset c)) 4 \<and> chunk_kind c = classify_chunk (chunk_fourcc c) \<and>
     rd32 bs (unat (chunk_offset c) + 4) = Some (chunk_payload_size c) \<and>
     chunk_raw_size c = 8 + unat (chunk_payload_size c) \<and>
     chunk_raw_bytes c = unat (chunk_offset c) \<and> chunk_payload_bytes c = unat (chunk_offset c) + 8"

definition chunks_apart :: "document_chunk \<Rightarrow> document_chunk \<Rightarrow> bool" where
  "chunks_apart c d \<longleftrightarrow> chunk_end c \<le> unat (chunk_offset d) \<or> chunk_end d \<le> unat (chunk_offset c)"

definition chunk_table_ok :: "bytes \<Rightarrow> nat \<Rightarrow> nat \<Rightarrow> document_chunk list \<Rightarrow> bool" where
  "chunk_table_ok bs table_end n cs \<longleftrightarrow>
     length cs = n \<and> (\<forall>i < n. chunk_ok bs table_end i (cs ! i)) \<and> sorted_wrt chunks_apart cs"

lemma and_3_dvd: "(w :: u32) AND 3 = 0 \<longleftrightarrow> 4 dvd unat w"
proof -
  have "unat (w AND mask 2) = unat w mod 4" by (simp add: unat_and_mask)
  moreover have "(3 :: u32) = mask 2" by (simp add: mask_eq_exp_minus_1)
  ultimately show ?thesis by (metis dvd_eq_mod_eq_0 unat_eq_zero)
qed

lemma find_upt_None: "List.find P [0..<n] = None \<longleftrightarrow> (\<forall>i<n. \<not> P i)"
  by (auto simp: find_None_iff)

lemma parse_chunk_Done:
  assumes "little_endian_host uc" "parse_chunk uc bs table_end i cs = Done cs'" "length cs = i"
  shows "\<exists>c. cs' = cs @ [c] \<and> chunk_ok bs table_end i c \<and> (\<forall>d\<in>set cs. chunks_apart d c)"
proof -
  from assms obtain offset payload_size where c: "rd32 bs (32 + i * 4) = Some offset" "4 dvd unat offset"
      "table_end \<le> unat offset" "unat offset + 8 \<le> length bs" "rd32 bs (unat offset + 4) = Some payload_size"
      "unat payload_size \<le> length bs - (unat offset + 8)"
      "\<forall>p<i. \<not> (unat offset < chunk_end (cs ! p) \<and> unat (chunk_offset (cs ! p)) < unat offset + (8 + unat payload_size))"
      "cs' = cs @ [\<lparr>chunk_fourcc = bslice bs (unat offset) 4, chunk_kind = classify_chunk (bslice bs (unat offset) 4),
        chunk_table_index = i, chunk_offset = offset, chunk_payload_size = payload_size,
        chunk_raw_size = 8 + unat payload_size, chunk_raw_bytes = unat offset, chunk_payload_bytes = unat offset + 8\<rparr>]"
    by (auto simp: parse_chunk_def outcome_simps Let_def and_3_dvd find_upt_None chunk_end_def
        split: if_splits option.splits)
  then show ?thesis
    using assms(3) by (auto simp: chunk_ok_def chunks_apart_def chunk_end_def all_set_conv_all_nth not_less)
qed

lemma parse_chunk_step:
  assumes "little_endian_host uc" "chunk_table_ok bs table_end i cs" "parse_chunk uc bs table_end i cs = Done cs'"
  shows "chunk_table_ok bs table_end (Suc i) cs'"
  using parse_chunk_Done [OF assms(1,3)] assms(2)
  by (auto simp: chunk_table_ok_def sorted_wrt_append nth_append less_Suc_eq)

lemma parse_chunk_safe:
  assumes "32 + n * 4 \<le> length bs" "i < n"
  shows "parse_chunk uc bs table_end i cs \<noteq> Fault"
  using assms
  by (auto simp: parse_chunk_def outcome_simps Let_def split: if_splits option.splits)


text \<open>The chunk-table loop as a counted loop; the invariant carries what the header tests showed.\<close>

definition table_inv :: "unity_common \<Rightarrow> bytes \<Rightarrow> nat \<Rightarrow> nat \<Rightarrow> nat \<Rightarrow> document_chunk list \<Rightarrow> bool" where
  "table_inv uc bs table_end n i cs \<longleftrightarrow>
     little_endian_host uc \<and> 32 + n * 4 \<le> length bs \<and> chunk_table_ok bs table_end i cs"

interpretation chunk_table: counted_loop "parse_chunk uc bs table_end" "table_inv uc bs table_end n" n
  for uc bs table_end n
  by unfold_locales (auto simp: table_inv_def intro: parse_chunk_step dest: parse_chunk_safe)

section \<open>Instructions tile the executable payload\<close>

lemma scan_extensions_safe:
  "io + tc * 4 \<le> length owned \<Longrightarrow> scan_extensions uc owned io ci ii tc ew c \<noteq> Fault"
proof (induction uc owned io ci ii tc ew c rule: scan_extensions.induct)
  case (1 uc owned io ci ii tc ew c)
  then show ?case
    by (subst scan_extensions.simps) (auto simp: outcome_simps split: if_splits)
qed

lemma read_instruction_safe:
  assumes "po + declared * 4 \<le> length owned" "wo < declared"
  shows "read_instruction uc owned po ci declared wo ii \<noteq> Fault"
proof -
  have "scan_extensions uc owned (po + wo * 4) ci ii tc ew c \<noteq> Fault" if "tc \<le> declared - wo" for tc ew c
    using that assms by (intro scan_extensions_safe) auto
  with assms show ?thesis
    by (auto simp: read_instruction_def outcome_simps Let_def split: if_splits)
qed

fun tiles :: "nat \<Rightarrow> nat \<Rightarrow> nat \<Rightarrow> nat \<Rightarrow> nat \<Rightarrow> document_instruction list \<Rightarrow> bool" where
  "tiles po ci declared wo ii [] \<longleftrightarrow> wo = declared"
| "tiles po ci declared wo ii (i # is) \<longleftrightarrow>
     inst_chunk_index i = ci \<and> inst_instruction_index i = ii \<and> inst_byte_offset i = po + wo * 4 \<and>
     inst_raw_bytes i = Some (po + wo * 4) \<and> 1 \<le> unat (inst_token_count i) \<and>
     inst_byte_size i = unat (inst_token_count i) * 4 \<and> wo + unat (inst_token_count i) \<le> declared \<and>
     tiles po ci declared (wo + unat (inst_token_count i)) (ii + 1) is"

text \<open>The parser only appends to the instruction and diagnostic arrays of the document.\<close>

definition grew :: "document \<Rightarrow> document_instruction list \<Rightarrow> document_diagnostic list \<Rightarrow> document \<Rightarrow> bool" where
  "grew doc is ds doc' \<longleftrightarrow> doc' = doc\<lparr>
     doc_instructions := doc_instructions doc @ is, doc_instruction_capacity := doc_instruction_capacity doc',
     doc_diagnostics := doc_diagnostics doc @ ds, doc_diagnostic_capacity := doc_diagnostic_capacity doc'\<rparr>"

lemma grew_refl: "grew doc [] [] doc"
  by (cases doc) (simp add: grew_def)

lemma grew_trans: "grew doc is ds doc1 \<Longrightarrow> grew doc1 is' ds' doc2 \<Longrightarrow> grew doc (is @ is') (ds @ ds') doc2"
  by (cases doc; cases doc1; cases doc2) (simp add: grew_def)

lemma append_instruction_Done: "append_instruction uc doc inst = Done doc' \<Longrightarrow> grew doc [inst] [] doc'"
  by (cases doc) (auto simp: append_instruction_def grew_def outcome_simps Let_def split: if_splits)

lemma append_instruction_safe: "append_instruction uc doc inst \<noteq> Fault"
  by (auto simp: append_instruction_def outcome_simps Let_def split: if_splits)

lemma append_diagnostic_Done:
  "append_diagnostic uc doc c b ci ii e a = Done doc' \<Longrightarrow> grew doc [] [make_diagnostic c b ci ii e a] doc'"
  by (cases doc) (auto simp: append_diagnostic_def grew_def outcome_simps Let_def split: if_splits)

lemma append_diagnostic_safe: "append_diagnostic uc doc c b ci ii e a \<noteq> Fault"
  by (auto simp: append_diagnostic_def outcome_simps Let_def split: if_splits)

lemma scan_instructions_Done:
  "scan_instructions uc owned po ci declared wo ii doc = Done doc' \<Longrightarrow> wo \<le> declared \<Longrightarrow>
   \<exists>is. grew doc is [] doc' \<and> tiles po ci declared wo ii is"
proof (induction uc owned po ci declared wo ii doc rule: scan_instructions.induct)
  case (1 uc owned po ci declared wo ii doc)
  show ?case
  proof (cases "wo < declared")
    case False
    with "1.prems" show ?thesis
      by (auto simp: scan_instructions.simps grew_refl intro!: exI [of _ "[]"])
  next
    case True
    with "1.prems"(1) obtain inst doc1 where inst: "read_instruction uc owned po ci declared wo ii = Done inst"
      and app: "append_instruction uc doc inst = Done doc1"
      and rest: "scan_instructions uc owned po ci declared (wo + unat (inst_token_count inst)) (ii + 1) doc1 = Done doc'"
      by (subst (asm) scan_instructions.simps) (auto simp: outcome_simps)
    note ext = read_instruction_extent [OF inst]
    have "wo + unat (inst_token_count inst) \<le> declared" using ext True by linarith
    from "1.IH" [OF True inst app rest this] obtain insts where insts: "grew doc1 insts [] doc'"
      "tiles po ci declared (wo + unat (inst_token_count inst)) (ii + 1) insts" by blast
    from grew_trans [OF append_instruction_Done [OF app] insts(1)] insts(2) ext True show ?thesis
      by (intro exI [of _ "inst # insts"]) auto
  qed
qed

lemma scan_instructions_safe:
  "po + declared * 4 \<le> length owned \<Longrightarrow> scan_instructions uc owned po ci declared wo ii doc \<noteq> Fault"
proof (induction uc owned po ci declared wo ii doc rule: scan_instructions.induct)
  case (1 uc owned po ci declared wo ii doc)
  then show ?case
    by (subst scan_instructions.simps)
      (auto simp: outcome_simps read_instruction_safe append_instruction_safe)
qed

lemma tiles_concat:
  "tiles po ci declared wo ii is \<Longrightarrow> wo \<le> declared \<Longrightarrow>
   concat (map (\<lambda>i. bslice bs (inst_byte_offset i) (inst_byte_size i)) is) = bslice bs (po + wo * 4) ((declared - wo) * 4)"
proof (induction "is" arbitrary: wo ii)
  case (Cons i "is")
  let ?n = "unat (inst_token_count i)"
  have len: "(declared - wo) * 4 = ?n * 4 + (declared - (wo + ?n)) * 4"
    using Cons.prems by auto
  show ?case
    unfolding len bslice_append using Cons.IH [of "wo + ?n" "ii + 1"] Cons.prems by (simp add: algebra_simps)
qed simp


lemma tiles_chunk_index: "tiles po ci declared wo ii insts \<Longrightarrow> \<forall>i\<in>set insts. inst_chunk_index i = ci"
  by (induction po ci declared wo ii insts rule: tiles.induct) auto

definition exec_tiles :: "document_chunk \<Rightarrow> document_instruction list \<Rightarrow> bool" where
  "exec_tiles c insts \<longleftrightarrow> 8 \<le> unat (chunk_payload_size c) \<and> 4 dvd unat (chunk_payload_size c) \<and>
     tiles (chunk_payload_bytes c) (chunk_table_index c) (unat (chunk_payload_size c) div 4) 2 0 insts"

lemma parse_executable_chunk_Done:
  assumes "parse_executable_chunk uc c doc = Done doc'" "chunk_payload_bytes c = unat (chunk_offset c) + 8"
  shows "\<exists>insts ds. grew doc insts ds doc' \<and> exec_tiles c insts"
proof -
  from assms(1) grew_refl [of doc] obtain owned declared doc1 ds where c: "4 dvd unat (chunk_payload_size c)"
      "8 \<le> unat (chunk_payload_size c)" "declared = unat (chunk_payload_size c) div 4" "2 \<le> declared"
      "grew doc [] ds doc1"
      "scan_instructions uc owned (unat (chunk_offset c) + 8) (chunk_table_index c) declared 2 0 doc1 = Done doc'"
    by (auto simp: parse_executable_chunk_def outcome_simps Let_def and_3_dvd
        split: if_splits dest!: append_diagnostic_Done)
  from scan_instructions_Done [OF c(6,4)] c(1-3) grew_trans [OF c(5)] assms(2) show ?thesis
    by (fastforce simp: exec_tiles_def)
qed

lemma parse_executable_chunk_safe:
  assumes "doc_owned_bytes doc = Some bs" "chunk_ok bs table_end i c"
  shows "parse_executable_chunk uc c doc \<noteq> Fault"
proof -
  let ?n = "unat (chunk_payload_size c)" and ?o = "unat (chunk_offset c)"
  have "?o + 8 + ?n \<le> length bs" using assms(2) by (simp add: chunk_ok_def chunk_end_def)
  moreover have "?n div 4 * 4 \<le> ?n" by simp
  ultimately have "?o + 8 + ?n div 4 * 4 \<le> length bs" by linarith
  from scan_instructions_safe [OF this] assms show ?thesis
    by (auto simp: parse_executable_chunk_def outcome_simps Let_def append_diagnostic_safe chunk_ok_def chunk_end_def
        split: if_splits)
qed

definition chunk_instructions :: "document_chunk \<Rightarrow> document_instruction list \<Rightarrow> bool" where
  "chunk_instructions c insts \<longleftrightarrow>
     (if chunk_kind c = DXBC_DOCUMENT_CHUNK_EXECUTABLE then exec_tiles c insts else insts = [])"

lemma parse_if_executable_Done:
  assumes "parse_if_executable uc c doc = Done doc'" "chunk_payload_bytes c = unat (chunk_offset c) + 8"
  shows "\<exists>insts ds. grew doc insts ds doc' \<and> chunk_instructions c insts"
  using assms parse_executable_chunk_Done [of uc c doc doc'] grew_refl [of doc]
  by (auto simp: parse_if_executable_def chunk_instructions_def split: if_splits)

lemma parse_executables_Done:
  assumes "ofold (parse_if_executable uc) cs doc = Done doc'"
    "\<forall>c\<in>set cs. chunk_payload_bytes c = unat (chunk_offset c) + 8"
  shows "\<exists>per_chunk ds. grew doc (concat per_chunk) ds doc' \<and> list_all2 chunk_instructions cs per_chunk"
  using assms
proof (induction cs arbitrary: doc)
  case Nil
  then show ?case by (auto simp: grew_refl intro!: exI [of _ "[]"])
next
  case (Cons c cs)
  then obtain doc1 where c: "parse_if_executable uc c doc = Done doc1"
    and rest: "ofold (parse_if_executable uc) cs doc1 = Done doc'"
    by (auto simp: outcome_simps)
  from parse_if_executable_Done [OF c] Cons.prems(2) obtain insts ds
    where 1: "grew doc insts ds doc1" "chunk_instructions c insts" by auto
  from Cons.IH [OF rest] Cons.prems(2) obtain per_chunk ds'
    where 2: "grew doc1 (concat per_chunk) ds' doc'" "list_all2 chunk_instructions cs per_chunk" by auto
  from grew_trans [OF 1(1) 2(1)] 1(2) 2(2) show ?case
    by (intro exI [of _ "insts # per_chunk"] exI [of _ "ds @ ds'"]) simp
qed

lemma grew_frame:
  assumes "grew doc insts ds doc'"
  shows "doc_magic doc' = doc_magic doc" "doc_hash doc' = doc_hash doc"
    "doc_container_version doc' = doc_container_version doc" "doc_declared_size doc' = doc_declared_size doc"
    "doc_chunk_count doc' = doc_chunk_count doc" "doc_hash_valid doc' = doc_hash_valid doc"
    "doc_owned_bytes doc' = doc_owned_bytes doc" "doc_owned_size doc' = doc_owned_size doc"
    "doc_chunks doc' = doc_chunks doc" "doc_instructions doc' = doc_instructions doc @ insts"
    "doc_diagnostics doc' = doc_diagnostics doc @ ds"
  using assms by (cases doc; cases doc'; simp add: grew_def)+

section \<open>What a parsed document is\<close>

definition document_ok :: "bytes \<Rightarrow> document \<Rightarrow> bool" where
  "document_ok bs doc \<longleftrightarrow>
     doc_magic doc = magic_DXBC \<and> doc_owned_bytes doc = Some bs \<and> doc_owned_size doc = length bs \<and>
     unat (doc_declared_size doc) = length bs \<and> 32 + unat (doc_chunk_count doc) * 4 \<le> length bs \<and> doc_container_version doc = 1 \<and> doc_hash_valid doc \<and>
     doc_hash doc = bslice bs 4 16 \<and> bslice bs 0 4 = magic_DXBC \<and>
     rd32 bs 20 = Some (doc_container_version doc) \<and> rd32 bs 24 = Some (doc_declared_size doc) \<and>
     rd32 bs 28 = Some (doc_chunk_count doc) \<and>
     chunk_table_ok bs (32 + unat (doc_chunk_count doc) * 4) (unat (doc_chunk_count doc)) (doc_chunks doc) \<and>
     (\<exists>per_chunk. doc_instructions doc = concat per_chunk \<and> list_all2 chunk_instructions (doc_chunks doc) per_chunk)"

lemma parse_header_Done:
  assumes "parse_header uc bs = Done (version, declared, count)" "little_endian_host uc"
  shows "version = 1" "unat declared = length bs" "32 + unat count * 4 \<le> length bs" "bslice bs 0 4 = magic_DXBC"
    "rd32 bs 20 = Some version" "rd32 bs 24 = Some declared" "rd32 bs 28 = Some count"
  using assms
  by (auto simp: parse_header_def outcome_simps Let_def split: if_splits)

lemma parse_header_safe: "parse_header uc bs \<noteq> Fault"
  by (auto simp: parse_header_def outcome_simps Let_def split: if_splits)

lemma document_parse_Done:
  assumes "dxbc_document_parse uc stack dst (Buf bs) = Done doc" "little_endian_host uc"
  shows "document_ok bs doc \<and> dxbc_verify_hash uc stack (Buf bs)"
proof -
  from assms(1) obtain version declared count chunks where
    hdr: "parse_header uc bs = Done (version, declared, count)"
    and table: "ofold (parse_chunk uc bs (32 + unat count * 4)) [0..<unat count] [] = Done chunks"
    and hash: "dxbc_verify_hash uc stack (Buf bs)"
    and exec: "ofold (parse_if_executable uc) chunks (dxbc_document_init\<lparr>doc_magic := bslice bs 0 4,
        doc_hash := bslice bs 4 16, doc_container_version := version, doc_declared_size := declared,
        doc_chunk_count := count, doc_hash_valid := True, doc_owned_bytes := Some bs,
        doc_owned_size := length bs, doc_chunks := chunks\<rparr>) = Done doc"
    by (auto simp: dxbc_document_parse_def outcome_simps Let_def split: option.splits if_splits)
  note hdr' = parse_header_Done [OF hdr assms(2)]
  have start: "table_inv uc bs (32 + unat count * 4) (unat count) 0 []"
    using hdr' assms(2) by (simp add: table_inv_def chunk_table_ok_def)
  have ok: "chunk_table_ok bs (32 + unat count * 4) (unat count) chunks"
    using chunk_table.count_keeps [OF start _ _ table] by (simp add: table_inv_def)
  then have "\<forall>c\<in>set chunks. chunk_payload_bytes c = unat (chunk_offset c) + 8"
    by (auto simp: chunk_table_ok_def chunk_ok_def all_set_conv_all_nth)
  from parse_executables_Done [OF exec this] obtain per_chunk ds where
    "grew (dxbc_document_init\<lparr>doc_magic := bslice bs 0 4,
        doc_hash := bslice bs 4 16, doc_container_version := version, doc_declared_size := declared,
        doc_chunk_count := count, doc_hash_valid := True, doc_owned_bytes := Some bs,
        doc_owned_size := length bs, doc_chunks := chunks\<rparr>) (concat per_chunk) ds doc"
    and per: "list_all2 chunk_instructions chunks per_chunk" by blast
  note frame = grew_frame [OF this(1)]
  show ?thesis
    using hdr' ok hash per by (auto simp: document_ok_def frame dxbc_document_init_def)
qed

lemma parse_executables_safe:
  "doc_owned_bytes doc = Some bs \<Longrightarrow> \<forall>c\<in>set cs. \<exists>i te. chunk_ok bs te i c \<Longrightarrow>
   ofold (parse_if_executable uc) cs doc \<noteq> Fault"
proof (induction cs arbitrary: doc)
  case (Cons c cs)
  then obtain i te where c: "chunk_ok bs te i c" by auto
  have "doc_owned_bytes doc1 = Some bs" if "parse_if_executable uc c doc = Done doc1" for doc1
    using parse_if_executable_Done [OF that] c grew_frame(7) Cons.prems(1) by (auto simp: chunk_ok_def)
  with Cons c show ?case
    using parse_executable_chunk_safe [OF Cons.prems(1) c, of uc]
    by (auto simp: outcome_simps parse_if_executable_def split: if_splits)
qed simp

lemma document_parse_safe:
  assumes "little_endian_host uc"
  shows "dxbc_document_parse uc stack dst data \<noteq> Fault"
proof (cases "\<exists>d bs. dst = Some d \<and> data = Buf bs")
  case True
  then obtain d bs where [simp]: "dst = Some d" "data = Buf bs" by blast
  show ?thesis
  proof
    assume "dxbc_document_parse uc stack dst data = Fault"
    then obtain version declared count where
      hdr: "parse_header uc bs = Done (version, declared, count)"
      and cases: "ofold (parse_chunk uc bs (32 + unat count * 4)) [0..<unat count] [] = Fault \<or>
        (\<exists>chunks doc. ofold (parse_chunk uc bs (32 + unat count * 4)) [0..<unat count] [] = Done chunks \<and>
          doc_owned_bytes doc = Some bs \<and> ofold (parse_if_executable uc) chunks doc = Fault)"
      using parse_header_safe [of uc bs]
      by (fastforce simp: dxbc_document_parse_def outcome_simps Let_def split: if_splits)
    have start: "table_inv uc bs (32 + unat count * 4) (unat count) 0 []"
      using parse_header_Done [OF hdr assms] assms by (simp add: table_inv_def chunk_table_ok_def)
    from cases chunk_table.count_safe [OF start] obtain chunks doc where
      table: "ofold (parse_chunk uc bs (32 + unat count * 4)) [0..<unat count] [] = Done chunks"
      and exec: "doc_owned_bytes doc = Some bs" "ofold (parse_if_executable uc) chunks doc = Fault" by auto
    from chunk_table.count_keeps [OF start _ _ table]
    have "\<forall>c\<in>set chunks. \<exists>i te. chunk_ok bs te i c"
      by (auto simp: table_inv_def chunk_table_ok_def all_set_conv_all_nth)
    with parse_executables_safe exec show False by blast
  qed
qed (auto simp: dxbc_document_parse_def outcome_simps Let_def split: option.splits c_buffer.splits)


lemma document_serialize:
  assumes "document_ok bs doc" "mem_alloc uc (length bs)"
  shows "dxbc_document_serialize_exact uc (Some doc) = Done bs"
  using assms by (auto simp: dxbc_document_serialize_exact_def document_ok_def)

lemma chunk_instructions_index:
  "chunk_instructions c insts \<Longrightarrow> i \<in> set insts \<Longrightarrow> inst_chunk_index i = chunk_table_index c"
  by (auto simp: chunk_instructions_def exec_tiles_def dest!: tiles_chunk_index split: if_splits)

lemma filter_chunk_instructions:
  assumes "list_all2 chunk_instructions cs per_chunk" "\<forall>j<length cs. chunk_table_index (cs ! j) = a + j" "k < length cs"
  shows "filter (\<lambda>i. inst_chunk_index i = a + k) (concat per_chunk) = per_chunk ! k"
  using assms
proof (induction cs per_chunk arbitrary: a k rule: list_all2_induct)
  case (Cons c cs insts per_chunk)
  have own: "\<forall>i\<in>set insts. inst_chunk_index i = a"
    using chunk_instructions_index [OF Cons.hyps(1)] Cons.prems(1) by fastforce
  have tail: "\<forall>j<length cs. chunk_table_index (cs ! j) = Suc a + j"
    using Cons.prems(1) by (auto dest: spec [of _ "Suc _"])
  show ?case
  proof (cases k)
    case 0
    have "inst_chunk_index i \<noteq> a" if mem: "insts' \<in> set per_chunk" "i \<in> set insts'" for insts' i
    proof -
      obtain j where j: "j < length cs" "chunk_instructions (cs ! j) insts'"
        using list_all2_set2 [OF Cons.hyps(2) mem(1)] by blast
      have "inst_chunk_index i = Suc a + j"
        using chunk_instructions_index [OF j(2) mem(2)] tail j(1) by simp
      then show ?thesis by simp
    qed
    then have "\<forall>i\<in>set (concat per_chunk). inst_chunk_index i \<noteq> a" by auto
    with 0 own show ?thesis by (simp add: filter_id_conv filter_empty_conv)
  next
    case (Suc k')
    with Cons.IH [OF tail, of k'] Cons.prems(2) own show ?thesis
      by (simp add: filter_empty_conv)
  qed
qed simp

definition instructions_of :: "document \<Rightarrow> nat \<Rightarrow> document_instruction list" where
  "instructions_of doc k = filter (\<lambda>i. inst_chunk_index i = k) (doc_instructions doc)"

lemma instructions_of_tiles:
  assumes "document_ok bs doc" "k < length (doc_chunks doc)"
  shows "chunk_instructions (doc_chunks doc ! k) (instructions_of doc k)"
proof -
  from assms(1) obtain per_chunk where per: "doc_instructions doc = concat per_chunk"
      "list_all2 chunk_instructions (doc_chunks doc) per_chunk"
    and table: "\<forall>j<length (doc_chunks doc). chunk_table_index (doc_chunks doc ! j) = 0 + j"
    by (auto simp: document_ok_def chunk_table_ok_def chunk_ok_def)
  from filter_chunk_instructions [OF per(2) table assms(2)] per assms(2) show ?thesis
    by (simp add: instructions_of_def list_all2_conv_all_nth)
qed

lemma exec_tiles_payload:
  assumes "exec_tiles c insts"
  shows "concat (map (\<lambda>i. bslice bs (inst_byte_offset i) (inst_byte_size i)) insts) =
    bslice bs (chunk_payload_bytes c + 8) (unat (chunk_payload_size c) - 8)"
proof -
  obtain n where n: "unat (chunk_payload_size c) = 4 * n" "2 \<le> n" using assms by (auto simp: exec_tiles_def)
  moreover have "4 * n - 8 = (n - 2) * 4" by simp
  ultimately show ?thesis
    using assms tiles_concat [of "chunk_payload_bytes c" "chunk_table_index c" n 2 0 insts bs]
    by (simp add: exec_tiles_def)
qed

lemma tiles_instruction_bounds:
  "tiles po ci declared wo ii insts \<Longrightarrow> i \<in> set insts \<Longrightarrow>
   inst_raw_bytes i = Some (inst_byte_offset i) \<and> po + wo * 4 \<le> inst_byte_offset i \<and>
   inst_byte_offset i + unat (inst_token_count i) * 4 \<le> po + declared * 4"
  by (induction po ci declared wo ii insts rule: tiles.induct) auto

lemma document_instruction_bounds:
  assumes "document_ok bs doc" "i \<in> set (doc_instructions doc)"
  shows "\<exists>c\<in>set (doc_chunks doc). chunk_kind c = DXBC_DOCUMENT_CHUNK_EXECUTABLE \<and>
     inst_raw_bytes i = Some (inst_byte_offset i) \<and> chunk_payload_bytes c + 8 \<le> inst_byte_offset i \<and>
     inst_byte_offset i + unat (inst_token_count i) * 4 \<le> chunk_end c \<and> chunk_end c \<le> length bs"
proof -
  from assms obtain per_chunk insts where per: "list_all2 chunk_instructions (doc_chunks doc) per_chunk"
      "insts \<in> set per_chunk" "i \<in> set insts"
    by (auto simp: document_ok_def)
  then obtain j where j: "j < length (doc_chunks doc)" "chunk_instructions (doc_chunks doc ! j) insts"
    using list_all2_set2 [OF per(1,2)] by blast
  note j = j(1) per(3) j(2)
  let ?c = "doc_chunks doc ! j"
  from j have ex: "exec_tiles ?c insts" "chunk_kind ?c = DXBC_DOCUMENT_CHUNK_EXECUTABLE"
    by (auto simp: chunk_instructions_def split: if_splits)
  have ok: "chunk_ok bs (32 + unat (doc_chunk_count doc) * 4) j ?c"
    using assms(1) j(1) by (auto simp: document_ok_def chunk_table_ok_def)
  have "unat (chunk_payload_size ?c) div 4 * 4 = unat (chunk_payload_size ?c)"
    using ex by (auto simp: exec_tiles_def)
  then show ?thesis
    using ex ok j tiles_instruction_bounds [OF _ j(2)]
    by (fastforce intro!: bexI [of _ ?c] simp: exec_tiles_def chunk_ok_def chunk_end_def)
qed

lemma document_instruction_token_Done:
  assumes "document_ok bs doc" "i \<in> set (doc_instructions doc)" "k < unat (inst_token_count i)" "little_endian_host uc"
  shows "\<exists>v. dxbc_document_instruction_token uc bs (Some i) k = Done v \<and> rd32 bs (inst_byte_offset i + k * 4) = Some v"
proof -
  from document_instruction_bounds [OF assms(1,2)] assms(3)
  have "inst_byte_offset i + k * 4 + 4 \<le> length bs" "inst_raw_bytes i = Some (inst_byte_offset i)" by auto
  with assms rd32_ex [OF this(1)] show ?thesis
    by (auto simp: dxbc_document_instruction_token_def read_u32_le_def)
qed

section \<open>Diagnostics\<close>

definition diagnosed :: "document_diagnostic \<Rightarrow> bool" where
  "diagnosed g \<longleftrightarrow> diag_code g \<noteq> DXBC_DOCUMENT_OK \<and> diag_kind g = diagnostic_kind (diag_code g)"

lemma diagnosed_make: "diagnosed (make_diagnostic c b ci ii e a) \<longleftrightarrow> c \<noteq> DXBC_DOCUMENT_OK"
  by (simp add: diagnosed_def make_diagnostic_def)

lemma fails_report [fails_intros]:
  "c \<noteq> DXBC_DOCUMENT_OK \<Longrightarrow> fails_only diagnosed (report_failure c b ci ii e a)"
  "fails_only P (read_u32_le uc bs off)" "fails_only P (memcmp_eq bs off lit)"
  by (auto simp: fails_only_def report_failure_def diagnosed_make outcome_simps)

lemma scan_extensions_fails [fails_intros]: "fails_only diagnosed (scan_extensions uc owned io ci ii tc ew c)"
proof (induction uc owned io ci ii tc ew c rule: scan_extensions.induct)
  case (1 uc owned io ci ii tc ew c)
  show ?case
    by (subst scan_extensions.simps) (intro fails_intros "1.IH"; simp)
qed

lemma read_instruction_fails [fails_intros]: "fails_only diagnosed (read_instruction uc owned po ci declared wo ii)"
  unfolding read_instruction_def Let_def by (intro fails_intros; simp)

lemma append_fails [fails_intros]:
  "fails_only diagnosed (append_instruction uc doc inst)"
  "fails_only diagnosed (append_diagnostic uc doc c b ci ii e a)"
  unfolding append_instruction_def append_diagnostic_def Let_def by (intro fails_intros; simp)+

lemma scan_instructions_fails [fails_intros]: "fails_only diagnosed (scan_instructions uc owned po ci declared wo ii doc)"
proof (induction uc owned po ci declared wo ii doc rule: scan_instructions.induct)
  case (1 uc owned po ci declared wo ii doc)
  show ?case
    by (subst scan_instructions.simps) (intro fails_intros "1.IH"; simp)
qed

lemma parse_if_executable_fails [fails_intros]: "fails_only diagnosed (parse_if_executable uc c doc)"
  unfolding parse_if_executable_def parse_executable_chunk_def Let_def by (intro fails_intros; simp)

lemma parse_chunk_fails [fails_intros]: "fails_only diagnosed (parse_chunk uc bs te i cs)"
  unfolding parse_chunk_def Let_def by (intro fails_intros; simp)

lemma parse_header_fails [fails_intros]: "fails_only diagnosed (parse_header uc bs)"
  unfolding parse_header_def Let_def by (intro fails_intros; simp)

lemma document_parse_fails: "fails_only diagnosed (dxbc_document_parse uc stack dst data)"
  unfolding dxbc_document_parse_def Let_def
  by (cases data; cases dst) (simp_all, (intro fails_intros; simp)+)


lemma document_chunk_of_instruction:
  assumes "document_ok bs doc" "i \<in> set (doc_instructions doc)"
  shows "inst_chunk_index i < length (doc_chunks doc) \<and>
    chunk_kind (doc_chunks doc ! inst_chunk_index i) = DXBC_DOCUMENT_CHUNK_EXECUTABLE"
proof -
  from assms obtain per_chunk insts where per: "list_all2 chunk_instructions (doc_chunks doc) per_chunk"
      "insts \<in> set per_chunk" "i \<in> set insts"
    by (auto simp: document_ok_def)
  obtain j where j: "j < length (doc_chunks doc)" "chunk_instructions (doc_chunks doc ! j) insts"
    using list_all2_set2 [OF per(1,2)] by blast
  moreover have "chunk_table_index (doc_chunks doc ! j) = j"
    using assms(1) j(1) by (auto simp: document_ok_def chunk_table_ok_def chunk_ok_def)
  ultimately show ?thesis
    using chunk_instructions_index [OF j(2) per(3)] per(3) by (auto simp: chunk_instructions_def split: if_splits)
qed

section \<open>An example document\<close>

text \<open>A pixel shader model 5.0 container with one executable chunk that holds a single \<open>ret\<close>.\<close>

definition sample_container :: bytes where
  "sample_container = magic_DXBC @ replicate 16 0 @ bytes32 1 @ bytes32 56 @ bytes32 1 @ bytes32 36 @
     fourcc ''SHEX'' @ bytes32 12 @ bytes32 0x50 @ bytes32 3 @ bytes32 0x0100003E"

lemma length_fourcc [simp]: "length (fourcc s) = length s"
  by (simp add: fourcc_def)

lemma sample_container_verifies:
  "length stack = 64 \<Longrightarrow> dxbc_verify_hash lp64_common stack (Buf (stamp sample_container))"
  by (rule stamp_verifies) (simp_all add: sample_container_def image_simps)

lemma sample_tail: "drop 20 sample_container = bytes32 1 @ bytes32 56 @ bytes32 1 @ bytes32 36 @
     fourcc ''SHEX'' @ bytes32 12 @ bytes32 0x50 @ bytes32 3 @ bytes32 0x0100003E" "take 4 sample_container = magic_DXBC"
  by (simp_all add: sample_container_def)

definition sample_instruction :: document_instruction where
  "sample_instruction = \<lparr>inst_chunk_index = 0, inst_instruction_index = 0, inst_byte_offset = 52, inst_byte_size = 4,
     inst_token_count = 1, inst_opcode = 62, inst_encoded_length = 1, inst_extended_opcode_token_count = 0,
     inst_uses_customdata_length = False, inst_raw_bytes = Some 52\<rparr>"

lemma sample_parse:
  assumes "length stack = 64"
  shows "\<exists>doc. dxbc_document_parse lp64_common stack (Some dxbc_document_init) (Buf (stamp sample_container)) = Done doc \<and>
     doc_instructions doc = [sample_instruction] \<and> doc_diagnostics doc = []"
proof -
  have "32 \<le> length sample_container" by (simp add: sample_container_def)
  from stamp_shape [OF this] obtain h where h: "length h = 16"
    "stamp sample_container = magic_DXBC @ h @ drop 20 sample_container"
    unfolding sample_tail(2) by blast
  note v = sample_container_verifies [OF assms, unfolded h(2) sample_tail]
  have shex: "classify_chunk (fourcc ''SHEX'') = DXBC_DOCUMENT_CHUNK_EXECUTABLE"
    by (simp add: classify_chunk_def fourcc_equal_def)
  have hdr: "parse_header lp64_common (magic_DXBC @ h @ drop 20 sample_container) = Done (1, 56, 1)"
    using h(1) by (simp add: parse_header_def sample_tail read_u32_le_def memcmp_eq_def image_simps Let_def)
  show ?thesis
    using h(1) v
    unfolding h(2) dxbc_document_parse_def
    by (simp add: hdr)
      (simp add: sample_tail parse_chunk_def read_u32_le_def image_simps Let_def shex parse_if_executable_def
        parse_executable_chunk_def dxbc_document_init_def scan_instructions.simps [of _ _ _ _ _ 2]
        scan_instructions.simps [of _ _ _ _ _ "Suc (Suc (Suc 0))"] read_instruction_def append_instruction_def sample_instruction_def)
qed

section \<open>Properties\<close>

text \<open>
  C1: the document is lossless.  Whatever bytes the parser accepts, serialising the parsed
  document gives exactly those bytes back.
\<close>

theorem document_roundtrip:
  assumes "little_endian_host uc" "mem_alloc uc (length bs)"
    and "dxbc_document_parse uc stack dst (Buf bs) = Done doc"
  shows "dxbc_document_serialize_exact uc (Some doc) = Done bs"
  using document_parse_Done [OF assms(3,1)] assms(2) by (simp add: document_serialize)

theorem document_roundtrip_witness:
  "\<exists>doc. dxbc_document_parse lp64_common (replicate 64 0) (Some dxbc_document_init) (Buf (stamp sample_container)) = Done doc \<and>
     dxbc_document_serialize_exact lp64_common (Some doc) = Done (stamp sample_container)"
  using sample_parse [of "replicate 64 0"] document_roundtrip [of lp64_common "stamp sample_container" "replicate 64 0"]
  by auto

text \<open>
  C2: an accepted container satisfies the document invariant.  The header fields are those of the
  bytes, every chunk descriptor is the table entry at its index, aligned, behind the chunk table
  and inside the container, no two chunks overlap, the hash verifies, and the instructions of each
  executable chunk partition its payload.
\<close>

theorem document_parse_invariant:
  assumes "little_endian_host uc" "dxbc_document_parse uc stack dst (Buf bs) = Done doc"
  shows "document_ok bs doc \<and> dxbc_verify_hash uc stack (Buf bs)"
  using assms by (intro document_parse_Done)

theorem document_parse_invariant_witness:
  "\<exists>doc. doc_instructions doc = [sample_instruction] \<and> document_ok (stamp sample_container) doc"
  using sample_parse [of "replicate 64 0"] document_parse_invariant [of lp64_common "replicate 64 0"]
  by auto

text \<open>
  C3: parsing never reads outside the input, for every buffer, destination and content of the
  stack: the result is a document or a diagnostic.
\<close>

theorem document_parse_in_bounds:
  assumes "little_endian_host uc"
  shows "dxbc_document_parse uc stack dst data \<noteq> Fault"
  using assms by (rule document_parse_safe)

theorem document_parse_in_bounds_witness:
  "dxbc_document_parse lp64_common [] (Some dxbc_document_init) (Buf [0x44, 0x58, 0x42, 0x43, 0]) \<noteq> Fault"
  using document_parse_in_bounds [of lp64_common] by simp

text \<open>
  C4: the raw instructions of an executable chunk, in order, are its payload after the version and
  length words, with no gap, no overlap and nothing left over.
\<close>

theorem document_instructions_partition_payload:
  assumes "little_endian_host uc" "dxbc_document_parse uc stack dst (Buf bs) = Done doc"
    and "k < length (doc_chunks doc)" "chunk_kind (doc_chunks doc ! k) = DXBC_DOCUMENT_CHUNK_EXECUTABLE"
  shows "concat (map (\<lambda>i. bslice bs (inst_byte_offset i) (inst_byte_size i)) (instructions_of doc k)) =
    bslice bs (chunk_payload_bytes (doc_chunks doc ! k) + 8) (unat (chunk_payload_size (doc_chunks doc ! k)) - 8)"
  using instructions_of_tiles [OF conjunct1 [OF document_parse_Done [OF assms(2,1)]] assms(3)] assms(4)
  by (simp add: chunk_instructions_def exec_tiles_payload)

theorem document_instructions_partition_payload_witness:
  "\<exists>doc. doc_instructions doc = [sample_instruction] \<and>
     concat (map (\<lambda>i. bslice (stamp sample_container) (inst_byte_offset i) (inst_byte_size i)) (instructions_of doc 0)) =
     bslice (stamp sample_container) (chunk_payload_bytes (doc_chunks doc ! 0) + 8)
       (unat (chunk_payload_size (doc_chunks doc ! 0)) - 8)"
proof -
  obtain doc where doc: "dxbc_document_parse lp64_common (replicate 64 0) (Some dxbc_document_init)
      (Buf (stamp sample_container)) = Done doc" "doc_instructions doc = [sample_instruction]"
    using sample_parse [of "replicate 64 0"] by auto
  have ok: "document_ok (stamp sample_container) doc" using document_parse_Done [OF doc(1)] by simp
  have "sample_instruction \<in> set (doc_instructions doc)" by (simp add: doc)
  from document_chunk_of_instruction [OF ok this] have "0 < length (doc_chunks doc) \<and>
      chunk_kind (doc_chunks doc ! 0) = DXBC_DOCUMENT_CHUNK_EXECUTABLE" by (simp add: sample_instruction_def)
  with document_instructions_partition_payload [OF _ doc(1), of 0] doc(2) show ?thesis by auto
qed

text \<open>
  Every token of every instruction of a parsed document can be read, and the reader returns
  the word of the container at that place; a token index past the instruction is refused.
\<close>

lemma document_token_reads:
  assumes "little_endian_host uc" "dxbc_document_parse uc stack dst (Buf bs) = Done doc" "i \<in> set (doc_instructions doc)"
  shows "if k < unat (inst_token_count i)
    then \<exists>v. dxbc_document_instruction_token uc bs (Some i) k = Done v \<and> rd32 bs (inst_byte_offset i + k * 4) = Some v
    else dxbc_document_instruction_token uc bs (Some i) k = Fail ()"
  using document_instruction_token_Done [OF conjunct1 [OF document_parse_Done [OF assms(2,1)]] assms(3) _ assms(1), of k]
  by (simp add: dxbc_document_instruction_token_def split: option.split)

text \<open>
  C7: a rejected container always carries a diagnostic: its code is not \<open>OK\<close> and its kind is the
  one the code belongs to.
\<close>

theorem document_failure_is_diagnosed:
  assumes "dxbc_document_parse uc stack dst data = Fail g"
  shows "diag_code g \<noteq> DXBC_DOCUMENT_OK \<and> diag_kind g = diagnostic_kind (diag_code g)"
  using fails_onlyD [OF document_parse_fails assms] by (simp add: diagnosed_def)

theorem document_failure_is_diagnosed_witness:
  "\<exists>g. dxbc_document_parse lp64_common [] None (NullBuf 9) = Fail g \<and> diag_code g \<noteq> DXBC_DOCUMENT_OK"
proof -
  have "\<exists>g. dxbc_document_parse lp64_common [] None (NullBuf 9) = Fail g"
    by (simp add: dxbc_document_parse_def report_failure_def)
  then show ?thesis using document_failure_is_diagnosed by blast
qed


end
