(* ===== verification/Dxbc_Compare.thy ===== *)
theory Dxbc_Compare
  imports Dxbc_Document
begin

text \<open>
  \<open>src/dxbc/dxbc_compare.c\<close>: exact comparison of two containers.  Equality is byte equality;
  a difference is reported at the first structural coordinate at which the two documents
  differ.  An early \<open>RETURN_DIFFERENCE\<close> is a \<open>Fail\<close> that carries the reported coordinates.
\<close>

section \<open>Data\<close>

datatype compare_status =
    DXBC_COMPARE_EQUAL
  | DXBC_COMPARE_INVALID_ARGUMENT
  | DXBC_COMPARE_EXPECTED_INVALID
  | DXBC_COMPARE_ACTUAL_INVALID
  | DXBC_COMPARE_CONTAINER_VERSION
  | DXBC_COMPARE_CHUNK_COUNT
  | DXBC_COMPARE_CHUNK_FOURCC
  | DXBC_COMPARE_PROGRAM_VERSION
  | DXBC_COMPARE_INSTRUCTION_COUNT
  | DXBC_COMPARE_INSTRUCTION_OPCODE
  | DXBC_COMPARE_INSTRUCTION_LENGTH
  | DXBC_COMPARE_INSTRUCTION_TOKEN
  | DXBC_COMPARE_CHUNK_PAYLOAD_SIZE
  | DXBC_COMPARE_CHUNK_OFFSET
  | DXBC_COMPARE_CONTAINER_SIZE
  | DXBC_COMPARE_CHUNK_PAYLOAD
  | DXBC_COMPARE_RAW_BYTE

text \<open>The part of a result that \<open>report\<close> writes, and the whole result.\<close>

record difference =
  d_status :: compare_status
  d_first_differing_byte :: nat
  d_chunk_index :: nat
  d_instruction_index :: nat
  d_token_index :: nat
  d_expected_value :: nat
  d_actual_value :: nat

record compare_result = difference +
  r_expected_diagnostic :: document_diagnostic
  r_actual_diagnostic :: document_diagnostic
  r_expected_size :: nat
  r_actual_size :: nat

section \<open>Operations\<close>

definition dxbc_compare_result_init :: compare_result where
  "dxbc_compare_result_init = \<lparr>d_status = DXBC_COMPARE_EQUAL, d_first_differing_byte = SIZE_MAX,
     d_chunk_index = DXBC_DOCUMENT_NO_INDEX, d_instruction_index = DXBC_DOCUMENT_NO_INDEX,
     d_token_index = DXBC_DOCUMENT_NO_INDEX, d_expected_value = 0, d_actual_value = 0,
     r_expected_diagnostic = clear_diagnostic, r_actual_diagnostic = clear_diagnostic,
     r_expected_size = 0, r_actual_size = 0\<rparr>"

definition report :: "compare_status \<Rightarrow> nat \<Rightarrow> nat \<Rightarrow> nat \<Rightarrow> nat \<Rightarrow> nat \<Rightarrow> nat \<Rightarrow> (difference, 'a) outcome" where
  "report status byte_offset chunk_index instruction_index token_index expected_value actual_value =
     Fail \<lparr>d_status = status, d_first_differing_byte = byte_offset, d_chunk_index = chunk_index,
       d_instruction_index = instruction_index, d_token_index = token_index,
       d_expected_value = expected_value, d_actual_value = actual_value\<rparr>"

definition compare_read_u32_le :: "bytes \<Rightarrow> nat \<Rightarrow> (difference, u32) outcome" where
  "compare_read_u32_le bs off = mem (rd32 bs off)"

fun instruction_count_for_chunk :: "document_instruction list \<Rightarrow> nat \<Rightarrow> nat" where
  "instruction_count_for_chunk [] chunk_index = 0"
| "instruction_count_for_chunk (i # insts) chunk_index =
     (if inst_chunk_index i = chunk_index then 1 else 0) + instruction_count_for_chunk insts chunk_index"

text \<open>\<open>current\<close> counts the instructions of the chunk seen so far.\<close>

fun instruction_for_chunk :: "document_instruction list \<Rightarrow> nat \<Rightarrow> nat \<Rightarrow> nat \<Rightarrow> document_instruction option" where
  "instruction_for_chunk [] chunk_index local_index current = None"
| "instruction_for_chunk (i # insts) chunk_index local_index current =
     (if inst_chunk_index i \<noteq> chunk_index then instruction_for_chunk insts chunk_index local_index current
      else if current = local_index then Some i
      else instruction_for_chunk insts chunk_index local_index (current + 1))"

text \<open>The two pointers are buffers with a base offset; \<open>SIZE_MAX\<close> means no difference.\<close>

function first_byte_difference :: "bytes \<Rightarrow> nat \<Rightarrow> bytes \<Rightarrow> nat \<Rightarrow> nat \<Rightarrow> nat \<Rightarrow> (difference, nat) outcome" where
  "first_byte_difference expected e actual a sz offset =
     (if offset < sz then
        obind (mem (rd8 expected (e + offset))) (\<lambda>x.
        obind (mem (rd8 actual (a + offset))) (\<lambda>y.
          if x \<noteq> y then Done offset else first_byte_difference expected e actual a sz (offset + 1)))
      else Done SIZE_MAX)"
  by pat_completeness auto
termination
  by (relation "measure (\<lambda>(ex, e, ac, a, sz, off). sz - off)") auto

declare first_byte_difference.simps [simp del]

definition fourcc_value :: "bytes \<Rightarrow> (difference, u32) outcome" where
  "fourcc_value c = compare_read_u32_le c 0"

abbreviation (input) NO_INDEX :: nat where "NO_INDEX \<equiv> DXBC_DOCUMENT_NO_INDEX"

text \<open>The token loop, the instruction loop and the first chunk loop of the comparison.\<close>

definition compare_token ::
  "unity_common \<Rightarrow> bytes \<Rightarrow> bytes \<Rightarrow> nat \<Rightarrow> nat \<Rightarrow> document_instruction \<Rightarrow> document_instruction \<Rightarrow> nat \<Rightarrow> unit \<Rightarrow> (difference, unit) outcome" where
  "compare_token uc eo ao chunk_index instruction_index ei ai token_index u = (let
     unreadable = report DXBC_COMPARE_RAW_BYTE (inst_byte_offset ei) chunk_index instruction_index token_index 0 0 in
     obind (on_fail (dxbc_document_instruction_token uc eo (Some ei) token_index) unreadable) (\<lambda>expected_token.
     obind (on_fail (dxbc_document_instruction_token uc ao (Some ai) token_index) unreadable) (\<lambda>actual_token.
     if expected_token \<noteq> actual_token then
       report DXBC_COMPARE_INSTRUCTION_TOKEN (inst_byte_offset ei + token_index * 4) chunk_index instruction_index
         token_index (unat expected_token) (unat actual_token)
     else Done ())))"

definition compare_instruction ::
  "unity_common \<Rightarrow> bytes \<Rightarrow> bytes \<Rightarrow> document \<Rightarrow> document \<Rightarrow> document_chunk \<Rightarrow> nat \<Rightarrow> nat \<Rightarrow> unit \<Rightarrow> (difference, unit) outcome" where
  "compare_instruction uc eo ao ed ad ec chunk_index instruction_index u = (let
     expected_instruction = instruction_for_chunk (doc_instructions ed) chunk_index instruction_index 0;
     actual_instruction = instruction_for_chunk (doc_instructions ad) chunk_index instruction_index 0 in
     case (expected_instruction, actual_instruction) of
       (Some ei, Some ai) \<Rightarrow>
         if inst_opcode ei \<noteq> inst_opcode ai then
           report DXBC_COMPARE_INSTRUCTION_OPCODE (inst_byte_offset ei) chunk_index instruction_index 0
             (unat (inst_opcode ei)) (unat (inst_opcode ai))
         else if inst_token_count ei \<noteq> inst_token_count ai then
           report DXBC_COMPARE_INSTRUCTION_LENGTH (inst_byte_offset ei) chunk_index instruction_index 0
             (unat (inst_token_count ei)) (unat (inst_token_count ai))
         else ofold (compare_token uc eo ao chunk_index instruction_index ei ai) [0..<unat (inst_token_count ei)] ()
     | _ \<Rightarrow> report DXBC_COMPARE_RAW_BYTE (unat (chunk_offset ec) + 8) chunk_index instruction_index NO_INDEX
              (of_bool (expected_instruction \<noteq> None)) (of_bool (actual_instruction \<noteq> None)))"

definition compare_chunk_structure ::
  "unity_common \<Rightarrow> bytes \<Rightarrow> bytes \<Rightarrow> document \<Rightarrow> document \<Rightarrow> nat \<Rightarrow> unit \<Rightarrow> (difference, unit) outcome" where
  "compare_chunk_structure uc eo ao ed ad chunk_index u = (let
     ec = doc_chunks ed ! chunk_index; ac = doc_chunks ad ! chunk_index in
     if chunk_fourcc ec \<noteq> chunk_fourcc ac then
       obind (fourcc_value (chunk_fourcc ec)) (\<lambda>ev. obind (fourcc_value (chunk_fourcc ac)) (\<lambda>av.
         report DXBC_COMPARE_CHUNK_FOURCC (unat (chunk_offset ec)) chunk_index NO_INDEX NO_INDEX (unat ev) (unat av)))
     else if chunk_kind ec = DXBC_DOCUMENT_CHUNK_EXECUTABLE \<and> chunk_kind ac = DXBC_DOCUMENT_CHUNK_EXECUTABLE then
       obind (compare_read_u32_le eo (chunk_payload_bytes ec)) (\<lambda>expected_version.
       obind (compare_read_u32_le ao (chunk_payload_bytes ac)) (\<lambda>actual_version.
       if expected_version \<noteq> actual_version then
         report DXBC_COMPARE_PROGRAM_VERSION (unat (chunk_offset ec) + 8) chunk_index NO_INDEX 0
           (unat expected_version) (unat actual_version)
       else let
         expected_instruction_count = instruction_count_for_chunk (doc_instructions ed) chunk_index;
         actual_instruction_count = instruction_count_for_chunk (doc_instructions ad) chunk_index in
       if expected_instruction_count \<noteq> actual_instruction_count then
         report DXBC_COMPARE_INSTRUCTION_COUNT (unat (chunk_offset ec) + 12) chunk_index NO_INDEX NO_INDEX
           expected_instruction_count actual_instruction_count
       else ofold (compare_instruction uc eo ao ed ad ec chunk_index) [0..<expected_instruction_count] ()))
     else Done ())"

definition compare_chunk_placement :: "document \<Rightarrow> document \<Rightarrow> nat \<Rightarrow> unit \<Rightarrow> (difference, unit) outcome" where
  "compare_chunk_placement ed ad chunk_index u = (let
     ec = doc_chunks ed ! chunk_index; ac = doc_chunks ad ! chunk_index in
     if chunk_payload_size ec \<noteq> chunk_payload_size ac then
       report DXBC_COMPARE_CHUNK_PAYLOAD_SIZE (unat (chunk_offset ec) + 4) chunk_index NO_INDEX NO_INDEX
         (unat (chunk_payload_size ec)) (unat (chunk_payload_size ac))
     else if chunk_offset ec \<noteq> chunk_offset ac then
       report DXBC_COMPARE_CHUNK_OFFSET (32 + chunk_index * 4) chunk_index NO_INDEX NO_INDEX
         (unat (chunk_offset ec)) (unat (chunk_offset ac))
     else Done ())"

definition compare_chunk_payload :: "bytes \<Rightarrow> bytes \<Rightarrow> document \<Rightarrow> document \<Rightarrow> nat \<Rightarrow> unit \<Rightarrow> (difference, unit) outcome" where
  "compare_chunk_payload eo ao ed ad chunk_index u = (let
     ec = doc_chunks ed ! chunk_index; ac = doc_chunks ad ! chunk_index in
     obind (first_byte_difference eo (chunk_payload_bytes ec) ao (chunk_payload_bytes ac)
              (unat (chunk_payload_size ec)) 0) (\<lambda>diff.
     if diff \<noteq> SIZE_MAX then
       obind (mem (rd8 eo (chunk_payload_bytes ec + diff))) (\<lambda>x.
       obind (mem (rd8 ao (chunk_payload_bytes ac + diff))) (\<lambda>y.
         report DXBC_COMPARE_CHUNK_PAYLOAD (unat (chunk_offset ec) + 8 + diff) chunk_index NO_INDEX NO_INDEX
           (unat x) (unat y)))
     else Done ()))"

text \<open>The last search, which prefers a byte outside the checksum.\<close>

definition compare_raw_bytes :: "bytes \<Rightarrow> bytes \<Rightarrow> (difference, unit) outcome" where
  "compare_raw_bytes expected actual =
     obind (first_byte_difference expected 0 actual 0 (length expected) 0) (\<lambda>diff.
     obind (if 4 \<le> diff \<and> diff < 20 then
              obind (first_byte_difference expected 0 actual 0 (length expected) 20) (\<lambda>diff.
              if diff = SIZE_MAX then first_byte_difference expected 0 actual 0 20 4 else Done diff)
            else Done diff) (\<lambda>diff. let
       diff = (if diff = SIZE_MAX then 0 else diff) in
     obind (mem (rd8 expected diff)) (\<lambda>x. obind (mem (rd8 actual diff)) (\<lambda>y.
       report DXBC_COMPARE_RAW_BYTE diff NO_INDEX NO_INDEX NO_INDEX (unat x) (unat y)))))"

text \<open>Everything after the two documents have been parsed; \<open>Done\<close> is equality.\<close>

definition compare_documents ::
  "unity_common \<Rightarrow> bytes \<Rightarrow> bytes \<Rightarrow> document \<Rightarrow> document \<Rightarrow> (difference, unit) outcome" where
  "compare_documents uc expected actual ed ad =
     (if length expected = length actual \<and> expected = actual then Done ()
      else if doc_container_version ed \<noteq> doc_container_version ad then
        report DXBC_COMPARE_CONTAINER_VERSION 20 NO_INDEX NO_INDEX NO_INDEX
          (unat (doc_container_version ed)) (unat (doc_container_version ad))
      else if doc_chunk_count ed \<noteq> doc_chunk_count ad then
        report DXBC_COMPARE_CHUNK_COUNT 28 NO_INDEX NO_INDEX NO_INDEX
          (unat (doc_chunk_count ed)) (unat (doc_chunk_count ad))
      else
        obind (mem (doc_owned_bytes ed)) (\<lambda>eo.
        obind (mem (doc_owned_bytes ad)) (\<lambda>ao.
        obind (ofold (compare_chunk_structure uc eo ao ed ad) [0..<unat (doc_chunk_count ed)] ()) (\<lambda>_.
        obind (ofold (compare_chunk_placement ed ad) [0..<unat (doc_chunk_count ed)] ()) (\<lambda>_.
        obind (if length expected \<noteq> length actual then
                 report DXBC_COMPARE_CONTAINER_SIZE 24 NO_INDEX NO_INDEX NO_INDEX (length expected) (length actual)
               else Done ()) (\<lambda>_.
        obind (ofold (compare_chunk_payload eo ao ed ad) [0..<unat (doc_chunk_count ed)] ()) (\<lambda>_.
          compare_raw_bytes expected actual)))))))"

text \<open>
  The result pointer is \<open>None\<close> when \<open>NULL\<close>; otherwise the call returns the status and the
  content it wrote.
\<close>

definition dxbc_compare_exact ::
  "unity_common \<Rightarrow> bytes \<Rightarrow> c_buffer \<Rightarrow> c_buffer \<Rightarrow> compare_result option \<Rightarrow> (unit, compare_status \<times> compare_result option) outcome" where
  "dxbc_compare_exact uc stack expected actual result = (case result of
       None \<Rightarrow> Done (DXBC_COMPARE_INVALID_ARGUMENT, None)
     | Some _ \<Rightarrow> (let
         r = dxbc_compare_result_init\<lparr>r_expected_size := buf_size expected, r_actual_size := buf_size actual\<rparr>;
         finish = (\<lambda>r. Done (d_status r, Some r)) in
       case (expected, actual) of
         (Buf e, Buf a) \<Rightarrow>
           (case dxbc_document_parse uc stack (Some dxbc_document_init) (Buf e) of
              Fault \<Rightarrow> Fault
            | Fail g \<Rightarrow> finish (r\<lparr>r_expected_diagnostic := g, d_status := DXBC_COMPARE_EXPECTED_INVALID\<rparr>)
            | Done ed \<Rightarrow>
               (case dxbc_document_parse uc stack (Some dxbc_document_init) (Buf a) of
                  Fault \<Rightarrow> Fault
                | Fail g \<Rightarrow> finish (r\<lparr>r_actual_diagnostic := g, d_status := DXBC_COMPARE_ACTUAL_INVALID\<rparr>)
                | Done ad \<Rightarrow>
                   (case compare_documents uc e a ed ad of
                      Fault \<Rightarrow> Fault
                    | Fail d \<Rightarrow> finish (r\<lparr>d_status := d_status d,
                        d_first_differing_byte := d_first_differing_byte d, d_chunk_index := d_chunk_index d,
                        d_instruction_index := d_instruction_index d, d_token_index := d_token_index d,
                        d_expected_value := d_expected_value d, d_actual_value := d_actual_value d\<rparr>)
                    | Done _ \<Rightarrow> Done (DXBC_COMPARE_EQUAL, Some r))))
       | _ \<Rightarrow> finish (r\<lparr>d_status := DXBC_COMPARE_INVALID_ARGUMENT\<rparr>)))"

fun dxbc_compare_status_name :: "compare_status \<Rightarrow> string" where
  "dxbc_compare_status_name DXBC_COMPARE_EQUAL = ''equal''"
| "dxbc_compare_status_name DXBC_COMPARE_INVALID_ARGUMENT = ''invalid_argument''"
| "dxbc_compare_status_name DXBC_COMPARE_EXPECTED_INVALID = ''expected_invalid''"
| "dxbc_compare_status_name DXBC_COMPARE_ACTUAL_INVALID = ''actual_invalid''"
| "dxbc_compare_status_name DXBC_COMPARE_CONTAINER_VERSION = ''container_version''"
| "dxbc_compare_status_name DXBC_COMPARE_CHUNK_COUNT = ''chunk_count''"
| "dxbc_compare_status_name DXBC_COMPARE_CHUNK_FOURCC = ''chunk_fourcc''"
| "dxbc_compare_status_name DXBC_COMPARE_PROGRAM_VERSION = ''program_version''"
| "dxbc_compare_status_name DXBC_COMPARE_INSTRUCTION_COUNT = ''instruction_count''"
| "dxbc_compare_status_name DXBC_COMPARE_INSTRUCTION_OPCODE = ''instruction_opcode''"
| "dxbc_compare_status_name DXBC_COMPARE_INSTRUCTION_LENGTH = ''instruction_length''"
| "dxbc_compare_status_name DXBC_COMPARE_INSTRUCTION_TOKEN = ''instruction_token''"
| "dxbc_compare_status_name DXBC_COMPARE_CHUNK_PAYLOAD_SIZE = ''chunk_payload_size''"
| "dxbc_compare_status_name DXBC_COMPARE_CHUNK_OFFSET = ''chunk_offset''"
| "dxbc_compare_status_name DXBC_COMPARE_CONTAINER_SIZE = ''container_size''"
| "dxbc_compare_status_name DXBC_COMPARE_CHUNK_PAYLOAD = ''chunk_payload''"
| "dxbc_compare_status_name DXBC_COMPARE_RAW_BYTE = ''raw_byte''"

section \<open>Instructions of a chunk\<close>

lemma instruction_count_filter:
  "instruction_count_for_chunk insts k = length (filter (\<lambda>i. inst_chunk_index i = k) insts)"
  by (induction insts) auto

lemma instruction_for_chunk_filter:
  "c \<le> n \<Longrightarrow> instruction_for_chunk insts k n c =
    (let f = filter (\<lambda>i. inst_chunk_index i = k) insts in if n - c < length f then Some (f ! (n - c)) else None)"
proof (induction insts arbitrary: c)
  case (Cons i insts)
  then show ?case
    by (cases "n = c") (auto simp: Let_def nth_Cons' Suc_diff_Suc simp flip: diff_Suc_eq_diff_pred)
qed simp

lemma instruction_for_chunk_Some:
  assumes "n < instruction_count_for_chunk insts k"
  obtains i where "instruction_for_chunk insts k n 0 = Some i" "i \<in> set insts" "inst_chunk_index i = k"
proof -
  let ?f = "filter (\<lambda>i. inst_chunk_index i = k) insts"
  have "?f ! n \<in> set ?f" using assms unfolding instruction_count_filter by (rule nth_mem)
  then show thesis using that [of "?f ! n"] assms
    unfolding set_filter by (simp add: instruction_for_chunk_filter instruction_count_filter)
qed

section \<open>Byte differences\<close>

lemma first_byte_difference_spec:
  assumes "e + sz \<le> length ex" "a + sz \<le> length ac" "sz \<le> SIZE_MAX"
  shows "\<exists>d. first_byte_difference ex e ac a sz off = Done d \<and>
    (off \<le> d \<and> d < sz \<and> ex ! (e + d) \<noteq> ac ! (a + d) \<and> d \<noteq> SIZE_MAX \<or>
     d = SIZE_MAX \<and> (\<forall>j. off \<le> j \<and> j < sz \<longrightarrow> ex ! (e + j) = ac ! (a + j)))"
  using assms
proof (induction ex e ac a sz off rule: first_byte_difference.induct)
  case (1 ex e ac a sz off)
  show ?case
  proof (cases "off < sz \<and> ex ! (e + off) = ac ! (a + off)")
    case True
    from True "1.prems" have reads: "(mem (rd8 ex (e + off)) :: (difference, u8) outcome) = Done (ex ! (e + off))"
        "(mem (rd8 ac (a + off)) :: (difference, u8) outcome) = Done (ac ! (a + off))"
      by (auto simp: rd8_def)
    then have step: "first_byte_difference ex e ac a sz off = first_byte_difference ex e ac a sz (off + 1)"
      using True by (subst first_byte_difference.simps) simp
    from True "1.IH" [OF _ reads] "1.prems" obtain d where
      "first_byte_difference ex e ac a sz (off + 1) = Done d"
      "off + 1 \<le> d \<and> d < sz \<and> ex ! (e + d) \<noteq> ac ! (a + d) \<and> d \<noteq> SIZE_MAX \<or>
       d = SIZE_MAX \<and> (\<forall>j. off + 1 \<le> j \<and> j < sz \<longrightarrow> ex ! (e + j) = ac ! (a + j))"
      by blast
    moreover have "(\<forall>j. off \<le> j \<and> j < sz \<longrightarrow> ex ! (e + j) = ac ! (a + j))"
      if "\<forall>j. off + 1 \<le> j \<and> j < sz \<longrightarrow> ex ! (e + j) = ac ! (a + j)"
      using that True by (metis Suc_eq_plus1 le_antisym not_less_eq_eq)
    ultimately show ?thesis unfolding step by auto
  next
    case False
    with "1.prems" show ?thesis by (subst first_byte_difference.simps) (auto simp: rd8_def)
  qed
qed

lemma first_byte_difference_Done:
  assumes "first_byte_difference ex e ac a sz off = Done d" "e + sz \<le> length ex" "a + sz \<le> length ac" "sz \<le> SIZE_MAX"
  shows "d \<noteq> SIZE_MAX \<Longrightarrow> off \<le> d \<and> d < sz \<and> ex ! (e + d) \<noteq> ac ! (a + d)"
    and "d = SIZE_MAX \<Longrightarrow> off \<le> j \<Longrightarrow> j < sz \<Longrightarrow> ex ! (e + j) = ac ! (a + j)"
  using first_byte_difference_spec [OF assms(2-4), of off] assms(1) by auto

section \<open>Reported differences\<close>

definition localized :: "bytes \<Rightarrow> bytes \<Rightarrow> 'z difference_scheme \<Rightarrow> bool" where
  "localized e a d \<longleftrightarrow> d_expected_value d \<noteq> d_actual_value d \<and>
     d_status d \<notin> {DXBC_COMPARE_EQUAL, DXBC_COMPARE_INVALID_ARGUMENT, DXBC_COMPARE_EXPECTED_INVALID,
       DXBC_COMPARE_ACTUAL_INVALID, DXBC_COMPARE_CONTAINER_VERSION} \<and>
     (d_status d \<in> {DXBC_COMPARE_CHUNK_PAYLOAD, DXBC_COMPARE_RAW_BYTE} \<longrightarrow>
        d_first_differing_byte d < length e \<and>
        d_expected_value d = unat (e ! d_first_differing_byte d) \<and> d_actual_value d = unat (a ! d_first_differing_byte d) \<and>
        \<not> (4 \<le> d_first_differing_byte d \<and> d_first_differing_byte d < 20))"

abbreviation (input) structural :: "compare_status \<Rightarrow> bool" where
  "structural s \<equiv> s \<notin> {DXBC_COMPARE_EQUAL, DXBC_COMPARE_INVALID_ARGUMENT, DXBC_COMPARE_EXPECTED_INVALID,
     DXBC_COMPARE_ACTUAL_INVALID, DXBC_COMPARE_CONTAINER_VERSION, DXBC_COMPARE_CHUNK_PAYLOAD, DXBC_COMPARE_RAW_BYTE}"

lemma report_fails [fails_intros]:
  "structural s \<Longrightarrow> ev \<noteq> av \<Longrightarrow> fails_only (localized e a) (report s b ci ii ti ev av)"
  by (simp add: fails_only_def report_def localized_def)

lemma safe_prims [safe_intros]:
  "safe (report s b ci ii ti ev av)" "mo \<noteq> None \<Longrightarrow> safe (mem mo)"
  by (auto simp: safe_def report_def mem_iffs)

lemma fourcc_value_inject:
  "length c = 4 \<Longrightarrow> length d = 4 \<Longrightarrow> fourcc_value c = Done v \<Longrightarrow> fourcc_value d = Done w \<Longrightarrow> c \<noteq> d \<Longrightarrow> v \<noteq> w"
  by (auto simp: fourcc_value_def compare_read_u32_le_def outcome_simps rd32_bslice4 bslice_def)

lemma ofold_unit_Done: "ofold step is () = Done () \<Longrightarrow> i \<in> set is \<Longrightarrow> step i () = Done ()"
  by (induction "is") (auto simp: outcome_simps)

text \<open>Two parsed documents, with what the comparison relies on.\<close>

definition parsed_pair :: "unity_common \<Rightarrow> bytes \<Rightarrow> bytes \<Rightarrow> document \<Rightarrow> document \<Rightarrow> bool" where
  "parsed_pair uc e a ed ad \<longleftrightarrow> little_endian_host uc \<and> document_ok e ed \<and> document_ok a ad \<and>
     doc_chunk_count ed = doc_chunk_count ad"

lemma parsed_pair_chunk:
  assumes "parsed_pair uc e a ed ad" "k < unat (doc_chunk_count ed)"
  obtains te where "chunk_ok e te k (doc_chunks ed ! k)" "chunk_ok a te k (doc_chunks ad ! k)"
  using assms by (auto simp: parsed_pair_def document_ok_def chunk_table_ok_def)

lemma compare_token_ok:
  assumes "parsed_pair uc e a ed ad" "ei \<in> set (doc_instructions ed)" "ai \<in> set (doc_instructions ad)"
    "inst_token_count ei = inst_token_count ai" "k < unat (inst_token_count ei)"
  shows "safe (compare_token uc e a ci ii ei ai k u) \<and> fails_only (localized x y) (compare_token uc e a ci ii ei ai k u)"
proof -
  from assms document_instruction_token_Done [of e ed ei k uc] document_instruction_token_Done [of a ad ai k uc]
  obtain v w where "dxbc_document_instruction_token uc e (Some ei) k = Done v"
      "dxbc_document_instruction_token uc a (Some ai) k = Done w"
    by (auto simp: parsed_pair_def)
  then show ?thesis
    by (auto simp: compare_token_def Let_def intro!: fails_intros safe_intros)
qed

lemma compare_instruction_ok:
  assumes "parsed_pair uc e a ed ad"
    "k < instruction_count_for_chunk (doc_instructions ed) ci" "k < instruction_count_for_chunk (doc_instructions ad) ci"
  shows "safe (compare_instruction uc e a ed ad ec ci k u) \<and> fails_only (localized x y) (compare_instruction uc e a ed ad ec ci k u)"
proof -
  obtain ei where ei: "instruction_for_chunk (doc_instructions ed) ci k 0 = Some ei" "ei \<in> set (doc_instructions ed)"
    using assms(2) by (rule instruction_for_chunk_Some)
  obtain ai where ai: "instruction_for_chunk (doc_instructions ad) ci k 0 = Some ai" "ai \<in> set (doc_instructions ad)"
    using assms(3) by (rule instruction_for_chunk_Some)
  have "safe (compare_instruction uc e a ed ad ec ci k u)"
    unfolding compare_instruction_def Let_def ei(1) ai(1) prod.case option.case
    by (intro safe_intros) (use compare_token_ok [OF assms(1) ei(2) ai(2)] in auto)
  moreover have "fails_only (localized x y) (compare_instruction uc e a ed ad ec ci k u)"
    unfolding compare_instruction_def Let_def ei(1) ai(1) prod.case option.case
    by (intro fails_intros) (use compare_token_ok [OF assms(1) ei(2) ai(2)] in auto)
  ultimately show ?thesis by simp
qed

lemma executable_payload:
  assumes "document_ok b d" "k < length (doc_chunks d)" "chunk_kind (doc_chunks d ! k) = DXBC_DOCUMENT_CHUNK_EXECUTABLE"
  shows "8 \<le> unat (chunk_payload_size (doc_chunks d ! k))"
  using instructions_of_tiles [OF assms(1,2)] assms(3) by (simp add: chunk_instructions_def exec_tiles_def)

lemma parsed_pair_lengths:
  assumes "parsed_pair uc e a ed ad"
  shows "length (doc_chunks ed) = unat (doc_chunk_count ed)" "length (doc_chunks ad) = unat (doc_chunk_count ed)"
  using assms by (auto simp: parsed_pair_def document_ok_def chunk_table_ok_def)

lemma compare_chunk_structure_ok:
  assumes "parsed_pair uc e a ed ad" "k < unat (doc_chunk_count ed)"
  shows "safe (compare_chunk_structure uc e a ed ad k u)"
    "fails_only (localized x y) (compare_chunk_structure uc e a ed ad k u)"
proof -
  obtain te where ok: "chunk_ok e te k (doc_chunks ed ! k)" "chunk_ok a te k (doc_chunks ad ! k)"
    using assms by (rule parsed_pair_chunk)
  have len: "length (chunk_fourcc (doc_chunks ed ! k)) = 4" "length (chunk_fourcc (doc_chunks ad ! k)) = 4"
    using ok by (auto simp: chunk_ok_def chunk_end_def slice_simps)
  have docs: "document_ok e ed" "document_ok a ad" using assms(1) by (auto simp: parsed_pair_def)
  have versions: "rd32 e (chunk_payload_bytes (doc_chunks ed ! k)) \<noteq> None" "rd32 a (chunk_payload_bytes (doc_chunks ad ! k)) \<noteq> None"
    if "chunk_kind (doc_chunks ed ! k) = DXBC_DOCUMENT_CHUNK_EXECUTABLE" "chunk_kind (doc_chunks ad ! k) = DXBC_DOCUMENT_CHUNK_EXECUTABLE"
    using executable_payload [OF docs(1) _ that(1)] executable_payload [OF docs(2) _ that(2)] assms(2) ok parsed_pair_lengths [OF assms(1)]
    by (simp_all add: chunk_ok_def chunk_end_def)
  show "safe (compare_chunk_structure uc e a ed ad k u)"
    unfolding compare_chunk_structure_def Let_def fourcc_value_def compare_read_u32_le_def
    by (intro safe_intros) (use len compare_instruction_ok [OF assms(1)] versions in auto)
  show "fails_only (localized x y) (compare_chunk_structure uc e a ed ad k u)"
    unfolding compare_chunk_structure_def Let_def compare_read_u32_le_def
    by (intro fails_intros) (use len compare_instruction_ok [OF assms(1)] fourcc_value_inject [OF len]
      in \<open>auto simp: fourcc_value_def compare_read_u32_le_def fails_only_rules\<close>)
qed

lemma compare_chunk_placement_ok:
  "safe (compare_chunk_placement ed ad k u)" "fails_only (localized x y) (compare_chunk_placement ed ad k u)"
  unfolding compare_chunk_placement_def Let_def
  by (intro safe_intros, intro fails_intros) auto

lemma compare_chunk_placement_Done:
  "compare_chunk_placement ed ad k u = Done () \<Longrightarrow>
   chunk_payload_size (doc_chunks ed ! k) = chunk_payload_size (doc_chunks ad ! k) \<and>
   chunk_offset (doc_chunks ed ! k) = chunk_offset (doc_chunks ad ! k)"
  by (auto simp: compare_chunk_placement_def report_def Let_def split: if_splits)

lemma compare_chunk_payload_ok:
  assumes "parsed_pair uc e a ed ad" "k < unat (doc_chunk_count ed)" "compare_chunk_placement ed ad k () = Done ()"
  shows "safe (compare_chunk_payload e a ed ad k u)" "fails_only (localized e a) (compare_chunk_payload e a ed ad k u)"
proof -
  let ?c = "doc_chunks ed ! k" and ?c' = "doc_chunks ad ! k"
  obtain te where ok: "chunk_ok e te k ?c" "chunk_ok a te k ?c'" using assms(1,2) by (rule parsed_pair_chunk)
  have te: "32 \<le> unat (chunk_offset ?c)"
    using assms(1,2) by (auto simp: parsed_pair_def document_ok_def chunk_table_ok_def chunk_ok_def)
  note same = compare_chunk_placement_Done [OF assms(3)]
  have bounds: "chunk_payload_bytes ?c + unat (chunk_payload_size ?c) \<le> length e"
      "chunk_payload_bytes ?c' + unat (chunk_payload_size ?c) \<le> length a" "unat (chunk_payload_size ?c) \<le> SIZE_MAX"
    using ok same unat_u32 [of "chunk_payload_size ?c"] by (auto simp: chunk_ok_def chunk_end_def)
  from first_byte_difference_spec [OF bounds, of 0] obtain d where
    d: "first_byte_difference e (chunk_payload_bytes ?c) a (chunk_payload_bytes ?c') (unat (chunk_payload_size ?c)) 0 = Done d"
    "d \<noteq> SIZE_MAX \<Longrightarrow> d < unat (chunk_payload_size ?c) \<and> e ! (chunk_payload_bytes ?c + d) \<noteq> a ! (chunk_payload_bytes ?c' + d)"
    by blast
  have pb: "chunk_payload_bytes ?c' = chunk_payload_bytes ?c" "chunk_payload_bytes ?c = unat (chunk_offset ?c) + 8"
    using ok same by (simp_all add: chunk_ok_def)
  show "safe (compare_chunk_payload e a ed ad k u)" "fails_only (localized e a) (compare_chunk_payload e a ed ad k u)"
    using d bounds te unfolding compare_chunk_payload_def Let_def pb
    by (auto simp: safe_def fails_only_def rd8_def report_def localized_def)
qed

text \<open>Two verified containers that agree from byte 20 on have the same checksum.\<close>

lemma verified_same_body:
  assumes "dxbc_verify_hash uc stack (Buf e)" "dxbc_verify_hash uc stack (Buf a)" "length stack = 64"
    "length e = length a" "drop 20 e = drop 20 a"
  shows "bslice e 4 16 = bslice a 4 16"
proof -
  have "rd32 e 24 = rd32 a 24" if "32 \<le> length e"
  proof -
    have "rd32 e 24 = rd32 (bslice e 20 12) 4" "rd32 a 24 = rd32 (bslice a 20 12) 4"
      using that assms(4) by (simp_all add: rd32_bslice)
    then show ?thesis by (simp add: bslice_def assms(5))
  qed
  with assms checksum_skips_header [OF assms(3) assms(3), of _ a e] show ?thesis
    by (auto simp: dxbc_verify_hash_def dxbc_compute_hash_def outcome_simps Let_def split: if_splits outcome.splits option.splits)
qed

lemma compare_raw_bytes_ok:
  assumes "length e = length a" "e \<noteq> a" "20 \<le> length e" "length e \<le> SIZE_MAX"
    "drop 20 e = drop 20 a \<Longrightarrow> bslice e 4 16 = bslice a 4 16"
  shows "\<exists>d. compare_raw_bytes e a = Fail d \<and> localized e a d"
proof -
  have bounds: "0 + length e \<le> length e" "0 + length e \<le> length a" using assms(1) by simp_all
  obtain j where j: "j < length e" "e ! j \<noteq> a ! j" using assms(1,2) by (metis nth_equalityI)
  with first_byte_difference_spec [OF bounds assms(4), of 0] obtain d0 where
    d0: "first_byte_difference e 0 a 0 (length e) 0 = Done d0" "d0 < length e" "e ! d0 \<noteq> a ! d0" "d0 \<noteq> SIZE_MAX"
    by auto
  show ?thesis
  proof (cases "4 \<le> d0 \<and> d0 < 20")
    case False
    then have "compare_raw_bytes e a = report DXBC_COMPARE_RAW_BYTE d0 NO_INDEX NO_INDEX NO_INDEX (unat (e ! d0)) (unat (a ! d0))"
      using d0 assms(1) unfolding compare_raw_bytes_def d0(1) by (simp only: obind.simps if_False) (simp add: rd8_def)
    with False d0 show ?thesis by (auto simp: report_def localized_def)
  next
    case True
    have "drop 20 e \<noteq> drop 20 a"
    proof
      assume "drop 20 e = drop 20 a"
      from assms(5) [OF this] have "bslice e 4 16 ! (d0 - 4) = bslice a 4 16 ! (d0 - 4)" by simp
      moreover have "d0 - 4 < 16" using True by arith
      ultimately show False using True d0(3) assms(1,3) nth_bslice [of "d0 - 4" 16 4 e] nth_bslice [of "d0 - 4" 16 4 a] by simp
    qed
    then obtain k where "k < length (drop 20 e)" "drop 20 e ! k \<noteq> drop 20 a ! k"
      using assms(1) by (metis length_drop nth_equalityI)
    then have "20 \<le> 20 + k" "20 + k < length e" "e ! (20 + k) \<noteq> a ! (20 + k)" using assms(1) by auto
    with first_byte_difference_spec [OF bounds assms(4), of 20] obtain d1 where
      d1: "first_byte_difference e 0 a 0 (length e) 20 = Done d1" "20 \<le> d1" "d1 < length e" "e ! d1 \<noteq> a ! d1" "d1 \<noteq> SIZE_MAX"
      by fastforce
    with True d0 assms(1) show ?thesis
      by (simp add: compare_raw_bytes_def rd8_def report_def localized_def)
  qed
qed

lemma compare_documents_different:
  assumes "little_endian_host uc" "document_ok e ed" "document_ok a ad" "length stack = 64"
    "dxbc_verify_hash uc stack (Buf e)" "dxbc_verify_hash uc stack (Buf a)" "e \<noteq> a"
  shows "\<exists>d. compare_documents uc e a ed ad = Fail d \<and> localized e a d"
proof (cases "doc_chunk_count ed = doc_chunk_count ad")
  case False
  with assms show ?thesis
    by (auto simp: compare_documents_def document_ok_def report_def localized_def)
next
  case True
  with assms have pair: "parsed_pair uc e a ed ad" by (simp add: parsed_pair_def)
  have frame: "doc_owned_bytes ed = Some e" "doc_owned_bytes ad = Some a" "doc_container_version ed = doc_container_version ad"
      "32 \<le> length e" "length e \<le> SIZE_MAX"
    using assms(2,3) unat_u32 [of "doc_declared_size ed"] by (auto simp: document_ok_def)
  let ?n = "unat (doc_chunk_count ed)"
  let ?s = "ofold (compare_chunk_structure uc e a ed ad) [0..<?n] ()"
    and ?p = "ofold (compare_chunk_placement ed ad) [0..<?n] ()"
    and ?y = "ofold (compare_chunk_payload e a ed ad) [0..<?n] ()"
  have s: "safe ?s" "fails_only (localized e a) ?s"
    using compare_chunk_structure_ok [OF pair] by (auto intro!: safe_ofold fails_only_ofold)
  have p: "safe ?p" "fails_only (localized e a) ?p"
    using compare_chunk_placement_ok by (auto intro!: safe_ofold fails_only_ofold)
  have y: "safe ?y" "fails_only (localized e a) ?y" if "?p = Done ()"
    using compare_chunk_payload_ok [OF pair _ ofold_unit_Done [OF that]] by (auto intro!: safe_ofold fails_only_ofold)
  have raw: "\<exists>d. compare_raw_bytes e a = Fail d \<and> localized e a d" if "length e = length a"
    using compare_raw_bytes_ok [OF that assms(7)] frame(4,5) verified_same_body [OF assms(5,6,4) that] by auto
  let ?size = "if length e \<noteq> length a then
    report DXBC_COMPARE_CONTAINER_SIZE 24 NO_INDEX NO_INDEX NO_INDEX (length e) (length a) else Done ()"
  have unfolded: "compare_documents uc e a ed ad =
      obind ?s (\<lambda>_. obind ?p (\<lambda>_. obind ?size (\<lambda>_. obind ?y (\<lambda>_. compare_raw_bytes e a))))"
    using assms(7) True frame(1-3) unfolding compare_documents_def by simp
  have len: "length e = length a" if "?size = Done ()" using that by (auto simp: report_def split: if_splits)
  have sz: "safe ?size" "fails_only (localized e a) ?size"
    by (auto simp: safe_def fails_only_def report_def localized_def)
  have "safe (compare_raw_bytes e a)" "fails_only (localized e a) (compare_raw_bytes e a)" if "?size = Done ()"
    using raw [OF len [OF that]] by (auto simp: safe_def fails_only_def)
  then have "safe (compare_documents uc e a ed ad) \<and> fails_only (localized e a) (compare_documents uc e a ed ad)"
    unfolding unfolded using s p y sz by (auto intro!: safe_rules(3) fails_only_rules(5))
  moreover have "compare_documents uc e a ed ad \<noteq> Done ()"
    unfolding unfolded using raw [OF len] by (auto simp: obind_Done_iff)
  ultimately show ?thesis
    by (cases "compare_documents uc e a ed ad") (auto simp: safe_def fails_only_def)
qed

text \<open>What a comparison of two buffers returns.\<close>

lemma compare_exact_cases:
  assumes "little_endian_host uc" "length stack = 64"
  defines "parse \<equiv> \<lambda>bs. dxbc_document_parse uc stack (Some dxbc_document_init) (Buf bs)"
  obtains (invalid) r g where "dxbc_compare_exact uc stack (Buf e) (Buf a) (Some r0) = Done (DXBC_COMPARE_EXPECTED_INVALID, Some r)"
      "parse e = Fail g" "r_expected_diagnostic r = g"
    | (actual_invalid) r g where "dxbc_compare_exact uc stack (Buf e) (Buf a) (Some r0) = Done (DXBC_COMPARE_ACTUAL_INVALID, Some r)"
      "\<forall>g. parse e \<noteq> Fail g" "parse a = Fail g" "r_actual_diagnostic r = g"
    | (equal) r where "dxbc_compare_exact uc stack (Buf e) (Buf a) (Some r0) = Done (DXBC_COMPARE_EQUAL, Some r)"
      "e = a" "\<exists>doc. parse e = Done doc"
    | (different) r where "dxbc_compare_exact uc stack (Buf e) (Buf a) (Some r0) = Done (d_status r, Some r)"
      "e \<noteq> a" "localized e a r"
proof -
  note unfolded = dxbc_compare_exact_def Let_def parse_def
  show thesis
  proof (cases "parse e")
    case Fault
    then show thesis using document_parse_safe [OF assms(1)] by (simp add: parse_def)
  next
    case (Fail g)
    then show thesis by (intro invalid) (auto simp: unfolded)
  next
    case (Done ed)
    note ed = this document_parse_Done [OF this [unfolded parse_def] assms(1)]
    show thesis
    proof (cases "parse a")
      case Fault
      then show thesis using document_parse_safe [OF assms(1)] by (simp add: parse_def)
    next
      case (Fail g)
      with ed(1) show thesis by (intro actual_invalid) (auto simp: unfolded)
    next
      case (Done ad)
      note ad = this document_parse_Done [OF this [unfolded parse_def] assms(1)]
      show thesis
      proof (cases "e = a")
        case True
        with ed(1) ad(1) show thesis by (intro equal) (auto simp: unfolded compare_documents_def)
      next
        case False
        with compare_documents_different [OF assms(1) _ _ assms(2)] ed(2) ad(2)
        obtain d where "compare_documents uc e a ed ad = Fail d" "localized e a d" by blast
        with False ed(1) ad(1) show thesis
          by (intro different [of "dxbc_compare_result_init\<lparr>r_expected_size := length e, r_actual_size := length a,
              d_status := d_status d, d_first_differing_byte := d_first_differing_byte d, d_chunk_index := d_chunk_index d,
              d_instruction_index := d_instruction_index d, d_token_index := d_token_index d,
              d_expected_value := d_expected_value d, d_actual_value := d_actual_value d\<rparr>"])
            (auto simp: unfolded localized_def)
      qed
    qed
  qed
qed

text \<open>An empty container that verifies, beside the sample with one chunk.\<close>

lemma empty_parse:
  assumes "length stack = 64"
  shows "\<exists>doc. dxbc_document_parse lp64_common stack (Some dxbc_document_init) (Buf (stamp empty_container)) = Done doc"
proof -
  obtain h where h: "length h = 16" "stamp empty_container = take 4 empty_container @ h @ drop 20 empty_container"
    using stamp_shape [of empty_container] by (metis empty_container_simps(1) order_refl)
  have tail: "drop 20 empty_container = bytes32 1 @ bytes32 32 @ bytes32 0" "take 4 empty_container = magic_DXBC"
    by (simp_all add: empty_container_def)
  have v: "dxbc_verify_hash lp64_common stack (Buf (stamp empty_container))"
    by (rule stamp_verifies) (use assms in simp_all)
  have "parse_header lp64_common (stamp empty_container) = Done (1, 32, 0)"
    unfolding h(2) tail using h(1) by (simp add: parse_header_def read_u32_le_def memcmp_eq_def image_simps Let_def)
  with v show ?thesis by (simp add: dxbc_document_parse_def Let_def)
qed

lemma stamp_differ: "stamp empty_container \<noteq> stamp sample_container"
proof -
  have "length (stamp empty_container) = 32" "length (stamp sample_container) = 56"
    by (simp_all add: stamp_def overwrite_def sample_container_def)
  then show ?thesis by (metis numeral_eq_iff semiring_norm(83,87,89))
qed

section \<open>Properties\<close>

text \<open>
  C24: the comparison of two buffers reports equality exactly when the two byte strings are equal and
  parse; no input is normalised.
\<close>

theorem compare_equal_iff:
  assumes "little_endian_host uc" "length stack = 64"
    and "dxbc_compare_exact uc stack (Buf e) (Buf a) (Some r0) = Done (st, r)"
  shows "st = DXBC_COMPARE_EQUAL \<longleftrightarrow>
    e = a \<and> (\<exists>doc. dxbc_document_parse uc stack (Some dxbc_document_init) (Buf e) = Done doc)"
  using assms(3) by (cases rule: compare_exact_cases [OF assms(1,2), of e a r0]) (auto simp: localized_def)

theorem compare_equal_iff_witness:
  "\<exists>r. dxbc_compare_exact lp64_common (replicate 64 0) (Buf (stamp sample_container)) (Buf (stamp sample_container))
     (Some dxbc_compare_result_init) = Done (DXBC_COMPARE_EQUAL, r)"
proof -
  let ?c = "stamp sample_container"
  obtain st r where "dxbc_compare_exact lp64_common (replicate 64 0) (Buf ?c) (Buf ?c)
      (Some dxbc_compare_result_init) = Done (st, r)"
    by (rule compare_exact_cases [of lp64_common "replicate 64 0" ?c ?c dxbc_compare_result_init]) auto
  with compare_equal_iff [OF _ _ this] sample_parse [of "replicate 64 0"] show ?thesis by auto
qed



text \<open>Comparing never reads outside the two buffers and always returns a status.\<close>

lemma compare_total:
  assumes "little_endian_host uc" "length stack = 64"
  shows "\<exists>st r. dxbc_compare_exact uc stack expected actual result = Done (st, r)"
proof (cases "\<exists>e a r0. expected = Buf e \<and> actual = Buf a \<and> result = Some r0")
  case True
  then obtain e a r0 where "expected = Buf e" "actual = Buf a" "result = Some r0" by blast
  then show ?thesis by (cases rule: compare_exact_cases [OF assms, of e a r0]) auto
qed (auto simp: dxbc_compare_exact_def Let_def split: option.splits c_buffer.splits)

end
