(* ===== verification/Usbd.thy ===== *)
theory Usbd
  imports Dxbc_Document
begin

text \<open>
  \<open>src/dxbc/usbd.c\<close>: the multi-program result container.  Views into the table are offsets
  into its bytes; a \<open>false\<close> result with a diagnostic is a \<open>Fail\<close>.  The encoder writes through
  bounds-checked stores into storage whose initial content is a parameter.
\<close>

section \<open>Data\<close>

datatype usbd_status =
    DXBC_USBD_OK
  | DXBC_USBD_INVALID_ARGUMENT
  | DXBC_USBD_BAD_MAGIC
  | DXBC_USBD_BAD_RECORD_COUNT
  | DXBC_USBD_TRUNCATED
  | DXBC_USBD_INVALID_NAME
  | DXBC_USBD_INVALID_DXBC
  | DXBC_USBD_TRAILING_BYTES
  | DXBC_USBD_SIZE_OVERFLOW
  | DXBC_USBD_ALLOCATION_FAILED

record usbd_diagnostic =
  ud_status :: usbd_status
  ud_byte_offset :: nat
  ud_record_index :: nat

text \<open>A record found in a table (offsets into the table) and a record given to the encoder.\<close>

record usbd_record_view =
  rv_name :: nat
  rv_name_size :: nat
  rv_dxbc :: nat
  rv_dxbc_size :: nat

record usbd_record =
  ur_name :: c_buffer
  ur_dxbc :: c_buffer

record usbd_table =
  ut_bytes :: "bytes option"
  ut_size :: nat
  ut_record_count :: u32

definition usbd_diag :: "usbd_status \<Rightarrow> nat \<Rightarrow> nat \<Rightarrow> usbd_diagnostic" where
  "usbd_diag status byte_offset record_index =
     \<lparr>ud_status = status, ud_byte_offset = byte_offset, ud_record_index = record_index\<rparr>"

section \<open>Names\<close>

text \<open>The loop over the continuation bytes of one code point.\<close>

fun utf8_continuation :: "bytes \<Rightarrow> nat \<Rightarrow> nat \<Rightarrow> u32 \<Rightarrow> (unit, nat \<times> u32) outcome" where
  "utf8_continuation bs at 0 codepoint = Done (at, codepoint)"
| "utf8_continuation bs at (Suc n) codepoint =
     obind (mem (rd8 bs at)) (\<lambda>nxt.
       if nxt AND 0xc0 \<noteq> 0x80 then Fail ()
       else utf8_continuation bs (at + 1) n (push_bit 6 codepoint OR ucast (nxt AND 0x3f)))"

definition utf8_lead :: "u8 \<Rightarrow> (unit, nat \<times> u32 \<times> u32) outcome" where
  "utf8_lead first =
     (if first AND 0xe0 = 0xc0 then Done (1, ucast (first AND 0x1f), 0x80)
      else if first AND 0xf0 = 0xe0 then Done (2, ucast (first AND 0x0f), 0x800)
      else if first AND 0xf8 = 0xf0 then Done (3, ucast (first AND 0x07), 0x10000)
      else Fail ())"

lemma utf8_continuation_at: "utf8_continuation bs at n cp = Done (at', cp') \<Longrightarrow> at' = at + n"
  by (induction bs at n cp rule: utf8_continuation.induct) (auto simp: outcome_simps split: if_splits)

text \<open>One turn of the scan: the position after the code point at \<open>at\<close>.\<close>

definition utf8_step :: "bytes \<Rightarrow> nat \<Rightarrow> (unit, nat) outcome" where
  "utf8_step bs at =
     obind (mem (rd8 bs at)) (\<lambda>first.
     if first = 0 then Fail ()
     else if first < 0x80 then Done (at + 1)
     else obind (utf8_lead first) (\<lambda>(continuation, codepoint, minimum).
       if continuation > length bs - (at + 1) then Fail ()
       else obind (utf8_continuation bs (at + 1) continuation codepoint) (\<lambda>(at', codepoint).
         if codepoint < minimum \<or> codepoint > 0x10ffff \<or> codepoint \<ge> 0xd800 \<and> codepoint \<le> 0xdfff then Fail ()
         else Done at')))"

lemma utf8_step_advances: "utf8_step bs at = Done at' \<Longrightarrow> at < at'"
  by (auto simp: utf8_step_def outcome_simps split: if_splits prod.splits dest!: utf8_continuation_at)

function utf8_scan :: "bytes \<Rightarrow> nat \<Rightarrow> (unit, unit) outcome" where
  "utf8_scan bs at = (if at < length bs then obind (utf8_step bs at) (utf8_scan bs) else Done ())"
  by pat_completeness auto
termination
  by (relation "measure (\<lambda>(bs, at). length bs - at)") (auto dest: utf8_step_advances)

declare utf8_scan.simps [simp del]

text \<open>\<open>Done ()\<close> is \<open>true\<close>, \<open>Fail ()\<close> is \<open>false\<close>.\<close>

definition valid_utf8_name :: "c_buffer \<Rightarrow> (unit, unit) outcome" where
  "valid_utf8_name name = (case name of
       NullBuf _ \<Rightarrow> Fail ()
     | Buf bs \<Rightarrow> if length bs = 0 then Fail () else utf8_scan bs 0)"

section \<open>Reading a table\<close>

definition valid_raw_dxbc :: "unity_common \<Rightarrow> bytes \<Rightarrow> c_buffer \<Rightarrow> (unit, unit) outcome" where
  "valid_raw_dxbc uc stack data = (case data of
       NullBuf _ \<Rightarrow> Fail ()
     | Buf bs \<Rightarrow>
         obind (dxbc_container_view_first uc (Buf bs)) (\<lambda>container.
         if view_data container \<noteq> 0 \<or> view_size container \<noteq> length bs then Fail ()
         else obind (on_fail (dxbc_document_parse uc stack (Some dxbc_document_init) (Buf bs)) (Fail ()))
                (\<lambda>document. Done ())))"

definition usbd_read_u32_le :: "bytes \<Rightarrow> nat \<Rightarrow> ('e, u32) outcome" where
  "usbd_read_u32_le bs off = mem (rd32 bs off)"

definition parse_record ::
  "unity_common \<Rightarrow> bytes \<Rightarrow> bytes \<Rightarrow> nat \<Rightarrow> nat \<Rightarrow> (usbd_diagnostic, nat \<times> usbd_record_view) outcome" where
  "parse_record uc stack bs at record_index = (let sz = length bs in
     if at > sz \<or> sz - at < 4 then Fail (usbd_diag DXBC_USBD_TRUNCATED at record_index)
     else obind (usbd_read_u32_le bs at) (\<lambda>name_length. let
       name_size = unat name_length; name = at + 4;
       bad_name = usbd_diag DXBC_USBD_INVALID_NAME name record_index in
     if name_size = 0 \<or> name_size > sz - name then Fail bad_name
     else obind (on_fail (valid_utf8_name (Buf (bslice bs name name_size))) (Fail bad_name)) (\<lambda>_. let at = name + name_size in
     if sz - at < 4 then Fail (usbd_diag DXBC_USBD_TRUNCATED at record_index)
     else obind (usbd_read_u32_le bs at) (\<lambda>dxbc_length. let dxbc_size = unat dxbc_length; at = at + 4 in
     if dxbc_size > sz - at then Fail (usbd_diag DXBC_USBD_TRUNCATED at record_index)
     else obind (on_fail (valid_raw_dxbc uc stack (Buf (bslice bs at dxbc_size)))
                   (Fail (usbd_diag DXBC_USBD_INVALID_DXBC at record_index))) (\<lambda>_.
       Done (at + dxbc_size, \<lparr>rv_name = name, rv_name_size = name_size, rv_dxbc = at, rv_dxbc_size = dxbc_size\<rparr>))))))"

definition dxbc_usbd_table_init :: usbd_table where
  "dxbc_usbd_table_init = \<lparr>ut_bytes = None, ut_size = 0, ut_record_count = 0\<rparr>"

text \<open>One turn of the loops of \<open>open\<close> and of \<open>record\<close>.\<close>

definition open_step :: "unity_common \<Rightarrow> bytes \<Rightarrow> bytes \<Rightarrow> nat \<Rightarrow> nat \<Rightarrow> (usbd_diagnostic, nat) outcome" where
  "open_step uc stack bs index at = obind (parse_record uc stack bs at index) (\<lambda>(at, _). Done at)"

definition record_step ::
  "unity_common \<Rightarrow> bytes \<Rightarrow> bytes \<Rightarrow> nat \<Rightarrow> nat \<times> usbd_record_view option \<Rightarrow> (unit, nat \<times> usbd_record_view option) outcome" where
  "record_step uc stack bs index = (\<lambda>(at, _).
     on_fail (obind (parse_record uc stack bs at index) (\<lambda>(at, current). Done (at, Some current))) (Fail ()))"

text \<open>
  \<open>table\<close> tells whether the table pointer is not \<open>NULL\<close>.  On failure the caller's table is
  \<open>dxbc_usbd_table_init\<close>; on success it and the final diagnostic are the result.
\<close>

definition dxbc_usbd_table_open ::
  "unity_common \<Rightarrow> bytes \<Rightarrow> bool \<Rightarrow> c_buffer \<Rightarrow> (usbd_diagnostic, usbd_table \<times> usbd_diagnostic) outcome" where
  "dxbc_usbd_table_open uc stack table data = (case data of
       NullBuf _ \<Rightarrow> Fail (usbd_diag DXBC_USBD_INVALID_ARGUMENT 0 UINT32_MAX)
     | Buf bs \<Rightarrow>
       if \<not> table then Fail (usbd_diag DXBC_USBD_INVALID_ARGUMENT 0 UINT32_MAX)
       else let sz = length bs; bad_magic = Fail (usbd_diag DXBC_USBD_BAD_MAGIC 0 UINT32_MAX) in
       if sz < 8 then bad_magic
       else obind (memcmp_eq bs 0 magic_USBD) (\<lambda>eq.
       if \<not> eq then bad_magic
       else obind (usbd_read_u32_le bs 4) (\<lambda>count.
       if count = 0 \<or> unat count > (sz - 8) div 9 then
         Fail (usbd_diag DXBC_USBD_BAD_RECORD_COUNT 4 UINT32_MAX)
       else obind (ofold (open_step uc stack bs) [0..<unat count] 8) (\<lambda>at.
       if at \<noteq> sz then Fail (usbd_diag DXBC_USBD_TRAILING_BYTES at (unat count))
       else Done (\<lparr>ut_bytes = Some bs, ut_size = sz, ut_record_count = count\<rparr>,
                  usbd_diag DXBC_USBD_OK sz (unat count))))))"

text \<open>The loop leaves the record of its last turn; \<open>out\<close> tells whether the result pointer is not \<open>NULL\<close>.\<close>

definition dxbc_usbd_table_record ::
  "unity_common \<Rightarrow> bytes \<Rightarrow> usbd_table option \<Rightarrow> nat \<Rightarrow> bool \<Rightarrow> (unit, usbd_record_view) outcome" where
  "dxbc_usbd_table_record uc stack table record_index out = (case table of
       None \<Rightarrow> Fail ()
     | Some t \<Rightarrow> (case ut_bytes t of
         None \<Rightarrow> Fail ()
       | Some bs \<Rightarrow>
         if \<not> out \<or> record_index \<ge> unat (ut_record_count t) then Fail ()
         else obind (ofold (record_step uc stack (take (ut_size t) bs)) [0..<Suc record_index] (8, None))
              (\<lambda>(_, current). case current of None \<Rightarrow> Fail () | Some rv \<Rightarrow> Done rv)))"

section \<open>Writing a table\<close>

text \<open>The size pass: the running size and the tests of one record.\<close>

definition encode_measure :: "unity_common \<Rightarrow> bytes \<Rightarrow> usbd_record list \<Rightarrow> nat \<Rightarrow> nat \<Rightarrow> (usbd_diagnostic, nat) outcome" where
  "encode_measure uc stack records index sz = (let
     record = records ! index; name_size = buf_size (ur_name record); dxbc_size = buf_size (ur_dxbc record);
     bad_name = usbd_diag DXBC_USBD_INVALID_NAME sz index;
     bad_dxbc = usbd_diag DXBC_USBD_INVALID_DXBC sz index in
     if name_size = 0 \<or> name_size > UINT32_MAX then Fail bad_name
     else obind (on_fail (valid_utf8_name (ur_name record)) (Fail bad_name)) (\<lambda>_.
     if dxbc_size > UINT32_MAX then Fail bad_dxbc
     else obind (on_fail (valid_raw_dxbc uc stack (ur_dxbc record)) (Fail bad_dxbc)) (\<lambda>_.
     if size_add_overflows uc 8 name_size \<or> size_add_overflows uc (8 + name_size) dxbc_size \<or>
        size_add_overflows uc sz (8 + name_size + dxbc_size)
     then Fail (usbd_diag DXBC_USBD_SIZE_OVERFLOW sz index)
     else Done (sz + (8 + name_size + dxbc_size)))))"

definition store :: "bytes \<Rightarrow> nat \<Rightarrow> bytes \<Rightarrow> ('e, bytes) outcome" where
  "store buf off data = (if off + length data \<le> length buf then Done (overwrite buf off data) else Fault)"

fun buf_content :: "c_buffer \<Rightarrow> ('e, bytes) outcome" where
  "buf_content (Buf bs) = Done bs"
| "buf_content (NullBuf _) = Fault"

definition encode_record :: "usbd_record list \<Rightarrow> nat \<Rightarrow> bytes \<times> nat \<Rightarrow> (usbd_diagnostic, bytes \<times> nat) outcome" where
  "encode_record records index = (\<lambda>(buf, at). let record = records ! index in
     obind (buf_content (ur_name record)) (\<lambda>name.
     obind (buf_content (ur_dxbc record)) (\<lambda>dxbc.
     obind (store buf at (bytes32 (of_nat (length name)))) (\<lambda>buf. let at = at + 4 in
     obind (store buf at name) (\<lambda>buf. let at = at + length name in
     obind (store buf at (bytes32 (of_nat (length dxbc)))) (\<lambda>buf. let at = at + 4 in
     obind (store buf at dxbc) (\<lambda>buf. Done (buf, at + length dxbc))))))))"

text \<open>
  \<open>fresh n\<close> is the indeterminate content of an allocation of \<open>n\<close> bytes; \<open>outs\<close> tells whether
  both output pointers are not \<open>NULL\<close>.
\<close>

definition dxbc_usbd_table_encode ::
  "unity_common \<Rightarrow> bytes \<Rightarrow> (nat \<Rightarrow> bytes) \<Rightarrow> usbd_record list option \<Rightarrow> bool \<Rightarrow> (usbd_diagnostic, bytes \<times> usbd_diagnostic) outcome" where
  "dxbc_usbd_table_encode uc stack fresh records outs = (let
     invalid = Fail (usbd_diag DXBC_USBD_INVALID_ARGUMENT 0 UINT32_MAX) in
     case records of
       None \<Rightarrow> invalid
     | Some rs \<Rightarrow>
       if length rs = 0 \<or> length rs > UINT32_MAX \<or> \<not> outs then invalid
       else obind (ofold (encode_measure uc stack rs) [0..<length rs] 8) (\<lambda>sz.
       if \<not> mem_alloc uc sz then Fail (usbd_diag DXBC_USBD_ALLOCATION_FAILED 0 UINT32_MAX)
       else
       obind (store (fresh sz) 0 magic_USBD) (\<lambda>buf.
       obind (store buf 4 (bytes32 (of_nat (length rs)))) (\<lambda>buf.
       obind (ofold (encode_record rs) [0..<length rs] (buf, 8)) (\<lambda>(buf, at).
         Done (buf, usbd_diag DXBC_USBD_OK sz (length rs)))))))"

fun dxbc_usbd_status_name :: "usbd_status \<Rightarrow> string" where
  "dxbc_usbd_status_name DXBC_USBD_OK = ''ok''"
| "dxbc_usbd_status_name DXBC_USBD_INVALID_ARGUMENT = ''invalid-argument''"
| "dxbc_usbd_status_name DXBC_USBD_BAD_MAGIC = ''bad-magic''"
| "dxbc_usbd_status_name DXBC_USBD_BAD_RECORD_COUNT = ''bad-record-count''"
| "dxbc_usbd_status_name DXBC_USBD_TRUNCATED = ''truncated''"
| "dxbc_usbd_status_name DXBC_USBD_INVALID_NAME = ''invalid-name''"
| "dxbc_usbd_status_name DXBC_USBD_INVALID_DXBC = ''invalid-dxbc''"
| "dxbc_usbd_status_name DXBC_USBD_TRAILING_BYTES = ''trailing-bytes''"
| "dxbc_usbd_status_name DXBC_USBD_SIZE_OVERFLOW = ''size-overflow''"
| "dxbc_usbd_status_name DXBC_USBD_ALLOCATION_FAILED = ''allocation-failed''"

section \<open>Names are UTF-8\<close>

definition scalar :: "nat \<Rightarrow> bool" where
  "scalar c \<longleftrightarrow> 0 < c \<and> c \<le> 0x10ffff \<and> \<not> (0xd800 \<le> c \<and> c \<le> 0xdfff)"

definition utf8_units :: "nat \<Rightarrow> nat list" where
  "utf8_units c =
     (if c < 0x80 then [c]
      else if c < 0x800 then [0xC0 + c div 64, 0x80 + c mod 64]
      else if c < 0x10000 then [0xE0 + c div 4096, 0x80 + c div 64 mod 64, 0x80 + c mod 64]
      else [0xF0 + c div 262144, 0x80 + c div 4096 mod 64, 0x80 + c div 64 mod 64, 0x80 + c mod 64])"

definition utf8_encode :: "nat \<Rightarrow> bytes" where
  "utf8_encode c = map of_nat (utf8_units c)"

lemma high_mask: "(w :: u8) AND NOT (mask n) = v \<longleftrightarrow> unat w - unat w mod 2 ^ n = unat v"
  by (metis unat_and_not_mask unat_inject)

lemma high_range: "0 < m \<Longrightarrow> u - u mod m = m * q \<longleftrightarrow> m * q \<le> u \<and> u < m * q + m" for m :: nat
  using dividend_less_times_div [of m u]
  by (auto simp: minus_mod_eq_mult_div ac_simps intro: div_nat_eqI)

lemma mod_shift: "k mod m = 0 \<Longrightarrow> x < m \<Longrightarrow> (k + x) mod m = x" for k :: nat
  by (simp add: mod_add_eq [of k m x, symmetric])

lemma middle_digit: "r < m \<Longrightarrow> y < n \<Longrightarrow> (m * (n * x + y) + r) div m mod n = y" for m :: nat
  by (cases "m = 0") simp_all

lemma u8_masks:
  fixes w :: u8
  shows "w AND 0xe0 = 0xc0 \<longleftrightarrow> 192 \<le> unat w \<and> unat w < 224"
    "w AND 0xf0 = 0xe0 \<longleftrightarrow> 224 \<le> unat w \<and> unat w < 240"
    "w AND 0xf8 = 0xf0 \<longleftrightarrow> 240 \<le> unat w \<and> unat w < 248"
    "w AND 0xc0 = 0x80 \<longleftrightarrow> 128 \<le> unat w \<and> unat w < 192"
    "unat (w AND 0x1f) = unat w mod 32" "unat (w AND 0x0f) = unat w mod 16" "unat (w AND 0x07) = unat w mod 8"
    "unat (w AND 0x3f) = unat w mod 64" "w < 0x80 \<longleftrightarrow> unat w < 128"
proof -
  have lt: "unat w < 256" using unsigned_less [of w] by simp
  have m: "(0xe0 :: u8) = NOT (mask 5)" "(0xf0 :: u8) = NOT (mask 4)" "(0xf8 :: u8) = NOT (mask 3)" "(0xc0 :: u8) = NOT (mask 6)"
      "(0x1f :: u8) = mask 5" "(0x0f :: u8) = mask 4" "(0x07 :: u8) = mask 3" "(0x3f :: u8) = mask 6"
    by (simp_all add: mask_eq_exp_minus_1)
  show "w AND 0xe0 = 0xc0 \<longleftrightarrow> 192 \<le> unat w \<and> unat w < 224"
    unfolding m(1) high_mask using high_range [of 32 "unat w" 6] by simp
  show "w AND 0xf0 = 0xe0 \<longleftrightarrow> 224 \<le> unat w \<and> unat w < 240"
    unfolding m(2) high_mask using high_range [of 16 "unat w" 14] by simp
  show "w AND 0xf8 = 0xf0 \<longleftrightarrow> 240 \<le> unat w \<and> unat w < 248"
    unfolding m(3) high_mask using high_range [of 8 "unat w" 30] by simp
  show "w AND 0xc0 = 0x80 \<longleftrightarrow> 128 \<le> unat w \<and> unat w < 192"
    unfolding m(4) high_mask using high_range [of 64 "unat w" 2] by simp
  show "unat (w AND 0x1f) = unat w mod 32" "unat (w AND 0x0f) = unat w mod 16" "unat (w AND 0x07) = unat w mod 8"
    "unat (w AND 0x3f) = unat w mod 64"
    unfolding m unat_and_mask by simp_all
  show "w < 0x80 \<longleftrightarrow> unat w < 128" by (simp add: word_less_nat_alt)
qed

lemma codepoint_shift:
  fixes cp :: u32 and nxt :: u8
  assumes "unat cp < 67108864"
  shows "unat (push_bit 6 cp OR ucast (nxt AND 0x3f)) = unat cp * 64 + unat nxt mod 64"
proof -
  have disj: "push_bit 6 cp AND ucast (nxt AND 0x3f) = 0"
  proof (rule bit_word_eqI)
    fix n assume "n < LENGTH(32)"
    have m: "(0x3f :: u8) = mask 6" by (simp add: mask_eq_exp_minus_1)
    show "bit (push_bit 6 cp AND ucast (nxt AND 0x3f)) n = bit (0 :: u32) n"
      unfolding m by (auto simp: bit_simps simp del: mask_numeral)
  qed
  have "unat (push_bit 6 cp) = unat cp * 64"
    using assms by (simp add: push_bit_eq_mult unat_word_ariths)
  moreover have "unat (ucast (nxt AND 0x3f) :: u32) = unat nxt mod 64"
    using u8_masks(8) [of nxt] by (simp add: unsigned_ucast_eq take_bit_nat_eq_self)
  moreover have "push_bit 6 cp OR ucast (nxt AND 0x3f) = push_bit 6 cp + ucast (nxt AND 0x3f)"
    by (rule disjunctive_add_eq_or [symmetric]) (rule disj)
  ultimately show ?thesis using assms by (simp add: unat_word_ariths)
qed

lemma enc2:
  assumes "192 \<le> u0" "u0 < 224" "128 \<le> u1" "u1 < 192"
  defines "c \<equiv> u0 mod 32 * 64 + u1 mod 64 :: nat"
  shows "c < 0x800" "192 + c div 64 = u0" "128 + c mod 64 = u1"
proof -
  obtain x y where "u0 = 192 + x" "u1 = 128 + y" using assms(1,3) by (metis le_iff_add)
  with assms show "c < 0x800" "192 + c div 64 = u0" "128 + c mod 64 = u1" by (simp_all add: mod_shift)
qed

lemma enc3:
  assumes "224 \<le> u0" "u0 < 240" "128 \<le> u1" "u1 < 192" "128 \<le> u2" "u2 < 192"
  defines "c \<equiv> (u0 mod 16 * 64 + u1 mod 64) * 64 + u2 mod 64 :: nat"
  shows "c < 0x10000" "224 + c div 4096 = u0" "128 + c div 64 mod 64 = u1" "128 + c mod 64 = u2"
proof -
  obtain x y z where "u0 = 224 + x" "u1 = 128 + y" "u2 = 128 + z" using assms(1,3,5) by (metis le_iff_add)
  moreover from this have "c = 64 * (64 * x + y) + z" using assms by (simp add: mod_shift)
  ultimately show "c < 0x10000" "224 + c div 4096 = u0" "128 + c div 64 mod 64 = u1" "128 + c mod 64 = u2"
    using assms(2,4,6) middle_digit [of z 64 y 64 x] mod_shift [of "64 * (64 * x + y)" 64 z]
    by simp_all
qed

lemma enc4:
  assumes "240 \<le> u0" "u0 < 248" "128 \<le> u1" "u1 < 192" "128 \<le> u2" "u2 < 192" "128 \<le> u3" "u3 < 192"
  defines "c \<equiv> ((u0 mod 8 * 64 + u1 mod 64) * 64 + u2 mod 64) * 64 + u3 mod 64 :: nat"
  shows "c < 0x200000" "240 + c div 262144 = u0" "128 + c div 4096 mod 64 = u1" "128 + c div 64 mod 64 = u2" "128 + c mod 64 = u3"
proof -
  obtain x y z v where "u0 = 240 + x" "u1 = 128 + y" "u2 = 128 + z" "u3 = 128 + v" using assms(1,3,5,7) by (metis le_iff_add)
  moreover from this have "c = 4096 * (64 * x + y) + (64 * z + v)" "c = 64 * (64 * (64 * x + y) + z) + v"
    using assms by (simp_all add: mod_shift)
  ultimately show "c < 0x200000" "240 + c div 262144 = u0" "128 + c div 4096 mod 64 = u1" "128 + c div 64 mod 64 = u2" "128 + c mod 64 = u3"
    using assms(2,4,6,8) middle_digit [of "64 * z + v" 4096 y 64 x] middle_digit [of v 64 z 64 "64 * x + y"]
      mod_shift [of "64 * (64 * (64 * x + y) + z)" 64 v]
    by (simp_all add: add.assoc)
qed

text \<open>The byte at a position as a number, and what a position of each kind starts with.\<close>

definition byte_at :: "bytes \<Rightarrow> nat \<Rightarrow> nat" where
  "byte_at bs i = unat (bs ! i)"

definition tail_byte :: "bytes \<Rightarrow> nat \<Rightarrow> bool" where
  "tail_byte bs i \<longleftrightarrow> i < length bs \<and> 128 \<le> byte_at bs i \<and> byte_at bs i < 192"

lemma byte_at_less: "byte_at bs i < 256"
  using unsigned_less [of "bs ! i"] by (simp add: byte_at_def)

lemma continuation_Suc:
  assumes "unat cp < 67108864"
  shows "utf8_continuation bs at (Suc n) cp =
    (if length bs \<le> at then Fault else if \<not> tail_byte bs at then Fail ()
     else utf8_continuation bs (Suc at) n (of_nat (unat cp * 64 + byte_at bs at mod 64)))"
proof (cases "at < length bs")
  case True
  let ?w = "push_bit 6 cp OR ucast (bs ! at AND 0x3f) :: u32"
  have "?w = of_nat (unat cp * 64 + byte_at bs at mod 64)"
    unfolding byte_at_def codepoint_shift [OF assms, symmetric] by simp
  with True show ?thesis by (simp add: rd8_def tail_byte_def byte_at_def u8_masks(4))
qed (simp add: rd8_def mem_None)

lemma unat_of_nat_small: "v < 4294967296 \<Longrightarrow> unat (of_nat v :: u32) = v"
  by (simp add: unat_of_nat take_bit_nat_eq_self)

fun tail_value :: "bytes \<Rightarrow> nat \<Rightarrow> nat \<Rightarrow> nat \<Rightarrow> nat" where
  "tail_value bs at 0 v = v"
| "tail_value bs at (Suc n) v = tail_value bs (Suc at) n (v * 64 + byte_at bs at mod 64)"

lemma shift_room: "(v + 1) * 64 ^ Suc n \<le> N \<Longrightarrow> (v * 64 + b mod 64 + 1) * 64 ^ n \<le> N" for N :: nat
proof -
  have "v * 64 + b mod 64 + 1 \<le> (v + 1) * 64" using mod_less_divisor [of 64 b] by simp
  from mult_right_mono [OF this, of "64 ^ n"] have "(v * 64 + b mod 64 + 1) * 64 ^ n \<le> (v + 1) * 64 ^ Suc n"
    by (simp only: mult.assoc power_Suc le0)
  then show "(v + 1) * 64 ^ Suc n \<le> N \<Longrightarrow> ?thesis" by (rule order_trans)
qed

lemma tail_value_less: "(v + 1) * 64 ^ n \<le> N \<Longrightarrow> tail_value bs at n v < N"
proof (induction n arbitrary: at v)
  case (Suc n)
  from Suc.IH [OF shift_room [OF Suc.prems]] show ?case by simp
qed simp

lemma utf8_continuation_iff:
  "(unat cp + 1) * 64 ^ n \<le> 4294967296 \<Longrightarrow> utf8_continuation bs at n cp = Done r \<longleftrightarrow>
     (\<forall>i<n. tail_byte bs (at + i)) \<and> r = (at + n, of_nat (tail_value bs at n (unat cp)))"
proof (induction n arbitrary: at cp)
  case (Suc n)
  let ?v = "unat cp * 64 + byte_at bs at mod 64"
  have pre: "(?v + 1) * 64 ^ n \<le> 4294967296" using Suc.prems by (rule shift_room)
  moreover have "(1 :: nat) \<le> 64 ^ n" by simp
  ultimately have v: "?v + 1 \<le> 4294967296"
    by (metis (no_types) mult_le_mono2 mult.right_neutral order_trans)
  then have "unat cp < 67108864" by linarith
  note step = continuation_Suc [OF this, of bs at n]
  have vv: "unat (of_nat ?v :: u32) = ?v" using v by (intro unat_of_nat_small) linarith
  have split: "(\<forall>i<Suc n. tail_byte bs (at + i)) \<longleftrightarrow> tail_byte bs at \<and> (\<forall>i<n. tail_byte bs (Suc at + i))"
    by (simp only: All_less_Suc2) simp
  show ?case
    using Suc.IH [of "of_nat ?v" "Suc at"] pre
    unfolding step split vv by (auto simp: tail_byte_def)
qed auto

lemma utf8_step_lead:
  assumes "at < length bs" "128 \<le> byte_at bs at" "utf8_lead (bs ! at) = Done (n, cp, mn)"
    "(unat cp + 1) * 64 ^ n \<le> 4294967296"
  defines "c \<equiv> tail_value bs (at + 1) n (unat cp)"
  shows "utf8_step bs at = Done at' \<longleftrightarrow> (\<forall>i<n. tail_byte bs (at + 1 + i)) \<and>
    unat mn \<le> c \<and> c \<le> 0x10ffff \<and> \<not> (0xd800 \<le> c \<and> c \<le> 0xdfff) \<and> at' = at + 1 + n"
proof -
  have first: "bs ! at \<noteq> 0" "\<not> bs ! at < 0x80"
    using assms(2) by (auto simp: byte_at_def u8_masks(9))
  have c: "unat (of_nat c :: u32) = c"
    using tail_value_less [OF assms(4)] by (simp add: c_def unat_of_nat_small)
  have room: "n \<le> length bs - (at + 1)" if "\<forall>i<n. tail_byte bs (at + 1 + i)"
    using that by (cases n) (auto simp: tail_byte_def)
  have "utf8_step bs at = Done at' \<longleftrightarrow> n \<le> length bs - (at + 1) \<and>
      (\<exists>cp'. utf8_continuation bs (at + 1) n cp = Done (at', cp') \<and>
        \<not> (cp' < mn \<or> cp' > 0x10ffff \<or> cp' \<ge> 0xd800 \<and> cp' \<le> 0xdfff))"
    using assms(1) first by (simp add: utf8_step_def rd8_def assms(3) obind_Done_iff not_less split: if_splits) auto
  also have "\<dots> \<longleftrightarrow> n \<le> length bs - (at + 1) \<and> (\<forall>i<n. tail_byte bs (at + 1 + i)) \<and> at' = at + 1 + n \<and>
      unat mn \<le> c \<and> c \<le> 0x10ffff \<and> \<not> (0xd800 \<le> c \<and> c \<le> 0xdfff)"
    unfolding utf8_continuation_iff [OF assms(4)] c_def [symmetric]
    by (auto simp: word_less_nat_alt word_le_nat_alt c)
  finally show ?thesis using room by blast
qed

lemma utf8_lead_cases:
  assumes "128 \<le> byte_at bs at"
  shows "utf8_lead (bs ! at) =
    (if byte_at bs at < 192 \<or> 248 \<le> byte_at bs at then Fail ()
     else if byte_at bs at < 224 then Done (1, of_nat (byte_at bs at mod 32), 0x80)
     else if byte_at bs at < 240 then Done (2, of_nat (byte_at bs at mod 16), 0x800)
     else Done (3, of_nat (byte_at bs at mod 8), 0x10000))"
proof -
  have m: "(ucast (bs ! at AND 0x1f) :: u32) = of_nat (byte_at bs at mod 32)"
    "(ucast (bs ! at AND 0x0f) :: u32) = of_nat (byte_at bs at mod 16)"
    "(ucast (bs ! at AND 0x07) :: u32) = of_nat (byte_at bs at mod 8)"
    unfolding byte_at_def u8_masks(5-7) [symmetric] by simp_all
  show ?thesis
    using assms unfolding utf8_lead_def m u8_masks(1-3) byte_at_def [symmetric] by auto
qed

declare tail_value.simps [simp del]

lemma utf8_step_D1:
  assumes "at < length bs" "byte_at bs at < 128"
  shows "utf8_step bs at = Done at' \<longleftrightarrow> 0 < byte_at bs at \<and> at' = at + 1"
proof -
  have "bs ! at = 0 \<longleftrightarrow> byte_at bs at = 0" by (simp add: byte_at_def unat_eq_zero)
  with assms show ?thesis by (auto simp: utf8_step_def rd8_def u8_masks(9) byte_at_def)
qed

lemma utf8_step_Dn:
  assumes "at < length bs" "128 \<le> byte_at bs at"
  shows "byte_at bs at < 192 \<or> 248 \<le> byte_at bs at \<Longrightarrow> utf8_step bs at \<noteq> Done at'"
    and "192 \<le> byte_at bs at \<Longrightarrow> byte_at bs at < 224 \<Longrightarrow> utf8_step bs at = Done at' \<longleftrightarrow> tail_byte bs (at + 1) \<and>
      0x80 \<le> tail_value bs (at + 1) 1 (byte_at bs at mod 32) \<and> at' = at + 2"
    and "224 \<le> byte_at bs at \<Longrightarrow> byte_at bs at < 240 \<Longrightarrow> utf8_step bs at = Done at' \<longleftrightarrow>
      tail_byte bs (at + 1) \<and> tail_byte bs (at + 2) \<and>
      0x800 \<le> tail_value bs (at + 1) 2 (byte_at bs at mod 16) \<and>
      \<not> (0xd800 \<le> tail_value bs (at + 1) 2 (byte_at bs at mod 16) \<and> tail_value bs (at + 1) 2 (byte_at bs at mod 16) \<le> 0xdfff) \<and>
      at' = at + 3"
    and "240 \<le> byte_at bs at \<Longrightarrow> byte_at bs at < 248 \<Longrightarrow> utf8_step bs at = Done at' \<longleftrightarrow>
      tail_byte bs (at + 1) \<and> tail_byte bs (at + 2) \<and> tail_byte bs (at + 3) \<and>
      0x10000 \<le> tail_value bs (at + 1) 3 (byte_at bs at mod 8) \<and> tail_value bs (at + 1) 3 (byte_at bs at mod 8) \<le> 0x10ffff \<and>
      at' = at + 4"
proof -
  let ?b = "byte_at bs at"
  have first: "bs ! at \<noteq> 0" "\<not> bs ! at < 0x80"
    using assms(2) by (auto simp: byte_at_def u8_masks(9))
  show "utf8_step bs at \<noteq> Done at'" if "?b < 192 \<or> 248 \<le> ?b"
    using that assms first by (auto simp: utf8_step_def rd8_def utf8_lead_cases outcome_simps)
  have lead: "(?b mod 32 + 1) * 64 ^ 1 \<le> 2048" "(?b mod 16 + 1) * 64 ^ 2 \<le> 65536" "(?b mod 8 + 1) * 64 ^ 3 \<le> 2097152"
    using mod_less_divisor [of 32 ?b] mod_less_divisor [of 16 ?b] mod_less_divisor [of 8 ?b] by simp_all
  have small: "unat (of_nat (?b mod 32) :: u32) = ?b mod 32" "unat (of_nat (?b mod 16) :: u32) = ?b mod 16"
      "unat (of_nat (?b mod 8) :: u32) = ?b mod 8"
    using byte_at_less [of bs at] by (auto intro!: unat_of_nat_small intro: le_less_trans [OF mod_less_eq_dividend])
  have two: "(\<forall>i<2. P i) \<longleftrightarrow> P 0 \<and> P (1 :: nat)" for P
    by (auto simp: less_2_cases_iff)
  have three: "(\<forall>i<3. P i) \<longleftrightarrow> P 0 \<and> P 1 \<and> P (2 :: nat)" for P
    by (auto simp: numeral_3_eq_3 numeral_2_eq_2 less_Suc_eq)
  have add: "at + 3 = Suc (Suc (Suc at))" "at + 4 = Suc (Suc (Suc (Suc at)))" by simp_all
  note vals = tail_value_less [OF lead(1), of bs "at + 1"] tail_value_less [OF lead(2), of bs "at + 1"]
  show "utf8_step bs at = Done at' \<longleftrightarrow> tail_byte bs (at + 1) \<and>
      0x80 \<le> tail_value bs (at + 1) 1 (?b mod 32) \<and> at' = at + 2" if "192 \<le> ?b" "?b < 224"
  proof -
    from that have "utf8_lead (bs ! at) = Done (1, of_nat (?b mod 32), 0x80)" by (simp add: utf8_lead_cases [OF assms(2)])
    from utf8_step_lead [OF assms this] lead(1) vals(1) show ?thesis unfolding small by simp
  qed
  show "utf8_step bs at = Done at' \<longleftrightarrow> tail_byte bs (at + 1) \<and> tail_byte bs (at + 2) \<and>
      0x800 \<le> tail_value bs (at + 1) 2 (?b mod 16) \<and>
      \<not> (0xd800 \<le> tail_value bs (at + 1) 2 (?b mod 16) \<and> tail_value bs (at + 1) 2 (?b mod 16) \<le> 0xdfff) \<and> at' = at + 3"
    if "224 \<le> ?b" "?b < 240"
  proof -
    from that have "utf8_lead (bs ! at) = Done (2, of_nat (?b mod 16), 0x800)" by (simp add: utf8_lead_cases [OF assms(2)])
    from utf8_step_lead [OF assms this] lead(2) vals(2) show ?thesis unfolding small two add by simp
  qed
  show "utf8_step bs at = Done at' \<longleftrightarrow> tail_byte bs (at + 1) \<and> tail_byte bs (at + 2) \<and> tail_byte bs (at + 3) \<and>
      0x10000 \<le> tail_value bs (at + 1) 3 (?b mod 8) \<and> tail_value bs (at + 1) 3 (?b mod 8) \<le> 0x10ffff \<and> at' = at + 4"
    if "240 \<le> ?b" "?b < 248"
  proof -
    from that have "utf8_lead (bs ! at) = Done (3, of_nat (?b mod 8), 0x10000)" by (simp add: utf8_lead_cases [OF assms(2)])
    from utf8_step_lead [OF assms this] lead(3) show ?thesis unfolding small three add by auto
  qed
qed

lemma bslice_units:
  assumes "\<forall>n\<in>set ns. n < 256" "at + length ns \<le> length bs"
  shows "bslice bs at (length ns) = map of_nat ns \<longleftrightarrow> (\<forall>i<length ns. byte_at bs (at + i) = ns ! i)"
proof -
  have "(bs ! (at + i) = of_nat (ns ! i)) = (byte_at bs (at + i) = ns ! i)" if "i < length ns" for i
  proof -
    have "unat (of_nat (ns ! i) :: u8) = ns ! i"
      using assms(1) that by (simp add: unat_of_nat take_bit_nat_eq_self)
    then show ?thesis by (metis byte_at_def unat_inject)
  qed
  then show ?thesis using assms(2) by (auto simp: list_eq_iff_nth_eq slice_simps)
qed

lemma tail_values:
  "tail_value bs (at + 1) 1 v = v * 64 + byte_at bs (at + 1) mod 64"
  "tail_value bs (at + 1) 2 v = (v * 64 + byte_at bs (at + 1) mod 64) * 64 + byte_at bs (at + 2) mod 64"
  "tail_value bs (at + 1) 3 v =
     ((v * 64 + byte_at bs (at + 1) mod 64) * 64 + byte_at bs (at + 2) mod 64) * 64 + byte_at bs (at + 3) mod 64"
  by (simp_all add: numeral_2_eq_2 numeral_3_eq_3 tail_value.simps)

lemma four: "(\<forall>i<Suc (Suc (Suc (Suc 0))). P i) \<longleftrightarrow> P 0 \<and> P 1 \<and> P 2 \<and> P (3 :: nat)"
    "(\<forall>i<Suc (Suc (Suc 0)). P i) \<longleftrightarrow> P 0 \<and> P 1 \<and> P 2"
    "(\<forall>i<Suc (Suc 0). P i) \<longleftrightarrow> P 0 \<and> P 1"
  by (simp_all add: All_less_Suc2 numeral_2_eq_2 numeral_3_eq_3)

lemma units_bound: "c \<le> 0x10ffff \<Longrightarrow> n \<in> set (utf8_units c) \<Longrightarrow> n < 256"
  using mod_less_divisor [of 64 c] mod_less_divisor [of 64 "c div 64"] mod_less_divisor [of 64 "c div 4096"]
  by (auto simp: utf8_units_def split: if_splits)

text \<open>\<open>starts_with bs at c\<close>: the encoding of \<open>c\<close> stands at position \<open>at\<close>.\<close>

definition starts_with :: "bytes \<Rightarrow> nat \<Rightarrow> nat \<Rightarrow> bool" where
  "starts_with bs at c \<longleftrightarrow> at + length (utf8_units c) \<le> length bs \<and> (\<forall>i<length (utf8_units c). byte_at bs (at + i) = utf8_units c ! i)"

lemma utf8_step_sound:
  assumes "at < length bs" "utf8_step bs at = Done at'"
  shows "\<exists>c. scalar c \<and> starts_with bs at c \<and> at' = at + length (utf8_units c)"
proof -
  let ?b = "byte_at bs at" and ?b1 = "byte_at bs (at + 1)" and ?b2 = "byte_at bs (at + 2)" and ?b3 = "byte_at bs (at + 3)"
  consider "?b < 128" | "128 \<le> ?b" "?b < 192 \<or> 248 \<le> ?b" | "192 \<le> ?b" "?b < 224" | "224 \<le> ?b" "?b < 240" | "240 \<le> ?b" "?b < 248"
    by linarith
  then show ?thesis
  proof cases
    case 1
    with assms utf8_step_D1 show ?thesis
      by (intro exI [of _ ?b]) (simp add: scalar_def starts_with_def utf8_units_def)
  next
    case 2
    with assms utf8_step_Dn(1) show ?thesis by blast
  next
    case 3
    define c where "c = ?b mod 32 * 64 + ?b1 mod 64"
    from 3 assms utf8_step_Dn(2) [of at bs at', unfolded tail_values] have d: "tail_byte bs (at + 1)" "0x80 \<le> c" "at' = at + 2"
      by (simp_all add: c_def)
    with enc2 [OF 3, of ?b1, folded c_def] have "c < 0x800" "utf8_units c = [?b, ?b1]"
      by (simp_all add: utf8_units_def tail_byte_def)
    with d show ?thesis
      by (intro exI [of _ c]) (simp add: scalar_def starts_with_def tail_byte_def four)
  next
    case 4
    define c where "c = (?b mod 16 * 64 + ?b1 mod 64) * 64 + ?b2 mod 64"
    from 4 assms utf8_step_Dn(3) [of at bs at', unfolded tail_values, folded c_def] have d: "tail_byte bs (at + 1)" "tail_byte bs (at + 2)"
      "0x800 \<le> c" "\<not> (0xd800 \<le> c \<and> c \<le> 0xdfff)" "at' = at + 3" by auto
    with enc3 [OF 4, of ?b1 ?b2, folded c_def] have "c < 0x10000" "utf8_units c = [?b, ?b1, ?b2]"
      by (simp_all add: utf8_units_def tail_byte_def)
    with d show ?thesis
      by (intro exI [of _ c]) (simp add: scalar_def starts_with_def tail_byte_def four)
  next
    case 5
    define c where "c = ((?b mod 8 * 64 + ?b1 mod 64) * 64 + ?b2 mod 64) * 64 + ?b3 mod 64"
    from 5 assms utf8_step_Dn(4) [of at bs at', unfolded tail_values, folded c_def] have d: "tail_byte bs (at + 1)" "tail_byte bs (at + 2)"
      "tail_byte bs (at + 3)" "0x10000 \<le> c" "c \<le> 0x10ffff" "at' = at + 4" by auto
    with enc4 [OF 5, of ?b1 ?b2 ?b3, folded c_def] have "utf8_units c = [?b, ?b1, ?b2, ?b3]"
      by (simp_all add: utf8_units_def tail_byte_def)
    with d show ?thesis
      by (intro exI [of _ c]) (simp add: scalar_def starts_with_def tail_byte_def four)
  qed
qed

lemma utf8_step_complete:
  assumes "scalar c" "starts_with bs at c"
  shows "utf8_step bs at = Done (at + length (utf8_units c))"
proof -
  let ?b = "byte_at bs at"
  have at: "at < length bs" using assms(2) by (auto simp: starts_with_def utf8_units_def split: if_splits)
  consider "c < 0x80" | "0x80 \<le> c" "c < 0x800" | "0x800 \<le> c" "c < 0x10000" | "0x10000 \<le> c" by linarith
  then show ?thesis
  proof cases
    case 1
    with assms have "?b = c" "utf8_units c = [c]" "0 < c" by (auto simp: starts_with_def utf8_units_def scalar_def)
    with 1 at utf8_step_D1 show ?thesis by simp
  next
    case 2
    then have u: "utf8_units c = [0xC0 + c div 64, 0x80 + c mod 64]" by (simp add: utf8_units_def)
    with assms(2) have b: "?b = 0xC0 + c div 64" "byte_at bs (at + 1) = 0x80 + c mod 64" "at + 2 \<le> length bs"
      by (simp_all add: starts_with_def four)
    have "c div 64 < 32" using 2 by (simp add: less_mult_imp_div_less)
    moreover have "c div 64 * 64 + c mod 64 = c" by simp
    ultimately show ?thesis
      using 2 at b utf8_step_Dn(2) [of at bs, unfolded tail_values] by (simp add: u tail_byte_def mod_shift)
  next
    case 3
    then have u: "utf8_units c = [0xE0 + c div 4096, 0x80 + c div 64 mod 64, 0x80 + c mod 64]" by (simp add: utf8_units_def)
    with assms(2) have b: "?b = 0xE0 + c div 4096" "byte_at bs (at + 1) = 0x80 + c div 64 mod 64"
        "byte_at bs (at + 2) = 0x80 + c mod 64" "at + 3 \<le> length bs"
      by (simp_all add: starts_with_def four)
    have "c div 4096 < 16" using 3 by (simp add: less_mult_imp_div_less)
    moreover have "(c div 4096 * 64 + c div 64 mod 64) * 64 + c mod 64 = c"
      using div_mult_mod_eq [of "c div 64" 64] div_mult_mod_eq [of c 64] by (simp add: div_mult2_eq [symmetric])
    ultimately show ?thesis
      using 3 at b assms(1) utf8_step_Dn(3) [of at bs, unfolded tail_values] by (simp add: u tail_byte_def mod_shift scalar_def)
  next
    case 4
    then have u: "utf8_units c = [0xF0 + c div 262144, 0x80 + c div 4096 mod 64, 0x80 + c div 64 mod 64, 0x80 + c mod 64]"
      by (simp add: utf8_units_def)
    with assms(2) have b: "?b = 0xF0 + c div 262144" "byte_at bs (at + 1) = 0x80 + c div 4096 mod 64"
        "byte_at bs (at + 2) = 0x80 + c div 64 mod 64" "byte_at bs (at + 3) = 0x80 + c mod 64" "at + 4 \<le> length bs"
      by (simp_all add: starts_with_def four)
    have "c div 262144 < 8" using assms(1) by (simp add: less_mult_imp_div_less scalar_def)
    moreover have "((c div 262144 * 64 + c div 4096 mod 64) * 64 + c div 64 mod 64) * 64 + c mod 64 = c"
      using div_mult_mod_eq [of "c div 4096" 64] div_mult_mod_eq [of "c div 64" 64] div_mult_mod_eq [of c 64]
      by (simp add: div_mult2_eq [symmetric])
    ultimately show ?thesis
      using 4 at b assms(1) utf8_step_Dn(4) [of at bs, unfolded tail_values] by (simp add: u tail_byte_def mod_shift scalar_def)
  qed
qed

lemma starts_with_drop:
  assumes "scalar c"
  shows "starts_with bs at c \<longleftrightarrow> at + length (utf8_encode c) \<le> length bs \<and>
    drop at bs = utf8_encode c @ drop (at + length (utf8_encode c)) bs"
proof (cases "at + length (utf8_units c) \<le> length bs")
  case True
  have "\<forall>n\<in>set (utf8_units c). n < 256" using assms units_bound unfolding scalar_def by blast
  from bslice_units [OF this True] True
  have "starts_with bs at c \<longleftrightarrow> take (length (utf8_units c)) (drop at bs) = utf8_encode c"
    by (simp add: starts_with_def utf8_encode_def bslice_def)
  also have "\<dots> \<longleftrightarrow> drop at bs = utf8_encode c @ drop (at + length (utf8_units c)) bs"
    by (metis (no_types) append_eq_conv_conj append_take_drop_id drop_drop add.commute length_map utf8_encode_def)
  finally show ?thesis using True by (simp add: utf8_encode_def)
qed (simp add: starts_with_def utf8_encode_def)

lemma length_utf8_encode [simp]: "length (utf8_encode c) = length (utf8_units c)"
  by (simp add: utf8_encode_def)

lemma utf8_units_nonempty: "0 < length (utf8_units c)"
  by (simp add: utf8_units_def)

text \<open>The scanner accepts exactly the concatenations of encoded scalar values.\<close>

lemma utf8_scan_iff:
  "at \<le> length bs \<Longrightarrow> utf8_scan bs at = Done () \<longleftrightarrow>
    (\<exists>cps. (\<forall>c\<in>set cps. scalar c) \<and> drop at bs = concat (map utf8_encode cps))"
proof (induction bs at rule: utf8_scan.induct)
  case (1 bs at)
  show ?case
  proof (cases "at < length bs")
    case False
    then show ?thesis
      using "1.prems" by (subst utf8_scan.simps) (auto intro: exI [of _ "[]"])
  next
    case True
    have rest: "utf8_scan bs (at + length (utf8_units c)) = Done () \<longleftrightarrow>
        (\<exists>cps. (\<forall>c\<in>set cps. scalar c) \<and> drop (at + length (utf8_units c)) bs = concat (map utf8_encode cps))"
      if "scalar c" "starts_with bs at c" for c
      using "1.IH" [OF True utf8_step_complete [OF that]] that(2) by (simp add: starts_with_def)
    have "utf8_scan bs at = Done () \<longleftrightarrow> (\<exists>c. scalar c \<and> starts_with bs at c \<and> utf8_scan bs (at + length (utf8_units c)) = Done ())"
      using True utf8_step_sound [OF True] utf8_step_complete
      by (subst utf8_scan.simps) (auto simp: obind_Done_iff)
    also have "\<dots> \<longleftrightarrow> (\<exists>c cps. scalar c \<and> (\<forall>c\<in>set cps. scalar c) \<and> drop at bs = utf8_encode c @ concat (map utf8_encode cps))"
    proof safe
      fix c assume c: "scalar c" "starts_with bs at c" "utf8_scan bs (at + length (utf8_units c)) = Done ()"
      then show "\<exists>c cps. scalar c \<and> (\<forall>c\<in>set cps. scalar c) \<and> drop at bs = utf8_encode c @ concat (map utf8_encode cps)"
        using rest [OF c(1,2)] starts_with_drop [OF c(1), of bs at] by auto
    next
      fix c cps assume c: "scalar c" "\<forall>c\<in>set cps. scalar c" "drop at bs = utf8_encode c @ concat (map utf8_encode cps)"
      have len: "length bs = at + length (utf8_units c) + length (concat (map utf8_encode cps))"
        using arg_cong [OF c(3), of length] True by simp
      have tail: "drop (at + length (utf8_units c)) bs = concat (map utf8_encode cps)"
        using arg_cong [OF c(3), of "drop (length (utf8_units c))"] by (simp add: add.commute)
      have "starts_with bs at c" unfolding starts_with_drop [OF c(1)] using c(3) len tail by simp
      with rest [OF c(1)] c(1,2) tail
      show "\<exists>c. scalar c \<and> starts_with bs at c \<and> utf8_scan bs (at + length (utf8_units c)) = Done ()" by blast
    qed
    also have "\<dots> \<longleftrightarrow> (\<exists>cps. (\<forall>c\<in>set cps. scalar c) \<and> drop at bs = concat (map utf8_encode cps))"
    proof safe
      fix c cps assume "scalar c" "\<forall>c\<in>set cps. scalar c" "drop at bs = utf8_encode c @ concat (map utf8_encode cps)"
      then show "\<exists>cps. (\<forall>c\<in>set cps. scalar c) \<and> drop at bs = concat (map utf8_encode cps)"
        by (intro exI [of _ "c # cps"]) simp
    next
      fix cps assume cps: "\<forall>c\<in>set cps. scalar c" "drop at bs = concat (map utf8_encode cps)"
      then obtain c cps' where "cps = c # cps'" using True by (cases cps) auto
      with cps show "\<exists>c cps. scalar c \<and> (\<forall>c\<in>set cps. scalar c) \<and> drop at bs = utf8_encode c @ concat (map utf8_encode cps)"
        by auto
    qed
    finally show ?thesis .
  qed
qed

lemma utf8_continuation_safe: "at + n \<le> length bs \<Longrightarrow> safe (utf8_continuation bs at n cp)"
  by (induction n arbitrary: at cp) (auto simp: safe_def rd8_def obind_Fault_iff)

lemma utf8_scan_safe: "safe (utf8_scan bs at)"
proof (induction bs at rule: utf8_scan.induct)
  case (1 bs at)
  have "safe (utf8_step bs at)" if "at < length bs"
    unfolding utf8_step_def utf8_lead_def
    by (intro safe_intros utf8_continuation_safe) (use that in \<open>auto simp: safe_def rd8_def\<close>)
  with 1 show ?case by (subst utf8_scan.simps) (auto intro!: safe_intros)
qed

lemma valid_utf8_name_safe: "safe (valid_utf8_name b)"
  unfolding valid_utf8_name_def by (cases b) (auto intro!: safe_intros utf8_scan_safe)

section \<open>Records\<close>

definition record_bytes :: "bytes \<Rightarrow> bytes \<Rightarrow> bytes" where
  "record_bytes name dxbc = bytes32 (of_nat (length name)) @ name @ bytes32 (of_nat (length dxbc)) @ dxbc"

text \<open>A record the format can carry.\<close>

definition good_record :: "unity_common \<Rightarrow> bytes \<Rightarrow> bytes \<times> bytes \<Rightarrow> bool" where
  "good_record uc stack = (\<lambda>(name, dxbc).
     valid_utf8_name (Buf name) = Done () \<and> valid_raw_dxbc uc stack (Buf dxbc) = Done () \<and>
     length name \<le> UINT32_MAX \<and> length dxbc \<le> UINT32_MAX)"

definition table_bytes :: "(bytes \<times> bytes) list \<Rightarrow> bytes" where
  "table_bytes rs = magic_USBD @ bytes32 (of_nat (length rs)) @ concat (map (\<lambda>(n, d). record_bytes n d) rs)"

lemma length_record_bytes [simp]: "length (record_bytes n d) = 8 + length n + length d"
  by (simp add: record_bytes_def)

lemma valid_raw_dxbc_safe: "little_endian_host uc \<Longrightarrow> safe (valid_raw_dxbc uc stack b)"
  using container_view_first_safe document_parse_safe [of uc stack]
  by (cases b) (auto simp: valid_raw_dxbc_def safe_def outcome_simps)

lemma valid_raw_dxbc_length:
  assumes "little_endian_host uc" "valid_raw_dxbc uc stack (Buf d) = Done ()"
  shows "32 \<le> length d"
proof -
  from assms(2) obtain doc where "dxbc_document_parse uc stack (Some dxbc_document_init) (Buf d) = Done doc"
    by (auto simp: valid_raw_dxbc_def outcome_simps split: if_splits)
  from document_parse_Done [OF this assms(1)] show ?thesis by (auto simp: document_ok_def)
qed

lemma parse_record_safe:
  assumes "little_endian_host uc"
  shows "safe (parse_record uc stack bs at i)"
  unfolding parse_record_def Let_def usbd_read_u32_le_def
  by (intro safe_intros)
    (use valid_utf8_name_safe valid_raw_dxbc_safe [OF assms] in \<open>auto simp: safe_def outcome_simps\<close>)

lemma parse_record_Done:
  assumes "parse_record uc stack bs at i = Done (at', rv)"
  defines "name \<equiv> bslice bs (rv_name rv) (rv_name_size rv)" and "dxbc \<equiv> bslice bs (rv_dxbc rv) (rv_dxbc_size rv)"
  shows "good_record uc stack (name, dxbc)" "at' \<le> length bs" "at' = at + length (record_bytes name dxbc)"
    "bslice bs at (at' - at) = record_bytes name dxbc"
proof -
  from assms(1) obtain nl dl where nl: "rd32 bs at = Some nl" "at + 4 + unat nl \<le> length bs"
    and vn: "valid_utf8_name (Buf (bslice bs (at + 4) (unat nl))) = Done ()"
    and dl: "rd32 bs (at + 4 + unat nl) = Some dl" "at + 8 + unat nl + unat dl \<le> length bs"
    and vd: "valid_raw_dxbc uc stack (Buf (bslice bs (at + 8 + unat nl) (unat dl))) = Done ()"
    and out: "at' = at + 8 + unat nl + unat dl"
      "rv = \<lparr>rv_name = at + 4, rv_name_size = unat nl, rv_dxbc = at + 8 + unat nl, rv_dxbc_size = unat dl\<rparr>"
    by (auto simp: parse_record_def Let_def usbd_read_u32_le_def outcome_simps algebra_simps split: if_splits)
  have name: "name = bslice bs (at + 4) (unat nl)" "length name = unat nl"
    and dxbc: "dxbc = bslice bs (at + 8 + unat nl) (unat dl)" "length dxbc = unat dl"
    using nl(2) dl(2) out(2) by (simp_all add: name_def dxbc_def slice_simps)
  show "good_record uc stack (name, dxbc)"
    using vn vd name dxbc unat_u32 [of nl] unat_u32 [of dl] by (simp add: good_record_def)
  show "at' \<le> length bs" "at' = at + length (record_bytes name dxbc)"
    using out(1) dl(2) name dxbc by simp_all
  have "bslice bs at (4 + (unat nl + (4 + unat dl))) = record_bytes name dxbc"
    unfolding bslice_append record_bytes_def using nl dl name dxbc
    by (simp add: rd32_bslice4 ac_simps)
  moreover have "at' - at = 4 + (unat nl + (4 + unat dl))" using out(1) by simp
  ultimately show "bslice bs at (at' - at) = record_bytes name dxbc" by simp
qed

lemma parse_record_complete:
  assumes "good_record uc stack (name, dxbc)" "bslice bs at (8 + length name + length dxbc) = record_bytes name dxbc"
    "at + (8 + length name + length dxbc) \<le> length bs"
  shows "parse_record uc stack bs at i = Done (at + (8 + length name + length dxbc),
    \<lparr>rv_name = at + 4, rv_name_size = length name, rv_dxbc = at + 8 + length name, rv_dxbc_size = length dxbc\<rparr>)"
proof -
  have nz: "length name \<noteq> 0" using assms(1) by (auto simp: good_record_def valid_utf8_name_def)
  have un: "unat (of_nat (length name) :: u32) = length name" "unat (of_nat (length dxbc) :: u32) = length dxbc"
    using assms(1) by (auto simp: good_record_def unat_of_nat_small)
  have whole: "bslice bs at (4 + (length name + (4 + length dxbc))) = record_bytes name dxbc"
    using assms(2) by (simp add: algebra_simps)
  have parts: "bslice bs at 4 = bytes32 (of_nat (length name))" "bslice bs (at + 4) (length name) = name"
    "bslice bs (at + 4 + length name) 4 = bytes32 (of_nat (length dxbc))"
    "bslice bs (at + 4 + length name + 4) (length dxbc) = dxbc"
    using whole assms(3) unfolding bslice_append record_bytes_def by (simp_all add: slice_simps)
  have rd: "rd32 bs at = Some (of_nat (length name))" "rd32 bs (at + 4 + length name) = Some (of_nat (length dxbc))"
    using parts assms(3) by (simp_all add: rd32_bslice4)
  have p4: "bslice bs (8 + (at + length name)) (length dxbc) = dxbc" using parts(4) by (simp add: ac_simps)
  have room: "\<not> at > length bs" "\<not> length bs - at < 4" "\<not> length bs - (at + 4) < length name"
      "\<not> length bs - (at + 4 + length name) < 4" "\<not> length bs - (8 + (at + length name)) < length dxbc"
    using assms(3) by linarith+
  show ?thesis
    using nz assms(1) room unfolding parse_record_def Let_def usbd_read_u32_le_def rd
    by (simp add: un rd parts(2) p4 good_record_def)
qed

text \<open>The table loop over a list of records.\<close>

lemma open_step_Done: "open_step uc stack bs i at = Done x \<longleftrightarrow> (\<exists>rv. parse_record uc stack bs at i = Done (x, rv))"
  by (auto simp: open_step_def outcome_simps)

abbreviation (input) body_bytes :: "(bytes \<times> bytes) list \<Rightarrow> bytes" where
  "body_bytes rs \<equiv> concat (map (\<lambda>(n, d). record_bytes n d) rs)"

lemma open_loop_Done:
  assumes "ofold (open_step uc stack bs) is at = Done at'" "at \<le> length bs"
  shows "\<exists>rs. length rs = length is \<and> (\<forall>r\<in>set rs. good_record uc stack r) \<and> at \<le> at' \<and> at' \<le> length bs \<and>
    bslice bs at (at' - at) = body_bytes rs"
  using assms
proof (induction "is" arbitrary: at)
  case Nil
  then show ?case by (auto intro: exI [of _ "[]"])
next
  case (Cons i "is")
  then obtain at1 rv where step: "parse_record uc stack bs at i = Done (at1, rv)"
    and rest: "ofold (open_step uc stack bs) is at1 = Done at'"
    by (auto simp: obind_Done_iff open_step_Done)
  note p = parse_record_Done [OF step]
  from Cons.IH [OF rest p(2)] obtain rs where rs: "length rs = length is" "\<forall>r\<in>set rs. good_record uc stack r"
    "at1 \<le> at'" "at' \<le> length bs" "bslice bs at1 (at' - at1) = body_bytes rs" by blast
  have "at' - at = (at1 - at) + (at' - at1)" "at + (at1 - at) = at1" "at \<le> at1" using rs(3) p(3) by simp_all
  then have "bslice bs at (at' - at) = record_bytes (bslice bs (rv_name rv) (rv_name_size rv))
      (bslice bs (rv_dxbc rv) (rv_dxbc_size rv)) @ body_bytes rs"
    using bslice_append [of bs at "at1 - at" "at' - at1"] p(4) rs(5) by simp
  with rs p(1) \<open>at \<le> at1\<close> show ?case
    by (intro exI [of _ "(bslice bs (rv_name rv) (rv_name_size rv), bslice bs (rv_dxbc rv) (rv_dxbc_size rv)) # rs"]) auto
qed

lemma open_loop_complete:
  assumes "\<forall>r\<in>set rs. good_record uc stack r" "length is = length rs"
    "at + length (body_bytes rs) \<le> length bs" "bslice bs at (length (body_bytes rs)) = body_bytes rs"
  shows "ofold (open_step uc stack bs) is at = Done (at + length (body_bytes rs))"
  using assms
proof (induction rs arbitrary: "is" at)
  case (Cons r rs)
  obtain n d where r: "r = (n, d)" by (cases r)
  obtain i is' where i: "is = i # is'" using Cons.prems(2) by (cases "is") auto
  let ?k = "8 + length n + length d"
  have split: "bslice bs at (?k + length (body_bytes rs)) = bslice bs at ?k @ bslice bs (at + ?k) (length (body_bytes rs))"
    by (rule bslice_append)
  have slices: "bslice bs at ?k = record_bytes n d" "bslice bs (at + ?k) (length (body_bytes rs)) = body_bytes rs"
    using Cons.prems(3,4) split by (simp_all add: r slice_simps append_eq_append_conv)
  have "open_step uc stack bs i at = Done (at + ?k)"
    using parse_record_complete [OF _ slices(1)] Cons.prems(1,3) by (simp add: open_step_def r)
  then show ?case
    using Cons.IH [of is' "at + ?k"] Cons.prems slices(2) by (simp add: i r add.assoc)
qed simp

lemma table_bytes_parts:
  "length (table_bytes rs) = 8 + length (body_bytes rs)" "bslice (table_bytes rs) 0 4 = magic_USBD"
  "rd32 (table_bytes rs) 4 = Some (of_nat (length rs))" "bslice (table_bytes rs) 8 (length (body_bytes rs)) = body_bytes rs"
  by (simp_all add: table_bytes_def image_simps bslice_def)

lemma body_bytes_length:
  assumes "little_endian_host uc" "\<forall>r\<in>set rs. good_record uc stack r"
  shows "9 * length rs \<le> length (body_bytes rs)"
  using assms(2)
proof (induction rs)
  case (Cons r rs)
  obtain n d where "r = (n, d)" by (cases r)
  with Cons valid_raw_dxbc_length [OF assms(1), of stack d] show ?case by (simp add: good_record_def)
qed simp

text \<open>Opening accepts exactly the images of non-empty lists of good records.\<close>

lemma table_open_iff:
  assumes "little_endian_host uc"
  shows "dxbc_usbd_table_open uc stack True (Buf bs) = Done (t, g) \<longleftrightarrow>
    (\<exists>rs. rs \<noteq> [] \<and> length rs \<le> UINT32_MAX \<and> (\<forall>r\<in>set rs. good_record uc stack r) \<and> bs = table_bytes rs \<and>
       t = \<lparr>ut_bytes = Some bs, ut_size = length bs, ut_record_count = of_nat (length rs)\<rparr> \<and>
       g = usbd_diag DXBC_USBD_OK (length bs) (length rs))" (is "?open \<longleftrightarrow> (\<exists>rs. ?image rs)")
proof
  assume ?open
  then obtain count where c: "8 \<le> length bs" "bslice bs 0 4 = magic_USBD" "rd32 bs 4 = Some count" "count \<noteq> 0"
    "t = \<lparr>ut_bytes = Some bs, ut_size = length bs, ut_record_count = count\<rparr>" "g = usbd_diag DXBC_USBD_OK (length bs) (unat count)"
    and loop: "ofold (open_step uc stack bs) [0..<unat count] 8 = Done (length bs)"
    by (auto simp: dxbc_usbd_table_open_def Let_def outcome_simps usbd_read_u32_le_def split: if_splits)
  from open_loop_Done [OF loop c(1)] obtain rs where rs: "length rs = unat count" "\<forall>r\<in>set rs. good_record uc stack r"
    "bslice bs 8 (length bs - 8) = body_bytes rs" by auto
  have "bs = bslice bs 0 (4 + (4 + (length bs - 8)))" using c(1) by simp
  also have "\<dots> = bslice bs 0 4 @ bslice bs 4 4 @ bslice bs 8 (length bs - 8)" unfolding bslice_append by simp
  also have "\<dots> = table_bytes rs"
    using c(2,3) rs by (simp add: table_bytes_def rd32_bslice4)
  finally have "bs = table_bytes rs" .
  moreover have "rs \<noteq> []" using rs(1) c(4) by (auto simp: unat_eq_zero)
  ultimately show "\<exists>rs. ?image rs"
    using rs c(5,6) unat_u32 [of count] by (intro exI [of _ rs]) auto
next
  assume "\<exists>rs. ?image rs"
  then obtain rs where rs: "rs \<noteq> []" "length rs \<le> UINT32_MAX" "\<forall>r\<in>set rs. good_record uc stack r" "bs = table_bytes rs"
    and out: "t = \<lparr>ut_bytes = Some bs, ut_size = length bs, ut_record_count = of_nat (length rs)\<rparr>"
      "g = usbd_diag DXBC_USBD_OK (length bs) (length rs)" by blast
  have count: "unat (of_nat (length rs) :: u32) = length rs" using rs(2) by (simp add: unat_of_nat_small)
  then have nz: "(of_nat (length rs) :: u32) \<noteq> 0" using rs(1) by (metis length_0_conv unsigned_0)
  have "ofold (open_step uc stack bs) [0..<length rs] 8 = Done (length bs)"
    using open_loop_complete [OF rs(3), of "[0..<length rs]" 8 bs] by (simp add: rs(4) table_bytes_parts)
  moreover have "length rs \<le> length (body_bytes rs) div 9"
    using body_bytes_length [OF assms rs(3)] by (simp add: less_eq_div_iff_mult_less_eq mult.commute)
  ultimately show ?open
    using nz count unfolding dxbc_usbd_table_open_def out
    by (simp add: rs(4) table_bytes_parts memcmp_eq_def usbd_read_u32_le_def Let_def)
qed

section \<open>The encoder\<close>

fun buf_bytes :: "c_buffer \<Rightarrow> bytes" where
  "buf_bytes (Buf bs) = bs"
| "buf_bytes (NullBuf _) = []"

definition record_pair :: "usbd_record \<Rightarrow> bytes \<times> bytes" where
  "record_pair r = (buf_bytes (ur_name r), buf_bytes (ur_dxbc r))"

definition encodable :: "unity_common \<Rightarrow> bytes \<Rightarrow> usbd_record \<Rightarrow> bool" where
  "encodable uc stack r \<longleftrightarrow> (\<exists>n d. r = \<lparr>ur_name = Buf n, ur_dxbc = Buf d\<rparr>) \<and> good_record uc stack (record_pair r)"

abbreviation (input) pair_bytes :: "usbd_record \<Rightarrow> bytes" where
  "pair_bytes r \<equiv> (\<lambda>(n, d). record_bytes n d) (record_pair r)"

lemma encode_measure_Done:
  assumes "encode_measure uc stack rs i sz = Done sz'"
  shows "encodable uc stack (rs ! i)" "sz' = sz + length (pair_bytes (rs ! i))"
proof -
  obtain n d where r: "ur_name (rs ! i) = Buf n" "ur_dxbc (rs ! i) = Buf d"
    using assms
    by (auto simp: encode_measure_def Let_def outcome_simps valid_utf8_name_def valid_raw_dxbc_def
        split: if_splits c_buffer.splits)
  then have eq: "rs ! i = \<lparr>ur_name = Buf n, ur_dxbc = Buf d\<rparr>" by (cases "rs ! i") simp
  from assms r show "encodable uc stack (rs ! i)" "sz' = sz + length (pair_bytes (rs ! i))"
    by (auto simp: encode_measure_def Let_def outcome_simps encodable_def record_pair_def good_record_def eq split: if_splits)
qed

lemma encode_measure_complete:
  assumes "encodable uc stack (rs ! i)" "exact_size_checks uc" "sz + length (pair_bytes (rs ! i)) \<le> SIZE_MAX"
  shows "encode_measure uc stack rs i sz = Done (sz + length (pair_bytes (rs ! i)))"
proof -
  from assms(1) obtain n d where eq: "rs ! i = \<lparr>ur_name = Buf n, ur_dxbc = Buf d\<rparr>"
    and good: "valid_utf8_name (Buf n) = Done ()" "valid_raw_dxbc uc stack (Buf d) = Done ()"
      "length n \<le> UINT32_MAX" "length d \<le> UINT32_MAX"
    by (auto simp: encodable_def record_pair_def good_record_def)
  have "n \<noteq> []" using good(1) by (auto simp: valid_utf8_name_def)
  with good assms(3) show ?thesis
    by (simp add: encode_measure_def eq record_pair_def Let_def exact_size_checksD [OF assms(2)])
qed

abbreviation (input) encoded :: "usbd_record list \<Rightarrow> nat \<Rightarrow> bytes" where
  "encoded rs k \<equiv> concat (map pair_bytes (take k rs))"

lemma encoded_Suc: "k < length rs \<Longrightarrow> encoded rs (Suc k) = encoded rs k @ pair_bytes (rs ! k)"
  by (simp add: take_Suc_conv_app_nth)

lemma measure_loop_Done:
  "ofold (encode_measure uc stack rs) [0..<k] 8 = Done sz \<Longrightarrow> k \<le> length rs \<Longrightarrow>
   (\<forall>i<k. encodable uc stack (rs ! i)) \<and> sz = 8 + length (encoded rs k)"
proof (induction k arbitrary: sz)
  case (Suc k)
  from Suc.prems(1) obtain s where s: "ofold (encode_measure uc stack rs) [0..<k] 8 = Done s"
    "encode_measure uc stack rs k s = Done sz"
    by (auto simp: ofold_append obind_Done_iff)
  from Suc.IH [OF s(1)] encode_measure_Done [OF s(2)] Suc.prems(2) show ?case
    by (simp add: less_Suc_eq encoded_Suc)
qed simp

lemma measure_loop_complete:
  assumes "\<forall>i<k. encodable uc stack (rs ! i)" "exact_size_checks uc" "k \<le> length rs" "8 + length (encoded rs k) \<le> SIZE_MAX"
  shows "ofold (encode_measure uc stack rs) [0..<k] 8 = Done (8 + length (encoded rs k))"
  using assms
proof (induction k)
  case (Suc k)
  have "8 + length (encoded rs k) + length (pair_bytes (rs ! k)) \<le> SIZE_MAX"
    using Suc.prems(3,4) by (simp add: encoded_Suc)
  then show ?case
    using Suc.IH Suc.prems encode_measure_complete [of uc stack rs k "8 + length (encoded rs k)"]
    by (simp add: ofold_append encoded_Suc add.assoc)
qed simp

text \<open>
  The writing loop: after \<open>k\<close> turns the first \<open>at\<close> bytes are the header and the first \<open>k\<close>
  records, whatever the storage held.
\<close>

definition encode_inv :: "unity_common \<Rightarrow> bytes \<Rightarrow> usbd_record list \<Rightarrow> nat \<Rightarrow> bytes \<times> nat \<Rightarrow> bool" where
  "encode_inv uc stack rs k = (\<lambda>(buf, at).
     (\<forall>i<length rs. encodable uc stack (rs ! i)) \<and> k \<le> length rs \<and> length buf = 8 + length (encoded rs (length rs)) \<and>
     at = 8 + length (encoded rs k) \<and> take at buf = magic_USBD @ bytes32 (of_nat (length rs)) @ encoded rs k)"

lemma store_Done: "off + length data \<le> length buf \<Longrightarrow> store buf off data = Done (overwrite buf off data)"
  by (simp add: store_def)

lemma encode_record_eq:
  assumes "rs ! k = \<lparr>ur_name = Buf n, ur_dxbc = Buf d\<rparr>" "at + (8 + length n + length d) \<le> length buf"
  shows "encode_record rs k (buf, at) = Done (overwrite buf at (record_bytes n d), at + (8 + length n + length d))"
proof -
  have ow: "overwrite (overwrite (overwrite (overwrite buf at (bytes32 (of_nat (length n)))) (at + 4) n) (at + 4 + length n)
      (bytes32 (of_nat (length d)))) (at + 4 + length n + 4) d = overwrite buf at (record_bytes n d)"
    using assms(2) overwrite_overwrite [of at "bytes32 (of_nat (length n))" buf n]
      overwrite_overwrite [of at "bytes32 (of_nat (length n)) @ n" buf "bytes32 (of_nat (length d))"]
      overwrite_overwrite [of at "bytes32 (of_nat (length n)) @ n @ bytes32 (of_nat (length d))" buf d]
    by (simp add: record_bytes_def add.assoc)
  show ?thesis
    using assms(2) ow by (simp add: encode_record_def assms(1) Let_def store_Done add.assoc)
qed

lemma take_overwrite: "off + length src \<le> length dst \<Longrightarrow> take (off + length src) (overwrite dst off src) = take off dst @ src"
  by (simp add: overwrite_def)

lemma encoded_mono: "k < length rs \<Longrightarrow> length (encoded rs (Suc k)) \<le> length (encoded rs (length rs))"
proof -
  assume "k < length rs"
  have "encoded rs (length rs) = encoded rs (Suc k) @ concat (map pair_bytes (drop (Suc k) rs))"
    by (metis append_take_drop_id concat_append map_append take_all_iff order_refl)
  then show ?thesis by simp
qed

interpretation encoder: counted_loop "encode_record rs" "encode_inv uc stack rs" "length rs" for uc stack rs
proof
  fix k s s'
  assume inv: "encode_inv uc stack rs k s" and k: "k < length rs"
  obtain buf at where s: "s = (buf, at)" by (cases s)
  from inv k s obtain n d where r: "rs ! k = \<lparr>ur_name = Buf n, ur_dxbc = Buf d\<rparr>"
    by (fastforce simp: encode_inv_def encodable_def)
  have len: "length (pair_bytes (rs ! k)) = 8 + length n + length d" and pb: "pair_bytes (rs ! k) = record_bytes n d"
    by (simp_all add: r record_pair_def)
  have fits: "at + (8 + length n + length d) \<le> length buf"
    using inv encoded_mono [OF k] k len by (simp add: s encode_inv_def encoded_Suc)
  note step = encode_record_eq [OF r fits]
  show "encode_record rs k s \<noteq> Fault" by (simp add: s step)
  assume "encode_record rs k s = Done s'"
  then have s': "s' = (overwrite buf at (record_bytes n d), at + (8 + length n + length d))" by (simp add: s step)
  show "encode_inv uc stack rs (Suc k) s'"
    using inv k fits take_overwrite [of at "record_bytes n d" buf]
    by (auto simp: s s' encode_inv_def encoded_Suc pb len)
qed

lemma encode_body_eq: "table_bytes (map record_pair rs) = magic_USBD @ bytes32 (of_nat (length rs)) @ encoded rs (length rs)"
  by (simp add: table_bytes_def comp_def)

lemma encode_write:
  assumes "\<forall>i<length rs. encodable uc stack (rs ! i)" "length buf = 8 + length (encoded rs (length rs))"
  shows "obind (store buf 0 magic_USBD) (\<lambda>buf. obind (store buf 4 (bytes32 (of_nat (length rs))))
      (\<lambda>buf. ofold (encode_record rs) [0..<length rs] (buf, 8))) =
    Done (table_bytes (map record_pair rs), length (table_bytes (map record_pair rs)))"
proof -
  let ?buf = "overwrite (overwrite buf 0 magic_USBD) 4 (bytes32 (of_nat (length rs)))"
  have head: "encode_inv uc stack rs 0 (?buf, 8)"
    using assms overwrite_overwrite [of 0 magic_USBD buf "bytes32 (of_nat (length rs))"]
      take_overwrite [of 0 "magic_USBD @ bytes32 (of_nat (length rs))" buf]
    by (simp add: encode_inv_def)
  have nofail: "ofold (encode_record rs) is s \<noteq> Fail e" for "is" s e
    by (induction "is" arbitrary: s)
      (auto simp: outcome_simps encode_record_def store_def Let_def split: if_splits c_buffer.splits elim!: buf_content.elims)
  obtain s' where run: "ofold (encode_record rs) [0..<length rs] (?buf, 8) = Done s'"
    using encoder.count_safe [OF head, of "length rs"] nofail [of "[0..<length rs]" "(?buf, 8)"]
    by (cases "ofold (encode_record rs) [0..<length rs] (?buf, 8)") auto
  from encoder.count_keeps [OF head _ _ run] have "s' = (table_bytes (map record_pair rs), length (table_bytes (map record_pair rs)))"
    by (cases s') (auto simp: encode_inv_def encode_body_eq)
  with run assms(2) show ?thesis by (simp add: store_Done)
qed

lemma encodable_all: "(\<forall>i<length rs. encodable uc stack (rs ! i)) \<longleftrightarrow> (\<forall>r\<in>set rs. encodable uc stack r)"
  by (auto simp: all_set_conv_all_nth)

lemma obind_assoc: "obind (obind m f) g = obind m (\<lambda>x. obind (f x) g)"
  by (cases m) auto

text \<open>The encoder succeeds exactly on encodable records, and its output is the image of the records.\<close>

lemma table_encode_unfold:
  assumes "ofold (encode_measure uc stack rs) [0..<length rs] 8 = Done sz" "mem_alloc uc sz" "length (fresh sz) = sz"
    "rs \<noteq> []" "length rs \<le> UINT32_MAX"
  shows "dxbc_usbd_table_encode uc stack fresh (Some rs) True =
    Done (table_bytes (map record_pair rs), usbd_diag DXBC_USBD_OK (length (table_bytes (map record_pair rs))) (length rs))"
proof -
  note m = measure_loop_Done [OF assms(1) order_refl]
  have len: "length (table_bytes (map record_pair rs)) = sz" using m by (simp add: encode_body_eq)
  have "dxbc_usbd_table_encode uc stack fresh (Some rs) True =
      obind (obind (store (fresh sz) 0 magic_USBD) (\<lambda>buf. obind (store buf 4 (bytes32 (of_nat (length rs))))
        (\<lambda>buf. ofold (encode_record rs) [0..<length rs] (buf, 8)))) (\<lambda>(buf, at). Done (buf, usbd_diag DXBC_USBD_OK sz (length rs)))"
    using assms by (simp add: dxbc_usbd_table_encode_def obind_assoc)
  also have "\<dots> = Done (table_bytes (map record_pair rs), usbd_diag DXBC_USBD_OK sz (length rs))"
    using m assms(3) by (subst encode_write) auto
  finally show ?thesis by (simp add: len)
qed

lemma table_encode_Done:
  assumes "dxbc_usbd_table_encode uc stack fresh (Some rs) outs = Done (bs, g)" "\<And>n. length (fresh n) = n"
  shows "rs \<noteq> [] \<and> length rs \<le> UINT32_MAX \<and> (\<forall>r\<in>set rs. encodable uc stack r) \<and>
    bs = table_bytes (map record_pair rs) \<and> g = usbd_diag DXBC_USBD_OK (length bs) (length rs)"
proof -
  from assms(1) obtain sz where c: "rs \<noteq> []" "length rs \<le> UINT32_MAX" "outs"
    "ofold (encode_measure uc stack rs) [0..<length rs] 8 = Done sz" "mem_alloc uc sz"
    by (auto simp: dxbc_usbd_table_encode_def Let_def obind_Done_iff split: if_splits)
  from table_encode_unfold [OF c(4,5) _ c(1,2), of fresh] assms(2) measure_loop_Done [OF c(4)] assms(1) c show ?thesis
    by (auto simp: encodable_all)
qed

lemma table_encode_complete:
  assumes "exact_size_checks uc" "memory_available uc" "\<And>n. length (fresh n) = n"
    "rs \<noteq> []" "length rs \<le> UINT32_MAX" "\<forall>r\<in>set rs. encodable uc stack r"
    "length (table_bytes (map record_pair rs)) \<le> SIZE_MAX"
  shows "dxbc_usbd_table_encode uc stack fresh (Some rs) True =
    Done (table_bytes (map record_pair rs), usbd_diag DXBC_USBD_OK (length (table_bytes (map record_pair rs))) (length rs))"
  using measure_loop_complete [of "length rs" uc stack rs] assms
  by (intro table_encode_unfold) (auto simp: encodable_all encode_body_eq)

section \<open>Reading records back\<close>

abbreviation (input) record_offset :: "(bytes \<times> bytes) list \<Rightarrow> nat \<Rightarrow> nat" where
  "record_offset rs k \<equiv> 8 + length (body_bytes (take k rs))"

definition view_of :: "(bytes \<times> bytes) list \<Rightarrow> nat \<Rightarrow> usbd_record_view" where
  "view_of rs k = (case rs ! k of (n, d) \<Rightarrow>
     \<lparr>rv_name = record_offset rs k + 4, rv_name_size = length n,
      rv_dxbc = record_offset rs k + 8 + length n, rv_dxbc_size = length d\<rparr>)"

lemma table_bytes_split:
  "k < length rs \<Longrightarrow> rs ! k = (n, d) \<Longrightarrow> table_bytes rs =
    (magic_USBD @ bytes32 (of_nat (length rs)) @ body_bytes (take k rs)) @ record_bytes n d @ body_bytes (drop (Suc k) rs)"
  using arg_cong [OF id_take_nth_drop [of k rs], of "\<lambda>xs. body_bytes xs"] by (simp add: table_bytes_def)

lemma parse_record_at:
  assumes "k < length rs" "rs ! k = (n, d)" "good_record uc stack (n, d)"
  shows "parse_record uc stack (table_bytes rs) (record_offset rs k) i = Done (record_offset rs (Suc k), view_of rs k)"
    "bslice (table_bytes rs) (rv_name (view_of rs k)) (rv_name_size (view_of rs k)) = n"
    "bslice (table_bytes rs) (rv_dxbc (view_of rs k)) (rv_dxbc_size (view_of rs k)) = d"
proof -
  let ?pre = "magic_USBD @ bytes32 (of_nat (length rs)) @ body_bytes (take k rs)"
  have pre: "length ?pre = record_offset rs k" by simp
  note split = table_bytes_split [OF assms(1,2)]
  have whole: "bslice (table_bytes rs) (record_offset rs k) (8 + length n + length d) = record_bytes n d"
    unfolding split pre [symmetric] by (simp add: bslice_def del: append_assoc)
  have fits: "record_offset rs k + (8 + length n + length d) \<le> length (table_bytes rs)"
    unfolding split by simp
  have next_offset: "record_offset rs (Suc k) = record_offset rs k + (8 + length n + length d)"
    using assms(1,2) by (simp add: take_Suc_conv_app_nth)
  from parse_record_complete [OF assms(3) whole fits, of i]
  show "parse_record uc stack (table_bytes rs) (record_offset rs k) i = Done (record_offset rs (Suc k), view_of rs k)"
    unfolding next_offset by (simp add: view_of_def assms(2))
  show "bslice (table_bytes rs) (rv_name (view_of rs k)) (rv_name_size (view_of rs k)) = n"
    "bslice (table_bytes rs) (rv_dxbc (view_of rs k)) (rv_dxbc_size (view_of rs k)) = d"
    using bslice_bslice [of 4 "length n" "8 + length n + length d" "table_bytes rs" "record_offset rs k"]
      bslice_bslice [of "8 + length n" "length d" "8 + length n + length d" "table_bytes rs" "record_offset rs k"]
    unfolding whole by (simp_all add: view_of_def assms(2) record_bytes_def bslice_def add.assoc)
qed

lemma record_loop:
  assumes "\<forall>r\<in>set rs. good_record uc stack r" "k < length rs"
  shows "ofold (record_step uc stack (table_bytes rs)) [0..<Suc k] (8, None) = Done (record_offset rs (Suc k), Some (view_of rs k))"
  using assms(2)
proof (induction k)
  case 0
  obtain n d where "rs ! 0 = (n, d)" by (cases "rs ! 0")
  with 0 parse_record_at(1) [OF 0 this, of uc stack 0] assms(1) nth_mem [OF 0] show ?case
    by (simp add: record_step_def)
next
  case (Suc k)
  obtain n d where "rs ! Suc k = (n, d)" by (cases "rs ! Suc k")
  with parse_record_at(1) [OF Suc.prems this, of uc stack "Suc k"] assms(1) nth_mem [OF Suc.prems]
  have "record_step uc stack (table_bytes rs) (Suc k) (record_offset rs (Suc k), c) =
      Done (record_offset rs (Suc (Suc k)), Some (view_of rs (Suc k)))" for c
    by (simp add: record_step_def)
  moreover have "[0..<Suc (Suc k)] = [0..<Suc k] @ [Suc k]" by simp
  ultimately show ?case
    using Suc.IH Suc.prems by (simp only: ofold_append) simp
qed

section \<open>Agreement with the container view\<close>

lemma document_raw_view:
  assumes "little_endian_host uc" "dxbc_document_parse uc stack dst (Buf d) = Done doc"
    "bslice bs off (length d) = d" "off + length d \<le> length bs"
  shows "raw_dxbc_view uc bs off (length d) = Done \<lparr>view_data = off, view_size = length d\<rparr>"
proof -
  from document_parse_Done [OF assms(2,1)] have ok: "document_ok d doc" by simp
  then have len: "32 \<le> length d" by (auto simp: document_ok_def)
  have magic: "bslice bs off 4 = magic_DXBC"
    using ok len bslice_bslice [of 0 4 "length d" bs off] assms(3) by (simp add: document_ok_def)
  have size: "rd32 bs (off + 24) = Some (doc_declared_size doc)"
    using ok len rd32_bslice [of 24 "length d" off bs] assms(3,4) by (simp add: document_ok_def)
  show ?thesis
    using ok len magic size assms(1,4)
    by (auto simp: raw_dxbc_view_def memcmp_eq_def read_le_u32_at_def document_ok_def)
qed

lemma valid_raw_dxbc_iff:
  assumes "little_endian_host uc"
  shows "valid_raw_dxbc uc stack (Buf d) = Done () \<longleftrightarrow>
    (\<exists>doc. dxbc_document_parse uc stack (Some dxbc_document_init) (Buf d) = Done doc)"
  using document_raw_view [OF assms, of stack "Some dxbc_document_init" d _ d 0]
  by (auto simp: valid_raw_dxbc_def dxbc_container_view_first_def outcome_simps
      intro!: exI [of _ "\<lparr>view_data = 0, view_size = length d\<rparr>"])

text \<open>The record loop of the container view on the image of good records.\<close>

lemma rd32_record_bytes:
  "rd32 (record_bytes n d) 0 = Some (of_nat (length n))" "rd32 (record_bytes n d) (4 + length n) = Some (of_nat (length d))"
  by (simp_all add: record_bytes_def image_simps)

lemma usbd_view_record_at:
  assumes "little_endian_host uc" "k < length rs" "rs ! k = (n, d)" "good_record uc stack (n, d)"
  shows "usbd_view_record uc (table_bytes rs) (length (table_bytes rs)) i (record_offset rs k, first) =
    Done (record_offset rs (Suc k),
      if i = 0 then \<lparr>view_data = rv_dxbc (view_of rs k), view_size = rv_dxbc_size (view_of rs k)\<rparr> else first)"
proof -
  let ?bs = "table_bytes rs" and ?o = "record_offset rs k"
  note p = parse_record_at [OF assms(2-4)]
  from parse_record_Done(2,3) [OF p(1)] p(2,3)
  have fits: "?o + 8 + length n + length d \<le> length ?bs" and next_offset: "record_offset rs (Suc k) = ?o + 8 + length n + length d"
    by simp_all
  from parse_record_Done(4) [OF p(1)] p(2,3) next_offset
  have whole: "bslice ?bs ?o (8 + length n + length d) = record_bytes n d" by (simp add: add.assoc)
  have un: "unat (of_nat (length n) :: u32) = length n" "unat (of_nat (length d) :: u32) = length d"
    using assms(4) by (auto simp: good_record_def unat_of_nat_small)
  have "n \<noteq> []" using assms(4) by (auto simp: good_record_def valid_utf8_name_def)
  then have nz: "(of_nat (length n) :: u32) \<noteq> 0" using un(1) by (metis length_0_conv unsigned_0)
  have rd: "rd32 ?bs ?o = Some (of_nat (length n))" "rd32 ?bs (?o + 4 + length n) = Some (of_nat (length d))"
    using rd32_bslice [of 0 "8 + length n + length d" ?o ?bs, unfolded whole]
      rd32_bslice [of "4 + length n" "8 + length n + length d" ?o ?bs, unfolded whole] fits rd32_record_bytes [of n d]
    by (simp_all add: add.assoc)
  from assms(1,4) obtain doc where doc: "dxbc_document_parse uc stack (Some dxbc_document_init) (Buf d) = Done doc"
    by (auto simp: good_record_def valid_raw_dxbc_iff)
  have slice: "bslice ?bs (?o + 8 + length n) (length d) = d"
    using p(3) by (simp add: view_of_def assms(3))
  from document_raw_view [OF assms(1) doc slice] fits
  have raw: "raw_dxbc_view uc ?bs (?o + 8 + length n) (length d) = Done \<lparr>view_data = ?o + 8 + length n, view_size = length d\<rparr>" by simp
  have n: "read_le_u32_at uc ?bs 0 (length ?bs) ?o = Done (of_nat (length n))"
      "read_le_u32_at uc ?bs 0 (length ?bs) (?o + 4 + length n) = Done (of_nat (length d))"
    using rd fits assms(1) by (simp_all add: read_le_u32_at_def)
  have offs: "?o + 4 + length n + 4 = ?o + 8 + length n" by simp
  have room: "\<not> length ?bs - (?o + 4) < length n" "\<not> length ?bs - (?o + 8 + length n) < length d" using fits by linarith+
  show ?thesis
    using nz room unfolding usbd_view_record_def prod.case n obind.simps Let_def un offs raw next_offset
    by (simp add: view_of_def assms(3))
qed

lemma usbd_view_loop:
  assumes "little_endian_host uc" "\<forall>r\<in>set rs. good_record uc stack r" "k < length rs"
  shows "ofold (usbd_view_record uc (table_bytes rs) (length (table_bytes rs))) [0..<Suc k] (8, v) =
    Done (record_offset rs (Suc k), \<lparr>view_data = rv_dxbc (view_of rs 0), view_size = rv_dxbc_size (view_of rs 0)\<rparr>)"
  using assms(3)
proof (induction k)
  case 0
  obtain n d where "rs ! 0 = (n, d)" by (cases "rs ! 0")
  with usbd_view_record_at [OF assms(1) 0 this, of stack 0 v] assms(2) nth_mem [OF 0] show ?case by simp
next
  case (Suc k)
  obtain n d where "rs ! Suc k = (n, d)" by (cases "rs ! Suc k")
  with usbd_view_record_at [OF assms(1) Suc.prems this, of stack "Suc k"] assms(2) nth_mem [OF Suc.prems]
  have "usbd_view_record uc (table_bytes rs) (length (table_bytes rs)) (Suc k) (record_offset rs (Suc k), c) =
      Done (record_offset rs (Suc (Suc k)), c)" for c
    by simp
  moreover have "[0..<Suc (Suc k)] = [0..<Suc k] @ [Suc k]" by simp
  ultimately show ?case
    using Suc.IH Suc.prems by (simp only: ofold_append) simp
qed

lemma table_container_view:
  assumes "little_endian_host uc" "\<forall>r\<in>set rs. good_record uc stack r" "rs \<noteq> []" "length rs \<le> UINT32_MAX"
  shows "dxbc_container_view_first uc (Buf (table_bytes rs)) =
    Done \<lparr>view_data = rv_dxbc (view_of rs 0), view_size = rv_dxbc_size (view_of rs 0)\<rparr>"
proof -
  let ?bs = "table_bytes rs"
  have len: "9 \<le> length (body_bytes rs)" "length rs \<le> length (body_bytes rs) div 9"
    using body_bytes_length [OF assms(1,2)] assms(3) by (cases rs; simp add: less_eq_div_iff_mult_less_eq mult.commute)+
  have first: "?bs ! 0 = 0x55" by (simp add: table_bytes_def magic_USBD_def)
  have other: "bslice ?bs 0 4 \<noteq> magic_DXBC" by (simp add: table_bytes_parts magic_USBD_def magic_DXBC_def)
  have raw: "raw_dxbc_view uc ?bs 0 (length ?bs) = Fail ()"
    using other by (simp add: raw_dxbc_view_def memcmp_eq_def table_bytes_parts)
  have unity: "unity_program_view uc ?bs = Fail ()"
    using first by (simp add: unity_program_view_def rd8_def table_bytes_parts Let_def)
  have count: "unat (of_nat (length rs) :: u32) = length rs" using assms(4) by (simp add: unat_of_nat_small)
  then have nz: "(of_nat (length rs) :: u32) \<noteq> 0" using assms(3) by (metis length_0_conv unsigned_0)
  obtain k where k: "length rs = Suc k" using assms(3) by (cases rs) auto
  have "ofold (usbd_view_record uc ?bs (length ?bs)) [0..<length rs] (8, \<lparr>view_data = 0, view_size = 0\<rparr>) =
      Done (length ?bs, \<lparr>view_data = rv_dxbc (view_of rs 0), view_size = rv_dxbc_size (view_of rs 0)\<rparr>)"
    using usbd_view_loop [OF assms(1,2), of k "\<lparr>view_data = 0, view_size = 0\<rparr>"] by (simp add: k table_bytes_parts)
  then show ?thesis
    using nz count len assms(1) unfolding dxbc_container_view_first_def c_buffer.case raw unity or_else.simps
    by (simp add: usbd_view_first_def Let_def memcmp_eq_def table_bytes_parts read_le_u32_at_def)
qed

section \<open>Safety\<close>

lemma on_fail_safe: "safe m \<Longrightarrow> safe h \<Longrightarrow> safe (on_fail m h)"
  by (auto simp: safe_def on_fail_iffs)

lemma table_open_safe:
  assumes "little_endian_host uc"
  shows "safe (dxbc_usbd_table_open uc stack table data)"
proof (cases data)
  case (Buf bs)
  show ?thesis
    unfolding dxbc_usbd_table_open_def open_step_def Let_def usbd_read_u32_le_def Buf c_buffer.case
    by (intro safe_intros parse_record_safe assms; simp add: safe_def outcome_simps)
qed (simp add: dxbc_usbd_table_open_def safe_def)

lemma table_record_safe: "little_endian_host uc \<Longrightarrow> safe (dxbc_usbd_table_record uc stack table k out)"
  unfolding dxbc_usbd_table_record_def record_step_def
  by (intro safe_intros on_fail_safe parse_record_safe; assumption?)

lemma encode_measure_safe: "little_endian_host uc \<Longrightarrow> safe (encode_measure uc stack rs i sz)"
  unfolding encode_measure_def Let_def
  by (intro safe_intros on_fail_safe valid_utf8_name_safe valid_raw_dxbc_safe; assumption?)

lemma table_encode_safe:
  assumes "little_endian_host uc" "\<And>n. length (fresh n) = n"
  shows "safe (dxbc_usbd_table_encode uc stack fresh records outs)"
proof (cases records)
  case (Some rs)
  show ?thesis
  proof (rule ccontr)
    assume fault: "\<not> safe (dxbc_usbd_table_encode uc stack fresh records outs)"
    have loop: "safe (ofold (encode_measure uc stack rs) [0..<length rs] 8)"
      by (intro safe_intros encode_measure_safe assms(1))
    with fault Some obtain sz where c: "rs \<noteq> []" "length rs \<le> UINT32_MAX" "outs"
      "ofold (encode_measure uc stack rs) [0..<length rs] 8 = Done sz" "mem_alloc uc sz"
      by (auto simp: dxbc_usbd_table_encode_def safe_def Let_def obind_Fault_iff split: if_splits)
    from table_encode_unfold [OF c(4,5) _ c(1,2), of fresh] assms(2) fault c(3) Some show False
      by (simp add: safe_def)
  qed
qed (simp add: dxbc_usbd_table_encode_def safe_def)

section \<open>An example table\<close>

definition sample_record :: usbd_record where
  "sample_record = \<lparr>ur_name = Buf [0x41], ur_dxbc = Buf (stamp sample_container)\<rparr>"

lemma sample_record_encodable: "encodable lp64_common (replicate 64 0) sample_record"
proof -
  have "utf8_scan [0x41] 0 = Done ()"
    unfolding utf8_scan_iff [of 0 "[0x41]", simplified]
    by (intro exI [of _ "[0x41]"]) (simp add: scalar_def utf8_encode_def utf8_units_def)
  moreover have "length (stamp sample_container) = 56"
    by (simp add: stamp_def overwrite_def sample_container_def)
  ultimately show ?thesis
    using sample_parse [of "replicate 64 0"]
    by (auto simp: encodable_def sample_record_def record_pair_def good_record_def valid_utf8_name_def valid_raw_dxbc_iff)
qed

lemma sample_encode:
  "dxbc_usbd_table_encode lp64_common (replicate 64 0) (\<lambda>n. replicate n 7) (Some [sample_record]) True =
    Done (table_bytes [record_pair sample_record],
      usbd_diag DXBC_USBD_OK (length (table_bytes [record_pair sample_record])) 1)"
proof -
  have "length (stamp sample_container) = 56"
    by (simp add: stamp_def overwrite_def sample_container_def)
  then show ?thesis
    using table_encode_complete [of lp64_common "\<lambda>n. replicate n 7" "[sample_record]" "replicate 64 0"]
      sample_record_encodable by (simp add: table_bytes_parts(1) record_pair_def sample_record_def)
qed

lemma sample_open:
  "\<exists>t g. dxbc_usbd_table_open lp64_common (replicate 64 0) True (Buf (table_bytes [record_pair sample_record])) = Done (t, g)"
proof -
  have "good_record lp64_common (replicate 64 0) (record_pair sample_record)"
    using sample_record_encodable by (simp add: encodable_def)
  then show ?thesis
    by (subst table_open_iff) (auto intro!: exI [of _ "[record_pair sample_record]"])
qed

section \<open>Properties\<close>

text \<open>
  C20: encoding then opening is the identity.  A table the encoder produces opens with the same
  diagnostic, holds as many records as were given, and reading record \<open>k\<close> returns views of
  exactly the name and the container that were encoded, whatever the allocator left in the storage.
\<close>

theorem usbd_encode_then_open:
  assumes "little_endian_host uc" "\<And>n. length (fresh n) = n"
    and "dxbc_usbd_table_encode uc stack fresh (Some rs) outs = Done (bs, g)"
  shows "\<exists>t. dxbc_usbd_table_open uc stack True (Buf bs) = Done (t, g) \<and> unat (ut_record_count t) = length rs \<and>
    (\<forall>k<length rs. \<exists>rv. dxbc_usbd_table_record uc stack (Some t) k True = Done rv \<and>
       Buf (bslice bs (rv_name rv) (rv_name_size rv)) = ur_name (rs ! k) \<and>
       Buf (bslice bs (rv_dxbc rv) (rv_dxbc_size rv)) = ur_dxbc (rs ! k))"
proof -
  note enc = table_encode_Done [OF assms(3,2)]
  let ?ps = "map record_pair rs"
  let ?t = "\<lparr>ut_bytes = Some bs, ut_size = length bs, ut_record_count = of_nat (length rs)\<rparr>"
  have good: "\<forall>r\<in>set ?ps. good_record uc stack r" using enc by (auto simp: encodable_def)
  have count: "unat (ut_record_count ?t) = length rs" using enc by (simp add: unat_of_nat_small)
  have opened: "dxbc_usbd_table_open uc stack True (Buf bs) = Done (?t, g)"
    using enc good by (intro iffD2 [OF table_open_iff [OF assms(1)]] exI [of _ ?ps]) auto
  have "dxbc_usbd_table_record uc stack (Some ?t) k True = Done (view_of ?ps k) \<and>
      Buf (bslice bs (rv_name (view_of ?ps k)) (rv_name_size (view_of ?ps k))) = ur_name (rs ! k) \<and>
      Buf (bslice bs (rv_dxbc (view_of ?ps k)) (rv_dxbc_size (view_of ?ps k))) = ur_dxbc (rs ! k)" if k: "k < length rs" for k
  proof -
    from enc k have "encodable uc stack (rs ! k)" by simp
    then obtain n d where r: "rs ! k = \<lparr>ur_name = Buf n, ur_dxbc = Buf d\<rparr>" "good_record uc stack (n, d)"
      by (auto simp: encodable_def record_pair_def)
    have "k < length ?ps" "?ps ! k = (n, d)" using k r(1) by (simp_all add: record_pair_def)
    from parse_record_at(2,3) [OF this r(2)] record_loop [OF good this(1)] k count r(1) enc show ?thesis
      by (simp add: dxbc_usbd_table_record_def del: upt_Suc)
  qed
  with opened count show ?thesis by blast
qed

theorem usbd_encode_then_open_witness:
  "\<exists>bs t g. dxbc_usbd_table_encode lp64_common (replicate 64 0) (\<lambda>n. replicate n 7) (Some [sample_record]) True = Done (bs, g) \<and>
     dxbc_usbd_table_open lp64_common (replicate 64 0) True (Buf bs) = Done (t, g) \<and> unat (ut_record_count t) = 1"
  using usbd_encode_then_open [OF _ _ sample_encode] sample_encode by fastforce

text \<open>The records of an opened table, read one by one.\<close>

definition read_back :: "unity_common \<Rightarrow> bytes \<Rightarrow> usbd_table \<Rightarrow> bytes \<Rightarrow> usbd_record list" where
  "read_back uc stack t bs = map (\<lambda>k. case dxbc_usbd_table_record uc stack (Some t) k True of
       Done rv \<Rightarrow> \<lparr>ur_name = Buf (bslice bs (rv_name rv) (rv_name_size rv)), ur_dxbc = Buf (bslice bs (rv_dxbc rv) (rv_dxbc_size rv))\<rparr>
     | _ \<Rightarrow> \<lparr>ur_name = NullBuf 0, ur_dxbc = NullBuf 0\<rparr>) [0..<unat (ut_record_count t)]"

lemma read_back_image:
  assumes "rs \<noteq> []" "length rs \<le> UINT32_MAX" "\<forall>r\<in>set rs. good_record uc stack r"
  defines "t \<equiv> \<lparr>ut_bytes = Some (table_bytes rs), ut_size = length (table_bytes rs), ut_record_count = of_nat (length rs)\<rparr>"
  shows "read_back uc stack t (table_bytes rs) = map (\<lambda>(n, d). \<lparr>ur_name = Buf n, ur_dxbc = Buf d\<rparr>) rs"
proof (rule nth_equalityI)
  have count: "unat (ut_record_count t) = length rs" using assms(2) by (simp add: t_def unat_of_nat_small)
  then show "length (read_back uc stack t (table_bytes rs)) = length (map (\<lambda>(n, d). \<lparr>ur_name = Buf n, ur_dxbc = Buf d\<rparr>) rs)"
    by (simp add: read_back_def)
  fix k assume "k < length (read_back uc stack t (table_bytes rs))"
  then have k: "k < length rs" by (simp add: read_back_def count)
  obtain n d where r: "rs ! k = (n, d)" by (cases "rs ! k")
  have good: "good_record uc stack (n, d)" using assms(3) nth_mem [OF k] r by simp
  have "dxbc_usbd_table_record uc stack (Some t) k True = Done (view_of rs k)"
    using record_loop [OF assms(3) k] k count by (simp add: dxbc_usbd_table_record_def t_def del: upt_Suc)
  with parse_record_at(2,3) [OF k r good] k count r
  show "read_back uc stack t (table_bytes rs) ! k = map (\<lambda>(n, d). \<lparr>ur_name = Buf n, ur_dxbc = Buf d\<rparr>) rs ! k"
    by (simp add: read_back_def)
qed

text \<open>
  C21: opening then encoding is the identity.  The format has one image per list of records: reading
  all records of an opened table and encoding them again reproduces the table byte for byte.
\<close>

theorem usbd_open_then_encode:
  assumes "little_endian_host uc" "exact_size_checks uc" "memory_available uc" "\<And>n. length (fresh n) = n"
    and "length bs \<le> SIZE_MAX" "dxbc_usbd_table_open uc stack True (Buf bs) = Done (t, g)"
  shows "dxbc_usbd_table_encode uc stack fresh (Some (read_back uc stack t bs)) True = Done (bs, g)"
proof -
  from iffD1 [OF table_open_iff [OF assms(1)] assms(6)] obtain rs where rs: "rs \<noteq> []" "length rs \<le> UINT32_MAX"
    "\<forall>r\<in>set rs. good_record uc stack r" "bs = table_bytes rs"
    "t = \<lparr>ut_bytes = Some bs, ut_size = length bs, ut_record_count = of_nat (length rs)\<rparr>"
    "g = usbd_diag DXBC_USBD_OK (length bs) (length rs)" by blast
  let ?us = "map (\<lambda>(n, d). \<lparr>ur_name = Buf n, ur_dxbc = Buf d\<rparr>) rs"
  have again: "read_back uc stack t bs = ?us" using read_back_image [OF rs(1-3)] rs(4,5) by simp
  have pairs: "map record_pair ?us = rs" by (induction rs) (auto simp: record_pair_def)
  have "\<forall>r\<in>set ?us. encodable uc stack r" using rs(3) by (auto simp: encodable_def record_pair_def)
  from table_encode_complete [OF assms(2-4) _ _ this] rs(1,2,4,6) assms(5) show ?thesis
    unfolding again pairs by simp
qed

theorem usbd_open_then_encode_witness:
  "\<exists>t g bs. dxbc_usbd_table_encode lp64_common (replicate 64 0) (\<lambda>n. replicate n 0)
      (Some (read_back lp64_common (replicate 64 0) t bs)) True = Done (bs, g)"
proof -
  obtain t g where t: "dxbc_usbd_table_open lp64_common (replicate 64 0) True (Buf (table_bytes [record_pair sample_record])) = Done (t, g)"
    using sample_open by blast
  have "length (table_bytes [record_pair sample_record]) \<le> SIZE_MAX"
    by (simp add: table_bytes_parts(1) record_pair_def sample_record_def stamp_def overwrite_def sample_container_def)
  from usbd_open_then_encode [OF _ _ _ _ this t, of "\<lambda>n. replicate n 0"] show ?thesis by (metis length_replicate lp64_common_ok(1-3))
qed

text \<open>
  C22: a name is accepted exactly when it is a non-empty sequence of UTF-8 encoded Unicode scalar
  values other than zero: no overlong form, no surrogate, nothing above \<open>U+10FFFF\<close>, no \<open>NUL\<close>.
\<close>

theorem utf8_name_is_reference:
  "valid_utf8_name (Buf name) = Done () \<longleftrightarrow>
    name \<noteq> [] \<and> (\<exists>cps. (\<forall>c\<in>set cps. scalar c) \<and> name = concat (map utf8_encode cps))"
  using utf8_scan_iff [of 0 name] by (auto simp: valid_utf8_name_def)

theorem utf8_name_is_reference_witness: "valid_utf8_name (Buf [0x61, 0xC3, 0xA9]) = Done ()"
proof -
  have "[0x61, 0xC3, 0xA9] = concat (map utf8_encode [0x61, 0xE9])" by (simp add: utf8_encode_def utf8_units_def)
  moreover have "\<forall>c\<in>set [0x61, 0xE9]. scalar c" by (simp add: scalar_def)
  ultimately show ?thesis using utf8_name_is_reference [of "[0x61, 0xC3, 0xA9]"] by blast
qed

text \<open>
  C23: an opened table and the container search agree: the first container found in the bytes is the
  container of record 0.
\<close>

theorem usbd_first_record_is_first_view:
  assumes "little_endian_host uc" "dxbc_usbd_table_open uc stack True (Buf bs) = Done (t, g)"
  shows "\<exists>rv. dxbc_usbd_table_record uc stack (Some t) 0 True = Done rv \<and>
    dxbc_container_view_first uc (Buf bs) = Done \<lparr>view_data = rv_dxbc rv, view_size = rv_dxbc_size rv\<rparr>"
proof -
  from iffD1 [OF table_open_iff [OF assms(1)] assms(2)] obtain rs where rs: "rs \<noteq> []" "length rs \<le> UINT32_MAX"
    "\<forall>r\<in>set rs. good_record uc stack r" "bs = table_bytes rs"
    "t = \<lparr>ut_bytes = Some bs, ut_size = length bs, ut_record_count = of_nat (length rs)\<rparr>" by blast
  have "dxbc_usbd_table_record uc stack (Some t) 0 True = Done (view_of rs 0)"
    using record_loop [OF rs(3), of 0] rs by (simp add: dxbc_usbd_table_record_def unat_of_nat_small)
  with table_container_view [OF assms(1) rs(3,1,2)] rs(4) show ?thesis by blast
qed

theorem usbd_first_record_is_first_view_witness:
  "\<exists>v. dxbc_container_view_first lp64_common (Buf (table_bytes [record_pair sample_record])) = Done v \<and> view_size v = 56"
proof -
  obtain t g where t: "dxbc_usbd_table_open lp64_common (replicate 64 0) True (Buf (table_bytes [record_pair sample_record])) = Done (t, g)"
    using sample_open by blast
  have "length (stamp sample_container) = 56"
    by (simp add: stamp_def overwrite_def sample_container_def)
  moreover have "good_record lp64_common (replicate 64 0) (record_pair sample_record)"
    using sample_record_encodable by (simp add: encodable_def)
  ultimately show ?thesis
    using usbd_first_record_is_first_view [OF _ t]
      table_container_view [of lp64_common "[record_pair sample_record]" "replicate 64 0"]
    by (auto simp: view_of_def record_pair_def sample_record_def)
qed

text \<open>Opening, reading and encoding tables never touch memory outside their buffers.\<close>

lemma usbd_in_bounds:
  assumes "little_endian_host uc" "\<And>n. length (fresh n) = n"
  shows "dxbc_usbd_table_open uc stack table data \<noteq> Fault \<and> dxbc_usbd_table_record uc stack opened k out \<noteq> Fault \<and>
    dxbc_usbd_table_encode uc stack fresh records outs \<noteq> Fault"
  using table_open_safe [OF assms(1)] table_record_safe [OF assms(1)] table_encode_safe [OF assms(1), of fresh] assms(2)
  by (simp add: safe_def)

end
