(* ===== verification/Operand.thy ===== *)
theory Operand
  imports Unity_Common
begin

text \<open>
  The operand grammar of the SM4/5 token stream (\<open>src/dxbc/dxbc_operand.c\<close>): extension tokens,
  immediates, up to three index dimensions, each of which may hold a nested relative operand, and the
  token budget that bounds the nesting.  The rendering of an operand as text, which the header declares to
  be a diagnostic, is not part of the model; the parse context and the opcode only steer that rendering
  and are left out with it.
\<close>

section \<open>Data\<close>

text \<open>The fields of \<open>DXBCOperand\<close> other than the three pointers to relative operands.\<close>

record operand_head =
  oh_type :: u32
  oh_raw_token :: u32
  oh_extended_tokens :: "u32 list"
  oh_register_index :: int
  oh_swizzle :: "u8 list"
  oh_swizzle_mode :: u8
  oh_destination_mask :: u8
  oh_has_neg :: bool
  oh_has_abs :: bool
  oh_imm_values :: "u32 list"
  oh_imm_value_count :: int
  oh_immediate_words :: "u32 list"
  oh_immediate_word_count :: int
  oh_imm64_values :: "u64 list"
  oh_min_precision :: u8
  oh_rel_offset0 :: int
  oh_rel_offset1 :: int
  oh_rel_offset2 :: int
  oh_register_index_dim :: int
  oh_index_values :: "u64 list"
  oh_index_representations :: "u8 list"
  oh_index_has_immediate :: "bool list"
  oh_index_value_exceeds_int :: "bool list"

datatype operand = Operand (op_head: operand_head) (rel_op0: "operand option") (rel_op1: "operand option") (rel_op2: "operand option")

text \<open>\<open>memset(op, 0, sizeof(DXBCOperand))\<close>\<close>

definition zero_head :: operand_head where
  "zero_head = \<lparr>oh_type = 0, oh_raw_token = 0, oh_extended_tokens = [], oh_register_index = 0, oh_swizzle = replicate 4 0,
     oh_swizzle_mode = 0, oh_destination_mask = 0, oh_has_neg = False, oh_has_abs = False, oh_imm_values = replicate 4 0,
     oh_imm_value_count = 0, oh_immediate_words = replicate 8 0, oh_immediate_word_count = 0, oh_imm64_values = replicate 4 0,
     oh_min_precision = 0, oh_rel_offset0 = 0, oh_rel_offset1 = 0, oh_rel_offset2 = 0, oh_register_index_dim = 0,
     oh_index_values = replicate 3 0, oh_index_representations = replicate 3 0, oh_index_has_immediate = replicate 3 False,
     oh_index_value_exceeds_int = replicate 3 False\<rparr>"

definition zero_operand :: operand where
  "zero_operand = Operand zero_head None None None"

abbreviation (input) sizeof_operand :: nat where "sizeof_operand \<equiv> 344"
abbreviation (input) OPERAND_TYPE_TEMP :: u32 where "OPERAND_TYPE_TEMP \<equiv> 0"
abbreviation (input) OPERAND_TYPE_INDEXABLE_TEMP :: u32 where "OPERAND_TYPE_INDEXABLE_TEMP \<equiv> 3"
abbreviation (input) OPERAND_TYPE_IMMEDIATE32 :: u32 where "OPERAND_TYPE_IMMEDIATE32 \<equiv> 4"
abbreviation (input) OPERAND_TYPE_IMMEDIATE64 :: u32 where "OPERAND_TYPE_IMMEDIATE64 \<equiv> 5"
abbreviation (input) OPERAND_TYPE_RESOURCE :: u32 where "OPERAND_TYPE_RESOURCE \<equiv> 7"
abbreviation (input) OPERAND_TYPE_UAV :: u32 where "OPERAND_TYPE_UAV \<equiv> 30"
abbreviation (input) OPERAND_TYPE_THREAD_GROUP_SHARED_MEMORY :: u32 where "OPERAND_TYPE_THREAD_GROUP_SHARED_MEMORY \<equiv> 31"
abbreviation (input) DXBC_MAX_NESTED_OPERAND_TOKENS :: nat where "DXBC_MAX_NESTED_OPERAND_TOKENS \<equiv> 126"

text \<open>A store into a C array: outside its elements it is undefined.\<close>

definition put :: "'a list \<Rightarrow> nat \<Rightarrow> 'a \<Rightarrow> ('e, 'a list) outcome" where
  "put xs i v = (if i < length xs then Done (xs[i := v]) else Fault)"

section \<open>Reading words below a limit\<close>

text \<open>The \<open>NULL\<close> tests of the stream and of the budget pointer are not modelled: both always exist.\<close>

definition operand_read_u32 :: "unity_common \<Rightarrow> byte_stream \<Rightarrow> nat \<Rightarrow> (u32 \<times> byte_stream) option" where
  "operand_read_u32 uc stream limit =
     (if bs_position stream \<le> limit \<and> limit - bs_position stream \<ge> 4 then stream_read_uint32 uc stream else None)"

text \<open>
  A failed parse reports the stream and the token budget it leaves behind; the partial operand is
  released.
\<close>

type_synonym 'a operand_outcome = "(byte_stream \<times> nat, 'a) outcome"

definition operand_parse_failed :: "byte_stream \<Rightarrow> nat \<Rightarrow> nat \<Rightarrow> 'a operand_outcome" where
  "operand_parse_failed stream limit budget =
     Fail (if limit \<le> length (bs_data stream) then stream\<lparr>bs_position := limit\<rparr> else stream, budget)"

definition operand_next :: "unity_common \<Rightarrow> nat \<Rightarrow> nat \<Rightarrow> byte_stream \<Rightarrow> (u32 \<times> byte_stream) operand_outcome" where
  "operand_next uc limit budget stream =
     (case operand_read_u32 uc stream limit of None \<Rightarrow> operand_parse_failed stream limit budget | Some r \<Rightarrow> Done r)"

section \<open>Extension tokens\<close>

definition append_extended_token :: "unity_common \<Rightarrow> u32 list \<Rightarrow> u32 \<Rightarrow> u32 list option" where
  "append_extended_token uc tokens token =
     (if length tokens = SIZE_MAX div 4 then None
      else if mem_realloc uc (length tokens * 4) ((length tokens + 1) * 4) then Some (tokens @ [token])
      else None)"

record extension_state =
  ex_tokens :: "u32 list"
  ex_modifier :: u32
  ex_saw_modifier :: bool
  ex_min_precision :: u8

definition min_precision_known :: "u32 \<Rightarrow> bool" where
  "min_precision_known p \<longleftrightarrow> p = 0 \<or> p = 1 \<or> p = 2 \<or> p = 4 \<or> p = 5"

definition apply_extension :: "u32 \<Rightarrow> extension_state \<Rightarrow> extension_state option" where
  "apply_extension ext st = (let extension_type = ext AND 0x3f in
     if extension_type = 1 then
       let decoded_modifier = drop_bit 6 ext AND 0xff; min_precision = drop_bit 14 ext AND 0x7 in
       if ex_saw_modifier st \<or> decoded_modifier > 3 \<or> \<not> min_precision_known min_precision then None
       else Some (st\<lparr>ex_saw_modifier := True, ex_modifier := decoded_modifier, ex_min_precision := ucast min_precision\<rparr>)
     else if extension_type \<noteq> 0 then None
     else Some st)"

text \<open>
  The \<open>while (has_more_extensions)\<close> loop.  Each turn reads a word, so that a fuel of one more than the bytes
  below the limit is enough; running out of it would be a fault.
\<close>

primrec read_extensions ::
  "nat \<Rightarrow> unity_common \<Rightarrow> nat \<Rightarrow> nat \<Rightarrow> byte_stream \<Rightarrow> extension_state \<Rightarrow> (byte_stream \<times> extension_state) operand_outcome" where
  "read_extensions 0 uc limit budget stream st = Fault"
| "read_extensions (Suc fuel) uc limit budget stream st =
     obind (operand_next uc limit budget stream) (\<lambda>(ext, stream).
     case append_extended_token uc (ex_tokens st) ext of
       None \<Rightarrow> operand_parse_failed stream limit budget
     | Some tokens \<Rightarrow>
         (case apply_extension ext (st\<lparr>ex_tokens := tokens\<rparr>) of
            None \<Rightarrow> operand_parse_failed stream limit budget
          | Some st \<Rightarrow> if ext AND 0x80000000 \<noteq> 0 then read_extensions fuel uc limit budget stream st
                      else Done (stream, st)))"

section \<open>Immediates\<close>

definition read_immediate_words ::
  "unity_common \<Rightarrow> nat \<Rightarrow> nat \<Rightarrow> nat \<Rightarrow> byte_stream \<times> u32 list \<Rightarrow> (byte_stream \<times> u32 list) operand_outcome" where
  "read_immediate_words uc limit budget word_count st =
     ofold (\<lambda>word (stream, words).
       obind (operand_next uc limit budget stream) (\<lambda>(v, stream).
       obind (put words word v) (\<lambda>words. Done (stream, words)))) [0..<word_count] st"

text \<open>The four values an immediate gives to its components, and their count.\<close>

definition select_components :: "nat \<Rightarrow> u32 \<Rightarrow> u32 \<Rightarrow> 'a list \<Rightarrow> 'a list \<times> int" where
  "select_components encoded_component_count selection_mode token0 raw_values =
     (if encoded_component_count = 1 then (replicate 4 (raw_values ! 0), 1)
      else if selection_mode = 1 then
        (map (\<lambda>component. raw_values ! unat (drop_bit (4 + 2 * component) token0 AND 3)) [0..<4], 4)
      else if selection_mode = 2 then (replicate 4 (raw_values ! unat (drop_bit 4 token0 AND 3)), 1)
      else (raw_values, 4))"

definition join_words :: "u32 \<Rightarrow> u32 \<Rightarrow> u64" where
  "join_words lo hi = ucast lo OR push_bit 32 (ucast hi)"

text \<open>\<open>raw_values[4] = {0}\<close>, filled for the encoded components.\<close>

definition immediate_raw32 :: "nat \<Rightarrow> u32 list \<Rightarrow> u32 list" where
  "immediate_raw32 encoded_component_count words =
     map (\<lambda>component. if component < encoded_component_count then words ! component else 0) [0..<4]"

definition immediate_raw64 :: "nat \<Rightarrow> u32 list \<Rightarrow> u64 list" where
  "immediate_raw64 encoded_component_count words =
     map (\<lambda>component. if component < encoded_component_count
       then join_words (words ! (component * 2)) (words ! (component * 2 + 1)) else 0) [0..<4]"

definition parse_immediate ::
  "unity_common \<Rightarrow> nat \<Rightarrow> nat \<Rightarrow> u32 \<Rightarrow> byte_stream \<times> operand_head \<Rightarrow> (byte_stream \<times> operand_head) operand_outcome" where
  "parse_immediate uc limit budget token0 = (\<lambda>(stream, op). let
     type = drop_bit 12 token0 AND 0xff;
     component_count_code = token0 AND 0x3;
     selection_mode = drop_bit 2 token0 AND 0x3 in
     if component_count_code \<noteq> 1 \<and> component_count_code \<noteq> 2 then operand_parse_failed stream limit budget
     else let
       encoded_component_count = (if component_count_code = 1 then 1 else 4);
       words_per_component = (if type = OPERAND_TYPE_IMMEDIATE64 then 2 else 1);
       word_count = encoded_component_count * words_per_component in
       obind (read_immediate_words uc limit budget word_count (stream, oh_immediate_words op)) (\<lambda>(stream, words). let
         op = op\<lparr>oh_immediate_word_count := int word_count, oh_immediate_words := words\<rparr> in
         if type = OPERAND_TYPE_IMMEDIATE32 then
           let (vs, n) = select_components encoded_component_count selection_mode token0
                           (immediate_raw32 encoded_component_count words) in
           Done (stream, op\<lparr>oh_imm_value_count := n, oh_imm_values := vs\<rparr>)
         else
           let (vs, n) = select_components encoded_component_count selection_mode token0
                           (immediate_raw64 encoded_component_count words) in
           Done (stream, op\<lparr>oh_imm_value_count := n, oh_imm64_values := vs\<rparr>)))"

section \<open>Index dimensions\<close>

definition sync_legacy_index :: "nat \<Rightarrow> operand_head \<Rightarrow> operand_head" where
  "sync_legacy_index dimension op = (let
     value = oh_index_values op ! dimension;
     legacy_value = (if unat value \<le> INT_MAX then int (unat value) else -1);
     op = op\<lparr>oh_index_value_exceeds_int := (oh_index_value_exceeds_int op)[dimension := unat value > INT_MAX]\<rparr> in
     if dimension = 0 then op\<lparr>oh_register_index := legacy_value, oh_rel_offset1 := legacy_value\<rparr>
     else if dimension = 1 then op\<lparr>oh_rel_offset0 := legacy_value\<rparr>
     else op\<lparr>oh_rel_offset2 := legacy_value\<rparr>)"

text \<open>\<open>*relative_operand_slot(op, dimension) = relative\<close>\<close>

definition set_relative_operand :: "nat \<Rightarrow> operand option \<Rightarrow> operand \<Rightarrow> operand" where
  "set_relative_operand dimension relative op = (case op of Operand h r0 r1 r2 \<Rightarrow>
     if dimension = 0 then Operand h relative r1 r2
     else if dimension = 1 then Operand h r0 relative r2
     else Operand h r0 r1 relative)"

definition set_head :: "(operand_head \<Rightarrow> operand_head) \<Rightarrow> operand \<Rightarrow> operand" where
  "set_head f op = (case op of Operand h r0 r1 r2 \<Rightarrow> Operand (f h) r0 r1 r2)"

type_synonym operand_parser = "byte_stream \<times> nat \<Rightarrow> (operand \<times> byte_stream \<times> nat) operand_outcome"

text \<open>A nested call that fails fails the operand it belongs to.\<close>

definition parse_relative ::
  "operand_parser \<Rightarrow> nat \<Rightarrow> nat \<Rightarrow> operand \<times> byte_stream \<times> nat \<Rightarrow> (operand \<times> byte_stream \<times> nat) operand_outcome" where
  "parse_relative rec limit dimension = (\<lambda>(op, stream, budget).
     case rec (stream, budget) of
       Fault \<Rightarrow> Fault
     | Fail (stream, budget) \<Rightarrow> operand_parse_failed stream limit budget
     | Done (relative, stream, budget) \<Rightarrow> Done (set_relative_operand dimension (Some relative) op, stream, budget))"

definition store_index ::
  "nat \<Rightarrow> u64 \<Rightarrow> operand \<times> byte_stream \<times> nat \<Rightarrow> (operand \<times> byte_stream \<times> nat) operand_outcome" where
  "store_index dimension v = (\<lambda>(op, stream, budget).
     obind (put (oh_index_values (op_head op)) dimension v) (\<lambda>values.
     obind (put (oh_index_has_immediate (op_head op)) dimension True) (\<lambda>flags.
     Done (set_head (\<lambda>h. h\<lparr>oh_index_values := values, oh_index_has_immediate := flags\<rparr>) op, stream, budget))))"

definition parse_index32 ::
  "unity_common \<Rightarrow> nat \<Rightarrow> nat \<Rightarrow> operand \<times> byte_stream \<times> nat \<Rightarrow> (operand \<times> byte_stream \<times> nat) operand_outcome" where
  "parse_index32 uc limit dimension = (\<lambda>(op, stream, budget).
     obind (operand_next uc limit budget stream) (\<lambda>(lo, stream).
     store_index dimension (ucast lo) (op, stream, budget)))"

definition parse_index64 ::
  "unity_common \<Rightarrow> nat \<Rightarrow> nat \<Rightarrow> operand \<times> byte_stream \<times> nat \<Rightarrow> (operand \<times> byte_stream \<times> nat) operand_outcome" where
  "parse_index64 uc limit dimension = (\<lambda>(op, stream, budget).
     obind (operand_next uc limit budget stream) (\<lambda>(lo, stream).
     obind (operand_next uc limit budget stream) (\<lambda>(hi, stream).
     store_index dimension (join_words lo hi) (op, stream, budget))))"

definition parse_index ::
  "operand_parser \<Rightarrow> unity_common \<Rightarrow> nat \<Rightarrow> u32 \<Rightarrow> nat \<Rightarrow> operand \<times> byte_stream \<times> nat \<Rightarrow>
   (operand \<times> byte_stream \<times> nat) operand_outcome" where
  "parse_index rec uc limit token0 dimension = (\<lambda>(op, stream, budget). let
     representation = drop_bit (22 + 3 * dimension) token0 AND 0x7 in
     obind (put (oh_index_representations (op_head op)) dimension (ucast representation)) (\<lambda>rs. let
     op = set_head (\<lambda>h. h\<lparr>oh_index_representations := rs\<rparr>) op in
     obind
       (if representation = 0 then parse_index32 uc limit dimension (op, stream, budget)
        else if representation = 1 then parse_index64 uc limit dimension (op, stream, budget)
        else if representation = 2 then parse_relative rec limit dimension (op, stream, budget)
        else if representation = 3 then
          obind (parse_index32 uc limit dimension (op, stream, budget)) (parse_relative rec limit dimension)
        else if representation = 4 then
          obind (parse_index64 uc limit dimension (op, stream, budget)) (parse_relative rec limit dimension)
        else operand_parse_failed stream limit budget)
       (\<lambda>(op, stream, budget). Done (set_head (sync_legacy_index dimension) op, stream, budget))))"

section \<open>The parser\<close>

definition select_swizzle :: "u32 \<Rightarrow> operand_head \<Rightarrow> operand_head" where
  "select_swizzle token0 op = (let
     type = drop_bit 12 token0 AND 0xff;
     selection_mode = drop_bit 2 token0 AND 0x3 in
     if type = OPERAND_TYPE_IMMEDIATE32 \<or> type = OPERAND_TYPE_IMMEDIATE64 then op
     else if selection_mode = 1 then
       op\<lparr>oh_swizzle := [ucast (drop_bit 4 token0 AND 3), ucast (drop_bit 6 token0 AND 3),
                         ucast (drop_bit 8 token0 AND 3), ucast (drop_bit 10 token0 AND 3)]\<rparr>
     else if selection_mode = 2 then op\<lparr>oh_swizzle := replicate 4 (ucast (drop_bit 4 token0 AND 3))\<rparr>
     else op)"

definition operand_start :: "u32 \<Rightarrow> extension_state \<Rightarrow> operand_head" where
  "operand_start token0 ex = (let
     type = drop_bit 12 token0 AND 0xff;
     selection_mode = drop_bit 2 token0 AND 0x3 in
     zero_head\<lparr>oh_raw_token := token0, oh_extended_tokens := ex_tokens ex, oh_min_precision := ex_min_precision ex,
       oh_type := type, oh_register_index_dim := int (unat (drop_bit 20 token0 AND 0x3)),
       oh_has_neg := ex_modifier ex AND 0x1 \<noteq> 0, oh_has_abs := ex_modifier ex AND 0x2 \<noteq> 0,
       oh_swizzle_mode := ucast selection_mode, oh_swizzle := [0, 1, 2, 3],
       oh_destination_mask := (if selection_mode = 0 \<and> type \<noteq> OPERAND_TYPE_IMMEDIATE32 \<and> type \<noteq> OPERAND_TYPE_IMMEDIATE64
                               then ucast (token0 AND 0xf0) else 0)\<rparr>)"

definition parse_operand_body :: "operand_parser \<Rightarrow> unity_common \<Rightarrow> nat \<Rightarrow> operand_parser" where
  "parse_operand_body rec uc limit = (\<lambda>(stream, budget).
     if budget = 0 \<or> limit > length (bs_data stream) \<or> bs_position stream > limit \<or> limit - bs_position stream < 4
     then operand_parse_failed stream limit budget
     else let budget = budget - 1 in
     case operand_read_u32 uc stream limit of
       None \<Rightarrow> Fail (stream, budget)
     | Some (token0, stream) \<Rightarrow>
       if \<not> mem_alloc uc sizeof_operand then Fail (stream\<lparr>bs_position := limit\<rparr>, budget)
       else let ex0 = \<lparr>ex_tokens = [], ex_modifier = 0, ex_saw_modifier = False, ex_min_precision = 0\<rparr> in
       obind (if token0 AND 0x80000000 \<noteq> 0
              then read_extensions (Suc (limit - bs_position stream)) uc limit budget stream ex0
              else Done (stream, ex0)) (\<lambda>(stream, ex). let
         type = drop_bit 12 token0 AND 0xff;
         component_count_code = token0 AND 0x3;
         selection_mode = drop_bit 2 token0 AND 0x3 in
         if component_count_code = 3 \<or> component_count_code = 2 \<and> selection_mode = 3
         then operand_parse_failed stream limit budget
         else obind (if type = OPERAND_TYPE_IMMEDIATE32 \<or> type = OPERAND_TYPE_IMMEDIATE64
                     then parse_immediate uc limit budget token0 (stream, operand_start token0 ex)
                     else Done (stream, operand_start token0 ex)) (\<lambda>(stream, h).
         obind (ofold (parse_index rec uc limit token0) [0..<unat (drop_bit 20 token0 AND 0x3)]
                  (Operand h None None None, stream, budget)) (\<lambda>(op, stream, budget).
         Done (set_head (select_swizzle token0) op, stream, budget)))))"

text \<open>
  The recursion of \<open>parse_operand_recursive_impl\<close>.  Each call takes one token from the budget before it
  recurses, so a fuel above the budget is enough.
\<close>

primrec parse_operand_recursive_impl :: "nat \<Rightarrow> unity_common \<Rightarrow> nat \<Rightarrow> operand_parser" where
  "parse_operand_recursive_impl 0 uc limit = (\<lambda>_. Fault)"
| "parse_operand_recursive_impl (Suc fuel) uc limit = parse_operand_body (parse_operand_recursive_impl fuel uc limit) uc limit"

definition operand_token_budget :: "byte_stream \<Rightarrow> nat \<Rightarrow> nat" where
  "operand_token_budget stream limit =
     (if limit \<le> length (bs_data stream) \<and> bs_position stream \<le> limit
      then min ((limit - bs_position stream) div 4) DXBC_MAX_NESTED_OPERAND_TOKENS else 0)"

definition parse_operand_recursive :: "unity_common \<Rightarrow> byte_stream \<Rightarrow> nat \<Rightarrow> (byte_stream, operand \<times> byte_stream) outcome" where
  "parse_operand_recursive uc stream limit = (let budget = operand_token_budget stream limit in
     case parse_operand_recursive_impl (Suc budget) uc limit (stream, budget) of
       Fault \<Rightarrow> Fault
     | Fail (stream, _) \<Rightarrow> Fail stream
     | Done (op, stream, _) \<Rightarrow> Done (op, stream))"

text \<open>Releasing an operand clears its pointers.\<close>

definition free_operand :: "operand \<Rightarrow> operand" where
  "free_operand op = Operand ((op_head op)\<lparr>oh_extended_tokens := []\<rparr>) None None None"

end
