(* ===== verification/Resource_Table.thy ===== *)
theory Resource_Table
  imports Unity_Common
begin

text \<open>
  The resource and UAV declaration tables of a semantic container
  (\<open>src/dxbc/dxbc_parser.c\<close>, \<open>reserve_array\<close>, \<open>dxbc_find_resource_declaration\<close>,
  \<open>dxbc_get_or_add_resource_declaration\<close>): arrays kept in ascending register order.  A table is its
  array pointer (with the initialised elements), its count and its allocation; a returned pointer is an
  index into the array.
\<close>

record resource_decl =
  rd_register_index :: int
  rd_dim_name :: string
  rd_ret_types :: string
  rd_dimension :: u32
  rd_return_types :: "u8 list"
  rd_sample_count :: u32
  rd_stride :: u32
  rd_is_structured :: bool
  rd_globally_coherent :: bool
  rd_rasterizer_ordered :: bool
  rd_has_order_preserving_counter :: bool
  rd_declared :: bool

abbreviation (input) sizeof_resource_decl :: nat where "sizeof_resource_decl \<equiv> 124"

record resource_table =
  rt_array :: "resource_decl list option"
  rt_count :: int
  rt_alloc :: int

definition empty_table :: resource_table where
  "empty_table = \<lparr>rt_array = None, rt_count = 0, rt_alloc = 0\<rparr>"

section \<open>Growing an array\<close>

text \<open>The doubling loop; it is entered with a positive allocation.\<close>

function grow_allocation :: "int \<Rightarrow> int \<Rightarrow> int" where
  "grow_allocation required new_allocation =
     (if 0 < new_allocation \<and> new_allocation < required then
        if new_allocation > int INT_MAX div 2 then required
        else grow_allocation required (new_allocation * 2)
      else new_allocation)"
  by pat_completeness auto
termination by (relation "measure (\<lambda>(required, n). nat (required - n))") auto

declare grow_allocation.simps [simp del]

text \<open>\<open>None\<close> is the return value \<open>false\<close>; otherwise the allocation after the call.\<close>

definition reserve_array :: "unity_common \<Rightarrow> bool \<Rightarrow> int \<Rightarrow> int \<Rightarrow> nat \<Rightarrow> int option" where
  "reserve_array uc array_is_null allocation required element_size =
     (if allocation < 0 \<or> required < 0 \<or> (allocation = 0) \<noteq> array_is_null then None
      else if required \<le> allocation then Some allocation
      else let new_allocation = grow_allocation required (if allocation = 0 then 16 else allocation) in
        if size_multiply_overflows uc (nat new_allocation) element_size \<or>
           size_multiply_overflows uc (nat allocation) element_size then None
        else if \<not> mem_realloc uc (nat allocation * element_size) (nat new_allocation * element_size) then None
        else Some new_allocation)"

section \<open>Lookup and insertion\<close>

text \<open>The scan of \<open>dxbc_find_resource_declaration\<close>: stops at the register or behind its place.\<close>

function find_from :: "resource_decl list \<Rightarrow> nat \<Rightarrow> int \<Rightarrow> nat \<Rightarrow> (unit, nat option) outcome" where
  "find_from declarations count register_index index =
     (if index < count then
        obind (mem (if index < length declarations then Some (declarations ! index) else None)) (\<lambda>d.
        if rd_register_index d = register_index then Done (Some index)
        else if rd_register_index d > register_index then Done None
        else find_from declarations count register_index (index + 1))
      else Done None)"
  by pat_completeness auto
termination by (relation "measure (\<lambda>(_, count, _, index). count - index)") auto

declare find_from.simps [simp del]

definition dxbc_find_resource_declaration :: "resource_table \<Rightarrow> int \<Rightarrow> (unit, nat option) outcome" where
  "dxbc_find_resource_declaration table register_index =
     (if register_index < 0 then Done None
      else if rt_count table < 0 \<or> rt_count table > 0 \<and> rt_array table = None then Done None
      else find_from (case rt_array table of None \<Rightarrow> [] | Some ds \<Rightarrow> ds) (nat (rt_count table)) register_index 0)"

text \<open>The place of a register: the first element that is not below it.\<close>

function insert_position :: "resource_decl list \<Rightarrow> nat \<Rightarrow> int \<Rightarrow> nat \<Rightarrow> (unit, nat) outcome" where
  "insert_position declarations count register_index position =
     (if position < count then
        obind (mem (if position < length declarations then Some (declarations ! position) else None)) (\<lambda>d.
        if rd_register_index d < register_index then insert_position declarations count register_index (position + 1)
        else Done position)
      else Done position)"
  by pat_completeness auto
termination by (relation "measure (\<lambda>(_, count, _, position). count - position)") auto

declare insert_position.simps [simp del]

definition zero_decl :: "int \<Rightarrow> resource_decl" where
  "zero_decl register_index = \<lparr>rd_register_index = register_index, rd_dim_name = [], rd_ret_types = [], rd_dimension = 0,
     rd_return_types = [0, 0, 0, 0], rd_sample_count = 0, rd_stride = 0, rd_is_structured = False, rd_globally_coherent = False,
     rd_rasterizer_ordered = False, rd_has_order_preserving_counter = False, rd_declared = False\<rparr>"

text \<open>The result is the updated table and the index of the declaration, or \<open>None\<close> for \<open>NULL\<close>.\<close>

definition dxbc_get_or_add_resource_declaration ::
  "unity_common \<Rightarrow> resource_table \<Rightarrow> int \<Rightarrow> (unit, (resource_table \<times> nat) option) outcome" where
  "dxbc_get_or_add_resource_declaration uc table register_index = (let
     count = rt_count table; ds = (case rt_array table of None \<Rightarrow> [] | Some ds \<Rightarrow> ds) in
     if register_index < 0 then Done None
     else if count < 0 \<or> rt_alloc table < count \<or> (rt_alloc table = 0) \<noteq> (rt_array table = None) then Done None
     else obind (insert_position ds (nat count) register_index 0) (\<lambda>position.
     obind (if position < nat count
            then obind (mem (if position < length ds then Some (ds ! position) else None))
                   (\<lambda>d. Done (rd_register_index d = register_index))
            else Done False) (\<lambda>present.
     if present then Done (Some (table, position))
     else if count = int INT_MAX then Done None
     else (case reserve_array uc (rt_array table = None) (rt_alloc table) (count + 1) sizeof_resource_decl of
             None \<Rightarrow> Done None
           | Some alloc \<Rightarrow> Done (Some (\<lparr>rt_array = Some (take position ds @ [zero_decl register_index] @ drop position ds),
               rt_count = count + 1, rt_alloc = alloc\<rparr>, position))))))"

section \<open>The table as a map\<close>

definition decls :: "resource_table \<Rightarrow> resource_decl list" where
  "decls t = (case rt_array t of None \<Rightarrow> [] | Some ds \<Rightarrow> ds)"

abbreviation (input) below :: "int \<Rightarrow> resource_decl \<Rightarrow> bool" where
  "below r \<equiv> \<lambda>d. rd_register_index d < r"

definition table_ok :: "resource_table \<Rightarrow> bool" where
  "table_ok t \<longleftrightarrow> 0 \<le> rt_count t \<and> rt_count t \<le> rt_alloc t \<and> rt_alloc t \<le> int INT_MAX \<and> (rt_alloc t = 0 \<longleftrightarrow> rt_array t = None) \<and>
     length (decls t) = nat (rt_count t) \<and> sorted_wrt (<) (map rd_register_index (decls t)) \<and>
     (\<forall>d\<in>set (decls t). 0 \<le> rd_register_index d)"

definition registers :: "resource_table \<Rightarrow> int \<Rightarrow> resource_decl option" where
  "registers t = map_of (map (\<lambda>d. (rd_register_index d, d)) (decls t))"

text \<open>What a pointer returned by the lookup points to.\<close>

definition lookup_decl :: "resource_table \<Rightarrow> int \<Rightarrow> resource_decl option" where
  "lookup_decl t r = (case dxbc_find_resource_declaration t r of Done (Some k) \<Rightarrow> Some (decls t ! k) | _ \<Rightarrow> None)"

definition add_decl :: "unity_common \<Rightarrow> resource_table \<Rightarrow> int \<Rightarrow> resource_table option" where
  "add_decl uc t r = (case dxbc_get_or_add_resource_declaration uc t r of Done (Some (t', k)) \<Rightarrow> Some t' | _ \<Rightarrow> None)"

lemma insert_position_eq:
  "length ds = n \<Longrightarrow> i \<le> n \<Longrightarrow> insert_position ds n r i = Done (i + length (takeWhile (below r) (drop i ds)))"
proof (induction "n - i" arbitrary: i)
  case (Suc k)
  then have i: "i < length ds" by simp
  then have "drop i ds = ds ! i # drop (Suc i) ds" by (simp add: Cons_nth_drop_Suc)
  with Suc i show ?case by (subst insert_position.simps) simp
qed (simp add: insert_position.simps)

lemma find_from_eq:
  "length ds = n \<Longrightarrow> i \<le> n \<Longrightarrow> find_from ds n r i =
   (let k = i + length (takeWhile (below r) (drop i ds)) in
    Done (if k < n \<and> rd_register_index (ds ! k) = r then Some k else None))"
proof (induction "n - i" arbitrary: i)
  case (Suc k)
  then have i: "i < length ds" by simp
  then have "drop i ds = ds ! i # drop (Suc i) ds" by (simp add: Cons_nth_drop_Suc)
  with Suc i show ?case by (subst find_from.simps) (auto simp: Let_def)
qed (simp add: find_from.simps)

text \<open>Splitting a sorted table at the place of a register.\<close>

lemma split_at_register:
  fixes ds :: "resource_decl list" and r :: int
  assumes "sorted_wrt (<) (map rd_register_index ds)"
  defines "k \<equiv> length (takeWhile (below r) ds)"
  shows "k \<le> length ds" "take k ds = takeWhile (below r) ds"
    "k < length ds \<Longrightarrow> r \<le> rd_register_index (ds ! k)" "\<And>d. d \<in> set (take k ds) \<Longrightarrow> rd_register_index d < r"
    "\<And>d. d \<in> set (drop k ds) \<Longrightarrow> r \<le> rd_register_index d"
proof -
  show "k \<le> length ds" by (simp add: k_def length_takeWhile_le)
  show tk: "take k ds = takeWhile (below r) ds" by (simp add: k_def takeWhile_eq_take [symmetric])
  show at: "r \<le> rd_register_index (ds ! k)" if "k < length ds"
    using nth_length_takeWhile [of "below r" ds] that by (auto simp: k_def)
  show "rd_register_index d < r" if "d \<in> set (take k ds)" for d
    using that unfolding tk by (auto dest: set_takeWhileD)
  show "r \<le> rd_register_index d" if "d \<in> set (drop k ds)" for d
  proof -
    from that obtain j where "j < length ds - k" and d: "d = ds ! (k + j)" by (auto simp: in_set_conv_nth)
    then have j: "k + j < length ds" by simp
    have "rd_register_index (ds ! k) \<le> rd_register_index (ds ! (k + j))"
      using sorted_wrt_nth_less [OF assms(1), of k "k + j"] j by (cases "j = 0") auto
    with at j d show ?thesis by force
  qed
qed

lemma map_of_absent: "\<forall>d\<in>set ds. f d \<noteq> r \<Longrightarrow> map_of (map (\<lambda>d. (f d, d)) ds) r = None"
  by (auto simp: map_of_eq_None_iff)

lemma registers_at:
  assumes "sorted_wrt (<) (map rd_register_index ds)"
  shows "map_of (map (\<lambda>d. (rd_register_index d, d)) ds) r =
    (let k = length (takeWhile (below r) ds) in if k < length ds \<and> rd_register_index (ds ! k) = r then Some (ds ! k) else None)"
proof -
  define k where "k = length (takeWhile (below r) ds)"
  note sp = split_at_register [OF assms, where r = r, folded k_def]
  have split: "ds = take k ds @ drop k ds" by simp
  have lo: "map_of (map (\<lambda>d. (rd_register_index d, d)) (take k ds)) r = None"
    using sp(4) by (intro map_of_absent) force
  show ?thesis
  proof (cases "k < length ds")
    case True
    then have d: "drop k ds = ds ! k # drop (Suc k) ds" by (simp add: Cons_nth_drop_Suc)
    have "rd_register_index (ds ! k) < rd_register_index e" if "e \<in> set (drop (Suc k) ds)" for e
      using that sorted_wrt_nth_less [OF assms, of k] by (fastforce simp: in_set_conv_nth)
    with sp(3) [OF True] have "map_of (map (\<lambda>d. (rd_register_index d, d)) (drop (Suc k) ds)) r = None"
      by (intro map_of_absent) force
    then show ?thesis
      by (subst split) (simp add: map_add_def lo d True k_def [symmetric] Let_def)
  next
    case False
    then have "ds = take k ds" by simp
    with lo False show ?thesis by (simp add: k_def [symmetric] Let_def)
  qed
qed

lemma find_Done:
  assumes "table_ok t" "0 \<le> r"
  shows "dxbc_find_resource_declaration t r = (let k = length (takeWhile (below r) (decls t)) in
    Done (if k < length (decls t) \<and> rd_register_index (decls t ! k) = r then Some k else None))"
  using assms find_from_eq [of "decls t" "nat (rt_count t)" 0 r]
  by (auto simp: dxbc_find_resource_declaration_def table_ok_def decls_def [symmetric])

lemma lookup_is_map: "table_ok t \<Longrightarrow> 0 \<le> r \<Longrightarrow> lookup_decl t r = registers t r"
  using registers_at [of "decls t" r]
  by (simp add: lookup_decl_def registers_def find_Done table_ok_def Let_def)

lemma grow_allocation_enough:
  "0 < n \<Longrightarrow> required \<le> int INT_MAX \<Longrightarrow> n \<le> int INT_MAX \<Longrightarrow>
   required \<le> grow_allocation required n \<and> n \<le> grow_allocation required n \<and> grow_allocation required n \<le> int INT_MAX"
proof (induction required n rule: grow_allocation.induct)
  case (1 required n)
  then show ?case by (subst (1 2 3) grow_allocation.simps) (auto simp: Let_def)
qed

lemma reserve_array_Some:
  assumes "reserve_array uc nul allocation required element_size = Some a" "allocation \<le> int INT_MAX" "required \<le> int INT_MAX"
  shows "required \<le> a \<and> allocation \<le> a \<and> a \<le> int INT_MAX \<and> 0 \<le> allocation \<and> (allocation = 0 \<longleftrightarrow> nul)"
  using assms grow_allocation_enough [of "if allocation = 0 then 16 else allocation" required]
  by (auto simp: reserve_array_def Let_def split: if_splits)

text \<open>The insertion itself, on a well-formed table.\<close>

lemma get_or_add_cases:
  assumes "table_ok t" "0 \<le> r"
  defines "k \<equiv> length (takeWhile (below r) (decls t))"
  shows "dxbc_get_or_add_resource_declaration uc t r =
    (if k < length (decls t) \<and> rd_register_index (decls t ! k) = r then Done (Some (t, k))
     else if rt_count t = int INT_MAX then Done None
     else (case reserve_array uc (rt_array t = None) (rt_alloc t) (rt_count t + 1) sizeof_resource_decl of
             None \<Rightarrow> Done None
           | Some alloc \<Rightarrow> Done (Some (\<lparr>rt_array = Some (take k (decls t) @ [zero_decl r] @ drop k (decls t)),
               rt_count = rt_count t + 1, rt_alloc = alloc\<rparr>, k))))"
proof -
  have len: "length (decls t) = nat (rt_count t)" using assms(1) by (simp add: table_ok_def)
  have pos: "insert_position (decls t) (nat (rt_count t)) r 0 = Done k"
    using insert_position_eq [OF len, of 0 r] by (simp add: k_def)
  have g: "\<not> (rt_count t < 0 \<or> rt_alloc t < rt_count t \<or> (rt_alloc t = 0) \<noteq> (rt_array t = None))"
    using assms(1) by (auto simp: table_ok_def)
  show ?thesis
    using assms(2) g len
    by (auto simp: dxbc_get_or_add_resource_declaration_def Let_def decls_def [symmetric] pos)
qed

lemma inserted_ok:
  assumes "table_ok t" "0 \<le> r" "rt_count t < alloc" "alloc \<le> int INT_MAX"
  defines "k \<equiv> length (takeWhile (below r) (decls t))"
  assumes "\<not> (k < length (decls t) \<and> rd_register_index (decls t ! k) = r)"
  shows "table_ok \<lparr>rt_array = Some (take k (decls t) @ [zero_decl r] @ drop k (decls t)), rt_count = rt_count t + 1, rt_alloc = alloc\<rparr>"
proof -
  have srt: "sorted_wrt (<) (map rd_register_index (decls t))" using assms(1) by (simp add: table_ok_def)
  note sp = split_at_register [OF srt, where r = r, folded k_def]
  have hi: "r < rd_register_index d" if "d \<in> set (drop k (decls t))" for d
  proof (cases "k < length (decls t)")
    case True
    then have dr: "drop k (decls t) = decls t ! k # drop (Suc k) (decls t)" by (simp add: Cons_nth_drop_Suc)
    have "sorted_wrt (<) (map rd_register_index (drop k (decls t)))" using srt by (simp add: drop_map [symmetric] sorted_wrt_drop)
    with that dr sp(3) [OF True] assms(6) True show ?thesis by auto
  qed (use that in simp)
  have parts: "sorted_wrt (<) (map rd_register_index (take k (decls t)))" "sorted_wrt (<) (map rd_register_index (drop k (decls t)))"
    using srt by (simp_all add: take_map [symmetric] drop_map [symmetric] sorted_wrt_take sorted_wrt_drop)
  have sorted: "sorted_wrt (<) (map rd_register_index (take k (decls t) @ [zero_decl r] @ drop k (decls t)))"
    using parts sp(4) hi by (auto simp: sorted_wrt_append zero_decl_def intro: order_less_trans [OF sp(4) hi])
  have "length (take k (decls t) @ [zero_decl r] @ drop k (decls t)) = nat (rt_count t + 1)"
    using assms(1) sp(1) by (simp add: table_ok_def nat_add_distrib)
  moreover have "\<forall>d\<in>set (take k (decls t) @ [zero_decl r] @ drop k (decls t)). 0 \<le> rd_register_index d"
    using assms(1,2) by (auto simp: table_ok_def zero_decl_def dest: in_set_takeD in_set_dropD)
  ultimately show ?thesis
    using assms(1,3,4) sorted by (auto simp: table_ok_def decls_def)
qed

lemma map_of_insert:
  "map_of (map (\<lambda>d. (f d, d)) (as @ [x] @ bs)) r' =
   (if r' = f x then (case map_of (map (\<lambda>d. (f d, d)) as) r' of None \<Rightarrow> Some x | Some d \<Rightarrow> Some d)
    else map_of (map (\<lambda>d. (f d, d)) (as @ bs)) r')"
  by (simp add: map_add_def split: option.splits)

lemma add_result:
  assumes "table_ok t" "0 \<le> r" "dxbc_get_or_add_resource_declaration uc t r = Done (Some (t', k))"
  shows "table_ok t'" "registers t' = (registers t)(r \<mapsto> (case registers t r of None \<Rightarrow> zero_decl r | Some d \<Rightarrow> d))"
    "k < length (decls t')" "rd_register_index (decls t' ! k) = r"
proof -
  define j where "j = length (takeWhile (below r) (decls t))"
  have srt: "sorted_wrt (<) (map rd_register_index (decls t))" using assms(1) by (simp add: table_ok_def)
  note at = registers_at [OF srt, of r, folded registers_def j_def]
  note sp = split_at_register [OF srt, where r = r, folded j_def]
  have "table_ok t' \<and> registers t' = (registers t)(r \<mapsto> (case registers t r of None \<Rightarrow> zero_decl r | Some d \<Rightarrow> d)) \<and>
    k < length (decls t') \<and> rd_register_index (decls t' ! k) = r"
  proof (cases "j < length (decls t) \<and> rd_register_index (decls t ! j) = r")
    case True
    then have "t' = t" "k = j" using assms(3) get_or_add_cases [OF assms(1,2)] by (auto simp: j_def)
    with True assms(1) at show ?thesis by (auto simp: Let_def)
  next
    case False
    note run = assms(3) [unfolded get_or_add_cases [OF assms(1,2), of uc, folded j_def] if_not_P [OF False]]
    then have full: "rt_count t \<noteq> int INT_MAX" by (rule contrapos_pn) simp
    note run = run [unfolded if_not_P [OF full]]
    obtain alloc where alloc: "reserve_array uc (rt_array t = None) (rt_alloc t) (rt_count t + 1) sizeof_resource_decl = Some alloc"
      using run by (cases "reserve_array uc (rt_array t = None) (rt_alloc t) (rt_count t + 1) sizeof_resource_decl") simp_all
    have t': "t' = \<lparr>rt_array = Some (take j (decls t) @ [zero_decl r] @ drop j (decls t)), rt_count = rt_count t + 1, rt_alloc = alloc\<rparr>"
      and k: "k = j" using run [unfolded alloc option.case] by auto
    have decls': "decls t' = take j (decls t) @ [zero_decl r] @ drop j (decls t)" by (simp add: t' decls_def)
    have "rt_alloc t \<le> int INT_MAX" "rt_count t + 1 \<le> int INT_MAX" using assms(1) full by (simp_all add: table_ok_def)
    from reserve_array_Some [OF alloc this] have a: "rt_count t < alloc" "alloc \<le> int INT_MAX" by auto
    have "table_ok t'" unfolding t' using inserted_ok [OF assms(1,2) a] False by (simp add: j_def)
    moreover have "registers t r = None" using at False by (simp add: Let_def)
    moreover have "map_of (map (\<lambda>d. (rd_register_index d, d)) (take j (decls t))) r = None"
      using sp(4) by (intro map_of_absent) force
    moreover have idx: "rd_register_index (zero_decl r) = r" by (simp add: zero_decl_def)
    ultimately have "registers t' = (registers t)(r \<mapsto> (case registers t r of None \<Rightarrow> zero_decl r | Some d \<Rightarrow> d))"
      unfolding registers_def decls' map_of_insert by (auto intro!: ext simp: map_of_insert simp del: map_append append_Cons append_Nil)
    with \<open>table_ok t'\<close> show ?thesis using sp(1) k idx by (simp add: decls' nth_append)
  qed
  then show "table_ok t'" "registers t' = (registers t)(r \<mapsto> (case registers t r of None \<Rightarrow> zero_decl r | Some d \<Rightarrow> d))"
    "k < length (decls t')" "rd_register_index (decls t' ! k) = r" by simp_all
qed

section \<open>The interface the instruction decoder relies on\<close>

text \<open>
  A register map: lookups see the declarations that were added, an addition keeps every other
  declaration, and the invariant survives.
\<close>

locale register_map =
  fixes lookup :: "'t \<Rightarrow> int \<Rightarrow> 'd option"
    and add :: "'t \<Rightarrow> int \<Rightarrow> 't option"
    and invar :: "'t \<Rightarrow> bool"
    and fresh :: "int \<Rightarrow> 'd"
  assumes add_invar: "invar t \<Longrightarrow> 0 \<le> r \<Longrightarrow> add t r = Some t' \<Longrightarrow> invar t'"
    and lookup_added: "invar t \<Longrightarrow> 0 \<le> r \<Longrightarrow> add t r = Some t' \<Longrightarrow>
          lookup t' r = Some (case lookup t r of None \<Rightarrow> fresh r | Some d \<Rightarrow> d)"
    and lookup_other: "invar t \<Longrightarrow> 0 \<le> r \<Longrightarrow> add t r = Some t' \<Longrightarrow> 0 \<le> r' \<Longrightarrow> r' \<noteq> r \<Longrightarrow> lookup t' r' = lookup t r'"
begin

fun add_all :: "'t \<Rightarrow> int list \<Rightarrow> 't option" where
  "add_all t [] = Some t"
| "add_all t (r # rs) = (case add t r of None \<Rightarrow> None | Some t' \<Rightarrow> add_all t' rs)"

lemma add_all_invar: "invar t \<Longrightarrow> \<forall>r\<in>set rs. 0 \<le> r \<Longrightarrow> add_all t rs = Some t' \<Longrightarrow> invar t'"
  by (induction rs arbitrary: t) (auto split: option.splits dest: add_invar)

lemma add_all_lookup:
  "invar t \<Longrightarrow> \<forall>r\<in>set rs. 0 \<le> r \<Longrightarrow> add_all t rs = Some t' \<Longrightarrow> 0 \<le> r' \<Longrightarrow>
   lookup t' r' = (if r' \<in> set rs then Some (case lookup t r' of None \<Rightarrow> fresh r' | Some d \<Rightarrow> d) else lookup t r')"
proof (induction rs arbitrary: t)
  case (Cons r rs)
  then obtain t1 where t1: "add t r = Some t1" "add_all t1 rs = Some t'" by (auto split: option.splits)
  have "invar t1" using add_invar [OF Cons.prems(1) _ t1(1)] Cons.prems(2) by simp
  from Cons.IH [OF this _ t1(2) Cons.prems(4)] Cons.prems lookup_added [OF Cons.prems(1) _ t1(1)]
    lookup_other [OF Cons.prems(1) _ t1(1) Cons.prems(4)]
  show ?case by (cases "r' = r") auto
qed simp

end

interpretation decl_table: register_map lookup_decl "add_decl uc" table_ok zero_decl for uc
proof
  fix t r t'
  assume t: "table_ok t" "0 \<le> r" "add_decl uc t r = Some t'"
  then obtain k where "dxbc_get_or_add_resource_declaration uc t r = Done (Some (t', k))"
    by (auto simp: add_decl_def split: outcome.splits option.splits)
  note res = add_result [OF t(1,2) this]
  show "table_ok t'" by (rule res(1))
  show "lookup_decl t' r = Some (case lookup_decl t r of None \<Rightarrow> zero_decl r | Some d \<Rightarrow> d)"
    using t res by (simp add: lookup_is_map)
  fix r' :: int
  assume "0 \<le> r'" "r' \<noteq> r"
  then show "lookup_decl t' r' = lookup_decl t r'" using t res by (simp add: lookup_is_map)
qed

lemma empty_table_ok: "table_ok empty_table"
  by (simp add: table_ok_def empty_table_def decls_def)

lemma lookup_empty: "0 \<le> r \<Longrightarrow> lookup_decl empty_table r = None"
  unfolding lookup_is_map [OF empty_table_ok] by (simp add: registers_def decls_def empty_table_def)

lemma get_or_add_total:
  assumes "table_ok t" "exact_size_checks uc" "memory_available uc" "0 \<le> r" "rt_count t < int INT_MAX"
  shows "\<exists>t' k. dxbc_get_or_add_resource_declaration uc t r = Done (Some (t', k))"
proof -
  have alloc: "\<exists>a. reserve_array uc (rt_array t = None) (rt_alloc t) (rt_count t + 1) sizeof_resource_decl = Some a"
  proof -
    let ?n = "grow_allocation (rt_count t + 1) (if rt_alloc t = 0 then 16 else rt_alloc t)"
    have "?n \<le> int INT_MAX"
      using grow_allocation_enough [of "if rt_alloc t = 0 then 16 else rt_alloc t" "rt_count t + 1"] assms(1,5) by (auto simp: table_ok_def)
    then have "nat ?n * 124 \<le> SIZE_MAX" "nat (rt_alloc t) * 124 \<le> SIZE_MAX" using assms(1) by (auto simp: table_ok_def)
    with assms show ?thesis by (auto simp: reserve_array_def Let_def exact_size_checksD table_ok_def)
  qed
  then show ?thesis using get_or_add_cases [OF assms(1,4), of uc] assms(5) by (auto simp: Let_def)
qed

section \<open>Properties\<close>

text \<open>
  C31: declaring registers in any order gives a table sorted by register, in which exactly the declared
  registers are found, each with its first declaration; nothing declared earlier is lost or changed.
\<close>

theorem resource_table_is_map:
  assumes "table_ok t" "0 \<le> r" "dxbc_get_or_add_resource_declaration uc t r = Done (Some (t', k))" "0 \<le> r'"
  shows "table_ok t' \<and> rd_register_index (decls t' ! k) = r \<and>
    lookup_decl t' r' = (if r' = r then Some (case lookup_decl t r of None \<Rightarrow> zero_decl r | Some d \<Rightarrow> d) else lookup_decl t r')"
  using add_result [OF assms(1-3)] assms(1,2,4) by (simp add: lookup_is_map)

theorem resource_table_is_map_witness:
  "\<exists>t' k. dxbc_get_or_add_resource_declaration lp64_common empty_table 3 = Done (Some (t', k)) \<and> lookup_decl t' 3 = Some (zero_decl 3)"
proof -
  obtain t' k where run: "dxbc_get_or_add_resource_declaration lp64_common empty_table 3 = Done (Some (t', k))"
    using get_or_add_total [OF empty_table_ok, of lp64_common 3] by (auto simp: empty_table_def)
  then show ?thesis using resource_table_is_map [OF empty_table_ok _ run, of 3] lookup_empty [of 3] by simp
qed

text \<open>
  A sequence of declarations followed by a lookup: the register is found exactly when it was in the
  table or in the sequence.
\<close>

lemma resource_table_sequence:
  assumes "table_ok t" "\<forall>r\<in>set rs. 0 \<le> r" "decl_table.add_all uc t rs = Some t'" "0 \<le> r"
  shows "table_ok t' \<and> (lookup_decl t' r \<noteq> None \<longleftrightarrow> r \<in> set rs \<or> lookup_decl t r \<noteq> None)"
  using decl_table.add_all_invar [OF assms(1-3)] decl_table.add_all_lookup [OF assms] by simp

end
