(* ===== verification/Signature.thy ===== *)
theory Signature
  imports Resource_Table
begin

text \<open>
  Signature elements and signature chunks (\<open>src/dxbc/dxbc_parser.c\<close>, from \<open>signature_is_streamed\<close> to
  \<open>parse_signature\<close>).  A C string is a pointer into an array, here the list of the bytes from the pointer to
  the end of the array; a read behind the last byte is a fault.  Names of the source's string literals are
  given with their terminator.
\<close>

section \<open>Data\<close>

datatype signature_role = SIGNATURE_ROLE_INPUT | SIGNATURE_ROLE_OUTPUT | SIGNATURE_ROLE_PATCH_CONSTANT

record signature_element =
  se_semantic_name :: bytes
  se_semantic_name_extended :: "bytes option"
  se_semantic_name_length :: nat
  se_stream_index :: u32
  se_semantic_index :: u32
  se_system_value :: u32
  se_component_type :: u32
  se_register_id :: u32
  se_min_precision :: u32
  se_interpolation_mode :: u8
  se_mask :: u8
  se_rw_mask :: u8

definition zero_element :: signature_element where
  "zero_element = \<lparr>se_semantic_name = replicate 64 0, se_semantic_name_extended = None, se_semantic_name_length = 0,
     se_stream_index = 0, se_semantic_index = 0, se_system_value = 0, se_component_type = 0, se_register_id = 0, se_min_precision = 0,
     se_interpolation_mode = 0, se_mask = 0, se_rw_mask = 0\<rparr>"

record signature_table =
  sg_list :: "signature_element list option"
  sg_count :: int
  sg_alloc :: int

abbreviation (input) sizeof_signature_element :: nat where "sizeof_signature_element \<equiv> 112"

definition chars :: "string \<Rightarrow> bytes" where "chars s = map of_char s"
definition cstring :: "string \<Rightarrow> bytes" where "cstring s = chars s @ [0]"

section \<open>Chunk names\<close>

text \<open>A chunk name is four bytes and a terminator; \<open>strcmp\<close> with a four-letter literal compares the four bytes.\<close>

definition signature_is_streamed :: "bytes \<Rightarrow> bool" where
  "signature_is_streamed chunk_name \<longleftrightarrow> chunk_name = chars ''ISG1'' \<or> chunk_name = chars ''OSG1'' \<or>
     chunk_name = chars ''OSG5'' \<or> chunk_name = chars ''PSG1''"

definition signature_has_min_precision :: "bytes \<Rightarrow> bool" where
  "signature_has_min_precision chunk_name \<longleftrightarrow> chunk_name = chars ''ISG1'' \<or> chunk_name = chars ''OSG1'' \<or> chunk_name = chars ''PSG1''"

definition signature_role_for_chunk :: "bytes \<Rightarrow> signature_role" where
  "signature_role_for_chunk chunk_name =
     (if chunk_name = chars ''ISGN'' \<or> chunk_name = chars ''ISG1'' then SIGNATURE_ROLE_INPUT
      else if chunk_name = chars ''PCSG'' \<or> chunk_name = chars ''PSG1'' then SIGNATURE_ROLE_PATCH_CONSTANT
      else SIGNATURE_ROLE_OUTPUT)"

section \<open>Names\<close>

definition signature_min_precision_is_valid :: "u32 \<Rightarrow> bool" where
  "signature_min_precision_is_valid v \<longleftrightarrow> v = 0 \<or> v = 1 \<or> v = 2 \<or> v = 4 \<or> v = 5 \<or> v = 0xf0 \<or> v = 0xf1"

definition signature_system_value_is_valid :: "u32 \<Rightarrow> bool" where
  "signature_system_value_is_valid v \<longleftrightarrow> v \<in> set [0, 1, 2, 3, 4, 5, 6, 7, 8, 9, 10, 11, 12, 13, 14, 15, 16, 23, 24, 25, 64, 65, 66, 67, 68, 69, 70]"

definition ascii_lower :: "u8 \<Rightarrow> u8" where
  "ascii_lower c = (if c \<ge> 65 \<and> c \<le> 90 then c + 32 else c)"

fun semantic_equals_ascii_case_insensitive :: "bytes \<Rightarrow> bytes \<Rightarrow> (unit, bool) outcome" where
  "semantic_equals_ascii_case_insensitive (a # as) (b # bs) =
     (if a \<noteq> 0 \<and> b \<noteq> 0 then
        if ascii_lower a \<noteq> ascii_lower b then Done False else semantic_equals_ascii_case_insensitive as bs
      else Done (a = 0 \<and> b = 0))"
| "semantic_equals_ascii_case_insensitive _ _ = Fault"

definition system_semantics :: "(nat \<times> string) list" where
  "system_semantics = [(1, ''SV_Position''), (2, ''SV_ClipDistance''), (3, ''SV_CullDistance''), (4, ''SV_RenderTargetArrayIndex''),
     (5, ''SV_ViewportArrayIndex''), (6, ''SV_VertexID''), (7, ''SV_PrimitiveID''), (8, ''SV_InstanceID''), (9, ''SV_IsFrontFace''),
     (10, ''SV_SampleIndex''), (11, ''SV_TessFactor''), (13, ''SV_TessFactor''), (15, ''SV_TessFactor''), (16, ''SV_TessFactor''),
     (12, ''SV_InsideTessFactor''), (14, ''SV_InsideTessFactor''), (23, ''SV_Barycentrics''), (24, ''SV_ShadingRate''),
     (25, ''SV_CullPrimitive''), (64, ''SV_Target''), (65, ''SV_Depth''), (66, ''SV_Coverage''), (67, ''SV_DepthGreaterEqual''),
     (68, ''SV_DepthLessEqual''), (69, ''SV_StencilRef''), (70, ''SV_InnerCoverage'')]"

definition signature_system_semantic :: "u32 \<Rightarrow> string option" where
  "signature_system_semantic v = map_of system_semantics (unat v)"

text \<open>A scan over a list of expected names that returns at the first match.\<close>

fun equals_any :: "bytes \<Rightarrow> string list \<Rightarrow> (unit, bool) outcome" where
  "equals_any semantic [] = Done False"
| "equals_any semantic (e # es) = obind (semantic_equals_ascii_case_insensitive semantic (cstring e)) (\<lambda>eq.
     if eq then Done True else equals_any semantic es)"

definition signature_semantic_is_passthrough_system_value :: "bytes \<Rightarrow> (unit, bool) outcome" where
  "signature_semantic_is_passthrough_system_value semantic =
     equals_any semantic [''SV_VertexID'', ''SV_PrimitiveID'', ''SV_InstanceID'', ''SV_IsFrontFace'']"

definition identifier_start :: "u8 \<Rightarrow> bool" where
  "identifier_start c \<longleftrightarrow> c \<ge> 65 \<and> c \<le> 90 \<or> c \<ge> 97 \<and> c \<le> 122 \<or> c = 95"

definition identifier_char :: "u8 \<Rightarrow> bool" where
  "identifier_char c \<longleftrightarrow> identifier_start c \<or> c \<ge> 48 \<and> c \<le> 57"

fun identifier_rest :: "bytes \<Rightarrow> (unit, bool) outcome" where
  "identifier_rest [] = Fault"
| "identifier_rest (c # cs) = (if c = 0 then Done True else if identifier_char c then identifier_rest cs else Done False)"

fun semantic_is_hlsl_identifier :: "bytes \<Rightarrow> (unit, bool) outcome" where
  "semantic_is_hlsl_identifier [] = Fault"
| "semantic_is_hlsl_identifier (c # cs) = (if c = 0 then Done False else if \<not> identifier_start c then Done False else identifier_rest cs)"

text \<open>\<open>memchr(p, 0, n)\<close>: the index of the first zero among the first \<open>n\<close> bytes, read in order.\<close>

definition memchr0 :: "bytes \<Rightarrow> nat \<Rightarrow> (unit, nat option) outcome" where
  "memchr0 p n = (let k = length (takeWhile (\<lambda>c. c \<noteq> 0) p) in
     if k < n \<and> k < length p then Done (Some k)
     else if n \<le> length p then Done None else Fault)"

section \<open>Elements\<close>

definition dxbc_signature_semantic_name :: "signature_element \<Rightarrow> bytes" where
  "dxbc_signature_semantic_name el = (case se_semantic_name_extended el of Some p \<Rightarrow> p | None \<Rightarrow> se_semantic_name el)"

definition dxbc_signature_element_free :: "signature_element \<Rightarrow> signature_element" where
  "dxbc_signature_element_free el = zero_element"

text \<open>The terminator test: the byte at the recorded length ends an extended name, an inline name ends inside its array.\<close>

definition semantic_terminated :: "signature_element \<Rightarrow> (unit, bool) outcome" where
  "semantic_terminated el = (case se_semantic_name_extended el of
     Some p \<Rightarrow>
       if se_semantic_name_length el = SIZE_MAX then Done False
       else obind (mem (rd8 p (se_semantic_name_length el))) (\<lambda>c.
         if c \<noteq> 0 then Done False
         else obind (memchr0 p (se_semantic_name_length el)) (\<lambda>found. Done (found = None)))
   | None \<Rightarrow> obind (memchr0 (se_semantic_name el) 64) (\<lambda>found. Done (found \<noteq> None)))"

definition semantic_reserved :: "bytes \<Rightarrow> (unit, bool) outcome" where
  "semantic_reserved semantic =
     obind (mem (rd8 semantic 0)) (\<lambda>c0. if ascii_lower c0 \<noteq> of_char (CHR ''s'') then Done False
     else obind (mem (rd8 semantic 1)) (\<lambda>c1. if ascii_lower c1 \<noteq> of_char (CHR ''v'') then Done False
     else obind (mem (rd8 semantic 2)) (\<lambda>c2. Done (c2 = of_char (CHR ''_'')))))"

definition semantic_fits_role :: "bytes \<Rightarrow> u32 \<Rightarrow> signature_role \<Rightarrow> (unit, bool) outcome" where
  "semantic_fits_role semantic system_value role = (case signature_system_semantic system_value of
     Some expected \<Rightarrow> semantic_equals_ascii_case_insensitive semantic (cstring expected)
   | None \<Rightarrow>
       obind (signature_semantic_is_passthrough_system_value semantic) (\<lambda>passthrough.
       if passthrough then Done True
       else obind (equals_any semantic [''SV_Target'', ''SV_Depth'', ''SV_Coverage'', ''SV_DepthGreaterEqual'', ''SV_DepthLessEqual'',
              ''SV_StencilRef'', ''SV_InnerCoverage'']) (\<lambda>implicit.
       if implicit then Done (role \<noteq> SIGNATURE_ROLE_INPUT)
       else obind (semantic_reserved semantic) (\<lambda>reserved. Done (\<not> reserved)))))"

definition dxbc_signature_element_is_valid :: "signature_element \<Rightarrow> signature_role \<Rightarrow> (unit, bool) outcome" where
  "dxbc_signature_element_is_valid el role =
     (if se_component_type el < 1 \<or> se_component_type el > 3 \<or> se_mask el = 0 \<or> se_mask el AND 0xf0 \<noteq> 0 \<or>
         se_rw_mask el AND 0xf0 \<noteq> 0 \<or> se_stream_index el > 3 \<or> se_interpolation_mode el > 7 \<or>
         \<not> signature_min_precision_is_valid (se_min_precision el) \<or> \<not> signature_system_value_is_valid (se_system_value el)
      then Done False
      else if role = SIGNATURE_ROLE_INPUT \<and> (se_rw_mask el AND NOT (se_mask el) \<noteq> 0 \<or> se_stream_index el \<noteq> 0) then Done False
      else if role \<noteq> SIGNATURE_ROLE_INPUT \<and> se_interpolation_mode el \<noteq> 0 then Done False
      else let semantic = dxbc_signature_semantic_name el in
        obind (semantic_is_hlsl_identifier semantic) (\<lambda>identifier.
        if \<not> identifier then Done False
        else obind (semantic_terminated el) (\<lambda>terminated.
        if \<not> terminated then Done False
        else semantic_fits_role semantic (se_system_value el) role)))"

text \<open>\<open>destination\<close> and \<open>source\<close> are different objects.  \<open>Fail ()\<close> is the return value \<open>false\<close>.\<close>

definition dxbc_signature_element_clone :: "unity_common \<Rightarrow> signature_element \<Rightarrow> (unit, signature_element) outcome" where
  "dxbc_signature_element_clone uc source = (case se_semantic_name_extended source of
     None \<Rightarrow> Done source
   | Some p \<Rightarrow>
       if se_semantic_name_length source = SIZE_MAX then Fail ()
       else obind (mem (rd8 p (se_semantic_name_length source))) (\<lambda>c.
         if c \<noteq> 0 then Fail ()
         else if \<not> mem_alloc uc (se_semantic_name_length source + 1) then Fail ()
         else Done (source\<lparr>se_semantic_name_extended := Some (take (se_semantic_name_length source + 1) p)\<rparr>)))"

definition set_signature_semantic_name :: "unity_common \<Rightarrow> signature_element \<Rightarrow> bytes \<Rightarrow> nat \<Rightarrow> (unit, signature_element) outcome" where
  "set_signature_semantic_name uc el name len =
     (if len = SIZE_MAX then Fail ()
      else if length name < len then Fault
      else let el = el\<lparr>se_semantic_name_length := len\<rparr> in
        if len < 64 then Done (el\<lparr>se_semantic_name := take len name @ [0] @ drop (len + 1) (se_semantic_name el)\<rparr>)
        else if \<not> mem_alloc uc (len + 1) then Fail ()
        else Done (el\<lparr>se_semantic_name_extended := Some (take len name @ [0])\<rparr>))"

section \<open>Signature chunks\<close>

text \<open>A \<open>stream_read_uint32\<close> whose failure makes the caller return \<open>false\<close>.\<close>

definition stream_next :: "unity_common \<Rightarrow> byte_stream \<Rightarrow> (unit, u32 \<times> byte_stream) outcome" where
  "stream_next uc stream = (case stream_read_uint32 uc stream of None \<Rightarrow> Fail () | Some r \<Rightarrow> Done r)"

definition read_element_words ::
  "unity_common \<Rightarrow> bool \<Rightarrow> bool \<Rightarrow> byte_stream \<Rightarrow> (unit, signature_element \<times> u32 \<times> u32 \<times> byte_stream) outcome" where
  "read_element_words uc has_stream has_min_precision stream =
     obind (if has_stream then stream_next uc stream else Done (0, stream)) (\<lambda>(stream_index, stream).
     obind (stream_next uc stream) (\<lambda>(name_offset, stream).
     obind (stream_next uc stream) (\<lambda>(semantic_index, stream).
     obind (stream_next uc stream) (\<lambda>(system_value, stream).
     obind (stream_next uc stream) (\<lambda>(component_type, stream).
     obind (stream_next uc stream) (\<lambda>(register_id, stream).
     obind (stream_next uc stream) (\<lambda>(mask_token, stream).
     obind (if has_min_precision
            then obind (stream_next uc stream) (\<lambda>(p, stream). if signature_min_precision_is_valid p then Done (p, stream) else Fail ())
            else Done (0, stream)) (\<lambda>(min_precision, stream).
     Done (zero_element\<lparr>se_stream_index := stream_index, se_semantic_index := semantic_index, se_system_value := system_value,
       se_component_type := component_type, se_register_id := register_id, se_min_precision := min_precision\<rparr>,
       name_offset, mask_token, stream)))))))))"

definition parse_element ::
  "unity_common \<Rightarrow> nat \<Rightarrow> nat \<Rightarrow> bool \<Rightarrow> bool \<Rightarrow> signature_role \<Rightarrow> byte_stream \<Rightarrow> (unit, signature_element \<times> byte_stream) outcome" where
  "parse_element uc chunk_start chunk_end has_stream has_min_precision role stream =
     obind (read_element_words uc has_stream has_min_precision stream) (\<lambda>(el, name_offset, mask_token, stream). let
     el = el\<lparr>se_mask := ucast (mask_token AND 0xff), se_rw_mask := ucast (drop_bit 8 mask_token AND 0xff)\<rparr> in
     if mask_token AND 0xffff0000 \<noteq> 0 \<or> unat name_offset \<ge> chunk_end - chunk_start then Fail ()
     else let
       name = drop (chunk_start + unat name_offset) (bs_data stream);
       available = chunk_end - (chunk_start + unat name_offset) in
     obind (memchr0 name available) (\<lambda>terminator. case terminator of
       None \<Rightarrow> Fail ()
     | Some len \<Rightarrow>
         obind (set_signature_semantic_name uc el name len) (\<lambda>el.
         obind (dxbc_signature_element_is_valid el role) (\<lambda>valid.
         if valid then Done (el, stream) else Fail ()))))"

definition signature_element_size :: "bytes \<Rightarrow> nat" where
  "signature_element_size chunk_name =
     (if signature_is_streamed chunk_name then 4 else 0) + 24 + (if signature_has_min_precision chunk_name then 4 else 0)"

text \<open>One turn of the element loop: the element is written behind the last one and counted.\<close>

definition append_element ::
  "unity_common \<Rightarrow> nat \<Rightarrow> nat \<Rightarrow> bytes \<Rightarrow> nat \<Rightarrow> byte_stream \<times> signature_table \<Rightarrow> (unit, byte_stream \<times> signature_table) outcome" where
  "append_element uc chunk_start chunk_end chunk_name i = (\<lambda>(stream, table).
     if sg_alloc table \<le> sg_count table then Fault
     else obind (parse_element uc chunk_start chunk_end (signature_is_streamed chunk_name) (signature_has_min_precision chunk_name)
            (signature_role_for_chunk chunk_name) stream) (\<lambda>(el, stream).
     Done (stream, table\<lparr>sg_list := Some (take (nat (sg_count table)) (case sg_list table of None \<Rightarrow> [] | Some l \<Rightarrow> l) @ [el]),
                         sg_count := sg_count table + 1\<rparr>)))"

definition parse_signature ::
  "unity_common \<Rightarrow> byte_stream \<Rightarrow> nat \<Rightarrow> nat \<Rightarrow> signature_table \<Rightarrow> bytes \<Rightarrow> (unit, byte_stream \<times> signature_table) outcome" where
  "parse_signature uc stream chunk_start chunk_end table chunk_name =
     obind (stream_next uc stream) (\<lambda>(element_count, stream).
     obind (stream_next uc stream) (\<lambda>(parameter_offset, stream).
     if bs_position stream > chunk_end \<or> sg_count table < 0 \<or> sg_alloc table < sg_count table \<or>
        sg_alloc table > 0 \<and> sg_list table = None \<or> unat parameter_offset > chunk_end - chunk_start \<or>
        chunk_start + unat parameter_offset < bs_position stream \<or>
        unat element_count > (chunk_end - (chunk_start + unat parameter_offset)) div signature_element_size chunk_name \<or>
        int (unat element_count) > int INT_MAX - sg_count table
     then Fail ()
     else (case reserve_array uc (sg_list table = None) (sg_alloc table) (sg_count table + int (unat element_count)) sizeof_signature_element of
       None \<Rightarrow> Fail ()
     | Some alloc \<Rightarrow>
         ofold (append_element uc chunk_start chunk_end chunk_name) [0..<unat element_count]
           (stream\<lparr>bs_position := chunk_start + unat parameter_offset\<rparr>,
            table\<lparr>sg_list := (if alloc = 0 then None else Some (case sg_list table of None \<Rightarrow> [] | Some l \<Rightarrow> l)), sg_alloc := alloc\<rparr>))))"

definition free_signature_list_elements :: "signature_element list option \<Rightarrow> int \<Rightarrow> signature_element list option" where
  "free_signature_list_elements elements count = (case elements of
     None \<Rightarrow> None
   | Some els \<Rightarrow> if count \<le> 0 then Some els
                 else Some (map dxbc_signature_element_free (take (nat count) els) @ drop (nat count) els))"

end
