(* ===== verification/Instruction.thy ===== *)
theory Instruction
  imports Operand Resource_Table Signature Opcode_Tables
begin

text \<open>
  The semantic container (\<open>include/dxbc/dxbc_parser.h\<close>, \<open>DXBCContainer\<close>) and the instruction decoder that fills
  it (\<open>src/dxbc/dxbc_instruction.c\<close>).  The texts of instructions and operands (\<open>opcode_str\<close>, \<open>formatted_asm\<close>,
  \<open>DXBCOperand.text\<close>), which the header declares to be diagnostics, are not part of the model; the texts that
  name a declared resource are.  \<open>Fail ()\<close> is the return value \<open>false\<close>; the caller then releases the container.
\<close>

section \<open>Data\<close>

datatype instruction_test = DXBC_INSTRUCTION_TEST_NONE | DXBC_INSTRUCTION_TEST_ZERO | DXBC_INSTRUCTION_TEST_NONZERO

text \<open>
  \<open>in_operands\<close> holds the first \<open>operand_count\<close> elements of the array \<open>operands\<close>; the elements behind them are
  still zero.
\<close>

record instruction =
  in_is_decl :: bool
  in_opcode :: u32
  in_token :: u32
  in_file_offset :: u32
  in_byte_length :: u32
  in_raw_instruction_index :: u32
  in_has_raw_instruction_index :: bool
  in_is_customdata_continuation :: bool
  in_structured_stride :: int
  in_has_texel_offset :: bool
  in_texel_offsets :: "int list"
  in_has_resource_dimension :: bool
  in_resource_dimension :: u32
  in_has_resource_return_types :: bool
  in_resource_return_types :: "u8 list"
  in_resource_info_return_type :: u8
  in_sample_info_return_type :: u8
  in_saturate :: bool
  in_precise_mask :: u8
  in_condition_test :: instruction_test
  in_has_declaration_system_value :: bool
  in_declaration_system_value :: u32
  in_has_declaration_interpolation :: bool
  in_declaration_interpolation :: u8
  in_operands :: "operand list"

definition zero_instruction :: instruction where
  "zero_instruction = \<lparr>in_is_decl = False, in_opcode = 0, in_token = 0, in_file_offset = 0, in_byte_length = 0,
     in_raw_instruction_index = 0, in_has_raw_instruction_index = False, in_is_customdata_continuation = False,
     in_structured_stride = 0, in_has_texel_offset = False, in_texel_offsets = replicate 3 0, in_has_resource_dimension = False,
     in_resource_dimension = 0, in_has_resource_return_types = False, in_resource_return_types = replicate 4 0,
     in_resource_info_return_type = 0, in_sample_info_return_type = 0, in_saturate = False, in_precise_mask = 0,
     in_condition_test = DXBC_INSTRUCTION_TEST_NONE, in_has_declaration_system_value = False, in_declaration_system_value = 0,
     in_has_declaration_interpolation = False, in_declaration_interpolation = 0, in_operands = []\<rparr>"

text \<open>A growable array: the pointer with the initialised elements, the count and the allocation.\<close>

record chunk_info =
  ci_name :: bytes
  ci_size :: u32
  ci_offset :: u32

record dxbc_container =
  dc_shader_type_model :: string
  dc_program_type :: u32
  dc_major_version :: u8
  dc_minor_version :: u8
  dc_has_executable_program :: bool
  dc_resources :: resource_table
  dc_uavs :: resource_table
  dc_input_signature :: signature_table
  dc_output_signature :: signature_table
  dc_patch_constant_signature :: signature_table
  dc_chunks :: "chunk_info list option"
  dc_chunk_count :: int
  dc_chunk_alloc :: int
  dc_instructions :: "instruction list option"
  dc_instruction_count :: int
  dc_instruction_alloc :: int
  dc_icb_values :: "u32 list option"
  dc_icb_value_count :: int
  dc_icb_value_alloc :: int
  dc_parsed_signature_authority :: bool

abbreviation (input) sizeof_instruction :: nat where "sizeof_instruction \<equiv> 3480"
abbreviation (input) DXBC_MAX_OPERANDS :: nat where "DXBC_MAX_OPERANDS \<equiv> 8"

definition zero_container :: dxbc_container where
  "zero_container = \<lparr>dc_shader_type_model = [], dc_program_type = 0, dc_major_version = 0, dc_minor_version = 0,
     dc_has_executable_program = False, dc_resources = empty_table, dc_uavs = empty_table,
     dc_input_signature = \<lparr>sg_list = None, sg_count = 0, sg_alloc = 0\<rparr>,
     dc_output_signature = \<lparr>sg_list = None, sg_count = 0, sg_alloc = 0\<rparr>,
     dc_patch_constant_signature = \<lparr>sg_list = None, sg_count = 0, sg_alloc = 0\<rparr>,
     dc_chunks = None, dc_chunk_count = 0, dc_chunk_alloc = 0, dc_instructions = None, dc_instruction_count = 0,
     dc_instruction_alloc = 0, dc_icb_values = None, dc_icb_value_count = 0, dc_icb_value_alloc = 0,
     dc_parsed_signature_authority = False\<rparr>"

section \<open>Words and texts\<close>

definition get_ret_type_str :: "u8 \<Rightarrow> string" where
  "get_ret_type_str t = switch_table [(1, ''unorm''), (2, ''snorm''), (3, ''int''), (4, ''uint''), (5, ''float''), (6, ''mixed''),
     (7, ''double''), (8, ''continued''), (9, ''unused'')] ''unknown'' (ucast t)"

definition decode_resource_return_types :: "u32 \<Rightarrow> u8 list option" where
  "decode_resource_return_types token =
     (if token AND 0xffff0000 \<noteq> 0 then None
      else let types = map (\<lambda>component. drop_bit (component * 4) token AND 0xf) [0..<4] in
        if \<exists>type\<in>set types. type = 0 \<or> type > 9 then None else Some (map ucast types))"

text \<open>The text written to a declaration; with four known types it is at most 39 characters and is not truncated.\<close>

definition format_resource_return_types_diagnostic :: "u8 list \<Rightarrow> string" where
  "format_resource_return_types_diagnostic return_types =
     get_ret_type_str (return_types ! 0) @ '','' @ get_ret_type_str (return_types ! 1) @ '','' @
     get_ret_type_str (return_types ! 2) @ '','' @ get_ret_type_str (return_types ! 3)"

definition instruction_read_u32 :: "unity_common \<Rightarrow> byte_stream \<Rightarrow> nat \<Rightarrow> (u32 \<times> byte_stream) option" where
  "instruction_read_u32 uc stream instruction_end =
     (if bs_position stream \<le> instruction_end \<and> instruction_end \<le> length (bs_data stream) \<and> instruction_end - bs_position stream \<ge> 4
      then stream_read_uint32 uc stream else None)"

definition instruction_next :: "unity_common \<Rightarrow> nat \<Rightarrow> byte_stream \<Rightarrow> (unit, u32 \<times> byte_stream) outcome" where
  "instruction_next uc instruction_end stream = (case instruction_read_u32 uc stream instruction_end of None \<Rightarrow> Fail () | Some r \<Rightarrow> Done r)"

definition clear_instruction_operands :: "instruction \<Rightarrow> instruction" where
  "clear_instruction_operands inst = inst\<lparr>in_operands := []\<rparr>"

text \<open>Rejecting an instruction releases its operands; the instruction is not yet counted and nobody reads it again.\<close>

definition reject_instruction :: "(unit, 'a) outcome" where
  "reject_instruction = Fail ()"

section \<open>Operands\<close>

definition append_required_operand ::
  "unity_common \<Rightarrow> nat \<Rightarrow> instruction \<times> byte_stream \<Rightarrow> (unit, instruction \<times> byte_stream) outcome" where
  "append_required_operand uc instruction_end = (\<lambda>(inst, stream).
     if length (in_operands inst) \<ge> DXBC_MAX_OPERANDS then Fail ()
     else obind (on_fail (parse_operand_recursive uc stream instruction_end) (Fail ())) (\<lambda>(op, stream).
       Done (inst\<lparr>in_operands := in_operands inst @ [op]\<rparr>, stream)))"

text \<open>A zeroed operand made into a one-word immediate.\<close>

definition literal_operand :: "u32 \<Rightarrow> operand" where
  "literal_operand v = Operand (zero_head\<lparr>oh_type := OPERAND_TYPE_IMMEDIATE32, oh_imm_value_count := 1, oh_imm_values := [v, 0, 0, 0],
     oh_immediate_word_count := 1, oh_immediate_words := v # replicate 7 0\<rparr>) None None None"

definition append_declaration_literal ::
  "unity_common \<Rightarrow> nat \<Rightarrow> instruction \<times> byte_stream \<Rightarrow> (unit, instruction \<times> byte_stream) outcome" where
  "append_declaration_literal uc instruction_end = (\<lambda>(inst, stream).
     if length (in_operands inst) \<ge> DXBC_MAX_OPERANDS then Fail ()
     else obind (instruction_next uc instruction_end stream) (\<lambda>(v, stream).
       Done (inst\<lparr>in_operands := in_operands inst @ [literal_operand v]\<rparr>, stream)))"

text \<open>The loop over the operands of an instruction ends at the latest with the ninth operand, which is refused.\<close>

primrec append_operands ::
  "nat \<Rightarrow> unity_common \<Rightarrow> nat \<Rightarrow> instruction \<times> byte_stream \<Rightarrow> (unit, instruction \<times> byte_stream) outcome" where
  "append_operands 0 uc instruction_end st = Fault"
| "append_operands (Suc fuel) uc instruction_end st =
     (if bs_position (snd st) < instruction_end
      then obind (append_required_operand uc instruction_end st) (append_operands fuel uc instruction_end)
      else Done st)"

definition declaration_binding_register :: "instruction \<Rightarrow> u32 \<Rightarrow> int option" where
  "declaration_binding_register inst expected_type = (case in_operands inst of
     [op] \<Rightarrow> let h = op_head op in
       if oh_type h \<noteq> expected_type \<or> oh_register_index_dim h \<noteq> 1 \<or> oh_register_index h < 0 \<or> rel_op0 op \<noteq> None \<or>
          \<not> oh_index_has_immediate h ! 0 \<or> oh_index_value_exceeds_int h ! 0 \<or>
          oh_index_values h ! 0 \<noteq> ucast (of_int (oh_register_index h) :: u32)
       then None else Some (oh_register_index h)
   | _ \<Rightarrow> None)"

section \<open>Storage\<close>

definition reserve_instructions :: "unity_common \<Rightarrow> dxbc_container \<Rightarrow> int \<Rightarrow> dxbc_container option" where
  "reserve_instructions uc c required =
     (if required < 0 \<or> dc_instruction_count c < 0 \<or> dc_instruction_alloc c < dc_instruction_count c \<or>
         (dc_instruction_alloc c = 0) \<noteq> (dc_instructions c = None) then None
      else if required \<le> dc_instruction_alloc c then Some c
      else let new_allocation = grow_allocation required (if dc_instruction_alloc c = 0 then 128 else dc_instruction_alloc c) in
        if size_multiply_overflows uc (nat (dc_instruction_alloc c)) sizeof_instruction \<or>
           size_multiply_overflows uc (nat new_allocation) sizeof_instruction then None
        else if \<not> mem_realloc uc (nat (dc_instruction_alloc c) * sizeof_instruction) (nat new_allocation * sizeof_instruction) then None
        else Some (c\<lparr>dc_instructions := Some (case dc_instructions c of None \<Rightarrow> [] | Some xs \<Rightarrow> xs), dc_instruction_alloc := new_allocation\<rparr>))"

definition allocate_immediate_constants :: "unity_common \<Rightarrow> dxbc_container \<Rightarrow> int \<Rightarrow> dxbc_container option" where
  "allocate_immediate_constants uc c dword_count =
     (if dword_count \<le> 0 \<or> dc_icb_value_count c \<noteq> 0 \<or> dc_icb_value_alloc c \<noteq> 0 \<or> dc_icb_values c \<noteq> None \<or>
         size_multiply_overflows uc (nat dword_count) 4 then None
      else if \<not> mem_alloc uc (nat dword_count * 4) then None
      else Some (c\<lparr>dc_icb_values := Some [], dc_icb_value_alloc := dword_count\<rparr>))"

text \<open>A store into the instruction array at \<open>index\<close>, which must lie inside the allocation.\<close>

definition store_instruction :: "int \<Rightarrow> instruction \<Rightarrow> dxbc_container \<Rightarrow> (unit, dxbc_container) outcome" where
  "store_instruction index inst c = (case dc_instructions c of
     None \<Rightarrow> Fault
   | Some xs \<Rightarrow>
       if 0 \<le> index \<and> index < dc_instruction_alloc c \<and> nat index \<le> length xs
       then Done (c\<lparr>dc_instructions := Some (if nat index < length xs then xs[nat index := inst] else xs @ [inst])\<rparr>)
       else Fault)"

text \<open>A declared register gets its entry in one of the two tables and the fields of the declaration.\<close>

definition declare_register ::
  "unity_common \<Rightarrow> bool \<Rightarrow> int \<Rightarrow> (resource_decl \<Rightarrow> resource_decl) \<Rightarrow> dxbc_container \<Rightarrow> (unit, dxbc_container) outcome" where
  "declare_register uc uav register_index fill c =
     obind (dxbc_get_or_add_resource_declaration uc (if uav then dc_uavs c else dc_resources c) register_index) (\<lambda>r. case r of
       None \<Rightarrow> reject_instruction
     | Some (table, k) \<Rightarrow> (case rt_array table of
         None \<Rightarrow> Fault
       | Some ds \<Rightarrow>
           if k < length ds then let table = table\<lparr>rt_array := Some (ds[k := fill (ds ! k)])\<rparr> in
             Done (if uav then c\<lparr>dc_uavs := table\<rparr> else c\<lparr>dc_resources := table\<rparr>)
           else Fault))"


section \<open>The start of an instruction\<close>

definition dxbc_tokenized_instruction_length :: "u32 \<Rightarrow> u32" where
  "dxbc_tokenized_instruction_length token = drop_bit 24 token AND 0x7f"

text \<open>The fields that the opcode token and the position determine.\<close>

definition begin_instruction :: "u32 \<Rightarrow> nat \<Rightarrow> nat \<Rightarrow> u32 \<Rightarrow> instruction" where
  "begin_instruction token start_pos next_inst_pos raw_instruction_index = (let
     opcode = token AND 0x7ff; is_decl = dxbc_opcode_is_declaration opcode in
     zero_instruction\<lparr>in_token := token, in_file_offset := of_nat start_pos, in_byte_length := of_nat (next_inst_pos - start_pos),
       in_raw_instruction_index := raw_instruction_index, in_has_raw_instruction_index := True, in_opcode := opcode,
       in_is_decl := is_decl, in_precise_mask := (if \<not> is_decl \<and> opcode \<noteq> 190 then ucast (drop_bit 19 token AND 0x0f) else 0)\<rparr>)"

definition apply_controls :: "u32 \<Rightarrow> instruction \<Rightarrow> (unit, instruction) outcome" where
  "apply_controls token inst = (let opcode = in_opcode inst in
     if opcode = 53 \<and> drop_bit 11 token AND 0x001fffff \<noteq> 3 then reject_instruction
     else obind
       (if opcode = 61 then
          if drop_bit 11 token AND 0x3 = 3 then reject_instruction
          else Done (inst\<lparr>in_resource_info_return_type := ucast (drop_bit 11 token AND 0x3)\<rparr>)
        else if opcode = 111 then
          if drop_bit 11 token AND 0x3 > 1 then reject_instruction
          else Done (inst\<lparr>in_sample_info_return_type := ucast (drop_bit 11 token AND 0x3)\<rparr>)
        else Done inst) (\<lambda>inst. let
       inst = (if \<not> in_is_decl inst \<and> opcode \<noteq> 190 \<and> token AND 0x2000 \<noteq> 0 then inst\<lparr>in_saturate := True\<rparr> else inst) in
       Done (if opcode = 31 \<or> opcode = 3 \<or> opcode = 8 \<or> opcode = 13
             then inst\<lparr>in_condition_test := (if token AND 0x40000 \<noteq> 0 then DXBC_INSTRUCTION_TEST_NONZERO else DXBC_INSTRUCTION_TEST_ZERO)\<rparr>
             else inst)))"

definition signed_nibble :: "u32 \<Rightarrow> int" where
  "signed_nibble v = (if v \<ge> 8 then int (unat v) - 16 else int (unat v))"

definition apply_opcode_extension :: "u32 \<Rightarrow> instruction \<Rightarrow> (unit, instruction) outcome" where
  "apply_opcode_extension ext inst = (let data = ext AND 0x7fffffff; extType = data AND 0x3f in
     if extType = 1 then
       if in_has_texel_offset inst then reject_instruction
       else Done (inst\<lparr>in_has_texel_offset := True, in_texel_offsets := [signed_nibble (drop_bit 9 data AND 0xf),
              signed_nibble (drop_bit 13 data AND 0xf), signed_nibble (drop_bit 17 data AND 0xf)]\<rparr>)
     else if extType = 2 then
       if in_has_resource_dimension inst then reject_instruction
       else let dim = drop_bit 6 data AND 0x1f in
         if dim < 1 \<or> dim > 12 then reject_instruction
         else Done (inst\<lparr>in_has_resource_dimension := True, in_resource_dimension := dim,
                in_structured_stride := int (unat (drop_bit 11 data AND 0xfff))\<rparr>)
     else if extType = 3 then
       if in_has_resource_return_types inst then reject_instruction
       else (case decode_resource_return_types (drop_bit 6 data) of
         None \<Rightarrow> reject_instruction
       | Some types \<Rightarrow> Done (inst\<lparr>in_resource_return_types := types, in_has_resource_return_types := True\<rparr>))
     else reject_instruction)"

text \<open>Each round reads one word below the end of the instruction, so the bytes up to it are enough fuel.\<close>

primrec read_opcode_extensions ::
  "nat \<Rightarrow> unity_common \<Rightarrow> nat \<Rightarrow> instruction \<times> byte_stream \<Rightarrow> (unit, instruction \<times> byte_stream) outcome" where
  "read_opcode_extensions 0 uc next_inst_pos st = Fault"
| "read_opcode_extensions (Suc fuel) uc next_inst_pos st = (case st of (inst, stream) \<Rightarrow>
     obind (instruction_next uc next_inst_pos stream) (\<lambda>(ext, stream).
     obind (apply_opcode_extension ext inst) (\<lambda>inst.
     if ext AND 0x80000000 \<noteq> 0 then read_opcode_extensions fuel uc next_inst_pos (inst, stream) else Done (inst, stream))))"

section \<open>Declarations\<close>

text \<open>The state a declaration works on: its instruction, the stream and the container.\<close>

type_synonym decode_state = "instruction \<times> byte_stream \<times> dxbc_container"
type_synonym decl_handler = "unity_common \<Rightarrow> u32 \<Rightarrow> nat \<Rightarrow> decode_state \<Rightarrow> (unit, decode_state) outcome"

definition with_operand :: "unity_common \<Rightarrow> nat \<Rightarrow> decode_state \<Rightarrow> (unit, decode_state) outcome" where
  "with_operand uc next_inst_pos = (\<lambda>(inst, stream, c).
     obind (append_required_operand uc next_inst_pos (inst, stream)) (\<lambda>(inst, stream). Done (inst, stream, c)))"

definition with_literal :: "unity_common \<Rightarrow> nat \<Rightarrow> decode_state \<Rightarrow> (unit, decode_state) outcome" where
  "with_literal uc next_inst_pos = (\<lambda>(inst, stream, c).
     obind (append_declaration_literal uc next_inst_pos (inst, stream)) (\<lambda>(inst, stream). Done (inst, stream, c)))"

definition dcl_thread_group :: decl_handler where
  "dcl_thread_group uc token next_inst_pos st =
     (if token AND 0x80fff800 \<noteq> 0 then reject_instruction
      else obind (with_literal uc next_inst_pos st) (\<lambda>st.
           obind (with_literal uc next_inst_pos st) (with_literal uc next_inst_pos)))"

definition dcl_shared_memory :: decl_handler where
  "dcl_shared_memory uc token next_inst_pos st =
     (if token AND 0x80fff800 \<noteq> 0 then reject_instruction
      else obind (with_operand uc next_inst_pos st) (\<lambda>st.
        if declaration_binding_register (fst st) OPERAND_TYPE_THREAD_GROUP_SHARED_MEMORY = None then reject_instruction
        else obind (with_literal uc next_inst_pos st) (\<lambda>st.
          if token AND 0x7ff = 160 then with_literal uc next_inst_pos st else Done st)))"

definition dcl_sync :: decl_handler where
  "dcl_sync uc token next_inst_pos st = (if token AND 0x80ff8000 \<noteq> 0 then reject_instruction else Done st)"

definition dcl_constant_buffer :: decl_handler where
  "dcl_constant_buffer uc token next_inst_pos st =
     (if token AND 0x80fff000 \<noteq> 0 then reject_instruction else with_operand uc next_inst_pos st)"

definition dcl_sampler :: decl_handler where
  "dcl_sampler uc token next_inst_pos st =
     (if token AND 0x80ff8000 \<noteq> 0 then reject_instruction
      else obind (with_operand uc next_inst_pos st) (\<lambda>st.
        if drop_bit 11 token AND 0xf > 2 then reject_instruction else Done st))"

definition dcl_resource :: decl_handler where
  "dcl_resource uc token next_inst_pos st =
     obind (with_operand uc next_inst_pos st) (\<lambda>(inst, stream, c).
     case declaration_binding_register inst OPERAND_TYPE_RESOURCE of
       None \<Rightarrow> reject_instruction
     | Some reg_idx \<Rightarrow>
       obind (instruction_next uc next_inst_pos stream) (\<lambda>(ret_type_token, stream). let
         dim = drop_bit 11 token AND 0x1f; sample_count = drop_bit 16 token AND 0x7f; multisampled = (dim = 4 \<or> dim = 9) in
       if dim < 1 \<or> dim > 10 \<or> (if multisampled then token AND 0x00800000 \<noteq> 0 else token AND 0x00ff0000 \<noteq> 0) then reject_instruction
       else (case decode_resource_return_types ret_type_token of
         None \<Rightarrow> reject_instruction
       | Some return_types \<Rightarrow>
         obind (declare_register uc False reg_idx (\<lambda>res. res\<lparr>rd_dim_name := dxbc_resource_dim_name dim,
             rd_ret_types := format_resource_return_types_diagnostic return_types, rd_dimension := dim, rd_return_types := return_types,
             rd_sample_count := (if multisampled then sample_count else 0), rd_is_structured := False, rd_declared := True\<rparr>) c) (\<lambda>c.
         Done (inst, stream, c)))))"

definition dcl_uav_typed :: decl_handler where
  "dcl_uav_typed uc token next_inst_pos st =
     (if token AND 0x00fc0000 \<noteq> 0 then reject_instruction
      else obind (with_operand uc next_inst_pos st) (\<lambda>(inst, stream, c).
      case declaration_binding_register inst OPERAND_TYPE_UAV of
        None \<Rightarrow> reject_instruction
      | Some reg_idx \<Rightarrow>
        obind (instruction_next uc next_inst_pos stream) (\<lambda>(ret_type_token, stream). let dim = drop_bit 11 token AND 0x1f in
        if dim \<noteq> 1 \<and> dim \<noteq> 2 \<and> dim \<noteq> 3 \<and> dim \<noteq> 5 \<and> dim \<noteq> 7 \<and> dim \<noteq> 8 then reject_instruction
        else (case decode_resource_return_types ret_type_token of
          None \<Rightarrow> reject_instruction
        | Some return_types \<Rightarrow>
          obind (declare_register uc True reg_idx (\<lambda>res. res\<lparr>rd_dim_name := dxbc_resource_dim_name dim,
              rd_ret_types := format_resource_return_types_diagnostic return_types, rd_dimension := dim, rd_return_types := return_types,
              rd_is_structured := False, rd_globally_coherent := token AND 0x00010000 \<noteq> 0,
              rd_rasterizer_ordered := token AND 0x00020000 \<noteq> 0, rd_declared := True\<rparr>) c) (\<lambda>c.
          Done (inst, stream, c))))))"

definition dcl_uav_raw :: decl_handler where
  "dcl_uav_raw uc token next_inst_pos st =
     (if token AND 0x00fcf800 \<noteq> 0 then reject_instruction
      else obind (with_operand uc next_inst_pos st) (\<lambda>(inst, stream, c).
      case declaration_binding_register inst OPERAND_TYPE_UAV of
        None \<Rightarrow> reject_instruction
      | Some reg_idx \<Rightarrow>
        obind (declare_register uc True reg_idx (\<lambda>res. res\<lparr>rd_dim_name := ''raw_buffer'', rd_dimension := 11,
            rd_globally_coherent := token AND 0x00010000 \<noteq> 0, rd_rasterizer_ordered := token AND 0x00020000 \<noteq> 0, rd_declared := True\<rparr>) c) (\<lambda>c.
        Done (inst, stream, c))))"

definition dcl_resource_raw :: decl_handler where
  "dcl_resource_raw uc token next_inst_pos st =
     (if token AND 0x00fff800 \<noteq> 0 then reject_instruction
      else obind (with_operand uc next_inst_pos st) (\<lambda>(inst, stream, c).
      case declaration_binding_register inst OPERAND_TYPE_RESOURCE of
        None \<Rightarrow> reject_instruction
      | Some reg_idx \<Rightarrow>
        obind (declare_register uc False reg_idx (\<lambda>res. res\<lparr>rd_dim_name := ''raw_buffer'', rd_dimension := 11, rd_declared := True\<rparr>) c) (\<lambda>c.
        Done (inst, stream, c))))"

text \<open>The stride word of a structured declaration; the second operand only carries the text of the stride.\<close>

definition structured_stride :: "unity_common \<Rightarrow> nat \<Rightarrow> instruction \<times> byte_stream \<Rightarrow> (unit, instruction \<times> byte_stream) outcome" where
  "structured_stride uc next_inst_pos = (\<lambda>(inst, stream).
     obind (instruction_next uc next_inst_pos stream) (\<lambda>(stride_val, stream).
     if stride_val = 0 \<or> stride_val AND 3 \<noteq> 0 \<or> unat stride_val > INT_MAX then reject_instruction
     else Done (inst\<lparr>in_structured_stride := int (unat stride_val), in_operands := in_operands inst @ [zero_operand]\<rparr>, stream)))"

definition dcl_resource_structured :: decl_handler where
  "dcl_resource_structured uc token next_inst_pos st =
     (if token AND 0x00fff800 \<noteq> 0 then reject_instruction
      else obind (with_operand uc next_inst_pos st) (\<lambda>(inst, stream, c).
      case declaration_binding_register inst OPERAND_TYPE_RESOURCE of
        None \<Rightarrow> reject_instruction
      | Some reg_idx \<Rightarrow>
        obind (structured_stride uc next_inst_pos (inst, stream)) (\<lambda>(inst, stream).
        obind (declare_register uc False reg_idx (\<lambda>res. res\<lparr>rd_dim_name := ''structured_buffer'', rd_dimension := 12,
            rd_stride := of_int (in_structured_stride inst), rd_is_structured := True, rd_declared := True\<rparr>) c) (\<lambda>c.
        Done (inst, stream, c)))))"

definition dcl_uav_structured :: decl_handler where
  "dcl_uav_structured uc token next_inst_pos st =
     (if token AND 0x007cf800 \<noteq> 0 then reject_instruction
      else obind (with_operand uc next_inst_pos st) (\<lambda>(inst, stream, c).
      case declaration_binding_register inst OPERAND_TYPE_UAV of
        None \<Rightarrow> reject_instruction
      | Some reg_idx \<Rightarrow>
        obind (structured_stride uc next_inst_pos (inst, stream)) (\<lambda>(inst, stream).
        obind (declare_register uc True reg_idx (\<lambda>res. res\<lparr>rd_dim_name := ''structured_buffer'', rd_dimension := 12,
            rd_stride := of_int (in_structured_stride inst), rd_is_structured := True,
            rd_globally_coherent := token AND 0x00010000 \<noteq> 0, rd_rasterizer_ordered := token AND 0x00020000 \<noteq> 0,
            rd_has_order_preserving_counter := token AND 0x00800000 \<noteq> 0, rd_declared := True\<rparr>) c) (\<lambda>c.
        Done (inst, stream, c)))))"

definition dcl_index_range :: decl_handler where
  "dcl_index_range uc token next_inst_pos st =
     obind (with_operand uc next_inst_pos st) (\<lambda>(inst, stream, c).
     obind (instruction_next uc next_inst_pos stream) (\<lambda>(register_count, stream).
     if register_count = 0 \<or> unat register_count > INT_MAX then reject_instruction
     else Done (inst\<lparr>in_operands := in_operands inst @ [literal_operand register_count]\<rparr>, stream, c)))"

definition dcl_token_only :: decl_handler where
  "dcl_token_only uc token next_inst_pos = (\<lambda>(inst, stream, c).
     if bs_position stream \<noteq> next_inst_pos then reject_instruction else Done (inst, stream, c))"

definition dcl_scalar :: decl_handler where
  "dcl_scalar uc token next_inst_pos = (\<lambda>(inst, stream, c). let opcode = token AND 0x7ff in
     obind (instruction_next uc next_inst_pos stream) (\<lambda>(scalar, stream).
     if (opcode = 153 \<or> opcode = 154) \<and> scalar = 0 \<or> opcode = 206 \<and> (scalar = 0 \<or> scalar > 32) then reject_instruction
     else Done (inst\<lparr>in_operands := [literal_operand scalar]\<rparr>, stream, c)))"

text \<open>An operand of which only the register index is set.\<close>

definition register_operand :: "u32 \<Rightarrow> operand" where
  "register_operand v = Operand (zero_head\<lparr>oh_register_index := int (unat v)\<rparr>) None None None"

definition dcl_temps :: decl_handler where
  "dcl_temps uc token next_inst_pos = (\<lambda>(inst, stream, c).
     obind (instruction_next uc next_inst_pos stream) (\<lambda>(num_temps, stream).
     if unat num_temps > INT_MAX then reject_instruction
     else Done (inst\<lparr>in_operands := [register_operand num_temps]\<rparr>, stream, c)))"

definition dcl_indexable_temp :: decl_handler where
  "dcl_indexable_temp uc token next_inst_pos = (\<lambda>(inst, stream, c).
     obind (instruction_next uc next_inst_pos stream) (\<lambda>(reg_idx, stream).
     obind (instruction_next uc next_inst_pos stream) (\<lambda>(reg_count, stream).
     obind (instruction_next uc next_inst_pos stream) (\<lambda>(comp_count, stream).
     if unat reg_idx > INT_MAX \<or> unat reg_count > INT_MAX \<or> unat comp_count > INT_MAX then reject_instruction
     else Done (inst\<lparr>in_operands := [Operand (zero_head\<lparr>oh_type := OPERAND_TYPE_INDEXABLE_TEMP, oh_register_index := int (unat reg_idx),
            oh_rel_offset1 := int (unat reg_count)\<rparr>) None None None, register_operand comp_count]\<rparr>, stream, c)))))"

text \<open>The operand of the following declarations only carries a text.\<close>

definition dcl_input_primitive :: decl_handler where
  "dcl_input_primitive uc token next_inst_pos = (\<lambda>(inst, stream, c). let prim = drop_bit 11 token AND 0x3f in
     Done (if prim \<in> {1, 2, 3, 6, 7} \<or> prim \<ge> 8 \<and> prim \<le> 39 then inst\<lparr>in_operands := [zero_operand]\<rparr> else inst, stream, c))"

definition dcl_output_topology :: decl_handler where
  "dcl_output_topology uc token next_inst_pos = (\<lambda>(inst, stream, c). let topo = drop_bit 11 token AND 0x3f in
     Done (if topo \<in> {1, 2, 3, 4, 5, 10, 11, 12, 13} then inst\<lparr>in_operands := [zero_operand]\<rparr> else inst, stream, c))"

definition dcl_max_out :: decl_handler where
  "dcl_max_out uc token next_inst_pos = (\<lambda>(inst, stream, c).
     obind (instruction_next uc next_inst_pos stream) (\<lambda>(max_out, stream). Done (inst\<lparr>in_operands := [zero_operand]\<rparr>, stream, c)))"

definition dcl_global_flags :: decl_handler where
  "dcl_global_flags uc token next_inst_pos = (\<lambda>(inst, stream, c). let flags = drop_bit 11 token AND 0x1fff in
     if flags AND NOT 0x1ff \<noteq> 0 then reject_instruction
     else Done (inst\<lparr>in_operands := (if flags \<noteq> 0 then [zero_operand] else [])\<rparr>, stream, c))"

definition dcl_plain :: decl_handler where
  "dcl_plain uc token next_inst_pos st = (if token AND 0x80fff800 \<noteq> 0 then reject_instruction else with_operand uc next_inst_pos st)"

definition set_interpolation :: "u32 \<Rightarrow> instruction \<Rightarrow> (unit, instruction) outcome" where
  "set_interpolation token inst = (let interp = drop_bit 11 token AND 0x1f in
     if interp > 7 then reject_instruction
     else Done (inst\<lparr>in_has_declaration_interpolation := True, in_declaration_interpolation := ucast interp\<rparr>))"

definition dcl_system_value :: decl_handler where
  "dcl_system_value uc token next_inst_pos st = (let opcode = token AND 0x7ff; has_interpolation = (opcode = 99 \<or> opcode = 100) in
     if token AND (if has_interpolation then 0x80ff8000 else 0x80fff800) \<noteq> 0 then reject_instruction
     else obind (with_operand uc next_inst_pos st) (\<lambda>(inst, stream, c).
     obind (instruction_next uc next_inst_pos stream) (\<lambda>(sv_id, stream).
     if sv_id AND 0xffff0000 \<noteq> 0 \<or> sv_id = 0 \<or> sv_id > 25 then reject_instruction
     else let inst = inst\<lparr>in_has_declaration_system_value := True, in_declaration_system_value := sv_id,
                          in_operands := in_operands inst @ [zero_operand]\<rparr> in
     obind (if has_interpolation then set_interpolation token inst else Done inst) (\<lambda>inst.
     Done (inst, stream, c)))))"

definition dcl_input_ps :: decl_handler where
  "dcl_input_ps uc token next_inst_pos st =
     (if token AND 0x80ff8000 \<noteq> 0 then reject_instruction
      else obind (with_operand uc next_inst_pos st) (\<lambda>(inst, stream, c).
           obind (set_interpolation token inst) (\<lambda>inst. Done (inst, stream, c))))"

section \<open>Immediate constant buffers\<close>

definition continuation_row :: "instruction \<Rightarrow> instruction" where
  "continuation_row inst = zero_instruction\<lparr>in_token := in_token inst, in_opcode := in_opcode inst, in_is_decl := True,
     in_file_offset := in_file_offset inst, in_byte_length := in_byte_length inst, in_raw_instruction_index := in_raw_instruction_index inst,
     in_has_raw_instruction_index := True, in_is_customdata_continuation := True\<rparr>"

text \<open>\<open>container->icb_values[container->icb_value_count++] = value\<close>\<close>

definition push_icb_value :: "u32 \<Rightarrow> dxbc_container \<Rightarrow> (unit, dxbc_container) outcome" where
  "push_icb_value v c = (case dc_icb_values c of
     None \<Rightarrow> Fault
   | Some vs \<Rightarrow>
       if 0 \<le> dc_icb_value_count c \<and> dc_icb_value_count c < dc_icb_value_alloc c
       then Done (c\<lparr>dc_icb_values := Some (take (nat (dc_icb_value_count c)) vs @ [v]), dc_icb_value_count := dc_icb_value_count c + 1\<rparr>)
       else Fault)"

definition read_icb_value :: "unity_common \<Rightarrow> nat \<Rightarrow> nat \<Rightarrow> byte_stream \<times> dxbc_container \<Rightarrow> (unit, byte_stream \<times> dxbc_container) outcome" where
  "read_icb_value uc next_inst_pos component = (\<lambda>(stream, c).
     obind (instruction_next uc next_inst_pos stream) (\<lambda>(v, stream).
     obind (push_icb_value v c) (\<lambda>c. Done (stream, c))))"

text \<open>One vector: four words, and from the second vector on a continuation row in the next instruction slot.\<close>

definition read_icb_vector ::
  "unity_common \<Rightarrow> nat \<Rightarrow> instruction \<Rightarrow> nat \<Rightarrow> byte_stream \<times> dxbc_container \<Rightarrow> (unit, byte_stream \<times> dxbc_container) outcome" where
  "read_icb_vector uc next_inst_pos inst v st =
     obind (ofold (read_icb_value uc next_inst_pos) [0..<4] st) (\<lambda>(stream, c).
     if v = 0 then Done (stream, c)
     else obind (store_instruction (dc_instruction_count c + 1) (continuation_row inst) (c\<lparr>dc_instruction_count := dc_instruction_count c + 1\<rparr>)) (\<lambda>c.
       Done (stream, c)))"

definition dcl_immediate_constant_buffer :: decl_handler where
  "dcl_immediate_constant_buffer uc token next_inst_pos = (\<lambda>(inst, stream, c). let data_bytes = next_inst_pos - bs_position stream in
     if data_bytes = 0 \<or> data_bytes mod 16 \<noteq> 0 \<or> data_bytes div 4 > INT_MAX then reject_instruction
     else let dword_count = int (data_bytes div 4); vector_count = dword_count div 4 in
     case allocate_immediate_constants uc c dword_count of
       None \<Rightarrow> reject_instruction
     | Some c \<Rightarrow>
       if vector_count > int INT_MAX - dc_instruction_count c then reject_instruction
       else (case reserve_instructions uc c (dc_instruction_count c + vector_count) of
         None \<Rightarrow> reject_instruction
       | Some c \<Rightarrow> let inst = inst\<lparr>in_is_decl := True\<rparr> in
         obind (ofold (read_icb_vector uc next_inst_pos inst) [0..<nat vector_count] (stream, c\<lparr>dc_icb_value_count := 0\<rparr>)) (\<lambda>(stream, c).
         Done (inst, stream, c))))"

section \<open>One instruction\<close>

definition generic_operands :: decl_handler where
  "generic_operands uc token next_inst_pos = (\<lambda>(inst, stream, c).
     obind (append_operands (Suc DXBC_MAX_OPERANDS) uc next_inst_pos (inst\<lparr>in_operands := []\<rparr>, stream)) (\<lambda>(inst, stream).
     Done (inst, stream, c)))"

definition decode_payload :: decl_handler where
  "decode_payload uc token next_inst_pos st = (let opcode = token AND 0x7ff in
     if opcode = 155 then dcl_thread_group uc token next_inst_pos st
     else if opcode = 159 \<or> opcode = 160 then dcl_shared_memory uc token next_inst_pos st
     else if opcode = 190 then dcl_sync uc token next_inst_pos st
     else if opcode = 53 then dcl_immediate_constant_buffer uc token next_inst_pos st
     else if opcode = 89 then dcl_constant_buffer uc token next_inst_pos st
     else if opcode = 90 then dcl_sampler uc token next_inst_pos st
     else if opcode = 88 then dcl_resource uc token next_inst_pos st
     else if opcode = 156 then dcl_uav_typed uc token next_inst_pos st
     else if opcode = 157 then dcl_uav_raw uc token next_inst_pos st
     else if opcode = 161 then dcl_resource_raw uc token next_inst_pos st
     else if opcode = 162 then dcl_resource_structured uc token next_inst_pos st
     else if opcode = 158 then dcl_uav_structured uc token next_inst_pos st
     else if opcode = 91 then dcl_index_range uc token next_inst_pos st
     else if opcode \<ge> 113 \<and> opcode \<le> 116 \<or> opcode \<ge> 147 \<and> opcode \<le> 151 then dcl_token_only uc token next_inst_pos st
     else if opcode \<ge> 152 \<and> opcode \<le> 154 \<or> opcode = 206 then dcl_scalar uc token next_inst_pos st
     else if opcode = 104 then dcl_temps uc token next_inst_pos st
     else if opcode = 105 then dcl_indexable_temp uc token next_inst_pos st
     else if opcode = 93 then dcl_input_primitive uc token next_inst_pos st
     else if opcode = 92 then dcl_output_topology uc token next_inst_pos st
     else if opcode = 94 then dcl_max_out uc token next_inst_pos st
     else if opcode = 106 then dcl_global_flags uc token next_inst_pos st
     else if opcode = 95 \<or> opcode = 101 then dcl_plain uc token next_inst_pos st
     else if opcode = 96 \<or> opcode = 97 \<or> opcode = 99 \<or> opcode = 100 \<or> opcode = 102 \<or> opcode = 103 then dcl_system_value uc token next_inst_pos st
     else if opcode = 98 then dcl_input_ps uc token next_inst_pos st
     else generic_operands uc token next_inst_pos st)"

text \<open>The token and the length word: the position behind the instruction, computed in 32 bits as in the source.\<close>

definition read_instruction_extent :: "unity_common \<Rightarrow> nat \<Rightarrow> byte_stream \<Rightarrow> (unit, u32 \<times> nat \<times> byte_stream) outcome" where
  "read_instruction_extent uc end_pos stream = (let start_pos = bs_position stream in
     obind (instruction_next uc end_pos stream) (\<lambda>(token, stream). let
       opcode = token AND 0x7ff; inst_len = dxbc_tokenized_instruction_length token in
     obind (if opcode = 53 then instruction_next uc end_pos stream
            else if inst_len = 0 then Fail () else Done (inst_len, stream)) (\<lambda>(inst_len, stream).
     if inst_len = 0 \<or> unat inst_len > (end_pos - start_pos) div 4 then Fail ()
     else let next_inst_pos = start_pos + unat (inst_len * 4) in
       if next_inst_pos < bs_position stream then Fail () else Done (token, next_inst_pos, stream))))"

definition decode_instruction ::
  "unity_common \<Rightarrow> nat \<Rightarrow> u32 \<Rightarrow> byte_stream \<times> dxbc_container \<Rightarrow> (unit, byte_stream \<times> dxbc_container) outcome" where
  "decode_instruction uc end_pos raw_instruction_index = (\<lambda>(stream, c). let start_pos = bs_position stream in
     obind (read_instruction_extent uc end_pos stream) (\<lambda>(token, next_inst_pos, stream).
     if dc_instruction_count c = int INT_MAX then Fail ()
     else (case reserve_instructions uc c (dc_instruction_count c + 1) of
       None \<Rightarrow> Fail ()
     | Some c \<Rightarrow> let current_instruction_index = dc_instruction_count c in
       obind (store_instruction current_instruction_index zero_instruction c) (\<lambda>c.
       obind (apply_controls token (begin_instruction token start_pos next_inst_pos raw_instruction_index)) (\<lambda>inst.
       obind (if token AND 0x80000000 \<noteq> 0
              then read_opcode_extensions (Suc (next_inst_pos - bs_position stream)) uc next_inst_pos (inst, stream)
              else Done (inst, stream)) (\<lambda>(inst, stream).
       obind (decode_payload uc token next_inst_pos (inst, stream, c)) (\<lambda>(inst, stream, c).
       if bs_position stream \<noteq> next_inst_pos then reject_instruction
       else obind (store_instruction current_instruction_index inst c) (\<lambda>c.
         Done (stream\<lparr>bs_position := next_inst_pos\<rparr>, c\<lparr>dc_instruction_count := dc_instruction_count c + 1\<rparr>)))))))))"

text \<open>Every instruction moves the stream forward, so the bytes up to the end of the program are enough fuel.\<close>

primrec decode_instructions ::
  "nat \<Rightarrow> unity_common \<Rightarrow> nat \<Rightarrow> u32 \<Rightarrow> byte_stream \<times> dxbc_container \<Rightarrow> (unit, byte_stream \<times> dxbc_container) outcome" where
  "decode_instructions 0 uc end_pos raw_instruction_index st = Fault"
| "decode_instructions (Suc fuel) uc end_pos raw_instruction_index st =
     (if bs_position (fst st) < end_pos
      then obind (decode_instruction uc end_pos raw_instruction_index st) (decode_instructions fuel uc end_pos (raw_instruction_index + 1))
      else Done st)"

section \<open>Programs\<close>

text \<open>The versions the parser accepts, on the fields of the version token.\<close>

definition version_accepted :: "u32 \<Rightarrow> bool" where
  "version_accepted version_token = (let
     type = drop_bit 16 version_token; major = ucast (drop_bit 4 version_token AND 0xf) :: u8; minor = ucast (version_token AND 0xf) :: u8 in
     \<not> (version_token AND 0x0000ff00 \<noteq> 0 \<or> type > 5 \<or> major \<noteq> 4 \<and> major \<noteq> 5 \<or> major = 4 \<and> minor > 1 \<or> major = 5 \<and> minor \<noteq> 0 \<or>
        (type = 3 \<or> type = 4) \<and> major \<noteq> 5))"

text \<open>The text of the shader model; both numbers have one digit.\<close>

definition shader_model_text :: "u32 \<Rightarrow> u8 \<Rightarrow> u8 \<Rightarrow> string" where
  "shader_model_text type major minor =
     switch_table [(0, ''ps''), (1, ''vs''), (2, ''gs''), (3, ''hs''), (4, ''ds''), (5, ''cs'')] ''unk'' type @ ''_'' @
     [char_of (48 + unat major)] @ ''_'' @ [char_of (48 + unat minor)]"

definition parse_shader_logic ::
  "unity_common \<Rightarrow> byte_stream \<Rightarrow> nat \<Rightarrow> dxbc_container \<Rightarrow> (unit, byte_stream \<times> dxbc_container) outcome" where
  "parse_shader_logic uc stream next_pos c =
     (if next_pos > length (bs_data stream) then Fail ()
      else obind (instruction_next uc next_pos stream) (\<lambda>(version_token, stream).
      obind (instruction_next uc next_pos stream) (\<lambda>(len, stream).
      if len < 2 then Fail ()
      else let
        type = drop_bit 16 version_token; major = ucast (drop_bit 4 version_token AND 0xf); minor = ucast (version_token AND 0xf) in
      if \<not> version_accepted version_token then Fail ()
      else let c = c\<lparr>dc_shader_type_model := shader_model_text type major minor\<rparr> in
      if bs_position stream > next_pos then Fail ()
      else let instruction_bytes = unat (len - 2) * 4 in
      if instruction_bytes \<noteq> next_pos - bs_position stream then Fail ()
      else let end_pos = bs_position stream + instruction_bytes in
      obind (decode_instructions (Suc instruction_bytes) uc end_pos 0 (stream, c)) (\<lambda>(stream, c).
      if bs_position stream \<noteq> end_pos then Fail ()
      else Done (stream, c\<lparr>dc_program_type := type, dc_major_version := major, dc_minor_version := minor, dc_has_executable_program := True\<rparr>)))))"

end
