(* ===== verification/Dxbc_Parse.thy ===== *)
theory Dxbc_Parse
  imports Instruction Container_View Dxbc_Hash
begin

text \<open>
  The semantic parser of a container (\<open>src/dxbc/dxbc_parser.c\<close>, \<open>dxbc_parse\<close> and \<open>dxbc_free\<close>): the header, the chunk
  table, the signature chunks and then the executable chunks.  \<open>Fail c\<close> is the return value \<open>false\<close> with the container
  \<open>c\<close> that the call leaves behind.  \<open>c_malloc\<close> tells whether \<open>malloc\<close> returns storage, \<open>stack\<close> is the uninitialised buffer
  of the checksum routine.
\<close>

definition range_within :: "nat \<Rightarrow> nat \<Rightarrow> nat \<Rightarrow> bool" where
  "range_within offset len sz \<longleftrightarrow> offset \<le> sz \<and> len \<le> sz - offset"

abbreviation (input) DXBC_PROGRAM_TYPE_INVALID :: u32 where "DXBC_PROGRAM_TYPE_INVALID \<equiv> 0xffff"

text \<open>The container before any chunk is read.\<close>

definition fresh_container :: dxbc_container where
  "fresh_container = zero_container\<lparr>dc_program_type := DXBC_PROGRAM_TYPE_INVALID\<rparr>"

text \<open>
  Releasing a container reads the operand counts of the counted instructions and clears everything.
\<close>

definition dxbc_free :: "dxbc_container \<Rightarrow> (unit, dxbc_container) outcome" where
  "dxbc_free c = (case dc_instructions c of
     None \<Rightarrow> Done zero_container
   | Some xs \<Rightarrow> if nat (dc_instruction_count c) \<le> length xs then Done zero_container else Fault)"

section \<open>Header and chunk table\<close>

definition stream_bytes :: "unity_common \<Rightarrow> nat \<Rightarrow> byte_stream \<Rightarrow> (unit, bytes \<times> byte_stream) outcome" where
  "stream_bytes uc n stream = (case stream_read_bytes uc stream n of None \<Rightarrow> Fail () | Some r \<Rightarrow> Done r)"

definition read_header :: "unity_common \<Rightarrow> nat \<Rightarrow> byte_stream \<Rightarrow> (unit, u32 \<times> u32 \<times> byte_stream) outcome" where
  "read_header uc available stream =
     obind (stream_next uc stream) (\<lambda>(magic, stream). if magic \<noteq> 0x43425844 then Fail () else
     obind (stream_bytes uc 16 stream) (\<lambda>(hash, stream).
     obind (stream_next uc stream) (\<lambda>(version, stream). if version \<noteq> 1 then Fail () else
     obind (stream_next uc stream) (\<lambda>(total_size, stream). if unat total_size \<noteq> available \<or> unat total_size < DXBC_HEADER_SIZE then Fail () else
     obind (stream_next uc stream) (\<lambda>(chunk_count, stream).
     if unat chunk_count > (unat total_size - DXBC_HEADER_SIZE) div 4 \<or> unat chunk_count > INT_MAX then Fail ()
     else Done (total_size, chunk_count, stream))))))"

definition read_offset :: "unity_common \<Rightarrow> u32 \<Rightarrow> nat \<Rightarrow> byte_stream \<times> u32 list \<Rightarrow> (unit, byte_stream \<times> u32 list) outcome" where
  "read_offset uc chunk_count i = (\<lambda>(stream, offsets).
     obind (stream_next uc stream) (\<lambda>(offset, stream).
     if unat offset < DXBC_HEADER_SIZE + unat chunk_count * 4 then Fail () else Done (stream, offsets @ [offset])))"

definition read_chunk_header :: "unity_common \<Rightarrow> u32 \<Rightarrow> u32 \<Rightarrow> byte_stream \<Rightarrow> (unit, bytes \<times> u32 \<times> nat \<times> nat \<times> byte_stream) outcome" where
  "read_chunk_header uc offset total_size stream =
     (if offset AND 3 \<noteq> 0 \<or> \<not> range_within (unat offset) 8 (unat total_size) then Fail ()
      else obind (stream_bytes uc 4 (stream\<lparr>bs_position := unat offset\<rparr>)) (\<lambda>(name, stream).
      obind (stream_next uc stream) (\<lambda>(chunk_size, stream). let chunk_start = bs_position stream in
      if \<not> range_within chunk_start (unat chunk_size) (unat total_size) then Fail ()
      else Done (name, chunk_size, chunk_start, chunk_start + unat chunk_size, stream))))"

definition allocate_chunks :: "unity_common \<Rightarrow> u32 \<Rightarrow> dxbc_container \<Rightarrow> (unit, dxbc_container) outcome" where
  "allocate_chunks uc chunk_count c =
     (if chunk_count = 0 then Done c
      else if size_multiply_overflows uc (unat chunk_count) 16 then Fail ()
      else if \<not> mem_alloc uc (unat chunk_count * 16) then Fail ()
      else Done (c\<lparr>dc_chunks := Some [], dc_chunk_alloc := int (unat chunk_count)\<rparr>))"

definition push_chunk :: "bytes \<Rightarrow> u32 \<Rightarrow> u32 \<Rightarrow> dxbc_container \<Rightarrow> (unit, dxbc_container) outcome" where
  "push_chunk name chunk_size offset c = (case dc_chunks c of
     None \<Rightarrow> Fault
   | Some cs \<Rightarrow>
       if 0 \<le> dc_chunk_count c \<and> dc_chunk_count c < dc_chunk_alloc c
       then Done (c\<lparr>dc_chunks := Some (take (nat (dc_chunk_count c)) cs @ [\<lparr>ci_name = name, ci_size = chunk_size, ci_offset = offset\<rparr>]),
              dc_chunk_count := dc_chunk_count c + 1\<rparr>)
       else Fault)"

section \<open>Chunks\<close>

definition read_signature_chunk ::
  "unity_common \<Rightarrow> bytes \<Rightarrow> nat \<Rightarrow> nat \<Rightarrow> byte_stream \<times> dxbc_container \<Rightarrow> (unit, byte_stream \<times> dxbc_container) outcome" where
  "read_signature_chunk uc name chunk_start chunk_end = (\<lambda>(stream, c).
     if name = chars ''ISGN'' \<or> name = chars ''ISG1'' then
       obind (parse_signature uc stream chunk_start chunk_end (dc_input_signature c) name) (\<lambda>(stream, t). Done (stream, c\<lparr>dc_input_signature := t\<rparr>))
     else if name = chars ''OSGN'' \<or> name = chars ''OSG1'' \<or> name = chars ''OSG5'' then
       obind (parse_signature uc stream chunk_start chunk_end (dc_output_signature c) name) (\<lambda>(stream, t). Done (stream, c\<lparr>dc_output_signature := t\<rparr>))
     else if name = chars ''PCSG'' \<or> name = chars ''PSG1'' then
       obind (parse_signature uc stream chunk_start chunk_end (dc_patch_constant_signature c) name) (\<lambda>(stream, t). Done (stream, c\<lparr>dc_patch_constant_signature := t\<rparr>))
     else Done (stream, c))"

text \<open>The two passes over the chunk table.\<close>

definition describe_chunk :: "unity_common \<Rightarrow> u32 \<Rightarrow> u32 \<Rightarrow> byte_stream \<times> dxbc_container \<Rightarrow> (unit, byte_stream \<times> dxbc_container) outcome" where
  "describe_chunk uc total_size offset = (\<lambda>(stream, c).
     obind (read_chunk_header uc offset total_size stream) (\<lambda>(name, chunk_size, chunk_start, chunk_end, stream).
     obind (push_chunk name chunk_size offset c) (\<lambda>c. read_signature_chunk uc name chunk_start chunk_end (stream, c))))"

definition run_chunk :: "unity_common \<Rightarrow> u32 \<Rightarrow> u32 \<Rightarrow> byte_stream \<times> dxbc_container \<Rightarrow> (unit, byte_stream \<times> dxbc_container) outcome" where
  "run_chunk uc total_size offset = (\<lambda>(stream, c).
     obind (read_chunk_header uc offset total_size stream) (\<lambda>(name, chunk_size, chunk_start, chunk_end, stream).
     if name = chars ''SHEX'' \<or> name = chars ''SHDR'' then parse_shader_logic uc stream chunk_end c else Done (stream, c)))"

definition parse_chunks :: "unity_common \<Rightarrow> u32 \<Rightarrow> u32 \<Rightarrow> byte_stream \<Rightarrow> (unit, dxbc_container) outcome" where
  "parse_chunks uc total_size chunk_count stream =
     obind (ofold (read_offset uc chunk_count) [0..<unat chunk_count] (stream, [])) (\<lambda>(stream, offsets).
     obind (allocate_chunks uc chunk_count fresh_container) (\<lambda>c.
     obind (ofold (describe_chunk uc total_size) offsets (stream, c)) (\<lambda>(stream, c).
     obind (ofold (run_chunk uc total_size) offsets (stream, c)) (\<lambda>(stream, c).
     if dc_has_executable_program c then Done (c\<lparr>dc_parsed_signature_authority := True\<rparr>) else Fail ()))))"

section \<open>The parser\<close>

definition parse_view :: "unity_common \<Rightarrow> (nat \<Rightarrow> bool) \<Rightarrow> bytes \<Rightarrow> (dxbc_container, dxbc_container) outcome" where
  "parse_view uc c_malloc view =
     obind (on_fail (read_header uc (length view) (stream_set_endian uc (stream_init uc view) False)) (Fail fresh_container))
       (\<lambda>(total_size, chunk_count, stream).
     if chunk_count \<noteq> 0 \<and> \<not> c_malloc (unat chunk_count * 4) then Fail fresh_container
     else on_fail (parse_chunks uc total_size chunk_count stream) (Fail zero_container))"

definition dxbc_parse :: "unity_common \<Rightarrow> (nat \<Rightarrow> bool) \<Rightarrow> bytes \<Rightarrow> c_buffer \<Rightarrow> (dxbc_container, dxbc_container) outcome" where
  "dxbc_parse uc c_malloc stack data =
     obind (on_fail (dxbc_container_view_first uc data) (Fail fresh_container)) (\<lambda>view. let
       bytes = (case data of Buf bs \<Rightarrow> bslice bs (view_data view) (view_size view) | NullBuf _ \<Rightarrow> []) in
     if \<not> dxbc_verify_hash uc stack (Buf bytes) then Fail fresh_container
     else parse_view uc c_malloc bytes)"

end
