(* ===== verification/Operand_Spec.thy ===== *)
theory Operand_Spec
  imports Operand
begin

text \<open>
  The grammar of operands as abstract syntax, the operand each tree denotes, and the proof that the
  parser accepts exactly the legal trees, never reads past its limit and never runs out of fuel.
\<close>

section \<open>The operand grammar\<close>

text \<open>
  The abstract syntax the parser recognises: an operand token with its extension tokens, its immediate
  words and its indices, one constructor per index representation.
\<close>

datatype operand_tree = Tree u32 "u32 list" "u32 list" "operand_index list"
and operand_index =
    Imm32 u32
  | Imm64 u32 u32
  | Rel operand_tree
  | Imm32_Rel u32 operand_tree
  | Imm64_Rel u32 u32 operand_tree

primrec tree_words :: "operand_tree \<Rightarrow> u32 list" and index_words :: "operand_index \<Rightarrow> u32 list" where
  "tree_words (Tree t exts imms idxs) = t # exts @ imms @ concat (map index_words idxs)"
| "index_words (Imm32 lo) = [lo]"
| "index_words (Imm64 lo hi) = [lo, hi]"
| "index_words (Rel r) = tree_words r"
| "index_words (Imm32_Rel lo r) = lo # tree_words r"
| "index_words (Imm64_Rel lo hi r) = lo # hi # tree_words r"

text \<open>The number of operand tokens, which the budget counts.\<close>

primrec tree_tokens :: "operand_tree \<Rightarrow> nat" and index_tokens :: "operand_index \<Rightarrow> nat" where
  "tree_tokens (Tree t exts imms idxs) = Suc (sum_list (map index_tokens idxs))"
| "index_tokens (Imm32 lo) = 0"
| "index_tokens (Imm64 lo hi) = 0"
| "index_tokens (Rel r) = tree_tokens r"
| "index_tokens (Imm32_Rel lo r) = tree_tokens r"
| "index_tokens (Imm64_Rel lo hi r) = tree_tokens r"

definition token_type :: "u32 \<Rightarrow> u32" where "token_type t = drop_bit 12 t AND 0xff"
definition token_selection :: "u32 \<Rightarrow> u32" where "token_selection t = drop_bit 2 t AND 0x3"
definition token_components :: "u32 \<Rightarrow> u32" where "token_components t = t AND 0x3"
definition token_dimensions :: "u32 \<Rightarrow> nat" where "token_dimensions t = unat (drop_bit 20 t AND 0x3)"
definition token_representation :: "u32 \<Rightarrow> nat \<Rightarrow> u32" where "token_representation t d = drop_bit (22 + 3 * d) t AND 0x7"
definition more_tokens :: "u32 \<Rightarrow> bool" where "more_tokens t \<longleftrightarrow> t AND 0x80000000 \<noteq> 0"
definition is_immediate :: "u32 \<Rightarrow> bool" where "is_immediate t \<longleftrightarrow> token_type t = 4 \<or> token_type t = 5"

definition immediate_words :: "u32 \<Rightarrow> nat" where
  "immediate_words t = (if is_immediate t then (if token_components t = 1 then 1 else 4) * (if token_type t = 5 then 2 else 1) else 0)"

definition legal_token :: "u32 \<Rightarrow> bool" where
  "legal_token t \<longleftrightarrow> token_components t \<noteq> 3 \<and> \<not> (token_components t = 2 \<and> token_selection t = 3) \<and>
     (is_immediate t \<longrightarrow> token_components t = 1 \<or> token_components t = 2)"

definition is_modifier :: "u32 \<Rightarrow> bool" where "is_modifier e \<longleftrightarrow> e AND 0x3f = 1"
definition modifier_of :: "u32 \<Rightarrow> u32" where "modifier_of e = drop_bit 6 e AND 0xff"
definition precision_of :: "u32 \<Rightarrow> u32" where "precision_of e = drop_bit 14 e AND 0x7"

definition legal_extension :: "u32 \<Rightarrow> bool" where
  "legal_extension e \<longleftrightarrow> e AND 0x3f = 0 \<or> is_modifier e \<and> modifier_of e \<le> 3 \<and> min_precision_known (precision_of e)"

text \<open>A chain of tokens, each announcing whether another follows.\<close>

fun chained :: "u32 \<Rightarrow> u32 list \<Rightarrow> bool" where
  "chained t [] \<longleftrightarrow> \<not> more_tokens t"
| "chained t (e # es) \<longleftrightarrow> more_tokens t \<and> chained e es"

definition legal_extensions :: "u32 \<Rightarrow> u32 list \<Rightarrow> bool" where
  "legal_extensions t exts \<longleftrightarrow> chained t exts \<and> (\<forall>e\<in>set exts. legal_extension e) \<and> length (filter is_modifier exts) \<le> 1"

primrec index_representation :: "operand_index \<Rightarrow> u32" where
  "index_representation (Imm32 lo) = 0"
| "index_representation (Imm64 lo hi) = 1"
| "index_representation (Rel r) = 2"
| "index_representation (Imm32_Rel lo r) = 3"
| "index_representation (Imm64_Rel lo hi r) = 4"

primrec legal_tree :: "operand_tree \<Rightarrow> bool" and legal_index :: "operand_index \<Rightarrow> bool" where
  "legal_tree (Tree t exts imms idxs) \<longleftrightarrow> legal_token t \<and> legal_extensions t exts \<and> length imms = immediate_words t \<and>
     map index_representation idxs = map (token_representation t) [0..<token_dimensions t] \<and> list_all legal_index idxs"
| "legal_index (Imm32 lo) \<longleftrightarrow> True"
| "legal_index (Imm64 lo hi) \<longleftrightarrow> True"
| "legal_index (Rel r) \<longleftrightarrow> legal_tree r"
| "legal_index (Imm32_Rel lo r) \<longleftrightarrow> legal_tree r"
| "legal_index (Imm64_Rel lo hi r) \<longleftrightarrow> legal_tree r"

section \<open>The meaning of an operand\<close>

definition pad :: "nat \<Rightarrow> 'a \<Rightarrow> 'a list \<Rightarrow> 'a list" where "pad n z xs = xs @ replicate (n - length xs) z"

text \<open>The modifier extension, when there is one.\<close>

definition modifier_bits :: "u32 list \<Rightarrow> u32" where
  "modifier_bits exts = (case find is_modifier exts of None \<Rightarrow> 0 | Some e \<Rightarrow> modifier_of e)"

definition precision_bits :: "u32 list \<Rightarrow> u8" where
  "precision_bits exts = (case find is_modifier exts of None \<Rightarrow> 0 | Some e \<Rightarrow> ucast (precision_of e))"

definition selected_lanes :: "u32 \<Rightarrow> u8 list" where
  "selected_lanes t =
     (if is_immediate t then [0, 1, 2, 3]
      else if token_selection t = 1 then map (\<lambda>c. ucast (drop_bit (4 + 2 * c) t AND 3)) [0..<4]
      else if token_selection t = 2 then replicate 4 (ucast (drop_bit 4 t AND 3))
      else [0, 1, 2, 3])"

definition legacy_index :: "u64 \<Rightarrow> int" where
  "legacy_index v = (if unat v \<le> INT_MAX then int (unat v) else -1)"

definition nth_or :: "'a \<Rightarrow> 'a list \<Rightarrow> nat \<Rightarrow> 'a" where "nth_or z xs i = (if i < length xs then xs ! i else z)"

primrec index_value :: "operand_index \<Rightarrow> u64" where
  "index_value (Imm32 lo) = ucast lo"
| "index_value (Imm64 lo hi) = join_words lo hi"
| "index_value (Rel r) = 0"
| "index_value (Imm32_Rel lo r) = ucast lo"
| "index_value (Imm64_Rel lo hi r) = join_words lo hi"

definition has_offset :: "operand_index \<Rightarrow> bool" where
  "has_offset i \<longleftrightarrow> index_representation i \<noteq> 2"

definition immediate_lanes :: "u32 \<Rightarrow> 'a list \<Rightarrow> 'a list" where
  "immediate_lanes t vs =
     (if token_components t = 1 then replicate 4 (vs ! 0)
      else if token_selection t = 1 then map (\<lambda>c. vs ! unat (drop_bit (4 + 2 * c) t AND 3)) [0..<4]
      else if token_selection t = 2 then replicate 4 (vs ! unat (drop_bit 4 t AND 3))
      else vs)"

fun pairs64 :: "u32 list \<Rightarrow> u64 list" where
  "pairs64 (lo # hi # ws) = join_words lo hi # pairs64 ws"
| "pairs64 ws = []"

definition tree_head :: "u32 \<Rightarrow> u32 list \<Rightarrow> u32 list \<Rightarrow> operand_index list \<Rightarrow> operand_head" where
  "tree_head t exts imms idxs = (let legacy = nth_or 0 (map (legacy_index \<circ> index_value) idxs) in
     \<lparr>oh_type = token_type t, oh_raw_token = t, oh_extended_tokens = exts, oh_register_index = legacy 0,
      oh_swizzle = selected_lanes t, oh_swizzle_mode = ucast (token_selection t),
      oh_destination_mask = (if token_selection t = 0 \<and> \<not> is_immediate t then ucast (t AND 0xf0) else 0),
      oh_has_neg = bit (modifier_bits exts) 0, oh_has_abs = bit (modifier_bits exts) 1,
      oh_imm_values = (if token_type t = 4 then immediate_lanes t imms else replicate 4 0),
      oh_imm_value_count = (if is_immediate t then if token_components t = 1 \<or> token_selection t = 2 then 1 else 4 else 0),
      oh_immediate_words = pad 8 0 imms, oh_immediate_word_count = int (length imms),
      oh_imm64_values = (if token_type t = 5 then immediate_lanes t (pairs64 imms) else replicate 4 0),
      oh_min_precision = precision_bits exts, oh_rel_offset0 = legacy 1, oh_rel_offset1 = legacy 0, oh_rel_offset2 = legacy 2,
      oh_register_index_dim = int (length idxs), oh_index_values = pad 3 0 (map index_value idxs),
      oh_index_representations = pad 3 0 (map (ucast \<circ> index_representation) idxs),
      oh_index_has_immediate = pad 3 False (map has_offset idxs),
      oh_index_value_exceeds_int = pad 3 False (map (\<lambda>i. INT_MAX < unat (index_value i)) idxs)\<rparr>)"

primrec decode_tree :: "operand_tree \<Rightarrow> operand" and decode_index :: "operand_index \<Rightarrow> operand option" where
  "decode_tree (Tree t exts imms idxs) = (let r = nth_or None (map decode_index idxs) in
     Operand (tree_head t exts imms idxs) (r 0) (r 1) (r 2))"
| "decode_index (Imm32 lo) = None"
| "decode_index (Imm64 lo hi) = None"
| "decode_index (Rel r) = Some (decode_tree r)"
| "decode_index (Imm32_Rel lo r) = Some (decode_tree r)"
| "decode_index (Imm64_Rel lo hi r) = Some (decode_tree r)"

section \<open>Consuming words\<close>

text \<open>The stream has moved over exactly these words, without passing the limit.\<close>

definition consumed :: "nat \<Rightarrow> byte_stream \<Rightarrow> u32 list \<Rightarrow> byte_stream \<Rightarrow> bool" where
  "consumed limit s ws s' \<longleftrightarrow> bs_position s + 4 * length ws \<le> limit \<and>
     s' = s\<lparr>bs_position := bs_position s + 4 * length ws\<rparr> \<and>
     bslice (bs_data s) (bs_position s) (4 * length ws) = concat (map bytes32 ws)"

text \<open>What the parser needs of its surroundings: a little-endian stream that contains the limit.\<close>

definition readable :: "unity_common \<Rightarrow> nat \<Rightarrow> byte_stream \<Rightarrow> bool" where
  "readable uc limit s \<longleftrightarrow> byte_stream_contract uc \<and> \<not> bs_big_endian s \<and> limit \<le> length (bs_data s) \<and>
     length (bs_data s) \<le> SIZE_MAX"

lemma consumed_Nil [simp]: "consumed limit s [] s' \<longleftrightarrow> bs_position s \<le> limit \<and> s' = s"
  by (auto simp: consumed_def)

lemma consumed_append:
  "consumed limit s (ws @ ws') s'' \<longleftrightarrow> (\<exists>s'. consumed limit s ws s' \<and> consumed limit s' ws' s'')"
  (is "?l \<longleftrightarrow> ?r")
proof
  assume l: ?l
  have split: "bslice (bs_data s) (bs_position s) (4 * length (ws @ ws')) =
    bslice (bs_data s) (bs_position s) (4 * length ws) @ bslice (bs_data s) (bs_position s + 4 * length ws) (4 * length ws')"
    by (simp add: bslice_append distrib_left)
  have len: "length (concat (map bytes32 ws)) = 4 * length ws" for ws by (induction ws) simp_all
  have "length (bslice (bs_data s) (bs_position s) (4 * length (ws @ ws'))) = 4 * length (ws @ ws')"
    using l len [of "ws @ ws'"] unfolding consumed_def by metis
  then have "length (bslice (bs_data s) (bs_position s) (4 * length ws)) = length (concat (map bytes32 ws))"
    unfolding len by (simp add: bslice_def)
  with l have "consumed limit s ws (s\<lparr>bs_position := bs_position s + 4 * length ws\<rparr>)"
    "consumed limit (s\<lparr>bs_position := bs_position s + 4 * length ws\<rparr>) ws' s''"
    unfolding consumed_def split by (simp_all add: add.assoc distrib_left)
  then show ?r by blast
qed (auto simp: consumed_def bslice_append distrib_left)

lemma consumed_Cons:
  "consumed limit s (w # ws) s'' \<longleftrightarrow> (\<exists>s'. consumed limit s [w] s' \<and> consumed limit s' ws s'')"
  using consumed_append [of limit s "[w]" ws s''] by simp

lemma consumed_facts:
  assumes "consumed limit s ws s'"
  shows "readable uc limit s' \<longleftrightarrow> readable uc limit s" "bs_position s' \<le> limit" "bs_position s \<le> bs_position s'"
    "bs_data s' = bs_data s" "bs_position s' = bs_position s + 4 * length ws"
  using assms by (auto simp: consumed_def readable_def)

lemma consumed_readable [simp]: "consumed limit s ws s' \<Longrightarrow> readable uc limit s \<Longrightarrow> readable uc limit s'"
  by (simp add: consumed_facts)

text \<open>Reading one word either consumes it or fails with the stream at the limit.\<close>

lemma next_Done:
  assumes "readable uc limit s"
  shows "operand_next uc limit budget s = Done (v, s') \<longleftrightarrow> consumed limit s [v] s'"
  using assms
  by (auto simp: operand_next_def operand_read_u32_def operand_parse_failed_def readable_def stream_read_uint32_eq
      consumed_def rd32_bslice4 le_diff_conv2 split: option.splits)

section \<open>Extension tokens\<close>

text \<open>The state after the tokens already seen.\<close>

definition extension_inv :: "u32 list \<Rightarrow> extension_state \<Rightarrow> bool" where
  "extension_inv seen st \<longleftrightarrow> ex_tokens st = seen \<and> (ex_saw_modifier st \<longleftrightarrow> (\<exists>e\<in>set seen. is_modifier e)) \<and>
     ex_modifier st = modifier_bits seen \<and> ex_min_precision st = precision_bits seen"

lemma extension_inv_unique: "extension_inv seen st \<Longrightarrow> extension_inv seen st' \<Longrightarrow> st = st'"
  by (auto simp: extension_inv_def intro: extension_state.equality)

lemma find_append: "find P (xs @ ys) = (case find P xs of None \<Rightarrow> find P ys | Some x \<Rightarrow> Some x)"
  by (induction xs) auto

lemma find_None_set: "find P xs = None \<longleftrightarrow> (\<forall>x\<in>set xs. \<not> P x)"
  by (auto simp: find_None_iff)

lemma modifier_snoc:
  "modifier_bits (seen @ [e]) = (if \<exists>x\<in>set seen. is_modifier x then modifier_bits seen else if is_modifier e then modifier_of e else 0)"
  "precision_bits (seen @ [e]) = (if \<exists>x\<in>set seen. is_modifier x then precision_bits seen else if is_modifier e then ucast (precision_of e) else 0)"
  "\<forall>x\<in>set seen. \<not> is_modifier x \<Longrightarrow> modifier_bits seen = 0" "\<forall>x\<in>set seen. \<not> is_modifier x \<Longrightarrow> precision_bits seen = 0"
proof -
  have "find is_modifier seen = None \<longleftrightarrow> \<not> (\<exists>x\<in>set seen. is_modifier x)" by (auto simp: find_None_set)
  then show "modifier_bits (seen @ [e]) = (if \<exists>x\<in>set seen. is_modifier x then modifier_bits seen else if is_modifier e then modifier_of e else 0)"
    "precision_bits (seen @ [e]) = (if \<exists>x\<in>set seen. is_modifier x then precision_bits seen else if is_modifier e then ucast (precision_of e) else 0)"
    "\<forall>x\<in>set seen. \<not> is_modifier x \<Longrightarrow> modifier_bits seen = 0" "\<forall>x\<in>set seen. \<not> is_modifier x \<Longrightarrow> precision_bits seen = 0"
    unfolding modifier_bits_def precision_bits_def find_append by (cases "find is_modifier seen"; force)+
qed

lemma apply_extension_cases:
  "apply_extension e st = (if legal_extension e \<and> (is_modifier e \<longrightarrow> \<not> ex_saw_modifier st) then
     Some (if is_modifier e then st\<lparr>ex_saw_modifier := True, ex_modifier := modifier_of e, ex_min_precision := ucast (precision_of e)\<rparr> else st)
     else None)"
  by (auto simp: apply_extension_def legal_extension_def is_modifier_def modifier_of_def precision_of_def Let_def not_less)

lemma apply_extension_iff:
  assumes "extension_inv seen st"
  shows "apply_extension e (st\<lparr>ex_tokens := seen @ [e]\<rparr>) = Some st' \<longleftrightarrow>
    legal_extension e \<and> (is_modifier e \<longrightarrow> (\<forall>x\<in>set seen. \<not> is_modifier x)) \<and> extension_inv (seen @ [e]) st'"
    (is "?run = Some st' \<longleftrightarrow> _ \<and> ?once \<and> _")
proof -
  have saw: "ex_saw_modifier st \<longleftrightarrow> (\<exists>x\<in>set seen. is_modifier x)" using assms by (simp add: extension_inv_def)
  have sound: "extension_inv (seen @ [e]) (if is_modifier e then st\<lparr>ex_tokens := seen @ [e], ex_saw_modifier := True,
      ex_modifier := modifier_of e, ex_min_precision := ucast (precision_of e)\<rparr> else st\<lparr>ex_tokens := seen @ [e]\<rparr>)" if ?once
    using assms that by (auto simp: extension_inv_def modifier_snoc)
  then show ?thesis by (auto simp: apply_extension_cases saw dest: extension_inv_unique)
qed

lemma failed_not_Done [simp]: "operand_parse_failed s limit budget \<noteq> Done r"
  by (simp add: operand_parse_failed_def)

lemma modifier_once: "length (filter is_modifier (xs @ [e])) \<le> 1 \<longleftrightarrow>
    length (filter is_modifier xs) \<le> 1 \<and> (is_modifier e \<longrightarrow> (\<forall>x\<in>set xs. \<not> is_modifier x))"
  by (auto simp: filter_empty_conv)

lemma append_token: "memory_available uc \<Longrightarrow> length tokens < SIZE_MAX div 4 \<Longrightarrow> append_extended_token uc tokens t = Some (tokens @ [t])"
  by (simp add: append_extended_token_def)

lemma read_extensions_Done:
  assumes "memory_available uc" "readable uc limit s" "extension_inv seen st" "limit \<le> SIZE_MAX"
    "4 * length seen \<le> bs_position s" "limit - bs_position s < fuel" "length (filter is_modifier seen) \<le> 1"
  shows "read_extensions fuel uc limit budget s st = Done (s', st') \<longleftrightarrow>
    (\<exists>e es. consumed limit s (e # es) s' \<and> chained e es \<and> (\<forall>x\<in>set (e # es). legal_extension x) \<and>
       length (filter is_modifier (seen @ e # es)) \<le> 1 \<and> extension_inv (seen @ e # es) st')"
  using assms(2-)
proof (induction fuel arbitrary: s seen st)
  case (Suc fuel)
  have app: "append_extended_token uc (ex_tokens st) e = Some (seen @ [e])" if "consumed limit s [e] s1" for e s1
    using append_token [OF assms(1), of seen e] Suc.prems that by (auto simp: consumed_def extension_inv_def)
  have step: "read_extensions (Suc fuel) uc limit budget s st = Done (s', st') \<longleftrightarrow>
    (\<exists>e s1 st1. consumed limit s [e] s1 \<and> legal_extension e \<and> length (filter is_modifier (seen @ [e])) \<le> 1 \<and>
       extension_inv (seen @ [e]) st1 \<and>
       (if more_tokens e then read_extensions fuel uc limit budget s1 st1 = Done (s', st') else s' = s1 \<and> st' = st1))"
  proof -
    have "read_extensions (Suc fuel) uc limit budget s st = Done (s', st') \<longleftrightarrow>
      (\<exists>e s1. consumed limit s [e] s1 \<and> (case append_extended_token uc (ex_tokens st) e of
         None \<Rightarrow> operand_parse_failed s1 limit budget
       | Some tokens \<Rightarrow> (case apply_extension e (st\<lparr>ex_tokens := tokens\<rparr>) of
            None \<Rightarrow> operand_parse_failed s1 limit budget
          | Some st \<Rightarrow> if e AND 0x80000000 \<noteq> 0 then read_extensions fuel uc limit budget s1 st else Done (s1, st))) = Done (s', st'))"
      by (simp add: obind_Done_iff next_Done [OF Suc.prems(1)])
    also have "\<dots> \<longleftrightarrow> (\<exists>e s1. consumed limit s [e] s1 \<and> (\<exists>st1. apply_extension e (st\<lparr>ex_tokens := seen @ [e]\<rparr>) = Some st1 \<and>
       (if more_tokens e then read_extensions fuel uc limit budget s1 st1 = Done (s', st') else s' = s1 \<and> st' = st1)))"
      by (intro ex_cong1 conj_cong refl) (auto simp: app more_tokens_def split: option.split)
    finally show ?thesis
      using Suc.prems(6) by (simp only: apply_extension_iff [OF Suc.prems(2)] modifier_once simp_thms) blast
  qed
  have rest: "read_extensions fuel uc limit budget s1 st1 = Done (s', st') \<longleftrightarrow>
     (\<exists>e' es. consumed limit s1 (e' # es) s' \<and> chained e' es \<and> (\<forall>x\<in>set (e' # es). legal_extension x) \<and>
       length (filter is_modifier ((seen @ [e]) @ e' # es)) \<le> 1 \<and> extension_inv ((seen @ [e]) @ e' # es) st')"
    if "consumed limit s [e] s1" "length (filter is_modifier (seen @ [e])) \<le> 1" "extension_inv (seen @ [e]) st1" for e s1 st1
  proof (rule Suc.IH)
    show "readable uc limit s1" using that(1) Suc.prems(1) by simp
    show "4 * length (seen @ [e]) \<le> bs_position s1" "limit - bs_position s1 < fuel"
      using that(1) Suc.prems(4,5) by (auto simp: consumed_def)
  qed (use that Suc.prems in simp_all)
  show ?case (is "_ \<longleftrightarrow> ?r")
  proof
    assume "read_extensions (Suc fuel) uc limit budget s st = Done (s', st')"
    then obtain e s1 st1 where e: "consumed limit s [e] s1" "legal_extension e" "length (filter is_modifier (seen @ [e])) \<le> 1"
      "extension_inv (seen @ [e]) st1" and
      r: "if more_tokens e then read_extensions fuel uc limit budget s1 st1 = Done (s', st') else s' = s1 \<and> st' = st1"
      unfolding step by blast
    show ?r
    proof (cases "more_tokens e")
      case True
      with r rest [OF e(1,3,4)] obtain e' es where "consumed limit s1 (e' # es) s'" "chained e' es"
        "\<forall>x\<in>set (e' # es). legal_extension x" "length (filter is_modifier (seen @ e # e' # es)) \<le> 1"
        "extension_inv (seen @ e # e' # es) st'" by auto
      with e True show ?thesis by (intro exI [of _ e] exI [of _ "e' # es"]) (auto simp: consumed_Cons [of limit s e "e' # es"])
    next
      case False
      with e r show ?thesis by (intro exI [of _ e] exI [of _ "[]"]) simp
    qed
  next
    assume ?r
    then obtain e es where e: "consumed limit s (e # es) s'" "chained e es" "\<forall>x\<in>set (e # es). legal_extension x"
      "length (filter is_modifier (seen @ e # es)) \<le> 1" "extension_inv (seen @ e # es) st'" by blast
    from e(1) obtain s1 where s1: "consumed limit s [e] s1" "consumed limit s1 es s'" by (auto simp: consumed_Cons [of limit s e es])
    have once: "length (filter is_modifier (seen @ [e])) \<le> 1" using e(4) by (auto split: if_splits)
    have "\<exists>st1. extension_inv (seen @ [e]) st1"
      by (intro exI [of _ "\<lparr>ex_tokens = seen @ [e], ex_modifier = modifier_bits (seen @ [e]),
        ex_saw_modifier = (\<exists>x\<in>set (seen @ [e]). is_modifier x), ex_min_precision = precision_bits (seen @ [e])\<rparr>"]) (simp add: extension_inv_def)
    then obtain st1 where st1: "extension_inv (seen @ [e]) st1" by blast
    show "read_extensions (Suc fuel) uc limit budget s st = Done (s', st')"
    proof (cases es)
      case Nil
      with e s1 st1 have "\<not> more_tokens e" "s' = s1" "st' = st1" by (auto dest: extension_inv_unique)
      with e s1 once st1 show ?thesis unfolding step by (intro exI [of _ e] exI [of _ s1] exI [of _ st1]) simp
    next
      case (Cons e' es')
      have "read_extensions fuel uc limit budget s1 st1 = Done (s', st')"
        unfolding rest [OF s1(1) once st1] using e s1(2) Cons by (intro exI [of _ e'] exI [of _ es']) simp
      with e s1 once st1 Cons show ?thesis unfolding step by (intro exI [of _ e] exI [of _ s1] exI [of _ st1]) simp
    qed
  qed
qed simp

lemma ofold_snoc: "ofold step (is @ [i]) s = obind (ofold step is s) (step i)"
proof -
  have "ofold step [i] = step i"
  proof
    show "ofold step [i] s = step i s" for s by (cases "step i s") simp_all
  qed
  then show ?thesis by (simp only: ofold_append)
qed

section \<open>Immediates\<close>

lemma put_Done: "i < length xs \<Longrightarrow> put xs i v = Done (xs[i := v])"
  by (simp add: put_def)

lemma read_words_Done:
  assumes "readable uc limit s" "bs_position s \<le> limit" "n \<le> length ws"
  shows "read_immediate_words uc limit budget n (s, ws) = Done (s', ws') \<longleftrightarrow>
    (\<exists>imms. length imms = n \<and> consumed limit s imms s' \<and> ws' = imms @ drop n ws)"
  using assms(3)
proof (induction n arbitrary: s' ws')
  case 0
  then show ?case using assms(2) by (auto simp: read_immediate_words_def)
next
  case (Suc n)
  have upd: "(imms @ drop (length imms) ws)[length imms := v] = (imms @ [v]) @ drop (Suc (length imms)) ws" if "length imms < length ws" for imms v
    using that by (simp add: list_update_append Cons_nth_drop_Suc [symmetric])
  have "read_immediate_words uc limit budget (Suc n) (s, ws) = Done (s', ws') \<longleftrightarrow>
    (\<exists>s1 ws1. read_immediate_words uc limit budget n (s, ws) = Done (s1, ws1) \<and>
       (\<exists>v. operand_next uc limit budget s1 = Done (v, s') \<and> n < length ws1 \<and> ws' = ws1[n := v]))"
    by (auto simp: read_immediate_words_def ofold_snoc outcome_simps put_def split: if_splits)
  also have "\<dots> \<longleftrightarrow> (\<exists>imms s1 v. length imms = n \<and> consumed limit s imms s1 \<and> consumed limit s1 [v] s' \<and> ws' = (imms @ [v]) @ drop (Suc n) ws)"
    (is "?a \<longleftrightarrow> ?b")
  proof
    assume ?a
    then obtain s1 imms v where *: "length imms = n" "consumed limit s imms s1" "operand_next uc limit budget s1 = Done (v, s')"
      "ws' = (imms @ drop n ws)[n := v]" using Suc by auto
    moreover from * have "consumed limit s1 [v] s'" using next_Done [of uc limit s1] assms(1) by simp
    ultimately show ?b using upd [of imms v] Suc.prems by (intro exI [of _ imms] exI [of _ s1] exI [of _ v]) simp
  next
    assume ?b
    then obtain s1 imms v where *: "length imms = n" "consumed limit s imms s1" "consumed limit s1 [v] s'"
      "ws' = (imms @ [v]) @ drop (Suc n) ws" by blast
    moreover from * have "operand_next uc limit budget s1 = Done (v, s')" using next_Done [of uc limit s1] assms(1) by simp
    ultimately show ?a using upd [of imms v] Suc.prems Suc.IH [of s1 "imms @ drop n ws"]
      by (intro exI [of _ s1] exI [of _ "imms @ drop n ws"] conjI exI [of _ v]) auto
  qed
  also have "\<dots> \<longleftrightarrow> (\<exists>imms. length imms = Suc n \<and> consumed limit s imms s' \<and> ws' = imms @ drop (Suc n) ws)"
    by (auto simp: consumed_append length_Suc_conv_rev)
  finally show ?case .
qed

definition imm_head :: "u32 \<Rightarrow> u32 list \<Rightarrow> operand_head \<Rightarrow> operand_head" where
  "imm_head t imms h = h\<lparr>oh_immediate_word_count := int (length imms), oh_immediate_words := pad 8 0 imms,
     oh_imm_value_count := (if token_components t = 1 \<or> token_selection t = 2 then 1 else 4),
     oh_imm_values := (if token_type t = 4 then immediate_lanes t imms else oh_imm_values h),
     oh_imm64_values := (if token_type t = 5 then immediate_lanes t (pairs64 imms) else oh_imm64_values h)\<rparr>"

lemma select_components_lanes:
  assumes "token_components t = 1 \<and> n = 1 \<or> token_components t = 2 \<and> n = 4" "\<not> (token_components t = 2 \<and> token_selection t = 3)"
  shows "select_components n (token_selection t) t vs =
    (immediate_lanes t vs, if token_components t = 1 \<or> token_selection t = 2 then 1 else 4)"
  using assms by (auto simp: select_components_def immediate_lanes_def)

lemma list8: "length xs = 8 \<Longrightarrow> \<exists>a b c d e f g h. xs = [a, b, c, d, e, f, g, h]"
  by (auto simp: eval_nat_numeral length_Suc_conv)

lemma raw_lanes32:
  assumes "length imms = n" "token_components t = 1 \<and> n = 1 \<or> token_components t = 2 \<and> n = 4"
  shows "immediate_lanes t (immediate_raw32 n (imms @ replicate (8 - n) 0)) = immediate_lanes t imms"
proof -
  have "immediate_raw32 4 (imms @ replicate 4 0) = imms" if "length imms = 4"
    using that by (auto simp: immediate_raw32_def eval_nat_numeral length_Suc_conv upt_rec)
  moreover have "immediate_raw32 1 (imms @ replicate 7 0) ! 0 = imms ! 0" if "length imms = 1"
    using that by (simp add: immediate_raw32_def nth_append)
  ultimately show ?thesis using assms by (auto simp: immediate_lanes_def)
qed

lemma raw_lanes64:
  assumes "length imms = 2 * n" "token_components t = 1 \<and> n = 1 \<or> token_components t = 2 \<and> n = 4"
  shows "immediate_lanes t (immediate_raw64 n (imms @ replicate (8 - 2 * n) 0)) = immediate_lanes t (pairs64 imms)"
proof -
  have "immediate_raw64 4 imms = pairs64 imms" if "length imms = 8"
    using list8 [OF that] by (auto simp: immediate_raw64_def eval_nat_numeral upt_rec)
  moreover have "immediate_raw64 1 (imms @ replicate 6 0) ! 0 = pairs64 imms ! 0" if "length imms = 2"
    using that by (auto simp: immediate_raw64_def nth_append eval_nat_numeral length_Suc_conv)
  ultimately show ?thesis using assms by (auto simp: immediate_lanes_def)
qed

lemma parse_immediate_Done:
  assumes "readable uc limit s" "bs_position s \<le> limit" "is_immediate t" "oh_immediate_words h = replicate 8 0"
    "\<not> (token_components t = 2 \<and> token_selection t = 3)"
  shows "parse_immediate uc limit budget t (s, h) = Done (s', h') \<longleftrightarrow>
    (token_components t = 1 \<or> token_components t = 2) \<and>
    (\<exists>imms. length imms = immediate_words t \<and> consumed limit s imms s' \<and> h' = imm_head t imms h)"
proof (cases "token_components t = 1 \<or> token_components t = 2")
  case True
  define n where "n = (if token_components t = 1 then 1 else 4 :: nat)"
  define wc where "wc = n * (if token_type t = 5 then 2 else 1)"
  have n: "token_components t = 1 \<and> n = 1 \<or> token_components t = 2 \<and> n = 4" using True by (auto simp: n_def)
  have wc: "wc = immediate_words t" "wc \<le> 8" using assms(3) True by (auto simp: wc_def n_def immediate_words_def)
  define cont where "cont = (\<lambda>(stream, words). let
         op = h\<lparr>oh_immediate_word_count := int wc, oh_immediate_words := words\<rparr> in
         if token_type t = 4 then
           let (vs, m) = select_components n (token_selection t) t (immediate_raw32 n words) in
           Done (stream, op\<lparr>oh_imm_value_count := m, oh_imm_values := vs\<rparr>)
         else
           let (vs, m) = select_components n (token_selection t) t (immediate_raw64 n words) in
           Done (stream, op\<lparr>oh_imm_value_count := m, oh_imm64_values := vs\<rparr>)
         :: (byte_stream \<times> operand_head) operand_outcome)"
  have run: "parse_immediate uc limit budget t (s, h) = obind (read_immediate_words uc limit budget wc (s, replicate 8 0)) cont"
    using True unfolding parse_immediate_def prod.case Let_def wc_def n_def cont_def token_components_def token_selection_def token_type_def assms(4)
    by (subst if_not_P) auto
  have fin: "cont (s1, imms @ replicate (8 - wc) 0) = Done (s1, imm_head t imms h)" if "length imms = wc" for s1 imms
  proof (cases "token_type t = 4")
    case True
    then have "wc = n" by (simp add: wc_def)
    with that True show ?thesis
      by (simp add: cont_def select_components_lanes [OF n assms(5)] raw_lanes32 [OF _ n] imm_head_def pad_def)
  next
    case False
    then have t: "token_type t = 5" and "wc = 2 * n" using assms(3) by (simp_all add: is_immediate_def wc_def)
    with that show ?thesis
      by (simp add: cont_def select_components_lanes [OF n assms(5)] raw_lanes64 [OF _ n] imm_head_def pad_def)
  qed
  have words: "read_immediate_words uc limit budget wc (s, replicate 8 0) = Done (s1, ws1) \<longleftrightarrow>
    (\<exists>imms. length imms = wc \<and> consumed limit s imms s1 \<and> ws1 = imms @ replicate (8 - wc) 0)" for s1 ws1
    using read_words_Done [OF assms(1,2), of wc "replicate 8 0"] wc(2) by simp
  have "parse_immediate uc limit budget t (s, h) = Done (s', h') \<longleftrightarrow>
    (\<exists>imms. length imms = wc \<and> consumed limit s imms s' \<and> h' = imm_head t imms h)"
    unfolding run obind_Done_iff split_paired_Ex words using fin by auto
  with True wc(1) show ?thesis by simp
qed (simp add: parse_immediate_def token_components_def Let_def)

section \<open>Index dimensions\<close>

text \<open>What a parser of nested operands delivers, for every budget below \<open>n\<close>.\<close>

definition parses_trees :: "operand_parser \<Rightarrow> unity_common \<Rightarrow> nat \<Rightarrow> nat \<Rightarrow> bool" where
  "parses_trees rec uc limit n \<longleftrightarrow> (\<forall>s b op s' b'. readable uc limit s \<longrightarrow> bs_position s \<le> limit \<longrightarrow> b < n \<longrightarrow>
     (rec (s, b) = Done (op, s', b') \<longleftrightarrow>
      (\<exists>T. legal_tree T \<and> tree_tokens T \<le> b \<and> b' = b - tree_tokens T \<and> consumed limit s (tree_words T) s' \<and> op = decode_tree T)))"

lemma parses_treesD:
  assumes "parses_trees rec uc limit n" "readable uc limit s" "bs_position s \<le> limit" "b < n"
  shows "rec (s, b) = Done (op, s', b') \<longleftrightarrow>
      (\<exists>T. legal_tree T \<and> tree_tokens T \<le> b \<and> b' = b - tree_tokens T \<and> consumed limit s (tree_words T) s' \<and> op = decode_tree T)"
  using assms unfolding parses_trees_def by blast

definition index_arrays :: "operand \<Rightarrow> bool" where
  "index_arrays op \<longleftrightarrow> length (oh_index_values (op_head op)) = 3 \<and> length (oh_index_has_immediate (op_head op)) = 3 \<and>
     length (oh_index_representations (op_head op)) = 3"

text \<open>The effect of one index on the operand.\<close>

definition with_offset :: "nat \<Rightarrow> u64 \<Rightarrow> operand \<Rightarrow> operand" where
  "with_offset d v = set_head (\<lambda>h. h\<lparr>oh_index_values := (oh_index_values h)[d := v],
     oh_index_has_immediate := (oh_index_has_immediate h)[d := True]\<rparr>)"

definition with_index :: "nat \<Rightarrow> operand_index \<Rightarrow> operand \<Rightarrow> operand" where
  "with_index d i op = (let
     op = set_head (\<lambda>h. h\<lparr>oh_index_representations := (oh_index_representations h)[d := ucast (index_representation i)]\<rparr>) op;
     op = (if has_offset i then with_offset d (index_value i) op else op);
     op = (if decode_index i = None then op else set_relative_operand d (decode_index i) op) in
     set_head (sync_legacy_index d) op)"

lemma op_head_simps [simp]:
  "op_head (set_head f op) = f (op_head op)" "op_head (set_relative_operand d r op) = op_head op"
  "op_head (with_offset d v op) = (op_head op)\<lparr>oh_index_values := (oh_index_values (op_head op))[d := v],
     oh_index_has_immediate := (oh_index_has_immediate (op_head op))[d := True]\<rparr>"
  by (cases op; simp add: set_head_def set_relative_operand_def with_offset_def)+

lemma sync_arrays [simp]:
  "oh_index_values (sync_legacy_index d h) = oh_index_values h"
  "oh_index_has_immediate (sync_legacy_index d h) = oh_index_has_immediate h"
  "oh_index_representations (sync_legacy_index d h) = oh_index_representations h"
  by (simp_all add: sync_legacy_index_def Let_def)

lemma index_arrays_with_index [simp]: "index_arrays (with_index d i op) = index_arrays op"
  by (simp add: index_arrays_def with_index_def Let_def)

lemma store_index_Done:
  assumes "index_arrays op" "d < 3"
  shows "store_index d v (op, s, b) = Done (with_offset d v op, s, b)"
  using assms by (cases op) (simp add: store_index_def index_arrays_def put_Done with_offset_def set_head_def)

lemma parse_index32_Done:
  assumes "readable uc limit s" "index_arrays op" "d < 3"
  shows "parse_index32 uc limit d (op, s, b) = Done (op', s', b') \<longleftrightarrow>
    (\<exists>lo. consumed limit s [lo] s' \<and> b' = b \<and> op' = with_offset d (ucast lo) op)"
  using assms by (auto simp: parse_index32_def obind_Done_iff next_Done store_index_Done)

lemma parse_index64_Done:
  assumes "readable uc limit s" "index_arrays op" "d < 3"
  shows "parse_index64 uc limit d (op, s, b) = Done (op', s', b') \<longleftrightarrow>
    (\<exists>lo hi. consumed limit s [lo, hi] s' \<and> b' = b \<and> op' = with_offset d (join_words lo hi) op)"
proof -
  have "parse_index64 uc limit d (op, s, b) = Done (op', s', b') \<longleftrightarrow>
    (\<exists>lo s1. consumed limit s [lo] s1 \<and> (\<exists>hi. consumed limit s1 [hi] s' \<and> b' = b \<and> op' = with_offset d (join_words lo hi) op))"
    unfolding parse_index64_def prod.case obind_Done_iff split_paired_Ex next_Done [OF assms(1)]
    by (intro ex_cong1 conj_cong refl) (auto simp: next_Done [OF consumed_readable [OF _ assms(1)]] store_index_Done [OF assms(2,3)])
  then show ?thesis by (auto simp: consumed_Cons [of limit s _ "[_]"])
qed

lemma parse_relative_Done:
  assumes "parses_trees rec uc limit n" "readable uc limit s" "bs_position s \<le> limit" "b < n"
  shows "parse_relative rec limit d (op, s, b) = Done (op', s', b') \<longleftrightarrow>
    (\<exists>T. legal_tree T \<and> tree_tokens T \<le> b \<and> b' = b - tree_tokens T \<and> consumed limit s (tree_words T) s' \<and>
       op' = set_relative_operand d (Some (decode_tree T)) op)"
proof -
  have "parse_relative rec limit d (op, s, b) = Done (op', s', b') \<longleftrightarrow>
    (\<exists>r. rec (s, b) = Done (r, s', b') \<and> op' = set_relative_operand d (Some r) op)"
    by (auto simp: parse_relative_def split: outcome.split)
  then show ?thesis unfolding parses_treesD [OF assms] by blast
qed

lemma index_representation_iffs:
  "index_representation i = 0 \<longleftrightarrow> (\<exists>lo. i = Imm32 lo)"
  "index_representation i = 1 \<longleftrightarrow> (\<exists>lo hi. i = Imm64 lo hi)"
  "index_representation i = 2 \<longleftrightarrow> (\<exists>r. i = Rel r)"
  "index_representation i = 3 \<longleftrightarrow> (\<exists>lo r. i = Imm32_Rel lo r)"
  "index_representation i = 4 \<longleftrightarrow> (\<exists>lo hi r. i = Imm64_Rel lo hi r)"
  by (cases i; simp)+

lemma index_representation_range: "index_representation i \<in> {0, 1, 2, 3, 4}"
  by (cases i) simp_all

lemma ex_index_representation:
  "(\<exists>i. index_representation i = 0 \<and> P i) \<longleftrightarrow> (\<exists>lo. P (Imm32 lo))"
  "(\<exists>i. index_representation i = 1 \<and> P i) \<longleftrightarrow> (\<exists>lo hi. P (Imm64 lo hi))"
  "(\<exists>i. index_representation i = 2 \<and> P i) \<longleftrightarrow> (\<exists>r. P (Rel r))"
  "(\<exists>i. index_representation i = 3 \<and> P i) \<longleftrightarrow> (\<exists>lo r. P (Imm32_Rel lo r))"
  "(\<exists>i. index_representation i = 4 \<and> P i) \<longleftrightarrow> (\<exists>lo hi r. P (Imm64_Rel lo hi r))"
  unfolding index_representation_iffs by blast+

lemma offset_relative_Done:
  assumes rec: "parses_trees rec uc limit n" and s: "readable uc limit s" and b: "b < n"
    and first: "\<And>op2 s1 b1. first = Done (op2, s1, b1) \<longleftrightarrow> (\<exists>x. consumed limit s (ws x) s1 \<and> b1 = b \<and> op2 = g x)"
  shows "obind first (parse_relative rec limit d) = Done (op', s', b') \<longleftrightarrow>
    (\<exists>x T. legal_tree T \<and> tree_tokens T \<le> b \<and> b' = b - tree_tokens T \<and> consumed limit s (ws x @ tree_words T) s' \<and>
       op' = set_relative_operand d (Some (decode_tree T)) (g x))"
proof -
  have later: "parse_relative rec limit d (op2, s1, b) = Done (op', s', b') \<longleftrightarrow>
      (\<exists>T. legal_tree T \<and> tree_tokens T \<le> b \<and> b' = b - tree_tokens T \<and> consumed limit s1 (tree_words T) s' \<and>
        op' = set_relative_operand d (Some (decode_tree T)) op2)"
    if "consumed limit s ws s1" for ws s1 op2
    by (rule parse_relative_Done [OF rec consumed_readable [OF that s] consumed_facts(2) [OF that] b])
  have "obind first (parse_relative rec limit d) = Done (op', s', b') \<longleftrightarrow>
    (\<exists>x s1. consumed limit s (ws x) s1 \<and> parse_relative rec limit d (g x, s1, b) = Done (op', s', b'))"
    unfolding obind_Done_iff split_paired_Ex first by blast
  also have "\<dots> \<longleftrightarrow> (\<exists>x s1. consumed limit s (ws x) s1 \<and> (\<exists>T. legal_tree T \<and> tree_tokens T \<le> b \<and> b' = b - tree_tokens T \<and>
     consumed limit s1 (tree_words T) s' \<and> op' = set_relative_operand d (Some (decode_tree T)) (g x)))"
    by (intro ex_cong1 conj_cong refl later)
  finally show ?thesis unfolding consumed_append by blast
qed

lemma parse_index_Done:
  assumes rec: "parses_trees rec uc limit n" and s: "readable uc limit s" "bs_position s \<le> limit"
    and op: "index_arrays op" "d < 3" and b: "b < n"
  shows "parse_index rec uc limit t d (op, s, b) = Done (op', s', b') \<longleftrightarrow>
    (\<exists>i. index_representation i = token_representation t d \<and> legal_index i \<and> index_tokens i \<le> b \<and> b' = b - index_tokens i \<and>
       consumed limit s (index_words i) s' \<and> op' = with_index d i op)"
proof -
  define rep where "rep = token_representation t d"
  define op1 where "op1 = set_head (\<lambda>h. h\<lparr>oh_index_representations := (oh_index_representations h)[d := ucast rep]\<rparr>) op"
  have arr: "index_arrays op1" using op by (simp add: op1_def index_arrays_def)
  have hd: "set_head (\<lambda>h. h\<lparr>oh_index_representations := (oh_index_representations (op_head op))[d := ucast rep]\<rparr>) op = op1"
    by (cases op) (simp add: op1_def set_head_def)
  note leaf = parse_index32_Done [OF s(1) arr op(2)] parse_index64_Done [OF s(1) arr op(2)] parse_relative_Done [OF rec s b]
  have offset: "obind (parse_index32 uc limit d (op1, s, b)) (parse_relative rec limit d) = Done (op2, s', b') \<longleftrightarrow>
      (\<exists>lo T. legal_tree T \<and> tree_tokens T \<le> b \<and> b' = b - tree_tokens T \<and> consumed limit s (lo # tree_words T) s' \<and>
         op2 = set_relative_operand d (Some (decode_tree T)) (with_offset d (ucast lo) op1))"
    "obind (parse_index64 uc limit d (op1, s, b)) (parse_relative rec limit d) = Done (op2, s', b') \<longleftrightarrow>
      (\<exists>lo hi T. legal_tree T \<and> tree_tokens T \<le> b \<and> b' = b - tree_tokens T \<and> consumed limit s (lo # hi # tree_words T) s' \<and>
         op2 = set_relative_operand d (Some (decode_tree T)) (with_offset d (join_words lo hi) op1))" for op2
    using offset_relative_Done [OF rec s(1) b, of "parse_index32 uc limit d (op1, s, b)" "\<lambda>lo. [lo]" "\<lambda>lo. with_offset d (ucast lo) op1"]
      offset_relative_Done [OF rec s(1) b, of "parse_index64 uc limit d (op1, s, b)" "\<lambda>(lo, hi). [lo, hi]"
        "\<lambda>(lo, hi). with_offset d (join_words lo hi) op1"] leaf
    by simp_all
  have with_index: "with_index d i op = set_head (sync_legacy_index d)
      (let op = (if has_offset i then with_offset d (index_value i) op1 else op1) in
       if decode_index i = None then op else set_relative_operand d (decode_index i) op)" if "index_representation i = rep" for i
    using that by (simp add: with_index_def op1_def Let_def)
  have "parse_index rec uc limit t d (op, s, b) = Done (op', s', b') \<longleftrightarrow> (\<exists>op2.
     (if rep = 0 then parse_index32 uc limit d (op1, s, b)
        else if rep = 1 then parse_index64 uc limit d (op1, s, b)
        else if rep = 2 then parse_relative rec limit d (op1, s, b)
        else if rep = 3 then obind (parse_index32 uc limit d (op1, s, b)) (parse_relative rec limit d)
        else if rep = 4 then obind (parse_index64 uc limit d (op1, s, b)) (parse_relative rec limit d)
        else operand_parse_failed s limit b) = Done (op2, s', b') \<and> op' = set_head (sync_legacy_index d) op2)"
    using op unfolding parse_index_def prod.case Let_def token_representation_def [symmetric] rep_def [symmetric] index_arrays_def
    by (simp only: put_Done obind.simps hd obind_Done_iff split_paired_Ex prod.case outcome.inject prod.inject) auto
  also have "\<dots> \<longleftrightarrow> (\<exists>i. index_representation i = rep \<and> legal_index i \<and> index_tokens i \<le> b \<and> b' = b - index_tokens i \<and>
       consumed limit s (index_words i) s' \<and> op' = with_index d i op)"
  proof -
    consider (0) "rep = 0" | (1) "rep = 1" | (2) "rep = 2" | (3) "rep = 3" | (4) "rep = 4" | (other) "rep \<notin> {0, 1, 2, 3, 4}" by blast
    then show ?thesis
    proof cases
      case 0
      show ?thesis using with_index [unfolded 0] unfolding 0 ex_index_representation by (auto simp: leaf has_offset_def)
    next
      case 1
      show ?thesis using with_index [unfolded 1] unfolding 1 ex_index_representation by (simp add: leaf has_offset_def) blast
    next
      case 2
      show ?thesis using with_index [unfolded 2] unfolding 2 ex_index_representation by (simp add: leaf has_offset_def) blast
    next
      case 3
      show ?thesis using with_index [unfolded 3] unfolding 3 ex_index_representation by (simp add: offset has_offset_def) blast
    next
      case 4
      show ?thesis using with_index [unfolded 4] unfolding 4 ex_index_representation by (simp add: offset has_offset_def) blast
    next
      case other
      then show ?thesis using index_representation_range by auto
    qed
  qed
  finally show ?thesis unfolding rep_def .
qed

definition with_indices :: "operand_index list \<Rightarrow> operand \<Rightarrow> operand" where
  "with_indices idxs op = fold (\<lambda>(d, i). with_index d i) (enumerate 0 idxs) op"

lemma with_indices_snoc: "with_indices (idxs @ [i]) op = with_index (length idxs) i (with_indices idxs op)"
  by (simp add: with_indices_def enumerate_append_eq)

lemma index_arrays_with_indices [simp]: "index_arrays (with_indices idxs op) = index_arrays op"
  by (induction idxs rule: rev_induct) (simp_all add: with_indices_snoc, simp add: with_indices_def)

lemma ex_index_snoc:
  "(\<exists>idxs. map index_representation idxs = map f [0..<Suc m] \<and> P idxs) \<longleftrightarrow>
   (\<exists>idxs i. map index_representation idxs = map f [0..<m] \<and> index_representation i = f m \<and> P (idxs @ [i]))"
proof -
  have snoc: "map index_representation idxs = map f [0..<Suc m] \<longleftrightarrow>
    (\<exists>idxs' i. idxs = idxs' @ [i] \<and> map index_representation idxs' = map f [0..<m] \<and> index_representation i = f m)" for idxs
    by (cases idxs rule: rev_cases) auto
  show ?thesis unfolding snoc by blast
qed

lemma parse_indices_Done:
  assumes rec: "parses_trees rec uc limit n" and s: "readable uc limit s" "bs_position s \<le> limit"
    and op: "index_arrays op" "m \<le> 3" and b: "b < n"
  shows "ofold (parse_index rec uc limit t) [0..<m] (op, s, b) = Done (op', s', b') \<longleftrightarrow>
    (\<exists>idxs. map index_representation idxs = map (token_representation t) [0..<m] \<and> list_all legal_index idxs \<and>
       sum_list (map index_tokens idxs) \<le> b \<and> b' = b - sum_list (map index_tokens idxs) \<and>
       consumed limit s (concat (map index_words idxs)) s' \<and> op' = with_indices idxs op)"
  using op(2)
proof (induction m arbitrary: op' s' b')
  case 0
  then show ?case using s by (auto simp: with_indices_def)
next
  case (Suc m)
  let ?step = "\<lambda>idxs s1. map index_representation idxs = map (token_representation t) [0..<m] \<and> list_all legal_index idxs \<and>
       sum_list (map index_tokens idxs) \<le> b \<and> consumed limit s (concat (map index_words idxs)) s1"
  have step: "parse_index rec uc limit t m (with_indices idxs op, s1, b - sum_list (map index_tokens idxs)) = Done (op', s', b') \<longleftrightarrow>
    (\<exists>i. index_representation i = token_representation t m \<and> legal_index i \<and> index_tokens i \<le> b - sum_list (map index_tokens idxs) \<and>
       b' = b - sum_list (map index_tokens idxs) - index_tokens i \<and>
       consumed limit s1 (index_words i) s' \<and> op' = with_index m i (with_indices idxs op))" if "?step idxs s1" for idxs s1
    by (rule parse_index_Done [OF rec]) (use that consumed_facts(2) s op(1) Suc.prems b in auto)
  have "ofold (parse_index rec uc limit t) [0..<Suc m] (op, s, b) = Done (op', s', b') \<longleftrightarrow>
    (\<exists>idxs s1. ?step idxs s1 \<and>
       parse_index rec uc limit t m (with_indices idxs op, s1, b - sum_list (map index_tokens idxs)) = Done (op', s', b'))"
    using Suc unfolding upt_Suc_append [OF le0] ofold_snoc obind_Done_iff split_paired_Ex by auto
  also have "\<dots> \<longleftrightarrow> (\<exists>idxs s1 i. ?step idxs s1 \<and> index_representation i = token_representation t m \<and> legal_index i \<and>
       sum_list (map index_tokens (idxs @ [i])) \<le> b \<and> b' = b - sum_list (map index_tokens (idxs @ [i])) \<and>
       consumed limit s1 (index_words i) s' \<and> op' = with_indices (idxs @ [i]) op)" (is "?a \<longleftrightarrow> ?b")
  proof (intro ex_cong1)
    fix idxs s1
    show "(?step idxs s1 \<and> parse_index rec uc limit t m (with_indices idxs op, s1, b - sum_list (map index_tokens idxs)) = Done (op', s', b')) \<longleftrightarrow>
      (\<exists>i. ?step idxs s1 \<and> index_representation i = token_representation t m \<and> legal_index i \<and>
         sum_list (map index_tokens (idxs @ [i])) \<le> b \<and> b' = b - sum_list (map index_tokens (idxs @ [i])) \<and>
         consumed limit s1 (index_words i) s' \<and> op' = with_indices (idxs @ [i]) op)"
    proof (cases "?step idxs s1")
      case True
      then have m: "m = length idxs" by (metis diff_zero length_map length_upt)
      have "x \<le> b - S \<longleftrightarrow> S + x \<le> b" if "S \<le> b" for x S :: nat using that by arith
      with True show ?thesis unfolding step [OF True] with_indices_snoc m [symmetric] by simp
    qed blast
  qed
  also have "\<dots> \<longleftrightarrow> (\<exists>idxs. map index_representation idxs = map (token_representation t) [0..<Suc m] \<and> list_all legal_index idxs \<and>
       sum_list (map index_tokens idxs) \<le> b \<and> b' = b - sum_list (map index_tokens idxs) \<and>
       consumed limit s (concat (map index_words idxs)) s' \<and> op' = with_indices idxs op)"
  proof -
    show ?thesis unfolding ex_index_snoc by (simp add: consumed_append) (blast dest: add_leD1)
  qed
  finally show ?case .
qed

section \<open>The denotation\<close>

lemma list_update_self: "xs ! d = v \<Longrightarrow> xs[d := v] = xs"
  by auto

lemma with_index_head:
  assumes "oh_index_values h ! d = 0" "oh_index_has_immediate h ! d = False"
  shows "with_index d i (Operand h r0 r1 r2) = (let
     h' = sync_legacy_index d (h\<lparr>oh_index_representations := (oh_index_representations h)[d := ucast (index_representation i)],
       oh_index_values := (oh_index_values h)[d := index_value i], oh_index_has_immediate := (oh_index_has_immediate h)[d := has_offset i]\<rparr>) in
     if decode_index i = None then Operand h' r0 r1 r2 else set_relative_operand d (decode_index i) (Operand h' r0 r1 r2))"
proof -
  have "\<not> has_offset i \<Longrightarrow> index_value i = 0" by (cases i) (simp_all add: has_offset_def)
  moreover have "set_head f (set_relative_operand d r (Operand k r0 r1 r2)) = set_relative_operand d r (Operand (f k) r0 r1 r2)" for f r k
    by (simp add: set_head_def set_relative_operand_def)
  ultimately show ?thesis
    by (cases "has_offset i")
      (simp_all add: with_index_def with_offset_def set_head_def Let_def list_update_self [OF assms(1)] list_update_self [OF assms(2)])
qed

text \<open>The head after a list of indices.\<close>

definition indexed :: "operand_index list \<Rightarrow> operand_head \<Rightarrow> operand_head" where
  "indexed idxs h = (let legacy = nth_or 0 (map (legacy_index \<circ> index_value) idxs) in
     h\<lparr>oh_register_index := legacy 0, oh_rel_offset0 := legacy 1, oh_rel_offset1 := legacy 0, oh_rel_offset2 := legacy 2,
      oh_index_values := pad 3 0 (map index_value idxs), oh_index_representations := pad 3 0 (map (ucast \<circ> index_representation) idxs),
      oh_index_has_immediate := pad 3 False (map has_offset idxs),
      oh_index_value_exceeds_int := pad 3 False (map (\<lambda>i. INT_MAX < unat (index_value i)) idxs)\<rparr>)"

lemma pad_snoc: "length xs < n \<Longrightarrow> (pad n z xs)[length xs := v] = pad n z (xs @ [v])"
  by (cases "n - length xs") (simp_all add: pad_def list_update_append)

lemma length_pad [simp]: "length (pad n z xs) = max n (length xs)"
  by (simp add: pad_def)

lemma nth_pad: "length xs < n \<Longrightarrow> pad n z xs ! length xs = z"
  by (simp add: pad_def nth_append)

lemma nth_or_snoc: "nth_or z (xs @ [x]) k = (if k = length xs then x else nth_or z xs k)"
  by (simp add: nth_or_def nth_append)

lemma sync_legacy_eq:
  "sync_legacy_index d h = h\<lparr>
     oh_index_value_exceeds_int := (oh_index_value_exceeds_int h)[d := INT_MAX < unat (oh_index_values h ! d)],
     oh_register_index := (if d = 0 then legacy_index (oh_index_values h ! d) else oh_register_index h),
     oh_rel_offset1 := (if d = 0 then legacy_index (oh_index_values h ! d) else oh_rel_offset1 h),
     oh_rel_offset0 := (if d = 1 then legacy_index (oh_index_values h ! d) else oh_rel_offset0 h),
     oh_rel_offset2 := (if d \<noteq> 0 \<and> d \<noteq> 1 then legacy_index (oh_index_values h ! d) else oh_rel_offset2 h)\<rparr>"
  by (cases h) (simp add: sync_legacy_index_def legacy_index_def Let_def)

lemma index_snoc:
  assumes "length idxs < 3"
  shows "with_index (length idxs) i (let r = nth_or None (map decode_index idxs) in Operand (indexed idxs h) (r 0) (r 1) (r 2)) =
    (let r = nth_or None (map decode_index (idxs @ [i])) in Operand (indexed (idxs @ [i]) h) (r 0) (r 1) (r 2))"
proof -
  note arrays = pad_snoc [of "map f idxs" 3 for f :: "operand_index \<Rightarrow> 'z", simplified, OF assms]
  have at: "oh_index_values (indexed idxs h) ! length idxs = 0" "oh_index_has_immediate (indexed idxs h) ! length idxs = False"
    using nth_pad [of "map index_value idxs" 3 0] nth_pad [of "map has_offset idxs" 3 False] assms by (simp_all add: indexed_def Let_def)
  have rel: "nth_or None (map decode_index idxs) (length idxs) = None" by (simp add: nth_or_def)
  have upd: "sync_legacy_index (length idxs) ((indexed idxs h)\<lparr>
      oh_index_representations := (oh_index_representations (indexed idxs h))[length idxs := ucast (index_representation i)],
      oh_index_values := (oh_index_values (indexed idxs h))[length idxs := index_value i],
      oh_index_has_immediate := (oh_index_has_immediate (indexed idxs h))[length idxs := has_offset i]\<rparr>) = indexed (idxs @ [i]) h"
  proof -
    have v: "pad 3 0 (map index_value idxs @ [index_value i]) ! length idxs = index_value i"
      using assms by (simp add: pad_def nth_append)
    have d: "length idxs = 0 \<or> length idxs = 1 \<or> length idxs = 2" using assms by linarith
    have fields: "(if length idxs \<noteq> 0 \<and> length idxs \<noteq> 1 then x else y) = (if 2 = length idxs then x else y)"
      "(if length idxs = 0 then x else y) = (if 0 = length idxs then x else y)"
      "(if length idxs = 1 then x else y) = (if 1 = length idxs then x else y)" for x y :: int
      using d by auto
    show ?thesis
      unfolding sync_legacy_eq fields
      by (rule operand_head.equality) (use assms in \<open>simp_all add: indexed_def Let_def arrays v nth_or_snoc del: One_nat_def\<close>)
  qed
  consider "length idxs = 0" | "length idxs = 1" | "length idxs = 2" using assms by linarith
  then show ?thesis
    using rel unfolding Let_def with_index_head [OF at] upd
    by cases (auto simp: set_relative_operand_def nth_or_snoc, auto simp: nth_or_def)
qed

lemma with_indices_result:
  assumes "length idxs \<le> 3" "indexed [] h = h"
  shows "with_indices idxs (Operand h None None None) =
    (let r = nth_or None (map decode_index idxs) in Operand (indexed idxs h) (r 0) (r 1) (r 2))"
  using assms(1)
proof (induction idxs rule: rev_induct)
  case Nil
  then show ?case by (simp add: with_indices_def assms(2) nth_or_def)
next
  case (snoc i idxs)
  then show ?case unfolding with_indices_snoc using index_snoc [of idxs i h] by simp
qed

lemma selected_swizzle: "oh_swizzle h = [0, 1, 2, 3] \<Longrightarrow> select_swizzle t h = h\<lparr>oh_swizzle := selected_lanes t\<rparr>"
  by (cases h) (simp add: select_swizzle_def selected_lanes_def is_immediate_def token_type_def token_selection_def Let_def upt_rec)

lemma decoded_tree:
  assumes "extension_inv exts ex" "length imms = immediate_words t" "length idxs = token_dimensions t" "token_dimensions t \<le> 3"
  shows "set_head (select_swizzle t) (with_indices idxs
      (Operand (if is_immediate t then imm_head t imms (operand_start t ex) else operand_start t ex) None None None)) =
    decode_tree (Tree t exts imms idxs)"
proof -
  let ?h = "if is_immediate t then imm_head t imms (operand_start t ex) else operand_start t ex"
  have ex: "ex_tokens ex = exts" "ex_min_precision ex = precision_bits exts" "ex_modifier ex = modifier_bits exts"
    using assms(1) by (simp_all add: extension_inv_def)
  have bits: "w AND 1 \<noteq> 0 \<longleftrightarrow> bit w 0" "w AND 2 \<noteq> 0 \<longleftrightarrow> bit w 1" for w :: u32
    using bit_iff_and_push_bit_not_eq_0 [of w 0] bit_iff_and_push_bit_not_eq_0 [of w 1] by (simp_all add: push_bit_eq_mult)
  have "indexed [] ?h = ?h"
    by (simp add: indexed_def imm_head_def operand_start_def zero_head_def Let_def nth_or_def pad_def)
  with with_indices_result assms(3,4) have res: "with_indices idxs (Operand ?h None None None) =
    (let r = nth_or None (map decode_index idxs) in Operand (indexed idxs ?h) (r 0) (r 1) (r 2))" by simp
  have sw: "oh_swizzle ?h = [0, 1, 2, 3]" by (simp add: imm_head_def operand_start_def Let_def)
  have no_imm: "\<not> is_immediate t \<Longrightarrow> imms = []" using assms(2) by (simp add: immediate_words_def)
  have head: "?h = tree_head t exts imms [] \<lparr>oh_register_index_dim := int (token_dimensions t), oh_swizzle := [0, 1, 2, 3]\<rparr>"
    using no_imm
    by (simp add: imm_head_def operand_start_def zero_head_def tree_head_def Let_def ex bits is_immediate_def
        token_type_def [symmetric] token_selection_def [symmetric] token_dimensions_def [symmetric] nth_or_def pad_def)
  show ?thesis
    unfolding res using sw assms(3)
    by (simp add: set_head_def Let_def selected_swizzle indexed_def head tree_head_def)
qed

section \<open>The parser accepts exactly the grammar\<close>

lemma consumed_one_unique:
  assumes "consumed limit s [t] s1" "consumed limit s (t' # ws) s'"
  shows "t' = t"
proof -
  from assms(2) obtain s2 where "consumed limit s [t'] s2" unfolding consumed_Cons [of limit s t' ws] by blast
  with assms(1) show ?thesis by (simp add: consumed_def)
qed

lemma first_word:
  assumes "readable uc limit s" "bs_position s + 4 \<le> limit"
  shows "\<exists>t s1. operand_read_u32 uc s limit = Some (t, s1) \<and> consumed limit s [t] s1"
proof -
  obtain v where v: "rd32 (bs_data s) (bs_position s) = Some v" using rd32_ex assms by (fastforce simp: readable_def)
  with assms show ?thesis
    by (auto simp: operand_read_u32_def readable_def stream_read_uint32_eq consumed_def rd32_bslice4)
qed

abbreviation (input) "ex0 \<equiv> \<lparr>ex_tokens = [], ex_modifier = 0, ex_saw_modifier = False, ex_min_precision = 0\<rparr>"

lemma extension_stage:
  assumes "memory_available uc" "readable uc limit s" "bs_position s \<le> limit"
  shows "(if more_tokens t then read_extensions (Suc (limit - bs_position s)) uc limit budget s ex0 else Done (s, ex0)) = Done (s', ex) \<longleftrightarrow>
    (\<exists>exts. consumed limit s exts s' \<and> legal_extensions t exts \<and> extension_inv exts ex)"
proof -
  have init: "extension_inv [] ex0" by (simp add: extension_inv_def modifier_bits_def precision_bits_def)
  show ?thesis
  proof (cases "more_tokens t")
    case True
    have legal: "legal_extensions t exts \<longleftrightarrow>
      (\<exists>e es. exts = e # es \<and> chained e es \<and> (\<forall>x\<in>set exts. legal_extension x) \<and> length (filter is_modifier exts) \<le> 1)" for exts
      using True by (cases exts) (auto simp: legal_extensions_def)
    have run: "read_extensions (Suc (limit - bs_position s)) uc limit budget s ex0 = Done (s', ex) \<longleftrightarrow>
      (\<exists>e es. consumed limit s (e # es) s' \<and> chained e es \<and> (\<forall>x\<in>set (e # es). legal_extension x) \<and>
         length (filter is_modifier ([] @ e # es)) \<le> 1 \<and> extension_inv ([] @ e # es) ex)"
      by (rule read_extensions_Done [OF assms(1,2) init]) (use assms(2) in \<open>simp_all add: readable_def\<close>)
    show ?thesis unfolding if_P [OF True] run legal append_Nil by blast
  next
    case False
    then have "legal_extensions t exts \<longleftrightarrow> exts = []" for exts by (cases exts) (auto simp: legal_extensions_def)
    with False init assms(3) show ?thesis by (auto dest: extension_inv_unique)
  qed
qed

lemma token_dimensions_le: "token_dimensions t \<le> 3"
proof -
  have "drop_bit 20 t AND 3 \<le> 3" by (rule word_and_le1)
  then show ?thesis by (simp add: token_dimensions_def word_le_nat_alt)
qed

lemma start_arrays:
  "oh_immediate_words (operand_start t ex) = replicate 8 0"
  "index_arrays (Operand (operand_start t ex) None None None)"
  "index_arrays (Operand (imm_head t imms (operand_start t ex)) None None None)"
  by (simp_all add: index_arrays_def operand_start_def imm_head_def zero_head_def Let_def)

lemma immediate_stage:
  assumes "readable uc limit s" "bs_position s \<le> limit" "\<not> (token_components t = 2 \<and> token_selection t = 3)" "token_components t \<noteq> 3"
  shows "(if is_immediate t then parse_immediate uc limit budget t (s, operand_start t ex) else Done (s, operand_start t ex)) = Done (s', h) \<longleftrightarrow>
    (\<exists>imms. legal_token t \<and> length imms = immediate_words t \<and> consumed limit s imms s' \<and>
       h = (if is_immediate t then imm_head t imms (operand_start t ex) else operand_start t ex))"
  using assms parse_immediate_Done [OF assms(1,2) _ start_arrays(1) assms(3)]
  by (auto simp: legal_token_def immediate_words_def)

lemma parse_operand_body_stages:
  assumes "memory_available uc" "b \<noteq> 0" "limit \<le> length (bs_data s)" "bs_position s + 4 \<le> limit" "operand_read_u32 uc s limit = Some (t, s1)"
  shows "parse_operand_body rec uc limit (s, b) =
    obind (if more_tokens t then read_extensions (Suc (limit - bs_position s1)) uc limit (b - 1) s1 ex0 else Done (s1, ex0)) (\<lambda>(s2, ex).
      if token_components t = 3 \<or> token_components t = 2 \<and> token_selection t = 3 then operand_parse_failed s2 limit (b - 1)
      else obind (if is_immediate t then parse_immediate uc limit (b - 1) t (s2, operand_start t ex) else Done (s2, operand_start t ex)) (\<lambda>(s3, h).
        obind (ofold (parse_index rec uc limit t) [0..<token_dimensions t] (Operand h None None None, s3, b - 1)) (\<lambda>(op, s4, b4).
        Done (set_head (select_swizzle t) op, s4, b4))))"
proof -
  have g: "\<not> (b = 0 \<or> limit > length (bs_data s) \<or> bs_position s > limit \<or> limit - bs_position s < 4)" using assms by auto
  have m: "\<not> \<not> mem_alloc uc sizeof_operand" using assms(1) by simp
  show ?thesis
    unfolding parse_operand_body_def prod.case if_not_P [OF g] Let_def assms(5) option.case if_not_P [OF m]
      more_tokens_def token_components_def token_selection_def token_dimensions_def is_immediate_def token_type_def
    by (rule refl)
qed

lemma index_stage:
  assumes rec: "parses_trees rec uc limit n" and s: "readable uc limit s" "bs_position s \<le> limit" and b: "b < n"
    and h: "extension_inv exts ex" "length imms = immediate_words t"
  shows "obind (ofold (parse_index rec uc limit t) [0..<token_dimensions t]
      (Operand (if is_immediate t then imm_head t imms (operand_start t ex) else operand_start t ex) None None None, s, b))
      (\<lambda>(op, s4, b4). Done (set_head (select_swizzle t) op, s4, b4)) = Done (op', s', b') \<longleftrightarrow>
    (\<exists>idxs. map index_representation idxs = map (token_representation t) [0..<token_dimensions t] \<and> list_all legal_index idxs \<and>
       sum_list (map index_tokens idxs) \<le> b \<and> b' = b - sum_list (map index_tokens idxs) \<and>
       consumed limit s (concat (map index_words idxs)) s' \<and> op' = decode_tree (Tree t exts imms idxs))"
proof -
  let ?op = "Operand (if is_immediate t then imm_head t imms (operand_start t ex) else operand_start t ex) None None None"
  have arr: "index_arrays ?op" using start_arrays by simp
  have len: "length idxs = token_dimensions t" if "map index_representation idxs = map (token_representation t) [0..<token_dimensions t]" for idxs
    using that by (metis diff_zero length_map length_upt)
  have eq: "decode_tree (Tree t exts imms idxs) = set_head (select_swizzle t) (with_indices idxs ?op)"
    if "map index_representation idxs = map (token_representation t) [0..<token_dimensions t]" for idxs
    by (rule decoded_tree [OF h len [OF that] token_dimensions_le, symmetric])
  show ?thesis
    unfolding obind_Done_iff split_paired_Ex parse_indices_Done [OF rec s arr token_dimensions_le b] using eq by auto
qed

text \<open>Behind the extension tokens: the token check, the immediates and the indices.\<close>

lemma payload_stage:
  assumes rec: "parses_trees rec uc limit n" and s: "readable uc limit s" "bs_position s \<le> limit" and b: "b < n" and ex: "extension_inv exts ex"
  shows "(if token_components t = 3 \<or> token_components t = 2 \<and> token_selection t = 3 then operand_parse_failed s limit b
      else obind (if is_immediate t then parse_immediate uc limit b t (s, operand_start t ex) else Done (s, operand_start t ex)) (\<lambda>(s3, h).
        obind (ofold (parse_index rec uc limit t) [0..<token_dimensions t] (Operand h None None None, s3, b)) (\<lambda>(op, s4, b4).
        Done (set_head (select_swizzle t) op, s4, b4)))) = Done (op', s', b') \<longleftrightarrow>
    (\<exists>imms s3 idxs. legal_token t \<and> length imms = immediate_words t \<and> consumed limit s imms s3 \<and>
       map index_representation idxs = map (token_representation t) [0..<token_dimensions t] \<and> list_all legal_index idxs \<and>
       sum_list (map index_tokens idxs) \<le> b \<and> b' = b - sum_list (map index_tokens idxs) \<and>
       consumed limit s3 (concat (map index_words idxs)) s' \<and> op' = decode_tree (Tree t exts imms idxs))"
proof (cases "token_components t = 3 \<or> token_components t = 2 \<and> token_selection t = 3")
  case False
  then have ok: "\<not> (token_components t = 2 \<and> token_selection t = 3)" "token_components t \<noteq> 3" by auto
  let ?h = "\<lambda>imms. if is_immediate t then imm_head t imms (operand_start t ex) else operand_start t ex"
  let ?rest = "\<lambda>s3 h. obind (ofold (parse_index rec uc limit t) [0..<token_dimensions t] (Operand h None None None, s3, b)) (\<lambda>(op, s4, b4).
        Done (set_head (select_swizzle t) op, s4, b4) :: (operand \<times> byte_stream \<times> nat) operand_outcome)"
  have "(\<exists>s3 h. (\<exists>imms. legal_token t \<and> length imms = immediate_words t \<and> consumed limit s imms s3 \<and> h = ?h imms) \<and> ?rest s3 h = Done (op', s', b')) \<longleftrightarrow>
    (\<exists>imms s3. legal_token t \<and> length imms = immediate_words t \<and> consumed limit s imms s3 \<and> ?rest s3 (?h imms) = Done (op', s', b'))"
    by blast
  also have "\<dots> \<longleftrightarrow> (\<exists>imms s3. legal_token t \<and> length imms = immediate_words t \<and> consumed limit s imms s3 \<and> (\<exists>idxs.
       map index_representation idxs = map (token_representation t) [0..<token_dimensions t] \<and> list_all legal_index idxs \<and>
       sum_list (map index_tokens idxs) \<le> b \<and> b' = b - sum_list (map index_tokens idxs) \<and>
       consumed limit s3 (concat (map index_words idxs)) s' \<and> op' = decode_tree (Tree t exts imms idxs)))"
    by (intro ex_cong1 conj_cong refl index_stage [OF rec _ _ b ex])
       (use s consumed_facts(2) in auto)
  finally show ?thesis
    unfolding if_not_P [OF False] obind_Done_iff [of "if is_immediate t then _ else _"] split_paired_Ex prod.case immediate_stage [OF s ok] by blast
qed (auto simp: legal_token_def)

lemma extension_inv_exists: "\<exists>ex. extension_inv exts ex"
  by (intro exI [of _ "\<lparr>ex_tokens = exts, ex_modifier = modifier_bits exts, ex_saw_modifier = (\<exists>x\<in>set exts. is_modifier x),
    ex_min_precision = precision_bits exts\<rparr>"]) (simp add: extension_inv_def)

lemma parse_behind_token:
  assumes rec: "parses_trees rec uc limit n" and uc: "memory_available uc" and s: "readable uc limit s" and b: "b < Suc n"
    and b0: "b \<noteq> 0" and room: "bs_position s + 4 \<le> limit" and t: "operand_read_u32 uc s limit = Some (t, s1)" "consumed limit s [t] s1"
  shows "parse_operand_body rec uc limit (s, b) = Done (op', s', b') \<longleftrightarrow>
    (\<exists>exts s2 imms s3 idxs. consumed limit s1 exts s2 \<and> consumed limit s2 imms s3 \<and> consumed limit s3 (concat (map index_words idxs)) s' \<and>
       legal_tree (Tree t exts imms idxs) \<and> tree_tokens (Tree t exts imms idxs) \<le> b \<and> b' = b - tree_tokens (Tree t exts imms idxs) \<and>
       op' = decode_tree (Tree t exts imms idxs))"
proof -
  have s1: "readable uc limit s1" "bs_position s1 \<le> limit" using t(2) s by (simp_all add: consumed_facts(2) [OF t(2)])
  have b1: "b - 1 < n" using b b0 by linarith
  have limit: "limit \<le> length (bs_data s)" using s by (simp add: readable_def)
  have "parse_operand_body rec uc limit (s, b) = Done (op', s', b') \<longleftrightarrow> (\<exists>s2 ex exts. consumed limit s1 exts s2 \<and> legal_extensions t exts \<and> extension_inv exts ex \<and>
    (if token_components t = 3 \<or> token_components t = 2 \<and> token_selection t = 3 then operand_parse_failed s2 limit (b - 1)
    else obind (if is_immediate t then parse_immediate uc limit (b - 1) t (s2, operand_start t ex) else Done (s2, operand_start t ex)) (\<lambda>(s3, h).
      obind (ofold (parse_index rec uc limit t) [0..<token_dimensions t] (Operand h None None None, s3, b - 1)) (\<lambda>(op, s4, b4).
      Done (set_head (select_swizzle t) op, s4, b4)))) = Done (op', s', b'))"
    unfolding parse_operand_body_stages [OF uc b0 limit room t(1)]
      obind_Done_iff [of "if more_tokens t then _ else _"] split_paired_Ex prod.case extension_stage [OF uc s1] by blast
  also have "\<dots> \<longleftrightarrow> (\<exists>s2 ex exts. consumed limit s1 exts s2 \<and> legal_extensions t exts \<and> extension_inv exts ex \<and>
    (\<exists>imms s3 idxs. legal_token t \<and> length imms = immediate_words t \<and> consumed limit s2 imms s3 \<and>
     map index_representation idxs = map (token_representation t) [0..<token_dimensions t] \<and> list_all legal_index idxs \<and>
     sum_list (map index_tokens idxs) \<le> b - 1 \<and> b' = b - 1 - sum_list (map index_tokens idxs) \<and>
     consumed limit s3 (concat (map index_words idxs)) s' \<and> op' = decode_tree (Tree t exts imms idxs)))"
    by (intro ex_cong1 conj_cong refl payload_stage [OF rec _ _ b1]) (use s1 consumed_facts(2) in auto)
  also have "\<dots> \<longleftrightarrow> (\<exists>exts s2 imms s3 idxs. consumed limit s1 exts s2 \<and> consumed limit s2 imms s3 \<and> consumed limit s3 (concat (map index_words idxs)) s' \<and>
     legal_tree (Tree t exts imms idxs) \<and> tree_tokens (Tree t exts imms idxs) \<le> b \<and> b' = b - tree_tokens (Tree t exts imms idxs) \<and>
     op' = decode_tree (Tree t exts imms idxs))"
  proof -
    have "\<exists>ex. extension_inv exts ex" for exts using extension_inv_exists by blast
    moreover have "S \<le> b - 1 \<and> b' = b - 1 - S \<longleftrightarrow> Suc S \<le> b \<and> b' = b - Suc S" for S using b0 by auto
    ultimately show ?thesis by (simp only: legal_tree.simps tree_tokens.simps) blast
  qed
  finally show ?thesis .
qed

lemma parse_operand_body_Done:
  assumes rec: "parses_trees rec uc limit n" and uc: "memory_available uc" and s: "readable uc limit s" and b: "b < Suc n"
  shows "parse_operand_body rec uc limit (s, b) = Done (op', s', b') \<longleftrightarrow>
    (\<exists>T. legal_tree T \<and> tree_tokens T \<le> b \<and> b' = b - tree_tokens T \<and> consumed limit s (tree_words T) s' \<and> op' = decode_tree T)"
    (is "_ \<longleftrightarrow> ?tree")
proof (cases "b \<noteq> 0 \<and> bs_position s + 4 \<le> limit")
  case True
  then obtain t s1 where t: "operand_read_u32 uc s limit = Some (t, s1)" "consumed limit s [t] s1" using first_word [OF s] by blast
  have "parse_operand_body rec uc limit (s, b) = Done (op', s', b') \<longleftrightarrow>
    (\<exists>exts s2 imms s3 idxs. consumed limit s1 exts s2 \<and> consumed limit s2 imms s3 \<and> consumed limit s3 (concat (map index_words idxs)) s' \<and>
       legal_tree (Tree t exts imms idxs) \<and> tree_tokens (Tree t exts imms idxs) \<le> b \<and> b' = b - tree_tokens (Tree t exts imms idxs) \<and>
       op' = decode_tree (Tree t exts imms idxs))"
    using True by (intro parse_behind_token [OF rec uc s b _ _ t]) simp_all
  also have "\<dots> \<longleftrightarrow> (\<exists>exts imms idxs. consumed limit s1 (exts @ imms @ concat (map index_words idxs)) s' \<and>
       legal_tree (Tree t exts imms idxs) \<and> tree_tokens (Tree t exts imms idxs) \<le> b \<and> b' = b - tree_tokens (Tree t exts imms idxs) \<and>
       op' = decode_tree (Tree t exts imms idxs))"
    unfolding consumed_append by blast
  also have "\<dots> \<longleftrightarrow> ?tree"
  proof -
    have words: "consumed limit s (tree_words (Tree t' exts imms idxs)) s' \<longleftrightarrow> t' = t \<and> consumed limit s1 (exts @ imms @ concat (map index_words idxs)) s'" for t' exts imms idxs
      using t(2) consumed_one_unique [OF t(2), of t'] unfolding tree_words.simps consumed_Cons [of limit s t' "exts @ imms @ concat (map index_words idxs)"]
      by (auto simp: consumed_def)
    have ex: "(\<exists>T. P T) \<longleftrightarrow> (\<exists>t exts imms idxs. P (Tree t exts imms idxs))" for P by (metis operand_tree.exhaust)
    show ?thesis unfolding ex words by blast
  qed
  finally show ?thesis .
next
  case False
  then have "parse_operand_body rec uc limit (s, b) \<noteq> Done (op', s', b')" by (auto simp: parse_operand_body_def)
  moreover have "\<not> ?tree"
  proof
    assume ?tree
    then obtain T where "tree_tokens T \<le> b" "consumed limit s (tree_words T) s'" by blast
    with False show False by (cases T) (auto simp: consumed_def)
  qed
  ultimately show ?thesis by blast
qed

lemma impl_parses_trees:
  assumes "memory_available uc"
  shows "parses_trees (parse_operand_recursive_impl n uc limit) uc limit n"
proof (induction n)
  case (Suc n)
  then show ?case
    unfolding parses_trees_def parse_operand_recursive_impl.simps by (intro allI impI parse_operand_body_Done [OF Suc assms])
qed (simp add: parses_trees_def)

lemma tokens_le_words: "tree_tokens T \<le> length (tree_words T)" "index_tokens i \<le> length (index_words i)"
proof (induction T and i)
  case (Tree t exts imms idxs)
  then have "sum_list (map index_tokens idxs) \<le> sum_list (map (length \<circ> index_words) idxs)" by (auto intro: sum_list_mono)
  then show ?case by (simp add: length_concat comp_def)
qed auto

section \<open>Bounds, failures and fuel\<close>

text \<open>
  A stream that has moved forward but not past the limit, and the judgement that a computation never
  faults, fails only with the stream at the limit, and otherwise gives a result with \<open>Q\<close>.
\<close>

definition moved :: "nat \<Rightarrow> byte_stream \<Rightarrow> byte_stream \<Rightarrow> bool" where
  "moved limit s s' \<longleftrightarrow> s' = s\<lparr>bs_position := bs_position s'\<rparr> \<and> bs_position s \<le> bs_position s' \<and> bs_position s' \<le> limit"

definition keeps :: "nat \<Rightarrow> byte_stream \<Rightarrow> ('a \<Rightarrow> bool) \<Rightarrow> 'a operand_outcome \<Rightarrow> bool" where
  "keeps limit s Q m \<longleftrightarrow> (case m of Fault \<Rightarrow> False | Fail (s', b) \<Rightarrow> s' = s\<lparr>bs_position := limit\<rparr> | Done r \<Rightarrow> Q r)"

lemma keeps_Done [simp]: "keeps limit s Q (Done r) \<longleftrightarrow> Q r"
  by (simp add: keeps_def)

lemma keeps_bind: "keeps limit s Q m \<Longrightarrow> (\<And>r. Q r \<Longrightarrow> keeps limit s Q' (f r)) \<Longrightarrow> keeps limit s Q' (obind m f)"
  by (cases m) (auto simp: keeps_def)

lemma keeps_failed: "readable uc limit s \<Longrightarrow> moved limit s s' \<Longrightarrow> keeps limit s Q (operand_parse_failed s' limit b)"
  by (cases s; cases s') (simp add: keeps_def operand_parse_failed_def moved_def readable_def)

lemma keeps_next:
  assumes "readable uc limit s" "moved limit s s'"
  shows "keeps limit s (\<lambda>(v, s''). moved limit s s'' \<and> bs_position s'' = bs_position s' + 4) (operand_next uc limit b s')"
proof -
  have s': "readable uc limit s'" "bs_data s' = bs_data s" using assms by (cases s; cases s'; simp add: moved_def readable_def)+
  show ?thesis
  proof (cases "operand_next uc limit b s'")
    case (Done r)
    then obtain v s'' where r: "r = (v, s'')" "consumed limit s' [v] s''" using next_Done [OF s'(1)] by (cases r) blast
    with assms(2) show ?thesis unfolding Done by (cases s; cases s'; simp add: moved_def consumed_def)
  qed (use keeps_failed [OF assms, of _ b] in \<open>auto simp: operand_next_def operand_parse_failed_def split: option.splits\<close>)
qed

lemma keeps_ofold:
  assumes "Q (0 :: nat) st" "\<And>i r. Q i r \<Longrightarrow> i < n \<Longrightarrow> keeps limit s (Q (Suc i)) (step i r)"
  shows "keeps limit s (Q n) (ofold step [0..<n] st)"
  using assms(2)
proof (induction n)
  case (Suc n)
  then show ?case unfolding upt_Suc_append [OF le0] ofold_snoc by (intro keeps_bind [OF Suc.IH]) auto
qed (simp add: assms(1))

lemma keeps_if: "(c \<Longrightarrow> keeps limit s Q m) \<Longrightarrow> (\<not> c \<Longrightarrow> keeps limit s Q m') \<Longrightarrow> keeps limit s Q (if c then m else m')"
  by simp

lemma keeps_put: "i < length xs \<Longrightarrow> keeps limit s (\<lambda>ys. ys = xs[i := v]) (put xs i v)"
  by (simp add: put_def)

lemma read_extensions_keeps:
  assumes "readable uc limit s" "moved limit s s'" "limit - bs_position s' < fuel"
  shows "keeps limit s (\<lambda>(s'', ex). moved limit s s'') (read_extensions fuel uc limit b s' st)"
  using assms(2,3)
proof (induction fuel arbitrary: s' st)
  case (Suc fuel)
  show ?case unfolding read_extensions.simps
  proof (rule keeps_bind [OF keeps_next [OF assms(1) Suc.prems(1)]], clarify)
    fix e s1
    assume s1: "moved limit s s1" "bs_position s1 = bs_position s' + 4"
    have "keeps limit s (\<lambda>(s'', ex). moved limit s s'') (read_extensions fuel uc limit b s1 st1)" for st1
      using Suc s1 by (intro Suc.IH) (auto simp: moved_def)
    then show "keeps limit s (\<lambda>(s'', ex). moved limit s s'')
        (case append_extended_token uc (ex_tokens st) e of None \<Rightarrow> operand_parse_failed s1 limit b
         | Some tokens \<Rightarrow> case apply_extension e (st\<lparr>ex_tokens := tokens\<rparr>) of None \<Rightarrow> operand_parse_failed s1 limit b
           | Some st \<Rightarrow> if e AND 0x80000000 \<noteq> 0 then read_extensions fuel uc limit b s1 st else Done (s1, st))"
      using s1(1) keeps_failed [OF assms(1) s1(1)] by (auto split: option.split)
  qed
qed simp

lemma parse_immediate_keeps:
  assumes "readable uc limit s" "moved limit s s'" "length (oh_immediate_words h) = 8"
  shows "keeps limit s (\<lambda>(s'', h'). moved limit s s'' \<and> index_arrays (Operand h' None None None) = index_arrays (Operand h None None None))
    (parse_immediate uc limit b t (s', h))"
proof -
  have words: "keeps limit s (\<lambda>(s'', ws). moved limit s s'' \<and> length ws = 8) (read_immediate_words uc limit b n (s', oh_immediate_words h))" if "n \<le> 8" for n
    unfolding read_immediate_words_def
  proof (rule keeps_ofold [where Q = "\<lambda>_ (s'', ws). moved limit s s'' \<and> length ws = 8"])
    fix i :: nat and r :: "byte_stream \<times> u32 list"
    assume r: "case r of (s'', ws) \<Rightarrow> moved limit s s'' \<and> length ws = 8" "i < n"
    then show "keeps limit s (\<lambda>(s'', ws). moved limit s s'' \<and> length ws = 8) (case r of (stream, words) \<Rightarrow>
       obind (operand_next uc limit b stream) (\<lambda>(v, stream). obind (put words i v) (\<lambda>words. Done (stream, words))))"
      using that by (auto intro!: keeps_bind [OF keeps_next [OF assms(1)]] keeps_bind [OF keeps_put])
  qed (use assms in simp)
  show ?thesis
    unfolding parse_immediate_def prod.case Let_def
    by (intro keeps_if keeps_failed [OF assms(1,2)] keeps_bind [OF words]) (auto simp: index_arrays_def split: prod.split)
qed

definition parser_keeps :: "nat \<Rightarrow> byte_stream \<Rightarrow> nat \<Rightarrow> operand_parser \<Rightarrow> bool" where
  "parser_keeps limit s n rec \<longleftrightarrow> (\<forall>s' b. moved limit s s' \<longrightarrow> b < n \<longrightarrow>
     keeps limit s (\<lambda>(op, s'', b'). moved limit s s'' \<and> b' \<le> b) (rec (s', b)))"

abbreviation (input) index_ok :: "nat \<Rightarrow> byte_stream \<Rightarrow> nat \<Rightarrow> operand \<times> byte_stream \<times> nat \<Rightarrow> bool" where
  "index_ok limit s n \<equiv> \<lambda>(op, s', b). moved limit s s' \<and> b < n \<and> index_arrays op"

lemma index_arrays_simps [simp]:
  "index_arrays (set_relative_operand d r op) = index_arrays op"
  "index_arrays (set_head (sync_legacy_index d) op) = index_arrays op"
  "index_arrays (with_offset d v op) = index_arrays op"
  by (simp_all add: index_arrays_def)

lemma parse_relative_keeps:
  assumes "readable uc limit s" "parser_keeps limit s n rec" "index_ok limit s n st"
  shows "keeps limit s (index_ok limit s n) (parse_relative rec limit d st)"
proof -
  obtain op s' b where st: "st = (op, s', b)" by (cases st)
  have "keeps limit s (\<lambda>(op, s'', b'). moved limit s s'' \<and> b' \<le> b) (rec (s', b))"
    using assms(2,3) by (auto simp: parser_keeps_def st)
  then show ?thesis using assms(1,3)
    by (cases "rec (s', b)")
      (auto simp: parse_relative_def st keeps_def operand_parse_failed_def readable_def split: prod.splits)
qed

lemma parse_offset_keeps:
  assumes "readable uc limit s" "index_ok limit s n st" "d < 3"
  shows "keeps limit s (index_ok limit s n) (parse_index32 uc limit d st)" "keeps limit s (index_ok limit s n) (parse_index64 uc limit d st)"
proof -
  obtain op s' b where st: "st = (op, s', b)" by (cases st)
  have store: "keeps limit s (index_ok limit s n) (store_index d v (op, s1, b))" if "moved limit s s1" for v s1
    using assms(2,3) that by (simp add: st store_index_Done)
  show "keeps limit s (index_ok limit s n) (parse_index32 uc limit d st)" "keeps limit s (index_ok limit s n) (parse_index64 uc limit d st)"
    using assms(2) unfolding parse_index32_def parse_index64_def st prod.case
    by (auto intro!: keeps_bind [OF keeps_next [OF assms(1)]] store)
qed

lemma parse_index_keeps:
  assumes "readable uc limit s" "parser_keeps limit s n rec" "index_ok limit s n st" "d < 3"
  shows "keeps limit s (index_ok limit s n) (parse_index rec uc limit t d st)"
proof -
  obtain op s' b where st: "st = (op, s', b)" by (cases st)
  have op: "index_arrays op" "moved limit s s'" "b < n" using assms(3) by (simp_all add: st)
  have put: "put (oh_index_representations (op_head op)) d v = Done ((oh_index_representations (op_head op))[d := v])" for v
    using op(1) assms(4) by (simp add: put_Done index_arrays_def)
  have start: "index_ok limit s n (set_head (\<lambda>h. h\<lparr>oh_index_representations := (oh_index_representations (op_head op))[d := v]\<rparr>) op, s', b)" for v
    using op by (simp add: index_arrays_def)
  show ?thesis
    unfolding parse_index_def st prod.case Let_def put obind.simps
    by (rule keeps_bind [where Q = "index_ok limit s n"])
      (intro keeps_if keeps_failed [OF assms(1) op(2)] parse_offset_keeps [OF assms(1) start assms(4)] parse_relative_keeps [OF assms(1,2) start]
        keeps_bind [OF parse_offset_keeps(1) [OF assms(1) start assms(4)] parse_relative_keeps [OF assms(1,2)]]
        keeps_bind [OF parse_offset_keeps(2) [OF assms(1) start assms(4)] parse_relative_keeps [OF assms(1,2)]], auto)
qed

lemma parse_operand_body_keeps:
  assumes s: "readable uc limit s" and rec: "parser_keeps limit s n rec" and s': "moved limit s s'" and b: "b < Suc n"
  shows "keeps limit s (\<lambda>(op, s'', b'). moved limit s s'' \<and> b' \<le> b) (parse_operand_body rec uc limit (s', b))"
proof (cases "b = 0 \<or> limit > length (bs_data s') \<or> bs_position s' > limit \<or> limit - bs_position s' < 4")
  case False
  note failed = keeps_failed [OF s]
  have rs': "readable uc limit s'" using s s' by (cases s; cases s'; simp add: moved_def readable_def)
  have rec': "parser_keeps limit s b rec" using rec b by (simp add: parser_keeps_def)
  obtain t s1 where t: "operand_read_u32 uc s' limit = Some (t, s1)" "consumed limit s' [t] s1"
    using first_word [OF rs'] False by fastforce
  have s1: "moved limit s s1" using t(2) s' by (cases s; cases s'; simp add: moved_def consumed_def)
  have loop: "keeps limit s (index_ok limit s b) (ofold (parse_index rec uc limit t) [0..<unat (drop_bit 20 t AND 3)] (Operand h None None None, s2, b - 1))"
    if "moved limit s s2" "index_arrays (Operand h None None None)" for h s2
    using that False token_dimensions_le [of t]
    by (intro keeps_ofold [where Q = "\<lambda>_. index_ok limit s b"] parse_index_keeps [OF s rec']) (auto simp: token_dimensions_def)
  show ?thesis
  proof (cases "mem_alloc uc sizeof_operand")
    case True
    then have m: "\<not> \<not> mem_alloc uc sizeof_operand" by simp
    have ext: "keeps limit s (\<lambda>(s2, ex). moved limit s s2) (if t AND 0x80000000 \<noteq> 0
        then read_extensions (Suc (limit - bs_position s1)) uc limit (b - 1) s1 ex0 else Done (s1, ex0))"
      using s1 by (intro keeps_if read_extensions_keeps [OF s s1]) simp_all
    have imm: "keeps limit s (\<lambda>(s3, h). moved limit s s3 \<and> index_arrays (Operand h None None None))
       (if c then parse_immediate uc limit (b - 1) t (s2, operand_start t ex) else Done (s2, operand_start t ex))" if "moved limit s s2" for s2 ex c
      using parse_immediate_keeps [OF s that, of "operand_start t ex" "b - 1" t] that by (simp add: start_arrays)
    have tail: "keeps limit s (\<lambda>(op, s'', b'). moved limit s s'' \<and> b' \<le> b)
       (obind (if c then parse_immediate uc limit (b - 1) t (s2, operand_start t ex) else Done (s2, operand_start t ex)) (\<lambda>(s3, h).
        obind (ofold (parse_index rec uc limit t) [0..<unat (drop_bit 20 t AND 3)] (Operand h None None None, s3, b - 1)) (\<lambda>(op, s4, b4).
        Done (set_head (select_swizzle t) op, s4, b4))))" if "moved limit s s2" for s2 ex c
      by (rule keeps_bind [OF imm [OF that]], clarify, rule keeps_bind [OF loop]) auto
    show ?thesis
      unfolding parse_operand_body_def prod.case if_not_P [OF False] Let_def t(1) option.case if_not_P [OF m]
      by (rule keeps_bind [OF ext], clarify, intro keeps_if failed tail)
  next
    case False
    with s1 show ?thesis using \<open>\<not> (b = 0 \<or> _)\<close> t(1)
      by (cases s; cases s1) (simp add: parse_operand_body_def keeps_def moved_def)
  qed
next
  case True
  then show ?thesis unfolding parse_operand_body_def prod.case by (simp add: keeps_failed [OF s s'])
qed

lemma moved_refl: "bs_position s \<le> limit \<Longrightarrow> moved limit s s"
  by (simp add: moved_def)

lemma impl_keeps:
  assumes "readable uc limit s"
  shows "parser_keeps limit s n (parse_operand_recursive_impl n uc limit)"
proof (induction n)
  case (Suc n)
  then show ?case
    unfolding parser_keeps_def parse_operand_recursive_impl.simps by (intro allI impI parse_operand_body_keeps [OF assms Suc])
qed (simp add: parser_keeps_def)

lemma parse_operand_result:
  assumes "readable uc limit s" "bs_position s \<le> limit"
  shows "case parse_operand_recursive uc s limit of Fault \<Rightarrow> False | Fail s' \<Rightarrow> s' = s\<lparr>bs_position := limit\<rparr> | Done (op, s') \<Rightarrow> moved limit s s'"
proof -
  let ?b = "operand_token_budget s limit"
  have "keeps limit s (\<lambda>(op, s'', b'). moved limit s s'' \<and> b' \<le> ?b) (parse_operand_recursive_impl (Suc ?b) uc limit (s, ?b))"
    using impl_keeps [OF assms(1), of "Suc ?b"] moved_refl [OF assms(2)] unfolding parser_keeps_def by blast
  then show ?thesis by (auto simp: parse_operand_recursive_def Let_def keeps_def split: outcome.splits)
qed

lemma parse_operand_iff:
  assumes uc: "memory_available uc" and s: "readable uc limit s"
  shows "parse_operand_recursive uc s limit = Done (op, s') \<longleftrightarrow>
    (\<exists>T. legal_tree T \<and> tree_tokens T \<le> DXBC_MAX_NESTED_OPERAND_TOKENS \<and> consumed limit s (tree_words T) s' \<and> op = decode_tree T)"
proof -
  let ?b = "operand_token_budget s limit"
  have "parse_operand_recursive uc s limit = Done (op, s') \<longleftrightarrow> (\<exists>b'. parse_operand_recursive_impl (Suc ?b) uc limit (s, ?b) = Done (op, s', b'))"
    by (auto simp: parse_operand_recursive_def Let_def split: outcome.splits)
  also have "\<dots> \<longleftrightarrow> (\<exists>T. legal_tree T \<and> tree_tokens T \<le> ?b \<and> consumed limit s (tree_words T) s' \<and> op = decode_tree T)"
    unfolding parse_operand_recursive_impl.simps parse_operand_body_Done [OF impl_parses_trees [OF uc] uc s lessI] by blast
  also have "\<dots> \<longleftrightarrow> (\<exists>T. legal_tree T \<and> tree_tokens T \<le> DXBC_MAX_NESTED_OPERAND_TOKENS \<and> consumed limit s (tree_words T) s' \<and> op = decode_tree T)"
  proof -
    have "tree_tokens T \<le> ?b \<longleftrightarrow> tree_tokens T \<le> DXBC_MAX_NESTED_OPERAND_TOKENS" if "consumed limit s (tree_words T) s'" for T
      using that tokens_le_words(1) [of T] s by (auto simp: operand_token_budget_def consumed_def readable_def)
    then show ?thesis by blast
  qed
  finally show ?thesis .
qed

section \<open>Re-encoding\<close>

text \<open>The words of an operand, from its fields.\<close>

definition index_fields :: "operand_head \<Rightarrow> nat \<Rightarrow> u32 list \<Rightarrow> u32 list" where
  "index_fields h d relative = (if int d < oh_register_index_dim h then (let rep = oh_index_representations h ! d; v = oh_index_values h ! d in
     (if rep = 0 \<or> rep = 3 then [ucast v] else if rep = 1 \<or> rep = 4 then [ucast v, ucast (drop_bit 32 v)] else []) @ relative) else [])"

fun encode_operand :: "operand \<Rightarrow> u32 list" where
  "encode_operand (Operand h r0 r1 r2) =
     oh_raw_token h # oh_extended_tokens h @ take (nat (oh_immediate_word_count h)) (oh_immediate_words h) @
     index_fields h 0 (case r0 of None \<Rightarrow> [] | Some r \<Rightarrow> encode_operand r) @
     index_fields h 1 (case r1 of None \<Rightarrow> [] | Some r \<Rightarrow> encode_operand r) @
     index_fields h 2 (case r2 of None \<Rightarrow> [] | Some r \<Rightarrow> encode_operand r)"

lemma join_words_split:
  "ucast (join_words lo hi) = lo" "ucast (drop_bit 32 (join_words lo hi)) = hi" "ucast (ucast lo :: u64) = (lo :: u32)"
  by (auto simp: join_words_def bit_eq_iff bit_simps dest: bit_imp_le_length)

definition offset_words :: "u8 \<Rightarrow> u64 \<Rightarrow> u32 list" where
  "offset_words rep v = (if rep = 0 \<or> rep = 3 then [ucast v] else if rep = 1 \<or> rep = 4 then [ucast v, ucast (drop_bit 32 v)] else [])"

abbreviation (input) relative_words :: "operand option \<Rightarrow> u32 list" where
  "relative_words r \<equiv> (case r of None \<Rightarrow> [] | Some op \<Rightarrow> encode_operand op)"

lemma index_fields_at:
  assumes "length idxs \<le> 3"
  shows "index_fields (tree_head t exts imms idxs) d (relative_words (nth_or None (map decode_index idxs) d)) =
    (if d < length idxs then offset_words (ucast (index_representation (idxs ! d))) (index_value (idxs ! d)) @ relative_words (decode_index (idxs ! d)) else [])"
  using assms by (simp add: index_fields_def tree_head_def Let_def pad_def nth_append nth_or_def offset_words_def)

lemma three_indices:
  assumes "length idxs \<le> 3"
  shows "(if 0 < length idxs then f (idxs ! 0) else []) @ (if 1 < length idxs then f (idxs ! 1) else []) @
    (if 2 < length idxs then f (idxs ! 2) else []) = concat (map f idxs)"
proof -
  have "idxs = [] \<or> (\<exists>a. idxs = [a]) \<or> (\<exists>a b. idxs = [a, b]) \<or> (\<exists>a b c. idxs = [a, b, c])"
    using assms by (cases idxs; cases "tl idxs"; cases "tl (tl idxs)") auto
  then show ?thesis by auto
qed

lemma encode_decode:
  "legal_tree T \<Longrightarrow> encode_operand (decode_tree T) = tree_words T"
  "legal_index i \<Longrightarrow> offset_words (ucast (index_representation i)) (index_value i) @ relative_words (decode_index i) = index_words i"
proof (induction T and i)
  case (Tree t exts imms idxs)
  have "length idxs = token_dimensions t" using Tree.prems by (auto dest!: arg_cong [of _ _ length])
  then have len: "length idxs \<le> 3" using token_dimensions_le [of t] by simp
  have imms: "length imms \<le> 8" using Tree.prems by (auto simp: immediate_words_def split: if_splits)
  have "concat (map (\<lambda>i. offset_words (ucast (index_representation i)) (index_value i) @ relative_words (decode_index i)) idxs) = concat (map index_words idxs)"
    using Tree by (intro arg_cong [of _ _ concat] map_cong refl) (auto simp: list_all_iff)
  moreover have "take (nat (oh_immediate_word_count (tree_head t exts imms idxs))) (oh_immediate_words (tree_head t exts imms idxs)) = imms"
    by (simp add: tree_head_def Let_def pad_def)
  moreover have "oh_raw_token (tree_head t exts imms idxs) = t" "oh_extended_tokens (tree_head t exts imms idxs) = exts"
    by (simp_all add: tree_head_def Let_def)
  ultimately show ?case
    unfolding decode_tree.simps Let_def encode_operand.simps index_fields_at [OF len] tree_words.simps
      three_indices [OF len, where f = "\<lambda>i. offset_words (ucast (index_representation i)) (index_value i) @ relative_words (decode_index i)"]
    by simp
qed (simp_all add: offset_words_def join_words_split)

section \<open>An example\<close>

text \<open>The operand \<open>cb0[r1.x + 2].xyzw\<close> in five words.\<close>

definition sample_tree :: operand_tree where
  "sample_tree = Tree 0x06208E46 [] [] [Imm32 0, Imm32_Rel 2 (Tree 0x0010000A [] [] [Imm32 1])]"

definition sample_stream :: byte_stream where
  "sample_stream = \<lparr>bs_data = concat (map bytes32 [0x06208E46, 0, 2, 0x0010000A, 1, 0xFFFFFFFF]), bs_position = 0, bs_big_endian = False\<rparr>"

lemma sample_facts:
  "legal_tree sample_tree" "tree_tokens sample_tree = 2" "readable lp64_common 20 sample_stream"
  "consumed 20 sample_stream (tree_words sample_tree) (sample_stream\<lparr>bs_position := 20\<rparr>)"
  by (simp_all add: sample_tree_def sample_stream_def legal_token_def token_components_def token_selection_def is_immediate_def token_type_def
      legal_extensions_def more_tokens_def immediate_words_def token_representation_def token_dimensions_def upt_rec readable_def
      consumed_def bslice_def)

section \<open>Properties\<close>

text \<open>
  C32: the operand parser accepts exactly the grammar.  It returns an operand precisely when the words at
  the stream position are those of a legal tree with at most 126 operand tokens that ends at or before the
  limit; the operand is the denotation of the tree and the stream stands behind its last word.
\<close>

theorem operand_grammar:
  assumes "memory_available uc" "readable uc limit s"
  shows "parse_operand_recursive uc s limit = Done (op, s') \<longleftrightarrow>
    (\<exists>T. legal_tree T \<and> tree_tokens T \<le> DXBC_MAX_NESTED_OPERAND_TOKENS \<and> consumed limit s (tree_words T) s' \<and> op = decode_tree T)"
  by (rule parse_operand_iff [OF assms])

theorem operand_grammar_witness:
  "parse_operand_recursive lp64_common sample_stream 20 = Done (decode_tree sample_tree, sample_stream\<lparr>bs_position := 20\<rparr>)"
  using operand_grammar [OF lp64_common_ok(3) sample_facts(3)] sample_facts by force

text \<open>
  C33: whatever the allocator answers, parsing an operand ends, never reads outside the buffer and never
  stores outside an array of the operand; a rejected operand leaves the stream exactly at the limit, so
  that no later reader can take part of it for another operand.
\<close>

theorem operand_parse_bounded:
  assumes "readable uc limit s" "bs_position s \<le> limit"
  shows "case parse_operand_recursive uc s limit of
      Fault \<Rightarrow> False
    | Fail s' \<Rightarrow> s' = s\<lparr>bs_position := limit\<rparr>
    | Done (op, s') \<Rightarrow> s' = s\<lparr>bs_position := bs_position s'\<rparr> \<and> bs_position s \<le> bs_position s' \<and> bs_position s' \<le> limit"
  using parse_operand_result [OF assms] by (simp add: moved_def split: outcome.splits prod.splits)

theorem operand_parse_bounded_witness:
  "parse_operand_recursive (lp64_common\<lparr>mem_alloc := \<lambda>_. False\<rparr>) sample_stream 20 \<noteq> Fault"
proof -
  have "readable (lp64_common\<lparr>mem_alloc := \<lambda>_. False\<rparr>) 20 sample_stream"
    using sample_facts(3) by (simp add: readable_def byte_stream_contract_def)
  from operand_parse_bounded [OF this] show ?thesis by (auto simp: sample_stream_def)
qed

text \<open>
  C34: a parsed operand keeps everything it was parsed from: encoding its raw token, extension tokens,
  immediate words, index values and relative operands again gives the words the parser consumed.
\<close>

theorem operand_lossless:
  assumes "memory_available uc" "readable uc limit s" "parse_operand_recursive uc s limit = Done (op, s')"
  shows "consumed limit s (encode_operand op) s'"
  using assms(3) encode_decode(1) unfolding parse_operand_iff [OF assms(1,2)] by metis

theorem operand_lossless_witness:
  "consumed 20 sample_stream (encode_operand (decode_tree sample_tree)) (sample_stream\<lparr>bs_position := 20\<rparr>)"
  by (rule operand_lossless [OF lp64_common_ok(3) sample_facts(3)])
    (use parse_operand_iff [OF lp64_common_ok(3) sample_facts(3)] sample_facts in force)

end
