(* ===== verification/C_Strings.thy ===== *)
theory C_Strings
  imports Prelude
begin

text \<open>
  Strings and arrays behind C pointers.  A pointer is \<open>None\<close> when it is \<open>NULL\<close> and otherwise the list of elements from
  it to the end of the object; reading past that end, or through \<open>NULL\<close>, is \<open>Fault\<close>.  A string is the bytes up to the
  first zero.
\<close>

type_synonym 'a c_array = "'a list option"
type_synonym c_string = "u8 c_array"

definition element :: "'a c_array \<Rightarrow> nat \<Rightarrow> ('e, 'a) outcome" where
  "element xs i = (case xs of None \<Rightarrow> Fault | Some ys \<Rightarrow> if i < length ys then Done (ys ! i) else Fault)"

definition content :: "bytes \<Rightarrow> bytes" where "content p = takeWhile (\<lambda>c. c \<noteq> 0) p"

definition c_strlen :: "c_string \<Rightarrow> ('e, nat) outcome" where
  "c_strlen s = (case s of None \<Rightarrow> Fault | Some b \<Rightarrow> if 0 \<in> set b then Done (length (content b)) else Fault)"

text \<open>\<open>strcmp(a, b) == 0\<close>\<close>

fun bytes_strcmp_eq :: "bytes \<Rightarrow> bytes \<Rightarrow> ('e, bool) outcome" where
  "bytes_strcmp_eq (x # xs) (y # ys) = (if x \<noteq> y then Done False else if x = 0 then Done True else bytes_strcmp_eq xs ys)"
| "bytes_strcmp_eq _ _ = Fault"

definition c_strcmp_eq :: "c_string \<Rightarrow> c_string \<Rightarrow> ('e, bool) outcome" where
  "c_strcmp_eq a b = (case (a, b) of (Some xs, Some ys) \<Rightarrow> bytes_strcmp_eq xs ys | _ \<Rightarrow> Fault)"

text \<open>\<open>memcmp(a, b, count * sizeof(*a)) == 0\<close> and \<open>memcpy\<close> out of an array.\<close>

definition c_memcpy :: "'a c_array \<Rightarrow> nat \<Rightarrow> ('e, 'a list) outcome" where
  "c_memcpy xs n = (case xs of None \<Rightarrow> Fault | Some ys \<Rightarrow> if n \<le> length ys then Done (take n ys) else Fault)"

definition c_memcmp_eq :: "'a c_array \<Rightarrow> 'a c_array \<Rightarrow> nat \<Rightarrow> ('e, bool) outcome" where
  "c_memcmp_eq xs ys n = obind (c_memcpy xs n) (\<lambda>a. obind (c_memcpy ys n) (\<lambda>b. Done (a = b)))"

text \<open>The operator \<open>&&\<close>, which does not evaluate its second operand when the first is false.\<close>

definition oand :: "('e, bool) outcome \<Rightarrow> ('e, bool) outcome \<Rightarrow> ('e, bool) outcome" where
  "oand a b = obind a (\<lambda>x. if x then b else Done False)"

lemma oand_Done [simp]: "oand (Done x) b = (if x then b else Done False)"
  by (simp add: oand_def)

section \<open>Terminated strings\<close>

text \<open>The string \<open>s\<close> as the storage of exactly its bytes and a terminator.\<close>

definition stored :: "bytes \<Rightarrow> c_string" where "stored s = Some (s @ [0])"

lemma content_stored [simp]: "0 \<notin> set s \<Longrightarrow> content (s @ 0 # r) = s"
  by (induction s) (auto simp: content_def)

lemma content_no_zero: "0 \<notin> set (content b)"
  by (auto simp: content_def dest: set_takeWhileD)

lemma content_terminated: "0 \<in> set b \<Longrightarrow> \<exists>r. b = content b @ 0 # r"
  by (induction b) (auto simp: content_def)

lemma take_content: "0 \<in> set b \<Longrightarrow> take (Suc (length (content b))) b = content b @ [0]"
  using content_terminated [of b] by (metis append_take_drop_id take_Suc_conv_app_nth append_eq_conv_conj length_append_singleton nth_append_length append.assoc append_Cons append_Nil)

lemma strlen_stored [simp]: "0 \<notin> set s \<Longrightarrow> c_strlen (stored s) = Done (length s)"
  by (simp add: c_strlen_def stored_def)

lemma strlen_iff: "c_strlen s = Done n \<longleftrightarrow> (\<exists>b. s = Some b \<and> 0 \<in> set b \<and> n = length (content b))"
  by (auto simp: c_strlen_def split: option.splits)

lemma strcmp_stored [simp]: "0 \<notin> set s \<Longrightarrow> 0 \<notin> set t \<Longrightarrow> c_strcmp_eq (stored s) (stored t) = Done (s = t)"
proof -
  have "0 \<notin> set s \<Longrightarrow> 0 \<notin> set t \<Longrightarrow> bytes_strcmp_eq (s @ [0]) (t @ [0]) = Done (s = t)" for s t
  proof (induction s arbitrary: t)
    case Nil
    then show ?case by (cases t) auto
  next
    case (Cons x s)
    then show ?case by (cases t) auto
  qed
  then show "0 \<notin> set s \<Longrightarrow> 0 \<notin> set t \<Longrightarrow> c_strcmp_eq (stored s) (stored t) = Done (s = t)" by (simp add: c_strcmp_eq_def stored_def)
qed

lemma stored_inject [simp]: "stored s = stored t \<longleftrightarrow> s = t" "stored s \<noteq> None"
  by (simp_all add: stored_def)

end
