(* ===== verification/Signature_Spec.thy ===== *)
theory Signature_Spec
  imports Signature C_Strings
begin

text \<open>
  Signature names as byte strings, the declarative meaning of element validity, and what a parsed signature
  chunk says: each element holds the words of its record and the name its offset points to.
\<close>

section \<open>Names as byte strings\<close>

text \<open>Comparison without regard to ASCII case.\<close>

definition lower :: "bytes \<Rightarrow> bytes" where "lower = map ascii_lower"

lemma content_Cons: "content (c # cs) = (if c = 0 then [] else c # content cs)"
  by (simp add: content_def)

lemma equals_content:
  "0 \<in> set p \<Longrightarrow> 0 \<in> set q \<Longrightarrow> semantic_equals_ascii_case_insensitive p q = Done (lower (content p) = lower (content q))"
  by (induction p q rule: semantic_equals_ascii_case_insensitive.induct) (auto simp: content_Cons lower_def)

lemma content_append: "0 \<notin> set xs \<Longrightarrow> content (xs @ 0 # ys) = xs"
  by (induction xs) (auto simp: content_Cons)

lemma content_take: "content (take n p) = take n (content p)"
  by (induction p arbitrary: n) (auto simp: content_def take_Cons split: nat.split)

lemma cstring_content: "0 \<notin> set (chars e) \<Longrightarrow> content (cstring e) = chars e" "0 \<in> set (cstring e)"
  by (simp_all add: cstring_def content_append)

lemma equals_any_content:
  assumes "0 \<in> set p" "\<forall>e\<in>set es. 0 \<notin> set (chars e)"
  shows "equals_any p es = Done (\<exists>e\<in>set es. lower (content p) = lower (chars e))"
  using assms(2) by (induction es) (auto simp: equals_content [OF assms(1)] cstring_content)

lemma identifier_rest_content: "0 \<in> set p \<Longrightarrow> identifier_rest p = Done (list_all identifier_char (content p))"
  by (induction p) (auto simp: content_Cons)

definition hlsl_identifier :: "bytes \<Rightarrow> bool" where
  "hlsl_identifier n \<longleftrightarrow> n \<noteq> [] \<and> identifier_start (hd n) \<and> list_all identifier_char n"

lemma identifier_content: "0 \<in> set p \<Longrightarrow> semantic_is_hlsl_identifier p = Done (hlsl_identifier (content p))"
  by (cases p) (auto simp: content_Cons hlsl_identifier_def identifier_rest_content identifier_char_def)

lemma system_semantics_nonzero: "list_all (\<lambda>(n, e). 0 \<notin> set (chars e)) system_semantics"
  by (simp add: system_semantics_def chars_def)

lemma memchr0_safe: "n \<le> length p \<Longrightarrow> safe (memchr0 p n)"
  by (simp add: memchr0_def safe_def Let_def)

lemma memchr0_Some:
  assumes "memchr0 p n = Done (Some k)"
  shows "k < n \<and> k < length p \<and> p ! k = 0 \<and> take k p = content p \<and> content (take n p) = content p \<and> 0 \<notin> set (take k p)"
proof -
  from assms have k: "k = length (content p)" "k < n" "k < length p"
    by (auto simp: memchr0_def Let_def content_def split: if_splits)
  have "p ! k = 0" using nth_length_takeWhile [of "\<lambda>c. c \<noteq> 0" p] k by (simp add: content_def)
  moreover have t: "take k p = content p" using k(1) by (simp add: content_def takeWhile_eq_take [symmetric])
  moreover have "content (take n p) = content p"
    using k by (simp add: content_take)
  moreover have "0 \<notin> set (take k p)" unfolding t content_def by (auto dest: set_takeWhileD)
  ultimately show ?thesis using k by blast
qed

section \<open>Validity\<close>

definition reserved_name :: "bytes \<Rightarrow> bool" where
  "reserved_name n \<longleftrightarrow> 3 \<le> length n \<and> lower (take 2 n) = chars ''sv'' \<and> n ! 2 = of_char (CHR ''_'')"

definition names_any :: "bytes \<Rightarrow> string list \<Rightarrow> bool" where
  "names_any n es \<longleftrightarrow> (\<exists>e\<in>set es. lower n = lower (chars e))"

definition valid_semantic :: "bytes \<Rightarrow> u32 \<Rightarrow> signature_role \<Rightarrow> bool" where
  "valid_semantic n system_value role \<longleftrightarrow> (case signature_system_semantic system_value of
     Some e \<Rightarrow> lower n = lower (chars e)
   | None \<Rightarrow> names_any n [''SV_VertexID'', ''SV_PrimitiveID'', ''SV_InstanceID'', ''SV_IsFrontFace''] \<or>
       (if names_any n [''SV_Target'', ''SV_Depth'', ''SV_Coverage'', ''SV_DepthGreaterEqual'', ''SV_DepthLessEqual'', ''SV_StencilRef'', ''SV_InnerCoverage'']
        then role \<noteq> SIGNATURE_ROLE_INPUT else \<not> reserved_name n))"

definition element_name :: "signature_element \<Rightarrow> bytes" where
  "element_name el = content (dxbc_signature_semantic_name el)"

text \<open>The arrays of an element contain a terminator, and the recorded length lies inside an extended name.\<close>

definition element_terminated :: "signature_element \<Rightarrow> bool" where
  "element_terminated el \<longleftrightarrow> (case se_semantic_name_extended el of
     None \<Rightarrow> length (se_semantic_name el) = 64 \<and> 0 \<in> set (se_semantic_name el)
   | Some p \<Rightarrow> 0 \<in> set p \<and> se_semantic_name_length el < length p \<and> length p \<le> SIZE_MAX)"

definition valid_element :: "signature_element \<Rightarrow> signature_role \<Rightarrow> bool" where
  "valid_element el role \<longleftrightarrow>
     se_component_type el \<in> {1, 2, 3} \<and> se_mask el \<in> {1..15} \<and> se_rw_mask el \<le> 15 \<and> se_stream_index el \<le> 3 \<and>
     se_interpolation_mode el \<le> 7 \<and> signature_min_precision_is_valid (se_min_precision el) \<and> signature_system_value_is_valid (se_system_value el) \<and>
     (if role = SIGNATURE_ROLE_INPUT then se_rw_mask el AND NOT (se_mask el) = 0 \<and> se_stream_index el = 0 else se_interpolation_mode el = 0) \<and>
     hlsl_identifier (element_name el) \<and>
     (se_semantic_name_extended el \<noteq> None \<longrightarrow> se_semantic_name_length el = length (element_name el)) \<and>
     valid_semantic (element_name el) (se_system_value el) role"

lemma content_props: "0 \<in> set p \<Longrightarrow> length (content p) < length p \<and> p ! length (content p) = 0 \<and> take (length (content p)) p = content p"
proof -
  assume "0 \<in> set p"
  then have "length (content p) < length p" unfolding content_def by (induction p) auto
  then show ?thesis using nth_length_takeWhile [of "\<lambda>c. c \<noteq> 0" p] by (simp add: content_def takeWhile_eq_take [symmetric])
qed

lemma reserved_content:
  assumes "0 \<in> set p"
  shows "semantic_reserved p = Done (reserved_name (content p))"
proof -
  have low: "ascii_lower 0 = 0" by (simp add: ascii_lower_def)
  obtain a p1 where p: "p = a # p1" using assms by (cases p) auto
  show ?thesis
  proof (cases "a = 0 \<or> ascii_lower a \<noteq> of_char (CHR ''s'')")
    case True
    then show ?thesis by (auto simp: semantic_reserved_def p rd8_def reserved_name_def content_Cons low chars_def lower_def take_Cons')
  next
    case False
    with assms obtain b p2 where p1: "p1 = b # p2" by (cases p1) (auto simp: p)
    show ?thesis
    proof (cases "b = 0 \<or> ascii_lower b \<noteq> of_char (CHR ''v'')")
      case True
      with False show ?thesis by (auto simp: semantic_reserved_def p p1 rd8_def reserved_name_def content_Cons low chars_def lower_def take_Cons')
    next
      case b: False
      with assms False obtain c p3 where p2: "p2 = c # p3" by (cases p2) (auto simp: p p1)
      show ?thesis using False b
        by (auto simp: semantic_reserved_def p p1 p2 rd8_def reserved_name_def content_Cons chars_def lower_def)
    qed
  qed
qed

lemma memchr0_content: "0 \<in> set p \<Longrightarrow> n \<le> length p \<Longrightarrow> memchr0 p n = Done (if length (content p) < n then Some (length (content p)) else None)"
  by (simp add: memchr0_def content_def Let_def)

lemma terminated_iff:
  assumes "element_terminated el"
  shows "semantic_terminated el = Done (se_semantic_name_extended el \<noteq> None \<longrightarrow> se_semantic_name_length el = length (element_name el))"
    and "0 \<in> set (dxbc_signature_semantic_name el)"
proof -
  show "0 \<in> set (dxbc_signature_semantic_name el)"
    using assms by (auto simp: element_terminated_def dxbc_signature_semantic_name_def split: option.splits)
  show "semantic_terminated el = Done (se_semantic_name_extended el \<noteq> None \<longrightarrow> se_semantic_name_length el = length (element_name el))"
  proof (cases "se_semantic_name_extended el")
    case None
    with assms content_props [of "se_semantic_name el"] show ?thesis
      by (simp add: semantic_terminated_def element_terminated_def memchr0_content)
  next
    case (Some p)
    let ?n = "se_semantic_name_length el"
    have p: "0 \<in> set p" "?n < length p" "?n \<noteq> SIZE_MAX" using assms Some by (auto simp: element_terminated_def)
    have name: "element_name el = content p" by (simp add: element_name_def dxbc_signature_semantic_name_def Some)
    have "?n = length (content p) \<longleftrightarrow> p ! ?n = 0 \<and> \<not> length (content p) < ?n"
    proof
      assume "p ! ?n = 0 \<and> \<not> length (content p) < ?n"
      moreover have "p ! i \<noteq> 0" if "i < length (content p)" for i
      proof -
        have "content p ! i = p ! i" using content_props [OF p(1)] that by (metis nth_take)
        moreover have "content p ! i \<noteq> 0" using nth_mem [OF that] unfolding content_def by (blast dest: set_takeWhileD)
        ultimately show ?thesis by simp
      qed
      ultimately show "?n = length (content p)" by (meson linorder_cases)
    qed (use content_props [OF p(1)] in auto)
    with p show ?thesis
      by (auto simp: semantic_terminated_def Some rd8_def memchr0_content name)
  qed
qed

lemma high_nibble: "(m :: u8) AND 0xf0 = 0 \<longleftrightarrow> m \<le> 15"
proof -
  have "unat (m AND NOT (mask 4)) = unat m - unat m mod 16" using unat_and_not_mask [of m 4] by simp
  moreover have "NOT (mask 4) = (0xf0 :: u8)" by (simp add: mask_eq_exp_minus_1)
  ultimately have "unat (m AND 0xf0) = 0 \<longleftrightarrow> unat m < 16"
    using mod_less_eq_dividend [of "unat m" 16] mod_less_divisor [of 16 "unat m"] by (metis diff_is_0_eq le_antisym mod_if zero_less_numeral)
  then show ?thesis by (simp add: word_le_nat_alt unat_eq_0) arith
qed

lemma component_types: "(c :: u32) < 1 \<or> c > 3 \<longleftrightarrow> c \<notin> {1, 2, 3}"
proof -
  have "unat c = 1 \<or> unat c = 2 \<or> unat c = 3 \<longleftrightarrow> \<not> (unat c < 1 \<or> unat c > 3)" by arith
  then show ?thesis by (simp add: word_less_nat_alt flip: unat_inject)
qed

lemma literal_nonzero:
  "\<forall>e\<in>set [''SV_VertexID'', ''SV_PrimitiveID'', ''SV_InstanceID'', ''SV_IsFrontFace'']. 0 \<notin> set (chars e)"
  "\<forall>e\<in>set [''SV_Target'', ''SV_Depth'', ''SV_Coverage'', ''SV_DepthGreaterEqual'', ''SV_DepthLessEqual'', ''SV_StencilRef'', ''SV_InnerCoverage''].
     0 \<notin> set (chars e)"
  by (simp_all add: chars_def)

lemma fits_role_content:
  assumes "0 \<in> set p"
  shows "semantic_fits_role p v role = Done (valid_semantic (content p) v role)"
proof (cases "signature_system_semantic v")
  case None
  then show ?thesis
    unfolding semantic_fits_role_def valid_semantic_def signature_semantic_is_passthrough_system_value_def
      equals_any_content [OF assms literal_nonzero(1)] equals_any_content [OF assms literal_nonzero(2)] reserved_content [OF assms]
      names_any_def [symmetric]
    by simp
next
  case (Some e)
  then have "0 \<notin> set (chars e)"
    using system_semantics_nonzero by (auto simp: signature_system_semantic_def list_all_iff dest!: map_of_SomeD)
  with Some show ?thesis
    by (simp add: semantic_fits_role_def valid_semantic_def equals_content [OF assms] cstring_content)
qed

lemma valid_iff:
  assumes "element_terminated el"
  shows "dxbc_signature_element_is_valid el role = Done (valid_element el role)"
proof -
  note name = terminated_iff(2) [OF assms]
  have fields: "se_mask el = 0 \<or> se_mask el AND 0xf0 \<noteq> 0 \<longleftrightarrow> se_mask el \<notin> {1..15}" "se_rw_mask el AND 0xf0 \<noteq> 0 \<longleftrightarrow> \<not> se_rw_mask el \<le> 15"
    unfolding high_nibble using unat_eq_0 [of "se_mask el"] by (auto simp: word_le_nat_alt)
  show ?thesis
    unfolding dxbc_signature_element_is_valid_def Let_def identifier_content [OF name] terminated_iff(1) [OF assms] fits_role_content [OF name]
      valid_element_def element_name_def [symmetric]
    using fields component_types [of "se_component_type el"]
    by (cases "se_component_type el \<in> {1, 2, 3}"; cases "se_mask el \<in> {1..15}"; cases role)
      (auto simp: not_less not_le)
qed

section \<open>Elements of a chunk\<close>

definition le_stream :: "unity_common \<Rightarrow> byte_stream \<Rightarrow> bool" where
  "le_stream uc s \<longleftrightarrow> byte_stream_contract uc \<and> \<not> bs_big_endian s"

lemma le_stream_move [simp]: "le_stream uc (s\<lparr>bs_position := p\<rparr>) = le_stream uc s"
  by (simp add: le_stream_def)

lemma stream_next_Done:
  assumes "le_stream uc s"
  shows "stream_next uc s = Done (v, s') \<longleftrightarrow> rd32 (bs_data s) (bs_position s) = Some v \<and> s' = s\<lparr>bs_position := bs_position s + 4\<rparr>"
  using assms by (auto simp: stream_next_def le_stream_def stream_read_uint32_eq split: option.splits dest: rd32_SomeD)

lemma stream_next_safe: "safe (stream_next uc s)"
  by (simp add: stream_next_def safe_def split: option.split)

text \<open>The record of an element at an offset of the data: its words, in the order of the chunk's layout.\<close>

definition element_record :: "bytes \<Rightarrow> nat \<Rightarrow> bool \<Rightarrow> bool \<Rightarrow> signature_element \<Rightarrow> u32 \<Rightarrow> u32 \<Rightarrow> bool" where
  "element_record data off has_stream has_min_precision el name_offset mask_token \<longleftrightarrow> (let o' = off + (if has_stream then 4 else 0) in
     (if has_stream then rd32 data off = Some (se_stream_index el) else se_stream_index el = 0) \<and>
     rd32 data o' = Some name_offset \<and> rd32 data (o' + 4) = Some (se_semantic_index el) \<and> rd32 data (o' + 8) = Some (se_system_value el) \<and>
     rd32 data (o' + 12) = Some (se_component_type el) \<and> rd32 data (o' + 16) = Some (se_register_id el) \<and> rd32 data (o' + 20) = Some mask_token \<and>
     (if has_min_precision then rd32 data (o' + 24) = Some (se_min_precision el) else se_min_precision el = 0))"

lemma read_element_words_Done:
  assumes "read_element_words uc hs hm s = Done (el, no, mt, s')" "le_stream uc s"
  shows "element_record (bs_data s) (bs_position s) hs hm el no mt"
    "s' = s\<lparr>bs_position := bs_position s + (if hs then 4 else 0) + 24 + (if hm then 4 else 0)\<rparr>"
    "se_semantic_name el = replicate 64 0" "se_semantic_name_extended el = None" "se_interpolation_mode el = 0"
proof -
  note read = assms(1) [unfolded read_element_words_def obind_Done_iff split_paired_Ex prod.case]
  have "element_record (bs_data s) (bs_position s) hs hm el no mt \<and>
    s' = s\<lparr>bs_position := bs_position s + (if hs then 4 else 0) + 24 + (if hm then 4 else 0)\<rparr> \<and>
    se_semantic_name el = replicate 64 0 \<and> se_semantic_name_extended el = None \<and> se_interpolation_mode el = 0"
    using read assms(2)
    by (cases hs; cases hm) (auto simp: stream_next_Done obind_Done_iff element_record_def Let_def zero_element_def split: if_splits, simp_all add: add.commute)
  then show "element_record (bs_data s) (bs_position s) hs hm el no mt"
    "s' = s\<lparr>bs_position := bs_position s + (if hs then 4 else 0) + 24 + (if hm then 4 else 0)\<rparr>"
    "se_semantic_name el = replicate 64 0" "se_semantic_name_extended el = None" "se_interpolation_mode el = 0" by simp_all
qed

lemma set_name_Done:
  assumes "set_signature_semantic_name uc el name len = Done el'" "se_semantic_name el = replicate 64 0" "se_semantic_name_extended el = None"
    "0 \<notin> set (take len name)" "length name \<le> SIZE_MAX" "len < length name"
  shows "element_name el' = take len name" "element_terminated el'" "se_semantic_name_length el' = len"
    "\<exists>n x. el' = el\<lparr>se_semantic_name := n, se_semantic_name_extended := x, se_semantic_name_length := len\<rparr>"
proof -
  have l: "length (take len name) = len" using assms(6) by simp
  have "element_name el' = take len name \<and> element_terminated el' \<and> se_semantic_name_length el' = len \<and>
    (\<exists>n x. el' = el\<lparr>se_semantic_name := n, se_semantic_name_extended := x, se_semantic_name_length := len\<rparr>)"
  proof (cases "len < 64")
    case True
    then have "el' = el\<lparr>se_semantic_name_length := len, se_semantic_name := take len name @ [0] @ drop (len + 1) (replicate 64 0)\<rparr>"
      using assms by (auto simp: set_signature_semantic_name_def Let_def split: if_splits)
    moreover from this have ex: "el' = el\<lparr>se_semantic_name := take len name @ [0] @ drop (len + 1) (replicate 64 0), se_semantic_name_extended := None,
       se_semantic_name_length := len\<rparr>" using assms(3) by (cases el) simp
    ultimately show ?thesis using assms(3,4) True l
      by (intro conjI exI, rule_tac [4] ex) (auto simp: element_name_def dxbc_signature_semantic_name_def element_terminated_def content_append)
  next
    case False
    then have "el' = el\<lparr>se_semantic_name_length := len, se_semantic_name_extended := Some (take len name @ [0])\<rparr>"
      using assms by (auto simp: set_signature_semantic_name_def Let_def split: if_splits)
    moreover from this have ex: "el' = el\<lparr>se_semantic_name := se_semantic_name el, se_semantic_name_extended := Some (take len name @ [0]),
       se_semantic_name_length := len\<rparr>" by (cases el) simp
    ultimately show ?thesis using assms(4-) l
      by (intro conjI exI, rule_tac [4] ex) (auto simp: element_name_def dxbc_signature_semantic_name_def element_terminated_def content_append)
  qed
  then show "element_name el' = take len name" "element_terminated el'" "se_semantic_name_length el' = len"
    "\<exists>n x. el' = el\<lparr>se_semantic_name := n, se_semantic_name_extended := x, se_semantic_name_length := len\<rparr>" by simp_all
qed

lemma set_name_safe: "len \<le> length name \<Longrightarrow> safe (set_signature_semantic_name uc el name len)"
  by (simp add: set_signature_semantic_name_def safe_def Let_def)

definition element_at :: "bytes \<Rightarrow> nat \<Rightarrow> nat \<Rightarrow> bool \<Rightarrow> bool \<Rightarrow> nat \<Rightarrow> signature_element \<Rightarrow> bool" where
  "element_at data chunk_start chunk_end hs hm off el \<longleftrightarrow> (\<exists>no mt. element_record data off hs hm el no mt \<and>
     unat mt < 65536 \<and> se_mask el = ucast mt \<and> se_rw_mask el = ucast (drop_bit 8 mt) \<and> se_interpolation_mode el = 0 \<and>
     chunk_start + unat no < chunk_end \<and>
     (let region = bslice data (chunk_start + unat no) (chunk_end - (chunk_start + unat no)) in
      0 \<in> set region \<and> element_name el = content region \<and> se_semantic_name_length el = length (content region)))"

lemma mask_token_bits:
  "ucast (m AND 0xff :: u32) = (ucast m :: u8)" "ucast (drop_bit 8 m AND 0xff :: u32) = (ucast (drop_bit 8 m) :: u8)"
  "(m :: u32) AND 0xffff0000 = 0 \<longleftrightarrow> unat m < 65536"
proof -
  have ff: "(0xff :: u32) = mask 8" by (simp add: mask_eq_exp_minus_1)
  have low: "ucast (w AND 0xff :: u32) = (ucast w :: u8)" for w :: u32
    unfolding ff by (rule bit_word_eqI) (simp add: bit_simps)
  show "ucast (m AND 0xff :: u32) = (ucast m :: u8)" "ucast (drop_bit 8 m AND 0xff :: u32) = (ucast (drop_bit 8 m) :: u8)"
    by (rule low)+
  have "NOT (mask 16) = (0xffff0000 :: u32)" by (simp add: mask_eq_exp_minus_1)
  then have "unat (m AND 0xffff0000) = unat m - unat m mod 65536" using unat_and_not_mask [of m 16] by simp
  moreover have "unat m - unat m mod 65536 = 0 \<longleftrightarrow> unat m < 65536"
    using mod_less_divisor [of 65536 "unat m"] mod_less_eq_dividend [of "unat m" 65536] mod_less [of "unat m" 65536] by linarith
  ultimately show "(m :: u32) AND 0xffff0000 = 0 \<longleftrightarrow> unat m < 65536" by (simp add: unat_eq_0 [symmetric])
qed

lemma parse_element_Done:
  assumes run: "parse_element uc a e hs hm role s = Done (el, s')" and s: "le_stream uc s" and data: "e \<le> length (bs_data s)" "length (bs_data s) \<le> SIZE_MAX"
  shows "element_at (bs_data s) a e hs hm (bs_position s) el" "valid_element el role" "element_terminated el"
    "s' = s\<lparr>bs_position := bs_position s + (if hs then 4 else 0) + 24 + (if hm then 4 else 0)\<rparr>"
proof -
  from run obtain el0 no mt s1 len el1 where read: "read_element_words uc hs hm s = Done (el0, no, mt, s1)"
    and ok: "mt AND 0xffff0000 = 0" "unat no < e - a"
    and chr: "memchr0 (drop (a + unat no) (bs_data s1)) (e - (a + unat no)) = Done (Some len)"
    and nm: "set_signature_semantic_name uc (el0\<lparr>se_mask := ucast (mt AND 0xff), se_rw_mask := ucast (drop_bit 8 mt AND 0xff)\<rparr>) (drop (a + unat no) (bs_data s1)) len = Done el1"
    and val: "dxbc_signature_element_is_valid el1 role = Done True" and res: "el = el1" "s' = s1"
    by (auto simp: parse_element_def obind_Done_iff Let_def not_le split: if_splits option.splits)
  note words = read_element_words_Done [OF read s]
  have d: "bs_data s1 = bs_data s" using words(2) by simp
  let ?region = "bslice (bs_data s) (a + unat no) (e - (a + unat no))"
  note chr = memchr0_Some [OF chr, unfolded d]
  have region: "0 \<in> set ?region" "content ?region = take len (drop (a + unat no) (bs_data s))"
  proof -
    have len: "len < length ?region" using chr data(1) ok(2) by (simp add: bslice_def)
    have "?region ! len = 0" using chr by (simp add: bslice_def)
    then show "0 \<in> set ?region" using nth_mem [OF len] by simp
    show "content ?region = take len (drop (a + unat no) (bs_data s))" using chr unfolding bslice_def by simp
  qed
  have n0: "se_semantic_name (el0\<lparr>se_mask := ucast (mt AND 0xff), se_rw_mask := ucast (drop_bit 8 mt AND 0xff)\<rparr>) = replicate 64 0"
    "se_semantic_name_extended (el0\<lparr>se_mask := ucast (mt AND 0xff), se_rw_mask := ucast (drop_bit 8 mt AND 0xff)\<rparr>) = None"
    using words(3,4) by simp_all
  have chr0: "0 \<notin> set (take len (drop (a + unat no) (bs_data s)))" "length (drop (a + unat no) (bs_data s)) \<le> SIZE_MAX"
    "len < length (drop (a + unat no) (bs_data s))" using chr data by auto
  have name: "element_name el1 = take len (drop (a + unat no) (bs_data s))" "element_terminated el1" "se_semantic_name_length el1 = len"
    "\<exists>n x. el1 = el0\<lparr>se_mask := ucast (mt AND 0xff), se_rw_mask := ucast (drop_bit 8 mt AND 0xff)\<rparr>
       \<lparr>se_semantic_name := n, se_semantic_name_extended := x, se_semantic_name_length := len\<rparr>"
    using set_name_Done [OF nm, unfolded d, OF n0 chr0] by simp_all
  then obtain n x where el1: "el1 = el0\<lparr>se_mask := ucast mt, se_rw_mask := ucast (drop_bit 8 mt),
       se_semantic_name := n, se_semantic_name_extended := x, se_semantic_name_length := len\<rparr>" by (auto simp: mask_token_bits)
  have lenc: "length (content ?region) = len" unfolding region(2) using chr0(3) by simp
  have "element_record (bs_data s) (bs_position s) hs hm el1 no mt" using words(1) by (simp add: el1 element_record_def Let_def)
  then show "element_at (bs_data s) a e hs hm (bs_position s) el"
    unfolding element_at_def res Let_def using ok(1,2) region(1) name(1,3) lenc words(5)
    by (intro exI [where x = no] exI [where x = mt] conjI) (simp_all add: mask_token_bits region(2), simp_all add: el1)
  show "valid_element el role" using val valid_iff [OF name(2)] by (simp add: res)
  show "element_terminated el" "s' = s\<lparr>bs_position := bs_position s + (if hs then 4 else 0) + 24 + (if hm then 4 else 0)\<rparr>"
    using name(2) words(2) by (simp_all add: res)
qed

lemma read_element_words_safe: "safe (read_element_words uc hs hm s)"
  unfolding read_element_words_def by (intro safe_intros stream_next_safe)

lemma parse_element_safe:
  assumes s: "le_stream uc s" and data: "e \<le> length (bs_data s)" "length (bs_data s) \<le> SIZE_MAX"
  shows "safe (parse_element uc a e hs hm role s)"
proof -
  have rest: "safe (obind (memchr0 name n) (\<lambda>terminator. case terminator of None \<Rightarrow> Fail () | Some len \<Rightarrow>
      obind (set_signature_semantic_name uc el name len) (\<lambda>el. obind (dxbc_signature_element_is_valid el role) (\<lambda>valid.
        if valid then Done (el, s1) else Fail ()))))"
    if "n \<le> length name" "length name \<le> SIZE_MAX" "se_semantic_name el = replicate 64 0" "se_semantic_name_extended el = None" for name n el s1
  proof (intro safe_intros memchr0_safe [OF that(1)])
    fix r len el1
    assume r: "memchr0 name n = Done r" "r = Some len"
    note chr = memchr0_Some [OF r(1) [unfolded r(2)]]
    then show "safe (set_signature_semantic_name uc el name len)" by (intro set_name_safe) simp
    assume "set_signature_semantic_name uc el name len = Done el1"
    then have "element_terminated el1" using set_name_Done(2) chr that by blast
    then show "safe (dxbc_signature_element_is_valid el1 role)" using valid_iff by (simp add: safe_def)
  qed
  show ?thesis
    unfolding parse_element_def
  proof (rule safe_rules(3) [OF read_element_words_safe])
    fix x
    assume run: "read_element_words uc hs hm s = Done x"
    obtain el no mt s1 where x: "x = (el, no, mt, s1)" by (cases x)
    note words = read_element_words_Done [OF run [unfolded x] s]
    have "bs_data s1 = bs_data s" using words(2) by simp
    then show "safe (case x of (el, name_offset, mask_token, stream) \<Rightarrow> let
       el = el\<lparr>se_mask := ucast (mask_token AND 0xff), se_rw_mask := ucast (drop_bit 8 mask_token AND 0xff)\<rparr> in
       if mask_token AND 0xffff0000 \<noteq> 0 \<or> unat name_offset \<ge> e - a then Fail ()
       else let name = drop (a + unat name_offset) (bs_data stream); available = e - (a + unat name_offset) in
       obind (memchr0 name available) (\<lambda>terminator. case terminator of None \<Rightarrow> Fail () | Some len \<Rightarrow>
         obind (set_signature_semantic_name uc el name len) (\<lambda>el. obind (dxbc_signature_element_is_valid el role) (\<lambda>valid.
         if valid then Done (el, stream) else Fail ()))))"
      unfolding x prod.case Let_def using data words(3,4) by (intro safe_rules(2,4) rest) simp_all
  qed
qed

section \<open>Whole chunks\<close>

definition elements :: "signature_table \<Rightarrow> signature_element list" where
  "elements t = (case sg_list t of None \<Rightarrow> [] | Some l \<Rightarrow> l)"

definition signature_table_ok :: "signature_table \<Rightarrow> bool" where
  "signature_table_ok t \<longleftrightarrow> 0 \<le> sg_count t \<and> sg_count t \<le> sg_alloc t \<and> sg_alloc t \<le> int INT_MAX \<and>
     (sg_alloc t = 0 \<longleftrightarrow> sg_list t = None) \<and> length (elements t) = nat (sg_count t)"

text \<open>The elements of a chunk: record \<open>i\<close> of the parameter array, valid for the role of the chunk.\<close>

definition chunk_elements :: "bytes \<Rightarrow> nat \<Rightarrow> nat \<Rightarrow> bytes \<Rightarrow> nat \<Rightarrow> signature_element list \<Rightarrow> bool" where
  "chunk_elements data a e name base els \<longleftrightarrow> (\<forall>i<length els.
     element_at data a e (signature_is_streamed name) (signature_has_min_precision name) (base + i * signature_element_size name) (els ! i) \<and>
     valid_element (els ! i) (signature_role_for_chunk name) \<and> element_terminated (els ! i))"

definition append_inv :: "unity_common \<Rightarrow> byte_stream \<Rightarrow> nat \<Rightarrow> nat \<Rightarrow> bytes \<Rightarrow> nat \<Rightarrow> signature_table \<Rightarrow> nat \<Rightarrow> byte_stream \<times> signature_table \<Rightarrow> bool" where
  "append_inv uc s a e name n t i = (\<lambda>(s', t'). s' = s\<lparr>bs_position := bs_position s + i * signature_element_size name\<rparr> \<and>
     signature_table_ok t' \<and> sg_alloc t' = sg_alloc t \<and> sg_count t' = sg_count t + int i \<and>
     (\<exists>els. length els = i \<and> elements t' = elements t @ els \<and> chunk_elements (bs_data s) a e name (bs_position s) els))"

lemma append_element_step:
  assumes inv: "append_inv uc s a e name n t i st" and i: "i < n" and room: "sg_count t + int n \<le> sg_alloc t"
    and s: "le_stream uc s" and data: "e \<le> length (bs_data s)" "length (bs_data s) \<le> SIZE_MAX"
  shows "safe (append_element uc a e name i st)" "append_element uc a e name i st = Done st' \<Longrightarrow> append_inv uc s a e name n t (Suc i) st'"
proof -
  obtain s1 t1 where st: "st = (s1, t1)" by (cases st)
  let ?size = "signature_element_size name"
  from inv obtain els where s1: "s1 = s\<lparr>bs_position := bs_position s + i * ?size\<rparr>" and t1: "signature_table_ok t1" "sg_alloc t1 = sg_alloc t"
    "sg_count t1 = sg_count t + int i" and els: "length els = i" "elements t1 = elements t @ els" "chunk_elements (bs_data s) a e name (bs_position s) els"
    by (auto simp: append_inv_def st)
  have ls: "le_stream uc s1" "bs_data s1 = bs_data s" using s by (simp_all add: s1)
  have alloc: "\<not> sg_alloc t1 \<le> sg_count t1" using t1(2,3) i room by simp
  show "safe (append_element uc a e name i st)"
    unfolding append_element_def st prod.case if_not_P [OF alloc]
    by (intro safe_intros parse_element_safe [OF ls(1)]) (use data ls in simp_all)
  assume run: "append_element uc a e name i st = Done st'"
  then obtain el s2 where el: "parse_element uc a e (signature_is_streamed name) (signature_has_min_precision name) (signature_role_for_chunk name) s1 = Done (el, s2)"
    and st': "st' = (s2, t1\<lparr>sg_list := Some (take (nat (sg_count t1)) (elements t1) @ [el]), sg_count := sg_count t1 + 1\<rparr>)"
    using alloc by (auto simp: append_element_def st obind_Done_iff elements_def)
  note new = parse_element_Done [OF el ls(1)]
  have len: "take (nat (sg_count t1)) (elements t1) = elements t1" using t1(1) by (simp add: signature_table_ok_def)
  have "chunk_elements (bs_data s) a e name (bs_position s) (els @ [el])"
    using els new data unfolding chunk_elements_def by (auto simp: nth_append less_Suc_eq ls(2) s1)
  moreover have "s2 = s\<lparr>bs_position := bs_position s + Suc i * ?size\<rparr>"
    using new(4) data ls(2) by (simp add: s1 signature_element_size_def)
  moreover have "signature_table_ok (t1\<lparr>sg_list := Some (take (nat (sg_count t1)) (elements t1) @ [el]), sg_count := sg_count t1 + 1\<rparr>)"
    using t1 i room unfolding len by (auto simp: signature_table_ok_def elements_def nat_add_distrib split: option.splits)
  ultimately show "append_inv uc s a e name n t (Suc i) st'"
    using t1 els unfolding append_inv_def st' len prod.case
    by (intro conjI exI [of _ "els @ [el]"]) (simp_all add: elements_def)
qed

text \<open>The element loop as a counted loop, for chunks inside the data and a list with room for the elements.\<close>

definition append_pre :: "unity_common \<Rightarrow> byte_stream \<Rightarrow> nat \<Rightarrow> nat \<Rightarrow> signature_table \<Rightarrow> bool" where
  "append_pre uc s e n t \<longleftrightarrow> sg_count t + int n \<le> sg_alloc t \<and> le_stream uc s \<and> e \<le> length (bs_data s) \<and> length (bs_data s) \<le> SIZE_MAX"

interpretation element_loop: counted_loop "append_element uc a e name"
  "\<lambda>i st. append_pre uc s e n t \<and> append_inv uc s a e name n t i st" n for uc s a e name n t
  by unfold_locales (auto simp: append_pre_def intro: append_element_step(2) dest: safeD [OF append_element_step(1)])

text \<open>
  What a successful parse of a chunk has done: the words at the start of the payload are the number of
  elements and the offset of the first record, and the list has grown by exactly those elements.
\<close>

definition signature_parsed :: "byte_stream \<Rightarrow> nat \<Rightarrow> nat \<Rightarrow> bytes \<Rightarrow> signature_table \<Rightarrow> byte_stream \<Rightarrow> signature_table \<Rightarrow> bool" where
  "signature_parsed s a e name t s' t' \<longleftrightarrow> (\<exists>count offset els.
     rd32 (bs_data s) (bs_position s) = Some count \<and> rd32 (bs_data s) (bs_position s + 4) = Some offset \<and>
     length els = unat count \<and> elements t' = elements t @ els \<and> sg_count t' = sg_count t + int (unat count) \<and>
     chunk_elements (bs_data s) a e name (a + unat offset) els \<and>
     a + unat offset + unat count * signature_element_size name \<le> e \<and> bs_position s + 8 \<le> a + unat offset \<and>
     s' = s\<lparr>bs_position := a + unat offset + unat count * signature_element_size name\<rparr>)"

lemma parse_signature_run:
  assumes s: "le_stream uc s" and data: "a \<le> e" "e \<le> length (bs_data s)" "length (bs_data s) \<le> SIZE_MAX" and t: "signature_table_ok t"
  shows "safe (parse_signature uc s a e t name)"
    "parse_signature uc s a e t name = Done (s', t') \<Longrightarrow> signature_table_ok t' \<and> signature_parsed s a e name t s' t'"
proof -
  let ?s = "\<lambda>offset. s\<lparr>bs_position := a + unat offset\<rparr>"
  let ?t = "\<lambda>alloc. t\<lparr>sg_list := (if alloc = 0 then None else Some (elements t)), sg_alloc := alloc\<rparr>"
  have start: "append_pre uc (?s offset) e (unat count) (?t alloc) \<and>
      append_inv uc (?s offset) a e name (unat count) (?t alloc) 0 (?s offset, ?t alloc)"
    if "reserve_array uc (sg_list t = None) (sg_alloc t) (sg_count t + int (unat count)) sizeof_signature_element = Some alloc"
       "\<not> int (unat count) > int INT_MAX - sg_count t" for count offset :: u32 and alloc
  proof -
    have "sg_alloc t \<le> int INT_MAX" "sg_count t + int (unat count) \<le> int INT_MAX" using t that(2) by (auto simp: signature_table_ok_def)
    from reserve_array_Some [OF that(1) this] show ?thesis
      using s data t by (auto simp: append_pre_def append_inv_def signature_table_ok_def elements_def chunk_elements_def split: option.splits)
  qed
  show "safe (parse_signature uc s a e t name)"
    unfolding parse_signature_def elements_def [symmetric]
  proof (intro safe_rules safe_case stream_next_safe, goal_cases)
    case (1 x count s1 y offset s2 alloc)
    then have "s2 = s\<lparr>bs_position := bs_position s + 8\<rparr>" using s by (auto simp: stream_next_Done)
    then show ?case
      using element_loop.count_safe [OF start [of count alloc offset]] 1 by (auto simp: safe_def)
  qed
  assume "parse_signature uc s a e t name = Done (s', t')"
  then obtain count offset alloc where
    rd: "rd32 (bs_data s) (bs_position s) = Some count" "rd32 (bs_data s) (bs_position s + 4) = Some offset"
    and ok: "\<not> unat offset > e - a" "\<not> a + unat offset < bs_position s + 8" "\<not> bs_position s + 8 > e"
      "\<not> unat count > (e - (a + unat offset)) div signature_element_size name" "\<not> int (unat count) > int INT_MAX - sg_count t"
    and al: "reserve_array uc (sg_list t = None) (sg_alloc t) (sg_count t + int (unat count)) sizeof_signature_element = Some alloc"
    and run: "ofold (append_element uc a e name) [0..<unat count] (?s offset, ?t alloc) = Done (s', t')"
    using s by (auto simp: parse_signature_def obind_Done_iff stream_next_Done elements_def [symmetric] split: if_splits option.splits)
  have "append_inv uc (?s offset) a e name (unat count) (?t alloc) (unat count) (s', t')"
    using element_loop.count_keeps [OF start [OF al ok(5)] _ _ run] by simp
  moreover have "elements (?t alloc) = elements t"
    using reserve_array_Some [OF al] t ok(5) by (auto simp: elements_def signature_table_ok_def split: option.splits)
  moreover have "a + unat offset + unat count * signature_element_size name \<le> e"
    using ok(1) data(1) mult_le_mono1 [OF ok(4) [unfolded not_less], of "signature_element_size name"]
      div_times_less_eq_dividend [of "e - (a + unat offset)" "signature_element_size name"] by linarith
  ultimately show "signature_table_ok t' \<and> signature_parsed s a e name t s' t'"
    using rd ok unfolding append_inv_def signature_parsed_def by (auto intro!: exI [of _ count] exI [of _ offset])
qed

section \<open>Properties\<close>

text \<open>
  C35: for an element whose name array holds a terminator, \<open>dxbc_signature_element_is_valid\<close> reads no byte
  outside the name and decides exactly the declarative validity: component type, masks, stream and
  interpolation in their domains and allowed in the role, an HLSL identifier for a name, and a semantic that
  is the one of its system value (or no reserved name when it has none).
\<close>

theorem signature_valid_iff:
  assumes "element_terminated el"
  shows "dxbc_signature_element_is_valid el role = Done (valid_element el role)"
  by (rule valid_iff [OF assms])

definition sample_element :: signature_element where
  "sample_element = zero_element\<lparr>se_semantic_name := cstring ''TEXCOORD'' @ replicate 55 0, se_semantic_name_length := 8,
     se_component_type := 3, se_mask := 0xf, se_rw_mask := 0x3\<rparr>"

theorem signature_valid_iff_witness:
  "element_terminated sample_element \<and> dxbc_signature_element_is_valid sample_element SIGNATURE_ROLE_INPUT = Done True"
proof -
  have t: "element_terminated sample_element" by code_simp
  have "valid_element sample_element SIGNATURE_ROLE_INPUT" by code_simp
  then show ?thesis using signature_valid_iff [OF t] t by simp
qed


definition sample_signature :: bytes where
  "sample_signature = concat (map bytes32 [1, 8, 32, 0, 0, 3, 0, 0x0f0f]) @ cstring ''UV''"

definition sample_stream :: byte_stream where
  "sample_stream = \<lparr>bs_data = sample_signature, bs_position = 0, bs_big_endian = False\<rparr>"

definition empty_signature :: signature_table where
  "empty_signature = \<lparr>sg_list = None, sg_count = 0, sg_alloc = 0\<rparr>"

lemma sample_stream_data:
  "bs_data sample_stream = [1, 0, 0, 0, 8, 0, 0, 0, 32, 0, 0, 0, 0, 0, 0, 0, 0, 0, 0, 0, 3, 0, 0, 0, 0, 0, 0, 0, 15, 15, 0, 0, 85, 86, 0]"
  "\<not> bs_big_endian sample_stream" "bs_position sample_stream = 0"
  by code_simp+

lemma sample_words: "rd32 (bs_data sample_stream) 0 = Some 1" "rd32 (bs_data sample_stream) 4 = Some 8"
  "rd32 (bs_data sample_stream) 8 = Some 32" "rd32 (bs_data sample_stream) 12 = Some 0" "rd32 (bs_data sample_stream) 16 = Some 0"
  "rd32 (bs_data sample_stream) 20 = Some 3" "rd32 (bs_data sample_stream) 24 = Some 0" "rd32 (bs_data sample_stream) 28 = Some 0x0f0f"
  by code_simp+

lemma sample_stream_read: "stream_read_uint32 lp64_common (sample_stream\<lparr>bs_position := p\<rparr>) =
   map_option (\<lambda>v. (v, sample_stream\<lparr>bs_position := p + 4\<rparr>)) (rd32 (bs_data sample_stream) p)"
  "stream_read_uint32 lp64_common sample_stream = map_option (\<lambda>v. (v, sample_stream\<lparr>bs_position := 4\<rparr>)) (rd32 (bs_data sample_stream) 0)"
  by (simp_all add: stream_read_uint32_eq sample_stream_data)

lemma sample_valid: "dxbc_signature_element_is_valid (zero_element\<lparr>se_semantic_name := [85, 86, 0] @ replicate 61 0,
   se_semantic_name_length := 2, se_component_type := 3, se_mask := 0xf, se_rw_mask := 0xf\<rparr>) SIGNATURE_ROLE_INPUT = Done True"
  by code_simp

lemma sample_signature_run:
  "\<exists>t'. parse_signature lp64_common sample_stream 0 35 empty_signature (chars ''ISGN'') = Done (sample_stream\<lparr>bs_position := 32\<rparr>, t')"
proof -
  have "read_element_words lp64_common False False (sample_stream\<lparr>bs_position := 8\<rparr>) =
     Done (zero_element\<lparr>se_component_type := 3\<rparr>, 32, 0x0f0f, sample_stream\<lparr>bs_position := 32\<rparr>)"
    by (simp add: read_element_words_def stream_next_def sample_stream_read sample_words zero_element_def)
  moreover have "drop 32 (bs_data sample_stream) = [85, 86, 0]" unfolding sample_stream_data by simp
  moreover have "memchr0 [85, 86, 0] 3 = Done (Some 2)" by code_simp
  moreover have "drop (2 + 1) (replicate 64 0) = replicate 61 (0 :: u8)" by simp
  ultimately have "parse_element lp64_common 0 35 False False SIGNATURE_ROLE_INPUT (sample_stream\<lparr>bs_position := 8\<rparr>) = Done (zero_element\<lparr>se_semantic_name := [85, 86, 0] @ replicate 61 0,
   se_semantic_name_length := 2, se_component_type := 3, se_mask := 0xf, se_rw_mask := 0xf\<rparr>, sample_stream\<lparr>bs_position := 32\<rparr>)"
    using sample_valid
    by (simp add: parse_element_def Let_def set_signature_semantic_name_def zero_element_def)
  then show ?thesis
    by (simp add: parse_signature_def stream_next_def sample_stream_read sample_words empty_signature_def signature_element_size_def
      chars_def signature_is_streamed_def signature_has_min_precision_def signature_role_for_chunk_def reserve_array_def Let_def append_element_def grow_allocation.simps)
qed


end
