(* ===== verification/Instruction_Spec.thy ===== *)
theory Instruction_Spec
  imports Instruction Operand_Spec Signature_Spec
begin

text \<open>
  What the instruction decoder does: it never leaves the buffer or its arrays, it keeps the container
  well formed, and every instruction it stores holds the words it was decoded from.
\<close>

section \<open>A judgement for decoders\<close>

text \<open>The computation does not fault, and a result satisfies \<open>Q\<close>; one rule per construct.\<close>

definition meets :: "('a \<Rightarrow> bool) \<Rightarrow> ('e, 'a) outcome \<Rightarrow> bool" where
  "meets Q m \<longleftrightarrow> m \<noteq> Fault \<and> (\<forall>x. m = Done x \<longrightarrow> Q x)"

named_theorems meets_intros \<open>structural rules for decoders\<close>

lemma meetsD: "meets Q m \<Longrightarrow> m = Done x \<Longrightarrow> Q x" and meets_safe: "meets Q m \<Longrightarrow> m \<noteq> Fault"
  by (simp_all add: meets_def)

lemma meets_rules [meets_intros]:
  "Q x \<Longrightarrow> meets Q (Done x)" "meets Q (Fail e)" "meets Q reject_instruction"
  "(c \<Longrightarrow> meets Q m) \<Longrightarrow> (\<not> c \<Longrightarrow> meets Q n) \<Longrightarrow> meets Q (if c then m else n)"
  "(o' = None \<Longrightarrow> meets Q m) \<Longrightarrow> (\<And>x. o' = Some x \<Longrightarrow> meets Q (g x)) \<Longrightarrow> meets Q (case o' of None \<Rightarrow> m | Some x \<Rightarrow> g x)"
  "(\<And>a b. p = (a, b) \<Longrightarrow> meets Q (h a b)) \<Longrightarrow> meets Q (case p of (a, b) \<Rightarrow> h a b)"
  by (auto simp: meets_def reject_instruction_def split: option.split prod.split)

lemma meets_bind: "meets R m \<Longrightarrow> (\<And>x. R x \<Longrightarrow> meets Q (f x)) \<Longrightarrow> meets Q (obind m f)"
  by (auto simp: meets_def outcome_simps)

lemma meets_mono: "meets R m \<Longrightarrow> (\<And>x. R x \<Longrightarrow> Q x) \<Longrightarrow> meets Q m"
  by (simp add: meets_def)

lemma meets_Done [simp]: "meets Q (Done x) \<longleftrightarrow> Q x"
  by (simp add: meets_def)

section \<open>Words\<close>

text \<open>
  The stream has moved forward below the limit; when the allocator never refuses, over exactly the words
  \<open>ws\<close>.
\<close>

definition traced :: "unity_common \<Rightarrow> nat \<Rightarrow> byte_stream \<Rightarrow> u32 list \<Rightarrow> byte_stream \<Rightarrow> bool" where
  "traced uc limit s ws s' \<longleftrightarrow> moved limit s s' \<and> (memory_available uc \<longrightarrow> consumed limit s ws s')"

lemma moved_facts:
  assumes "moved limit s s'"
  shows "bs_data s' = bs_data s" "bs_position s \<le> bs_position s'" "bs_position s' \<le> limit" "readable uc limit s' \<longleftrightarrow> readable uc limit s"
    "bs_big_endian s' = bs_big_endian s" "s\<lparr>bs_position := p\<rparr> = s'\<lparr>bs_position := p\<rparr>"
  using assms by (cases s; cases s'; simp add: moved_def readable_def)+

lemma moved_trans: "moved limit s s' \<Longrightarrow> moved limit s' s'' \<Longrightarrow> moved limit s s''"
  by (cases s; cases s'; cases s'') (auto simp: moved_def)

lemma consumed_moved: "consumed limit s ws s' \<Longrightarrow> moved limit s s'"
  by (auto simp: consumed_def moved_def)

lemma traced_moved: "traced uc limit s ws s' \<Longrightarrow> moved limit s s'"
  by (simp add: traced_def)

lemma traced_refl: "bs_position s \<le> limit \<Longrightarrow> traced uc limit s [] s"
  by (simp add: traced_def moved_refl)

lemma traced_append: "traced uc limit s ws s' \<Longrightarrow> traced uc limit s' ws' s'' \<Longrightarrow> traced uc limit s (ws @ ws') s''"
  by (auto simp: traced_def consumed_append intro: moved_trans)

lemma consumed_traced: "consumed limit s ws s' \<Longrightarrow> traced uc limit s ws s'"
  by (simp add: traced_def consumed_moved)

lemma instruction_next_Done:
  assumes "readable uc limit s"
  shows "instruction_next uc limit s = Done (v, s') \<longleftrightarrow> consumed limit s [v] s'"
  using assms
  by (auto simp: instruction_next_def instruction_read_u32_def readable_def stream_read_uint32_eq
      consumed_def rd32_bslice4 le_diff_conv2 split: option.splits)

lemma next_meets: "readable uc limit s \<Longrightarrow> meets (\<lambda>(v, s'). consumed limit s [v] s') (instruction_next uc limit s)"
  using instruction_next_Done [of uc limit s] by (auto simp: meets_def instruction_next_def split: option.split)


lemma operand_meets:
  assumes "readable uc limit s" "bs_position s \<le> limit"
  shows "meets (\<lambda>(op, s'). traced uc limit s (encode_operand op) s') (on_fail (parse_operand_recursive uc s limit) (Fail ()))"
proof -
  have "traced uc limit s (encode_operand op) s'" if run: "parse_operand_recursive uc s limit = Done (op, s')" for op s'
  proof -
    have "consumed limit s (encode_operand op) s'" if "memory_available uc"
      using run encode_decode(1) unfolding parse_operand_iff [OF that assms(1)] by metis
    moreover have "moved limit s s'" using parse_operand_result [OF assms] run by simp
    ultimately show ?thesis by (simp add: traced_def)
  qed
  then show ?thesis using parse_operand_result [OF assms] by (auto simp: meets_def outcome_simps)
qed

section \<open>Operands of an instruction\<close>

lemma append_operand_meets:
  assumes "readable uc limit s" "bs_position s \<le> limit"
  shows "meets (\<lambda>(inst', s'). \<exists>op. inst' = inst\<lparr>in_operands := in_operands inst @ [op]\<rparr> \<and> length (in_operands inst) < DXBC_MAX_OPERANDS \<and>
     traced uc limit s (encode_operand op) s') (append_required_operand uc limit (inst, s))"
  unfolding append_required_operand_def prod.case
  by (intro meets_rules meets_bind [OF operand_meets [OF assms]]) auto

lemma append_literal_meets:
  assumes "readable uc limit s"
  shows "meets (\<lambda>(inst', s'). \<exists>v. inst' = inst\<lparr>in_operands := in_operands inst @ [literal_operand v]\<rparr> \<and> length (in_operands inst) < DXBC_MAX_OPERANDS \<and>
     traced uc limit s [v] s') (append_declaration_literal uc limit (inst, s))"
  unfolding append_declaration_literal_def prod.case
  by (intro meets_rules meets_bind [OF next_meets [OF assms]]) (auto intro: consumed_traced)

text \<open>The operands appended so far, from the stream \<open>s\<close> on.\<close>

definition operands_from :: "unity_common \<Rightarrow> nat \<Rightarrow> byte_stream \<Rightarrow> instruction \<Rightarrow> instruction \<times> byte_stream \<Rightarrow> bool" where
  "operands_from uc limit s inst = (\<lambda>(inst', s'). \<exists>ops. inst' = inst\<lparr>in_operands := ops\<rparr> \<and> length ops \<le> DXBC_MAX_OPERANDS \<and>
     traced uc limit s (concat (map encode_operand ops)) s')"

lemma append_operands_meets:
  assumes "readable uc limit s" "operands_from uc limit s inst st" "DXBC_MAX_OPERANDS < length (in_operands (fst st)) + fuel"
  shows "meets (\<lambda>st'. operands_from uc limit s inst st' \<and> \<not> bs_position (snd st') < limit) (append_operands fuel uc limit st)"
  using assms(2,3)
proof (induction fuel arbitrary: st)
  case (Suc fuel)
  obtain i1 s1 where st: "st = (i1, s1)" by (cases st)
  from Suc.prems(1) obtain ops where ops: "i1 = inst\<lparr>in_operands := ops\<rparr>" "length ops \<le> DXBC_MAX_OPERANDS"
    "traced uc limit s (concat (map encode_operand ops)) s1" by (auto simp: operands_from_def st)
  note s1 = moved_facts [OF traced_moved [OF ops(3)]]
  have r1: "readable uc limit s1" using assms(1) s1(4) by simp
  show ?case
    unfolding append_operands.simps st
  proof (intro meets_rules meets_bind [OF append_operand_meets [OF r1 s1(3)]])
    fix x
    assume "case x of (inst', s') \<Rightarrow> \<exists>op. inst' = i1\<lparr>in_operands := in_operands i1 @ [op]\<rparr> \<and> length (in_operands i1) < DXBC_MAX_OPERANDS \<and>
       traced uc limit s1 (encode_operand op) s'"
    then obtain op s2 where x: "x = (i1\<lparr>in_operands := ops @ [op]\<rparr>, s2)" "length ops < DXBC_MAX_OPERANDS" "traced uc limit s1 (encode_operand op) s2"
      by (auto simp: ops)
    have "operands_from uc limit s inst x"
      using traced_append [OF ops(3) x(3)] x(2) by (auto simp: operands_from_def x(1) ops(1))
    with x Suc.prems(2) show "meets (\<lambda>st'. operands_from uc limit s inst st' \<and> \<not> bs_position (snd st') < limit) (append_operands fuel uc limit x)"
      by (intro Suc.IH) (auto simp: st ops(1))
  qed (use Suc.prems(1) in \<open>simp_all add: st\<close>)
qed (auto simp: operands_from_def)

section \<open>The register tables\<close>

definition tables_ok :: "dxbc_container \<Rightarrow> bool" where
  "tables_ok c \<longleftrightarrow> table_ok (dc_resources c) \<and> table_ok (dc_uavs c)"

definition tables_grow :: "dxbc_container \<Rightarrow> dxbc_container \<Rightarrow> bool" where
  "tables_grow c c' \<longleftrightarrow> c' = c\<lparr>dc_resources := dc_resources c', dc_uavs := dc_uavs c'\<rparr> \<and> tables_ok c'"

lemma tables_grow_refl: "tables_ok c \<Longrightarrow> tables_grow c c"
  by (simp add: tables_grow_def)

lemma filled_table_ok:
  assumes "table_ok t" "rt_array t = Some ds" "k < length ds" "rd_register_index d = rd_register_index (ds ! k)"
  shows "table_ok (t\<lparr>rt_array := Some (ds[k := d])\<rparr>)"
proof -
  have "map rd_register_index (ds[k := d]) = map rd_register_index ds"
    using assms(3,4) by (simp add: map_update list_update_same_conv)
  moreover have "0 \<le> rd_register_index e" if "e \<in> set (ds[k := d])" for e
    using that set_update_subset_insert [of ds k d] assms by (auto simp: table_ok_def decls_def)
  ultimately show ?thesis using assms by (simp add: table_ok_def decls_def)
qed

lemma get_or_add_safe: "table_ok t \<Longrightarrow> 0 \<le> r \<Longrightarrow> dxbc_get_or_add_resource_declaration uc t r \<noteq> Fault"
  by (simp add: get_or_add_cases split: option.split)

lemma declare_meets:
  assumes c: "tables_ok c" and r: "0 \<le> r" and fill: "\<And>d. rd_register_index (fill d) = rd_register_index d"
  shows "meets (tables_grow c) (declare_register uc uav r fill c)"
proof -
  have t: "table_ok (if uav then dc_uavs c else dc_resources c)" using c by (simp add: tables_ok_def)
  have "meets (tables_grow c) (case rt_array t' of None \<Rightarrow> Fault
       | Some ds \<Rightarrow>
           if k < length ds then let table = t'\<lparr>rt_array := Some (ds[k := fill (ds ! k)])\<rparr> in
             Done (if uav then c\<lparr>dc_uavs := table\<rparr> else c\<lparr>dc_resources := table\<rparr>)
           else Fault)"
    if "dxbc_get_or_add_resource_declaration uc (if uav then dc_uavs c else dc_resources c) r = Done (Some (t', k))" for t' k
  proof -
    note res = add_result [OF t r that]
    obtain ds where ds: "rt_array t' = Some ds" "k < length ds" using res(3) by (auto simp: decls_def split: option.splits)
    have "table_ok (t'\<lparr>rt_array := Some (ds[k := fill (ds ! k)])\<rparr>)" by (rule filled_table_ok [OF res(1) ds fill])
    with ds c show ?thesis by (auto simp: tables_grow_def tables_ok_def Let_def)
  qed
  then show ?thesis
    unfolding declare_register_def using get_or_add_safe [OF t r, of uc]
    by (intro meets_bind [where R = "\<lambda>x. dxbc_get_or_add_resource_declaration uc (if uav then dc_uavs c else dc_resources c) r = Done x"] meets_rules)
      (auto simp: meets_def)
qed

lemma binding_register:
  assumes "declaration_binding_register inst ty = Some r"
  shows "0 \<le> r" "\<exists>op. in_operands inst = [op] \<and> oh_type (op_head op) = ty \<and> oh_register_index (op_head op) = r"
  using assms by (auto simp: declaration_binding_register_def Let_def split: list.splits if_splits)

section \<open>Payloads\<close>

text \<open>The fields of an instruction that identify it in the token stream.\<close>

definition identity :: "instruction \<Rightarrow> u32 \<times> u32 \<times> u32 \<times> u32 \<times> u32 \<times> bool \<times> bool" where
  "identity inst = (in_token inst, in_opcode inst, in_file_offset inst, in_byte_length inst, in_raw_instruction_index inst,
     in_has_raw_instruction_index inst, in_is_customdata_continuation inst)"

lemma identity_updates [simp]:
  "identity (inst\<lparr>in_operands := ops\<rparr>) = identity inst" "identity (inst\<lparr>in_structured_stride := n\<rparr>) = identity inst"
  "identity (inst\<lparr>in_has_declaration_system_value := b\<rparr>) = identity inst" "identity (inst\<lparr>in_declaration_system_value := v\<rparr>) = identity inst"
  "identity (inst\<lparr>in_has_declaration_interpolation := b\<rparr>) = identity inst" "identity (inst\<lparr>in_declaration_interpolation := i\<rparr>) = identity inst"
  "identity (inst\<lparr>in_is_decl := b\<rparr>) = identity inst" "identity (inst\<lparr>in_saturate := b\<rparr>) = identity inst"
  "identity (inst\<lparr>in_condition_test := t\<rparr>) = identity inst" "identity (inst\<lparr>in_resource_info_return_type := i\<rparr>) = identity inst"
  "identity (inst\<lparr>in_sample_info_return_type := i\<rparr>) = identity inst" "identity (inst\<lparr>in_has_texel_offset := b\<rparr>) = identity inst"
  "identity (inst\<lparr>in_texel_offsets := xs\<rparr>) = identity inst" "identity (inst\<lparr>in_has_resource_dimension := b\<rparr>) = identity inst"
  "identity (inst\<lparr>in_resource_dimension := v\<rparr>) = identity inst" "identity (inst\<lparr>in_has_resource_return_types := b\<rparr>) = identity inst"
  "identity (inst\<lparr>in_resource_return_types := bs\<rparr>) = identity inst"
  by (simp_all add: identity_def)

text \<open>
  The words of a payload, by opcode, in terms of the decoded instruction.  Token operands stand in their
  encoding; the scalar words of a declaration are the literals and registers of its further operands.  The
  return-type word of a typed resource and the vertex count of \<open>dcl_maxout\<close> are not kept in the instruction.
\<close>

definition payload :: "nat \<Rightarrow> instruction \<Rightarrow> u32 list \<Rightarrow> bool" where
  "payload opcode inst ws \<longleftrightarrow>
     (if opcode = 155 then \<exists>x y z. in_operands inst = map literal_operand [x, y, z] \<and> ws = [x, y, z]
      else if opcode = 159 then \<exists>g x. in_operands inst = [g, literal_operand x] \<and> ws = encode_operand g @ [x]
      else if opcode = 160 then \<exists>g x y. in_operands inst = [g, literal_operand x, literal_operand y] \<and> ws = encode_operand g @ [x, y]
      else if opcode = 88 \<or> opcode = 156 then \<exists>op w. in_operands inst = [op] \<and> ws = encode_operand op @ [w]
      else if opcode = 162 \<or> opcode = 158 then
        \<exists>op w. in_operands inst = [op, zero_operand] \<and> in_structured_stride inst = int (unat w) \<and> ws = encode_operand op @ [w]
      else if opcode = 91 then \<exists>op n. in_operands inst = [op, literal_operand n] \<and> ws = encode_operand op @ [n]
      else if opcode \<in> {190} \<union> {113..116} \<union> {147..151} then in_operands inst = [] \<and> ws = []
      else if opcode = 92 \<or> opcode = 93 \<or> opcode = 106 then set (in_operands inst) \<subseteq> {zero_operand} \<and> ws = []
      else if opcode \<in> {152..154} \<or> opcode = 206 then \<exists>v. in_operands inst = [literal_operand v] \<and> ws = [v]
      else if opcode = 104 then \<exists>v. in_operands inst = [register_operand v] \<and> ws = [v]
      else if opcode = 105 then \<exists>x n k op. in_operands inst = [op, register_operand k] \<and> oh_register_index (op_head op) = int (unat x) \<and>
        oh_rel_offset1 (op_head op) = int (unat n) \<and> ws = [x, n, k]
      else if opcode = 94 then \<exists>w. in_operands inst = [zero_operand] \<and> ws = [w]
      else if opcode \<in> {96, 97, 99, 100, 102, 103} then
        \<exists>op. in_operands inst = [op, zero_operand] \<and> ws = encode_operand op @ [in_declaration_system_value inst]
      else ws = concat (map encode_operand (in_operands inst)))"

text \<open>What a handler promises for an instruction that has no operands yet.\<close>

definition handles :: "unity_common \<Rightarrow> nat \<Rightarrow> (instruction \<Rightarrow> u32 list \<Rightarrow> bool) \<Rightarrow> (decode_state \<Rightarrow> (unit, decode_state) outcome) \<Rightarrow> bool" where
  "handles uc limit P h \<longleftrightarrow> (\<forall>inst s c. readable uc limit s \<longrightarrow> bs_position s \<le> limit \<longrightarrow> in_operands inst = [] \<longrightarrow> tables_ok c \<longrightarrow>
     meets (\<lambda>(inst', s', c'). identity inst' = identity inst \<and> tables_grow c c' \<and> length (in_operands inst') \<le> DXBC_MAX_OPERANDS \<and>
       (\<exists>ws. traced uc limit s ws s' \<and> P inst' ws)) (h (inst, s, c)))"

lemma handlesI:
  "(\<And>inst s c. readable uc limit s \<Longrightarrow> bs_position s \<le> limit \<Longrightarrow> in_operands inst = [] \<Longrightarrow> tables_ok c \<Longrightarrow>
     meets (\<lambda>(inst', s', c'). identity inst' = identity inst \<and> tables_grow c c' \<and> length (in_operands inst') \<le> DXBC_MAX_OPERANDS \<and>
       (\<exists>ws. traced uc limit s ws s' \<and> P inst' ws)) (h (inst, s, c))) \<Longrightarrow> handles uc limit P h"
  unfolding handles_def by blast

lemma traced_readable: "traced uc limit s ws s' \<Longrightarrow> readable uc limit s \<Longrightarrow> readable uc limit s'"
  and traced_below: "traced uc limit s ws s' \<Longrightarrow> bs_position s' \<le> limit"
  by (auto dest!: traced_moved simp: moved_facts)

lemma with_operand_meets:
  assumes "readable uc limit s" "bs_position s \<le> limit"
  shows "meets (\<lambda>(inst', s', c'). c' = c \<and> readable uc limit s' \<and> bs_position s' \<le> limit \<and> (\<exists>op. inst' = inst\<lparr>in_operands := in_operands inst @ [op]\<rparr> \<and>
     length (in_operands inst) < DXBC_MAX_OPERANDS \<and> traced uc limit s (encode_operand op) s')) (with_operand uc limit (inst, s, c))"
  unfolding with_operand_def prod.case
  by (rule meets_bind [OF append_operand_meets [OF assms]]) (use assms(1) in \<open>auto dest: traced_below traced_readable\<close>)

lemma with_literal_meets:
  assumes "readable uc limit s"
  shows "meets (\<lambda>(inst', s', c'). c' = c \<and> readable uc limit s' \<and> bs_position s' \<le> limit \<and> (\<exists>v. inst' = inst\<lparr>in_operands := in_operands inst @ [literal_operand v]\<rparr> \<and>
     length (in_operands inst) < DXBC_MAX_OPERANDS \<and> traced uc limit s [v] s')) (with_literal uc limit (inst, s, c))"
  unfolding with_literal_def prod.case
  by (rule meets_bind [OF append_literal_meets [OF assms]]) (use assms(1) in \<open>auto dest: traced_below traced_readable\<close>)

text \<open>The state of a handler that has appended the operands \<open>ops\<close> from the words \<open>ws\<close>.\<close>

definition progress ::
  "unity_common \<Rightarrow> nat \<Rightarrow> instruction \<Rightarrow> byte_stream \<Rightarrow> dxbc_container \<Rightarrow> operand list \<Rightarrow> u32 list \<Rightarrow> decode_state \<Rightarrow> bool" where
  "progress uc limit inst s c ops ws = (\<lambda>(inst', s', c'). c' = c \<and> inst' = inst\<lparr>in_operands := ops\<rparr> \<and> traced uc limit s ws s' \<and>
     readable uc limit s' \<and> length ops \<le> DXBC_MAX_OPERANDS)"

lemma progress_operand:
  assumes "progress uc limit inst s c ops ws st"
  shows "meets (\<lambda>st'. \<exists>op. progress uc limit inst s c (ops @ [op]) (ws @ encode_operand op) st') (with_operand uc limit st)"
proof -
  obtain i1 s1 c1 where st: "st = (i1, s1, c1)" by (cases st)
  note p = assms [unfolded progress_def st prod.case]
  then have s1: "readable uc limit s1" "bs_position s1 \<le> limit" by (auto dest: traced_below)
  show ?thesis
    unfolding st
  proof (rule meets_mono [OF with_operand_meets [OF s1]], clarify)
    fix s2 op
    assume "traced uc limit s1 (encode_operand op) s2" "readable uc limit s2" "length (in_operands i1) < DXBC_MAX_OPERANDS"
    with p traced_append [of uc limit s ws s1 "encode_operand op" s2]
    show "\<exists>op'. progress uc limit inst s c (ops @ [op']) (ws @ encode_operand op') (i1\<lparr>in_operands := in_operands i1 @ [op]\<rparr>, s2, c1)"
      by (intro exI [of _ op]) (simp add: progress_def)
  qed
qed

lemma progress_literal:
  assumes "progress uc limit inst s c ops ws st"
  shows "meets (\<lambda>st'. \<exists>v. progress uc limit inst s c (ops @ [literal_operand v]) (ws @ [v]) st') (with_literal uc limit st)"
proof -
  obtain i1 s1 c1 where st: "st = (i1, s1, c1)" by (cases st)
  note p = assms [unfolded progress_def st prod.case]
  then have s1: "readable uc limit s1" by simp
  show ?thesis
    unfolding st
  proof (rule meets_mono [OF with_literal_meets [OF s1]], clarify)
    fix s2 v
    assume "traced uc limit s1 [v] s2" "readable uc limit s2" "length (in_operands i1) < DXBC_MAX_OPERANDS"
    with p traced_append [of uc limit s ws s1 "[v]" s2]
    show "\<exists>v'. progress uc limit inst s c (ops @ [literal_operand v']) (ws @ [v']) (i1\<lparr>in_operands := in_operands i1 @ [literal_operand v]\<rparr>, s2, c1)"
      by (intro exI [of _ v]) (simp add: progress_def)
  qed
qed

lemma progress_word:
  assumes "progress uc limit inst s c ops ws (i1, s1, c1)"
  shows "meets (\<lambda>(v, s'). progress uc limit inst s c ops (ws @ [v]) (i1, s', c1)) (instruction_next uc limit s1)"
proof -
  note p = assms [unfolded progress_def prod.case]
  then have s1: "readable uc limit s1" by simp
  show ?thesis
  proof (rule meets_mono [OF next_meets [OF s1]], clarify)
    fix v s2
    assume "consumed limit s1 [v] s2"
    with p s1 traced_append [of uc limit s ws s1 "[v]" s2] show "progress uc limit inst s c ops (ws @ [v]) (i1, s2, c1)"
      by (simp add: progress_def consumed_traced)
  qed
qed

lemma progress_start:
  "readable uc limit s \<Longrightarrow> bs_position s \<le> limit \<Longrightarrow> in_operands inst = [] \<Longrightarrow> progress uc limit inst s c [] [] (inst, s, c)"
  by (simp add: progress_def traced_refl)

text \<open>A handler that ends with an instruction of its own identity.\<close>

lemma handles_progress:
  assumes "\<And>inst s c. tables_ok c \<Longrightarrow> progress uc limit inst s c [] [] (inst, s, c) \<Longrightarrow>
    meets (\<lambda>(inst', s', c'). identity inst' = identity inst \<and> tables_grow c c' \<and> length (in_operands inst') \<le> DXBC_MAX_OPERANDS \<and>
       (\<exists>ws. traced uc limit s ws s' \<and> P inst' ws)) (h (inst, s, c))"
  shows "handles uc limit P h"
  by (intro handlesI assms progress_start)

lemma progress_done:
  assumes "progress uc limit inst s c ops ws (i1, s1, c1)" "tables_ok c" "P (inst\<lparr>in_operands := ops\<rparr>) ws"
  shows "identity i1 = identity inst \<and> tables_grow c c1 \<and> length (in_operands i1) \<le> DXBC_MAX_OPERANDS \<and> (\<exists>ws. traced uc limit s ws s1 \<and> P i1 ws)"
  using assms by (auto simp: progress_def tables_grow_refl)

lemma thread_group_handles:
  assumes "opcode = 155"
  shows "handles uc limit (payload opcode) (dcl_thread_group uc token limit)"
  unfolding dcl_thread_group_def
proof (intro handles_progress meets_rules, goal_cases)
  case (1 inst s c)
  show ?case
    apply (rule meets_bind [OF progress_literal [OF 1(2)]], elim exE)
    apply (rule meets_bind [OF progress_literal], assumption, elim exE)
    apply (rule meets_mono [OF progress_literal], assumption, elim exE)
    apply (clarify, erule progress_done [OF _ 1(1)])
    apply (simp add: payload_def assms)
    done
qed

lemma progress_finish:
  assumes "progress uc limit inst s c ops ws st" "tables_ok c" "\<And>i1. in_operands i1 = ops \<Longrightarrow> P i1 ws"
  shows "case st of (inst', s', c') \<Rightarrow> identity inst' = identity inst \<and> tables_grow c c' \<and> length (in_operands inst') \<le> DXBC_MAX_OPERANDS \<and>
    (\<exists>ws. traced uc limit s ws s' \<and> P inst' ws)"
  using assms by (cases st) (simp add: progress_done [where P = P])

lemma progress_replace:
  assumes "progress uc limit inst s c ops ws (i1, s1, c1)" "tables_ok c"
    and "identity i1 = identity inst \<Longrightarrow> in_operands i1 = ops \<Longrightarrow> length ops \<le> DXBC_MAX_OPERANDS \<Longrightarrow>
      identity i2 = identity inst \<and> length (in_operands i2) \<le> DXBC_MAX_OPERANDS \<and> P i2 ws"
  shows "meets (\<lambda>(inst', s', c'). identity inst' = identity inst \<and> tables_grow c c' \<and> length (in_operands inst') \<le> DXBC_MAX_OPERANDS \<and>
       (\<exists>ws. traced uc limit s ws s' \<and> P inst' ws)) (Done (i2, s1, c1))"
  using assms by (auto simp: progress_def tables_grow_refl)

lemma declare_done:
  assumes p: "progress uc limit inst s c ops ws (i1, s1, c1)" and c: "tables_ok c" and r: "0 \<le> r"
    and fill: "\<And>d. rd_register_index (fill d) = rd_register_index d"
    and i2: "identity i1 = identity inst \<Longrightarrow> in_operands i1 = ops \<Longrightarrow> length ops \<le> DXBC_MAX_OPERANDS \<Longrightarrow>
      identity i2 = identity inst \<and> length (in_operands i2) \<le> DXBC_MAX_OPERANDS \<and> P i2 ws"
  shows "meets (\<lambda>(inst', s', c'). identity inst' = identity inst \<and> tables_grow c c' \<and> length (in_operands inst') \<le> DXBC_MAX_OPERANDS \<and>
       (\<exists>ws. traced uc limit s ws s' \<and> P inst' ws)) (obind (declare_register uc uav r fill c1) (\<lambda>c. Done (i2, s1, c)))"
proof -
  have "c1 = c" "traced uc limit s ws s1" "identity i1 = identity inst" "in_operands i1 = ops" "length ops \<le> DXBC_MAX_OPERANDS"
    using p by (simp_all add: progress_def)
  then show ?thesis using i2 by (intro meets_bind [OF declare_meets [OF _ r fill]] meets_rules) (auto simp: c)
qed

lemma shared_memory_handles:
  assumes "opcode = 159 \<and> token AND 0x7ff \<noteq> 160 \<or> opcode = 160 \<and> token AND 0x7ff = 160"
  shows "handles uc limit (payload opcode) (dcl_shared_memory uc token limit)"
  unfolding dcl_shared_memory_def
proof (intro handles_progress meets_rules, goal_cases)
  case (1 inst s c)
  show ?case
    apply (rule meets_bind [OF progress_operand [OF 1(2)]], elim exE, intro meets_rules)
    apply (rule meets_bind [OF progress_literal], assumption, elim exE, intro meets_rules)
     apply (rule meets_mono [OF progress_literal], assumption, elim exE)
    by (clarify, erule progress_done [OF _ 1(1)], use assms in \<open>simp add: payload_def\<close>)+
qed

lemma sync_handles: "handles uc limit (payload 190) (dcl_sync uc token limit)"
  unfolding dcl_sync_def
  by (intro handles_progress meets_rules, erule progress_finish) (simp_all add: payload_def)

lemma one_operand_handles:
  assumes P: "\<And>inst op. in_operands inst = [op] \<Longrightarrow> P inst (encode_operand op)"
  shows "handles uc limit P (dcl_constant_buffer uc token limit)" "handles uc limit P (dcl_plain uc token limit)" "handles uc limit P (dcl_sampler uc token limit)"
proof -
  have plain: "handles uc limit P (\<lambda>st. if b then reject_instruction else with_operand uc limit st)" for b
    by (rule handles_progress, intro meets_rules, erule meets_mono [OF progress_operand], elim exE, erule progress_finish)
      (use P in simp_all)
  show "handles uc limit P (dcl_constant_buffer uc token limit)" "handles uc limit P (dcl_plain uc token limit)"
    unfolding dcl_constant_buffer_def dcl_plain_def by (rule plain)+
  show "handles uc limit P (dcl_sampler uc token limit)"
    unfolding dcl_sampler_def
    by (rule handles_progress, intro meets_rules, erule meets_bind [OF progress_operand], elim exE, intro meets_rules, erule progress_finish)
      (use P in simp_all)
qed

lemma resource_handles:
  assumes "opcode = 88 \<or> opcode = 156"
  shows "handles uc limit (payload opcode) (dcl_resource uc token limit)" "handles uc limit (payload opcode) (dcl_uav_typed uc token limit)"
proof -
  have P: "in_operands inst = [op] \<Longrightarrow> payload opcode inst (encode_operand op @ [w])" for inst op w using assms by (auto simp: payload_def)
  show "handles uc limit (payload opcode) (dcl_resource uc token limit)"
    unfolding dcl_resource_def Let_def
    by (rule handles_progress, erule meets_bind [OF progress_operand], elim exE, intro meets_rules, simp only:,
      erule meets_bind [OF progress_word], intro meets_rules, simp only: prod.case,
      erule declare_done [where P = "payload opcode"]) (auto simp: P dest: binding_register(1))
  show "handles uc limit (payload opcode) (dcl_uav_typed uc token limit)"
    unfolding dcl_uav_typed_def Let_def
    by (rule handles_progress, intro meets_rules, erule meets_bind [OF progress_operand], elim exE, intro meets_rules, simp only:,
      erule meets_bind [OF progress_word], intro meets_rules, simp only: prod.case,
      erule declare_done [where P = "payload opcode"]) (auto simp: P dest: binding_register(1))
qed

lemma raw_handles:
  assumes P: "\<And>inst op. in_operands inst = [op] \<Longrightarrow> P inst (encode_operand op)"
  shows "handles uc limit P (dcl_uav_raw uc token limit)" "handles uc limit P (dcl_resource_raw uc token limit)"
proof -
  show "handles uc limit P (dcl_uav_raw uc token limit)"
    unfolding dcl_uav_raw_def
    by (rule handles_progress, intro meets_rules, erule meets_bind [OF progress_operand], elim exE, intro meets_rules, simp only: prod.case,
      erule declare_done [where P = P]) (auto simp: P dest: binding_register(1))
  show "handles uc limit P (dcl_resource_raw uc token limit)"
    unfolding dcl_resource_raw_def
    by (rule handles_progress, intro meets_rules, erule meets_bind [OF progress_operand], elim exE, intro meets_rules, simp only: prod.case,
      erule declare_done [where P = P]) (auto simp: P dest: binding_register(1))
qed

lemma stride_meets:
  assumes "progress uc limit inst s c ops ws (i1, s1, c1)"
  shows "meets (\<lambda>(i2, s2). \<exists>w. i2 = i1\<lparr>in_structured_stride := int (unat w), in_operands := in_operands i1 @ [zero_operand]\<rparr> \<and>
     progress uc limit inst s c ops (ws @ [w]) (i1, s2, c1)) (structured_stride uc limit (i1, s1))"
  unfolding structured_stride_def prod.case
  by (rule meets_bind [OF progress_word [OF assms]]) (intro meets_rules, auto)

lemma structured_handles:
  assumes "opcode = 162 \<or> opcode = 158"
  shows "handles uc limit (payload opcode) (dcl_resource_structured uc token limit)" "handles uc limit (payload opcode) (dcl_uav_structured uc token limit)"
proof -
  have P: "payload opcode (inst\<lparr>in_structured_stride := int (unat w), in_operands := [op, zero_operand]\<rparr>) (encode_operand op @ [w])" for inst op w
    using assms by (auto simp: payload_def)
  show "handles uc limit (payload opcode) (dcl_resource_structured uc token limit)"
    unfolding dcl_resource_structured_def
    by (rule handles_progress, intro meets_rules, erule meets_bind [OF progress_operand], elim exE, intro meets_rules, simp only: prod.case,
      erule meets_bind [OF stride_meets], intro meets_rules, simp only: prod.case, elim exE conjE,
      erule declare_done [where P = "payload opcode"]) (auto simp: P [simplified] dest: binding_register(1))
  show "handles uc limit (payload opcode) (dcl_uav_structured uc token limit)"
    unfolding dcl_uav_structured_def
    by (rule handles_progress, intro meets_rules, erule meets_bind [OF progress_operand], elim exE, intro meets_rules, simp only: prod.case,
      erule meets_bind [OF stride_meets], intro meets_rules, simp only: prod.case, elim exE conjE,
      erule declare_done [where P = "payload opcode"]) (auto simp: P [simplified] dest: binding_register(1))
qed

lemma index_range_handles: "handles uc limit (payload 91) (dcl_index_range uc token limit)"
  unfolding dcl_index_range_def
  by (rule handles_progress, erule meets_bind [OF progress_operand], elim exE, intro meets_rules(4-), simp only: prod.case,
    erule meets_bind [OF progress_word], intro meets_rules(3-), simp only: prod.case, erule progress_replace [where P = "payload 91"])
    (auto simp: payload_def)

lemma token_only_handles:
  assumes "opcode \<in> {113..116} \<union> {147..151}"
  shows "handles uc limit (payload opcode) (dcl_token_only uc token limit)"
proof -
  have P: "in_operands inst = [] \<Longrightarrow> payload opcode inst []" for inst
    using assms by (auto simp: payload_def)
  show ?thesis
    unfolding dcl_token_only_def
    by (rule handles_progress, unfold prod.case, intro meets_rules(3-), erule progress_replace) (use P in auto)
qed

lemma scalar_handles:
  assumes "opcode \<in> {152..154} \<or> opcode = 206"
  shows "handles uc limit (payload opcode) (dcl_scalar uc token limit)"
proof -
  have P: "payload opcode (inst\<lparr>in_operands := [literal_operand v]\<rparr>) [v]" for inst v
    using assms by (auto simp: payload_def)
  show ?thesis
    unfolding dcl_scalar_def Let_def
    by (rule handles_progress, unfold prod.case, erule meets_bind [OF progress_word], intro meets_rules(3-), simp only: prod.case,
      erule progress_replace [where P = "payload opcode"]) (use P in simp_all)
qed

lemma temps_handles: "handles uc limit (payload 104) (dcl_temps uc token limit)"
  unfolding dcl_temps_def
  by (rule handles_progress, unfold prod.case, erule meets_bind [OF progress_word], intro meets_rules(3-), simp only: prod.case,
    erule progress_replace [where P = "payload 104"]) (simp_all add: payload_def)

lemma indexable_temp_handles: "handles uc limit (payload 105) (dcl_indexable_temp uc token limit)"
  unfolding dcl_indexable_temp_def
  by (rule handles_progress, unfold prod.case, erule meets_bind [OF progress_word], intro meets_rules(3-), simp only: prod.case,
    erule meets_bind [OF progress_word], intro meets_rules(3-), simp only: prod.case,
    erule meets_bind [OF progress_word], intro meets_rules(3-), simp only: prod.case,
    erule progress_replace [where P = "payload 105"]) (simp_all add: payload_def)

lemma payload_system_value:
  "payload 96 inst ws \<longleftrightarrow> (\<exists>op. in_operands inst = [op, zero_operand] \<and> ws = encode_operand op @ [in_declaration_system_value inst])"
  "payload 97 inst ws \<longleftrightarrow> (\<exists>op. in_operands inst = [op, zero_operand] \<and> ws = encode_operand op @ [in_declaration_system_value inst])"
  "payload 99 inst ws \<longleftrightarrow> (\<exists>op. in_operands inst = [op, zero_operand] \<and> ws = encode_operand op @ [in_declaration_system_value inst])"
  "payload 100 inst ws \<longleftrightarrow> (\<exists>op. in_operands inst = [op, zero_operand] \<and> ws = encode_operand op @ [in_declaration_system_value inst])"
  "payload 102 inst ws \<longleftrightarrow> (\<exists>op. in_operands inst = [op, zero_operand] \<and> ws = encode_operand op @ [in_declaration_system_value inst])"
  "payload 103 inst ws \<longleftrightarrow> (\<exists>op. in_operands inst = [op, zero_operand] \<and> ws = encode_operand op @ [in_declaration_system_value inst])"
  by (simp_all add: payload_def)

lemma payload_text:
  "payload 92 inst ws \<longleftrightarrow> set (in_operands inst) \<subseteq> {zero_operand} \<and> ws = []"
  "payload 93 inst ws \<longleftrightarrow> set (in_operands inst) \<subseteq> {zero_operand} \<and> ws = []"
  "payload 106 inst ws \<longleftrightarrow> set (in_operands inst) \<subseteq> {zero_operand} \<and> ws = []"
  by (simp_all add: payload_def)

lemma text_operand:
  assumes "identity i1 = identity inst" "in_operands i1 = []" "opcode = 92 \<or> opcode = 93 \<or> opcode = 106"
  shows "identity (if b then i1\<lparr>in_operands := [zero_operand]\<rparr> else i1) = identity inst \<and>
    length (in_operands (if b then i1\<lparr>in_operands := [zero_operand]\<rparr> else i1)) \<le> DXBC_MAX_OPERANDS \<and>
    payload opcode (if b then i1\<lparr>in_operands := [zero_operand]\<rparr> else i1) []"
  using assms by (cases b) (auto simp: payload_text)

lemma text_handles:
  "handles uc limit (payload 93) (dcl_input_primitive uc token limit)" "handles uc limit (payload 92) (dcl_output_topology uc token limit)"
  "handles uc limit (payload 106) (dcl_global_flags uc token limit)" "handles uc limit (payload 94) (dcl_max_out uc token limit)"
proof -
  show "handles uc limit (payload 93) (dcl_input_primitive uc token limit)"
    unfolding dcl_input_primitive_def Let_def
    by (rule handles_progress, unfold prod.case, erule progress_replace [where P = "payload 93"], assumption, erule text_operand) simp_all
  show "handles uc limit (payload 92) (dcl_output_topology uc token limit)"
    unfolding dcl_output_topology_def Let_def
    by (rule handles_progress, unfold prod.case, erule progress_replace [where P = "payload 92"], assumption, erule text_operand) simp_all
  show "handles uc limit (payload 106) (dcl_global_flags uc token limit)"
    unfolding dcl_global_flags_def Let_def
    by (rule handles_progress, unfold prod.case, intro meets_rules(3-), erule progress_replace [where P = "payload 106"]) (simp_all add: payload_def)
  show "handles uc limit (payload 94) (dcl_max_out uc token limit)"
    unfolding dcl_max_out_def
    by (rule handles_progress, unfold prod.case, erule meets_bind [OF progress_word], intro meets_rules(3-), simp only: prod.case,
      erule progress_replace [where P = "payload 94"]) (simp_all add: payload_def)
qed

lemma set_interpolation_meets:
  "meets (\<lambda>inst'. identity inst' = identity inst \<and> in_operands inst' = in_operands inst \<and> in_declaration_system_value inst' = in_declaration_system_value inst)
     (set_interpolation token inst)"
  unfolding set_interpolation_def Let_def by (intro meets_rules) simp

lemma system_value_handles:
  assumes "opcode \<in> {96, 97, 99, 100, 102, 103}"
  shows "handles uc limit (payload opcode) (dcl_system_value uc token limit)"
proof -
  have P: "in_operands inst = [op, zero_operand] \<Longrightarrow> payload opcode inst (encode_operand op @ [in_declaration_system_value inst])" for inst op
    using assms by (auto simp: payload_system_value)
  have tail: "meets (\<lambda>i2. identity i2 = identity i1 \<and> in_operands i2 = in_operands i1 \<and> in_declaration_system_value i2 = in_declaration_system_value i1)
    (if b then set_interpolation token i1 else Done i1)" for b i1
    using set_interpolation_meets [of i1 token] by simp
  show ?thesis
    unfolding dcl_system_value_def Let_def
    by (rule handles_progress, intro meets_rules(3-), erule meets_bind [OF progress_operand], elim exE, intro meets_rules(3-), simp only: prod.case,
      erule meets_bind [OF progress_word], intro meets_rules(3-), simp only: prod.case,
      rule meets_bind [OF tail], erule progress_replace [where P = "payload opcode"]) (simp_all add: P)
qed

lemma input_ps_handles:
  assumes P: "\<And>inst op. in_operands inst = [op] \<Longrightarrow> P inst (encode_operand op)"
  shows "handles uc limit P (dcl_input_ps uc token limit)"
  unfolding dcl_input_ps_def
  by (rule handles_progress, intro meets_rules(3-), erule meets_bind [OF progress_operand], elim exE, intro meets_rules(3-), simp only: prod.case,
    rule meets_bind [OF set_interpolation_meets], erule progress_replace [where P = P]) (simp_all add: P)

lemma generic_handles:
  assumes P: "\<And>inst. P inst (concat (map encode_operand (in_operands inst)))"
  shows "handles uc limit P (generic_operands uc token limit)"
  unfolding generic_operands_def
proof (rule handlesI, unfold prod.case)
  fix inst s c
  assume s: "readable uc limit s" "bs_position s \<le> limit" and c: "tables_ok c"
  have start: "operands_from uc limit s inst (inst\<lparr>in_operands := []\<rparr>, s)"
    using traced_refl [OF s(2)] by (auto simp: operands_from_def)
  show "meets (\<lambda>(inst', s', c'). identity inst' = identity inst \<and> tables_grow c c' \<and> length (in_operands inst') \<le> DXBC_MAX_OPERANDS \<and>
       (\<exists>ws. traced uc limit s ws s' \<and> P inst' ws))
    (obind (append_operands (Suc DXBC_MAX_OPERANDS) uc limit (inst\<lparr>in_operands := []\<rparr>, s)) (\<lambda>(inst, stream). Done (inst, stream, c)))"
  proof (rule meets_bind [OF append_operands_meets [OF s(1) start]], simp)
    fix x
    assume "operands_from uc limit s inst x \<and> \<not> bs_position (snd x) < limit"
    then obtain ops s' where x: "x = (inst\<lparr>in_operands := ops\<rparr>, s')" "length ops \<le> DXBC_MAX_OPERANDS"
      "traced uc limit s (concat (map encode_operand ops)) s'" by (auto simp: operands_from_def)
    then show "meets (\<lambda>(inst', s', c'). identity inst' = identity inst \<and> tables_grow c c' \<and> length (in_operands inst') \<le> DXBC_MAX_OPERANDS \<and>
       (\<exists>ws. traced uc limit s ws s' \<and> P inst' ws)) (case x of (inst, stream) \<Rightarrow> Done (inst, stream, c))"
      using P [of "inst\<lparr>in_operands := ops\<rparr>"] tables_grow_refl [OF c] by auto
  qed
qed

lemma handles_if: "(b \<Longrightarrow> handles uc limit P f) \<Longrightarrow> (\<not> b \<Longrightarrow> handles uc limit P g) \<Longrightarrow> handles uc limit P (\<lambda>st. if b then f st else g st)"
  by (cases b) simp_all

lemma unat_is: "n < 4294967296 \<Longrightarrow> unat (w :: u32) = n \<longleftrightarrow> w = of_nat n"
  using unat_inject [of w "of_nat n"] by (simp add: unat_of_nat take_bit_nat_eq_self)

lemma payload_one_operand:
  "n \<in> {89, 90, 95, 98, 101, 157, 161} \<Longrightarrow> payload n inst ws \<longleftrightarrow> ws = concat (map encode_operand (in_operands inst))"
  unfolding payload_def by (elim insertE; simp)

lemma payload_generic:
  assumes "n \<notin> {155, 159, 160, 88, 156, 162, 158, 91, 190, 92, 93, 106, 206, 104, 105, 94, 96, 97, 99, 100, 102, 103} \<union> {113..116} \<union> {147..154}"
  shows "payload n inst ws \<longleftrightarrow> ws = concat (map encode_operand (in_operands inst))"
proof -
  have "n \<notin> {190} \<union> {113..116} \<union> {147..151}" "\<not> (n \<in> {152..154} \<or> n = 206)" using assms by auto
  then show ?thesis using assms unfolding payload_def by (simp only: if_False) simp
qed

lemma decode_payload_handles:
  assumes "token AND 0x7ff \<noteq> 53"
  shows "handles uc limit (payload (unat (token AND 0x7ff))) (decode_payload uc token limit)"
proof -
  let ?w = "token AND 0x7ff" and ?P = "payload (unat (token AND 0x7ff))"
  have one: "?P inst (encode_operand op)" if "?w \<in> {89, 90, 95, 98, 101, 157, 161}" "in_operands inst = [op]" for inst op
  proof -
    have "unat ?w \<in> {89, 90, 95, 98, 101, 157, 161}" using that(1) by auto
    from payload_one_operand [OF this] that(2) show ?thesis by simp
  qed
  have ranges: "113 \<le> ?w \<and> ?w \<le> 116 \<longleftrightarrow> unat ?w \<in> {113..116}" "147 \<le> ?w \<and> ?w \<le> 151 \<longleftrightarrow> unat ?w \<in> {147..151}"
    "152 \<le> ?w \<and> ?w \<le> 154 \<longleftrightarrow> unat ?w \<in> {152..154}"
    by (simp_all add: word_le_nat_alt)
  show ?thesis
    unfolding decode_payload_def Let_def
    apply (intro handles_if)
    apply (simp add: thread_group_handles)
    apply (rule shared_memory_handles, auto)[1]
    apply (simp add: sync_handles)
    using assms apply simp
    apply (rule one_operand_handles, rule one, auto)[1]
    apply (rule one_operand_handles, rule one, auto)[1]
    apply (rule resource_handles, simp)
    apply (rule resource_handles, simp)
    apply (rule raw_handles, rule one, auto)[1]
    apply (rule raw_handles, rule one, auto)[1]
    apply (rule structured_handles, simp)
    apply (rule structured_handles, simp)
    apply (simp add: index_range_handles)
    apply (rule token_only_handles, simp only: ranges Un_iff)
    apply (rule scalar_handles, unfold ranges, auto simp: unat_is)[1]
    apply (simp add: temps_handles)
    apply (simp add: indexable_temp_handles)
    apply (simp add: text_handles)
    apply (simp add: text_handles)
    apply (simp add: text_handles)
    apply (simp add: text_handles)
    apply (rule one_operand_handles, rule one, auto)[1]
    apply (rule system_value_handles, auto)[1]
    apply (rule input_ps_handles, rule one, auto)[1]
    apply (rule generic_handles)
    apply (subst payload_generic)
    apply (unfold ranges)
    apply (simp add: unat_is)
    apply auto
    done
qed

section \<open>Controls and extensions\<close>

lemma apply_controls_meets:
  "meets (\<lambda>inst'. identity inst' = identity inst \<and> in_operands inst' = in_operands inst) (apply_controls token inst)"
  unfolding apply_controls_def Let_def
  by (intro meets_rules meets_bind [where R = "\<lambda>inst'. identity inst' = identity inst \<and> in_operands inst' = in_operands inst"]) auto

lemma apply_extension_meets:
  "meets (\<lambda>inst'. identity inst' = identity inst \<and> in_operands inst' = in_operands inst) (apply_opcode_extension ext inst)"
  unfolding apply_opcode_extension_def Let_def by (intro meets_rules) simp_all

text \<open>A chain of extension words: every word but the last announces another one.\<close>

fun extension_chain :: "u32 list \<Rightarrow> bool" where
  "extension_chain [] \<longleftrightarrow> False"
| "extension_chain [w] \<longleftrightarrow> w AND 0x80000000 = 0"
| "extension_chain (w # ws) \<longleftrightarrow> w AND 0x80000000 \<noteq> 0 \<and> extension_chain ws"

lemma extension_chain_Cons: "extension_chain (w # ws) \<longleftrightarrow> (if w AND 0x80000000 = 0 then ws = [] else extension_chain ws)"
  by (cases ws) auto

lemma read_extensions_meets:
  assumes "readable uc limit s" "limit - bs_position s < fuel"
  shows "meets (\<lambda>(inst', s'). identity inst' = identity inst \<and> in_operands inst' = in_operands inst \<and>
    (\<exists>ws. extension_chain ws \<and> consumed limit s ws s')) (read_opcode_extensions fuel uc limit (inst, s))"
  using assms
proof (induction fuel arbitrary: inst s)
  case (Suc fuel)
  show ?case
    unfolding read_opcode_extensions.simps prod.case
  proof (rule meets_bind [OF next_meets [OF Suc.prems(1)]], clarify)
    fix ext s1
    assume s1: "consumed limit s [ext] s1"
    note f = consumed_facts [OF s1]
    have r1: "readable uc limit s1" using s1 Suc.prems(1) by (rule consumed_readable)
    have fuel: "limit - bs_position s1 < fuel" using f Suc.prems(2) by simp
    show "meets (\<lambda>(inst', s'). identity inst' = identity inst \<and> in_operands inst' = in_operands inst \<and> (\<exists>ws. extension_chain ws \<and> consumed limit s ws s'))
      (obind (apply_opcode_extension ext inst) (\<lambda>inst. if ext AND 0x80000000 \<noteq> 0 then read_opcode_extensions fuel uc limit (inst, s1) else Done (inst, s1)))"
    proof (rule meets_bind [OF apply_extension_meets], rule meets_rules(4))
      fix i1
      assume i1: "identity i1 = identity inst \<and> in_operands i1 = in_operands inst"
      show "meets (\<lambda>(inst', s'). identity inst' = identity inst \<and> in_operands inst' = in_operands inst \<and> (\<exists>ws. extension_chain ws \<and> consumed limit s ws s'))
        (read_opcode_extensions fuel uc limit (i1, s1))" if "ext AND 0x80000000 \<noteq> 0"
      proof (rule meets_mono [OF Suc.IH [OF r1 fuel]], clarify)
        fix i2 s2 ws
        assume "identity i2 = identity i1" "in_operands i2 = in_operands i1" and ws: "extension_chain ws" "consumed limit s1 ws s2"
        moreover have "extension_chain (ext # ws)" "consumed limit s (ext # ws) s2"
          using that ws s1 by (simp_all add: extension_chain_Cons) (blast intro: consumed_Cons [THEN iffD2])
        ultimately show "identity i2 = identity inst \<and> in_operands i2 = in_operands inst \<and> (\<exists>ws. extension_chain ws \<and> consumed limit s ws s2)"
          using i1 by auto
      qed
      show "meets (\<lambda>(inst', s'). identity inst' = identity inst \<and> in_operands inst' = in_operands inst \<and> (\<exists>ws. extension_chain ws \<and> consumed limit s ws s'))
        (Done (i1, s1))" if "\<not> ext AND 0x80000000 \<noteq> 0"
        using i1 that s1 by (auto intro!: exI [of _ "[ext]"])
    qed
  qed
qed simp

section \<open>Storage\<close>

definition instrs :: "dxbc_container \<Rightarrow> instruction list" where
  "instrs c = (case dc_instructions c of None \<Rightarrow> [] | Some xs \<Rightarrow> xs)"

definition instruction_array_ok :: "dxbc_container \<Rightarrow> bool" where
  "instruction_array_ok c \<longleftrightarrow> 0 \<le> dc_instruction_count c \<and> dc_instruction_count c \<le> dc_instruction_alloc c \<and>
     dc_instruction_alloc c \<le> int INT_MAX \<and> (dc_instruction_alloc c = 0 \<longleftrightarrow> dc_instructions c = None)"

lemma reserve_instructions_Some:
  assumes "reserve_instructions uc c required = Some c'" "instruction_array_ok c" "required \<le> int INT_MAX"
  shows "c' = c\<lparr>dc_instructions := dc_instructions c', dc_instruction_alloc := dc_instruction_alloc c'\<rparr>" "instrs c' = instrs c"
    "required \<le> dc_instruction_alloc c'" "instruction_array_ok c'" "0 < required \<Longrightarrow> dc_instructions c' = Some (instrs c)"
proof -
  let ?a = "if dc_instruction_alloc c = 0 then 128 else dc_instruction_alloc c"
  have grow: "required \<le> grow_allocation required ?a" "dc_instruction_alloc c \<le> grow_allocation required ?a" "grow_allocation required ?a \<le> int INT_MAX" "0 < grow_allocation required ?a"
    if "dc_instruction_alloc c < required"
    using grow_allocation_enough [of ?a required] assms(2,3) that by (auto simp: instruction_array_ok_def)
  have "c' = c\<lparr>dc_instructions := dc_instructions c', dc_instruction_alloc := dc_instruction_alloc c'\<rparr> \<and> instrs c' = instrs c \<and>
    required \<le> dc_instruction_alloc c' \<and> instruction_array_ok c' \<and> (0 < required \<longrightarrow> dc_instructions c' = Some (instrs c))"
  proof (cases "required \<le> dc_instruction_alloc c")
    case True
    then have "c' = c" using assms(1,2) by (auto simp: reserve_instructions_def instruction_array_ok_def split: if_splits)
    with True assms(2) show ?thesis by (auto simp: instruction_array_ok_def instrs_def)
  next
    case False
    then have "c' = c\<lparr>dc_instructions := Some (instrs c), dc_instruction_alloc := grow_allocation required ?a\<rparr>"
      using assms(1) by (auto simp: reserve_instructions_def Let_def instrs_def split: if_splits)
    with False grow assms(2) show ?thesis by (auto simp: instruction_array_ok_def instrs_def)
  qed
  then show "c' = c\<lparr>dc_instructions := dc_instructions c', dc_instruction_alloc := dc_instruction_alloc c'\<rparr>" "instrs c' = instrs c"
    "required \<le> dc_instruction_alloc c'" "instruction_array_ok c'" "0 < required \<Longrightarrow> dc_instructions c' = Some (instrs c)" by blast+
qed

lemma store_at_end:
  "dc_instructions c = Some xs \<Longrightarrow> int (length xs) < dc_instruction_alloc c \<Longrightarrow>
   store_instruction (int (length xs)) inst c = Done (c\<lparr>dc_instructions := Some (xs @ [inst])\<rparr>)"
  by (simp add: store_instruction_def)

lemma store_over:
  "dc_instructions c = Some xs \<Longrightarrow> k < length xs \<Longrightarrow> int k < dc_instruction_alloc c \<Longrightarrow>
   store_instruction (int k) inst c = Done (c\<lparr>dc_instructions := Some (xs[k := inst])\<rparr>)"
  by (simp add: store_instruction_def)

section \<open>Immediate constant buffers\<close>

lemma meets_count:
  assumes "Q (0 :: nat) st" "\<And>i r. Q i r \<Longrightarrow> i < n \<Longrightarrow> meets (Q (Suc i)) (step i r)"
  shows "meets (Q n) (ofold step [0..<n] st)"
  using assms(2)
proof (induction n)
  case (Suc n)
  then show ?case unfolding upt_Suc_append [OF le0] ofold_snoc by (intro meets_bind [OF Suc.IH]) auto
qed (simp add: assms(1))

text \<open>
  After \<open>k\<close> values and \<open>r\<close> continuation rows: the values are the words read so far, and the rows stand
  behind the instructions \<open>xs\<close>.
\<close>

definition icb_state ::
  "nat \<Rightarrow> byte_stream \<Rightarrow> dxbc_container \<Rightarrow> instruction list \<Rightarrow> instruction \<Rightarrow> nat \<Rightarrow> nat \<Rightarrow> byte_stream \<times> dxbc_container \<Rightarrow> bool" where
  "icb_state limit s c xs row k r = (\<lambda>(s', c'). \<exists>ws. length ws = k \<and> consumed limit s ws s' \<and>
     c' = c\<lparr>dc_icb_values := Some ws, dc_icb_value_count := int k, dc_instructions := Some (xs @ replicate r row),
            dc_instruction_count := dc_instruction_count c + int r\<rparr>)"

lemma icb_value_meets:
  assumes "readable uc limit s" "icb_state limit s c xs row k r st" "int k < dc_icb_value_alloc c"
  shows "meets (icb_state limit s c xs row (Suc k) r) (read_icb_value uc limit component st)"
proof -
  obtain s1 c1 ws where st: "st = (s1, c1)" "length ws = k" "consumed limit s ws s1" and c1: "c1 = c\<lparr>dc_icb_values := Some ws, dc_icb_value_count := int k,
     dc_instructions := Some (xs @ replicate r row), dc_instruction_count := dc_instruction_count c + int r\<rparr>"
    using assms(2) by (cases st) (auto simp: icb_state_def)
  have r1: "readable uc limit s1" using st(3) assms(1) by (rule consumed_readable)
  show ?thesis
    unfolding read_icb_value_def st(1) prod.case
  proof (rule meets_bind [OF next_meets [OF r1]], clarify)
    fix v s2
    assume "consumed limit s1 [v] s2"
    with st(3) have "consumed limit s (ws @ [v]) s2" unfolding consumed_append by blast
    then show "meets (icb_state limit s c xs row (Suc k) r) (obind (push_icb_value v c1) (\<lambda>c. Done (s2, c)))"
      using st(2) assms(3) by (auto simp: push_icb_value_def c1 icb_state_def intro!: exI [of _ "ws @ [v]"])
  qed
qed

lemma icb_vector_meets:
  assumes "readable uc limit s" "icb_state limit s c xs (continuation_row inst) (4 * v) (v - 1) st" "int (4 * v + 4) \<le> dc_icb_value_alloc c"
    and "dc_instruction_count c + 1 = int (length xs)" "dc_instruction_count c + int (Suc v) \<le> dc_instruction_alloc c"
  shows "meets (icb_state limit s c xs (continuation_row inst) (4 * Suc v) v) (read_icb_vector uc limit inst v st)"
  unfolding read_icb_vector_def
proof (rule meets_bind)
  show "meets (icb_state limit s c xs (continuation_row inst) (4 * v + 4) (v - 1)) (ofold (read_icb_value uc limit) [0..<4] st)"
  proof (rule meets_count [where Q = "\<lambda>i. icb_state limit s c xs (continuation_row inst) (4 * v + i) (v - 1)"])
    fix i r
    assume "icb_state limit s c xs (continuation_row inst) (4 * v + i) (v - 1) r" "i < 4"
    then show "meets (icb_state limit s c xs (continuation_row inst) (4 * v + Suc i) (v - 1)) (read_icb_value uc limit i r)"
      using icb_value_meets [OF assms(1), of c xs "continuation_row inst" "4 * v + i"] assms(3) by simp
  qed (use assms(2) in simp)
  fix x
  assume "icb_state limit s c xs (continuation_row inst) (4 * v + 4) (v - 1) x"
  then obtain s1 c1 ws where x: "x = (s1, c1)" and ws: "length ws = 4 * v + 4" "consumed limit s ws s1"
    and c1: "c1 = c\<lparr>dc_icb_values := Some ws, dc_icb_value_count := int (4 * v + 4),
     dc_instructions := Some (xs @ replicate (v - 1) (continuation_row inst)), dc_instruction_count := dc_instruction_count c + int (v - 1)\<rparr>"
    by (cases x) (auto simp: icb_state_def)
  show "meets (icb_state limit s c xs (continuation_row inst) (4 * Suc v) v) (case x of (stream, c) \<Rightarrow>
     if v = 0 then Done (stream, c)
     else obind (store_instruction (dc_instruction_count c + 1) (continuation_row inst) (c\<lparr>dc_instruction_count := dc_instruction_count c + 1\<rparr>)) (\<lambda>c.
       Done (stream, c)))"
  proof (cases "v = 0")
    case True
    with ws show ?thesis by (auto simp: x c1 icb_state_def)
  next
    case False
    let ?c = "c1\<lparr>dc_instruction_count := dc_instruction_count c1 + 1\<rparr>" and ?ys = "xs @ replicate (v - 1) (continuation_row inst)"
    have "store_instruction (int (length ?ys)) (continuation_row inst) ?c = Done (?c\<lparr>dc_instructions := Some (?ys @ [continuation_row inst])\<rparr>)"
      using assms(4,5) False by (intro store_at_end) (auto simp: c1)
    moreover have n: "dc_instruction_count c1 + 1 = int (length ?ys)" using assms(4) by (simp add: c1)
    moreover have row: "?ys @ [continuation_row inst] = xs @ replicate v (continuation_row inst)"
      using False by (cases v) (simp_all add: replicate_append_same)
    ultimately have st: "store_instruction (dc_instruction_count c1 + 1) (continuation_row inst) ?c =
      Done (?c\<lparr>dc_instructions := Some (xs @ replicate v (continuation_row inst))\<rparr>)" by (simp only:)
    have "dc_instruction_count c1 + 1 = dc_instruction_count c + int v" using False by (simp add: c1 of_nat_diff)
    then have "?c\<lparr>dc_instructions := Some (xs @ replicate v (continuation_row inst))\<rparr> = c\<lparr>dc_icb_values := Some ws, dc_icb_value_count := int (4 * v + 4),
      dc_instructions := Some (xs @ replicate v (continuation_row inst)), dc_instruction_count := dc_instruction_count c + int v\<rparr>"
      unfolding c1 by simp
    then show ?thesis
      unfolding x prod.case if_not_P [OF False] st obind.simps meets_Done icb_state_def using ws by (intro exI [of _ ws]) simp
  qed
qed

text \<open>The result of a declared buffer of \<open>n\<close> vectors.\<close>

definition icb_done :: "nat \<Rightarrow> byte_stream \<Rightarrow> dxbc_container \<Rightarrow> instruction list \<Rightarrow> instruction \<Rightarrow> decode_state \<Rightarrow> bool" where
  "icb_done limit s c xs inst = (\<lambda>(inst', s', c'). inst' = inst\<lparr>in_is_decl := True\<rparr> \<and> dc_icb_values c = None \<and> instruction_array_ok (c'\<lparr>dc_instruction_count := dc_instruction_count c' + 1\<rparr>) \<and>
     (\<exists>n ws a. 0 < n \<and> length ws = 4 * n \<and> bs_position s + 16 * n = limit \<and> consumed limit s ws s' \<and>
        c' = c\<lparr>dc_icb_values := Some ws, dc_icb_value_count := int (4 * n), dc_icb_value_alloc := int (4 * n),
               dc_instructions := Some (xs @ replicate (n - 1) (continuation_row inst)), dc_instruction_count := dc_instruction_count c + int (n - 1),
               dc_instruction_alloc := a\<rparr>))"

lemma icb_meets:
  assumes s: "readable uc limit s" "bs_position s \<le> limit" and c: "instruction_array_ok c" "dc_instructions c = Some xs" "int (length xs) = dc_instruction_count c + 1"
  shows "meets (icb_done limit s c xs inst) (dcl_immediate_constant_buffer uc token limit (inst, s, c))"
  unfolding dcl_immediate_constant_buffer_def Let_def prod.case
proof (intro meets_rules(3-), goal_cases)
  case (1 c1 c2)
  define n where "n = (limit - bs_position s) div 16"
  have n: "limit - bs_position s = 16 * n" "0 < n" "(limit - bs_position s) div 4 = 4 * n" using 1(1) by (auto simp: n_def)
  have vn: "int ((limit - bs_position s) div 4) div 4 = int n" unfolding n(3) by simp
  have c1: "c1 = c\<lparr>dc_icb_values := Some [], dc_icb_value_alloc := int (4 * n)\<rparr>" "dc_icb_values c = None" "dc_icb_value_count c = 0"
    using 1(2) n by (auto simp: allocate_immediate_constants_def split: if_splits)
  have ok1: "instruction_array_ok c1" using c(1) by (simp add: c1 instruction_array_ok_def)
  have req: "dc_instruction_count c1 + int n \<le> int INT_MAX" using 1(3) unfolding vn by simp
  note r = reserve_instructions_Some [OF 1(4) [unfolded vn] ok1 req]
  have xs2: "dc_instructions c2 = Some xs" using r(5) ok1 n(2) c(2) by (simp add: instruction_array_ok_def instrs_def c1)
  obtain a where c2: "c2 = c\<lparr>dc_icb_values := Some [], dc_icb_value_alloc := int (4 * n), dc_instructions := Some xs, dc_instruction_alloc := a\<rparr>"
    using r(1) [unfolded xs2] unfolding c1(1) by blast
  let ?c = "c2\<lparr>dc_icb_value_count := 0\<rparr>" and ?inst = "inst\<lparr>in_is_decl := True\<rparr>"
  let ?Q = "\<lambda>v. icb_state limit s ?c xs (continuation_row ?inst) (4 * v) (v - 1)"
  have room: "dc_icb_value_alloc ?c = int (4 * n)" "dc_instruction_count ?c = dc_instruction_count c" "dc_instruction_alloc ?c = a" by (simp_all add: c2)
  have a: "dc_instruction_count c + int n \<le> a" using r(3) by (simp add: c1 c2)
  have loop: "meets (?Q n) (ofold (read_icb_vector uc limit ?inst) [0..<n] (s, ?c))"
  proof (rule meets_count)
    show "?Q 0 (s, ?c)" using s(2) by (simp add: icb_state_def c2)
    fix v st
    assume "?Q v st" "v < n"
    then show "meets (?Q (Suc v)) (read_icb_vector uc limit ?inst v st)"
      using icb_vector_meets [OF s(1), of ?c xs ?inst v st] room a c(3) by simp
  qed
  show ?case
    unfolding vn nat_int
  proof (rule meets_bind [OF loop])
    fix x
    assume "?Q n x"
    then obtain s' ws where x: "x = (s', ?c\<lparr>dc_icb_values := Some ws, dc_icb_value_count := int (4 * n),
        dc_instructions := Some (xs @ replicate (n - 1) (continuation_row ?inst)), dc_instruction_count := dc_instruction_count ?c + int (n - 1)\<rparr>)"
      and ws: "length ws = 4 * n" "consumed limit s ws s'"
      unfolding icb_state_def by (cases x) blast
    have row: "continuation_row ?inst = continuation_row inst" by (simp add: continuation_row_def)
    have "instruction_array_ok (c\<lparr>dc_icb_values := Some ws, dc_icb_value_count := int (4 * n), dc_icb_value_alloc := int (4 * n),
        dc_instructions := Some (xs @ replicate (n - 1) (continuation_row inst)), dc_instruction_count := dc_instruction_count c + int (n - 1) + 1, dc_instruction_alloc := a\<rparr>)"
      using r(4) a n(2) by (simp add: instruction_array_ok_def c2 of_nat_diff)
    with ws n s(2) c1(2) show "meets (icb_done limit s c xs inst) (case x of (stream, c) \<Rightarrow> Done (?inst, stream, c))"
      unfolding x prod.case meets_Done row icb_done_def
      by (intro conjI exI [of _ n] exI [of _ ws] exI [of _ a]) (simp_all add: c2 instruction_array_ok_def)
  qed
qed

section \<open>One instruction\<close>

text \<open>The number of bytes of the instruction at an offset, from its token and, for custom data, its length word.\<close>

definition extent_at :: "bytes \<Rightarrow> nat \<Rightarrow> u32 \<Rightarrow> nat \<Rightarrow> bool" where
  "extent_at data p token n \<longleftrightarrow> rd32 data p = Some token \<and>
     (if token AND 0x7ff = 53 then \<exists>len. rd32 data (p + 4) = Some len \<and> n = unat len * 4 \<and> 8 \<le> n
      else n = unat (dxbc_tokenized_instruction_length token) * 4 \<and> 4 \<le> n)"

lemma consumed_rd32: "consumed limit s [v] s' \<Longrightarrow> limit \<le> length (bs_data s) \<Longrightarrow> rd32 (bs_data s) (bs_position s) = Some v"
  by (simp add: consumed_def rd32_bslice4)

lemma word_times_four:
  fixes w :: u32
  assumes "unat w \<le> n div 4" "n \<le> UINT32_MAX"
  shows "unat (w * 4) = unat w * 4"
proof -
  have "unat w * unat (4 :: u32) < 2 ^ LENGTH(32)" using assms by simp
  then show ?thesis by (simp add: unat_mult_lem [THEN iffD1])
qed

lemma extent_meets:
  assumes s: "readable uc e s" and size: "length (bs_data s) \<le> UINT32_MAX"
  shows "meets (\<lambda>(token, q, s'). \<exists>ws. consumed e s (token # ws) s' \<and> extent_at (bs_data s) (bs_position s) token (q - bs_position s) \<and>
     bs_position s' \<le> q \<and> q \<le> e \<and> bs_position s < q \<and> (ws = [] \<longleftrightarrow> token AND 0x7ff \<noteq> 53) \<and> length ws \<le> 1) (read_instruction_extent uc e s)"
  unfolding read_instruction_extent_def Let_def
proof (rule meets_bind [OF next_meets [OF s]], clarify)
  fix token s1
  assume s1: "consumed e s [token] s1"
  have r1: "readable uc e s1" using s1 s by (rule consumed_readable)
  have e: "e \<le> length (bs_data s)" "e - bs_position s \<le> UINT32_MAX" using s size by (auto simp: readable_def)
  let ?len = "\<lambda>(len, s2). if token AND 0x7ff = 53 then consumed e s1 [len] s2 else len = dxbc_tokenized_instruction_length token \<and> s2 = s1"
  show "meets (\<lambda>(token, q, s'). \<exists>ws. consumed e s (token # ws) s' \<and> extent_at (bs_data s) (bs_position s) token (q - bs_position s) \<and>
     bs_position s' \<le> q \<and> q \<le> e \<and> bs_position s < q \<and> (ws = [] \<longleftrightarrow> token AND 0x7ff \<noteq> 53) \<and> length ws \<le> 1)
    (obind (if token AND 0x7ff = 53 then instruction_next uc e s1
            else if dxbc_tokenized_instruction_length token = 0 then Fail () else Done (dxbc_tokenized_instruction_length token, s1))
      (\<lambda>(inst_len, stream). if inst_len = 0 \<or> unat inst_len > (e - bs_position s) div 4 then Fail ()
        else if bs_position s + unat (inst_len * 4) < bs_position stream then Fail ()
        else Done (token, bs_position s + unat (inst_len * 4), stream)))"
  proof (rule meets_bind [where R = ?len])
    show "meets ?len (if token AND 0x7ff = 53 then instruction_next uc e s1
        else if dxbc_tokenized_instruction_length token = 0 then Fail () else Done (dxbc_tokenized_instruction_length token, s1))"
      using next_meets [OF r1] by (simp add: meets_def)
    fix x
    assume x: "?len x"
    obtain len s2 where x': "x = (len, s2)" by (cases x)
    define ws where "ws = (if token AND 0x7ff = 53 then [len] else [])"
    have s2: "consumed e s (token # ws) s2" using x s1 consumed_Cons [of e s token "[len]" s2] by (cases "token AND 0x7ff = 53") (auto simp: x' ws_def)
    note f = consumed_facts [OF s2] consumed_facts [OF s1]
    show "meets (\<lambda>(token, q, s'). \<exists>ws. consumed e s (token # ws) s' \<and> extent_at (bs_data s) (bs_position s) token (q - bs_position s) \<and>
       bs_position s' \<le> q \<and> q \<le> e \<and> bs_position s < q \<and> (ws = [] \<longleftrightarrow> token AND 0x7ff \<noteq> 53) \<and> length ws \<le> 1)
      (case x of (inst_len, stream) \<Rightarrow> if inst_len = 0 \<or> unat inst_len > (e - bs_position s) div 4 then Fail ()
        else if bs_position s + unat (inst_len * 4) < bs_position stream then Fail ()
        else Done (token, bs_position s + unat (inst_len * 4), stream))"
      unfolding x' prod.case
    proof (intro meets_rules(2-4), goal_cases)
      case 1
      then have n: "unat (len * 4) = unat len * 4" using word_times_four [of len "e - bs_position s"] e by simp
      have "unat len * 4 \<le> e - bs_position s" "0 < unat len" using 1 by (auto simp: unat_gt_0)
      moreover have "rd32 (bs_data s) (bs_position s) = Some token" using consumed_rd32 [OF s1 e(1)] .
      moreover have "rd32 (bs_data s) (bs_position s + 4) = Some len" if "token AND 0x7ff = 53"
        using consumed_rd32 [of e s1 len s2] x that e(1) f by (simp add: x')
      ultimately have "extent_at (bs_data s) (bs_position s) token (bs_position s + unat (len * 4) - bs_position s)"
        using 1 x f by (auto simp: extent_at_def n x' ws_def)
      then show ?case using s2 1 f \<open>unat len * 4 \<le> e - bs_position s\<close> \<open>0 < unat len\<close>
        unfolding meets_Done prod.case n by (intro exI [of _ ws]) (auto simp: ws_def)
    qed
  qed
qed

lemma controls_customdata:
  assumes "apply_controls token inst = Done inst'" "in_opcode inst = 53"
  shows "token AND 0x80000000 = 0"
proof -
  have "drop_bit 11 token AND 0x001fffff = 3"
    using assms by (auto simp: apply_controls_def Let_def reject_instruction_def split: if_splits)
  then have "bit (drop_bit 11 token AND 0x001fffff) 20 \<longleftrightarrow> bit (3 :: u32) 20" by simp
  moreover have "(0x001fffff :: u32) = mask 21" by (simp add: mask_eq_exp_minus_1)
  ultimately have b31: "\<not> bit token 31" by (simp add: bit_simps)
  have bitn: "bit (0x80000000 :: u32) n \<longleftrightarrow> n = 31" for n
  proof -
    have "(0x80000000 :: u32) = 2 ^ 31" by simp
    then show ?thesis by (simp only: bit_exp_iff) auto
  qed
  show ?thesis
  proof (rule bit_word_eqI)
    fix n
    have "bit (token AND 0x80000000) n \<longleftrightarrow> bit token n \<and> n = 31" by (simp only: bit_and_iff bitn)
    with b31 show "bit (token AND 0x80000000) n = bit (0 :: u32) n" by auto
  qed
qed

text \<open>What the program has stored, and what it leaves alone.\<close>

definition icb_words :: "dxbc_container \<Rightarrow> u32 list" where
  "icb_words c = (case dc_icb_values c of None \<Rightarrow> [] | Some ws \<Rightarrow> ws)"

definition program_ok :: "dxbc_container \<Rightarrow> bool" where
  "program_ok c \<longleftrightarrow> instruction_array_ok c \<and> length (instrs c) = nat (dc_instruction_count c) \<and> tables_ok c \<and>
     dc_icb_value_count c = int (length (icb_words c)) \<and> dc_icb_value_alloc c = int (length (icb_words c)) \<and>
     (\<forall>inst\<in>set (instrs c). length (in_operands inst) \<le> DXBC_MAX_OPERANDS)"

definition container_frame :: "dxbc_container \<Rightarrow> dxbc_container" where
  "container_frame c = c\<lparr>dc_resources := empty_table, dc_uavs := empty_table, dc_instructions := None, dc_instruction_count := 0,
     dc_instruction_alloc := 0, dc_icb_values := None, dc_icb_value_count := 0, dc_icb_value_alloc := 0\<rparr>"

text \<open>
  The instruction decoded from the bytes \<open>p\<close> to \<open>q\<close>; an allocator that never refuses lets the words be
  recovered from it, custom data apart.
\<close>

definition instruction_at :: "unity_common \<Rightarrow> bytes \<Rightarrow> nat \<Rightarrow> nat \<Rightarrow> u32 \<Rightarrow> instruction \<Rightarrow> bool" where
  "instruction_at uc data p q r inst \<longleftrightarrow> p < q \<and> extent_at data p (in_token inst) (q - p) \<and> in_opcode inst = in_token inst AND 0x7ff \<and>
     in_file_offset inst = of_nat p \<and> in_byte_length inst = of_nat (q - p) \<and> in_raw_instruction_index inst = r \<and>
     in_has_raw_instruction_index inst \<and> \<not> in_is_customdata_continuation inst \<and>
     (memory_available uc \<and> in_opcode inst \<noteq> 53 \<longrightarrow> (\<exists>exts ws. bslice data p (q - p) = concat (map bytes32 (in_token inst # exts @ ws)) \<and>
        (if in_token inst AND 0x80000000 \<noteq> 0 then extension_chain exts else exts = []) \<and> payload (unat (in_opcode inst)) inst ws))"

text \<open>Custom data becomes the immediate constants and one row per further vector.\<close>

definition icb_at :: "bytes \<Rightarrow> nat \<Rightarrow> nat \<Rightarrow> instruction \<Rightarrow> u32 list \<Rightarrow> instruction list \<Rightarrow> bool" where
  "icb_at data p q inst icb rows \<longleftrightarrow>
     (if in_opcode inst = 53 then \<exists>n. 0 < n \<and> q = p + 8 + 16 * n \<and> length icb = 4 * n \<and>
        bslice data (p + 8) (16 * n) = concat (map bytes32 icb) \<and> rows = replicate (n - 1) (continuation_row inst)
      else icb = [] \<and> rows = [])"

lemma instruction_at_extents:
  "instruction_at uc data p q r inst \<Longrightarrow> rd32 data p = Some (in_token inst)"
  by (simp add: instruction_at_def extent_at_def)

text \<open>The start of an instruction: its slot is reserved and cleared.\<close>

lemma slot_reserved:
  assumes "reserve_instructions uc c (dc_instruction_count c + 1) = Some c1" "program_ok c" "dc_instruction_count c \<noteq> int INT_MAX"
  obtains a c2 where "store_instruction (dc_instruction_count c1) zero_instruction c1 = Done c2"
    "c2 = c\<lparr>dc_instructions := Some (instrs c @ [zero_instruction]), dc_instruction_alloc := a\<rparr>" "dc_instruction_count c < a" "a \<le> int INT_MAX"
    "dc_instruction_count c1 = dc_instruction_count c"
proof -
  have ok: "instruction_array_ok c" "dc_instruction_count c + 1 \<le> int INT_MAX" using assms(2,3) by (auto simp: program_ok_def instruction_array_ok_def)
  note r = reserve_instructions_Some [OF assms(1) ok]
  have xs: "dc_instructions c1 = Some (instrs c)" using r(5) ok(1) by (simp add: instruction_array_ok_def)
  obtain a where c1: "c1 = c\<lparr>dc_instructions := Some (instrs c), dc_instruction_alloc := a\<rparr>" using r(1) [unfolded xs] by blast
  have len: "dc_instruction_count c = int (length (instrs c))" using assms(2) by (auto simp: program_ok_def instruction_array_ok_def)
  show ?thesis
  proof (rule that)
    show "store_instruction (dc_instruction_count c1) zero_instruction c1 = Done (c\<lparr>dc_instructions := Some (instrs c @ [zero_instruction]), dc_instruction_alloc := a\<rparr>)"
      using store_at_end [of c1 "instrs c" zero_instruction] r(3) xs len by (simp add: c1)
  qed (use r(3,4) in \<open>auto simp: c1 instruction_array_ok_def\<close>)
qed

definition stepped :: "unity_common \<Rightarrow> nat \<Rightarrow> u32 \<Rightarrow> byte_stream \<Rightarrow> dxbc_container \<Rightarrow> byte_stream \<times> dxbc_container \<Rightarrow> bool" where
  "stepped uc e r s c = (\<lambda>(s', c'). \<exists>q inst rows icb. s' = s\<lparr>bs_position := q\<rparr> \<and> q \<le> e \<and> instruction_at uc (bs_data s) (bs_position s) q r inst \<and>
     icb_at (bs_data s) (bs_position s) q inst icb rows \<and> instrs c' = instrs c @ inst # rows \<and> icb_words c' = icb_words c @ icb \<and>
     program_ok c' \<and> container_frame c' = container_frame c)"

text \<open>The fields that identify a fresh instruction survive its decoding.\<close>

lemma begin_identity:
  assumes "identity inst = identity (begin_instruction token p q r)"
  shows "in_token inst = token" "in_opcode inst = token AND 0x7ff" "in_file_offset inst = of_nat p" "in_byte_length inst = of_nat (q - p)"
    "in_raw_instruction_index inst = r" "in_has_raw_instruction_index inst" "\<not> in_is_customdata_continuation inst"
  using assms by (auto simp: identity_def begin_instruction_def Let_def zero_instruction_def)

lemma consumed_limit: "consumed e s ws s' \<Longrightarrow> bs_position s' \<le> q \<Longrightarrow> consumed q s ws s'"
  by (simp add: consumed_def)

definition commit :: "nat \<Rightarrow> int \<Rightarrow> decode_state \<Rightarrow> (unit, byte_stream \<times> dxbc_container) outcome" where
  "commit q k = (\<lambda>(inst, stream, c). if bs_position stream \<noteq> q then reject_instruction
     else obind (store_instruction k inst c) (\<lambda>c. Done (stream\<lparr>bs_position := q\<rparr>, c\<lparr>dc_instruction_count := dc_instruction_count c + 1\<rparr>)))"

lemma body_payload_stage:
  assumes ok: "program_ok c" "dc_instruction_count c < a" "a \<le> int INT_MAX"
    and c2: "c2 = c\<lparr>dc_instructions := Some (instrs c @ [zero_instruction]), dc_instruction_alloc := a\<rparr>"
    and s: "readable uc q s2" "q \<le> e" "extent_at (bs_data s) (bs_position s) token (q - bs_position s)" "bs_position s < q"
    and exts: "consumed q s (token # exts) s2" "if token AND 0x80000000 \<noteq> 0 then extension_chain exts else exts = []"
    and inst: "identity inst = identity (begin_instruction token (bs_position s) q r)" "in_operands inst = []" "token AND 0x7ff \<noteq> 53"
  shows "meets (stepped uc e r s c) (obind (decode_payload uc token q (inst, s2, c2)) (commit q (dc_instruction_count c)))"
proof -
  let ?P = "payload (unat (token AND 0x7ff))" and ?k = "length (instrs c)"
  have t2: "tables_ok c2" using ok(1) by (simp add: c2 program_ok_def tables_ok_def)
  have k: "dc_instruction_count c = int ?k" using ok(1) by (auto simp: program_ok_def instruction_array_ok_def)
  have h: "meets (\<lambda>(inst', s', c'). identity inst' = identity inst \<and> tables_grow c2 c' \<and> length (in_operands inst') \<le> DXBC_MAX_OPERANDS \<and>
       (\<exists>ws. traced uc q s2 ws s' \<and> ?P inst' ws)) (decode_payload uc token q (inst, s2, c2))"
    using decode_payload_handles [OF inst(3), of uc q] s(1) consumed_facts(2) [OF exts(1)] inst(2) t2 unfolding handles_def by blast
  show ?thesis
  proof (rule meets_bind [OF h], clarify)
    fix i3 s3 c3 ws
    assume i3: "identity i3 = identity inst" "length (in_operands i3) \<le> DXBC_MAX_OPERANDS" and grow: "tables_grow c2 c3"
      and ws: "traced uc q s2 ws s3" "?P i3 ws"
    note id3 = begin_identity [OF i3(1) [unfolded inst(1)]]
    obtain res uav where c3: "c3 = c2\<lparr>dc_resources := res, dc_uavs := uav\<rparr>" "table_ok res" "table_ok uav"
      using grow unfolding tables_grow_def tables_ok_def by metis
    let ?c4 = "c\<lparr>dc_resources := res, dc_uavs := uav, dc_instructions := Some (instrs c @ [i3]), dc_instruction_alloc := a\<rparr>"
    have st: "store_instruction (dc_instruction_count c) i3 c3 = Done ?c4"
      unfolding k using ok(2) k by (subst store_over [of _ "instrs c @ [zero_instruction]"]) (auto simp: c3 c2)
    have at: "instruction_at uc (bs_data s) (bs_position s) q r i3" if q: "bs_position s3 = q"
      unfolding instruction_at_def id3
    proof (intro conjI impI s id3 refl)
      assume mem: "memory_available uc \<and> token AND 0x7ff \<noteq> 53"
      then have "consumed q s ((token # exts) @ ws) s3" using exts(1) ws(1) unfolding traced_def consumed_append by blast
      then have "bslice (bs_data s) (bs_position s) (q - bs_position s) = concat (map bytes32 (token # exts @ ws))"
        using q by (auto simp: consumed_def)
      then show "\<exists>exts ws. bslice (bs_data s) (bs_position s) (q - bs_position s) = concat (map bytes32 (token # exts @ ws)) \<and>
        (if token AND 0x80000000 \<noteq> 0 then extension_chain exts else exts = []) \<and> ?P i3 ws" using exts(2) ws(2) by blast
    qed
    have pok: "program_ok (?c4\<lparr>dc_instruction_count := dc_instruction_count c + 1\<rparr>)"
      using ok c3(2,3) i3(2) k by (auto simp: program_ok_def instruction_array_ok_def instrs_def tables_ok_def icb_words_def)
    have s3: "s3\<lparr>bs_position := q\<rparr> = s\<lparr>bs_position := q\<rparr>"
      using moved_facts(6) [OF traced_moved [OF ws(1)]] moved_facts(6) [OF consumed_moved [OF exts(1)]] by metis
    show "meets (stepped uc e r s c) (commit q (dc_instruction_count c) (i3, s3, c3))"
      unfolding commit_def prod.case st obind.simps
    proof (intro meets_rules(1,3,4))
      assume "\<not> bs_position s3 \<noteq> q"
      then show "stepped uc e r s c (s3\<lparr>bs_position := q\<rparr>, ?c4\<lparr>dc_instruction_count := dc_instruction_count ?c4 + 1\<rparr>)"
        unfolding stepped_def prod.case s3 using at pok s(2) inst(3)
        by (intro exI [of _ q] exI [of _ i3] exI [of _ "[]"] exI [where x = "[] :: u32 list"])
          (auto simp: icb_at_def id3 instrs_def icb_words_def container_frame_def)
    qed
  qed
qed

lemma customdata_payload: "token AND 0x7ff = 53 \<Longrightarrow> decode_payload uc token q st = dcl_immediate_constant_buffer uc token q st"
  by (simp add: decode_payload_def Let_def)

lemma icb_stage:
  assumes ok: "program_ok c" "dc_instruction_count c < a" "a \<le> int INT_MAX"
    and c2: "c2 = c\<lparr>dc_instructions := Some (instrs c @ [zero_instruction]), dc_instruction_alloc := a\<rparr>"
    and s: "readable uc q s2" "q \<le> e" "extent_at (bs_data s) (bs_position s) token (q - bs_position s)" "bs_position s < q"
    and words: "consumed q s [token, len] s2"
    and inst: "identity inst = identity (begin_instruction token (bs_position s) q r)" "in_operands inst = []" "token AND 0x7ff = 53"
  shows "meets (stepped uc e r s c) (obind (decode_payload uc token q (inst, s2, c2)) (commit q (dc_instruction_count c)))"
proof -
  let ?k = "length (instrs c)" and ?xs = "instrs c @ [zero_instruction]"
  have k: "dc_instruction_count c = int ?k" using ok(1) by (auto simp: program_ok_def instruction_array_ok_def)
  have arr: "instruction_array_ok c2" "dc_instructions c2 = Some ?xs" "int (length ?xs) = dc_instruction_count c2 + 1"
    using ok k by (auto simp: c2 program_ok_def instruction_array_ok_def)
  note w = consumed_facts [OF words]
  show ?thesis
    unfolding customdata_payload [OF inst(3)]
  proof (rule meets_bind [OF icb_meets [OF s(1) w(2) arr]])
    fix x
    assume result: "icb_done q s2 c2 ?xs inst x"
    let ?i = "inst\<lparr>in_is_decl := True\<rparr>" and ?rows = "\<lambda>n. replicate (n - 1) (continuation_row inst)"
    let ?c3 = "\<lambda>n ws a'. c2\<lparr>dc_icb_values := Some ws, dc_icb_value_count := int (4 * n), dc_icb_value_alloc := int (4 * n),
      dc_instructions := Some (?xs @ ?rows n), dc_instruction_count := dc_instruction_count c2 + int (n - 1), dc_instruction_alloc := a'\<rparr>"
    obtain s3 n ws a' where x: "x = (?i, s3, ?c3 n ws a')" and n: "0 < n" "length ws = 4 * n" "bs_position s2 + 16 * n = q"
      and ws: "consumed q s2 ws s3" and fresh: "dc_icb_values c2 = None" and arr3: "instruction_array_ok (?c3 n ws a'\<lparr>dc_instruction_count := dc_instruction_count (?c3 n ws a') + 1\<rparr>)"
      using result unfolding icb_done_def by (cases x) blast
    let ?c3 = "?c3 n ws a'" and ?rows = "?rows n"
    have id: "identity ?i = identity (begin_instruction token (bs_position s) q r)" using inst(1) by simp
    note id3 = begin_identity [OF id]
    have row: "continuation_row inst = continuation_row ?i" by (simp add: continuation_row_def)
    let ?c4 = "?c3\<lparr>dc_instructions := Some (instrs c @ ?i # ?rows)\<rparr>"
    have "int ?k < dc_instruction_alloc ?c3" using arr3 n(1) k by (simp add: instruction_array_ok_def c2 of_nat_diff)
    then have st: "store_instruction (dc_instruction_count c) ?i ?c3 = Done ?c4"
      unfolding k by (subst store_over [of _ "?xs @ ?rows"]) (auto simp: list_update_append)
    have at: "instruction_at uc (bs_data s) (bs_position s) q r ?i" unfolding instruction_at_def id3 using s inst(3) id3 by auto
    have icb: "icb_at (bs_data s) (bs_position s) q ?i ws ?rows"
      using n ws w inst(3) unfolding icb_at_def id3 row by (auto simp: consumed_def)
    have pok: "program_ok (?c4\<lparr>dc_instruction_count := dc_instruction_count ?c4 + 1\<rparr>)"
      using ok(1) arr3 n k inst(2)
      by (auto simp: program_ok_def instruction_array_ok_def instrs_def tables_ok_def icb_words_def c2 of_nat_diff continuation_row_def zero_instruction_def)
    have s3: "s3\<lparr>bs_position := q\<rparr> = s\<lparr>bs_position := q\<rparr>" using ws words by (auto simp: consumed_def)
    have old: "icb_words c = []" using fresh by (simp add: icb_words_def c2)
    show "meets (stepped uc e r s c) (commit q (dc_instruction_count c) x)"
      unfolding x commit_def prod.case st obind.simps
    proof (intro meets_rules(1,3,4))
      show "stepped uc e r s c (s3\<lparr>bs_position := q\<rparr>, ?c4\<lparr>dc_instruction_count := dc_instruction_count ?c4 + 1\<rparr>)"
        unfolding stepped_def prod.case s3 using at pok s(2) icb
        by (intro exI [of _ q] exI [of _ ?i] exI [of _ ?rows] exI [of _ ws])
          (auto simp: instrs_def icb_words_def container_frame_def old [unfolded icb_words_def] c2)
    qed
  qed
qed

text \<open>From the controls to the stored instruction.\<close>

lemma instruction_body_meets:
  assumes ok: "program_ok c" "dc_instruction_count c < a" "a \<le> int INT_MAX"
    and c2: "c2 = c\<lparr>dc_instructions := Some (instrs c @ [zero_instruction]), dc_instruction_alloc := a\<rparr>"
    and s: "readable uc q s1" "q \<le> e" "extent_at (bs_data s) (bs_position s) token (q - bs_position s)" "bs_position s < q"
    and words: "consumed q s (token # ws) s1" "ws = [] \<longleftrightarrow> token AND 0x7ff \<noteq> 53" "length ws \<le> 1"
  shows "meets (stepped uc e r s c) (obind (apply_controls token (begin_instruction token (bs_position s) q r)) (\<lambda>inst.
    obind (if token AND 0x80000000 \<noteq> 0 then read_opcode_extensions (Suc (q - bs_position s1)) uc q (inst, s1) else Done (inst, s1)) (\<lambda>(inst, stream).
    obind (decode_payload uc token q (inst, stream, c2)) (commit q (dc_instruction_count c)))))"
proof -
  let ?start = "begin_instruction token (bs_position s) q r"
  have ops: "in_operands ?start = []" "in_opcode ?start = token AND 0x7ff" by (simp_all add: begin_instruction_def zero_instruction_def Let_def)
  have controls: "meets (\<lambda>i. identity i = identity ?start \<and> in_operands i = [] \<and> (token AND 0x7ff = 53 \<longrightarrow> token AND 0x80000000 = 0)) (apply_controls token ?start)"
    using apply_controls_meets [of ?start token] controls_customdata [of token ?start] ops by (auto simp: meets_def)
  show ?thesis
  proof (rule meets_bind [OF controls], elim conjE)
    fix i
    assume i: "identity i = identity ?start" "in_operands i = []" and custom: "token AND 0x7ff = 53 \<longrightarrow> token AND 0x80000000 = 0"
    show "meets (stepped uc e r s c) (obind (if token AND 0x80000000 \<noteq> 0 then read_opcode_extensions (Suc (q - bs_position s1)) uc q (i, s1) else Done (i, s1))
       (\<lambda>(inst, stream). obind (decode_payload uc token q (inst, stream, c2)) (commit q (dc_instruction_count c))))"
    proof (cases "token AND 0x80000000 \<noteq> 0")
      case True
      then have plain: "token AND 0x7ff \<noteq> 53" "ws = []" using custom words(2) by auto
      show ?thesis
        unfolding if_P [OF True]
      proof (rule meets_bind [OF read_extensions_meets [OF s(1)]], simp, clarify)
        fix i2 s2 exts
        assume i2: "identity i2 = identity i" "in_operands i2 = in_operands i" and exts: "extension_chain exts" "consumed q s1 exts s2"
        have "consumed q s (token # exts) s2" using words(1) exts(2) plain(2) consumed_Cons [of q s token exts s2] by blast
        then show "meets (stepped uc e r s c) (obind (decode_payload uc token q (i2, s2, c2)) (commit q (dc_instruction_count c)))"
          using i i2 exts True plain(1) consumed_readable [OF exts(2) s(1)] by (intro body_payload_stage [OF ok c2 _ s(2-)]) auto
      qed
    next
      case False
      show ?thesis
      proof (cases "token AND 0x7ff = 53")
        case True
        then obtain len where "ws = [len]" using words(2,3) by (cases ws) auto
        with False True show ?thesis using icb_stage [OF ok c2 s, of len i r] words(1) i by simp
      next
        case plain: False
        with False show ?thesis using body_payload_stage [OF ok c2 s, of "[]" i r] words(1,2) i by simp
      qed
    qed
  qed
qed

lemma decode_instruction_meets:
  assumes s: "readable uc e s" and size: "length (bs_data s) \<le> UINT32_MAX" and c: "program_ok c"
  shows "meets (stepped uc e r s c) (decode_instruction uc e r (s, c))"
  unfolding decode_instruction_def Let_def prod.case commit_def [symmetric]
proof (rule meets_bind [OF extent_meets [OF s size]], clarify)
  fix token q s1 ws
  assume s1: "consumed e s (token # ws) s1" and ext: "extent_at (bs_data s) (bs_position s) token (q - bs_position s)"
    and q: "bs_position s1 \<le> q" "q \<le> e" "bs_position s < q" and ws: "ws = [] \<longleftrightarrow> token AND 0x7ff \<noteq> 53" "length ws \<le> 1"
  have r1: "readable uc q s1" using s s1 q(2) by (auto simp: consumed_def readable_def)
  note body = instruction_body_meets [OF c _ _ _ r1 q(2) ext q(3) consumed_limit [OF s1 q(1)] ws]
  show "meets (stepped uc e r s c) (if dc_instruction_count c = int INT_MAX then Fail ()
     else (case reserve_instructions uc c (dc_instruction_count c + 1) of
       None \<Rightarrow> Fail ()
     | Some c' \<Rightarrow> obind (store_instruction (dc_instruction_count c') zero_instruction c') (\<lambda>c''.
       obind (apply_controls token (begin_instruction token (bs_position s) q r)) (\<lambda>inst.
       obind (if token AND 0x80000000 \<noteq> 0 then read_opcode_extensions (Suc (q - bs_position s1)) uc q (inst, s1) else Done (inst, s1)) (\<lambda>(inst, stream).
       obind (decode_payload uc token q (inst, stream, c'')) (commit q (dc_instruction_count c')))))))"
  proof (intro meets_rules(2,4,5))
    fix c1
    assume "dc_instruction_count c \<noteq> int INT_MAX" "reserve_instructions uc c (dc_instruction_count c + 1) = Some c1"
    from slot_reserved [OF this(2) c this(1)] obtain a c2 where st: "store_instruction (dc_instruction_count c1) zero_instruction c1 = Done c2"
      and c2: "c2 = c\<lparr>dc_instructions := Some (instrs c @ [zero_instruction]), dc_instruction_alloc := a\<rparr>" "dc_instruction_count c < a" "a \<le> int INT_MAX"
      and count: "dc_instruction_count c1 = dc_instruction_count c" by blast
    show "meets (stepped uc e r s c) (obind (store_instruction (dc_instruction_count c1) zero_instruction c1) (\<lambda>c''.
       obind (apply_controls token (begin_instruction token (bs_position s) q r)) (\<lambda>inst.
       obind (if token AND 0x80000000 \<noteq> 0 then read_opcode_extensions (Suc (q - bs_position s1)) uc q (inst, s1) else Done (inst, s1)) (\<lambda>(inst, stream).
       obind (decode_payload uc token q (inst, stream, c'')) (commit q (dc_instruction_count c1))))))"
      unfolding st [unfolded count] obind.simps count by (rule body [OF c2(2,3,1)])
  qed
qed

section \<open>Programs\<close>

text \<open>
  The instructions of a token stream: consecutive instructions up to its end, each followed by its
  continuation rows, with the immediate constants they declare.
\<close>

inductive program_run :: "unity_common \<Rightarrow> bytes \<Rightarrow> nat \<Rightarrow> nat \<Rightarrow> u32 \<Rightarrow> instruction list \<Rightarrow> u32 list \<Rightarrow> bool" for uc data e where
  stop: "program_run uc data e e r [] []"
| step: "instruction_at uc data p q r inst \<Longrightarrow> q \<le> e \<Longrightarrow> icb_at data p q inst icb rows \<Longrightarrow> program_run uc data e q (r + 1) insts icbs \<Longrightarrow>
    program_run uc data e p r (inst # rows @ insts) (icb @ icbs)"

definition ran :: "unity_common \<Rightarrow> nat \<Rightarrow> u32 \<Rightarrow> byte_stream \<Rightarrow> dxbc_container \<Rightarrow> byte_stream \<times> dxbc_container \<Rightarrow> bool" where
  "ran uc e r s c = (\<lambda>(s', c'). s' = s\<lparr>bs_position := e\<rparr> \<and> program_ok c' \<and> container_frame c' = container_frame c \<and>
     (\<exists>insts icb. program_run uc (bs_data s) e (bs_position s) r insts icb \<and> instrs c' = instrs c @ insts \<and> icb_words c' = icb_words c @ icb))"

lemma stepped_ran: "stepped uc e r s c (s1, c1) \<Longrightarrow> ran uc e (r + 1) s1 c1 st \<Longrightarrow> ran uc e r s c st"
  unfolding ran_def stepped_def prod.case by (cases st) (fastforce intro: program_run.step)

lemma decode_instructions_meets:
  assumes "readable uc e s" "length (bs_data s) \<le> UINT32_MAX" "program_ok c" "bs_position s \<le> e" "e - bs_position s < fuel"
  shows "meets (ran uc e r s c) (decode_instructions fuel uc e r (s, c))"
  using assms
proof (induction fuel arbitrary: r s c)
  case (Suc fuel)
  show ?case
    unfolding decode_instructions.simps fst_conv
  proof (intro meets_rules(4) meets_bind [OF decode_instruction_meets [OF Suc.prems(1-3)]])
    fix x
    assume x: "stepped uc e r s c x"
    obtain s1 c1 where x': "x = (s1, c1)" by (cases x)
    obtain q where q: "s1 = s\<lparr>bs_position := q\<rparr>" "q \<le> e" "bs_position s < q" and c1: "program_ok c1"
      using x by (auto simp: x' stepped_def instruction_at_def)
    have "meets (ran uc e (r + 1) s1 c1) (decode_instructions fuel uc e (r + 1) (s1, c1))"
      using Suc.prems q c1 by (intro Suc.IH) (auto simp: readable_def)
    then show "meets (ran uc e r s c) (decode_instructions fuel uc e (r + 1) x)"
      unfolding x' by (rule meets_mono) (rule stepped_ran [OF x [unfolded x']])
  next
    assume "\<not> bs_position s < e"
    then show "meets (ran uc e r s c) (Done (s, c))"
      using Suc.prems by (auto simp: ran_def intro!: program_run.stop exI [of _ "[]"])
  qed
qed simp

text \<open>A decoded program: its version token, its length word and its instructions.\<close>

definition program_at :: "unity_common \<Rightarrow> bytes \<Rightarrow> nat \<Rightarrow> nat \<Rightarrow> u32 \<Rightarrow> instruction list \<Rightarrow> u32 list \<Rightarrow> bool" where
  "program_at uc data p e version insts icb \<longleftrightarrow> rd32 data p = Some version \<and> version_accepted version \<and>
     (\<exists>len. rd32 data (p + 4) = Some len \<and> unat len * 4 = e - p \<and> p + 8 \<le> e) \<and> program_run uc data e (p + 8) 0 insts icb"

definition set_program :: "u32 \<Rightarrow> dxbc_container \<Rightarrow> dxbc_container" where
  "set_program version c = (let type = drop_bit 16 version; major = ucast (drop_bit 4 version AND 0xf); minor = ucast (version AND 0xf) in
     c\<lparr>dc_shader_type_model := shader_model_text type major minor, dc_program_type := type, dc_major_version := major, dc_minor_version := minor,
       dc_has_executable_program := True\<rparr>)"

definition program_parsed :: "unity_common \<Rightarrow> nat \<Rightarrow> byte_stream \<Rightarrow> dxbc_container \<Rightarrow> byte_stream \<times> dxbc_container \<Rightarrow> bool" where
  "program_parsed uc e s c = (\<lambda>(s', c'). s' = s\<lparr>bs_position := e\<rparr> \<and> program_ok c' \<and>
     (\<exists>version insts icb. program_at uc (bs_data s) (bs_position s) e version insts icb \<and> instrs c' = instrs c @ insts \<and>
        icb_words c' = icb_words c @ icb \<and> container_frame c' = set_program version (container_frame c)))"

lemma program_ok_text: "program_ok (c\<lparr>dc_shader_type_model := t\<rparr>) = program_ok c"
  by (simp add: program_ok_def instruction_array_ok_def instrs_def tables_ok_def icb_words_def)

lemma frame_set_program:
  assumes "container_frame c3 = container_frame (c\<lparr>dc_shader_type_model := shader_model_text (drop_bit 16 v) (ucast (drop_bit 4 v AND 0xf)) (ucast (v AND 0xf))\<rparr>)"
  shows "container_frame (c3\<lparr>dc_program_type := drop_bit 16 v, dc_major_version := ucast (drop_bit 4 v AND 0xf), dc_minor_version := ucast (v AND 0xf),
    dc_has_executable_program := True\<rparr>) = set_program v (container_frame c)"
proof -
  have "container_frame (c3\<lparr>dc_program_type := drop_bit 16 v, dc_major_version := ucast (drop_bit 4 v AND 0xf), dc_minor_version := ucast (v AND 0xf),
      dc_has_executable_program := True\<rparr>) =
    (container_frame c3)\<lparr>dc_program_type := drop_bit 16 v, dc_major_version := ucast (drop_bit 4 v AND 0xf), dc_minor_version := ucast (v AND 0xf),
      dc_has_executable_program := True\<rparr>" by (simp add: container_frame_def)
  then show ?thesis unfolding assms by (simp add: container_frame_def set_program_def Let_def)
qed

text \<open>The part behind the version and length words.\<close>

definition run_program :: "unity_common \<Rightarrow> nat \<Rightarrow> u32 \<Rightarrow> u32 \<Rightarrow> byte_stream \<Rightarrow> dxbc_container \<Rightarrow> (unit, byte_stream \<times> dxbc_container) outcome" where
  "run_program uc e v len stream c =
     (if len < 2 then Fail ()
      else if \<not> version_accepted v then Fail ()
      else if bs_position stream > e then Fail ()
      else if unat (len - 2) * 4 \<noteq> e - bs_position stream then Fail ()
      else obind (decode_instructions (Suc (unat (len - 2) * 4)) uc (bs_position stream + unat (len - 2) * 4) 0
            (stream, c\<lparr>dc_shader_type_model := shader_model_text (drop_bit 16 v) (ucast (drop_bit 4 v AND 0xf)) (ucast (v AND 0xf))\<rparr>))
         (\<lambda>(stream', c). if bs_position stream' \<noteq> bs_position stream + unat (len - 2) * 4 then Fail ()
           else Done (stream', c\<lparr>dc_program_type := drop_bit 16 v, dc_major_version := ucast (drop_bit 4 v AND 0xf),
             dc_minor_version := ucast (v AND 0xf), dc_has_executable_program := True\<rparr>)))"

lemma run_program_meets:
  assumes s: "readable uc e s" "length (bs_data s) \<le> UINT32_MAX" and c: "program_ok c" and s2: "consumed e s [v, len] s2"
  shows "meets (program_parsed uc e s c) (run_program uc e v len s2 c)"
  unfolding run_program_def
proof (intro meets_rules(2,4), goal_cases)
  case 1
  then have n: "bs_position s2 + unat (len - 2) * 4 = e" "unat len = unat (len - 2) + 2" by (auto simp: unat_sub word_less_nat_alt word_le_nat_alt)
  note f = consumed_facts [OF s2]
  have e: "e \<le> length (bs_data s)" using s(1) by (simp add: readable_def)
  have r2: "readable uc e s2" "length (bs_data s2) \<le> UINT32_MAX" "bs_position s2 \<le> e" "e - bs_position s2 < Suc (unat (len - 2) * 4)"
    using s f n(1) by auto
  obtain s1 where s1: "consumed e s [v] s1" "consumed e s1 [len] s2" using s2 consumed_Cons [of e s v "[len]" s2] by blast
  have rd: "rd32 (bs_data s) (bs_position s) = Some v" "rd32 (bs_data s) (bs_position s + 4) = Some len" "bs_position s2 = bs_position s + 8" "s2 = s\<lparr>bs_position := bs_position s + 8\<rparr>"
    using consumed_rd32 [OF s1(1) e] consumed_rd32 [OF s1(2)] consumed_facts [OF s1(1)] f e s2 by (auto simp: consumed_def)
  let ?c = "c\<lparr>dc_shader_type_model := shader_model_text (drop_bit 16 v) (ucast (drop_bit 4 v AND 0xf)) (ucast (v AND 0xf))\<rparr>"
  show ?case
    unfolding n(1)
  proof (rule meets_bind [OF decode_instructions_meets [OF r2(1,2) program_ok_text [THEN iffD2, OF c] r2(3,4)]], clarify)
    fix s3 c3
    assume run: "ran uc e 0 s2 ?c (s3, c3)"
    let ?c4 = "c3\<lparr>dc_program_type := drop_bit 16 v, dc_major_version := ucast (drop_bit 4 v AND 0xf), dc_minor_version := ucast (v AND 0xf), dc_has_executable_program := True\<rparr>"
    have "container_frame ?c4 = set_program v (container_frame c)" by (rule frame_set_program) (use run in \<open>simp add: ran_def\<close>)
    moreover have "program_ok ?c4" "instrs ?c4 = instrs c3" "icb_words ?c4 = icb_words c3" "instrs ?c = instrs c" "icb_words ?c = icb_words c"
      using run by (simp_all add: ran_def program_ok_def instruction_array_ok_def instrs_def tables_ok_def icb_words_def)
    ultimately have "program_parsed uc e s c (s3, ?c4)"
      using run rd 1 n unfolding program_parsed_def ran_def prod.case program_at_def by auto
    then show "meets (program_parsed uc e s c) (if bs_position s3 \<noteq> e then Fail () else Done (s3, ?c4))" by (intro meets_rules)
  qed
qed

lemma parse_shader_logic_meets:
  assumes s: "byte_stream_contract uc" "\<not> bs_big_endian s" "length (bs_data s) \<le> UINT32_MAX" and c: "program_ok c"
  shows "meets (program_parsed uc e s c) (parse_shader_logic uc s e c)"
  unfolding parse_shader_logic_def Let_def run_program_def [symmetric]
proof (intro meets_rules(2,4))
  assume "\<not> length (bs_data s) < e"
  then have e: "readable uc e s" using s by (simp add: readable_def)
  show "meets (program_parsed uc e s c) (obind (instruction_next uc e s) (\<lambda>(v, s1). obind (instruction_next uc e s1) (\<lambda>(len, s2). run_program uc e v len s2 c)))"
  proof (rule meets_bind [OF next_meets [OF e]], clarify)
    fix v s1
    assume s1: "consumed e s [v] s1"
    have r1: "readable uc e s1" using s1 e by (rule consumed_readable)
    show "meets (program_parsed uc e s c) (obind (instruction_next uc e s1) (\<lambda>(len, s2). run_program uc e v len s2 c))"
      by (rule meets_bind [OF next_meets [OF r1]], clarify, rule run_program_meets [OF e s(3) c]) (metis s1 consumed_Cons)
  qed
qed

end
