(* ===== verification/Dxbc_Parse_Spec.thy ===== *)
theory Dxbc_Parse_Spec
  imports Dxbc_Parse Instruction_Spec Dxbc_Document
begin

text \<open>
  What a parsed container says: its chunk table, the elements of its signature chunks and the instructions
  of its executable chunks, each in terms of the bytes of the container.
\<close>

section \<open>Chunks\<close>

text \<open>A chunk of the container: an aligned header and a payload inside the container.\<close>

definition chunk_at :: "bytes \<Rightarrow> chunk_info \<Rightarrow> bool" where
  "chunk_at view ci \<longleftrightarrow> 4 dvd unat (ci_offset ci) \<and> unat (ci_offset ci) + 8 + unat (ci_size ci) \<le> length view \<and>
     ci_name ci = bslice view (unat (ci_offset ci)) 4 \<and> rd32 view (unat (ci_offset ci) + 4) = Some (ci_size ci)"

abbreviation (input) chunk_start :: "chunk_info \<Rightarrow> nat" where "chunk_start ci \<equiv> unat (ci_offset ci) + 8"
abbreviation (input) chunk_finish :: "chunk_info \<Rightarrow> nat" where "chunk_finish ci \<equiv> unat (ci_offset ci) + 8 + unat (ci_size ci)"

lemma chunk_at_unique: "chunk_at view a \<Longrightarrow> chunk_at view b \<Longrightarrow> ci_offset a = ci_offset b \<Longrightarrow> a = b"
  by (cases a; cases b) (simp add: chunk_at_def)

definition view_stream :: "unity_common \<Rightarrow> bytes \<Rightarrow> byte_stream \<Rightarrow> bool" where
  "view_stream uc view s \<longleftrightarrow> byte_stream_contract uc \<and> bs_data s = view \<and> \<not> bs_big_endian s \<and> length view \<le> UINT32_MAX"

lemma view_stream_move [simp]: "view_stream uc view (s\<lparr>bs_position := p\<rparr>) = view_stream uc view s"
  by (simp add: view_stream_def)

lemma next_view: "view_stream uc view s \<Longrightarrow>
  meets (\<lambda>(v, s'). rd32 view (bs_position s) = Some v \<and> s' = s\<lparr>bs_position := bs_position s + 4\<rparr>) (stream_next uc s)"
  using stream_next_Done [of uc s] stream_next_safe [of uc s] by (auto simp: meets_def view_stream_def le_stream_def safe_def)

lemma bytes_view: "view_stream uc view s \<Longrightarrow>
  meets (\<lambda>(bs, s'). bs = bslice view (bs_position s) n \<and> bs_position s + n \<le> length view \<and> s' = s\<lparr>bs_position := bs_position s + n\<rparr>) (stream_bytes uc n s)"
  by (auto simp: meets_def stream_bytes_def view_stream_def stream_read_bytes_eq split: option.splits)

lemma chunk_header_meets:
  assumes s: "view_stream uc view s" and total: "unat total_size = length view"
  shows "meets (\<lambda>(name, size, a, e, s'). \<exists>ci. chunk_at view ci \<and> ci = \<lparr>ci_name = name, ci_size = size, ci_offset = offset\<rparr> \<and>
     a = chunk_start ci \<and> e = chunk_finish ci \<and> s' = s\<lparr>bs_position := a\<rparr>) (read_chunk_header uc offset total_size s)"
  unfolding read_chunk_header_def Let_def
proof (intro meets_rules(2,4))
  assume ok: "\<not> (offset AND 3 \<noteq> 0 \<or> \<not> range_within (unat offset) 8 (unat total_size))"
  have s1: "view_stream uc view (s\<lparr>bs_position := unat offset\<rparr>)" using s by simp
  show "meets (\<lambda>(name, size, a, e, s'). \<exists>ci. chunk_at view ci \<and> ci = \<lparr>ci_name = name, ci_size = size, ci_offset = offset\<rparr> \<and>
     a = chunk_start ci \<and> e = chunk_finish ci \<and> s' = s\<lparr>bs_position := a\<rparr>)
    (obind (stream_bytes uc 4 (s\<lparr>bs_position := unat offset\<rparr>)) (\<lambda>(name, stream).
      obind (stream_next uc stream) (\<lambda>(chunk_size, stream).
      if \<not> range_within (bs_position stream) (unat chunk_size) (unat total_size) then Fail ()
      else Done (name, chunk_size, bs_position stream, bs_position stream + unat chunk_size, stream))))"
  proof (rule meets_bind [OF bytes_view [OF s1]], clarify)
    let ?s2 = "s\<lparr>bs_position := unat offset\<rparr>\<lparr>bs_position := bs_position (s\<lparr>bs_position := unat offset\<rparr>) + 4\<rparr>"
    have s2: "view_stream uc view ?s2" using s by simp
    show "meets (\<lambda>(name, size, a, e, s'). \<exists>ci. chunk_at view ci \<and> ci = \<lparr>ci_name = name, ci_size = size, ci_offset = offset\<rparr> \<and>
       a = chunk_start ci \<and> e = chunk_finish ci \<and> s' = s\<lparr>bs_position := a\<rparr>)
      (obind (stream_next uc ?s2) (\<lambda>(chunk_size, stream).
        if \<not> range_within (bs_position stream) (unat chunk_size) (unat total_size) then Fail ()
        else Done (bslice view (bs_position (s\<lparr>bs_position := unat offset\<rparr>)) 4, chunk_size, bs_position stream, bs_position stream + unat chunk_size, stream)))"
      by (rule meets_bind [OF next_view [OF s2]], clarify, intro meets_rules(1,2,4))
        (use ok total in \<open>auto simp: chunk_at_def range_within_def and_3_dvd\<close>)
  qed
qed

section \<open>The two passes\<close>

lemma meets_scan:
  assumes "Q [] st" "\<And>seen i rest r. Q seen r \<Longrightarrow> is = seen @ i # rest \<Longrightarrow> meets (Q (seen @ [i])) (step i r)"
  shows "meets (Q is) (ofold step is st)"
proof -
  have "meets (Q is) (ofold step rest r)" if "is = seen @ rest" "Q seen r" for seen rest r
    using that
  proof (induction rest arbitrary: seen r)
    case (Cons i rest)
    have "meets (Q is) (ofold step rest x)" if "Q (seen @ [i]) x" for x by (rule Cons.IH [OF _ that]) (use Cons.prems in simp)
    then show ?case unfolding ofold.simps by (rule meets_bind [OF assms(2) [OF Cons.prems(2,1)]])
  qed simp
  from this [of "[]"] assms(1) show ?thesis by simp
qed

text \<open>The elements of one signature chunk.\<close>

definition signature_at :: "bytes \<Rightarrow> chunk_info \<Rightarrow> signature_element list \<Rightarrow> bool" where
  "signature_at view ci els \<longleftrightarrow> (\<exists>count offset. rd32 view (chunk_start ci) = Some count \<and> rd32 view (chunk_start ci + 4) = Some offset \<and>
     length els = unat count \<and> chunk_elements view (chunk_start ci) (chunk_finish ci) (ci_name ci) (chunk_start ci + unat offset) els \<and>
     chunk_start ci + unat offset + unat count * signature_element_size (ci_name ci) \<le> chunk_finish ci)"

definition input_chunk :: "chunk_info \<Rightarrow> bool" where "input_chunk ci \<longleftrightarrow> ci_name ci \<in> {chars ''ISGN'', chars ''ISG1''}"
definition output_chunk :: "chunk_info \<Rightarrow> bool" where "output_chunk ci \<longleftrightarrow> ci_name ci \<in> {chars ''OSGN'', chars ''OSG1'', chars ''OSG5''}"
definition patch_chunk :: "chunk_info \<Rightarrow> bool" where "patch_chunk ci \<longleftrightarrow> ci_name ci \<in> {chars ''PCSG'', chars ''PSG1''}"
definition program_chunk :: "chunk_info \<Rightarrow> bool" where "program_chunk ci \<longleftrightarrow> ci_name ci \<in> {chars ''SHEX'', chars ''SHDR''}"

text \<open>A signature list holds the elements of the chunks of its kind, in the order of the chunk table.\<close>

definition signature_of :: "bytes \<Rightarrow> (chunk_info \<Rightarrow> bool) \<Rightarrow> chunk_info list \<Rightarrow> signature_table \<Rightarrow> bool" where
  "signature_of view kind cs t \<longleftrightarrow> signature_table_ok t \<and> (\<exists>parts. list_all2 (signature_at view) (filter kind cs) parts \<and> elements t = concat parts)"

lemma signature_of_skip: "\<not> kind ci \<Longrightarrow> signature_of view kind (cs @ [ci]) t = signature_of view kind cs t"
  by (simp add: signature_of_def)

lemma signature_of_add:
  assumes "signature_of view kind cs t" "kind ci" "signature_at view ci els" "elements t' = elements t @ els" "signature_table_ok t'"
  shows "signature_of view kind (cs @ [ci]) t'"
proof -
  obtain parts where "list_all2 (signature_at view) (filter kind cs) parts" "elements t = concat parts" using assms(1) by (auto simp: signature_of_def)
  with assms(2-) show ?thesis unfolding signature_of_def
    by (intro conjI exI [of _ "parts @ [els]"]) (simp_all add: list_all2_appendI)
qed

lemma parse_signature_meets:
  assumes s: "view_stream uc view s" "bs_position s = chunk_start ci" and ci: "chunk_at view ci" "kind ci" and t: "signature_of view kind cs t"
  shows "meets (\<lambda>(s', t'). view_stream uc view s' \<and> signature_of view kind (cs @ [ci]) t') (parse_signature uc s (chunk_start ci) (chunk_finish ci) t (ci_name ci))"
proof -
  have ls: "le_stream uc s" "chunk_start ci \<le> chunk_finish ci" "chunk_finish ci \<le> length (bs_data s)" "length (bs_data s) \<le> SIZE_MAX" "signature_table_ok t"
    using s ci t by (auto simp: view_stream_def le_stream_def chunk_at_def signature_of_def)
  note run = parse_signature_run [OF ls]
  have "view_stream uc view s' \<and> signature_of view kind (cs @ [ci]) t'"
    if result: "parse_signature uc s (chunk_start ci) (chunk_finish ci) t (ci_name ci) = Done (s', t')" for s' t'
  proof -
    obtain count offset els where p: "rd32 view (chunk_start ci) = Some count" "rd32 view (chunk_start ci + 4) = Some offset" "length els = unat count"
      "elements t' = elements t @ els" "chunk_elements view (chunk_start ci) (chunk_finish ci) (ci_name ci) (chunk_start ci + unat offset) els"
      "chunk_start ci + unat offset + unat count * signature_element_size (ci_name ci) \<le> chunk_finish ci" and s': "\<exists>p. s' = s\<lparr>bs_position := p\<rparr>" and t': "signature_table_ok t'"
      using run(2) [OF result] s unfolding signature_parsed_def view_stream_def by auto
    have "signature_at view ci els" unfolding signature_at_def using p by blast
    from signature_of_add [OF t ci(2) this p(4) t'] s' s(1) show ?thesis by auto
  qed
  with run(1) show ?thesis by (auto simp: meets_def safe_def)
qed

definition with_chunks :: "nat \<Rightarrow> chunk_info list \<Rightarrow> signature_table \<Rightarrow> signature_table \<Rightarrow> signature_table \<Rightarrow> dxbc_container" where
  "with_chunks n cs i o' p = fresh_container\<lparr>dc_chunks := (if n = 0 then None else Some cs), dc_chunk_count := int (length cs), dc_chunk_alloc := int n,
     dc_input_signature := i, dc_output_signature := o', dc_patch_constant_signature := p\<rparr>"

text \<open>The chunk table and the signatures of the chunks seen so far.\<close>

definition tables_of :: "bytes \<Rightarrow> chunk_info list \<Rightarrow> signature_table \<Rightarrow> signature_table \<Rightarrow> signature_table \<Rightarrow> bool" where
  "tables_of view cs i o' p \<longleftrightarrow> list_all (chunk_at view) cs \<and> signature_of view input_chunk cs i \<and> signature_of view output_chunk cs o' \<and>
     signature_of view patch_chunk cs p"

definition described :: "unity_common \<Rightarrow> bytes \<Rightarrow> nat \<Rightarrow> u32 list \<Rightarrow> byte_stream \<times> dxbc_container \<Rightarrow> bool" where
  "described uc view n seen = (\<lambda>(s, c). view_stream uc view s \<and> (\<exists>cs i o' p. c = with_chunks n cs i o' p \<and> map ci_offset cs = seen \<and> tables_of view cs i o' p))"

lemma kinds_disjoint:
  "input_chunk ci \<Longrightarrow> \<not> output_chunk ci" "input_chunk ci \<Longrightarrow> \<not> patch_chunk ci" "output_chunk ci \<Longrightarrow> \<not> patch_chunk ci"
  "output_chunk ci \<Longrightarrow> \<not> input_chunk ci" "patch_chunk ci \<Longrightarrow> \<not> input_chunk ci" "patch_chunk ci \<Longrightarrow> \<not> output_chunk ci"
  by (auto simp: input_chunk_def output_chunk_def patch_chunk_def chars_def)

lemma tables_result:
  "view_stream uc view s \<Longrightarrow> tables_of view cs i o' p \<Longrightarrow>
   meets (\<lambda>(s', c'). view_stream uc view s' \<and> (\<exists>i' o'' p'. c' = with_chunks n cs i' o'' p' \<and> tables_of view cs i' o'' p')) (Done (s, with_chunks n cs i o' p))"
  by (simp only: meets_Done prod.case) blast

lemma signature_chunk_meets:
  assumes s: "view_stream uc view s" "bs_position s = chunk_start ci" and ci: "chunk_at view ci" and t: "tables_of view cs i o' p"
  shows "meets (\<lambda>(s', c'). view_stream uc view s' \<and> (\<exists>i' o'' p'. c' = with_chunks n (cs @ [ci]) i' o'' p' \<and> tables_of view (cs @ [ci]) i' o'' p'))
    (read_signature_chunk uc (ci_name ci) (chunk_start ci) (chunk_finish ci) (s, with_chunks n (cs @ [ci]) i o' p))"
proof -
  have sel: "dc_input_signature (with_chunks n cs' i o' p) = i" "dc_output_signature (with_chunks n cs' i o' p) = o'" "dc_patch_constant_signature (with_chunks n cs' i o' p) = p"
    "(with_chunks n cs' i o' p)\<lparr>dc_input_signature := t\<rparr> = with_chunks n cs' t o' p" "(with_chunks n cs' i o' p)\<lparr>dc_output_signature := t\<rparr> = with_chunks n cs' i t p"
    "(with_chunks n cs' i o' p)\<lparr>dc_patch_constant_signature := t\<rparr> = with_chunks n cs' i o' t" for t cs' by (simp_all add: with_chunks_def)
  note sig = parse_signature_meets [OF s ci, of _ cs]
  have kinds: "ci_name ci = chars ''ISGN'' \<or> ci_name ci = chars ''ISG1'' \<longleftrightarrow> input_chunk ci" "ci_name ci = chars ''PCSG'' \<or> ci_name ci = chars ''PSG1'' \<longleftrightarrow> patch_chunk ci"
    "ci_name ci = chars ''OSGN'' \<or> ci_name ci = chars ''OSG1'' \<or> ci_name ci = chars ''OSG5'' \<longleftrightarrow> output_chunk ci"
    by (simp_all add: input_chunk_def output_chunk_def patch_chunk_def)
  show ?thesis
    unfolding read_signature_chunk_def prod.case kinds sel
  proof (intro meets_rules(4))
    assume k: "input_chunk ci"
    show "meets (\<lambda>(s', c'). view_stream uc view s' \<and> (\<exists>i' o'' p'. c' = with_chunks n (cs @ [ci]) i' o'' p' \<and> tables_of view (cs @ [ci]) i' o'' p'))
      (obind (parse_signature uc s (chunk_start ci) (chunk_finish ci) i (ci_name ci)) (\<lambda>(stream, t). Done (stream, with_chunks n (cs @ [ci]) t o' p)))"
      by (rule meets_bind [OF sig [where kind = input_chunk and t = "i"]], rule k, use t in \<open>simp add: tables_of_def\<close>, clarify, rule tables_result)
        (use t ci kinds_disjoint(1,2) [OF k] in \<open>auto simp: tables_of_def signature_of_skip\<close>)
  next
    assume k: "output_chunk ci"
    show "meets (\<lambda>(s', c'). view_stream uc view s' \<and> (\<exists>i' o'' p'. c' = with_chunks n (cs @ [ci]) i' o'' p' \<and> tables_of view (cs @ [ci]) i' o'' p'))
      (obind (parse_signature uc s (chunk_start ci) (chunk_finish ci) o' (ci_name ci)) (\<lambda>(stream, t). Done (stream, with_chunks n (cs @ [ci]) i t p)))"
      by (rule meets_bind [OF sig [where kind = output_chunk and t = "o'"]], rule k, use t in \<open>simp add: tables_of_def\<close>, clarify, rule tables_result)
        (use t ci kinds_disjoint(3,4) [OF k] in \<open>auto simp: tables_of_def signature_of_skip\<close>)
  next
    assume k: "patch_chunk ci"
    show "meets (\<lambda>(s', c'). view_stream uc view s' \<and> (\<exists>i' o'' p'. c' = with_chunks n (cs @ [ci]) i' o'' p' \<and> tables_of view (cs @ [ci]) i' o'' p'))
      (obind (parse_signature uc s (chunk_start ci) (chunk_finish ci) p (ci_name ci)) (\<lambda>(stream, t). Done (stream, with_chunks n (cs @ [ci]) i o' t)))"
      by (rule meets_bind [OF sig [where kind = patch_chunk and t = "p"]], rule k, use t in \<open>simp add: tables_of_def\<close>, clarify, rule tables_result)
        (use t ci kinds_disjoint(5,6) [OF k] in \<open>auto simp: tables_of_def signature_of_skip\<close>)
  next
    assume "\<not> input_chunk ci" "\<not> output_chunk ci" "\<not> patch_chunk ci"
    then show "meets (\<lambda>(s', c'). view_stream uc view s' \<and> (\<exists>i' o'' p'. c' = with_chunks n (cs @ [ci]) i' o'' p' \<and> tables_of view (cs @ [ci]) i' o'' p'))
      (Done (s, with_chunks n (cs @ [ci]) i o' p))" by (intro tables_result s(1)) (use t ci in \<open>auto simp: tables_of_def signature_of_skip\<close>)
  qed
qed

lemma describe_chunk_meets:
  assumes "described uc view n seen st" "unat total_size = length view" "length seen < n"
  shows "meets (described uc view n (seen @ [offset])) (describe_chunk uc total_size offset st)"
proof -
  obtain s c cs i o' p where st: "st = (s, c)" "view_stream uc view s" "c = with_chunks n cs i o' p" "map ci_offset cs = seen" "tables_of view cs i o' p"
    using assms(1) by (cases st) (auto simp: described_def)
  have len: "length cs < n" using st(4) assms(3) by auto
  show ?thesis
    unfolding describe_chunk_def st(1) prod.case
  proof (rule meets_bind [OF chunk_header_meets [OF st(2) assms(2)]], clarify)
    fix name size
    let ?ci = "\<lparr>ci_name = name, ci_size = size, ci_offset = offset\<rparr>"
    assume ci: "chunk_at view ?ci"
    have push: "push_chunk name size offset c = Done (with_chunks n (cs @ [?ci]) i o' p)"
      using len by (simp add: push_chunk_def st(3) with_chunks_def)
    have s': "view_stream uc view (s\<lparr>bs_position := chunk_start ?ci\<rparr>)" using st(2) by simp
    show "meets (described uc view n (seen @ [offset])) (obind (push_chunk name size offset c)
      (\<lambda>c. read_signature_chunk uc name (chunk_start ?ci) (chunk_finish ?ci) (s\<lparr>bs_position := chunk_start ?ci\<rparr>, c)))"
      unfolding push obind.simps
    proof (rule meets_mono)
      show "meets (\<lambda>(s', c'). view_stream uc view s' \<and> (\<exists>i' o'' p'. c' = with_chunks n (cs @ [?ci]) i' o'' p' \<and> tables_of view (cs @ [?ci]) i' o'' p'))
        (read_signature_chunk uc name (chunk_start ?ci) (chunk_finish ?ci) (s\<lparr>bs_position := chunk_start ?ci\<rparr>, with_chunks n (cs @ [?ci]) i o' p))"
        using signature_chunk_meets [OF s' _ ci st(5), of n] by simp
      fix x
      assume "case x of (s', c') \<Rightarrow> view_stream uc view s' \<and> (\<exists>i' o'' p'. c' = with_chunks n (cs @ [?ci]) i' o'' p' \<and> tables_of view (cs @ [?ci]) i' o'' p')"
      moreover have "map ci_offset (cs @ [?ci]) = seen @ [offset]" using st(4) by simp
      ultimately show "described uc view n (seen @ [offset]) x" unfolding described_def by (cases x) blast
    qed
  qed
qed

text \<open>The programs of the executable chunks, in the order of the chunk table; the last one names the shader model.\<close>

type_synonym parsed_program = "u32 \<times> instruction list \<times> u32 list"

definition programs_of :: "unity_common \<Rightarrow> bytes \<Rightarrow> chunk_info list \<Rightarrow> parsed_program list \<Rightarrow> dxbc_container \<Rightarrow> dxbc_container \<Rightarrow> bool" where
  "programs_of uc view cs ps c0 c \<longleftrightarrow> program_ok c \<and>
     list_all2 (\<lambda>ci (v, insts, icb). program_at uc view (chunk_start ci) (chunk_finish ci) v insts icb) (filter program_chunk cs) ps \<and>
     instrs c = concat (map (\<lambda>(v, insts, icb). insts) ps) \<and> icb_words c = concat (map (\<lambda>(v, insts, icb). icb) ps) \<and>
     container_frame c = (if ps = [] then container_frame c0 else set_program (fst (last ps)) (container_frame c0))"

definition executed :: "unity_common \<Rightarrow> bytes \<Rightarrow> chunk_info list \<Rightarrow> dxbc_container \<Rightarrow> u32 list \<Rightarrow> byte_stream \<times> dxbc_container \<Rightarrow> bool" where
  "executed uc view cs c0 seen = (\<lambda>(s, c). view_stream uc view s \<and> (\<exists>ps. programs_of uc view (take (length seen) cs) ps c0 c))"

lemma set_program_twice: "set_program v (set_program u c) = set_program v c"
  by (simp add: set_program_def Let_def)

lemma programs_of_add:
  assumes "programs_of uc view cs ps c0 c" "program_chunk ci" "program_parsed uc (chunk_finish ci) s c (s', c')" "bs_data s = view" "bs_position s = chunk_start ci"
  shows "\<exists>ps'. programs_of uc view (cs @ [ci]) ps' c0 c'"
proof -
  obtain v insts icb where p: "program_at uc view (chunk_start ci) (chunk_finish ci) v insts icb" "program_ok c'" "instrs c' = instrs c @ insts"
    "icb_words c' = icb_words c @ icb" "container_frame c' = set_program v (container_frame c)"
    using assms(3-) by (auto simp: program_parsed_def)
  note old = assms(1) [unfolded programs_of_def]
  have frame: "container_frame c' = set_program v (container_frame c0)"
  proof (cases "ps = []")
    case False
    with old show ?thesis unfolding p(5) by (simp add: set_program_twice)
  qed (use old p(5) in simp)
  have "list_all2 (\<lambda>ci (v, insts, icb). program_at uc view (chunk_start ci) (chunk_finish ci) v insts icb) (filter program_chunk (cs @ [ci])) (ps @ [(v, insts, icb)])"
    using old p(1) assms(2) by (simp only: filter_append filter.simps if_True list_all2_appendI list.rel_inject prod.case list.rel_inject(1) simp_thms)
  then have "programs_of uc view (cs @ [ci]) (ps @ [(v, insts, icb)]) c0 c'"
    unfolding programs_of_def using old p(2-4) frame by simp
  then show ?thesis by blast
qed

lemma programs_of_skip: "\<not> program_chunk ci \<Longrightarrow> programs_of uc view (cs @ [ci]) ps c0 c = programs_of uc view cs ps c0 c"
  by (simp add: programs_of_def)

lemma run_chunk_meets:
  assumes st: "executed uc view cs c0 seen st" and total: "unat total_size = length view"
    and cs: "list_all (chunk_at view) cs" "map ci_offset cs = seen @ offset # rest"
  shows "meets (executed uc view cs c0 (seen @ [offset])) (run_chunk uc total_size offset st)"
proof -
  obtain s c ps where s: "st = (s, c)" "view_stream uc view s" "programs_of uc view (take (length seen) cs) ps c0 c"
    using st by (cases st) (auto simp: executed_def)
  let ?k = "length seen"
  have k: "?k < length cs" "ci_offset (cs ! ?k) = offset" using arg_cong [OF cs(2), of length] arg_cong [OF cs(2), of "\<lambda>xs. xs ! ?k"] by (auto simp: nth_append)
  have take: "take (length (seen @ [offset])) cs = take ?k cs @ [cs ! ?k]" using k(1) by (simp add: take_Suc_conv_app_nth)
  have at: "chunk_at view (cs ! ?k)" using cs(1) k(1) by (simp add: list_all_length)
  show ?thesis
    unfolding run_chunk_def s(1) prod.case
  proof (rule meets_bind [OF chunk_header_meets [OF s(2) total]], clarify)
    fix name size
    let ?ci = "\<lparr>ci_name = name, ci_size = size, ci_offset = offset\<rparr>"
    assume "chunk_at view ?ci"
    then have ci: "?ci = cs ! ?k" using chunk_at_unique [OF _ at] k(2) by simp
    have name: "name = ci_name (cs ! ?k)" "chunk_finish ?ci = chunk_finish (cs ! ?k)" "chunk_start ?ci = chunk_start (cs ! ?k)" using ci [symmetric] by simp_all
    let ?s = "s\<lparr>bs_position := chunk_start ?ci\<rparr>"
    have vs: "byte_stream_contract uc" "\<not> bs_big_endian ?s" "length (bs_data ?s) \<le> UINT32_MAX" "program_ok c" "bs_data ?s = view"
      using s(2,3) by (auto simp: view_stream_def programs_of_def)
    show "meets (executed uc view cs c0 (seen @ [offset]))
      (if name = chars ''SHEX'' \<or> name = chars ''SHDR'' then parse_shader_logic uc ?s (chunk_finish ?ci) c else Done (?s, c))"
    proof (intro meets_rules(4))
      assume "name = chars ''SHEX'' \<or> name = chars ''SHDR''"
      then have pc: "program_chunk (cs ! ?k)" by (simp add: program_chunk_def name(1))
      show "meets (executed uc view cs c0 (seen @ [offset])) (parse_shader_logic uc ?s (chunk_finish ?ci) c)"
      proof (rule meets_mono [OF parse_shader_logic_meets [OF vs(1-4)]])
        fix x
        assume x: "program_parsed uc (chunk_finish ?ci) ?s c x"
        obtain s' c' where x': "x = (s', c')" by (cases x)
        have "view_stream uc view s'" using x s(2) by (auto simp: x' program_parsed_def)
        moreover have "\<exists>ps'. programs_of uc view (take ?k cs @ [cs ! ?k]) ps' c0 c'"
          by (rule programs_of_add [OF s(3) pc x [unfolded x' name(2)] vs(5)]) (simp add: k(2) [symmetric])
        ultimately show "executed uc view cs c0 (seen @ [offset]) x" by (simp add: x' executed_def take [simplified])
      qed
    next
      assume "\<not> (name = chars ''SHEX'' \<or> name = chars ''SHDR'')"
      then have "\<not> program_chunk (cs ! ?k)" by (simp add: program_chunk_def name(1))
      then show "meets (executed uc view cs c0 (seen @ [offset])) (Done (?s, c))"
        using s(2,3) by (auto simp: executed_def take [simplified] programs_of_skip)
    qed
  qed
qed

section \<open>Whole containers\<close>

definition header_ok :: "bytes \<Rightarrow> u32 \<Rightarrow> bool" where
  "header_ok view n \<longleftrightarrow> rd32 view 0 = Some 0x43425844 \<and> rd32 view 20 = Some 1 \<and> map_option unat (rd32 view 24) = Some (length view) \<and>
     rd32 view 28 = Some n \<and> DXBC_HEADER_SIZE + 4 * unat n \<le> length view"

lemma header_meets:
  assumes s: "view_stream uc view s" "bs_position s = 0"
  shows "meets (\<lambda>(total, n, s'). unat total = length view \<and> header_ok view n \<and> s' = s\<lparr>bs_position := 32\<rparr>) (read_header uc (length view) s)"
proof -
  let ?P = "\<lambda>(total, n, s'). unat total = length view \<and> header_ok view n \<and> s' = s\<lparr>bs_position := 32\<rparr>"
  have at: "view_stream uc view (s\<lparr>bs_position := k\<rparr>)" for k using s(1) by simp
  have next_at: "meets (\<lambda>(v, s'). rd32 view k = Some v \<and> s' = s\<lparr>bs_position := k + 4\<rparr>) (stream_next uc (s\<lparr>bs_position := k\<rparr>))" for k
    using next_view [OF at, of k] by simp
  have hash: "meets (\<lambda>(bs, s'). s' = s\<lparr>bs_position := 20\<rparr>) (stream_bytes uc 16 (s\<lparr>bs_position := 4\<rparr>))"
    by (rule meets_mono [OF bytes_view [OF at]]) auto
  have s0: "s = s\<lparr>bs_position := 0\<rparr>" using s(2) by (cases s) simp
  show ?thesis
    unfolding read_header_def
    apply (rule meets_bind [OF next_at [of 0, folded s0]], elim case_prodE conjE, simp only: prod.case, rule meets_rules(4), rule meets_rules(2))
    apply (rule meets_bind, simp only: add_0, rule hash, elim case_prodE, simp only: prod.case)
    apply (rule meets_bind [OF next_at], elim case_prodE conjE, simp only: prod.case, rule meets_rules(4), rule meets_rules(2))
    apply (rule meets_bind, simp only:, rule next_at, elim case_prodE conjE, simp only: prod.case, rule meets_rules(4), rule meets_rules(2))
    apply (rule meets_bind, simp only:, rule next_at, elim case_prodE conjE, simp only: prod.case, rule meets_rules(4), rule meets_rules(2))
    by (auto simp: header_ok_def)
qed

definition offsets_read :: "bytes \<Rightarrow> byte_stream \<Rightarrow> u32 \<Rightarrow> nat \<Rightarrow> byte_stream \<times> u32 list \<Rightarrow> bool" where
  "offsets_read view s n i = (\<lambda>(s', offs). s' = s\<lparr>bs_position := 32 + 4 * i\<rparr> \<and> length offs = i \<and>
     (\<forall>j<i. rd32 view (32 + 4 * j) = Some (offs ! j) \<and> DXBC_HEADER_SIZE + 4 * unat n \<le> unat (offs ! j)))"

lemma read_offset_meets:
  assumes "view_stream uc view s" "offsets_read view s n i st"
  shows "meets (offsets_read view s n (Suc i)) (read_offset uc n i st)"
proof -
  obtain offs where st: "st = (s\<lparr>bs_position := 32 + 4 * i\<rparr>, offs)" "length offs = i"
    "\<forall>j<i. rd32 view (32 + 4 * j) = Some (offs ! j) \<and> DXBC_HEADER_SIZE + 4 * unat n \<le> unat (offs ! j)"
    using assms(2) by (cases st) (auto simp: offsets_read_def)
  have s1: "view_stream uc view (s\<lparr>bs_position := 32 + 4 * i\<rparr>)" using assms(1) by simp
  show ?thesis
    unfolding read_offset_def st(1) prod.case
    by (rule meets_bind [OF next_view [OF s1]], clarify, intro meets_rules(1,2,4))
      (use st(2,3) in \<open>auto simp: offsets_read_def nth_append less_Suc_eq\<close>)
qed

text \<open>
  A parsed container: its chunk table, its signatures and the programs of its executable chunks, of
  which there is at least one.
\<close>

definition container_parsed :: "unity_common \<Rightarrow> bytes \<Rightarrow> chunk_info list \<Rightarrow> parsed_program list \<Rightarrow> dxbc_container \<Rightarrow> bool" where
  "container_parsed uc view cs ps c \<longleftrightarrow> (\<exists>n i o' p c1. header_ok view n \<and> length cs = unat n \<and>
     (\<forall>j<length cs. rd32 view (32 + 4 * j) = Some (ci_offset (cs ! j)) \<and> DXBC_HEADER_SIZE + 4 * unat n \<le> unat (ci_offset (cs ! j))) \<and>
     tables_of view cs i o' p \<and> ps \<noteq> [] \<and> programs_of uc view cs ps (with_chunks (unat n) cs i o' p) c1 \<and>
     c = c1\<lparr>dc_parsed_signature_authority := True\<rparr>)"

lemma empty_signature_of: "signature_of view kind [] \<lparr>sg_list = None, sg_count = 0, sg_alloc = 0\<rparr>"
  by (auto simp: signature_of_def signature_table_ok_def elements_def)

lemma program_ok_fresh:
  "program_ok (with_chunks n cs i o' p)" "instrs (with_chunks n cs i o' p) = []" "icb_words (with_chunks n cs i o' p) = []"
  by (simp_all add: program_ok_def with_chunks_def fresh_container_def zero_container_def instrs_def icb_words_def
      instruction_array_ok_def tables_ok_def empty_table_ok)

lemma executable_programs:
  assumes "programs_of uc view cs ps (with_chunks n cs' i o' p) c" "dc_has_executable_program c"
  shows "ps \<noteq> []"
proof
  assume "ps = []"
  with assms(1) have "container_frame c = container_frame (with_chunks n cs' i o' p)" by (simp add: programs_of_def)
  from arg_cong [OF this, of dc_has_executable_program] assms(2) show False
    by (simp add: container_frame_def with_chunks_def fresh_container_def zero_container_def)
qed

lemma parse_chunks_meets:
  assumes s: "view_stream uc view s" "bs_position s = 32" and total: "unat total_size = length view" and h: "header_ok view n"
  shows "meets (\<lambda>c. \<exists>cs ps. container_parsed uc view cs ps c) (parse_chunks uc total_size n s)"
  unfolding parse_chunks_def
proof (rule meets_bind [OF meets_count [where Q = "offsets_read view s n"]])
  have "s\<lparr>bs_position := 32\<rparr> = s" using s(2) by (cases s) simp
  then show "offsets_read view s n 0 (s, [])" by (simp add: offsets_read_def)
  show "meets (offsets_read view s n (Suc i)) (read_offset uc n i st)" if "offsets_read view s n i st" "i < unat n" for i st
    by (rule read_offset_meets [OF s(1) that(1)])
  fix x
  assume "offsets_read view s n (unat n) x"
  then obtain s1 offs where x: "x = (s1, offs)" "view_stream uc view s1" and offs: "length offs = unat n"
    "\<forall>j<unat n. rd32 view (32 + 4 * j) = Some (offs ! j) \<and> DXBC_HEADER_SIZE + 4 * unat n \<le> unat (offs ! j)"
    using s(1) by (cases x) (auto simp: offsets_read_def)
  let ?none = "\<lparr>sg_list = None, sg_count = 0, sg_alloc = 0\<rparr>"
  have alloc: "meets (\<lambda>c. c = with_chunks (unat n) [] ?none ?none ?none) (allocate_chunks uc n fresh_container)"
    unfolding allocate_chunks_def
    by (intro meets_rules(1,2,4)) (simp_all add: with_chunks_def fresh_container_def zero_container_def unat_eq_0)
  show "meets (\<lambda>c. \<exists>cs ps. container_parsed uc view cs ps c) (case x of (stream, offsets) \<Rightarrow>
     obind (allocate_chunks uc n fresh_container) (\<lambda>c.
     obind (ofold (describe_chunk uc total_size) offsets (stream, c)) (\<lambda>(stream, c).
     obind (ofold (run_chunk uc total_size) offsets (stream, c)) (\<lambda>(stream, c).
     if dc_has_executable_program c then Done (c\<lparr>dc_parsed_signature_authority := True\<rparr>) else Fail ()))))"
    unfolding x(1) prod.case
  proof (rule meets_bind [OF alloc], rule meets_bind [OF meets_scan [where Q = "described uc view (unat n)"]])
    fix c
    assume c: "c = with_chunks (unat n) [] ?none ?none ?none"
    show "described uc view (unat n) [] (s1, c)"
      using x(2) empty_signature_of unfolding described_def prod.case c tables_of_def by (intro conjI exI [of _ "[]"] exI) auto
    show "meets (described uc view (unat n) (seen @ [off])) (describe_chunk uc total_size off st)"
      if "described uc view (unat n) seen st" "offs = seen @ off # rest" for seen off rest st
      by (rule describe_chunk_meets [OF that(1) total]) (use offs(1) that(2) in simp)
    fix y
    assume "described uc view (unat n) offs y"
    then obtain s2 cs i o' p where y: "y = (s2, with_chunks (unat n) cs i o' p)" "view_stream uc view s2" "map ci_offset cs = offs" "tables_of view cs i o' p"
      by (cases y) (auto simp: described_def)
    show "meets (\<lambda>c. \<exists>cs ps. container_parsed uc view cs ps c) (case y of (stream, c) \<Rightarrow>
      obind (ofold (run_chunk uc total_size) offs (stream, c)) (\<lambda>(stream, c).
      if dc_has_executable_program c then Done (c\<lparr>dc_parsed_signature_authority := True\<rparr>) else Fail ()))"
      unfolding y(1) prod.case
    proof (rule meets_bind [OF meets_scan [where Q = "executed uc view cs (with_chunks (unat n) cs i o' p)"]])
      let ?c = "with_chunks (unat n) cs i o' p"
      have "program_ok ?c" "instrs ?c = []" "icb_words ?c = []" by (simp_all add: program_ok_fresh)
      then show "executed uc view cs ?c [] (s2, ?c)"
        using y(2) unfolding executed_def prod.case by (intro conjI exI [of _ "[]"]) (auto simp: programs_of_def)
      show "meets (executed uc view cs ?c (seen @ [off])) (run_chunk uc total_size off st)"
        if "executed uc view cs ?c seen st" "offs = seen @ off # rest" for seen off rest st
        by (rule run_chunk_meets [OF that(1) total]) (use y(3,4) that(2) in \<open>auto simp: tables_of_def\<close>)
      fix z
      assume "executed uc view cs ?c offs z"
      then obtain s3 c3 ps where z: "z = (s3, c3)" "programs_of uc view cs ps ?c c3"
        using y(3) by (cases z) (auto simp: executed_def)
      show "meets (\<lambda>c. \<exists>cs ps. container_parsed uc view cs ps c)
        (case z of (stream, c) \<Rightarrow> if dc_has_executable_program c then Done (c\<lparr>dc_parsed_signature_authority := True\<rparr>) else Fail ())"
        unfolding z(1) prod.case
      proof (intro meets_rules(2,4), simp only: meets_Done, intro exI)
        assume "dc_has_executable_program c3"
        then have "ps \<noteq> []" by (rule executable_programs [OF z(2)])
        moreover have len: "length cs = unat n" using offs(1) y(3) by auto
        moreover have "offs ! j = ci_offset (cs ! j)" if "j < length cs" for j using that y(3) by auto
        ultimately show "container_parsed uc view cs ps (c3\<lparr>dc_parsed_signature_authority := True\<rparr>)"
          unfolding container_parsed_def using h y(4) z(2) offs(2) by (intro exI conjI) auto
      qed
    qed
  qed
qed

section \<open>The parser\<close>

lemma on_fail_meets: "meets Q m \<Longrightarrow> meets Q (on_fail m (Fail e))"
  by (cases m) (simp_all add: meets_def)

lemma parse_view_meets:
  assumes uc: "byte_stream_contract uc" and view: "length view \<le> UINT32_MAX"
  shows "meets (\<lambda>c. \<exists>cs ps. container_parsed uc view cs ps c) (parse_view uc c_malloc view)"
proof -
  let ?s = "stream_set_endian uc (stream_init uc view) False"
  have s: "view_stream uc view ?s" "bs_position ?s = 0" using stream_open_eq [OF uc, of view False] uc view by (simp_all add: view_stream_def)
  show ?thesis
    unfolding parse_view_def
  proof (rule meets_bind [OF on_fail_meets [OF header_meets [OF s]]])
    fix x :: "u32 \<times> u32 \<times> byte_stream"
    assume x: "case x of (total_size, n, s') \<Rightarrow> unat total_size = length view \<and> header_ok view n \<and> s' = ?s\<lparr>bs_position := 32\<rparr>"
    obtain tot n s' where x': "x = (tot, n, s')" by (cases x)
    have s': "view_stream uc view s'" "bs_position s' = 32" "unat tot = length view" "header_ok view n" using x s(1) by (auto simp: x')
    show "meets (\<lambda>c. \<exists>cs ps. container_parsed uc view cs ps c) (case x of (total_size, chunk_count, stream) \<Rightarrow>
      if chunk_count \<noteq> 0 \<and> \<not> c_malloc (unat chunk_count * 4) then Fail fresh_container
      else on_fail (parse_chunks uc total_size chunk_count stream) (Fail zero_container))"
      unfolding x' prod.case by (intro meets_rules(2,4) on_fail_meets parse_chunks_meets s')
  qed
qed

lemma unat_lt32: "unat (w :: u32) < Suc UINT32_MAX"
  using unsigned_less [of w, where 'a = nat] by simp

lemma good_view_size: "good_view bs v \<Longrightarrow> view_size v \<le> UINT32_MAX"
  by (auto simp: good_view_def) (metis less_Suc_eq_le unat_lt32)

definition parsed_view :: "unity_common \<Rightarrow> bytes \<Rightarrow> bytes \<Rightarrow> bytes \<Rightarrow> bool" where
  "parsed_view uc stack bs view \<longleftrightarrow> (\<exists>v. dxbc_container_view_first uc (Buf bs) = Done v \<and> view = bslice bs (view_data v) (view_size v)) \<and>
     dxbc_verify_hash uc stack (Buf view)"

lemma dxbc_parse_meets:
  assumes uc: "byte_stream_contract uc" "little_endian_host uc"
  shows "meets (\<lambda>c. \<exists>view cs ps. parsed_view uc stack bs view \<and> container_parsed uc view cs ps c) (dxbc_parse uc c_malloc stack (Buf bs))"
proof -
  have "meets (\<lambda>v. dxbc_container_view_first uc (Buf bs) = Done v) (dxbc_container_view_first uc (Buf bs))"
    using container_view_first_safe [of uc bs] by (simp add: meets_def)
  then show ?thesis
    unfolding dxbc_parse_def Let_def c_buffer.case
  proof (rule meets_bind [OF on_fail_meets], intro meets_rules(2,4))
    fix v :: container_view
    let ?view = "bslice bs (view_data v) (view_size v)"
    assume v: "dxbc_container_view_first uc (Buf bs) = Done v" and h: "\<not> \<not> dxbc_verify_hash uc stack (Buf ?view)"
    have "length ?view \<le> UINT32_MAX" using good_view_size [OF container_view_first_good [OF uc(2) v]] by (simp add: bslice_def)
    moreover have "parsed_view uc stack bs ?view" using v h by (auto simp: parsed_view_def)
    ultimately show "meets (\<lambda>c. \<exists>view cs ps. parsed_view uc stack bs view \<and> container_parsed uc view cs ps c) (parse_view uc c_malloc ?view)"
      by (intro meets_mono [OF parse_view_meets [OF uc(1)]]) blast+
  qed
qed

lemma dxbc_parse_Fail: "dxbc_parse uc c_malloc stack data = Fail c \<Longrightarrow> c = fresh_container \<or> c = zero_container"
  by (auto simp: dxbc_parse_def parse_view_def outcome_simps Let_def split: if_splits)

lemma parsed_program_ok: "container_parsed uc view cs ps c \<Longrightarrow> program_ok c"
  by (auto simp: container_parsed_def programs_of_def program_ok_def instruction_array_ok_def instrs_def tables_ok_def icb_words_def)

lemma parsed_instrs: "container_parsed uc view cs ps c \<Longrightarrow> instrs c = concat (map (\<lambda>(v, insts, icb). insts) ps)"
  by (auto simp: container_parsed_def programs_of_def instrs_def)

lemma program_ok_free: "program_ok c \<Longrightarrow> dxbc_free c = Done zero_container"
  by (auto simp: dxbc_free_def program_ok_def instrs_def split: option.splits)

section \<open>An example container\<close>

lemma sample_stamped: "\<exists>h. length h = 16 \<and> stamp sample_container = magic_DXBC @ h @ drop 20 sample_container"
proof -
  have "32 \<le> length sample_container" by (simp add: sample_container_def)
  from stamp_shape [OF this] show ?thesis unfolding sample_tail(2) by blast
qed

lemma lp64_next [simp]:
  "\<not> bs_big_endian s \<Longrightarrow> stream_next lp64_common s = (case rd32 (bs_data s) (bs_position s) of None \<Rightarrow> Fail () | Some v \<Rightarrow> Done (v, s\<lparr>bs_position := bs_position s + 4\<rparr>))"
  by (auto simp: stream_next_def stream_read_uint32_eq rd32_def split: option.splits)

lemma lp64_bytes [simp]:
  "stream_bytes lp64_common n s = (if bs_position s + n \<le> length (bs_data s) then Done (bslice (bs_data s) (bs_position s) n, s\<lparr>bs_position := bs_position s + n\<rparr>) else Fail ())"
  by (simp add: stream_bytes_def stream_read_bytes_eq)

lemma lp64_open [simp]: "stream_set_endian lp64_common (stream_init lp64_common bs) False = \<lparr>bs_data = bs, bs_position = 0, bs_big_endian = False\<rparr>"
  by (simp add: lp64_common_def)

lemma sample_container_words:
  assumes "length h = 16" "view = magic_DXBC @ h @ drop 20 sample_container"
  shows "length view = 56" "rd32 view 0 = Some 0x43425844" "rd32 view 20 = Some 1" "rd32 view 24 = Some 56" "rd32 view 28 = Some 1" "rd32 view 32 = Some 36"
    "bslice view 36 4 = chars ''SHEX''" "rd32 view 40 = Some 12" "rd32 view 44 = Some 0x50" "rd32 view 48 = Some 3" "rd32 view 52 = Some 0x0100003E"
proof -
  have name: "fourcc ''SHEX'' = chars ''SHEX''" "length (chars ''SHEX'') = 4" by (simp_all add: fourcc_def chars_def)
  have magic: "magic_DXBC = bytes32 0x43425844" by (simp add: magic_DXBC_def bytes32_def)
  show "length view = 56" "rd32 view 0 = Some 0x43425844" "rd32 view 20 = Some 1" "rd32 view 24 = Some 56" "rd32 view 28 = Some 1" "rd32 view 32 = Some 36"
    "bslice view 36 4 = chars ''SHEX''" "rd32 view 40 = Some 12" "rd32 view 44 = Some 0x50" "rd32 view 48 = Some 3" "rd32 view 52 = Some 0x0100003E"
    using assms by (simp_all add: sample_tail image_simps name magic)
qed

lemma shex_name: "(chars ''SHEX'' = chars [a, b, c, d]) \<longleftrightarrow> of_char a = (83 :: u8) \<and> of_char b = (72 :: u8) \<and> of_char c = (69 :: u8) \<and> of_char d = (88 :: u8)"
  by (auto simp: chars_def)

lemma lp64_instruction_next:
  "\<not> bs_big_endian s \<Longrightarrow> instruction_next lp64_common e s =
     (if bs_position s \<le> e \<and> e \<le> length (bs_data s) \<and> 4 \<le> e - bs_position s then
        case rd32 (bs_data s) (bs_position s) of None \<Rightarrow> Fail () | Some v \<Rightarrow> Done (v, s\<lparr>bs_position := bs_position s + 4\<rparr>)
      else Fail ())"
  by (auto simp: instruction_next_def instruction_read_u32_def stream_read_uint32_eq split: option.splits)

lemma return_decodes:
  fixes inst p q r defines "inst \<equiv> begin_instruction 0x0100003E p q r"
  shows "apply_controls 0x0100003E inst = Done inst" "in_opcode inst = 62"
    "bs_position s = q \<Longrightarrow> decode_payload uc 0x0100003E q (inst, s, c) = Done (inst, s, c)"
proof -
  have i: "in_opcode inst = 62" "\<not> in_is_decl inst" "in_operands inst = []"
    by (simp_all add: inst_def begin_instruction_def zero_instruction_def Let_def dxbc_opcode_is_declaration_def)
  have "inst\<lparr>in_operands := []\<rparr> = inst" using i(3) by (cases inst) simp
  moreover have "append_operands 9 uc e st = (if bs_position (snd st) < e then obind (append_required_operand uc e st) (append_operands 8 uc e) else Done st)" for uc e st
    using append_operands.simps(2) [of 8] by simp
  ultimately show "bs_position s = q \<Longrightarrow> decode_payload uc 0x0100003E q (inst, s, c) = Done (inst, s, c)"
    using i by (simp add: decode_payload_def generic_operands_def)
  show "apply_controls 0x0100003E inst = Done inst" "in_opcode inst = 62" using i by (simp_all add: apply_controls_def)
qed

lemma sample_dxbc_parse:
  assumes "length stack = 64"
  shows "\<exists>c. dxbc_parse lp64_common (\<lambda>_. True) stack (Buf (stamp sample_container)) = Done c \<and> map in_opcode (instrs c) = [62] \<and> dc_shader_type_model c = ''ps_5_0''"
proof -
  obtain h where h: "length h = 16" "stamp sample_container = magic_DXBC @ h @ drop 20 sample_container" using sample_stamped by blast
  have view: "dxbc_container_view_first lp64_common (Buf (magic_DXBC @ h @ drop 20 sample_container)) = Done \<lparr>view_data = 0, view_size = 56\<rparr>"
    using h(1) by (simp add: dxbc_container_view_first_def raw_dxbc_view_def sample_tail read_le_u32_at_def memcmp_eq_def image_simps Let_def)
  obtain view where img: "view = magic_DXBC @ h @ drop 20 sample_container" by blast
  note w = sample_container_words [OF h(1) img]
  have bytes: "bslice view 0 56 = view" using w(1) by (simp add: bslice_def)
  note v = sample_container_verifies [OF assms, unfolded h(2), folded img]
  have steps: "decode_instructions 5 uc e r st = (if bs_position (fst st) < e then obind (decode_instruction uc e r st) (decode_instructions 4 uc e (r + 1)) else Done st)"
    "decode_instructions 4 uc e r st = (if bs_position (fst st) < e then obind (decode_instruction uc e r st) (decode_instructions 3 uc e (r + 1)) else Done st)" for uc e r st
    using decode_instructions.simps(2) [of 4] decode_instructions.simps(2) [of 3] by simp_all
  show ?thesis unfolding h(2) img [symmetric] dxbc_parse_def view [folded img] on_fail.simps obind.simps Let_def c_buffer.case container_view.simps bytes
    using v w
    apply (simp add: parse_view_def read_header_def)
    apply (simp add: parse_chunks_def allocate_chunks_def read_offset_def describe_chunk_def read_chunk_header_def range_within_def push_chunk_def fresh_container_def zero_container_def read_signature_chunk_def shex_name run_chunk_def)
    apply (simp add: parse_shader_logic_def lp64_instruction_next version_accepted_def Let_def)
    apply (simp add: steps(1) decode_instruction_def read_instruction_extent_def lp64_instruction_next dxbc_tokenized_instruction_length_def reserve_instructions_def Let_def store_instruction_def
      return_decodes grow_allocation.simps [of _ 128] instrs_def shader_model_text_def switch_table_def)
    by (simp add: steps instrs_def return_decodes char_of_def bit_Suc_0_iff)
qed

section \<open>Well-formed containers\<close>

definition chunk_array :: "dxbc_container \<Rightarrow> chunk_info list" where
  "chunk_array c = (case dc_chunks c of None \<Rightarrow> [] | Some cs \<Rightarrow> cs)"

definition container_ok :: "dxbc_container \<Rightarrow> bool" where
  "container_ok c \<longleftrightarrow> program_ok c \<and> signature_table_ok (dc_input_signature c) \<and> signature_table_ok (dc_output_signature c) \<and>
     signature_table_ok (dc_patch_constant_signature c) \<and> dc_chunk_count c = int (length (chunk_array c)) \<and> dc_chunk_alloc c = dc_chunk_count c \<and>
     dc_has_executable_program c \<and> dc_parsed_signature_authority c \<and> dc_program_type c \<le> 5 \<and> dc_major_version c \<in> {4, 5} \<and>
     dc_shader_type_model c = shader_model_text (dc_program_type c) (dc_major_version c) (dc_minor_version c)"

lemma last_list_all2: "list_all2 P xs ys \<Longrightarrow> ys \<noteq> [] \<Longrightarrow> P (last xs) (last ys)"
  by (induction rule: list_all2_induct) auto

lemma version_bounds: "version_accepted v \<Longrightarrow> drop_bit 16 v \<le> 5 \<and> (ucast (drop_bit 4 v AND 0xf) :: u8) \<in> {4, 5}"
  by (auto simp: version_accepted_def Let_def)

lemma parsed_frame:
  assumes "container_parsed uc view cs ps c"
  obtains v n i o' p where "version_accepted v" "container_frame c = (set_program v (container_frame (with_chunks n cs i o' p)))\<lparr>dc_parsed_signature_authority := True\<rparr>"
    "length cs = n" "tables_of view cs i o' p"
proof -
  obtain n :: u32 and i o' p c1 where c: "length cs = unat n" "tables_of view cs i o' p" "ps \<noteq> []" "programs_of uc view cs ps (with_chunks (unat n) cs i o' p) c1"
    "c = c1\<lparr>dc_parsed_signature_authority := True\<rparr>"
    using assms unfolding container_parsed_def by blast
  have "version_accepted (fst (last ps))"
    using last_list_all2 [OF conjunct1 [OF conjunct2 [OF c(4) [unfolded programs_of_def]]] c(3)] by (cases "last ps") (simp add: program_at_def)
  moreover have "container_frame c = (container_frame c1)\<lparr>dc_parsed_signature_authority := True\<rparr>" by (simp add: c(5) container_frame_def)
  ultimately show ?thesis using that c unfolding programs_of_def by auto
qed

lemma parsed_ok: 
  assumes "container_parsed uc view cs ps c"
  shows "container_ok c" "chunk_array c = cs"
proof -
  obtain v n i o' p where f: "version_accepted v" "container_frame c = (set_program v (container_frame (with_chunks n cs i o' p)))\<lparr>dc_parsed_signature_authority := True\<rparr>"
    "length cs = n" "tables_of view cs i o' p" by (rule parsed_frame [OF assms])
  note field = arg_cong [OF f(2)]
  have sel: "dc_chunks c = (if n = 0 then None else Some cs)" "dc_chunk_count c = int (length cs)" "dc_chunk_alloc c = int n"
    "dc_input_signature c = i" "dc_output_signature c = o'" "dc_patch_constant_signature c = p" "dc_has_executable_program c" "dc_parsed_signature_authority c"
    "dc_program_type c = drop_bit 16 v" "dc_major_version c = ucast (drop_bit 4 v AND 0xf)" "dc_minor_version c = ucast (v AND 0xf)"
    "dc_shader_type_model c = shader_model_text (drop_bit 16 v) (ucast (drop_bit 4 v AND 0xf)) (ucast (v AND 0xf))"
    using field [of dc_chunks] field [of dc_chunk_count] field [of dc_chunk_alloc] field [of dc_input_signature] field [of dc_output_signature]
      field [of dc_patch_constant_signature] field [of dc_has_executable_program] field [of dc_parsed_signature_authority] field [of dc_program_type]
      field [of dc_major_version] field [of dc_minor_version] field [of dc_shader_type_model]
    by (simp_all add: container_frame_def set_program_def Let_def with_chunks_def)
  show cs: "chunk_array c = cs" using f(3) sel(1) by (auto simp: chunk_array_def)
  have t: "signature_table_ok i" "signature_table_ok o'" "signature_table_ok p" using f(4) by (auto simp: tables_of_def signature_of_def)
  show "container_ok c"
    unfolding container_ok_def cs sel using parsed_program_ok [OF assms] t version_bounds [OF f(1)] f(3) sel(7,8) by simp
qed

lemma program_run_instruction:
  "program_run uc data e p r insts icb \<Longrightarrow> inst \<in> set insts \<Longrightarrow> \<not> in_is_customdata_continuation inst \<Longrightarrow> \<exists>p q r. instruction_at uc data p q r inst \<and> q \<le> e"
proof (induction rule: program_run.induct)
  case (step p q r i icb rows insts icbs)
  then consider "inst = i" | "inst \<in> set rows" | "inst \<in> set insts" by auto
  then show ?case
  proof cases
    case 2
    then have "inst = continuation_row i" using step.hyps(3) by (auto simp: icb_at_def split: if_splits)
    with step.prems(2) show ?thesis by (simp add: continuation_row_def)
  qed (use step in blast)+
qed simp

lemma program_run_continuation:
  "program_run uc data e p r insts icb \<Longrightarrow> inst \<in> set insts \<Longrightarrow> in_is_customdata_continuation inst \<Longrightarrow> in_opcode inst = 53"
  by (induction rule: program_run.induct) (auto simp: icb_at_def instruction_at_def continuation_row_def split: if_splits)

lemma parsed_program:
  assumes "container_parsed uc view cs ps c" "inst \<in> set (instrs c)"
  obtains ci v insts icb where "program_at uc view (chunk_start ci) (chunk_finish ci) v insts icb" "inst \<in> set insts" "chunk_finish ci \<le> length view"
proof -
  obtain pr where pr: "pr \<in> set ps" "inst \<in> set (fst (snd pr))" using assms(2) parsed_instrs [OF assms(1)] by (auto simp: split_def)
  obtain v insts icb where pr': "pr = (v, insts, icb)" by (cases pr)
  obtain i o' p n c1 where t: "tables_of view cs i o' p" "programs_of uc view cs ps (with_chunks n cs i o' p) c1" using assms(1) by (auto simp: container_parsed_def)
  then obtain ci where ci: "ci \<in> set (filter program_chunk cs)" "program_at uc view (chunk_start ci) (chunk_finish ci) v insts icb"
    using pr(1) unfolding pr' programs_of_def by (auto dest!: list_all2_set2 simp del: set_filter) (metis nth_mem)
  have "chunk_finish ci \<le> length view" using t(1) ci(1) by (auto simp: tables_of_def list_all_iff chunk_at_def)
  with ci(2) pr(2) that show ?thesis by (simp add: pr')
qed

lemma parsed_instruction:
  assumes "container_parsed uc view cs ps c" "inst \<in> set (instrs c)" "\<not> in_is_customdata_continuation inst"
  obtains p q r where "instruction_at uc view p q r inst" "q \<le> length view"
proof -
  obtain ci v insts icb where p: "program_at uc view (chunk_start ci) (chunk_finish ci) v insts icb" "inst \<in> set insts" "chunk_finish ci \<le> length view"
    by (rule parsed_program [OF assms(1,2)])
  then have "program_run uc view (chunk_finish ci) (chunk_start ci + 8) 0 insts icb" by (simp add: program_at_def)
  from program_run_instruction [OF this p(2) assms(3)] p(3) that show ?thesis by fastforce
qed

lemma parsed_continuation:
  assumes "container_parsed uc view cs ps c" "inst \<in> set (instrs c)" "in_opcode inst \<noteq> 53"
  shows "\<not> in_is_customdata_continuation inst"
  using parsed_program [OF assms(1,2)] program_run_continuation assms(3) unfolding program_at_def by metis

lemma unat_small: "n \<le> UINT32_MAX \<Longrightarrow> unat (of_nat n :: u32) = n"
  by (simp add: unat_of_nat take_bit_nat_eq_self)

lemma instruction_at_fields:
  assumes "instruction_at uc data p q r inst" "q \<le> length data" "length data \<le> UINT32_MAX"
  shows "unat (in_file_offset inst) = p \<and> unat (in_byte_length inst) = q - p"
proof -
  have f: "in_file_offset inst = of_nat p" "in_byte_length inst = of_nat (q - p)" "p < q" using assms(1) unfolding instruction_at_def by blast+
  have "p \<le> UINT32_MAX" "q - p \<le> UINT32_MAX" using assms(2,3) f(3) by auto
  then show ?thesis unfolding f(1,2) by (simp only: unat_small simp_thms)
qed

lemma parsed_view_size: "little_endian_host uc \<Longrightarrow> parsed_view uc stack bs view \<Longrightarrow> length view \<le> UINT32_MAX"
  using good_view_size [OF container_view_first_good] by (fastforce simp: parsed_view_def bslice_def)

section \<open>Properties\<close>





text \<open>
  C8: a parsed container describes the bytes of the first container of the buffer, whose hash verifies: its chunk table is
  the table of the header, its signatures hold the elements of the signature chunks in order, its instructions are
  those of the executable chunks, each starting where the one before ends, and its immediate constants are the words of
  the custom data blocks.
\<close>

theorem dxbc_parse_describes_container:
  assumes "byte_stream_contract uc" "little_endian_host uc" "dxbc_parse uc c_malloc stack (Buf bs) = Done c"
  shows "\<exists>view ps. parsed_view uc stack bs view \<and> container_parsed uc view (chunk_array c) ps c"
  using meetsD [OF dxbc_parse_meets [OF assms(1,2)] assms(3)] parsed_ok(2) by blast

theorem dxbc_parse_describes_container_witness:
  "\<exists>c view ps. parsed_view lp64_common (replicate 64 0) (stamp sample_container) view \<and> container_parsed lp64_common view (chunk_array c) ps c \<and>
     map in_opcode (instrs c) = [62]"
proof -
  obtain c where c: "dxbc_parse lp64_common (\<lambda>_. True) (replicate 64 0) (Buf (stamp sample_container)) = Done c" "map in_opcode (instrs c) = [62]"
    using sample_dxbc_parse [of "replicate 64 0"] by auto
  obtain view ps where v: "parsed_view lp64_common (replicate 64 0) (stamp sample_container) view" "container_parsed lp64_common view (chunk_array c) ps c"
    using dxbc_parse_describes_container [OF lp64_common_ok(4,1) c(1)] by blast
  show ?thesis by (intro exI conjI) (rule v c(2))+
qed



end
