(* ===== verification/Shader_Stage.thy ===== *)
theory Shader_Stage
  imports Prelude
begin

text \<open>
  \<open>src/common/shader_stage.c\<close>: the three integer domains of a shader stage (serialized pass slot,
  compiler program, DXBC program type), the maps between them and the validation of a D3D11
  stage tuple.  A C enumeration variable can hold any integer, so a value of an enumeration is
  a word and the enumerators are names of words.
\<close>

section \<open>Enumerators\<close>

abbreviation (input) UNITY_SERIALIZED_STAGE_VERTEX :: u32 where "UNITY_SERIALIZED_STAGE_VERTEX \<equiv> 0"
abbreviation (input) UNITY_SERIALIZED_STAGE_FRAGMENT :: u32 where "UNITY_SERIALIZED_STAGE_FRAGMENT \<equiv> 1"
abbreviation (input) UNITY_SERIALIZED_STAGE_GEOMETRY :: u32 where "UNITY_SERIALIZED_STAGE_GEOMETRY \<equiv> 2"
abbreviation (input) UNITY_SERIALIZED_STAGE_HULL :: u32 where "UNITY_SERIALIZED_STAGE_HULL \<equiv> 3"
abbreviation (input) UNITY_SERIALIZED_STAGE_DOMAIN :: u32 where "UNITY_SERIALIZED_STAGE_DOMAIN \<equiv> 4"
abbreviation (input) UNITY_SERIALIZED_STAGE_RAY_TRACING :: u32 where "UNITY_SERIALIZED_STAGE_RAY_TRACING \<equiv> 5"
abbreviation (input) UNITY_SERIALIZED_STAGE_COUNT :: u32 where "UNITY_SERIALIZED_STAGE_COUNT \<equiv> 6"

abbreviation (input) UNITY_COMPILER_PROGRAM_VERTEX :: u32 where "UNITY_COMPILER_PROGRAM_VERTEX \<equiv> 0"
abbreviation (input) UNITY_COMPILER_PROGRAM_FRAGMENT :: u32 where "UNITY_COMPILER_PROGRAM_FRAGMENT \<equiv> 1"
abbreviation (input) UNITY_COMPILER_PROGRAM_HULL :: u32 where "UNITY_COMPILER_PROGRAM_HULL \<equiv> 2"
abbreviation (input) UNITY_COMPILER_PROGRAM_DOMAIN :: u32 where "UNITY_COMPILER_PROGRAM_DOMAIN \<equiv> 3"
abbreviation (input) UNITY_COMPILER_PROGRAM_GEOMETRY :: u32 where "UNITY_COMPILER_PROGRAM_GEOMETRY \<equiv> 4"
abbreviation (input) UNITY_COMPILER_PROGRAM_RAY_TRACING :: u32 where "UNITY_COMPILER_PROGRAM_RAY_TRACING \<equiv> 6"

abbreviation (input) DXBC_PROGRAM_TYPE_PIXEL :: u32 where "DXBC_PROGRAM_TYPE_PIXEL \<equiv> 0"
abbreviation (input) DXBC_PROGRAM_TYPE_VERTEX :: u32 where "DXBC_PROGRAM_TYPE_VERTEX \<equiv> 1"
abbreviation (input) DXBC_PROGRAM_TYPE_GEOMETRY :: u32 where "DXBC_PROGRAM_TYPE_GEOMETRY \<equiv> 2"
abbreviation (input) DXBC_PROGRAM_TYPE_HULL :: u32 where "DXBC_PROGRAM_TYPE_HULL \<equiv> 3"
abbreviation (input) DXBC_PROGRAM_TYPE_DOMAIN :: u32 where "DXBC_PROGRAM_TYPE_DOMAIN \<equiv> 4"
abbreviation (input) DXBC_PROGRAM_TYPE_COMPUTE :: u32 where "DXBC_PROGRAM_TYPE_COMPUTE \<equiv> 5"

abbreviation (input) UNITY_GPU_PROGRAM_D3D11_VERTEX_SM40 :: u32 where "UNITY_GPU_PROGRAM_D3D11_VERTEX_SM40 \<equiv> 15"
abbreviation (input) UNITY_GPU_PROGRAM_D3D11_VERTEX_SM50 :: u32 where "UNITY_GPU_PROGRAM_D3D11_VERTEX_SM50 \<equiv> 16"
abbreviation (input) UNITY_GPU_PROGRAM_D3D11_PIXEL_SM40 :: u32 where "UNITY_GPU_PROGRAM_D3D11_PIXEL_SM40 \<equiv> 17"
abbreviation (input) UNITY_GPU_PROGRAM_D3D11_PIXEL_SM50 :: u32 where "UNITY_GPU_PROGRAM_D3D11_PIXEL_SM50 \<equiv> 18"
abbreviation (input) UNITY_GPU_PROGRAM_D3D11_GEOMETRY_SM40 :: u32 where "UNITY_GPU_PROGRAM_D3D11_GEOMETRY_SM40 \<equiv> 19"
abbreviation (input) UNITY_GPU_PROGRAM_D3D11_GEOMETRY_SM50 :: u32 where "UNITY_GPU_PROGRAM_D3D11_GEOMETRY_SM50 \<equiv> 20"
abbreviation (input) UNITY_GPU_PROGRAM_D3D11_HULL_SM50 :: u32 where "UNITY_GPU_PROGRAM_D3D11_HULL_SM50 \<equiv> 21"
abbreviation (input) UNITY_GPU_PROGRAM_D3D11_DOMAIN_SM50 :: u32 where "UNITY_GPU_PROGRAM_D3D11_DOMAIN_SM50 \<equiv> 22"

datatype stage_tuple_status =
    SHADER_STAGE_TUPLE_OK
  | SHADER_STAGE_TUPLE_INVALID_ARGUMENT
  | SHADER_STAGE_TUPLE_INVALID_SERIALIZED_STAGE
  | SHADER_STAGE_TUPLE_COMPILER_PROGRAM_MISMATCH
  | SHADER_STAGE_TUPLE_PROGRAM_MASK_MISMATCH
  | SHADER_STAGE_TUPLE_DXBC_PROGRAM_MISMATCH
  | SHADER_STAGE_TUPLE_GPU_PROGRAM_MISMATCH
  | SHADER_STAGE_TUPLE_SHADER_MODEL_MISMATCH

record stage_tuple =
  st_serialized_stage :: u32
  st_compiler_program :: u32
  st_serialized_program_mask :: u32
  st_gpu_program_type :: u32
  st_dxbc_program_type :: u32
  st_shader_model_major :: u8
  st_shader_model_minor :: u8

section \<open>The maps\<close>

text \<open>\<open>None\<close> is the return value \<open>false\<close>; the output pointers of the callers are never \<open>NULL\<close>.\<close>

definition shader_stage_serialized_to_compiler :: "u32 \<Rightarrow> u32 option" where
  "shader_stage_serialized_to_compiler serialized_stage = (let
     mapping = [UNITY_COMPILER_PROGRAM_VERTEX, UNITY_COMPILER_PROGRAM_FRAGMENT, UNITY_COMPILER_PROGRAM_GEOMETRY,
                UNITY_COMPILER_PROGRAM_HULL, UNITY_COMPILER_PROGRAM_DOMAIN, UNITY_COMPILER_PROGRAM_RAY_TRACING] in
     if unat serialized_stage \<ge> length mapping then None else Some (mapping ! unat serialized_stage))"

definition shader_stage_compiler_to_serialized :: "u32 \<Rightarrow> u32 option" where
  "shader_stage_compiler_to_serialized compiler_program =
     (if compiler_program = UNITY_COMPILER_PROGRAM_VERTEX then Some UNITY_SERIALIZED_STAGE_VERTEX
      else if compiler_program = UNITY_COMPILER_PROGRAM_FRAGMENT then Some UNITY_SERIALIZED_STAGE_FRAGMENT
      else if compiler_program = UNITY_COMPILER_PROGRAM_HULL then Some UNITY_SERIALIZED_STAGE_HULL
      else if compiler_program = UNITY_COMPILER_PROGRAM_DOMAIN then Some UNITY_SERIALIZED_STAGE_DOMAIN
      else if compiler_program = UNITY_COMPILER_PROGRAM_GEOMETRY then Some UNITY_SERIALIZED_STAGE_GEOMETRY
      else if compiler_program = UNITY_COMPILER_PROGRAM_RAY_TRACING then Some UNITY_SERIALIZED_STAGE_RAY_TRACING
      else None)"

definition shader_stage_serialized_to_dxbc :: "u32 \<Rightarrow> u32 option" where
  "shader_stage_serialized_to_dxbc serialized_stage =
     (if serialized_stage = UNITY_SERIALIZED_STAGE_VERTEX then Some DXBC_PROGRAM_TYPE_VERTEX
      else if serialized_stage = UNITY_SERIALIZED_STAGE_FRAGMENT then Some DXBC_PROGRAM_TYPE_PIXEL
      else if serialized_stage = UNITY_SERIALIZED_STAGE_GEOMETRY then Some DXBC_PROGRAM_TYPE_GEOMETRY
      else if serialized_stage = UNITY_SERIALIZED_STAGE_HULL then Some DXBC_PROGRAM_TYPE_HULL
      else if serialized_stage = UNITY_SERIALIZED_STAGE_DOMAIN then Some DXBC_PROGRAM_TYPE_DOMAIN
      else None)"

definition shader_stage_dxbc_to_serialized :: "u32 \<Rightarrow> u32 option" where
  "shader_stage_dxbc_to_serialized program_type =
     (if program_type = DXBC_PROGRAM_TYPE_PIXEL then Some UNITY_SERIALIZED_STAGE_FRAGMENT
      else if program_type = DXBC_PROGRAM_TYPE_VERTEX then Some UNITY_SERIALIZED_STAGE_VERTEX
      else if program_type = DXBC_PROGRAM_TYPE_GEOMETRY then Some UNITY_SERIALIZED_STAGE_GEOMETRY
      else if program_type = DXBC_PROGRAM_TYPE_HULL then Some UNITY_SERIALIZED_STAGE_HULL
      else if program_type = DXBC_PROGRAM_TYPE_DOMAIN then Some UNITY_SERIALIZED_STAGE_DOMAIN
      else None)"

definition shader_stage_serialized_program_mask_bit :: "u32 \<Rightarrow> u32 option" where
  "shader_stage_serialized_program_mask_bit serialized_stage =
     (if serialized_stage \<ge> UNITY_SERIALIZED_STAGE_COUNT then None
      else Some (push_bit (unat (serialized_stage + 1)) 1))"

definition gpu_program_matches :: "stage_tuple \<Rightarrow> bool" where
  "gpu_program_matches tuple = (let
     stage = st_serialized_stage tuple; gpu = st_gpu_program_type tuple;
     sm4 = (st_shader_model_major tuple = 4 \<and> st_shader_model_minor tuple \<le> 1);
     sm5 = (st_shader_model_major tuple = 5 \<and> st_shader_model_minor tuple = 0) in
     if gpu = UNITY_GPU_PROGRAM_D3D11_VERTEX_SM40 then stage = UNITY_SERIALIZED_STAGE_VERTEX \<and> sm4
     else if gpu = UNITY_GPU_PROGRAM_D3D11_VERTEX_SM50 then stage = UNITY_SERIALIZED_STAGE_VERTEX \<and> sm5
     else if gpu = UNITY_GPU_PROGRAM_D3D11_PIXEL_SM40 then stage = UNITY_SERIALIZED_STAGE_FRAGMENT \<and> sm4
     else if gpu = UNITY_GPU_PROGRAM_D3D11_PIXEL_SM50 then stage = UNITY_SERIALIZED_STAGE_FRAGMENT \<and> sm5
     else if gpu = UNITY_GPU_PROGRAM_D3D11_GEOMETRY_SM40 then stage = UNITY_SERIALIZED_STAGE_GEOMETRY \<and> sm4
     else if gpu = UNITY_GPU_PROGRAM_D3D11_GEOMETRY_SM50 then stage = UNITY_SERIALIZED_STAGE_GEOMETRY \<and> sm5
     else if gpu = UNITY_GPU_PROGRAM_D3D11_HULL_SM50 then stage = UNITY_SERIALIZED_STAGE_HULL \<and> sm5
     else if gpu = UNITY_GPU_PROGRAM_D3D11_DOMAIN_SM50 then stage = UNITY_SERIALIZED_STAGE_DOMAIN \<and> sm5
     else False)"

definition shader_stage_validate_d3d11_tuple :: "stage_tuple option \<Rightarrow> stage_tuple_status" where
  "shader_stage_validate_d3d11_tuple arg = (case arg of
       None \<Rightarrow> SHADER_STAGE_TUPLE_INVALID_ARGUMENT
     | Some tuple \<Rightarrow> (case shader_stage_serialized_to_compiler (st_serialized_stage tuple) of
         None \<Rightarrow> SHADER_STAGE_TUPLE_INVALID_SERIALIZED_STAGE
       | Some expected_compiler \<Rightarrow>
         if st_compiler_program tuple \<noteq> expected_compiler then SHADER_STAGE_TUPLE_COMPILER_PROGRAM_MISMATCH
         else if (case shader_stage_serialized_program_mask_bit (st_serialized_stage tuple) of
                    None \<Rightarrow> True
                  | Some expected_mask_bit \<Rightarrow> st_serialized_program_mask tuple AND expected_mask_bit = 0)
           then SHADER_STAGE_TUPLE_PROGRAM_MASK_MISMATCH
         else if (case shader_stage_serialized_to_dxbc (st_serialized_stage tuple) of
                    None \<Rightarrow> True
                  | Some expected_dxbc \<Rightarrow> st_dxbc_program_type tuple \<noteq> expected_dxbc)
           then SHADER_STAGE_TUPLE_DXBC_PROGRAM_MISMATCH
         else if st_shader_model_major tuple \<noteq> 4 \<and> st_shader_model_major tuple \<noteq> 5 \<or>
                 st_shader_model_major tuple = 4 \<and> st_shader_model_minor tuple > 1 \<or>
                 st_shader_model_major tuple = 5 \<and> st_shader_model_minor tuple \<noteq> 0
           then SHADER_STAGE_TUPLE_SHADER_MODEL_MISMATCH
         else if \<not> gpu_program_matches tuple then SHADER_STAGE_TUPLE_GPU_PROGRAM_MISMATCH
         else SHADER_STAGE_TUPLE_OK))"

fun shader_stage_tuple_status_name :: "stage_tuple_status \<Rightarrow> string" where
  "shader_stage_tuple_status_name SHADER_STAGE_TUPLE_OK = ''ok''"
| "shader_stage_tuple_status_name SHADER_STAGE_TUPLE_INVALID_ARGUMENT = ''invalid_argument''"
| "shader_stage_tuple_status_name SHADER_STAGE_TUPLE_INVALID_SERIALIZED_STAGE = ''invalid_serialized_stage''"
| "shader_stage_tuple_status_name SHADER_STAGE_TUPLE_COMPILER_PROGRAM_MISMATCH = ''compiler_program_mismatch''"
| "shader_stage_tuple_status_name SHADER_STAGE_TUPLE_PROGRAM_MASK_MISMATCH = ''program_mask_mismatch''"
| "shader_stage_tuple_status_name SHADER_STAGE_TUPLE_DXBC_PROGRAM_MISMATCH = ''dxbc_program_mismatch''"
| "shader_stage_tuple_status_name SHADER_STAGE_TUPLE_GPU_PROGRAM_MISMATCH = ''gpu_program_mismatch''"
| "shader_stage_tuple_status_name SHADER_STAGE_TUPLE_SHADER_MODEL_MISMATCH = ''shader_model_mismatch''"

section \<open>Partial inverses\<close>

text \<open>
  The contract of a pair of conversions between two integer domains: what one accepts the other
  undoes.
\<close>

locale stage_conversion =
  fixes there :: "u32 \<Rightarrow> u32 option"
    and back_again :: "u32 \<Rightarrow> u32 option"
  assumes inverse: "there x = Some y \<longleftrightarrow> back_again y = Some x"
begin

lemma injective: "there x = Some y \<Longrightarrow> there x' = Some y \<Longrightarrow> x = x'"
  by (metis inverse option.inject)

lemma round_trip:
  assumes "there x = Some y"
  shows "Option.bind (there x) back_again = Some x"
  using iffD1 [OF inverse assms] assms by simp

lemma bijective: "bij_betw (the \<circ> there) (dom there) (dom back_again)"
  by (rule bij_betw_byWitness [where f' = "the \<circ> back_again"]) (auto simp: dom_def, (metis inverse option.sel)+)

end

lemma u32_of_unat: "unat (x :: u32) = n \<Longrightarrow> x = of_nat n"
  by auto

lemma u32_below_six: "unat (x :: u32) < 6 \<longleftrightarrow> x \<in> {0, 1, 2, 3, 4, 5}"
proof
  assume "unat x < 6"
  then consider "unat x = 0" | "unat x = 1" | "unat x = 2" | "unat x = 3" | "unat x = 4" | "unat x = 5" by linarith
  then show "x \<in> {0, 1, 2, 3, 4, 5}" by cases (auto dest!: u32_of_unat)
qed auto

lemma serialized_to_compiler_cases:
  "shader_stage_serialized_to_compiler x =
    (if x = 0 then Some 0 else if x = 1 then Some 1 else if x = 2 then Some 4 else if x = 3 then Some 2
     else if x = 4 then Some 3 else if x = 5 then Some 6 else None)"
  using u32_below_six [of x] by (auto simp: shader_stage_serialized_to_compiler_def Let_def not_le)

interpretation compiler_stage: stage_conversion shader_stage_serialized_to_compiler shader_stage_compiler_to_serialized
  by unfold_locales (auto simp: serialized_to_compiler_cases shader_stage_compiler_to_serialized_def)

interpretation dxbc_stage: stage_conversion shader_stage_serialized_to_dxbc shader_stage_dxbc_to_serialized
  by unfold_locales (auto simp: shader_stage_serialized_to_dxbc_def shader_stage_dxbc_to_serialized_def)

lemma mask_bit_test:
  assumes "unat s < 6"
  shows "(case shader_stage_serialized_program_mask_bit s of None \<Rightarrow> True | Some b \<Rightarrow> m AND b = 0) \<longleftrightarrow> \<not> bit m (unat s + 1)"
proof -
  have "\<not> s \<ge> 6" using assms by (simp add: word_le_nat_alt)
  moreover have "unat (s + 1) = unat s + 1" using assms by (simp add: unat_word_ariths)
  ultimately show ?thesis
    using and_exp_eq_0_iff_not_bit [of m "unat s + 1"]
    by (simp add: shader_stage_serialized_program_mask_bit_def push_bit_eq_mult)
qed

text \<open>
  The admissible tuples as a table: serialized slot, compiler program, DXBC type, GPU program type,
  shader model major and greatest minor.
\<close>

definition d3d11_rows :: "(u32 \<times> u32 \<times> u32 \<times> u32 \<times> u8 \<times> u8) list" where
  "d3d11_rows = [
     (0, 0, 1, 15, 4, 1), (0, 0, 1, 16, 5, 0),
     (1, 1, 0, 17, 4, 1), (1, 1, 0, 18, 5, 0),
     (2, 4, 2, 19, 4, 1), (2, 4, 2, 20, 5, 0),
     (3, 2, 3, 21, 5, 0), (4, 3, 4, 22, 5, 0)]"

definition d3d11_tuple :: "stage_tuple \<Rightarrow> bool" where
  "d3d11_tuple t \<longleftrightarrow> (\<exists>(slot, compiler, dxbc, gpu, major, minor) \<in> set d3d11_rows.
     st_serialized_stage t = slot \<and> st_compiler_program t = compiler \<and> st_dxbc_program_type t = dxbc \<and>
     st_gpu_program_type t = gpu \<and> st_shader_model_major t = major \<and> st_shader_model_minor t \<le> minor \<and>
     bit (st_serialized_program_mask t) (unat slot + 1))"

lemma gpu_program_matches_stage:
  fixes t :: stage_tuple
  defines "sm4 \<equiv> st_shader_model_major t = 4 \<and> st_shader_model_minor t \<le> 1"
    and "sm5 \<equiv> st_shader_model_major t = 5 \<and> st_shader_model_minor t = 0"
  shows "st_serialized_stage t = 0 \<Longrightarrow> gpu_program_matches t \<longleftrightarrow> st_gpu_program_type t = 15 \<and> sm4 \<or> st_gpu_program_type t = 16 \<and> sm5"
    "st_serialized_stage t = 1 \<Longrightarrow> gpu_program_matches t \<longleftrightarrow> st_gpu_program_type t = 17 \<and> sm4 \<or> st_gpu_program_type t = 18 \<and> sm5"
    "st_serialized_stage t = 2 \<Longrightarrow> gpu_program_matches t \<longleftrightarrow> st_gpu_program_type t = 19 \<and> sm4 \<or> st_gpu_program_type t = 20 \<and> sm5"
    "st_serialized_stage t = 3 \<Longrightarrow> gpu_program_matches t \<longleftrightarrow> st_gpu_program_type t = 21 \<and> sm5"
    "st_serialized_stage t = 4 \<Longrightarrow> gpu_program_matches t \<longleftrightarrow> st_gpu_program_type t = 22 \<and> sm5"
  unfolding gpu_program_matches_def Let_def sm4_def [symmetric] sm5_def [symmetric] by auto

section \<open>Properties\<close>

text \<open>
  The conversions between the serialized, compiler and DXBC stage numberings are mutually inverse:
  each pair is a bijection between the values the two directions accept.
\<close>

lemma stage_maps_are_inverse:
  "(shader_stage_serialized_to_compiler s = Some c \<longleftrightarrow> shader_stage_compiler_to_serialized c = Some s) \<and>
   (shader_stage_serialized_to_dxbc s = Some d \<longleftrightarrow> shader_stage_dxbc_to_serialized d = Some s) \<and>
   bij_betw (the \<circ> shader_stage_serialized_to_compiler) (dom shader_stage_serialized_to_compiler) (dom shader_stage_compiler_to_serialized) \<and>
   bij_betw (the \<circ> shader_stage_serialized_to_dxbc) (dom shader_stage_serialized_to_dxbc) (dom shader_stage_dxbc_to_serialized)"
  by (intro conjI compiler_stage.inverse dxbc_stage.inverse compiler_stage.bijective dxbc_stage.bijective)

text \<open>
  Tuple validation accepts exactly the rows of the D3D11 table with the presence bit of their slot
  set: every stage agrees in all three numberings, and the GPU program type fixes the shader model.
\<close>

lemma stage_tuple_ok_iff:
  "shader_stage_validate_d3d11_tuple (Some t) = SHADER_STAGE_TUPLE_OK \<longleftrightarrow> d3d11_tuple t"
proof (cases "st_serialized_stage t \<in> {0, 1, 2, 3, 4}")
  case True
  have minor: "m \<le> (0 :: u8) \<longleftrightarrow> m = 0" for m by simp
  from True have six: "unat (st_serialized_stage t) < 6" by (auto simp: u32_below_six)
  from True show ?thesis
    unfolding shader_stage_validate_d3d11_tuple_def option.case mask_bit_test [OF six]
    by (elim insertE emptyE)
      (simp_all add: serialized_to_compiler_cases minor shader_stage_serialized_to_dxbc_def gpu_program_matches_stage
        d3d11_tuple_def d3d11_rows_def not_less, auto)
next
  case False
  then show ?thesis
    by (auto simp: shader_stage_validate_d3d11_tuple_def shader_stage_serialized_to_dxbc_def d3d11_tuple_def d3d11_rows_def
        split: option.splits if_splits)
qed

end
