(* ===== verification/Stage_Contract.thy ===== *)
theory Stage_Contract
  imports Dxbc_Document Shader_Stage
begin

text \<open>
  \<open>src/dxbc/dxbc_stage_contract.c\<close>: the stage contract of an executable program, decoded from the
  raw instruction tokens of a document.  The contract under construction and the local flags
  of the scan form one state; a \<open>false\<close> return is a \<open>Fail\<close> with the diagnostic.  The caller
  discards the contract of a failed scan, so the state after a failure is not part of the model.
\<close>

section \<open>Opcodes and enumerators\<close>

abbreviation (input) OP_CUT :: u32 where "OP_CUT \<equiv> 9"
abbreviation (input) OP_EMIT :: u32 where "OP_EMIT \<equiv> 19"
abbreviation (input) OP_DCL_IMMEDIATE_CONSTANT_BUFFER :: u32 where "OP_DCL_IMMEDIATE_CONSTANT_BUFFER \<equiv> 53"
abbreviation (input) OP_DCL_RESOURCE :: u32 where "OP_DCL_RESOURCE \<equiv> 88"
abbreviation (input) OP_DCL_OUTPUT_TOPOLOGY :: u32 where "OP_DCL_OUTPUT_TOPOLOGY \<equiv> 92"
abbreviation (input) OP_DCL_INPUT_PRIMITIVE :: u32 where "OP_DCL_INPUT_PRIMITIVE \<equiv> 93"
abbreviation (input) OP_DCL_MAX_OUTPUT_VERTEX_COUNT :: u32 where "OP_DCL_MAX_OUTPUT_VERTEX_COUNT \<equiv> 94"
abbreviation (input) OP_DCL_GLOBAL_FLAGS :: u32 where "OP_DCL_GLOBAL_FLAGS \<equiv> 106"
abbreviation (input) OP_HS_DECLS :: u32 where "OP_HS_DECLS \<equiv> 113"
abbreviation (input) OP_HS_CONTROL_POINT_PHASE :: u32 where "OP_HS_CONTROL_POINT_PHASE \<equiv> 114"
abbreviation (input) OP_HS_FORK_PHASE :: u32 where "OP_HS_FORK_PHASE \<equiv> 115"
abbreviation (input) OP_HS_JOIN_PHASE :: u32 where "OP_HS_JOIN_PHASE \<equiv> 116"
abbreviation (input) OP_EMIT_STREAM :: u32 where "OP_EMIT_STREAM \<equiv> 117"
abbreviation (input) OP_CUT_STREAM :: u32 where "OP_CUT_STREAM \<equiv> 118"
abbreviation (input) OP_DCL_STREAM :: u32 where "OP_DCL_STREAM \<equiv> 143"
abbreviation (input) OP_DCL_INPUT_CONTROL_POINT_COUNT :: u32 where "OP_DCL_INPUT_CONTROL_POINT_COUNT \<equiv> 147"
abbreviation (input) OP_DCL_OUTPUT_CONTROL_POINT_COUNT :: u32 where "OP_DCL_OUTPUT_CONTROL_POINT_COUNT \<equiv> 148"
abbreviation (input) OP_DCL_TESSELLATOR_DOMAIN :: u32 where "OP_DCL_TESSELLATOR_DOMAIN \<equiv> 149"
abbreviation (input) OP_DCL_TESSELLATOR_PARTITIONING :: u32 where "OP_DCL_TESSELLATOR_PARTITIONING \<equiv> 150"
abbreviation (input) OP_DCL_TESSELLATOR_OUTPUT_PRIMITIVE :: u32 where "OP_DCL_TESSELLATOR_OUTPUT_PRIMITIVE \<equiv> 151"
abbreviation (input) OP_DCL_HS_MAX_TESS_FACTOR :: u32 where "OP_DCL_HS_MAX_TESS_FACTOR \<equiv> 152"
abbreviation (input) OP_DCL_HS_FORK_PHASE_INSTANCE_COUNT :: u32 where "OP_DCL_HS_FORK_PHASE_INSTANCE_COUNT \<equiv> 153"
abbreviation (input) OP_DCL_HS_JOIN_PHASE_INSTANCE_COUNT :: u32 where "OP_DCL_HS_JOIN_PHASE_INSTANCE_COUNT \<equiv> 154"
abbreviation (input) OP_DCL_THREAD_GROUP :: u32 where "OP_DCL_THREAD_GROUP \<equiv> 155"
abbreviation (input) OP_DCL_TGSM_RAW :: u32 where "OP_DCL_TGSM_RAW \<equiv> 159"
abbreviation (input) OP_DCL_TGSM_STRUCTURED :: u32 where "OP_DCL_TGSM_STRUCTURED \<equiv> 160"
abbreviation (input) OP_DCL_RESOURCE_STRUCTURED :: u32 where "OP_DCL_RESOURCE_STRUCTURED \<equiv> 162"
abbreviation (input) OP_SYNC :: u32 where "OP_SYNC \<equiv> 190"
abbreviation (input) OP_DCL_GS_INSTANCE_COUNT :: u32 where "OP_DCL_GS_INSTANCE_COUNT \<equiv> 206"

abbreviation (input) DXBC_PROGRAM_TYPE_COUNT :: u32 where "DXBC_PROGRAM_TYPE_COUNT \<equiv> 6"
abbreviation (input) DXBC_PROGRAM_TYPE_INVALID :: u32 where "DXBC_PROGRAM_TYPE_INVALID \<equiv> 0xffff"

datatype contract_status =
    DXBC_STAGE_CONTRACT_OK
  | DXBC_STAGE_CONTRACT_INVALID_ARGUMENT
  | DXBC_STAGE_CONTRACT_OUT_OF_MEMORY
  | DXBC_STAGE_CONTRACT_MISSING_EXECUTABLE
  | DXBC_STAGE_CONTRACT_MULTIPLE_EXECUTABLES
  | DXBC_STAGE_CONTRACT_INVALID_VERSION_TOKEN
  | DXBC_STAGE_CONTRACT_UNSUPPORTED_PROGRAM
  | DXBC_STAGE_CONTRACT_INVALID_DECLARATION_LENGTH
  | DXBC_STAGE_CONTRACT_INVALID_DECLARATION_BITS
  | DXBC_STAGE_CONTRACT_INVALID_DECLARATION_VALUE
  | DXBC_STAGE_CONTRACT_DUPLICATE_DECLARATION
  | DXBC_STAGE_CONTRACT_DECLARATION_ORDER
  | DXBC_STAGE_CONTRACT_DECLARATION_STAGE_MISMATCH
  | DXBC_STAGE_CONTRACT_MISSING_DECLARATION
  | DXBC_STAGE_CONTRACT_PHASE_ORDER
  | DXBC_STAGE_CONTRACT_CONTAINER_MISMATCH

record contract_diagnostic =
  cd_status :: contract_status
  cd_chunk_index :: nat
  cd_instruction_index :: nat
  cd_opcode :: u32
  cd_expected :: nat
  cd_actual :: nat

datatype hull_phase_kind = DXBC_HULL_PHASE_CONTROL_POINT | DXBC_HULL_PHASE_FORK | DXBC_HULL_PHASE_JOIN

datatype geometry_effect_kind = DXBC_GEOMETRY_EFFECT_APPEND | DXBC_GEOMETRY_EFFECT_RESTART_STRIP

record geometry_effect =
  ge_kind :: geometry_effect_kind
  ge_instruction_index :: nat
  ge_stream_id :: u8
  ge_explicit_stream :: bool

record hull_phase =
  hp_kind :: hull_phase_kind
  hp_marker_instruction_index :: nat
  hp_first_instruction_index :: nat
  hp_end_instruction_index :: nat
  hp_instance_count_declared :: bool
  hp_instance_count :: u32

record shared_memory =
  sm_instruction_index :: nat
  sm_register_id :: u32
  sm_structured :: bool
  sm_byte_stride :: u32
  sm_element_count :: u32
  sm_byte_count :: nat

record memory_barrier =
  mb_instruction_index :: nat
  mb_flags :: u8

text \<open>
  The contract.  \<open>max_tessellation_factor\<close>, a \<open>float\<close> with the bits of its neighbour, is
  represented by its exact value in units of \<open>2 ^ -149\<close>.
\<close>

record stage_contract =
  sc_version_token :: u32
  sc_program_type :: u32
  sc_shader_model_major :: u8
  sc_shader_model_minor :: u8
  sc_executable_chunk_index :: nat
  sc_first_instruction_index :: nat
  sc_end_instruction_index :: nat
  sc_has_input_primitive :: bool
  sc_input_primitive :: u32
  sc_has_output_topology :: bool
  sc_output_topology :: u32
  sc_output_topology_stream_mask :: u8
  sc_has_max_output_vertex_count :: bool
  sc_max_output_vertex_count :: u32
  sc_has_geometry_instance_count :: bool
  sc_geometry_instance_count :: u32
  sc_declared_stream_mask :: u8
  sc_referenced_stream_mask :: u8
  sc_geometry_effects :: "geometry_effect list"
  sc_geometry_effect_capacity :: nat
  sc_has_input_control_point_count :: bool
  sc_input_control_point_count :: u32
  sc_has_output_control_point_count :: bool
  sc_output_control_point_count :: u32
  sc_has_tessellator_domain :: bool
  sc_tessellator_domain :: u32
  sc_has_tessellator_partitioning :: bool
  sc_tessellator_partitioning :: u32
  sc_has_tessellator_output_primitive :: bool
  sc_tessellator_output_primitive :: u32
  sc_has_max_tessellation_factor :: bool
  sc_max_tessellation_factor_bits :: u32
  sc_max_tessellation_factor :: int
  sc_hull_phases :: "hull_phase list"
  sc_hull_phase_capacity :: nat
  sc_has_thread_group_size :: bool
  sc_thread_group_size :: "u32 list"
  sc_thread_group_declaration_instruction_index :: nat
  sc_thread_group_shared_memory_bytes :: nat
  sc_thread_group_shared_memory :: "shared_memory list"
  sc_thread_group_shared_memory_capacity :: nat
  sc_memory_barriers :: "memory_barrier list"
  sc_memory_barrier_capacity :: nat

text \<open>The local variables of the scan over the instructions.\<close>

record scan_state =
  ss_contract :: stage_contract
  ss_seen_hs_decls :: bool
  ss_seen_phase :: bool
  ss_phase_has_executable :: bool
  ss_seen_any_executable :: bool
  ss_hull_phase_order :: nat
  ss_seen_control_point_phase :: bool
  ss_current_geometry_stream :: u8

abbreviation (input) sizeof_geometry_effect :: nat where "sizeof_geometry_effect \<equiv> 12"
abbreviation (input) sizeof_hull_phase :: nat where "sizeof_hull_phase \<equiv> 24"
abbreviation (input) sizeof_shared_memory :: nat where "sizeof_shared_memory \<equiv> 24"
abbreviation (input) sizeof_memory_barrier :: nat where "sizeof_memory_barrier \<equiv> 8"

section \<open>Helpers\<close>

definition dxbc_geometry_input_vertex_count :: "u32 \<Rightarrow> nat" where
  "dxbc_geometry_input_vertex_count primitive =
     (if primitive = 1 then 1 else if primitive = 2 then 2 else if primitive = 3 then 3
      else if primitive = 6 then 4 else if primitive = 7 then 6 else 0)"

definition contract_fail ::
  "contract_status \<Rightarrow> nat \<Rightarrow> nat \<Rightarrow> u32 \<Rightarrow> nat \<Rightarrow> nat \<Rightarrow> (contract_diagnostic, 'a) outcome" where
  "contract_fail status chunk_index instruction_index opcode expected actual =
     Fail \<lparr>cd_status = status, cd_chunk_index = chunk_index, cd_instruction_index = instruction_index,
           cd_opcode = opcode, cd_expected = expected, cd_actual = actual\<rparr>"

text \<open>The failures located at an instruction.\<close>

definition fail_at ::
  "document_instruction \<Rightarrow> contract_status \<Rightarrow> nat \<Rightarrow> nat \<Rightarrow> (contract_diagnostic, 'a) outcome" where
  "fail_at inst status expected actual =
     contract_fail status (inst_chunk_index inst) (inst_instruction_index inst) (inst_opcode inst) expected actual"

definition dxbc_stage_contract_init :: stage_contract where
  "dxbc_stage_contract_init = \<lparr>sc_version_token = 0, sc_program_type = DXBC_PROGRAM_TYPE_INVALID,
     sc_shader_model_major = 0, sc_shader_model_minor = 0, sc_executable_chunk_index = UINT32_MAX,
     sc_first_instruction_index = 0, sc_end_instruction_index = 0, sc_has_input_primitive = False,
     sc_input_primitive = 0, sc_has_output_topology = False, sc_output_topology = 0,
     sc_output_topology_stream_mask = 0, sc_has_max_output_vertex_count = False,
     sc_max_output_vertex_count = 0, sc_has_geometry_instance_count = False,
     sc_geometry_instance_count = 0, sc_declared_stream_mask = 0, sc_referenced_stream_mask = 0,
     sc_geometry_effects = [], sc_geometry_effect_capacity = 0,
     sc_has_input_control_point_count = False, sc_input_control_point_count = 0,
     sc_has_output_control_point_count = False, sc_output_control_point_count = 0,
     sc_has_tessellator_domain = False, sc_tessellator_domain = 0,
     sc_has_tessellator_partitioning = False, sc_tessellator_partitioning = 0,
     sc_has_tessellator_output_primitive = False, sc_tessellator_output_primitive = 0,
     sc_has_max_tessellation_factor = False, sc_max_tessellation_factor_bits = 0,
     sc_max_tessellation_factor = 0, sc_hull_phases = [], sc_hull_phase_capacity = 0,
     sc_has_thread_group_size = False, sc_thread_group_size = [0, 0, 0],
     sc_thread_group_declaration_instruction_index = 0, sc_thread_group_shared_memory_bytes = 0,
     sc_thread_group_shared_memory = [], sc_thread_group_shared_memory_capacity = 0,
     sc_memory_barriers = [], sc_memory_barrier_capacity = 0\<rparr>"

definition dxbc_stage_contract_free :: "stage_contract \<Rightarrow> stage_contract" where
  "dxbc_stage_contract_free contract = dxbc_stage_contract_init"

text \<open>
  \<open>grow uc initial size count capacity\<close>: the capacity after the test of an append, \<open>None\<close> when the
  request overflows or is refused.
\<close>

definition grow :: "unity_common \<Rightarrow> nat \<Rightarrow> nat \<Rightarrow> nat \<Rightarrow> nat \<Rightarrow> nat option" where
  "grow uc initial element_size count old_capacity =
     (if count = old_capacity then
        let new_capacity = (if old_capacity = 0 then initial else old_capacity * 2 mod 2 ^ 64) in
        if new_capacity < old_capacity \<or> new_capacity > SIZE_MAX div element_size \<or>
           \<not> mem_realloc uc (old_capacity * element_size) (new_capacity * element_size)
        then None else Some new_capacity
      else Some old_capacity)"

definition reserve_execution_array :: "unity_common \<Rightarrow> nat \<Rightarrow> nat \<Rightarrow> nat \<Rightarrow> nat option" where
  "reserve_execution_array uc old_capacity count element_size =
     (if count < old_capacity then Some old_capacity
      else let new_capacity = (if old_capacity = 0 then 8 else old_capacity * 2 mod 2 ^ 64) in
        if new_capacity \<le> old_capacity \<or> new_capacity > SIZE_MAX div element_size \<or>
           \<not> mem_realloc uc (old_capacity * element_size) (new_capacity * element_size)
        then None else Some new_capacity)"

definition instruction_token ::
  "unity_common \<Rightarrow> bytes \<Rightarrow> document_instruction \<Rightarrow> nat \<Rightarrow> (contract_diagnostic, u32) outcome" where
  "instruction_token uc owned inst index =
     on_fail (dxbc_document_instruction_token uc owned (Some inst) index)
       (fail_at inst DXBC_STAGE_CONTRACT_INVALID_DECLARATION_LENGTH (index + 1) (unat (inst_token_count inst)))"

definition declaration_header ::
  "unity_common \<Rightarrow> bytes \<Rightarrow> document_instruction \<Rightarrow> u32 \<Rightarrow> (contract_diagnostic, u32) outcome" where
  "declaration_header uc owned inst expected_length =
     obind (instruction_token uc owned inst 0) (\<lambda>token.
     if inst_uses_customdata_length inst \<or> inst_extended_opcode_token_count inst \<noteq> 0 \<or>
        inst_token_count inst \<noteq> expected_length \<or> inst_encoded_length inst \<noteq> expected_length
     then fail_at inst DXBC_STAGE_CONTRACT_INVALID_DECLARATION_LENGTH (unat expected_length) (unat (inst_token_count inst))
     else if token AND 0x80000000 \<noteq> 0
     then fail_at inst DXBC_STAGE_CONTRACT_INVALID_DECLARATION_BITS 0 (unat (token AND 0x80000000))
     else Done (drop_bit 11 token AND 0x1fff))"

definition declaration_control ::
  "unity_common \<Rightarrow> bytes \<Rightarrow> document_instruction \<Rightarrow> u32 \<Rightarrow> (contract_diagnostic, u32) outcome" where
  "declaration_control uc owned inst expected_length = declaration_header uc owned inst expected_length"

text \<open>The test of the control bits that four declarations share.\<close>

definition require_zero :: "document_instruction \<Rightarrow> u32 \<Rightarrow> (contract_diagnostic, unit) outcome" where
  "require_zero inst control =
     (if control \<noteq> 0 then fail_at inst DXBC_STAGE_CONTRACT_INVALID_DECLARATION_BITS 0 (unat control) else Done ())"

definition scalar_declaration ::
  "unity_common \<Rightarrow> bytes \<Rightarrow> document_instruction \<Rightarrow> (contract_diagnostic, u32) outcome" where
  "scalar_declaration uc owned inst =
     obind (declaration_header uc owned inst 2) (\<lambda>control.
     obind (require_zero inst control) (\<lambda>_. instruction_token uc owned inst 1))"

definition valid_input_primitive :: "u32 \<Rightarrow> bool" where
  "valid_input_primitive v \<longleftrightarrow> v = 1 \<or> v = 2 \<or> v = 3 \<or> v = 6 \<or> v = 7"

definition valid_output_topology :: "u32 \<Rightarrow> bool" where
  "valid_output_topology v \<longleftrightarrow> v = 1 \<or> v = 3 \<or> v = 5"

definition valid_domain :: "u32 \<Rightarrow> bool" where
  "valid_domain v \<longleftrightarrow> v \<ge> 1 \<and> v \<le> 3"

definition valid_partitioning :: "u32 \<Rightarrow> bool" where
  "valid_partitioning v \<longleftrightarrow> v \<ge> 1 \<and> v \<le> 4"

definition valid_output_primitive :: "u32 \<Rightarrow> bool" where
  "valid_output_primitive v \<longleftrightarrow> v \<ge> 1 \<and> v \<le> 4"

definition is_declaration_opcode :: "u32 \<Rightarrow> bool" where
  "is_declaration_opcode opcode \<longleftrightarrow> opcode = OP_DCL_IMMEDIATE_CONSTANT_BUFFER \<or>
     opcode \<ge> OP_DCL_RESOURCE \<and> opcode \<le> OP_DCL_GLOBAL_FLAGS \<or>
     opcode \<ge> OP_DCL_STREAM \<and> opcode \<le> OP_DCL_RESOURCE_STRUCTURED \<or>
     opcode = OP_DCL_GS_INSTANCE_COUNT"

definition is_hull_phase_marker :: "u32 \<Rightarrow> bool" where
  "is_hull_phase_marker opcode \<longleftrightarrow> opcode \<ge> OP_HS_CONTROL_POINT_PHASE \<and> opcode \<le> OP_HS_JOIN_PHASE"

section \<open>Geometry effects and streams\<close>

definition stream_bit :: "u8 \<Rightarrow> u8" where
  "stream_bit stream = ucast (push_bit (unat stream) 1 :: u32)"

definition append_geometry_effect ::
  "unity_common \<Rightarrow> stage_contract \<Rightarrow> geometry_effect_kind \<Rightarrow> u8 \<Rightarrow> bool \<Rightarrow> document_instruction \<Rightarrow> (contract_diagnostic, stage_contract) outcome" where
  "append_geometry_effect uc ct kind stream explicit_stream inst =
     (case grow uc 8 sizeof_geometry_effect (length (sc_geometry_effects ct)) (sc_geometry_effect_capacity ct) of
        None \<Rightarrow> fail_at inst DXBC_STAGE_CONTRACT_OUT_OF_MEMORY 0 0
      | Some capacity \<Rightarrow> Done (ct\<lparr>sc_geometry_effect_capacity := capacity,
          sc_geometry_effects := sc_geometry_effects ct @ [\<lparr>ge_kind = kind,
            ge_instruction_index = inst_instruction_index inst, ge_stream_id = stream, ge_explicit_stream = explicit_stream\<rparr>],
          sc_referenced_stream_mask := sc_referenced_stream_mask ct OR stream_bit stream\<rparr>))"

definition decode_geometry_effect ::
  "unity_common \<Rightarrow> bytes \<Rightarrow> document_instruction \<Rightarrow> stage_contract \<Rightarrow> geometry_effect_kind \<Rightarrow> bool \<Rightarrow> (contract_diagnostic, stage_contract) outcome" where
  "decode_geometry_effect uc owned inst ct kind explicit_stream =
     obind (declaration_header uc owned inst (if explicit_stream then 3 else 1)) (\<lambda>control.
     obind (require_zero inst control) (\<lambda>_.
     obind (if explicit_stream then
              obind (instruction_token uc owned inst 1) (\<lambda>operand.
              obind (instruction_token uc owned inst 2) (\<lambda>stream.
              if operand \<noteq> 0x00110000 then
                fail_at inst DXBC_STAGE_CONTRACT_INVALID_DECLARATION_BITS 0x00110000 (unat operand)
              else if stream > 3 then
                fail_at inst DXBC_STAGE_CONTRACT_INVALID_DECLARATION_VALUE 3 (unat stream)
              else Done stream))
            else Done 0) (\<lambda>stream.
       append_geometry_effect uc ct kind (ucast (stream :: u32)) explicit_stream inst)))"

definition decode_stream ::
  "unity_common \<Rightarrow> bytes \<Rightarrow> document_instruction \<Rightarrow> stage_contract \<Rightarrow> (contract_diagnostic, stage_contract \<times> u8) outcome" where
  "decode_stream uc owned inst ct =
     obind (declaration_header uc owned inst 3) (\<lambda>control.
     obind (instruction_token uc owned inst 1) (\<lambda>operand.
     obind (instruction_token uc owned inst 2) (\<lambda>stream.
     if control \<noteq> 0 then fail_at inst DXBC_STAGE_CONTRACT_INVALID_DECLARATION_BITS 0 (unat control)
     else if operand \<noteq> 0x00110000 then
       fail_at inst DXBC_STAGE_CONTRACT_INVALID_DECLARATION_BITS 0x00110000 (unat operand)
     else if stream > 3 then fail_at inst DXBC_STAGE_CONTRACT_INVALID_DECLARATION_VALUE 3 (unat stream)
     else let b = stream_bit (ucast stream) in
     if sc_declared_stream_mask ct AND b \<noteq> 0 then
       fail_at inst DXBC_STAGE_CONTRACT_DUPLICATE_DECLARATION 0 (unat stream)
     else Done (ct\<lparr>sc_declared_stream_mask := sc_declared_stream_mask ct OR b\<rparr>, ucast stream))))"

section \<open>Declarations with one value\<close>

text \<open>The presence flag is an argument; the caller stores the flag and the value on success.\<close>

definition decode_enum_declaration ::
  "unity_common \<Rightarrow> bytes \<Rightarrow> document_instruction \<Rightarrow> bool \<Rightarrow> (u32 \<Rightarrow> bool) \<Rightarrow> (contract_diagnostic, u32) outcome" where
  "decode_enum_declaration uc owned inst present validator =
     obind (declaration_control uc owned inst 1) (\<lambda>control.
     if present then fail_at inst DXBC_STAGE_CONTRACT_DUPLICATE_DECLARATION 1 2
     else if \<not> validator control then
       fail_at inst DXBC_STAGE_CONTRACT_INVALID_DECLARATION_VALUE 0 (unat control)
     else Done control)"

definition decode_count_declaration ::
  "unity_common \<Rightarrow> bytes \<Rightarrow> document_instruction \<Rightarrow> bool \<Rightarrow> u32 \<Rightarrow> bool \<Rightarrow> (contract_diagnostic, u32) outcome" where
  "decode_count_declaration uc owned inst scalar_payload maximum present =
     obind (if scalar_payload then scalar_declaration uc owned inst else declaration_control uc owned inst 1) (\<lambda>value.
     if present then fail_at inst DXBC_STAGE_CONTRACT_DUPLICATE_DECLARATION 1 2
     else if value = 0 \<or> value > maximum then
       fail_at inst DXBC_STAGE_CONTRACT_INVALID_DECLARATION_VALUE (unat maximum) (unat value)
     else Done value)"

text \<open>
  The value of a finite IEEE single in units of \<open>2 ^ -149\<close>; \<open>1.0f\<close> is \<open>2 ^ 149\<close> and \<open>64.0f\<close>
  is \<open>2 ^ 155\<close>.
\<close>

definition single_scaled :: "u32 \<Rightarrow> int" where
  "single_scaled v = (let
     e = unat (drop_bit 23 v AND 0xff);
     m = int (unat (v AND 0x7fffff));
     magnitude = (if e = 0 then m else (2 ^ 23 + m) * 2 ^ (e - 1)) in
     if v AND 0x80000000 \<noteq> 0 then - magnitude else magnitude)"

definition decode_max_tess_factor ::
  "unity_common \<Rightarrow> bytes \<Rightarrow> document_instruction \<Rightarrow> bool \<Rightarrow> (contract_diagnostic, u32) outcome" where
  "decode_max_tess_factor uc owned inst present =
     (if present then fail_at inst DXBC_STAGE_CONTRACT_DUPLICATE_DECLARATION 1 2
      else obind (scalar_declaration uc owned inst) (\<lambda>value.
      if value AND 0x7f800000 = 0x7f800000 \<or> single_scaled value < 2 ^ 149 \<or> single_scaled value > 2 ^ 155 then
        fail_at inst DXBC_STAGE_CONTRACT_INVALID_DECLARATION_VALUE 0 (unat value)
      else Done value))"

section \<open>Compute declarations and barriers\<close>

text \<open>One axis of the thread-group loop; the state is the product and the dimensions so far.\<close>

definition thread_group_axis ::
  "unity_common \<Rightarrow> bytes \<Rightarrow> document_instruction \<Rightarrow> u32 \<Rightarrow> u32 \<Rightarrow> nat \<Rightarrow> nat \<times> u32 list \<Rightarrow> (contract_diagnostic, nat \<times> u32 list) outcome" where
  "thread_group_axis uc owned inst maximum_threads maximum_z axis = (\<lambda>(product, dimensions).
     obind (instruction_token uc owned inst (axis + 1)) (\<lambda>dimension. let
       maximum = (if axis = 2 then maximum_z else maximum_threads) in
     if dimension = 0 \<or> dimension > maximum then
       fail_at inst DXBC_STAGE_CONTRACT_INVALID_DECLARATION_VALUE (unat maximum) (unat dimension)
     else Done (product * unat dimension, dimensions @ [dimension])))"

definition decode_thread_group ::
  "unity_common \<Rightarrow> bytes \<Rightarrow> document_instruction \<Rightarrow> stage_contract \<Rightarrow> (contract_diagnostic, stage_contract) outcome" where
  "decode_thread_group uc owned inst ct =
     obind (declaration_header uc owned inst 4) (\<lambda>control.
     obind (require_zero inst control) (\<lambda>_.
     if sc_has_thread_group_size ct then fail_at inst DXBC_STAGE_CONTRACT_DUPLICATE_DECLARATION 1 2
     else let
       maximum_threads = (if sc_shader_model_major ct = 4 then 768 else 1024);
       maximum_z = (if sc_shader_model_major ct = 4 then 1 else 64) in
     obind (ofold (thread_group_axis uc owned inst maximum_threads maximum_z) [0..<3] (1, [])) (\<lambda>(product, dimensions).
     if product > unat maximum_threads then
       fail_at inst DXBC_STAGE_CONTRACT_INVALID_DECLARATION_VALUE (unat maximum_threads) product
     else Done (ct\<lparr>sc_has_thread_group_size := True, sc_thread_group_size := dimensions,
            sc_thread_group_declaration_instruction_index := inst_instruction_index inst\<rparr>))))"

definition decode_shared_memory ::
  "unity_common \<Rightarrow> bytes \<Rightarrow> document_instruction \<Rightarrow> stage_contract \<Rightarrow> (contract_diagnostic, stage_contract) outcome" where
  "decode_shared_memory uc owned inst ct =
     (if sc_shader_model_major ct \<noteq> 5 then
        fail_at inst DXBC_STAGE_CONTRACT_UNSUPPORTED_PROGRAM 5 (unat (sc_shader_model_major ct))
      else let structured = (inst_opcode inst = OP_DCL_TGSM_STRUCTURED) in
      obind (declaration_header uc owned inst (if structured then 5 else 4)) (\<lambda>control.
      obind (instruction_token uc owned inst 1) (\<lambda>operand.
      obind (instruction_token uc owned inst 2) (\<lambda>register_id.
      obind (instruction_token uc owned inst 3) (\<lambda>stride.
      obind (if structured then instruction_token uc owned inst 4 else Done 1) (\<lambda>count.
      if control \<noteq> 0 then fail_at inst DXBC_STAGE_CONTRACT_INVALID_DECLARATION_BITS 0 (unat control)
      else if operand \<noteq> 0x0011f000 then
        fail_at inst DXBC_STAGE_CONTRACT_INVALID_DECLARATION_BITS 0x0011f000 (unat operand)
      else let byte_count = unat stride * unat count in
      if register_id \<ge> 8192 \<or> stride = 0 \<or> stride AND 3 \<noteq> 0 \<or> count = 0 \<or> byte_count > 32768 \<or>
         byte_count + sc_thread_group_shared_memory_bytes ct > 32768 then
        fail_at inst DXBC_STAGE_CONTRACT_INVALID_DECLARATION_VALUE 32768 byte_count
      else if \<exists>m \<in> set (sc_thread_group_shared_memory ct). sm_register_id m = register_id then
        fail_at inst DXBC_STAGE_CONTRACT_DUPLICATE_DECLARATION 0 (unat register_id)
      else (case reserve_execution_array uc (sc_thread_group_shared_memory_capacity ct)
                   (length (sc_thread_group_shared_memory ct)) sizeof_shared_memory of
              None \<Rightarrow> fail_at inst DXBC_STAGE_CONTRACT_OUT_OF_MEMORY 0 0
            | Some capacity \<Rightarrow> Done (ct\<lparr>sc_thread_group_shared_memory_capacity := capacity,
                sc_thread_group_shared_memory := sc_thread_group_shared_memory ct @
                  [\<lparr>sm_instruction_index = inst_instruction_index inst, sm_register_id = register_id,
                    sm_structured = structured, sm_byte_stride = (if structured then stride else 0),
                    sm_element_count = (if structured then count else 0), sm_byte_count = byte_count\<rparr>],
                sc_thread_group_shared_memory_bytes := sc_thread_group_shared_memory_bytes ct + byte_count\<rparr>))))))))"

definition decode_memory_barrier ::
  "unity_common \<Rightarrow> bytes \<Rightarrow> document_instruction \<Rightarrow> stage_contract \<Rightarrow> (contract_diagnostic, stage_contract) outcome" where
  "decode_memory_barrier uc owned inst ct =
     obind (declaration_header uc owned inst 1) (\<lambda>flags. let
       compute = (sc_program_type ct = DXBC_PROGRAM_TYPE_COMPUTE) in
     if flags AND NOT 0xf \<noteq> 0 \<or>
        (if compute then flags AND 0xe = 0 \<or> flags AND 0xc = 0xc else flags \<noteq> 8) then
       fail_at inst DXBC_STAGE_CONTRACT_INVALID_DECLARATION_BITS 0xe (unat flags)
     else (case reserve_execution_array uc (sc_memory_barrier_capacity ct) (length (sc_memory_barriers ct)) sizeof_memory_barrier of
             None \<Rightarrow> fail_at inst DXBC_STAGE_CONTRACT_OUT_OF_MEMORY 0 0
           | Some capacity \<Rightarrow> Done (ct\<lparr>sc_memory_barrier_capacity := capacity,
               sc_memory_barriers := sc_memory_barriers ct @
                 [\<lparr>mb_instruction_index = inst_instruction_index inst, mb_flags = ucast flags\<rparr>]\<rparr>)))"

section \<open>Hull phases\<close>

definition append_phase ::
  "unity_common \<Rightarrow> stage_contract \<Rightarrow> hull_phase_kind \<Rightarrow> document_instruction \<Rightarrow> (contract_diagnostic, stage_contract) outcome" where
  "append_phase uc ct kind inst =
     (case grow uc 4 sizeof_hull_phase (length (sc_hull_phases ct)) (sc_hull_phase_capacity ct) of
        None \<Rightarrow> fail_at inst DXBC_STAGE_CONTRACT_OUT_OF_MEMORY 0 0
      | Some capacity \<Rightarrow> Done (ct\<lparr>sc_hull_phase_capacity := capacity,
          sc_hull_phases := sc_hull_phases ct @ [\<lparr>hp_kind = kind,
            hp_marker_instruction_index = inst_instruction_index inst,
            hp_first_instruction_index = inst_instruction_index inst + 1,
            hp_end_instruction_index = inst_instruction_index inst + 1,
            hp_instance_count_declared = False, hp_instance_count = 1\<rparr>]\<rparr>))"

text \<open>\<open>contract->hull_phases[contract->hull_phase_count - 1u].end_instruction_index = e\<close>\<close>

definition end_last_phase :: "nat \<Rightarrow> hull_phase list \<Rightarrow> hull_phase list" where
  "end_last_phase e ps = ps[length ps - 1 := (ps ! (length ps - 1))\<lparr>hp_end_instruction_index := e\<rparr>]"

definition stage_mismatch :: "document_instruction \<Rightarrow> (contract_diagnostic, 'a) outcome" where
  "stage_mismatch inst = fail_at inst DXBC_STAGE_CONTRACT_DECLARATION_STAGE_MISMATCH 0 (unat (inst_opcode inst))"

definition decode_hs_decls ::
  "unity_common \<Rightarrow> bytes \<Rightarrow> document_instruction \<Rightarrow> scan_state \<Rightarrow> (contract_diagnostic, scan_state) outcome" where
  "decode_hs_decls uc owned inst st = (let ct = ss_contract st in
     if sc_program_type ct \<noteq> DXBC_PROGRAM_TYPE_HULL then stage_mismatch inst
     else if ss_seen_hs_decls st then fail_at inst DXBC_STAGE_CONTRACT_DUPLICATE_DECLARATION 1 2
     else if inst_instruction_index inst \<noteq> sc_first_instruction_index ct then
       fail_at inst DXBC_STAGE_CONTRACT_DECLARATION_ORDER (sc_first_instruction_index ct) (inst_instruction_index inst)
     else obind (declaration_header uc owned inst 1) (\<lambda>control.
       obind (require_zero inst control) (\<lambda>_. Done (st\<lparr>ss_seen_hs_decls := True\<rparr>))))"

fun phase_of_marker :: "u32 \<Rightarrow> hull_phase_kind \<times> nat" where
  "phase_of_marker opcode =
     (if opcode = OP_HS_FORK_PHASE then (DXBC_HULL_PHASE_FORK, 1)
      else if opcode = OP_HS_JOIN_PHASE then (DXBC_HULL_PHASE_JOIN, 2)
      else (DXBC_HULL_PHASE_CONTROL_POINT, 0))"

definition decode_phase_marker ::
  "unity_common \<Rightarrow> bytes \<Rightarrow> document_instruction \<Rightarrow> scan_state \<Rightarrow> (contract_diagnostic, scan_state) outcome" where
  "decode_phase_marker uc owned inst st = (let ct = ss_contract st; opcode = inst_opcode inst in
     if sc_program_type ct \<noteq> DXBC_PROGRAM_TYPE_HULL then stage_mismatch inst
     else if \<not> ss_seen_hs_decls st then
       fail_at inst DXBC_STAGE_CONTRACT_PHASE_ORDER (unat OP_HS_DECLS) (unat opcode)
     else obind (declaration_header uc owned inst 1) (\<lambda>control.
     obind (require_zero inst control) (\<lambda>_. let
       kind = fst (phase_of_marker opcode); order = snd (phase_of_marker opcode) in
     if order < ss_hull_phase_order st \<or> kind = DXBC_HULL_PHASE_CONTROL_POINT \<and> ss_seen_control_point_phase st then
       fail_at inst DXBC_STAGE_CONTRACT_PHASE_ORDER (ss_hull_phase_order st) order
     else let
       ct = (if sc_hull_phases ct \<noteq> []
             then ct\<lparr>sc_hull_phases := end_last_phase (inst_instruction_index inst) (sc_hull_phases ct)\<rparr> else ct) in
     obind (append_phase uc ct kind inst) (\<lambda>ct.
       Done (st\<lparr>ss_contract := ct,
         ss_seen_control_point_phase := (if kind = DXBC_HULL_PHASE_CONTROL_POINT then True else ss_seen_control_point_phase st),
         ss_hull_phase_order := order, ss_seen_phase := True, ss_phase_has_executable := False\<rparr>)))))"

definition decode_phase_instance_count ::
  "unity_common \<Rightarrow> bytes \<Rightarrow> document_instruction \<Rightarrow> scan_state \<Rightarrow> (contract_diagnostic, stage_contract) outcome" where
  "decode_phase_instance_count uc owned inst st = (let
     ct = ss_contract st; ps = sc_hull_phases ct; opcode = inst_opcode inst in
     if sc_program_type ct \<noteq> DXBC_PROGRAM_TYPE_HULL \<or> ps = [] then stage_mismatch inst
     else let
       phase = ps ! (length ps - 1);
       expected = (if opcode = OP_DCL_HS_FORK_PHASE_INSTANCE_COUNT then DXBC_HULL_PHASE_FORK else DXBC_HULL_PHASE_JOIN);
       code = (\<lambda>k. case k of DXBC_HULL_PHASE_CONTROL_POINT \<Rightarrow> 0 | DXBC_HULL_PHASE_FORK \<Rightarrow> 1 | DXBC_HULL_PHASE_JOIN \<Rightarrow> 2) in
     if hp_kind phase \<noteq> expected \<or> ss_phase_has_executable st then
       fail_at inst DXBC_STAGE_CONTRACT_PHASE_ORDER (code expected) (code (hp_kind phase))
     else if hp_instance_count_declared phase then fail_at inst DXBC_STAGE_CONTRACT_DUPLICATE_DECLARATION 1 2
     else obind (scalar_declaration uc owned inst) (\<lambda>value.
       if value = 0 then fail_at inst DXBC_STAGE_CONTRACT_INVALID_DECLARATION_VALUE UINT32_MAX 0
       else Done (ct\<lparr>sc_hull_phases := ps[length ps - 1 :=
              phase\<lparr>hp_instance_count_declared := True, hp_instance_count := value\<rparr>]\<rparr>)))"

section \<open>One instruction\<close>

text \<open>Declarations that must precede the executable part and, in a hull program, the first phase.\<close>

definition stage_level_declaration :: "u32 \<Rightarrow> bool" where
  "stage_level_declaration opcode \<longleftrightarrow>
     opcode \<ge> OP_DCL_INPUT_CONTROL_POINT_COUNT \<and> opcode \<le> OP_DCL_HS_MAX_TESS_FACTOR \<or>
     opcode = OP_DCL_MAX_OUTPUT_VERTEX_COUNT \<or> opcode = OP_DCL_GS_INSTANCE_COUNT \<or> opcode = OP_DCL_STREAM \<or>
     opcode = OP_DCL_INPUT_PRIMITIVE \<or> opcode = OP_DCL_OUTPUT_TOPOLOGY"

text \<open>The geometry cases of the switch.\<close>

definition decode_geometry_instruction ::
  "unity_common \<Rightarrow> bytes \<Rightarrow> document_instruction \<Rightarrow> scan_state \<Rightarrow> (contract_diagnostic, scan_state) outcome" where
  "decode_geometry_instruction uc owned inst st = (let
     ct = ss_contract st; opcode = inst_opcode inst; stream = ss_current_geometry_stream st in
     if sc_program_type ct \<noteq> DXBC_PROGRAM_TYPE_GEOMETRY then stage_mismatch inst
     else if opcode = OP_EMIT \<or> opcode = OP_CUT \<or> opcode = OP_EMIT_STREAM \<or> opcode = OP_CUT_STREAM then
       obind (decode_geometry_effect uc owned inst ct
                (if opcode = OP_EMIT \<or> opcode = OP_EMIT_STREAM then DXBC_GEOMETRY_EFFECT_APPEND
                 else DXBC_GEOMETRY_EFFECT_RESTART_STRIP)
                (opcode = OP_EMIT_STREAM \<or> opcode = OP_CUT_STREAM))
         (\<lambda>ct. Done (st\<lparr>ss_seen_any_executable := True, ss_contract := ct\<rparr>))
     else if opcode = OP_DCL_INPUT_PRIMITIVE then
       obind (decode_enum_declaration uc owned inst (sc_has_input_primitive ct) valid_input_primitive)
         (\<lambda>value. Done (st\<lparr>ss_contract := ct\<lparr>sc_has_input_primitive := True, sc_input_primitive := value\<rparr>\<rparr>))
     else if opcode = OP_DCL_OUTPUT_TOPOLOGY then
       obind (decode_enum_declaration uc owned inst
                (sc_output_topology_stream_mask ct AND stream_bit stream \<noteq> 0) valid_output_topology) (\<lambda>value.
       if sc_has_output_topology ct \<and> sc_output_topology ct \<noteq> value then
         fail_at inst DXBC_STAGE_CONTRACT_INVALID_DECLARATION_VALUE (unat (sc_output_topology ct)) (unat value)
       else Done (st\<lparr>ss_contract := ct\<lparr>sc_has_output_topology := True, sc_output_topology := value,
              sc_output_topology_stream_mask := sc_output_topology_stream_mask ct OR stream_bit stream\<rparr>\<rparr>))
     else if opcode = OP_DCL_MAX_OUTPUT_VERTEX_COUNT then
       obind (decode_count_declaration uc owned inst True 1024 (sc_has_max_output_vertex_count ct))
         (\<lambda>value. Done (st\<lparr>ss_contract := ct\<lparr>sc_has_max_output_vertex_count := True, sc_max_output_vertex_count := value\<rparr>\<rparr>))
     else if opcode = OP_DCL_STREAM then
       obind (decode_stream uc owned inst ct)
         (\<lambda>(ct, stream). Done (st\<lparr>ss_contract := ct, ss_current_geometry_stream := stream\<rparr>))
     else
       obind (decode_count_declaration uc owned inst True 32 (sc_has_geometry_instance_count ct))
         (\<lambda>value. Done (st\<lparr>ss_contract := ct\<lparr>sc_has_geometry_instance_count := True, sc_geometry_instance_count := value\<rparr>\<rparr>)))"

definition is_geometry_case :: "u32 \<Rightarrow> bool" where
  "is_geometry_case opcode \<longleftrightarrow> opcode \<in> set [OP_EMIT, OP_CUT, OP_EMIT_STREAM, OP_CUT_STREAM, OP_DCL_INPUT_PRIMITIVE,
     OP_DCL_OUTPUT_TOPOLOGY, OP_DCL_MAX_OUTPUT_VERTEX_COUNT, OP_DCL_STREAM, OP_DCL_GS_INSTANCE_COUNT]"

text \<open>The tessellation cases of the switch.\<close>

definition decode_tessellation_instruction ::
  "unity_common \<Rightarrow> bytes \<Rightarrow> document_instruction \<Rightarrow> scan_state \<Rightarrow> (contract_diagnostic, scan_state) outcome" where
  "decode_tessellation_instruction uc owned inst st = (let
     ct = ss_contract st; opcode = inst_opcode inst;
     is_hull = (sc_program_type ct = DXBC_PROGRAM_TYPE_HULL);
     is_domain = (sc_program_type ct = DXBC_PROGRAM_TYPE_DOMAIN) in
     if opcode = OP_DCL_INPUT_CONTROL_POINT_COUNT then
       if \<not> is_hull \<and> \<not> is_domain then stage_mismatch inst
       else obind (decode_count_declaration uc owned inst False 32 (sc_has_input_control_point_count ct))
         (\<lambda>value. Done (st\<lparr>ss_contract := ct\<lparr>sc_has_input_control_point_count := True, sc_input_control_point_count := value\<rparr>\<rparr>))
     else if opcode = OP_DCL_TESSELLATOR_DOMAIN then
       if \<not> is_hull \<and> \<not> is_domain then stage_mismatch inst
       else obind (decode_enum_declaration uc owned inst (sc_has_tessellator_domain ct) valid_domain)
         (\<lambda>value. Done (st\<lparr>ss_contract := ct\<lparr>sc_has_tessellator_domain := True, sc_tessellator_domain := value\<rparr>\<rparr>))
     else if opcode = OP_DCL_HS_FORK_PHASE_INSTANCE_COUNT \<or> opcode = OP_DCL_HS_JOIN_PHASE_INSTANCE_COUNT then
       obind (decode_phase_instance_count uc owned inst st) (\<lambda>ct. Done (st\<lparr>ss_contract := ct\<rparr>))
     else if \<not> is_hull then stage_mismatch inst
     else if opcode = OP_DCL_OUTPUT_CONTROL_POINT_COUNT then
       obind (decode_count_declaration uc owned inst False 32 (sc_has_output_control_point_count ct))
         (\<lambda>value. Done (st\<lparr>ss_contract := ct\<lparr>sc_has_output_control_point_count := True, sc_output_control_point_count := value\<rparr>\<rparr>))
     else if opcode = OP_DCL_TESSELLATOR_PARTITIONING then
       obind (decode_enum_declaration uc owned inst (sc_has_tessellator_partitioning ct) valid_partitioning)
         (\<lambda>value. Done (st\<lparr>ss_contract := ct\<lparr>sc_has_tessellator_partitioning := True, sc_tessellator_partitioning := value\<rparr>\<rparr>))
     else if opcode = OP_DCL_TESSELLATOR_OUTPUT_PRIMITIVE then
       obind (decode_enum_declaration uc owned inst (sc_has_tessellator_output_primitive ct) valid_output_primitive)
         (\<lambda>value. Done (st\<lparr>ss_contract := ct\<lparr>sc_has_tessellator_output_primitive := True, sc_tessellator_output_primitive := value\<rparr>\<rparr>))
     else
       obind (decode_max_tess_factor uc owned inst (sc_has_max_tessellation_factor ct))
         (\<lambda>value. Done (st\<lparr>ss_contract := ct\<lparr>sc_has_max_tessellation_factor := True, sc_max_tessellation_factor_bits := value,
            sc_max_tessellation_factor := single_scaled value\<rparr>\<rparr>)))"

definition is_tessellation_case :: "u32 \<Rightarrow> bool" where
  "is_tessellation_case opcode \<longleftrightarrow> opcode \<ge> OP_DCL_INPUT_CONTROL_POINT_COUNT \<and> opcode \<le> OP_DCL_HS_JOIN_PHASE_INSTANCE_COUNT"

text \<open>What follows the switch: other declarations and executable instructions.\<close>

definition decode_other_instruction :: "document_instruction \<Rightarrow> scan_state \<Rightarrow> (contract_diagnostic, scan_state) outcome" where
  "decode_other_instruction inst st = (let
     ct = ss_contract st; is_hull = (sc_program_type ct = DXBC_PROGRAM_TYPE_HULL) in
     if is_declaration_opcode (inst_opcode inst) then
       if is_hull \<and> ss_seen_phase st \<and> ss_phase_has_executable st \<or> \<not> is_hull \<and> ss_seen_any_executable st then
         fail_at inst DXBC_STAGE_CONTRACT_DECLARATION_ORDER 0 (inst_instruction_index inst)
       else Done st
     else if is_hull \<and> \<not> ss_seen_phase st then fail_at inst DXBC_STAGE_CONTRACT_PHASE_ORDER 1 0
     else let st = st\<lparr>ss_seen_any_executable := True\<rparr> in
     if is_hull then
       if sc_hull_phases ct = [] then Fault
       else Done (st\<lparr>ss_phase_has_executable := True, ss_contract := ct\<lparr>sc_hull_phases :=
              end_last_phase (inst_instruction_index inst + 1) (sc_hull_phases ct)\<rparr>\<rparr>)
     else Done st)"

definition decode_instruction_contract ::
  "unity_common \<Rightarrow> bytes \<Rightarrow> document_instruction \<Rightarrow> scan_state \<Rightarrow> (contract_diagnostic, scan_state) outcome" where
  "decode_instruction_contract uc owned inst st = (let
     ct = ss_contract st; opcode = inst_opcode inst;
     is_hull = (sc_program_type ct = DXBC_PROGRAM_TYPE_HULL);
     is_compute = (sc_program_type ct = DXBC_PROGRAM_TYPE_COMPUTE) in
     if opcode = OP_DCL_THREAD_GROUP \<or> opcode = OP_DCL_TGSM_RAW \<or> opcode = OP_DCL_TGSM_STRUCTURED then
       if \<not> is_compute then stage_mismatch inst
       else if ss_seen_any_executable st then
         fail_at inst DXBC_STAGE_CONTRACT_DECLARATION_ORDER 0 (inst_instruction_index inst)
       else obind (if opcode = OP_DCL_THREAD_GROUP then decode_thread_group uc owned inst ct
                   else decode_shared_memory uc owned inst ct) (\<lambda>ct. Done (st\<lparr>ss_contract := ct\<rparr>))
     else if opcode = OP_SYNC then
       if \<not> is_compute \<and> sc_program_type ct \<noteq> DXBC_PROGRAM_TYPE_PIXEL then stage_mismatch inst
       else obind (decode_memory_barrier uc owned inst ct)
              (\<lambda>ct. Done (st\<lparr>ss_seen_any_executable := True, ss_contract := ct\<rparr>))
     else if opcode = OP_HS_DECLS then decode_hs_decls uc owned inst st
     else if is_hull_phase_marker opcode then decode_phase_marker uc owned inst st
     else if stage_level_declaration opcode \<and> (ss_seen_any_executable st \<or> is_hull \<and> ss_seen_phase st) then
       fail_at inst DXBC_STAGE_CONTRACT_DECLARATION_ORDER 0 (inst_instruction_index inst)
     else if is_geometry_case opcode then decode_geometry_instruction uc owned inst st
     else if is_tessellation_case opcode then decode_tessellation_instruction uc owned inst st
     else decode_other_instruction inst st)"

section \<open>The whole program\<close>

definition decode_version ::
  "unity_common \<Rightarrow> bytes \<Rightarrow> document_chunk \<Rightarrow> stage_contract \<Rightarrow> (contract_diagnostic, stage_contract) outcome" where
  "decode_version uc owned chunk ct =
     obind (mem (rd32 owned (chunk_payload_bytes chunk))) (\<lambda>raw. let
       token = read_le32 uc raw; program = drop_bit 16 token; major = drop_bit 4 token AND 0xf; minor = token AND 0xf in
     if token AND 0x0000ff00 \<noteq> 0 \<or> program \<ge> DXBC_PROGRAM_TYPE_COUNT then
       contract_fail DXBC_STAGE_CONTRACT_INVALID_VERSION_TOKEN (chunk_table_index chunk) UINT32_MAX 0 0 (unat token)
     else if major \<noteq> 4 \<and> major \<noteq> 5 \<or> major = 4 \<and> minor > 1 \<or> major = 5 \<and> minor \<noteq> 0 \<or>
             (program = DXBC_PROGRAM_TYPE_HULL \<or> program = DXBC_PROGRAM_TYPE_DOMAIN) \<and> major \<noteq> 5 then
       contract_fail DXBC_STAGE_CONTRACT_UNSUPPORTED_PROGRAM (chunk_table_index chunk) UINT32_MAX 0 0 (unat token)
     else Done (ct\<lparr>sc_version_token := token, sc_program_type := program, sc_shader_model_major := ucast major,
            sc_shader_model_minor := ucast minor, sc_executable_chunk_index := chunk_table_index chunk\<rparr>))"

definition require_declaration :: "bool \<Rightarrow> u32 \<Rightarrow> stage_contract \<Rightarrow> (contract_diagnostic, unit) outcome" where
  "require_declaration present opcode ct =
     (if present then Done ()
      else contract_fail DXBC_STAGE_CONTRACT_MISSING_DECLARATION (sc_executable_chunk_index ct) UINT32_MAX opcode 1 0)"

definition check_geometry_effect :: "stage_contract \<Rightarrow> geometry_effect \<Rightarrow> unit \<Rightarrow> (contract_diagnostic, unit) outcome" where
  "check_geometry_effect ct effect u =
     (if ge_explicit_stream effect then
        if sc_declared_stream_mask ct AND stream_bit (ge_stream_id effect) = 0 then
          contract_fail DXBC_STAGE_CONTRACT_MISSING_DECLARATION (sc_executable_chunk_index ct) (ge_instruction_index effect)
            OP_DCL_STREAM (unat (stream_bit (ge_stream_id effect))) (unat (sc_declared_stream_mask ct))
        else Done ()
      else if sc_declared_stream_mask ct \<noteq> 0 then
        contract_fail DXBC_STAGE_CONTRACT_INVALID_DECLARATION_VALUE (sc_executable_chunk_index ct) (ge_instruction_index effect)
          (if ge_kind effect = DXBC_GEOMETRY_EFFECT_APPEND then OP_EMIT else OP_CUT) 0 (unat (sc_declared_stream_mask ct))
      else Done ())"

definition finish_contract :: "stage_contract \<Rightarrow> bool \<Rightarrow> bool \<Rightarrow> (contract_diagnostic, unit) outcome" where
  "finish_contract ct seen_hs_decls seen_phase =
     (if sc_program_type ct = DXBC_PROGRAM_TYPE_COMPUTE then
        require_declaration (sc_has_thread_group_size ct) OP_DCL_THREAD_GROUP ct
      else if sc_program_type ct = DXBC_PROGRAM_TYPE_GEOMETRY then
        obind (require_declaration (sc_has_input_primitive ct) OP_DCL_INPUT_PRIMITIVE ct) (\<lambda>_.
        obind (require_declaration (sc_has_output_topology ct) OP_DCL_OUTPUT_TOPOLOGY ct) (\<lambda>_.
        obind (require_declaration (sc_has_max_output_vertex_count ct) OP_DCL_MAX_OUTPUT_VERTEX_COUNT ct) (\<lambda>_.
        if sc_output_topology_stream_mask ct AND sc_declared_stream_mask ct \<noteq> sc_declared_stream_mask ct then
          contract_fail DXBC_STAGE_CONTRACT_MISSING_DECLARATION (sc_executable_chunk_index ct) UINT32_MAX
            OP_DCL_OUTPUT_TOPOLOGY (unat (sc_declared_stream_mask ct)) (unat (sc_output_topology_stream_mask ct))
        else ofold (check_geometry_effect ct) (sc_geometry_effects ct) ())))
      else if sc_program_type ct = DXBC_PROGRAM_TYPE_HULL then
        obind (require_declaration seen_hs_decls OP_HS_DECLS ct) (\<lambda>_.
        obind (require_declaration (sc_has_input_control_point_count ct) OP_DCL_INPUT_CONTROL_POINT_COUNT ct) (\<lambda>_.
        obind (require_declaration (sc_has_output_control_point_count ct) OP_DCL_OUTPUT_CONTROL_POINT_COUNT ct) (\<lambda>_.
        obind (require_declaration (sc_has_tessellator_domain ct) OP_DCL_TESSELLATOR_DOMAIN ct) (\<lambda>_.
        obind (require_declaration (sc_has_tessellator_partitioning ct) OP_DCL_TESSELLATOR_PARTITIONING ct) (\<lambda>_.
        obind (require_declaration (sc_has_tessellator_output_primitive ct) OP_DCL_TESSELLATOR_OUTPUT_PRIMITIVE ct) (\<lambda>_.
          require_declaration seen_phase OP_HS_FORK_PHASE ct))))))
      else if sc_program_type ct = DXBC_PROGRAM_TYPE_DOMAIN then
        obind (require_declaration (sc_has_input_control_point_count ct) OP_DCL_INPUT_CONTROL_POINT_COUNT ct) (\<lambda>_.
          require_declaration (sc_has_tessellator_domain ct) OP_DCL_TESSELLATOR_DOMAIN ct)
      else Done ())"

text \<open>The search for the executable chunk; the state is the chunk found so far.\<close>

definition find_executable ::
  "document_chunk \<Rightarrow> document_chunk option \<Rightarrow> (contract_diagnostic, document_chunk option) outcome" where
  "find_executable chunk found =
     (if chunk_kind chunk \<noteq> DXBC_DOCUMENT_CHUNK_EXECUTABLE then Done found
      else case found of
        Some _ \<Rightarrow> contract_fail DXBC_STAGE_CONTRACT_MULTIPLE_EXECUTABLES (chunk_table_index chunk) UINT32_MAX 0 1 2
      | None \<Rightarrow> Done (Some chunk))"

text \<open>First and end position of the instructions of a chunk; \<open>SIZE_MAX\<close> means none.\<close>

fun instruction_range :: "document_instruction list \<Rightarrow> nat \<Rightarrow> nat \<Rightarrow> nat \<times> nat \<Rightarrow> nat \<times> nat" where
  "instruction_range [] chunk_index i found = found"
| "instruction_range (inst # insts) chunk_index i (first, stop) =
     (if inst_chunk_index inst \<noteq> chunk_index then instruction_range insts chunk_index (i + 1) (first, stop)
      else instruction_range insts chunk_index (i + 1) (if first = SIZE_MAX then i else first, i + 1))"

definition initial_scan :: "stage_contract \<Rightarrow> scan_state" where
  "initial_scan ct = \<lparr>ss_contract = ct, ss_seen_hs_decls = False, ss_seen_phase = False, ss_phase_has_executable = False,
     ss_seen_any_executable = False, ss_hull_phase_order = 0, ss_seen_control_point_phase = False,
     ss_current_geometry_stream = 0\<rparr>"

definition decode_document_internal ::
  "unity_common \<Rightarrow> document option \<Rightarrow> stage_contract \<Rightarrow> (contract_diagnostic, stage_contract) outcome" where
  "decode_document_internal uc document ct = (let
     invalid = contract_fail DXBC_STAGE_CONTRACT_INVALID_ARGUMENT UINT32_MAX UINT32_MAX 0 0 0 in
     case document of
       None \<Rightarrow> invalid
     | Some doc \<Rightarrow> (case doc_owned_bytes doc of
         None \<Rightarrow> invalid
       | Some owned \<Rightarrow>
         if doc_chunks doc = [] then invalid
         else obind (ofold find_executable (doc_chunks doc) None) (\<lambda>found. case found of
           None \<Rightarrow> contract_fail DXBC_STAGE_CONTRACT_MISSING_EXECUTABLE UINT32_MAX UINT32_MAX 0 1 0
         | Some executable \<Rightarrow>
           obind (decode_version uc owned executable ct) (\<lambda>ct. let
             insts = doc_instructions doc;
             (first, stop) = instruction_range insts (chunk_table_index executable) 0 (SIZE_MAX, 0);
             ct = ct\<lparr>sc_first_instruction_index := (if first = SIZE_MAX then 0 else inst_instruction_index (insts ! first)),
                     sc_end_instruction_index := (if stop = 0 then 0 else inst_instruction_index (insts ! (stop - 1)) + 1)\<rparr> in
           obind (ofold (decode_instruction_contract uc owned)
                    (drop (if first = SIZE_MAX then 0 else first) (take stop insts)) (initial_scan ct)) (\<lambda>st. let
             ct = ss_contract st;
             ct = (if sc_hull_phases ct \<noteq> []
                   then ct\<lparr>sc_hull_phases := end_last_phase (sc_end_instruction_index ct) (sc_hull_phases ct)\<rparr> else ct) in
           obind (finish_contract ct (ss_seen_hs_decls st) (ss_seen_phase st)) (\<lambda>_. Done ct))))))"

text \<open>\<open>out\<close> tells whether the contract pointer is not \<open>NULL\<close>; the caller's contract is replaced only on success.\<close>

definition dxbc_stage_contract_decode_document ::
  "unity_common \<Rightarrow> document option \<Rightarrow> bool \<Rightarrow> (contract_diagnostic, stage_contract) outcome" where
  "dxbc_stage_contract_decode_document uc document out =
     (if \<not> out then contract_fail DXBC_STAGE_CONTRACT_INVALID_ARGUMENT UINT32_MAX UINT32_MAX 0 0 0
      else decode_document_internal uc document dxbc_stage_contract_init)"

text \<open>The fields of a semantic container (\<open>DXBCContainer\<close>) that the validation reads.\<close>

record container_program =
  cp_has_executable_program :: bool
  cp_program_type :: u32
  cp_major_version :: u8
  cp_minor_version :: u8

definition dxbc_stage_contract_validate_container ::
  "stage_contract option \<Rightarrow> container_program option \<Rightarrow> (contract_diagnostic, unit) outcome" where
  "dxbc_stage_contract_validate_container contract container = (let
     invalid = contract_fail DXBC_STAGE_CONTRACT_INVALID_ARGUMENT UINT32_MAX UINT32_MAX 0 0 0 in
     case (contract, container) of
       (Some ct, Some c) \<Rightarrow>
         if sc_program_type ct \<ge> DXBC_PROGRAM_TYPE_COUNT then invalid
         else if \<not> cp_has_executable_program c \<or> cp_program_type c \<noteq> sc_program_type ct \<or>
                 cp_major_version c \<noteq> sc_shader_model_major ct \<or> cp_minor_version c \<noteq> sc_shader_model_minor ct then
           contract_fail DXBC_STAGE_CONTRACT_CONTAINER_MISMATCH (sc_executable_chunk_index ct) UINT32_MAX 0
             (unat (push_bit 16 (ucast (sc_program_type ct)) OR push_bit 8 (ucast (sc_shader_model_major ct)) OR
                    ucast (sc_shader_model_minor ct) :: u64))
             (unat (push_bit 16 (ucast (cp_program_type c)) OR push_bit 8 (ucast (cp_major_version c)) OR
                    ucast (cp_minor_version c) :: u64))
         else Done ()
     | _ \<Rightarrow> invalid)"

definition dxbc_stage_contract_decode ::
  "unity_common \<Rightarrow> document option \<Rightarrow> container_program option \<Rightarrow> bool \<Rightarrow> (contract_diagnostic, stage_contract) outcome" where
  "dxbc_stage_contract_decode uc document semantic_container out =
     (if \<not> out then contract_fail DXBC_STAGE_CONTRACT_INVALID_ARGUMENT UINT32_MAX UINT32_MAX 0 0 0
      else obind (decode_document_internal uc document dxbc_stage_contract_init) (\<lambda>parsed.
        case semantic_container of
          None \<Rightarrow> Done parsed
        | Some c \<Rightarrow> obind (dxbc_stage_contract_validate_container (Some parsed) (Some c)) (\<lambda>_. Done parsed)))"

fun dxbc_stage_contract_status_name :: "contract_status \<Rightarrow> string" where
  "dxbc_stage_contract_status_name DXBC_STAGE_CONTRACT_OK = ''ok''"
| "dxbc_stage_contract_status_name DXBC_STAGE_CONTRACT_INVALID_ARGUMENT = ''invalid_argument''"
| "dxbc_stage_contract_status_name DXBC_STAGE_CONTRACT_OUT_OF_MEMORY = ''out_of_memory''"
| "dxbc_stage_contract_status_name DXBC_STAGE_CONTRACT_MISSING_EXECUTABLE = ''missing_executable''"
| "dxbc_stage_contract_status_name DXBC_STAGE_CONTRACT_MULTIPLE_EXECUTABLES = ''multiple_executables''"
| "dxbc_stage_contract_status_name DXBC_STAGE_CONTRACT_INVALID_VERSION_TOKEN = ''invalid_version_token''"
| "dxbc_stage_contract_status_name DXBC_STAGE_CONTRACT_UNSUPPORTED_PROGRAM = ''unsupported_program''"
| "dxbc_stage_contract_status_name DXBC_STAGE_CONTRACT_INVALID_DECLARATION_LENGTH = ''invalid_declaration_length''"
| "dxbc_stage_contract_status_name DXBC_STAGE_CONTRACT_INVALID_DECLARATION_BITS = ''invalid_declaration_bits''"
| "dxbc_stage_contract_status_name DXBC_STAGE_CONTRACT_INVALID_DECLARATION_VALUE = ''invalid_declaration_value''"
| "dxbc_stage_contract_status_name DXBC_STAGE_CONTRACT_DUPLICATE_DECLARATION = ''duplicate_declaration''"
| "dxbc_stage_contract_status_name DXBC_STAGE_CONTRACT_DECLARATION_ORDER = ''declaration_order''"
| "dxbc_stage_contract_status_name DXBC_STAGE_CONTRACT_DECLARATION_STAGE_MISMATCH = ''declaration_stage_mismatch''"
| "dxbc_stage_contract_status_name DXBC_STAGE_CONTRACT_MISSING_DECLARATION = ''missing_declaration''"
| "dxbc_stage_contract_status_name DXBC_STAGE_CONTRACT_PHASE_ORDER = ''phase_order''"
| "dxbc_stage_contract_status_name DXBC_STAGE_CONTRACT_CONTAINER_MISMATCH = ''container_mismatch''"

end
