(* ===== verification/Stage_Contract_Spec.thy ===== *)
theory Stage_Contract_Spec
  imports Stage_Contract
begin

text \<open>
  Specification of the stage contract and its proof: the numeric limits every contract satisfies, the
  correspondence between the contract and the instructions it was decoded from, the order of
  declarations and hull phases, and the safety of the scan.
\<close>

section \<open>Limits a contract satisfies\<close>

definition geometry_limits :: "stage_contract \<Rightarrow> bool" where
  "geometry_limits ct \<longleftrightarrow>
     (sc_has_input_primitive ct \<longrightarrow> valid_input_primitive (sc_input_primitive ct)) \<and>
     (sc_has_output_topology ct \<longrightarrow> valid_output_topology (sc_output_topology ct)) \<and>
     (sc_has_max_output_vertex_count ct \<longrightarrow> 1 \<le> sc_max_output_vertex_count ct \<and> sc_max_output_vertex_count ct \<le> 1024) \<and>
     (sc_has_geometry_instance_count ct \<longrightarrow> 1 \<le> sc_geometry_instance_count ct \<and> sc_geometry_instance_count ct \<le> 32) \<and>
     (\<forall>e\<in>set (sc_geometry_effects ct). ge_stream_id e \<le> 3 \<and> (ge_explicit_stream e \<or> ge_stream_id e = 0)) \<and>
     sc_referenced_stream_mask ct = fold (\<lambda>e m. m OR stream_bit (ge_stream_id e)) (sc_geometry_effects ct) 0"

definition count_limit :: "bool \<Rightarrow> u32 \<Rightarrow> bool" where
  "count_limit present v \<longleftrightarrow> (present \<longrightarrow> 1 \<le> v \<and> v \<le> 32)"

definition tessellation_limits :: "stage_contract \<Rightarrow> bool" where
  "tessellation_limits ct \<longleftrightarrow>
     count_limit (sc_has_input_control_point_count ct) (sc_input_control_point_count ct) \<and>
     count_limit (sc_has_output_control_point_count ct) (sc_output_control_point_count ct) \<and>
     (sc_has_tessellator_domain ct \<longrightarrow> valid_domain (sc_tessellator_domain ct)) \<and>
     (sc_has_tessellator_partitioning ct \<longrightarrow> valid_partitioning (sc_tessellator_partitioning ct)) \<and>
     (sc_has_tessellator_output_primitive ct \<longrightarrow> valid_output_primitive (sc_tessellator_output_primitive ct)) \<and>
     (sc_has_max_tessellation_factor ct \<longrightarrow>
        0x3f800000 \<le> sc_max_tessellation_factor_bits ct \<and> sc_max_tessellation_factor_bits ct \<le> 0x42800000 \<and>
        sc_max_tessellation_factor ct = single_scaled (sc_max_tessellation_factor_bits ct)) \<and>
     (\<forall>p\<in>set (sc_hull_phases ct). hp_instance_count p \<noteq> 0 \<and> (hp_instance_count_declared p \<or> hp_instance_count p = 1))"

definition shared_memory_limits :: "stage_contract \<Rightarrow> bool" where
  "shared_memory_limits ct \<longleftrightarrow>
     sc_thread_group_shared_memory_bytes ct = sum_list (map sm_byte_count (sc_thread_group_shared_memory ct)) \<and>
     sc_thread_group_shared_memory_bytes ct \<le> 32768 \<and>
     distinct (map sm_register_id (sc_thread_group_shared_memory ct)) \<and>
     (\<forall>m\<in>set (sc_thread_group_shared_memory ct). sm_register_id m < 8192 \<and> 0 < sm_byte_count m \<and> 4 dvd sm_byte_count m \<and>
        (sm_structured m \<longrightarrow> sm_byte_count m = unat (sm_byte_stride m) * unat (sm_element_count m)))"

definition thread_limit :: "stage_contract \<Rightarrow> nat" where
  "thread_limit ct = (if sc_shader_model_major ct = 4 then 768 else 1024)"

definition thread_group_limits :: "stage_contract \<Rightarrow> bool" where
  "thread_group_limits ct \<longleftrightarrow> (sc_has_thread_group_size ct \<longrightarrow>
     (\<exists>x y z. sc_thread_group_size ct = [x, y, z] \<and> 1 \<le> unat x * unat y * unat z \<and>
        unat x * unat y * unat z \<le> thread_limit ct \<and> unat z \<le> (if sc_shader_model_major ct = 4 then 1 else 64)))"

definition barrier_limits :: "stage_contract \<Rightarrow> bool" where
  "barrier_limits ct \<longleftrightarrow> (\<forall>b\<in>set (sc_memory_barriers ct). mb_flags b \<le> 15 \<and>
     (if sc_program_type ct = DXBC_PROGRAM_TYPE_COMPUTE then mb_flags b AND 14 \<noteq> 0 \<and> mb_flags b AND 12 \<noteq> 12 else mb_flags b = 8))"

definition contract_limits :: "stage_contract \<Rightarrow> bool" where
  "contract_limits ct \<longleftrightarrow> geometry_limits ct \<and> tessellation_limits ct \<and> shared_memory_limits ct \<and>
     thread_group_limits ct \<and> barrier_limits ct"

lemmas limit_defs = geometry_limits_def tessellation_limits_def shared_memory_limits_def
  thread_group_limits_def barrier_limits_def thread_limit_def

lemma yields_fails [yields_intros]:
  "yields Q (fail_at inst s e a)" "yields Q (contract_fail s ci ii op e a)" "yields Q (stage_mismatch inst)"
  by (simp_all add: yields_def fail_at_def contract_fail_def stage_mismatch_def)

lemma single_fields:
  "unat (drop_bit 23 (v :: u32) AND 0xff) = unat v div 2 ^ 23 mod 256" "unat (v AND 0x7fffff) = unat v mod 2 ^ 23"
  "v AND 0x80000000 = 0 \<longleftrightarrow> unat v < 2 ^ 31"
proof -
  show "unat (drop_bit 23 v AND 0xff) = unat v div 2 ^ 23 mod 256"
    using unat_and_mask [of "drop_bit 23 v" 8] by (simp add: mask_eq_exp_minus_1 drop_bit_eq_div unat_div)
  show "unat (v AND 0x7fffff) = unat v mod 2 ^ 23"
    using unat_and_mask [of v 23] by (simp add: mask_eq_exp_minus_1)
  have "NOT (mask 31) = (0x80000000 :: u32)" by (simp add: mask_eq_exp_minus_1)
  with unat_and_not_mask [of v 31] have "unat (v AND 0x80000000) = unat v - unat v mod 2 ^ 31" by simp
  moreover have "v AND 0x80000000 = 0 \<longleftrightarrow> unat (v AND 0x80000000) = 0" by (simp only: unat_eq_zero)
  ultimately show "v AND 0x80000000 = 0 \<longleftrightarrow> unat v < 2 ^ 31"
    by (simp add: minus_mod_eq_mult_div div_eq_0_iff)
qed

text \<open>The factors between \<open>1.0f\<close> and \<open>64.0f\<close> are an interval of bit patterns.\<close>

lemma single_scaled_range:
  "2 ^ 149 \<le> single_scaled v \<and> single_scaled v \<le> 2 ^ 155 \<longleftrightarrow> 0x3f800000 \<le> v \<and> v \<le> 0x42800000"
proof -
  define n e m where "n = unat v" and "e = n div 2 ^ 23" and "m = n mod 2 ^ 23"
  have n: "n = e * 2 ^ 23 + m" "m < 2 ^ 23" by (simp_all add: e_def m_def)
  have lim: "0x3f800000 \<le> v \<and> v \<le> 0x42800000 \<longleftrightarrow> 127 * 2 ^ 23 \<le> n \<and> n \<le> 133 * 2 ^ 23"
    by (simp add: word_le_nat_alt n_def)
  show ?thesis
  proof (cases "n < 2 ^ 31")
    case False
    then have "single_scaled v \<le> 0" using single_fields(3) [of v] by (simp add: single_scaled_def n_def Let_def)
    with False show ?thesis unfolding lim by auto
  next
    case True
    then have e: "e < 256" by (simp add: e_def less_mult_imp_div_less)
    have s: "single_scaled v = (if e = 0 then int m else (2 ^ 23 + int m) * 2 ^ (e - 1))"
      using True e single_fields [of v] by (simp add: single_scaled_def Let_def n_def e_def m_def)
    consider "e < 127" | "127 \<le> e" "e \<le> 132" | "e = 133" | "134 \<le> e" by linarith
    then show ?thesis
    proof cases
      case 1
      have "(2 ^ 23 + int m) * 2 ^ (e - 1) < 2 ^ 24 * 2 ^ (e - 1)" using n(2) by simp
      also have "\<dots> \<le> 2 ^ 24 * 2 ^ 125" using 1 by (intro mult_left_mono power_increasing) auto
      finally have "single_scaled v < 2 ^ 149" using s n(2) by (auto split: if_splits)
      with 1 n show ?thesis unfolding lim by auto
    next
      case 2
      have "(2 :: int) ^ 23 * 2 ^ 126 \<le> (2 ^ 23 + int m) * 2 ^ (e - 1)"
        using 2 by (intro mult_mono power_increasing) auto
      moreover have "(2 ^ 23 + int m) * 2 ^ (e - 1) \<le> 2 ^ 24 * 2 ^ 131"
        using 2 n(2) by (intro mult_mono power_increasing) auto
      ultimately show ?thesis using 2 n s unfolding lim by auto
    next
      case 3
      then show ?thesis using n s unfolding lim by auto
    next
      case 4
      have "(2 :: int) ^ 23 * 2 ^ 133 \<le> (2 ^ 23 + int m) * 2 ^ (e - 1)"
        using 4 by (intro mult_mono power_increasing) auto
      then show ?thesis using 4 n s unfolding lim by auto
    qed
  qed
qed

lemma yields_enum: 
  "yields validator (decode_enum_declaration uc owned inst present validator)"
  unfolding decode_enum_declaration_def by (intro yields_intros) auto

lemma yields_count: "yields (\<lambda>v. 1 \<le> v \<and> v \<le> maximum) (decode_count_declaration uc owned inst scalar maximum present)"
  unfolding decode_count_declaration_def by (intro yields_intros) (auto simp: not_less word_le_nat_alt Suc_le_eq unat_gt_0)

lemma yields_tess_factor:
  "yields (\<lambda>v. 0x3f800000 \<le> v \<and> v \<le> 0x42800000) (decode_max_tess_factor uc owned inst present)"
  unfolding decode_max_tess_factor_def by (intro yields_intros) (auto simp flip: single_scaled_range simp: not_less)


lemma thread_group_dims:
  assumes "ofold (thread_group_axis uc owned inst mt mz) [0..<3] (1, []) = Done (product, dims)"
  shows "\<exists>x y z. dims = [x, y, z] \<and> product = unat x * unat y * unat z \<and> 1 \<le> product \<and> z \<le> mz"
  using assms
  by (auto simp: upt_rec thread_group_axis_def outcome_simps Let_def fail_at_def contract_fail_def unat_gt_0 Suc_le_eq
      not_less split: if_splits)

lemma yields_thread_group:
  assumes "contract_limits ct"
  shows "yields contract_limits (decode_thread_group uc owned inst ct)"
proof -
  have "contract_limits (ct\<lparr>sc_has_thread_group_size := True, sc_thread_group_size := dims,
      sc_thread_group_declaration_instruction_index := k\<rparr>)"
    if "ofold (thread_group_axis uc owned inst mt (if sc_shader_model_major ct = 4 then 1 else 64)) [0..<3] (1, []) =
        Done (product, dims)" "product \<le> thread_limit ct" for dims k product mt
    using thread_group_dims [OF that(1)] that(2) assms
    by (auto simp: contract_limits_def limit_defs word_le_nat_alt split: if_splits)
  then show ?thesis
    unfolding decode_thread_group_def Let_def
    by (intro yields_intros) (auto simp: thread_limit_def not_less split: if_splits)
qed

lemma yields_geometry_effect:
  assumes "contract_limits ct"
  shows "yields contract_limits (decode_geometry_effect uc owned inst ct kind explicit)"
proof -
  have append: "yields contract_limits (append_geometry_effect uc ct kind s explicit inst)"
    if "s \<le> 3" "explicit \<or> s = 0" for s
    unfolding append_geometry_effect_def using that assms
    by (intro yields_intros) (simp add: contract_limits_def limit_defs)
  have stream: "yields (\<lambda>v. v \<le> 3 \<and> (explicit \<or> v = 0)) (if explicit then
              obind (instruction_token uc owned inst 1) (\<lambda>operand.
              obind (instruction_token uc owned inst 2) (\<lambda>stream.
              if operand \<noteq> 0x00110000 then
                fail_at inst DXBC_STAGE_CONTRACT_INVALID_DECLARATION_BITS 0x00110000 (unat operand)
              else if stream > 3 then
                fail_at inst DXBC_STAGE_CONTRACT_INVALID_DECLARATION_VALUE 3 (unat stream)
              else Done stream))
            else Done 0)"
    by (intro yields_intros) (auto simp: not_less)
  show ?thesis
    unfolding decode_geometry_effect_def
    by (intro yields_rules(4) append; drule yieldsD [OF stream])
      (auto simp: word_le_nat_alt unsigned_ucast_eq intro: order_trans [OF take_bit_nat_less_eq_self])
qed

lemma yields_stream:
  "contract_limits ct \<Longrightarrow> yields (contract_limits \<circ> fst) (decode_stream uc owned inst ct)"
  unfolding decode_stream_def Let_def
  by (intro yields_intros) (simp add: contract_limits_def limit_defs)

lemma sync_flags:
  assumes "(f :: u32) AND NOT 15 = 0"
  shows "(ucast f :: u8) \<le> 15" "(ucast f :: u8) AND 14 = 0 \<longleftrightarrow> f AND 14 = 0" "(ucast f :: u8) AND 12 = 12 \<longleftrightarrow> f AND 12 = 12"
    "(ucast f :: u8) = 8 \<longleftrightarrow> f = 8"
proof -
  have "NOT (mask 4) = (NOT 15 :: u32)" by (simp add: mask_eq_exp_minus_1)
  with unat_and_not_mask [of f 4] assms have "unat f - unat f mod 16 = 0" by simp
  then have f: "unat f < 16" by (simp add: minus_mod_eq_mult_div div_eq_0_iff)
  then have "f \<in> of_nat ` set [0..<16]" by (intro image_eqI [of _ _ "unat f"]) auto
  then have "f \<in> set (map of_nat [0..<16])" by simp
  then show "(ucast f :: u8) \<le> 15" "(ucast f :: u8) AND 14 = 0 \<longleftrightarrow> f AND 14 = 0"
    "(ucast f :: u8) AND 12 = 12 \<longleftrightarrow> f AND 12 = 12" "(ucast f :: u8) = 8 \<longleftrightarrow> f = 8"
    by (auto simp: upt_rec)
qed

lemma yields_barrier:
  "contract_limits ct \<Longrightarrow> yields contract_limits (decode_memory_barrier uc owned inst ct)"
  unfolding decode_memory_barrier_def Let_def
  by (intro yields_intros) (auto simp: contract_limits_def limit_defs sync_flags split: if_splits)

lemma append_shared_memory:
  assumes "contract_limits ct" "sm_byte_count m + sc_thread_group_shared_memory_bytes ct \<le> 32768"
    "sm_register_id m < 8192" "0 < sm_byte_count m" "4 dvd sm_byte_count m"
    "sm_structured m \<Longrightarrow> sm_byte_count m = unat (sm_byte_stride m) * unat (sm_element_count m)"
    "\<not> (\<exists>m' \<in> set (sc_thread_group_shared_memory ct). sm_register_id m' = sm_register_id m)"
  shows "contract_limits (ct\<lparr>sc_thread_group_shared_memory_capacity := capacity,
     sc_thread_group_shared_memory := sc_thread_group_shared_memory ct @ [m],
     sc_thread_group_shared_memory_bytes := sc_thread_group_shared_memory_bytes ct + sm_byte_count m\<rparr>)"
proof -
  let ?ct = "ct\<lparr>sc_thread_group_shared_memory_capacity := capacity,
     sc_thread_group_shared_memory := sc_thread_group_shared_memory ct @ [m],
     sc_thread_group_shared_memory_bytes := sc_thread_group_shared_memory_bytes ct + sm_byte_count m\<rparr>"
  have "geometry_limits ?ct = geometry_limits ct" "tessellation_limits ?ct = tessellation_limits ct"
    "thread_group_limits ?ct = thread_group_limits ct" "barrier_limits ?ct = barrier_limits ct"
    by (simp_all add: limit_defs)
  moreover have "sm_register_id m \<notin> sm_register_id ` set (sc_thread_group_shared_memory ct)" using assms(7) by auto
  then have "shared_memory_limits ?ct" using assms unfolding contract_limits_def shared_memory_limits_def by simp
  ultimately show ?thesis using assms(1) by (simp add: contract_limits_def)
qed

lemma yields_shared_memory:
  assumes "contract_limits ct"
  shows "yields contract_limits (decode_shared_memory uc owned inst ct)"
proof -
  have "contract_limits (ct\<lparr>sc_thread_group_shared_memory_capacity := capacity,
      sc_thread_group_shared_memory := sc_thread_group_shared_memory ct @
        [\<lparr>sm_instruction_index = k, sm_register_id = r, sm_structured = structured,
          sm_byte_stride = if structured then stride else 0, sm_element_count = if structured then n else 0,
          sm_byte_count = unat stride * unat n\<rparr>],
      sc_thread_group_shared_memory_bytes := sc_thread_group_shared_memory_bytes ct + unat stride * unat n\<rparr>)"
    if "\<not> (r \<ge> 8192 \<or> stride = 0 \<or> stride AND 3 \<noteq> 0 \<or> n = 0 \<or> unat stride * unat n > 32768 \<or>
         unat stride * unat n + sc_thread_group_shared_memory_bytes ct > 32768)"
      "\<not> (\<exists>m \<in> set (sc_thread_group_shared_memory ct). sm_register_id m = r)" for capacity k r structured stride n
    using append_shared_memory [OF assms, of "\<lparr>sm_instruction_index = k, sm_register_id = r, sm_structured = structured,
          sm_byte_stride = if structured then stride else 0, sm_element_count = if structured then n else 0,
          sm_byte_count = unat stride * unat n\<rparr>" capacity] that
    by (simp add: not_le unat_gt_0 and_3_dvd)
  then show ?thesis
    unfolding decode_shared_memory_def Let_def by (intro yields_intros)
qed

text \<open>The whole instruction step: every handler keeps the limits.\<close>

abbreviation (input) limited :: "scan_state \<Rightarrow> bool" where
  "limited st \<equiv> contract_limits (ss_contract st)"

lemma length_end_last_phase [simp]: "length (end_last_phase e ps) = length ps" "end_last_phase e ps = [] \<longleftrightarrow> ps = []"
  by (auto simp: end_last_phase_def)

lemma set_end_last_phase:
  "ps \<noteq> [] \<Longrightarrow> p \<in> set (end_last_phase e ps) \<Longrightarrow> \<exists>q\<in>set ps. p = q \<or> p = q\<lparr>hp_end_instruction_index := e\<rparr>"
  unfolding end_last_phase_def using nth_mem [of "length ps - 1" ps] set_update_subset_insert [of ps] by fastforce

definition phase_limit :: "hull_phase \<Rightarrow> bool" where
  "phase_limit p \<longleftrightarrow> hp_instance_count p \<noteq> 0 \<and> (hp_instance_count_declared p \<or> hp_instance_count p = 1)"

lemma phase_limitD: "contract_limits ct \<Longrightarrow> p \<in> set (sc_hull_phases ct) \<Longrightarrow> phase_limit p"
  by (simp add: contract_limits_def tessellation_limits_def phase_limit_def)

lemma phases_limits:
  assumes "contract_limits ct" "\<And>p. p \<in> set ps \<Longrightarrow> phase_limit p"
  shows "contract_limits (ct\<lparr>sc_hull_phases := ps\<rparr>)"
  using assms by (simp add: contract_limits_def limit_defs phase_limit_def)

lemma end_last_phase_limits:
  assumes "contract_limits ct" "sc_hull_phases ct \<noteq> []"
  shows "contract_limits (ct\<lparr>sc_hull_phases := end_last_phase e (sc_hull_phases ct)\<rparr>)"
  using set_end_last_phase [OF assms(2)] phase_limitD [OF assms(1)]
  by (intro phases_limits [OF assms(1)]) (fastforce simp: phase_limit_def)

lemma yields_append_phase:
  "contract_limits ct \<Longrightarrow> yields contract_limits (append_phase uc ct kind inst)"
  unfolding append_phase_def by (intro yields_intros) (simp add: contract_limits_def limit_defs)

lemma yields_phase_marker: "limited st \<Longrightarrow> yields limited (decode_phase_marker uc owned inst st)"
  unfolding decode_phase_marker_def Let_def
  by (intro yields_intros; (drule yieldsD [OF yields_append_phase, rotated])?)
    (auto simp: end_last_phase_limits split: if_splits)

lemma yields_instance_count:
  assumes "limited st"
  shows "yields contract_limits (decode_phase_instance_count uc owned inst st)"
proof -
  let ?ps = "sc_hull_phases (ss_contract st)"
  have "contract_limits ((ss_contract st)\<lparr>sc_hull_phases := ?ps[length ?ps - 1 :=
      (?ps ! (length ?ps - 1))\<lparr>hp_instance_count_declared := True, hp_instance_count := v\<rparr>]\<rparr>)" if "v \<noteq> 0" for v
    using phase_limitD [OF assms] that set_update_subset_insert [of ?ps]
    by (intro phases_limits [OF assms]) (fastforce simp: phase_limit_def)
  then show ?thesis
    unfolding decode_phase_instance_count_def Let_def by (intro yields_intros) auto
qed

lemma yields_geometry_instruction: "limited st \<Longrightarrow> yields limited (decode_geometry_instruction uc owned inst st)"
  unfolding decode_geometry_instruction_def Let_def
  by (intro yields_intros; (drule yieldsD [OF yields_geometry_effect, rotated])?; (drule yieldsD [OF yields_stream, rotated])?;
      (drule yieldsD [OF yields_enum])?; (drule yieldsD [OF yields_count])?)
    (simp_all add: contract_limits_def limit_defs)

lemma yields_tessellation_instruction: "limited st \<Longrightarrow> yields limited (decode_tessellation_instruction uc owned inst st)"
  unfolding decode_tessellation_instruction_def Let_def
  by (intro yields_intros; (drule yieldsD [OF yields_instance_count, rotated])?; (drule yieldsD [OF yields_tess_factor])?;
      (drule yieldsD [OF yields_enum])?; (drule yieldsD [OF yields_count])?)
    (simp_all add: contract_limits_def limit_defs count_limit_def)

lemma yields_other_instruction: "limited st \<Longrightarrow> yields limited (decode_other_instruction inst st)"
  unfolding decode_other_instruction_def Let_def
  by (intro yields_intros) (simp_all add: end_last_phase_limits)

lemma yields_hs_decls: "limited st \<Longrightarrow> yields limited (decode_hs_decls uc owned inst st)"
  unfolding decode_hs_decls_def Let_def by (intro yields_intros) simp

lemma step_keeps_limits: "limited st \<Longrightarrow> yields limited (decode_instruction_contract uc owned inst st)"
  unfolding decode_instruction_contract_def Let_def
  by (intro yields_intros yields_geometry_instruction yields_tessellation_instruction yields_other_instruction
      yields_hs_decls yields_phase_marker; (split if_splits)?;
      (drule yieldsD [OF yields_barrier, rotated])?)
    (auto dest: yieldsD [OF yields_thread_group, rotated] yieldsD [OF yields_shared_memory, rotated])

section \<open>What a contract records\<close>

text \<open>The words of an instruction, and the fields the declarations read from them.\<close>

definition token_at :: "bytes \<Rightarrow> document_instruction \<Rightarrow> nat \<Rightarrow> u32" where
  "token_at bs i k = (case rd32 bs (inst_byte_offset i + k * 4) of None \<Rightarrow> 0 | Some v \<Rightarrow> v)"

definition control_of :: "bytes \<Rightarrow> document_instruction \<Rightarrow> u32" where
  "control_of bs i = drop_bit 11 (token_at bs i 0) AND 0x1fff"

definition readable :: "bytes \<Rightarrow> document_instruction \<Rightarrow> bool" where
  "readable bs i \<longleftrightarrow> inst_raw_bytes i = Some (inst_byte_offset i) \<and>
     inst_byte_offset i + unat (inst_token_count i) * 4 \<le> length bs"

lemma document_readable: "document_ok bs doc \<Longrightarrow> i \<in> set (doc_instructions doc) \<Longrightarrow> readable bs i"
  using document_instruction_bounds [of bs doc i] by (auto simp: readable_def)


lemma instruction_token_reads:
  assumes "readable bs i" "little_endian_host uc"
  shows "yields (\<lambda>v. v = token_at bs i k) (instruction_token uc bs i k)" "safe (instruction_token uc bs i k)"
proof -
  have "rd32 bs (inst_byte_offset i + k * 4) = Some (token_at bs i k)" if "k < unat (inst_token_count i)"
  proof -
    have "inst_byte_offset i + k * 4 + 4 \<le> length bs" using that assms(1) by (simp add: readable_def)
    from rd32_ex [OF this] show ?thesis by (auto simp: token_at_def)
  qed
  then show "yields (\<lambda>v. v = token_at bs i k) (instruction_token uc bs i k)" "safe (instruction_token uc bs i k)"
    using assms
    by (auto simp: yields_def safe_def instruction_token_def dxbc_document_instruction_token_def readable_def outcome_simps
        read_u32_le_def fail_at_def contract_fail_def not_less split: if_splits)
qed

text \<open>The instructions a scan may meet: readable in a buffer, on a little-endian host.\<close>

definition scannable :: "unity_common \<Rightarrow> bytes \<Rightarrow> document_instruction \<Rightarrow> bool" where
  "scannable uc bs i \<longleftrightarrow> readable bs i \<and> little_endian_host uc"

named_theorems contract_safe \<open>declaration decoders do not fault\<close>

lemma token_safe [contract_safe]: "scannable uc bs i \<Longrightarrow> safe (instruction_token uc bs i k)"
  using instruction_token_reads(2) by (simp add: scannable_def)

lemma failure_safe [contract_safe]: "safe (fail_at i s e a)" "safe (contract_fail s ci ii op e a)" "safe (stage_mismatch i)"
  "safe (require_zero i control)" "safe (require_declaration present op ct)" "safe (check_geometry_effect ct effect u)"
  by (simp_all add: safe_def fail_at_def contract_fail_def stage_mismatch_def require_zero_def require_declaration_def
      check_geometry_effect_def)

lemma header_safe [contract_safe]: "scannable uc bs i \<Longrightarrow> safe (declaration_header uc bs i n)"
  unfolding declaration_header_def by (intro safe_intros contract_safe)

lemma declaration_safe [contract_safe]:
  assumes "scannable uc bs i"
  shows "safe (declaration_control uc bs i n)" "safe (scalar_declaration uc bs i)"
    "safe (decode_enum_declaration uc bs i present validator)" "safe (decode_count_declaration uc bs i scalar m present)"
    "safe (decode_max_tess_factor uc bs i present)" "safe (thread_group_axis uc bs i mt mz axis s)"
  unfolding declaration_control_def scalar_declaration_def decode_enum_declaration_def decode_count_declaration_def
    decode_max_tess_factor_def thread_group_axis_def Let_def
  by (intro safe_intros contract_safe assms)+

lemma decoder_safe [contract_safe]:
  assumes "scannable uc bs i"
  shows "safe (decode_geometry_effect uc bs i ct kind explicit)" "safe (decode_stream uc bs i ct)"
    "safe (decode_thread_group uc bs i ct)" "safe (decode_shared_memory uc bs i ct)" "safe (decode_memory_barrier uc bs i ct)"
    "safe (decode_hs_decls uc bs i st)" "safe (decode_phase_marker uc bs i st)" "safe (decode_phase_instance_count uc bs i st)"
  unfolding decode_geometry_effect_def append_geometry_effect_def decode_stream_def decode_thread_group_def decode_shared_memory_def
    decode_memory_barrier_def decode_hs_decls_def decode_phase_marker_def append_phase_def decode_phase_instance_count_def Let_def
  by (intro safe_intros contract_safe assms)+

lemma step_safe:
  assumes "scannable uc bs i" "ss_seen_phase st \<Longrightarrow> sc_hull_phases (ss_contract st) \<noteq> []"
  shows "safe (decode_instruction_contract uc bs i st)"
proof -
  have "safe (decode_other_instruction i st)"
    unfolding decode_other_instruction_def Let_def using assms(2) by (auto intro!: safe_intros contract_safe)
  then show ?thesis
    unfolding decode_instruction_contract_def decode_geometry_instruction_def decode_tessellation_instruction_def Let_def
    by (intro safe_intros contract_safe assms(1))
qed

definition geometry_effect_opcode :: "u32 \<Rightarrow> bool" where
  "geometry_effect_opcode op \<longleftrightarrow> op = OP_EMIT \<or> op = OP_CUT \<or> op = OP_EMIT_STREAM \<or> op = OP_CUT_STREAM"

definition effect_of :: "bytes \<Rightarrow> document_instruction \<Rightarrow> geometry_effect" where
  "effect_of bs i = (let op = inst_opcode i; explicit = (op = OP_EMIT_STREAM \<or> op = OP_CUT_STREAM) in
     \<lparr>ge_kind = (if op = OP_EMIT \<or> op = OP_EMIT_STREAM then DXBC_GEOMETRY_EFFECT_APPEND else DXBC_GEOMETRY_EFFECT_RESTART_STRIP),
      ge_instruction_index = inst_instruction_index i,
      ge_stream_id = (if explicit then ucast (token_at bs i 2) else 0), ge_explicit_stream = explicit\<rparr>)"

definition barrier_of :: "bytes \<Rightarrow> document_instruction \<Rightarrow> memory_barrier" where
  "barrier_of bs i = \<lparr>mb_instruction_index = inst_instruction_index i, mb_flags = ucast (control_of bs i)\<rparr>"

definition shared_of :: "bytes \<Rightarrow> document_instruction \<Rightarrow> shared_memory" where
  "shared_of bs i = (let structured = (inst_opcode i = OP_DCL_TGSM_STRUCTURED); stride = token_at bs i 3;
       n = (if structured then token_at bs i 4 else 1) in
     \<lparr>sm_instruction_index = inst_instruction_index i, sm_register_id = token_at bs i 2, sm_structured = structured,
      sm_byte_stride = (if structured then stride else 0), sm_element_count = (if structured then n else 0),
      sm_byte_count = unat stride * unat n\<rparr>)"

definition marker_of :: "document_instruction \<Rightarrow> hull_phase_kind \<times> nat \<times> nat" where
  "marker_of i = (fst (phase_of_marker (inst_opcode i)), inst_instruction_index i, inst_instruction_index i + 1)"

definition phase_header :: "hull_phase \<Rightarrow> hull_phase_kind \<times> nat \<times> nat" where
  "phase_header p = (hp_kind p, hp_marker_instruction_index p, hp_first_instruction_index p)"

definition having :: "(u32 \<Rightarrow> bool) \<Rightarrow> document_instruction list \<Rightarrow> document_instruction list" where
  "having P insts = filter (\<lambda>i. P (inst_opcode i)) insts"

text \<open>The arrays of the contract list the instructions of their kind, in program order.\<close>

definition arrays_record :: "bytes \<Rightarrow> document_instruction list \<Rightarrow> stage_contract \<Rightarrow> bool" where
  "arrays_record bs insts ct \<longleftrightarrow>
     sc_geometry_effects ct = map (effect_of bs) (having geometry_effect_opcode insts) \<and>
     sc_memory_barriers ct = map (barrier_of bs) (having (\<lambda>op. op = OP_SYNC) insts) \<and>
     sc_thread_group_shared_memory ct =
       map (shared_of bs) (having (\<lambda>op. op = OP_DCL_TGSM_RAW \<or> op = OP_DCL_TGSM_STRUCTURED) insts) \<and>
     map phase_header (sc_hull_phases ct) = map marker_of (having is_hull_phase_marker insts) \<and>
     map hp_end_instruction_index (butlast (sc_hull_phases ct)) =
       map inst_instruction_index (tl (having is_hull_phase_marker insts))"

text \<open>A value that is declared at most once, as the list of its declarations.\<close>

definition slot :: "bool \<Rightarrow> 'a \<Rightarrow> 'a list" where
  "slot present v = (if present then [v] else [])"

definition slots_record :: "bytes \<Rightarrow> document_instruction list \<Rightarrow> stage_contract \<Rightarrow> bool" where
  "slots_record bs insts ct \<longleftrightarrow> (let
     controls = (\<lambda>op. map (control_of bs) (having (\<lambda>o'. o' = op) insts));
     scalars = (\<lambda>op. map (\<lambda>i. token_at bs i 1) (having (\<lambda>o'. o' = op) insts)) in
     slot (sc_has_thread_group_size ct) (sc_thread_group_size ct, sc_thread_group_declaration_instruction_index ct) =
       map (\<lambda>i. ([token_at bs i 1, token_at bs i 2, token_at bs i 3], inst_instruction_index i))
         (having (\<lambda>op. op = OP_DCL_THREAD_GROUP) insts) \<and>
     slot (sc_has_input_primitive ct) (sc_input_primitive ct) = controls OP_DCL_INPUT_PRIMITIVE \<and>
     slot (sc_has_max_output_vertex_count ct) (sc_max_output_vertex_count ct) = scalars OP_DCL_MAX_OUTPUT_VERTEX_COUNT \<and>
     slot (sc_has_geometry_instance_count ct) (sc_geometry_instance_count ct) = scalars OP_DCL_GS_INSTANCE_COUNT \<and>
     slot (sc_has_input_control_point_count ct) (sc_input_control_point_count ct) = controls OP_DCL_INPUT_CONTROL_POINT_COUNT \<and>
     slot (sc_has_output_control_point_count ct) (sc_output_control_point_count ct) = controls OP_DCL_OUTPUT_CONTROL_POINT_COUNT \<and>
     slot (sc_has_tessellator_domain ct) (sc_tessellator_domain ct) = controls OP_DCL_TESSELLATOR_DOMAIN \<and>
     slot (sc_has_tessellator_partitioning ct) (sc_tessellator_partitioning ct) = controls OP_DCL_TESSELLATOR_PARTITIONING \<and>
     slot (sc_has_tessellator_output_primitive ct) (sc_tessellator_output_primitive ct) = controls OP_DCL_TESSELLATOR_OUTPUT_PRIMITIVE \<and>
     slot (sc_has_max_tessellation_factor ct) (sc_max_tessellation_factor_bits ct) = scalars OP_DCL_HS_MAX_TESS_FACTOR \<and>
     (sc_has_output_topology ct \<longleftrightarrow> controls OP_DCL_OUTPUT_TOPOLOGY \<noteq> []) \<and>
     (\<forall>v\<in>set (controls OP_DCL_OUTPUT_TOPOLOGY). v = sc_output_topology ct) \<and>
     sc_declared_stream_mask ct =
       fold (\<lambda>i m. m OR stream_bit (ucast (token_at bs i 2))) (having (\<lambda>op. op = OP_DCL_STREAM) insts) 0)"

definition contract_records :: "bytes \<Rightarrow> document_instruction list \<Rightarrow> stage_contract \<Rightarrow> bool" where
  "contract_records bs insts ct \<longleftrightarrow> arrays_record bs insts ct \<and> slots_record bs insts ct"

lemma having_snoc [simp]: "having P (insts @ [i]) = having P insts @ (if P (inst_opcode i) then [i] else [])" "having P [] = []"
  by (simp_all add: having_def)

lemma token_value: "instruction_token uc bs i k = Done v \<Longrightarrow> scannable uc bs i \<Longrightarrow> v = token_at bs i k"
  using instruction_token_reads(1) [of bs i uc k] by (simp add: scannable_def yields_def)

lemma header_value: "declaration_header uc bs i n = Done v \<Longrightarrow> scannable uc bs i \<Longrightarrow> v = control_of bs i"
  by (auto simp: declaration_header_def outcome_simps control_of_def fail_at_def contract_fail_def
      dest!: token_value split: if_splits)

lemma scalar_value: "scalar_declaration uc bs i = Done v \<Longrightarrow> scannable uc bs i \<Longrightarrow> v = token_at bs i 1"
  by (auto simp: scalar_declaration_def outcome_simps dest!: token_value)

lemma enum_value:
  "decode_enum_declaration uc bs i present validator = Done v \<Longrightarrow> scannable uc bs i \<Longrightarrow> \<not> present \<and> v = control_of bs i"
  by (auto simp: decode_enum_declaration_def declaration_control_def outcome_simps fail_at_def contract_fail_def
      dest!: header_value split: if_splits)

lemma count_value:
  "decode_count_declaration uc bs i scalar m present = Done v \<Longrightarrow> scannable uc bs i \<Longrightarrow>
   \<not> present \<and> v = (if scalar then token_at bs i 1 else control_of bs i)"
  by (auto simp: decode_count_declaration_def declaration_control_def outcome_simps fail_at_def contract_fail_def
      dest!: header_value scalar_value split: if_splits)

lemma tess_factor_value:
  "decode_max_tess_factor uc bs i present = Done v \<Longrightarrow> scannable uc bs i \<Longrightarrow> \<not> present \<and> v = token_at bs i 1"
  by (auto simp: decode_max_tess_factor_def outcome_simps fail_at_def contract_fail_def
      dest!: scalar_value split: if_splits)

lemma effect_result:
  assumes "decode_geometry_effect uc bs i ct
     (if inst_opcode i = OP_EMIT \<or> inst_opcode i = OP_EMIT_STREAM then DXBC_GEOMETRY_EFFECT_APPEND else DXBC_GEOMETRY_EFFECT_RESTART_STRIP)
     (inst_opcode i = OP_EMIT_STREAM \<or> inst_opcode i = OP_CUT_STREAM) = Done ct'" "scannable uc bs i"
  shows "\<exists>c. ct' = ct\<lparr>sc_geometry_effect_capacity := c, sc_geometry_effects := sc_geometry_effects ct @ [effect_of bs i],
     sc_referenced_stream_mask := sc_referenced_stream_mask ct OR stream_bit (ge_stream_id (effect_of bs i))\<rparr>"
  using assms
  by (auto simp: decode_geometry_effect_def append_geometry_effect_def outcome_simps fail_at_def contract_fail_def effect_of_def
      dest!: token_value split: if_splits option.splits)

lemma stream_result:
  "decode_stream uc bs i ct = Done r \<Longrightarrow> scannable uc bs i \<Longrightarrow>
   fst r = ct\<lparr>sc_declared_stream_mask := sc_declared_stream_mask ct OR stream_bit (ucast (token_at bs i 2))\<rparr>"
  by (auto simp: decode_stream_def outcome_simps fail_at_def contract_fail_def Let_def
      dest!: token_value split: if_splits)

lemma barrier_result:
  "decode_memory_barrier uc bs i ct = Done ct' \<Longrightarrow> scannable uc bs i \<Longrightarrow>
   \<exists>c. ct' = ct\<lparr>sc_memory_barrier_capacity := c, sc_memory_barriers := sc_memory_barriers ct @ [barrier_of bs i]\<rparr>"
  by (auto simp: decode_memory_barrier_def outcome_simps fail_at_def contract_fail_def Let_def barrier_of_def
      dest!: header_value split: if_splits option.splits)

lemma shared_result:
  "decode_shared_memory uc bs i ct = Done ct' \<Longrightarrow> scannable uc bs i \<Longrightarrow>
   \<exists>c. ct' = ct\<lparr>sc_thread_group_shared_memory_capacity := c,
     sc_thread_group_shared_memory := sc_thread_group_shared_memory ct @ [shared_of bs i],
     sc_thread_group_shared_memory_bytes := sc_thread_group_shared_memory_bytes ct + sm_byte_count (shared_of bs i)\<rparr>"
  unfolding decode_shared_memory_def Let_def
  by (auto simp: outcome_simps fail_at_def contract_fail_def shared_of_def Let_def
      dest!: token_value split: if_splits option.splits)

lemma group_result:
  "decode_thread_group uc bs i ct = Done ct' \<Longrightarrow> scannable uc bs i \<Longrightarrow>
   \<not> sc_has_thread_group_size ct \<and> ct' = ct\<lparr>sc_has_thread_group_size := True,
     sc_thread_group_size := [token_at bs i 1, token_at bs i 2, token_at bs i 3],
     sc_thread_group_declaration_instruction_index := inst_instruction_index i\<rparr>"
  by (auto simp: decode_thread_group_def outcome_simps fail_at_def contract_fail_def Let_def upt_rec thread_group_axis_def
      numeral_2_eq_2 numeral_3_eq_3 dest!: token_value split: if_splits)

text \<open>
  A family of views of the contract, one per opcode class; a handler appends to the view of its own
  class and leaves the others.
\<close>

lemmas record_defs = contract_records_def arrays_record_def slots_record_def slot_def Let_def

lemmas record_simps = record_defs geometry_effect_opcode_def is_hull_phase_marker_def

lemma effect_records:
  assumes "contract_records bs insts ct" "geometry_effect_opcode (inst_opcode i)"
  shows "contract_records bs (insts @ [i]) (ct\<lparr>sc_geometry_effect_capacity := c,
     sc_geometry_effects := sc_geometry_effects ct @ [effect_of bs i], sc_referenced_stream_mask := m\<rparr>)"
  using assms(1) assms(2) [unfolded geometry_effect_opcode_def]
  by (elim disjE) (simp_all add: record_simps)

lemma barrier_records:
  "contract_records bs insts ct \<Longrightarrow> inst_opcode i = OP_SYNC \<Longrightarrow> contract_records bs (insts @ [i]) (ct\<lparr>sc_memory_barrier_capacity := c,
     sc_memory_barriers := sc_memory_barriers ct @ [barrier_of bs i]\<rparr>)"
  by (simp add: record_simps)

lemma shared_records:
  "contract_records bs insts ct \<Longrightarrow> inst_opcode i = OP_DCL_TGSM_RAW \<or> inst_opcode i = OP_DCL_TGSM_STRUCTURED \<Longrightarrow>
   contract_records bs (insts @ [i]) (ct\<lparr>sc_thread_group_shared_memory_capacity := c,
     sc_thread_group_shared_memory := sc_thread_group_shared_memory ct @ [shared_of bs i],
     sc_thread_group_shared_memory_bytes := n\<rparr>)"
  by (elim disjE) (simp_all add: record_simps)

lemma group_records:
  "contract_records bs insts ct \<Longrightarrow> inst_opcode i = OP_DCL_THREAD_GROUP \<Longrightarrow> \<not> sc_has_thread_group_size ct \<Longrightarrow>
   contract_records bs (insts @ [i]) (ct\<lparr>sc_has_thread_group_size := True,
     sc_thread_group_size := [token_at bs i 1, token_at bs i 2, token_at bs i 3],
     sc_thread_group_declaration_instruction_index := inst_instruction_index i\<rparr>)"
  by (simp add: record_simps)

definition unrecorded :: "u32 \<Rightarrow> bool" where
  "unrecorded op \<longleftrightarrow> \<not> geometry_effect_opcode op \<and> \<not> is_hull_phase_marker op \<and> op \<noteq> OP_SYNC \<and> op \<noteq> OP_DCL_TGSM_RAW \<and>
     op \<noteq> OP_DCL_TGSM_STRUCTURED \<and> op \<noteq> OP_DCL_THREAD_GROUP \<and> op \<noteq> OP_DCL_INPUT_PRIMITIVE \<and> op \<noteq> OP_DCL_MAX_OUTPUT_VERTEX_COUNT \<and>
     op \<noteq> OP_DCL_GS_INSTANCE_COUNT \<and> op \<noteq> OP_DCL_INPUT_CONTROL_POINT_COUNT \<and> op \<noteq> OP_DCL_OUTPUT_CONTROL_POINT_COUNT \<and>
     op \<noteq> OP_DCL_TESSELLATOR_DOMAIN \<and> op \<noteq> OP_DCL_TESSELLATOR_PARTITIONING \<and> op \<noteq> OP_DCL_TESSELLATOR_OUTPUT_PRIMITIVE \<and>
     op \<noteq> OP_DCL_HS_MAX_TESS_FACTOR \<and> op \<noteq> OP_DCL_OUTPUT_TOPOLOGY \<and> op \<noteq> OP_DCL_STREAM"

lemma unrecorded_records:
  "contract_records bs insts ct \<Longrightarrow> unrecorded (inst_opcode i) \<Longrightarrow> contract_records bs (insts @ [i]) ct"
  by (simp add: record_defs unrecorded_def)

lemma geometry_records:
  assumes "scannable uc bs i" "contract_records bs insts (ss_contract st)" "is_geometry_case (inst_opcode i)"
  shows "yields (\<lambda>st'. contract_records bs (insts @ [i]) (ss_contract st')) (decode_geometry_instruction uc bs i st)"
proof -
  have gs: "inst_opcode i = OP_DCL_GS_INSTANCE_COUNT" if "\<not> geometry_effect_opcode (inst_opcode i)" "inst_opcode i \<noteq> OP_DCL_INPUT_PRIMITIVE"
    "inst_opcode i \<noteq> OP_DCL_OUTPUT_TOPOLOGY" "inst_opcode i \<noteq> OP_DCL_MAX_OUTPUT_VERTEX_COUNT" "inst_opcode i \<noteq> OP_DCL_STREAM"
    using assms(3) that by (auto simp: is_geometry_case_def geometry_effect_opcode_def)
  show ?thesis
    unfolding decode_geometry_instruction_def Let_def geometry_effect_opcode_def [symmetric]
    by (intro yields_intros; (drule enum_value [OF _ assms(1)])?; (drule count_value [OF _ assms(1)])?;
        (drule stream_result [OF _ assms(1)])?; (drule effect_result [OF _ assms(1)])?; (drule (4) gs)?;
        (elim exE)?; insert assms(2))
      (simp add: effect_records, simp add: record_simps, force simp: record_simps, simp_all add: record_simps)
qed

lemma tessellation_cases:
  "is_tessellation_case op \<longleftrightarrow> op = 147 \<or> op = 148 \<or> op = 149 \<or> op = 150 \<or> op = 151 \<or> op = 152 \<or> op = 153 \<or> op = 154"
proof -
  have "is_tessellation_case op \<longleftrightarrow> 147 \<le> unat op \<and> unat op \<le> 154" by (simp add: is_tessellation_case_def word_le_nat_alt)
  also have "\<dots> \<longleftrightarrow> unat op \<in> {147, 148, 149, 150, 151, 152, 153, 154}" by auto
  also have "\<dots> \<longleftrightarrow> op \<in> {147, 148, 149, 150, 151, 152, 153, 154}"
    using unat_inject [of op 147] unat_inject [of op 148] unat_inject [of op 149] unat_inject [of op 150]
      unat_inject [of op 151] unat_inject [of op 152] unat_inject [of op 153] unat_inject [of op 154]
    by (simp del: unat_inject)
  finally show ?thesis by simp
qed

lemma phase_header_list_update:
  "k < length ps \<Longrightarrow> phase_header q = phase_header (ps ! k) \<Longrightarrow> map phase_header (ps[k := q]) = map phase_header ps"
  by (simp add: map_update list_update_same_conv)

lemma butlast_update_last: "butlast (ps[length ps - Suc 0 := q]) = butlast ps"
  by (cases ps rule: rev_cases) (simp_all add: list_update_append)

lemma phases_records:
  assumes "contract_records bs insts ct" "map phase_header ps = map phase_header (sc_hull_phases ct)"
    "map hp_end_instruction_index (butlast ps) = map hp_end_instruction_index (butlast (sc_hull_phases ct))"
  shows "contract_records bs insts (ct\<lparr>sc_hull_phases := ps\<rparr>)"
  using assms by (simp add: record_defs)

lemma end_last_phase_header [simp]: "ps \<noteq> [] \<Longrightarrow> map phase_header (end_last_phase e ps) = map phase_header ps"
  by (simp add: end_last_phase_def phase_header_list_update phase_header_def)

lemma butlast_end_last_phase [simp]: "butlast (end_last_phase e ps) = butlast ps"
  by (simp add: end_last_phase_def butlast_update_last)

lemma instance_count_records:
  assumes "contract_records bs insts (ss_contract st)" "unrecorded (inst_opcode i)"
  shows "yields (contract_records bs (insts @ [i])) (decode_phase_instance_count uc bs i st)"
  unfolding decode_phase_instance_count_def Let_def
  by (intro yields_intros phases_records unrecorded_records [OF assms])
    (auto simp: butlast_update_last phase_header_list_update phase_header_def)

lemma tessellation_records:
  assumes "scannable uc bs i" "contract_records bs insts (ss_contract st)" "is_tessellation_case (inst_opcode i)"
  shows "yields (\<lambda>st'. contract_records bs (insts @ [i]) (ss_contract st')) (decode_tessellation_instruction uc bs i st)"
proof -
  have tess: "inst_opcode i = OP_DCL_HS_MAX_TESS_FACTOR" if "inst_opcode i \<noteq> OP_DCL_INPUT_CONTROL_POINT_COUNT"
    "inst_opcode i \<noteq> OP_DCL_TESSELLATOR_DOMAIN"
    "\<not> (inst_opcode i = OP_DCL_HS_FORK_PHASE_INSTANCE_COUNT \<or> inst_opcode i = OP_DCL_HS_JOIN_PHASE_INSTANCE_COUNT)"
    "inst_opcode i \<noteq> OP_DCL_OUTPUT_CONTROL_POINT_COUNT" "inst_opcode i \<noteq> OP_DCL_TESSELLATOR_PARTITIONING"
    "inst_opcode i \<noteq> OP_DCL_TESSELLATOR_OUTPUT_PRIMITIVE"
    using assms(3) that unfolding tessellation_cases by auto
  have inst: "unrecorded (inst_opcode i)"
    if "inst_opcode i = OP_DCL_HS_FORK_PHASE_INSTANCE_COUNT \<or> inst_opcode i = OP_DCL_HS_JOIN_PHASE_INSTANCE_COUNT"
    using that by (auto simp: unrecorded_def geometry_effect_opcode_def is_hull_phase_marker_def)
  show ?thesis
    unfolding decode_tessellation_instruction_def Let_def
    by (intro yields_intros; (drule enum_value [OF _ assms(1)])?; (drule count_value [OF _ assms(1)])?;
        (drule tess_factor_value [OF _ assms(1)])?; (drule (5) tess)?;
        (drule yieldsD [OF instance_count_records [OF assms(2) inst], rotated])?)
      (use assms(2) in \<open>auto simp: record_simps\<close>)
qed

definition new_phase :: "hull_phase_kind \<Rightarrow> document_instruction \<Rightarrow> hull_phase" where
  "new_phase kind i = \<lparr>hp_kind = kind, hp_marker_instruction_index = inst_instruction_index i,
     hp_first_instruction_index = inst_instruction_index i + 1, hp_end_instruction_index = inst_instruction_index i + 1,
     hp_instance_count_declared = False, hp_instance_count = 1\<rparr>"

lemma append_phase_result:
  "append_phase uc ct kind i = Done ct' \<Longrightarrow>
   \<exists>c. ct' = ct\<lparr>sc_hull_phase_capacity := c, sc_hull_phases := sc_hull_phases ct @ [new_phase kind i]\<rparr>"
  by (auto simp: append_phase_def fail_at_def contract_fail_def new_phase_def split: option.splits)

lemma map_end_last_phase:
  "ps \<noteq> [] \<Longrightarrow> map hp_end_instruction_index (end_last_phase e ps) = map hp_end_instruction_index (butlast ps) @ [e]"
  by (cases ps rule: rev_cases) (simp_all add: end_last_phase_def list_update_append)

lemma marker_append_records:
  assumes "contract_records bs insts ct" "is_hull_phase_marker (inst_opcode i)" "p = new_phase (fst (phase_of_marker (inst_opcode i))) i"
  shows "contract_records bs (insts @ [i]) (ct\<lparr>sc_hull_phase_capacity := c, sc_hull_phases :=
     (if sc_hull_phases ct = [] then [] else end_last_phase (inst_instruction_index i) (sc_hull_phases ct)) @ [p]\<rparr>)"
proof -
  let ?ps = "sc_hull_phases ct" and ?ms = "having is_hull_phase_marker insts"
  have op: "114 \<le> inst_opcode i" "inst_opcode i \<le> 116" using assms(2) by (simp_all add: is_hull_phase_marker_def)
  have other: "inst_opcode i \<noteq> k" if "k < 114 \<or> 116 < k" for k
    using op that by auto
  have effect: "\<not> geometry_effect_opcode (inst_opcode i)" by (simp add: geometry_effect_opcode_def other)
  have hdr: "map phase_header ?ps = map marker_of ?ms"
    and ends: "map hp_end_instruction_index (butlast ?ps) = map inst_instruction_index (tl ?ms)"
    using assms(1) by (simp_all add: contract_records_def arrays_record_def)
  have "?ps = [] \<longleftrightarrow> ?ms = []" using arg_cong [OF hdr, of length] by auto
  then show ?thesis
    using assms hdr ends
    by (simp add: record_defs other effect map_end_last_phase phase_header_def new_phase_def marker_of_def)
qed

lemma phase_marker_records:
  assumes "contract_records bs insts (ss_contract st)" "is_hull_phase_marker (inst_opcode i)"
  shows "yields (\<lambda>st'. contract_records bs (insts @ [i]) (ss_contract st')) (decode_phase_marker uc bs i st)"
  unfolding decode_phase_marker_def Let_def
  by (intro yields_intros; drule append_phase_result)
    (use marker_append_records [OF assms refl] in \<open>auto split: if_splits\<close>)

lemma other_records:
  assumes "contract_records bs insts (ss_contract st)" "unrecorded (inst_opcode i)"
  shows "yields (\<lambda>st'. contract_records bs (insts @ [i]) (ss_contract st')) (decode_other_instruction i st)"
  unfolding decode_other_instruction_def Let_def
  by (intro yields_intros) (use unrecorded_records [OF assms] in \<open>simp_all add: phases_records\<close>)

lemma step_records:
  assumes "scannable uc bs i" "contract_records bs insts (ss_contract st)"
  shows "yields (\<lambda>st'. contract_records bs (insts @ [i]) (ss_contract st')) (decode_instruction_contract uc bs i st)"
proof -
  let ?op = "inst_opcode i"
  have hs: "unrecorded OP_HS_DECLS" by (simp add: unrecorded_def geometry_effect_opcode_def is_hull_phase_marker_def)
  have rest: "unrecorded ?op" if "\<not> is_geometry_case ?op" "\<not> is_tessellation_case ?op" "\<not> is_hull_phase_marker ?op" "?op \<noteq> OP_SYNC"
    "\<not> (?op = OP_DCL_THREAD_GROUP \<or> ?op = OP_DCL_TGSM_RAW \<or> ?op = OP_DCL_TGSM_STRUCTURED)"
    using that by (auto simp: unrecorded_def is_geometry_case_def tessellation_cases geometry_effect_opcode_def)
  have decls: "yields (\<lambda>st'. contract_records bs (insts @ [i]) (ss_contract st')) (decode_hs_decls uc bs i st)"
    if "?op = OP_HS_DECLS"
    unfolding decode_hs_decls_def Let_def
    by (intro yields_intros) (use unrecorded_records [OF assms(2)] hs that in simp)
  have compute: "contract_records bs (insts @ [i]) ct'"
    if "(if ?op = OP_DCL_THREAD_GROUP then decode_thread_group uc bs i (ss_contract st)
       else decode_shared_memory uc bs i (ss_contract st)) = Done ct'"
      "?op = OP_DCL_THREAD_GROUP \<or> ?op = OP_DCL_TGSM_RAW \<or> ?op = OP_DCL_TGSM_STRUCTURED" for ct'
    using that by (auto dest!: group_result [OF _ assms(1)] shared_result [OF _ assms(1)]
        intro: group_records [OF assms(2), simplified] shared_records [OF assms(2)] split: if_splits)
  show ?thesis
    unfolding decode_instruction_contract_def Let_def
    by (intro yields_intros geometry_records [OF assms] tessellation_records [OF assms] phase_marker_records [OF assms(2)]
        other_records [OF assms(2)] decls rest; (drule barrier_result [OF _ assms(1)])?; (drule (1) compute)?)
      (use barrier_records [OF assms(2)] in auto)
qed

section \<open>Order of declarations and phases\<close>

definition program_header :: "stage_contract \<Rightarrow> u32 \<times> u32 \<times> u8 \<times> u8 \<times> nat \<times> nat \<times> nat" where
  "program_header ct = (sc_version_token ct, sc_program_type ct, sc_shader_model_major ct, sc_shader_model_minor ct,
     sc_executable_chunk_index ct, sc_first_instruction_index ct, sc_end_instruction_index ct)"

fun phase_rank :: "hull_phase_kind \<Rightarrow> nat" where
  "phase_rank DXBC_HULL_PHASE_CONTROL_POINT = 0"
| "phase_rank DXBC_HULL_PHASE_FORK = 1"
| "phase_rank DXBC_HULL_PHASE_JOIN = 2"

text \<open>The phases come in the order control point, fork, join, with at most one control point phase.\<close>

definition phases_ordered :: "hull_phase_kind list \<Rightarrow> bool" where
  "phases_ordered ks \<longleftrightarrow> sorted (map phase_rank ks) \<and> count_list ks DXBC_HULL_PHASE_CONTROL_POINT \<le> 1"

abbreviation (input) phase_kinds :: "scan_state \<Rightarrow> hull_phase_kind list" where
  "phase_kinds st \<equiv> map hp_kind (sc_hull_phases (ss_contract st))"

definition phase_flags :: "scan_state \<Rightarrow> bool" where
  "phase_flags st \<longleftrightarrow> phases_ordered (phase_kinds st) \<and>
     (ss_seen_phase st \<longleftrightarrow> phase_kinds st \<noteq> []) \<and>
     (ss_seen_control_point_phase st \<longleftrightarrow> DXBC_HULL_PHASE_CONTROL_POINT \<in> set (phase_kinds st)) \<and>
     (\<forall>k\<in>set (phase_kinds st). phase_rank k \<le> ss_hull_phase_order st)"

abbreviation (input) is_decl :: "document_instruction \<Rightarrow> bool" where
  "is_decl i \<equiv> is_declaration_opcode (inst_opcode i)"

definition declarations_first :: "document_instruction list \<Rightarrow> bool" where
  "declarations_first insts \<longleftrightarrow> sorted_wrt (\<lambda>a b. is_decl b \<longrightarrow> is_decl a) insts"

definition order_flags :: "document_instruction list \<Rightarrow> scan_state \<Rightarrow> bool" where
  "order_flags insts st \<longleftrightarrow> sc_program_type (ss_contract st) \<noteq> DXBC_PROGRAM_TYPE_HULL \<longrightarrow>
     (ss_seen_any_executable st \<longleftrightarrow> (\<exists>i\<in>set insts. \<not> is_decl i)) \<and> declarations_first insts"

definition opening_flags :: "document_instruction list \<Rightarrow> scan_state \<Rightarrow> bool" where
  "opening_flags insts st \<longleftrightarrow> (ss_seen_hs_decls st \<longleftrightarrow> having (\<lambda>op. op = OP_HS_DECLS) insts \<noteq> []) \<and>
     (\<forall>i\<in>set (having (\<lambda>op. op = OP_HS_DECLS) insts). inst_instruction_index i = sc_first_instruction_index (ss_contract st))"

text \<open>What a handler leaves alone.\<close>

definition quiet :: "scan_state \<Rightarrow> scan_state \<Rightarrow> bool" where
  "quiet st st' \<longleftrightarrow> program_header (ss_contract st') = program_header (ss_contract st) \<and>
     phase_kinds st' = phase_kinds st \<and> ss_seen_phase st' = ss_seen_phase st \<and> ss_seen_hs_decls st' = ss_seen_hs_decls st \<and>
     ss_seen_control_point_phase st' = ss_seen_control_point_phase st \<and> ss_hull_phase_order st' = ss_hull_phase_order st"

definition quiet_contract :: "stage_contract \<Rightarrow> stage_contract \<Rightarrow> bool" where
  "quiet_contract ct ct' \<longleftrightarrow> program_header ct' = program_header ct \<and>
     map hp_kind (sc_hull_phases ct') = map hp_kind (sc_hull_phases ct)"

lemma hp_kind_list_update:
  "k < length ps \<Longrightarrow> hp_kind q = hp_kind (ps ! k) \<Longrightarrow> map hp_kind (ps[k := q]) = map hp_kind ps"
  by (simp add: map_update list_update_same_conv)

lemma end_last_phase_kinds [simp]: "ps \<noteq> [] \<Longrightarrow> map hp_kind (end_last_phase e ps) = map hp_kind ps"
  by (simp add: end_last_phase_def hp_kind_list_update)

lemma decoders_quiet:
  "yields (quiet_contract ct) (decode_geometry_effect uc bs i ct kind explicit)"
  "yields (\<lambda>r. quiet_contract ct (fst r)) (decode_stream uc bs i ct)"
  "yields (quiet_contract ct) (decode_thread_group uc bs i ct)" "yields (quiet_contract ct) (decode_shared_memory uc bs i ct)"
  "yields (quiet_contract ct) (decode_memory_barrier uc bs i ct)"
  "yields (quiet_contract (ss_contract st)) (decode_phase_instance_count uc bs i st)"
  unfolding decode_geometry_effect_def append_geometry_effect_def decode_stream_def decode_thread_group_def decode_shared_memory_def
    decode_memory_barrier_def decode_phase_instance_count_def Let_def
  by (intro yields_intros; simp add: quiet_contract_def program_header_def hp_kind_list_update)+

lemma handlers_quiet:
  "yields (quiet st) (decode_geometry_instruction uc bs i st)" "yields (quiet st) (decode_tessellation_instruction uc bs i st)"
  "yields (quiet st) (decode_other_instruction i st)"
  unfolding decode_geometry_instruction_def decode_tessellation_instruction_def decode_other_instruction_def Let_def
  by (intro yields_intros; (drule yieldsD [OF decoders_quiet(1)])?; (drule yieldsD [OF decoders_quiet(2)])?;
      (drule yieldsD [OF decoders_quiet(6)])?; simp add: quiet_def quiet_contract_def program_header_def)+

lemma quiet_flags:
  assumes "quiet st st'" "phase_flags st" "opening_flags insts st" "inst_opcode i \<noteq> OP_HS_DECLS"
  shows "phase_flags st' \<and> opening_flags (insts @ [i]) st' \<and> program_header (ss_contract st') = program_header (ss_contract st)"
  using assms by (simp add: quiet_def phase_flags_def opening_flags_def program_header_def)

lemma phases_ordered_snoc:
  assumes "phases_ordered ks" "\<forall>k\<in>set ks. phase_rank k \<le> n" "n \<le> phase_rank kind"
    "kind = DXBC_HULL_PHASE_CONTROL_POINT \<longrightarrow> DXBC_HULL_PHASE_CONTROL_POINT \<notin> set ks"
  shows "phases_ordered (ks @ [kind])" "\<forall>k\<in>set (ks @ [kind]). phase_rank k \<le> phase_rank kind"
  using assms by (auto simp: phases_ordered_def sorted_append count_list_0_iff dest: order_trans)

lemma phase_marker_result:
  "yields (\<lambda>st'. \<exists>kind. program_header (ss_contract st') = program_header (ss_contract st) \<and> phase_kinds st' = phase_kinds st @ [kind] \<and>
     ss_hull_phase_order st \<le> phase_rank kind \<and> ss_hull_phase_order st' = phase_rank kind \<and> ss_seen_phase st' \<and>
     (kind = DXBC_HULL_PHASE_CONTROL_POINT \<longrightarrow> \<not> ss_seen_control_point_phase st) \<and>
     (ss_seen_control_point_phase st' \<longleftrightarrow> ss_seen_control_point_phase st \<or> kind = DXBC_HULL_PHASE_CONTROL_POINT) \<and>
     ss_seen_hs_decls st' = ss_seen_hs_decls st) (decode_phase_marker uc bs i st)"
proof -
  have rank: "snd (phase_of_marker op) = phase_rank (fst (phase_of_marker op))" for op by simp
  show ?thesis
    unfolding decode_phase_marker_def Let_def rank
    by (intro yields_intros exI [of _ "fst (phase_of_marker (inst_opcode i))"]; drule append_phase_result)
      (auto simp: program_header_def new_phase_def simp del: phase_of_marker.simps split: if_splits)
qed

lemma phase_marker_flags:
  assumes "phase_flags st" "opening_flags insts st" "is_hull_phase_marker (inst_opcode i)"
  shows "yields (\<lambda>st'. phase_flags st' \<and> opening_flags (insts @ [i]) st' \<and>
     program_header (ss_contract st') = program_header (ss_contract st)) (decode_phase_marker uc bs i st)"
  unfolding yields_def
proof (intro allI impI)
  fix st' assume "decode_phase_marker uc bs i st = Done st'"
  from yieldsD [OF phase_marker_result this] obtain kind where
    r: "program_header (ss_contract st') = program_header (ss_contract st)" "phase_kinds st' = phase_kinds st @ [kind]"
     "ss_hull_phase_order st \<le> phase_rank kind" "ss_hull_phase_order st' = phase_rank kind" "ss_seen_phase st'"
     "kind = DXBC_HULL_PHASE_CONTROL_POINT \<longrightarrow> \<not> ss_seen_control_point_phase st"
     "ss_seen_control_point_phase st' \<longleftrightarrow> ss_seen_control_point_phase st \<or> kind = DXBC_HULL_PHASE_CONTROL_POINT"
     "ss_seen_hs_decls st' = ss_seen_hs_decls st" by blast
  have op: "inst_opcode i \<noteq> OP_HS_DECLS" using assms(3) by (auto simp: is_hull_phase_marker_def)
  have "phase_flags st'"
    using phases_ordered_snoc [of "phase_kinds st" "ss_hull_phase_order st" kind] assms(1) r(2-7)
    unfolding phase_flags_def by auto
  moreover have "opening_flags (insts @ [i]) st'"
    using assms(2) r(1,8) op by (simp add: opening_flags_def program_header_def)
  ultimately show "phase_flags st' \<and> opening_flags (insts @ [i]) st' \<and>
     program_header (ss_contract st') = program_header (ss_contract st)" using r(1) by simp
qed

lemma step_flags:
  assumes "phase_flags st" "opening_flags insts st"
  shows "yields (\<lambda>st'. phase_flags st' \<and> opening_flags (insts @ [i]) st' \<and>
     program_header (ss_contract st') = program_header (ss_contract st)) (decode_instruction_contract uc bs i st)"
proof -
  note q = quiet_flags [OF _ assms]
  have decls: "yields (\<lambda>st'. phase_flags st' \<and> opening_flags (insts @ [i]) st' \<and>
     program_header (ss_contract st') = program_header (ss_contract st)) (decode_hs_decls uc bs i st)"
    if "inst_opcode i = OP_HS_DECLS"
    unfolding decode_hs_decls_def Let_def
    by (intro yields_intros) (use assms that in \<open>auto simp: phase_flags_def opening_flags_def program_header_def\<close>)
  have quiet: "yields (\<lambda>st'. phase_flags st' \<and> opening_flags (insts @ [i]) st' \<and>
     program_header (ss_contract st') = program_header (ss_contract st)) m"
    if "yields (quiet st) m" "inst_opcode i \<noteq> OP_HS_DECLS" for m :: "(contract_diagnostic, scan_state) outcome"
    using that q by (auto simp: yields_def)
  have lift: "quiet st (st\<lparr>ss_contract := ct'\<rparr>)" "quiet st (st\<lparr>ss_seen_any_executable := True, ss_contract := ct'\<rparr>)"
    if "quiet_contract (ss_contract st) ct'" for ct'
    using that by (simp_all add: quiet_def quiet_contract_def)
  have compute: "quiet_contract (ss_contract st) ct'"
    if "(if inst_opcode i = OP_DCL_THREAD_GROUP then decode_thread_group uc bs i (ss_contract st)
       else decode_shared_memory uc bs i (ss_contract st)) = Done ct'" for ct'
    using that by (auto dest: yieldsD [OF decoders_quiet(3)] yieldsD [OF decoders_quiet(4)] split: if_splits)
  show ?thesis
    unfolding decode_instruction_contract_def Let_def
    by (intro yields_intros decls phase_marker_flags assms quiet [OF handlers_quiet(1)] quiet [OF handlers_quiet(2)]
        quiet [OF handlers_quiet(3)] q lift; (erule compute)?; (drule yieldsD [OF decoders_quiet(5)])?) auto
qed

lemma opcode_classes:
  "is_geometry_case op \<Longrightarrow> geometry_effect_opcode op \<or> stage_level_declaration op \<and> is_declaration_opcode op"
  "geometry_effect_opcode op \<Longrightarrow> \<not> is_declaration_opcode op"
  "is_tessellation_case op \<Longrightarrow> is_declaration_opcode op"
  "is_tessellation_case op \<Longrightarrow> op = OP_DCL_HS_FORK_PHASE_INSTANCE_COUNT \<or> op = OP_DCL_HS_JOIN_PHASE_INSTANCE_COUNT \<or>
     stage_level_declaration op"
  unfolding tessellation_cases
  by (auto simp: is_geometry_case_def geometry_effect_opcode_def stage_level_declaration_def is_declaration_opcode_def)

lemma step_order:
  assumes "sc_program_type (ss_contract st) \<noteq> DXBC_PROGRAM_TYPE_HULL"
  shows "yields (\<lambda>st'. (ss_seen_any_executable st' \<longleftrightarrow> ss_seen_any_executable st \<or> \<not> is_decl i) \<and>
     (is_decl i \<longrightarrow> \<not> ss_seen_any_executable st)) (decode_instruction_contract uc bs i st)"
proof -
  let ?op = "inst_opcode i"
  let ?Q = "\<lambda>st'. (ss_seen_any_executable st' \<longleftrightarrow> ss_seen_any_executable st \<or> \<not> is_decl i) \<and> (is_decl i \<longrightarrow> \<not> ss_seen_any_executable st)"
  have compute: "is_decl i" if "?op = OP_DCL_THREAD_GROUP \<or> ?op = OP_DCL_TGSM_RAW \<or> ?op = OP_DCL_TGSM_STRUCTURED"
    using that by (auto simp: is_declaration_opcode_def)
  have sync: "\<not> is_decl i" if "?op = OP_SYNC" using that by (simp add: is_declaration_opcode_def)
  have geometry: "yields ?Q (decode_geometry_instruction uc bs i st)"
    if "is_geometry_case ?op" "\<not> (stage_level_declaration ?op \<and> (ss_seen_any_executable st \<or> b))" for b
    unfolding decode_geometry_instruction_def Let_def geometry_effect_opcode_def [symmetric]
    by (intro yields_intros) (use that opcode_classes(1,2) [of ?op] in \<open>auto simp: geometry_effect_opcode_def\<close>)
  have tessellation: "yields ?Q (decode_tessellation_instruction uc bs i st)"
    if "is_tessellation_case ?op" "\<not> (stage_level_declaration ?op \<and> (ss_seen_any_executable st \<or> b))" for b
    unfolding decode_tessellation_instruction_def decode_phase_instance_count_def Let_def
    by (intro yields_intros) (use that assms opcode_classes(3,4) [of ?op] in \<open>auto simp: outcome_simps stage_mismatch_def fail_at_def contract_fail_def\<close>)
  have other: "yields ?Q (decode_other_instruction i st)"
    unfolding decode_other_instruction_def Let_def by (intro yields_intros) (use assms in auto)
  have hull: "yields ?Q (decode_hs_decls uc bs i st)" "yields ?Q (decode_phase_marker uc bs i st)"
    using assms by (simp_all add: decode_hs_decls_def decode_phase_marker_def yields_def stage_mismatch_def fail_at_def contract_fail_def)
  show ?thesis
    unfolding decode_instruction_contract_def Let_def
    by (intro yields_intros geometry tessellation other hull; (assumption | (use compute sync in simp))?)
qed

section \<open>The scan as a whole\<close>

definition scan_inv :: "bytes \<Rightarrow> stage_contract \<Rightarrow> document_instruction list \<Rightarrow> scan_state \<Rightarrow> bool" where
  "scan_inv bs ct0 insts st \<longleftrightarrow> contract_limits (ss_contract st) \<and> contract_records bs insts (ss_contract st) \<and>
     phase_flags st \<and> opening_flags insts st \<and> order_flags insts st \<and>
     program_header (ss_contract st) = program_header ct0"

lemma program_header_type: "program_header ct = program_header ct' \<Longrightarrow> sc_program_type ct = sc_program_type ct'"
  by (simp add: program_header_def)

lemma order_flags_step:
  assumes "order_flags insts st" "decode_instruction_contract uc bs i st = Done st'"
    "program_header (ss_contract st') = program_header (ss_contract st)"
  shows "order_flags (insts @ [i]) st'"
proof (cases "sc_program_type (ss_contract st) = DXBC_PROGRAM_TYPE_HULL")
  case False
  from yieldsD [OF step_order [OF False] assms(2)] assms(1) False program_header_type [OF assms(3)] show ?thesis
    by (auto simp: order_flags_def declarations_first_def sorted_wrt_append)
qed (use program_header_type [OF assms(3)] in \<open>simp add: order_flags_def\<close>)

interpretation contract_scan: prefix_loop "decode_instruction_contract uc bs" "scan_inv bs ct0" "scannable uc bs" for uc bs ct0
proof
  fix seen st i st'
  assume inv: "scan_inv bs ct0 seen st" and ok: "scannable uc bs i"
  show "decode_instruction_contract uc bs i st \<noteq> Fault"
    using inv by (intro safeD step_safe [OF ok]) (auto simp: scan_inv_def phase_flags_def)
  assume step: "decode_instruction_contract uc bs i st = Done st'"
  from inv have pre: "contract_limits (ss_contract st)" "contract_records bs seen (ss_contract st)" "phase_flags st"
    "opening_flags seen st" "order_flags seen st" "program_header (ss_contract st) = program_header ct0"
    by (simp_all add: scan_inv_def)
  note flags = yieldsD [OF step_flags [OF pre(3,4)] step]
  show "scan_inv bs ct0 (seen @ [i]) st'"
    using yieldsD [OF step_keeps_limits [OF pre(1)] step] yieldsD [OF step_records [OF ok pre(2)] step] flags
      order_flags_step [OF pre(5) step] pre(6)
    by (simp add: scan_inv_def)
qed

lemma init_scan_inv:
  fixes t p a b k f e
  defines "ct \<equiv> dxbc_stage_contract_init\<lparr>sc_version_token := t, sc_program_type := p, sc_shader_model_major := a,
     sc_shader_model_minor := b, sc_executable_chunk_index := k, sc_first_instruction_index := f, sc_end_instruction_index := e\<rparr>"
  shows "scan_inv bs ct [] (initial_scan ct)"
proof -
  have "contract_limits ct" "contract_records bs [] ct" "sc_hull_phases ct = []"
    by (simp_all add: ct_def contract_limits_def limit_defs record_defs dxbc_stage_contract_init_def count_limit_def)
  then show ?thesis
    by (simp add: scan_inv_def initial_scan_def phase_flags_def phases_ordered_def opening_flags_def order_flags_def
        declarations_first_def)
qed

lemma find_executable_result:
  "ofold find_executable cs found = Done r \<Longrightarrow>
   (case found of None \<Rightarrow> [] | Some c \<Rightarrow> [c]) @ filter (\<lambda>c. chunk_kind c = DXBC_DOCUMENT_CHUNK_EXECUTABLE) cs =
   (case r of None \<Rightarrow> [] | Some c \<Rightarrow> [c])"
proof (induction cs arbitrary: found)
  case (Cons c cs)
  then show ?case
    using Cons.IH [of found] Cons.IH [of "Some c"]
    by (cases found; cases "chunk_kind c = DXBC_DOCUMENT_CHUNK_EXECUTABLE")
      (auto simp: outcome_simps find_executable_def contract_fail_def)
qed simp

lemma find_executable_safe: "ofold find_executable cs found \<noteq> Fault"
  by (intro safeD safe_ofold) (auto simp: find_executable_def contract_fail_def safe_def split: option.split)

lemma instruction_range_started:
  "\<forall>i\<in>set insts. inst_chunk_index i = k \<Longrightarrow> first \<noteq> SIZE_MAX \<Longrightarrow>
   instruction_range insts k n (first, n) = (first, n + length insts)"
  by (induction insts arbitrary: n) (auto dest: spec [of _ "Suc n" for n])

lemma instruction_range_all:
  "\<forall>i\<in>set insts. inst_chunk_index i = k \<Longrightarrow>
   instruction_range insts k 0 (SIZE_MAX, 0) = (if insts = [] then SIZE_MAX else 0, length insts)"
  using instruction_range_started [of "tl insts" k 0 1] by (cases insts) auto

lemma tiles_indices: "tiles po ci declared wo ii insts \<Longrightarrow> map inst_instruction_index insts = [ii..<ii + length insts]"
  by (induction po ci declared wo ii insts rule: tiles.induct) (auto simp: upt_conv_Cons simp del: upt_Suc)

lemma single_executable:
  assumes "document_ok bs doc" "filter (\<lambda>c. chunk_kind c = DXBC_DOCUMENT_CHUNK_EXECUTABLE) (doc_chunks doc) = [c]"
  shows "\<forall>i\<in>set (doc_instructions doc). inst_chunk_index i = chunk_table_index c"
    and "map inst_instruction_index (doc_instructions doc) = [0..<length (doc_instructions doc)]"
    and "chunk_payload_bytes c + 8 \<le> length bs"
proof -
  let ?cs = "doc_chunks doc"
  have table: "chunk_table_index (?cs ! j) = j" "chunk_payload_bytes (?cs ! j) + unat (chunk_payload_size (?cs ! j)) \<le> length bs"
    if "j < length ?cs" for j
    using assms(1) that by (auto simp: document_ok_def chunk_table_ok_def chunk_ok_def chunk_end_def)
  have in_c: "?cs ! j = c" if "j < length ?cs" "chunk_kind (?cs ! j) = DXBC_DOCUMENT_CHUNK_EXECUTABLE" for j
  proof -
    have "?cs ! j \<in> set (filter (\<lambda>c. chunk_kind c = DXBC_DOCUMENT_CHUNK_EXECUTABLE) ?cs)" using that by simp
    then show ?thesis unfolding assms(2) by simp
  qed
  show all: "\<forall>i\<in>set (doc_instructions doc). inst_chunk_index i = chunk_table_index c"
  proof
    fix i assume "i \<in> set (doc_instructions doc)"
    from document_chunk_of_instruction [OF assms(1) this] in_c table(1) show "inst_chunk_index i = chunk_table_index c" by metis
  qed
  have "c \<in> set (filter (\<lambda>c. chunk_kind c = DXBC_DOCUMENT_CHUNK_EXECUTABLE) ?cs)" unfolding assms(2) by simp
  then obtain j where j: "j < length ?cs" "?cs ! j = c" "chunk_kind c = DXBC_DOCUMENT_CHUNK_EXECUTABLE"
    by (auto simp: in_set_conv_nth)
  have "instructions_of doc j = doc_instructions doc" using all table(1) [OF j(1)] j(2) by (simp add: instructions_of_def)
  with instructions_of_tiles [OF assms(1) j(1)] j have ex: "exec_tiles c (doc_instructions doc)" by (simp add: chunk_instructions_def)
  then show "map inst_instruction_index (doc_instructions doc) = [0..<length (doc_instructions doc)]"
    using tiles_indices by (fastforce simp: exec_tiles_def)
  show "chunk_payload_bytes c + 8 \<le> length bs" using ex table(2) [OF j(1)] j(2) by (simp add: exec_tiles_def)
qed

definition effect_stream_declared :: "stage_contract \<Rightarrow> geometry_effect \<Rightarrow> bool" where
  "effect_stream_declared ct e \<longleftrightarrow> (if ge_explicit_stream e then sc_declared_stream_mask ct AND stream_bit (ge_stream_id e) \<noteq> 0
     else sc_declared_stream_mask ct = 0)"

definition stage_complete :: "stage_contract \<Rightarrow> bool \<Rightarrow> bool \<Rightarrow> bool" where
  "stage_complete ct hs_decls phase \<longleftrightarrow>
     (sc_program_type ct = DXBC_PROGRAM_TYPE_COMPUTE \<longrightarrow> sc_has_thread_group_size ct) \<and>
     (sc_program_type ct = DXBC_PROGRAM_TYPE_GEOMETRY \<longrightarrow> sc_has_input_primitive ct \<and> sc_has_output_topology ct \<and>
        sc_has_max_output_vertex_count ct \<and>
        sc_output_topology_stream_mask ct AND sc_declared_stream_mask ct = sc_declared_stream_mask ct \<and>
        (\<forall>e\<in>set (sc_geometry_effects ct). effect_stream_declared ct e)) \<and>
     (sc_program_type ct = DXBC_PROGRAM_TYPE_HULL \<longrightarrow> hs_decls \<and> phase \<and> sc_has_input_control_point_count ct \<and>
        sc_has_output_control_point_count ct \<and> sc_has_tessellator_domain ct \<and> sc_has_tessellator_partitioning ct \<and>
        sc_has_tessellator_output_primitive ct) \<and>
     (sc_program_type ct = DXBC_PROGRAM_TYPE_DOMAIN \<longrightarrow> sc_has_input_control_point_count ct \<and> sc_has_tessellator_domain ct)"

lemma check_effects_iff:
  "ofold (check_geometry_effect ct) es () = Done () \<longleftrightarrow> (\<forall>e\<in>set es. effect_stream_declared ct e)"
  by (induction es) (auto simp: outcome_simps check_geometry_effect_def effect_stream_declared_def contract_fail_def)

lemma require_iff: "require_declaration present op ct = Done () \<longleftrightarrow> present"
  by (simp add: require_declaration_def contract_fail_def)

lemma finish_iff: "finish_contract ct hs_decls phase = Done () \<longleftrightarrow> stage_complete ct hs_decls phase"
  by (auto simp: finish_contract_def stage_complete_def outcome_simps check_effects_iff require_iff contract_fail_def)

lemma finish_safe: "safe (finish_contract ct hs_decls phase)"
  unfolding finish_contract_def by (intro safe_intros contract_safe)

text \<open>The program identity read from the version token.\<close>

definition version_ok :: "stage_contract \<Rightarrow> bool" where
  "version_ok ct \<longleftrightarrow> sc_program_type ct = drop_bit 16 (sc_version_token ct) \<and> sc_program_type ct < DXBC_PROGRAM_TYPE_COUNT \<and>
     sc_shader_model_major ct = ucast (drop_bit 4 (sc_version_token ct) AND 0xf) \<and> sc_shader_model_minor ct = ucast (sc_version_token ct AND 0xf) \<and>
     (sc_shader_model_major ct, sc_shader_model_minor ct) \<in> {(4, 0), (4, 1), (5, 0)} \<and>
     (sc_program_type ct = DXBC_PROGRAM_TYPE_HULL \<or> sc_program_type ct = DXBC_PROGRAM_TYPE_DOMAIN \<longrightarrow> sc_shader_model_major ct = 5)"

lemma low_minor: "(m :: u32) \<le> 1 \<Longrightarrow> m = 0 \<or> m = 1"
  by (simp add: word_le_nat_alt unat_eq_zero) (metis One_nat_def le_SucE le_zero_eq unat_1 unat_eq_zero unat_inject)

lemma version_Done:
  assumes "decode_version uc bs c dxbc_stage_contract_init = Done ct" "little_endian_host uc"
  shows "rd32 bs (chunk_payload_bytes c) = Some (sc_version_token ct) \<and> version_ok ct \<and> sc_executable_chunk_index ct = chunk_table_index c \<and>
    (\<exists>t p a b k. ct = dxbc_stage_contract_init\<lparr>sc_version_token := t, sc_program_type := p, sc_shader_model_major := a,
       sc_shader_model_minor := b, sc_executable_chunk_index := k\<rparr>)"
proof -
  from assms obtain token where token: "rd32 bs (chunk_payload_bytes c) = Some token"
    by (auto simp: decode_version_def outcome_simps)
  define program major minor where "program = drop_bit 16 token" and "major = drop_bit 4 token AND 0xf" and "minor = token AND 0xf"
  note dec = assms(1) [unfolded decode_version_def token Let_def mem_Some obind.simps little_endian_hostD [OF assms(2)],
      folded program_def major_def minor_def]
  have ok: "program < 6" "major = 4 \<and> minor \<le> 1 \<or> major = 5 \<and> minor = 0" "program = 3 \<or> program = 4 \<longrightarrow> major = 5"
    and ct: "ct = dxbc_stage_contract_init\<lparr>sc_version_token := token, sc_program_type := program, sc_shader_model_major := ucast major,
      sc_shader_model_minor := ucast minor, sc_executable_chunk_index := chunk_table_index c\<rparr>"
    using dec by (auto simp: contract_fail_def not_le not_less split: if_split_asm)
  have "version_ok ct" unfolding version_ok_def ct using ok low_minor [of minor] by (auto simp: program_def major_def minor_def)
  moreover have "\<exists>t p a b k. ct = dxbc_stage_contract_init\<lparr>sc_version_token := t, sc_program_type := p, sc_shader_model_major := a,
       sc_shader_model_minor := b, sc_executable_chunk_index := k\<rparr>" unfolding ct by (intro exI, rule refl)
  ultimately show ?thesis using token by (intro conjI) (simp_all add: ct)
qed

text \<open>What a decoded contract says of the document it came from.\<close>

definition describes :: "bytes \<Rightarrow> document \<Rightarrow> stage_contract \<Rightarrow> bool" where
  "describes bs doc ct \<longleftrightarrow> (\<exists>c. filter (\<lambda>c. chunk_kind c = DXBC_DOCUMENT_CHUNK_EXECUTABLE) (doc_chunks doc) = [c] \<and>
     rd32 bs (chunk_payload_bytes c) = Some (sc_version_token ct) \<and> sc_executable_chunk_index ct = chunk_table_index c) \<and>
     version_ok ct \<and> sc_first_instruction_index ct = 0 \<and> sc_end_instruction_index ct = length (doc_instructions doc) \<and>
     contract_records bs (doc_instructions doc) ct \<and>
     (sc_hull_phases ct \<noteq> [] \<longrightarrow> hp_end_instruction_index (last (sc_hull_phases ct)) = length (doc_instructions doc))"

definition well_ordered :: "document \<Rightarrow> stage_contract \<Rightarrow> bool" where
  "well_ordered doc ct \<longleftrightarrow> phases_ordered (map hp_kind (sc_hull_phases ct)) \<and>
     (sc_program_type ct \<noteq> DXBC_PROGRAM_TYPE_HULL \<longrightarrow> declarations_first (doc_instructions doc))"

lemma range_bounds:
  assumes "map inst_instruction_index insts = [0..<length insts]"
  shows "insts \<noteq> [] \<Longrightarrow> inst_instruction_index (insts ! 0) = 0"
    "insts \<noteq> [] \<Longrightarrow> inst_instruction_index (insts ! (length insts - 1)) = length insts - 1"
  using arg_cong [OF assms, of "\<lambda>xs. xs ! 0"] arg_cong [OF assms, of "\<lambda>xs. xs ! (length insts - 1)"] by auto

lemma last_end_last_phase: "ps \<noteq> [] \<Longrightarrow> hp_end_instruction_index (last (end_last_phase e ps)) = e"
  by (simp add: end_last_phase_def last_list_update)

lemma close_phases:
  assumes "contract_limits ct" "contract_records bs insts ct"
  defines "ct' \<equiv> (if sc_hull_phases ct \<noteq> []
      then ct\<lparr>sc_hull_phases := end_last_phase (sc_end_instruction_index ct) (sc_hull_phases ct)\<rparr> else ct)"
  shows "contract_limits ct'" "contract_records bs insts ct'" "program_header ct' = program_header ct"
    "map hp_kind (sc_hull_phases ct') = map hp_kind (sc_hull_phases ct)"
    "sc_hull_phases ct' \<noteq> [] \<longrightarrow> hp_end_instruction_index (last (sc_hull_phases ct')) = sc_end_instruction_index ct"
  using assms by (auto simp: end_last_phase_limits phases_records program_header_def last_end_last_phase)

text \<open>The body of the scan once the executable chunk and the version are known.\<close>

lemma scan_document:
  assumes "document_ok bs doc" "little_endian_host uc"
    "filter (\<lambda>c. chunk_kind c = DXBC_DOCUMENT_CHUNK_EXECUTABLE) (doc_chunks doc) = [c]"
    "decode_version uc bs c dxbc_stage_contract_init = Done ct0"
  defines "ct1 \<equiv> ct0\<lparr>sc_first_instruction_index := 0, sc_end_instruction_index := length (doc_instructions doc)\<rparr>"
  shows "ofold (decode_instruction_contract uc bs) (doc_instructions doc) (initial_scan ct1) \<noteq> Fault"
    and "ofold (decode_instruction_contract uc bs) (doc_instructions doc) (initial_scan ct1) = Done st \<Longrightarrow>
      scan_inv bs ct1 (doc_instructions doc) st"
proof -
  from version_Done [OF assms(4,2)] obtain t p a b k where "ct1 = dxbc_stage_contract_init\<lparr>sc_version_token := t,
      sc_program_type := p, sc_shader_model_major := a, sc_shader_model_minor := b, sc_executable_chunk_index := k,
      sc_first_instruction_index := 0, sc_end_instruction_index := length (doc_instructions doc)\<rparr>"
    unfolding ct1_def by auto
  then have init: "scan_inv bs ct1 [] (initial_scan ct1)" using init_scan_inv by simp
  have all: "\<forall>i\<in>set (doc_instructions doc). scannable uc bs i"
    using document_readable [OF assms(1)] assms(2) by (simp add: scannable_def)
  show "ofold (decode_instruction_contract uc bs) (doc_instructions doc) (initial_scan ct1) \<noteq> Fault"
    by (rule contract_scan.scan_safe [OF init all])
  show "scan_inv bs ct1 (doc_instructions doc) st"
    if "ofold (decode_instruction_contract uc bs) (doc_instructions doc) (initial_scan ct1) = Done st"
    using contract_scan.scan_keeps [OF init all that] by simp
qed

lemma decode_internal_run:
  assumes "document_ok bs doc" "little_endian_host uc"
    "filter (\<lambda>c. chunk_kind c = DXBC_DOCUMENT_CHUNK_EXECUTABLE) (doc_chunks doc) = [c]"
  shows "decode_document_internal uc (Some doc) ct =
    obind (ofold find_executable (doc_chunks doc) None) (\<lambda>_. obind (decode_version uc bs c ct) (\<lambda>ct. let
      ct = ct\<lparr>sc_first_instruction_index := 0, sc_end_instruction_index := length (doc_instructions doc)\<rparr> in
      obind (ofold (decode_instruction_contract uc bs) (doc_instructions doc) (initial_scan ct)) (\<lambda>st. let
        ct = ss_contract st;
        ct = (if sc_hull_phases ct \<noteq> []
              then ct\<lparr>sc_hull_phases := end_last_phase (sc_end_instruction_index ct) (sc_hull_phases ct)\<rparr> else ct) in
      obind (finish_contract ct (ss_seen_hs_decls st) (ss_seen_phase st)) (\<lambda>_. Done ct))))"
proof -
  have own: "doc_owned_bytes doc = Some bs" using assms(1) by (simp add: document_ok_def)
  have ne: "doc_chunks doc \<noteq> []" using assms(3) by auto
  note ex = single_executable [OF assms(1,3)]
  have found: "r = Some c" if "ofold find_executable (doc_chunks doc) None = Done r" for r
    using find_executable_result [OF that] assms(3) by (simp split: option.splits)
  show ?thesis
    using own ne found range_bounds [OF ex(2)]
    by (cases "ofold find_executable (doc_chunks doc) None"; cases "doc_instructions doc = []")
      (simp_all add: decode_document_internal_def Let_def instruction_range_all [OF ex(1)])
qed

lemma decode_internal_safe:
  assumes "document_ok bs doc" "little_endian_host uc"
  shows "safe (decode_document_internal uc (Some doc) dxbc_stage_contract_init)"
proof (cases "\<exists>c. filter (\<lambda>c. chunk_kind c = DXBC_DOCUMENT_CHUNK_EXECUTABLE) (doc_chunks doc) = [c]")
  case True
  then obtain c where c: "filter (\<lambda>c. chunk_kind c = DXBC_DOCUMENT_CHUNK_EXECUTABLE) (doc_chunks doc) = [c]" by blast
  have version: "safe (decode_version uc bs c ct)" for ct
    using single_executable(3) [OF assms(1) c] unfolding decode_version_def Let_def
    by (intro safe_intros contract_safe) (simp add: safe_def outcome_simps)
  show ?thesis
    unfolding decode_internal_run [OF assms c] Let_def
    by (intro safe_rules finish_safe version) (use scan_document(1) [OF assms c] find_executable_safe in \<open>auto simp: safe_def\<close>)
next
  case False
  have own: "doc_owned_bytes doc = Some bs" using assms(1) by (simp add: document_ok_def)
  have "r = None" if "ofold find_executable (doc_chunks doc) None = Done r" for r
    using find_executable_result [OF that] False by (auto split: option.splits)
  then show ?thesis
    using find_executable_safe [of "doc_chunks doc" None]
    by (cases "ofold find_executable (doc_chunks doc) None")
      (auto simp: decode_document_internal_def own Let_def safe_def contract_fail_def)
qed

lemma decode_internal_Done:
  assumes "document_ok bs doc" "little_endian_host uc"
    "decode_document_internal uc (Some doc) dxbc_stage_contract_init = Done ct"
  shows "describes bs doc ct \<and> contract_limits ct \<and> well_ordered doc ct \<and>
    stage_complete ct (having (\<lambda>op. op = OP_HS_DECLS) (doc_instructions doc) \<noteq> []) (sc_hull_phases ct \<noteq> [])"
proof -
  let ?insts = "doc_instructions doc"
  have own: "doc_owned_bytes doc = Some bs" using assms(1) by (simp add: document_ok_def)
  from assms(3) obtain c where "ofold find_executable (doc_chunks doc) None = Done (Some c)"
    by (auto simp: decode_document_internal_def own outcome_simps Let_def contract_fail_def split: if_splits option.splits)
  from find_executable_result [OF this]
  have c: "filter (\<lambda>c. chunk_kind c = DXBC_DOCUMENT_CHUNK_EXECUTABLE) (doc_chunks doc) = [c]" by simp
  from assms(3) [unfolded decode_internal_run [OF assms(1,2) c] Let_def] obtain ct0 st where
    v: "decode_version uc bs c dxbc_stage_contract_init = Done ct0"
    and scan: "ofold (decode_instruction_contract uc bs) ?insts (initial_scan (ct0\<lparr>sc_first_instruction_index := 0,
        sc_end_instruction_index := length ?insts\<rparr>)) = Done st"
    and fin: "finish_contract ct (ss_seen_hs_decls st) (ss_seen_phase st) = Done ()"
    and ct: "ct = (if sc_hull_phases (ss_contract st) \<noteq> [] then (ss_contract st)\<lparr>sc_hull_phases :=
       end_last_phase (sc_end_instruction_index (ss_contract st)) (sc_hull_phases (ss_contract st))\<rparr> else ss_contract st)"
    by (auto simp: outcome_simps)
  note inv = scan_document(2) [OF assms(1,2) c v scan, unfolded scan_inv_def]
  note close = close_phases [of "ss_contract st" bs ?insts, folded ct]
  have hdr: "program_header ct = program_header (ct0\<lparr>sc_first_instruction_index := 0, sc_end_instruction_index := length ?insts\<rparr>)"
    using inv close(3) by simp
  then have fields: "sc_version_token ct = sc_version_token ct0" "sc_program_type ct = sc_program_type ct0"
    "sc_shader_model_major ct = sc_shader_model_major ct0" "sc_shader_model_minor ct = sc_shader_model_minor ct0"
    "sc_executable_chunk_index ct = sc_executable_chunk_index ct0" "sc_first_instruction_index ct = 0"
    "sc_end_instruction_index ct = length ?insts" "sc_end_instruction_index (ss_contract st) = length ?insts"
    "sc_program_type (ss_contract st) = sc_program_type ct0"
    using inv by (simp_all add: program_header_def)
  have kinds: "map hp_kind (sc_hull_phases ct) = phase_kinds st" using inv close(4) by simp
  have version: "version_ok ct0" using version_Done [OF v assms(2)] by blast
  have "version_ok ct" using version unfolding version_ok_def fields .
  then have "describes bs doc ct"
    unfolding describes_def using version_Done [OF v assms(2)] c fields close inv by auto
  moreover have "well_ordered doc ct"
    unfolding well_ordered_def kinds using inv fields by (simp add: phase_flags_def order_flags_def)
  moreover have "ss_seen_phase st \<longleftrightarrow> sc_hull_phases ct \<noteq> []"
    using inv kinds by (metis map_is_Nil_conv phase_flags_def)
  ultimately show ?thesis
    using fin [unfolded finish_iff] inv close(1) by (simp add: opening_flags_def)
qed

section \<open>An example program\<close>

text \<open>A compute shader model 5.0 program: \<open>dcl_thread_group 8, 8, 1; ret\<close>.\<close>

definition compute_container :: bytes where
  "compute_container = magic_DXBC @ replicate 16 0 @ bytes32 1 @ bytes32 72 @ bytes32 1 @ bytes32 36 @
     fourcc ''SHEX'' @ bytes32 28 @ bytes32 0x50050 @ bytes32 7 @
     bytes32 0x0400009B @ bytes32 8 @ bytes32 8 @ bytes32 1 @ bytes32 0x0100003E"

definition compute_chunk :: document_chunk where
  "compute_chunk = \<lparr>chunk_fourcc = fourcc ''SHEX'', chunk_kind = DXBC_DOCUMENT_CHUNK_EXECUTABLE,
     chunk_table_index = 0, chunk_offset = 36, chunk_payload_size = 28, chunk_raw_size = 36, chunk_raw_bytes = 36, chunk_payload_bytes = 44\<rparr>"

definition group_instruction :: document_instruction where
  "group_instruction = \<lparr>inst_chunk_index = 0, inst_instruction_index = 0, inst_byte_offset = 52, inst_byte_size = 16,
     inst_token_count = 4, inst_opcode = 155, inst_encoded_length = 4, inst_extended_opcode_token_count = 0,
     inst_uses_customdata_length = False, inst_raw_bytes = Some 52\<rparr>"

definition return_instruction :: document_instruction where
  "return_instruction = \<lparr>inst_chunk_index = 0, inst_instruction_index = 1, inst_byte_offset = 68, inst_byte_size = 4,
     inst_token_count = 1, inst_opcode = 62, inst_encoded_length = 1, inst_extended_opcode_token_count = 0,
     inst_uses_customdata_length = False, inst_raw_bytes = Some 68\<rparr>"

lemma compute_tail: "drop 20 compute_container = bytes32 1 @ bytes32 72 @ bytes32 1 @ bytes32 36 @
     fourcc ''SHEX'' @ bytes32 28 @ bytes32 0x50050 @ bytes32 7 @
     bytes32 0x0400009B @ bytes32 8 @ bytes32 8 @ bytes32 1 @ bytes32 0x0100003E" "take 4 compute_container = magic_DXBC"
  by (simp_all add: compute_container_def)

lemma compute_image:
  "\<exists>h. length h = 16 \<and> stamp compute_container = magic_DXBC @ h @ drop 20 compute_container"
proof -
  have "32 \<le> length compute_container" by (simp add: compute_container_def)
  from stamp_shape [OF this] show ?thesis unfolding compute_tail(2) by blast
qed

lemma compute_parse:
  assumes "length stack = 64"
  shows "\<exists>doc. dxbc_document_parse lp64_common stack (Some dxbc_document_init) (Buf (stamp compute_container)) = Done doc \<and>
     doc_instructions doc = [group_instruction, return_instruction] \<and> doc_chunks doc = [compute_chunk]"
proof -
  obtain h where h: "length h = 16" "stamp compute_container = magic_DXBC @ h @ drop 20 compute_container"
    using compute_image by blast
  have "dxbc_verify_hash lp64_common stack (Buf (stamp compute_container))"
    by (rule stamp_verifies [OF assms]) (simp_all add: compute_container_def image_simps)
  note v = this [unfolded h(2) compute_tail]
  have shex: "classify_chunk (fourcc ''SHEX'') = DXBC_DOCUMENT_CHUNK_EXECUTABLE"
    by (simp add: classify_chunk_def fourcc_equal_def)
  have hdr: "parse_header lp64_common (magic_DXBC @ h @ drop 20 compute_container) = Done (1, 72, 1)"
    using h(1) by (simp add: parse_header_def compute_tail read_u32_le_def memcmp_eq_def image_simps Let_def)
  show ?thesis
    using h(1) v
    unfolding h(2) dxbc_document_parse_def
    by (simp add: hdr)
      (simp add: compute_tail parse_chunk_def read_u32_le_def image_simps Let_def shex parse_if_executable_def
        parse_executable_chunk_def dxbc_document_init_def scan_instructions.simps [of _ _ _ _ _ 2]
        scan_instructions.simps [of _ _ _ _ _ 6] scan_instructions.simps [of _ _ _ _ _ 7] read_instruction_def append_instruction_def group_instruction_def
        return_instruction_def compute_chunk_def)
qed

lemma compute_words:
  "rd32 (stamp compute_container) 44 = Some 0x50050" "rd32 (stamp compute_container) 52 = Some 0x0400009B"
  "rd32 (stamp compute_container) 56 = Some 8" "rd32 (stamp compute_container) 60 = Some 8"
  "rd32 (stamp compute_container) 64 = Some 1" "rd32 (stamp compute_container) 68 = Some 0x0100003E"
proof -
  obtain h where h: "length h = 16" "stamp compute_container = magic_DXBC @ h @ drop 20 compute_container"
    using compute_image by blast
  show "rd32 (stamp compute_container) 44 = Some 0x50050" "rd32 (stamp compute_container) 52 = Some 0x0400009B"
    "rd32 (stamp compute_container) 56 = Some 8" "rd32 (stamp compute_container) 60 = Some 8"
    "rd32 (stamp compute_container) 64 = Some 1" "rd32 (stamp compute_container) 68 = Some 0x0100003E"
    unfolding h(2) compute_tail using h(1) by (simp_all add: image_simps)
qed

lemma compute_decode:
  assumes "dxbc_document_parse lp64_common stack (Some dxbc_document_init) (Buf (stamp compute_container)) = Done doc"
    "doc_instructions doc = [group_instruction, return_instruction]" "doc_chunks doc = [compute_chunk]"
  shows "\<exists>ct. dxbc_stage_contract_decode_document lp64_common (Some doc) True = Done ct \<and>
    sc_program_type ct = DXBC_PROGRAM_TYPE_COMPUTE \<and> sc_thread_group_size ct = [8, 8, 1] \<and>
    sc_shader_model_major ct = 5 \<and> sc_shader_model_minor ct = 0"
proof -
  have ok: "document_ok (stamp compute_container) doc" using document_parse_Done [OF assms(1)] by simp
  have c: "filter (\<lambda>c. chunk_kind c = DXBC_DOCUMENT_CHUNK_EXECUTABLE) (doc_chunks doc) = [compute_chunk]"
    by (simp add: assms(3) compute_chunk_def)
  have found: "ofold find_executable (doc_chunks doc) None = Done (Some compute_chunk)"
    by (simp add: assms(3) find_executable_def compute_chunk_def)
  show ?thesis
    unfolding dxbc_stage_contract_decode_document_def decode_internal_run [OF ok lp64_common_ok(1) c] found
    by (simp add: assms(2) decode_version_def compute_chunk_def compute_words Let_def initial_scan_def dxbc_stage_contract_init_def
        decode_instruction_contract_def group_instruction_def return_instruction_def decode_thread_group_def declaration_header_def
        instruction_token_def dxbc_document_instruction_token_def read_u32_le_def require_zero_def upt_rec thread_group_axis_def
        is_hull_phase_marker_def stage_level_declaration_def is_geometry_case_def is_tessellation_case_def decode_other_instruction_def
        is_declaration_opcode_def finish_contract_def require_declaration_def)
qed

section \<open>Failures\<close>

definition contract_diagnosed :: "contract_diagnostic \<Rightarrow> bool" where
  "contract_diagnosed g \<longleftrightarrow> cd_status g \<noteq> DXBC_STAGE_CONTRACT_OK"

named_theorems contract_fails \<open>failures of the declaration decoders carry a status\<close>

lemma failure_fails [contract_fails]:
  "s \<noteq> DXBC_STAGE_CONTRACT_OK \<Longrightarrow> fails_only contract_diagnosed (contract_fail s ci ii op e a)"
  "s \<noteq> DXBC_STAGE_CONTRACT_OK \<Longrightarrow> fails_only contract_diagnosed (fail_at i s e a)"
  "fails_only contract_diagnosed (stage_mismatch i)" "fails_only contract_diagnosed (require_zero i control)"
  "fails_only contract_diagnosed (require_declaration present op ct)" "fails_only contract_diagnosed (check_geometry_effect ct effect u)"
  by (auto simp: fails_only_def contract_diagnosed_def contract_fail_def fail_at_def stage_mismatch_def require_zero_def
      require_declaration_def check_geometry_effect_def split: if_splits)

lemma token_fails [contract_fails]:
  "fails_only contract_diagnosed (instruction_token uc bs i k)"
  by (auto simp: instruction_token_def fails_only_def outcome_simps fail_at_def contract_fail_def contract_diagnosed_def)

lemma declaration_fails [contract_fails]:
  "fails_only contract_diagnosed (declaration_header uc bs i n)" "fails_only contract_diagnosed (declaration_control uc bs i n)"
  "fails_only contract_diagnosed (scalar_declaration uc bs i)"
  "fails_only contract_diagnosed (decode_enum_declaration uc bs i present validator)"
  "fails_only contract_diagnosed (decode_count_declaration uc bs i scalar m present)"
  "fails_only contract_diagnosed (decode_max_tess_factor uc bs i present)"
  "fails_only contract_diagnosed (thread_group_axis uc bs i mt mz axis s)"
  unfolding declaration_control_def scalar_declaration_def decode_enum_declaration_def decode_count_declaration_def
    decode_max_tess_factor_def thread_group_axis_def declaration_header_def Let_def
  by (intro fails_intros contract_fails; simp)+

lemma decoder_fails [contract_fails]:
  "fails_only contract_diagnosed (decode_geometry_effect uc bs i ct kind explicit)"
  "fails_only contract_diagnosed (decode_stream uc bs i ct)" "fails_only contract_diagnosed (decode_thread_group uc bs i ct)"
  "fails_only contract_diagnosed (decode_shared_memory uc bs i ct)" "fails_only contract_diagnosed (decode_memory_barrier uc bs i ct)"
  "fails_only contract_diagnosed (decode_hs_decls uc bs i st)" "fails_only contract_diagnosed (decode_phase_marker uc bs i st)"
  "fails_only contract_diagnosed (decode_phase_instance_count uc bs i st)" "fails_only contract_diagnosed (decode_other_instruction i st)"
  unfolding decode_geometry_effect_def append_geometry_effect_def decode_stream_def decode_thread_group_def decode_shared_memory_def
    decode_memory_barrier_def decode_hs_decls_def decode_phase_marker_def append_phase_def decode_phase_instance_count_def
    decode_other_instruction_def Let_def
  by (intro fails_intros contract_fails; simp)+

lemma step_fails [contract_fails]: "fails_only contract_diagnosed (decode_instruction_contract uc bs i st)"
  unfolding decode_instruction_contract_def decode_geometry_instruction_def decode_tessellation_instruction_def Let_def
  by (intro fails_intros contract_fails; simp)

lemma document_fails [contract_fails]: "fails_only contract_diagnosed (decode_document_internal uc document ct)"
  unfolding decode_document_internal_def finish_contract_def decode_version_def find_executable_def Let_def
  by (intro fails_intros contract_fails; simp)

lemma decode_fails: "fails_only contract_diagnosed (dxbc_stage_contract_decode uc document container out)"
proof -
  have "fails_only contract_diagnosed (dxbc_stage_contract_validate_container contract c)" for contract c
    unfolding dxbc_stage_contract_validate_container_def Let_def
    by (intro fails_intros contract_fails; simp)
  then show ?thesis
    unfolding dxbc_stage_contract_decode_def by (intro fails_intros contract_fails; simp)
qed

lemma validate_safe: "safe (dxbc_stage_contract_validate_container contract c)"
  unfolding dxbc_stage_contract_validate_container_def Let_def
  by (intro safe_intros contract_safe)

lemma decode_safe:
  assumes "document_ok bs doc" "little_endian_host uc"
  shows "safe (dxbc_stage_contract_decode uc (Some doc) container out)"
  unfolding dxbc_stage_contract_decode_def
  by (intro safe_intros contract_safe validate_safe decode_internal_safe [OF assms])

section \<open>Properties\<close>

lemma decode_document_Done:
  assumes "little_endian_host uc" "dxbc_document_parse uc stack dst (Buf bs) = Done doc"
    "dxbc_stage_contract_decode_document uc (Some doc) True = Done ct"
  shows "describes bs doc ct \<and> contract_limits ct \<and> well_ordered doc ct \<and>
    stage_complete ct (having (\<lambda>op. op = OP_HS_DECLS) (doc_instructions doc) \<noteq> []) (sc_hull_phases ct \<noteq> [])"
  using assms(3) decode_internal_Done [OF conjunct1 [OF document_parse_Done [OF assms(2,1)]] assms(1)]
  by (simp add: dxbc_stage_contract_decode_document_def)

lemma compute_example:
  "\<exists>doc ct. dxbc_document_parse lp64_common (replicate 64 0) (Some dxbc_document_init) (Buf (stamp compute_container)) = Done doc \<and>
     doc_instructions doc = [group_instruction, return_instruction] \<and>
     dxbc_stage_contract_decode_document lp64_common (Some doc) True = Done ct \<and>
     sc_program_type ct = DXBC_PROGRAM_TYPE_COMPUTE \<and> sc_thread_group_size ct = [8, 8, 1] \<and>
     sc_shader_model_major ct = 5 \<and> sc_shader_model_minor ct = 0"
proof -
  obtain doc where doc: "dxbc_document_parse lp64_common (replicate 64 0) (Some dxbc_document_init)
      (Buf (stamp compute_container)) = Done doc" "doc_instructions doc = [group_instruction, return_instruction]"
      "doc_chunks doc = [compute_chunk]"
    using compute_parse [of "replicate 64 0"] by auto
  from compute_decode [OF doc] doc show ?thesis by blast
qed



text \<open>
  C27: every number in a contract is within the limits of its shader model: vertex, instance and control
  point counts, stream numbers, enumeration values, thread-group dimensions and their product,
  shared-memory registers, sizes and their sum, tessellation factor, barrier flags.
\<close>

theorem stage_contract_within_limits:
  assumes "little_endian_host uc" "dxbc_document_parse uc stack dst (Buf bs) = Done doc"
    "dxbc_stage_contract_decode_document uc (Some doc) True = Done ct"
  shows "contract_limits ct"
  using decode_document_Done [OF assms] by simp

theorem stage_contract_within_limits_witness:
  "\<exists>ct. contract_limits ct \<and> sc_thread_group_size ct = [8, 8, 1]"
  using compute_example stage_contract_within_limits [OF lp64_common_ok(1)] by blast



text \<open>
  C29: an accepted program makes every declaration its stage requires, and a geometry effect uses a stream
  that is declared, or no stream at all when none is.
\<close>

theorem stage_contract_complete:
  assumes "little_endian_host uc" "dxbc_document_parse uc stack dst (Buf bs) = Done doc"
    "dxbc_stage_contract_decode_document uc (Some doc) True = Done ct"
  shows "stage_complete ct (having (\<lambda>op. op = OP_HS_DECLS) (doc_instructions doc) \<noteq> []) (sc_hull_phases ct \<noteq> [])"
  using decode_document_Done [OF assms] by simp

theorem stage_contract_complete_witness:
  "\<exists>ct. sc_program_type ct = DXBC_PROGRAM_TYPE_COMPUTE \<and> stage_complete ct False (sc_hull_phases ct \<noteq> [])"
proof -
  obtain doc ct where e: "dxbc_document_parse lp64_common (replicate 64 0) (Some dxbc_document_init)
      (Buf (stamp compute_container)) = Done doc" "doc_instructions doc = [group_instruction, return_instruction]"
      "dxbc_stage_contract_decode_document lp64_common (Some doc) True = Done ct" "sc_program_type ct = DXBC_PROGRAM_TYPE_COMPUTE"
    using compute_example by blast
  from stage_contract_complete [OF _ e(1,3)] e(2,4) show ?thesis
    by (auto simp: having_def group_instruction_def return_instruction_def)
qed

text \<open>
  C30: decoding the contract of any parsed document, with or without a semantic container, reads only the
  words of the container and never indexes an empty phase array.
\<close>

theorem stage_contract_in_bounds:
  assumes "little_endian_host uc" "dxbc_document_parse uc stack dst (Buf bs) = Done doc"
  shows "dxbc_stage_contract_decode uc (Some doc) container out \<noteq> Fault"
  using safeD [OF decode_safe [OF conjunct1 [OF document_parse_Done [OF assms(2,1)]] assms(1)]] .

theorem stage_contract_in_bounds_witness:
  "\<exists>doc. doc_instructions doc = [sample_instruction] \<and> dxbc_stage_contract_decode lp64_common (Some doc) None True \<noteq> Fault"
  using sample_parse [of "replicate 64 0"] stage_contract_in_bounds [of lp64_common] by fastforce

text \<open>Every rejection carries a status other than \<open>OK\<close>.\<close>

lemma stage_contract_failure_has_status:
  assumes "dxbc_stage_contract_decode uc document container out = Fail g"
  shows "cd_status g \<noteq> DXBC_STAGE_CONTRACT_OK"
  using fails_onlyD [OF decode_fails assms] by (simp add: contract_diagnosed_def)

text \<open>
  With a semantic container the decoder accepts exactly the documents it accepts alone whose program
  type and shader model are those of the container, and returns the same contract.
\<close>

lemma stage_contract_container_check:
  assumes "little_endian_host uc" "dxbc_document_parse uc stack dst (Buf bs) = Done doc"
  shows "dxbc_stage_contract_decode uc (Some doc) (Some c) True = Done ct \<longleftrightarrow>
    dxbc_stage_contract_decode_document uc (Some doc) True = Done ct \<and> cp_has_executable_program c \<and>
    cp_program_type c = sc_program_type ct \<and> cp_major_version c = sc_shader_model_major ct \<and>
    cp_minor_version c = sc_shader_model_minor ct"
proof -
  have "sc_program_type ct < DXBC_PROGRAM_TYPE_COUNT"
    if "dxbc_stage_contract_decode_document uc (Some doc) True = Done ct"
    using decode_document_Done [OF assms that] unfolding describes_def version_ok_def by blast
  then show ?thesis
    by (auto simp: dxbc_stage_contract_decode_def dxbc_stage_contract_decode_document_def dxbc_stage_contract_validate_container_def
        outcome_simps contract_fail_def Let_def not_le split: if_splits)
qed

text \<open>
  The maximum tessellation factor is accepted exactly when it is not a second declaration and its
  bits lie between those of \<open>1.0f\<close> and \<open>64.0f\<close>; the float comparison of the code is a comparison of words.
\<close>

lemma max_tess_factor_range:
  "decode_max_tess_factor uc bs i present = Done v \<longleftrightarrow>
    \<not> present \<and> scalar_declaration uc bs i = Done v \<and> 0x3f800000 \<le> v \<and> v \<le> 0x42800000"
proof -
  have inf: "v AND 0x7f800000 \<noteq> 0x7f800000" if "v \<le> 0x42800000" for v :: u32
  proof
    assume "v AND 0x7f800000 = 0x7f800000"
    moreover have "v AND 0x7f800000 \<le> v" by (rule word_and_le2)
    ultimately have "0x7f800000 \<le> v" by simp
    with that show False by (simp add: word_le_nat_alt)
  qed
  have key: "v AND 0x7f800000 = 0x7f800000 \<or> single_scaled v < 2 ^ 149 \<or> single_scaled v > 2 ^ 155 \<longleftrightarrow>
      \<not> (0x3f800000 \<le> v \<and> v \<le> 0x42800000)" for v
    using single_scaled_range [of v] inf [of v] by linarith
  show ?thesis
    unfolding decode_max_tess_factor_def key
    by (cases "scalar_declaration uc bs i") (auto simp: fail_at_def contract_fail_def)
qed

end
