(* ===== verification/Semantic_Document.thy ===== *)
theory Semantic_Document
  imports Dxbc_Parse_Spec Stage_Contract_Spec
begin

text \<open>
  The two readers of a container.  A lossless document (\<open>src/dxbc/dxbc_document.c\<close>) can be decoded into a semantic
  container (\<open>dxbc_document_decode_semantic\<close>); this theory shows that both then describe the same chunks and the
  same instructions, so an index into the raw instructions means the same to both.
\<close>

text \<open>\<open>None\<close> is a \<open>NULL\<close> document; \<open>Fail None\<close> is the early return that leaves the container untouched.\<close>

definition dxbc_document_decode_semantic ::
  "unity_common \<Rightarrow> (nat \<Rightarrow> bool) \<Rightarrow> bytes \<Rightarrow> document option \<Rightarrow> bool \<Rightarrow> (dxbc_container option, dxbc_container) outcome" where
  "dxbc_document_decode_semantic uc c_malloc stack doc out_is_null = (case doc of
     None \<Rightarrow> Fail None
   | Some d \<Rightarrow>
       (case doc_owned_bytes d of
          None \<Rightarrow> Fail None
        | Some owned \<Rightarrow>
            if doc_owned_size d = 0 \<or> out_is_null then Fail None
            else (case dxbc_parse uc c_malloc stack (Buf owned) of
                Fault \<Rightarrow> Fault | Fail c \<Rightarrow> Fail (Some c) | Done c \<Rightarrow> Done c)))"

section \<open>Instructions\<close>

text \<open>What both readers record of a raw instruction: its place, its index in the program and its opcode.\<close>

definition raw_of_document :: "document_instruction \<Rightarrow> nat \<times> nat \<times> nat \<times> u32" where
  "raw_of_document i = (inst_byte_offset i, inst_byte_size i, inst_instruction_index i, inst_opcode i)"

definition raw_of_semantic :: "instruction \<Rightarrow> nat \<times> nat \<times> nat \<times> u32" where
  "raw_of_semantic i = (unat (in_file_offset i), unat (in_byte_length i), unat (in_raw_instruction_index i), in_opcode i)"

definition raw_instructions :: "instruction list \<Rightarrow> (nat \<times> nat \<times> nat \<times> u32) list" where
  "raw_instructions insts = map raw_of_semantic (filter (\<lambda>i. \<not> in_is_customdata_continuation i) insts)"

lemma read_instruction_words:
  assumes "read_instruction uc owned po ci declared wo ii = Done i" "little_endian_host uc" "instruction_at uc owned (po + wo * 4) q r inst"
  shows "inst_opcode i = in_opcode inst" "q = po + wo * 4 + unat (inst_token_count i) * 4"
proof -
  let ?p = "po + wo * 4" and ?t = "in_token inst"
  have at: "rd32 owned ?p = Some ?t" "?p < q" "in_opcode inst = ?t AND 0x7ff" "extent_at owned ?p ?t (q - ?p)"
    using assms(3) instruction_at_extents unfolding instruction_at_def by blast+
  show "inst_opcode i = in_opcode inst"
    using assms(1,2) at(1,3) by (auto simp: read_instruction_def read_u32_le_def outcome_simps Let_def split: if_splits)
  have "q - ?p = unat (inst_token_count i) * 4"
  proof (cases "?t AND 0x7ff = 53")
    case True
    then obtain len where "rd32 owned (?p + 4) = Some len" "q - ?p = unat len * 4" using at(4) by (auto simp: extent_at_def)
    then show ?thesis using assms(1,2) at(1) True
      by (auto simp: read_instruction_def read_u32_le_def outcome_simps Let_def report_failure_def split: if_splits)
  next
    case False
    then have "q - ?p = unat (dxbc_tokenized_instruction_length ?t) * 4" using at(4) by (simp add: extent_at_def)
    then show ?thesis using assms(1,2) at(1) False
      by (auto simp: read_instruction_def read_u32_le_def outcome_simps Let_def report_failure_def dxbc_tokenized_instruction_length_def split: if_splits)
  qed
  with at(2) show "q = po + wo * 4 + unat (inst_token_count i) * 4" by linarith
qed

lemma raw_instructions_step:
  assumes "instruction_at uc data p q r inst" "icb_at data p q inst icb rows" "q \<le> length data" "length data \<le> UINT32_MAX"
  shows "raw_instructions (inst # rows @ insts) = (p, q - p, unat r, in_opcode inst) # raw_instructions insts"
proof -
  have "filter (\<lambda>i. \<not> in_is_customdata_continuation i) rows = []" using assms(2) by (auto simp: icb_at_def continuation_row_def filter_empty_conv split: if_splits)
  moreover have "\<not> in_is_customdata_continuation inst" "in_raw_instruction_index inst = r" using assms(1) by (simp_all add: instruction_at_def)
  ultimately show ?thesis
    using instruction_at_fields [OF assms(1,3,4)] by (simp add: raw_instructions_def raw_of_semantic_def)
qed

lemma scan_agrees:
  assumes "program_run uc owned e p r insts icb" "little_endian_host uc" "e \<le> length owned" "length owned \<le> UINT32_MAX"
    and "p = po + wo * 4" "e = po + declared * 4" "unat r \<le> wo" "scan_instructions uc owned po ci declared wo (unat r) doc = Done doc'"
  shows "\<exists>is. grew doc is [] doc' \<and> map raw_of_document is = raw_instructions insts"
  using assms
proof (induction arbitrary: wo doc rule: program_run.induct)
  case (stop r)
  then have "doc' = doc" by (subst (asm) scan_instructions.simps) simp
  then show ?case using grew_refl by (auto simp: raw_instructions_def)
next
  case (step p q r inst icb rows insts icbs)
  have at: "instruction_at uc owned (po + wo * 4) q r inst" and q: "q \<le> length owned" using step.hyps(1,2) step.prems(2,4) by simp_all
  then have wo: "wo < declared" using step.hyps(2) step.prems(5) by (auto simp: instruction_at_def)
  with step.prems(7) obtain i doc1 where i: "read_instruction uc owned po ci declared wo (unat r) = Done i" and app: "append_instruction uc doc i = Done doc1"
    and rest: "scan_instructions uc owned po ci declared (wo + unat (inst_token_count i)) (unat r + 1) doc1 = Done doc'"
    by (subst (asm) scan_instructions.simps) (auto simp: outcome_simps)
  note ext = read_instruction_extent [OF i] and words = read_instruction_words [OF i step.prems(1) at]
  have "unat r + 1 \<le> UINT32_MAX" using wo step.prems by linarith
  then have r: "unat (r + 1) = unat r + 1" by (simp add: unat_word_ariths)
  have "\<exists>is. grew doc1 is [] doc' \<and> map raw_of_document is = raw_instructions insts"
    by (rule step.IH [of "wo + unat (inst_token_count i)"]) (use step.prems words(2) ext(1) rest r in simp_all)
  then obtain "is" where "is": "grew doc1 is [] doc'" "map raw_of_document is = raw_instructions insts" by blast
  have "raw_of_document i = (p, q - p, unat r, in_opcode inst)" using ext words step.prems(4) by (simp add: raw_of_document_def)
  then have "map raw_of_document (i # is) = raw_instructions (inst # rows @ insts)"
    using raw_instructions_step [OF step.hyps(1,3) q step.prems(3)] "is"(2) by simp
  then show ?case using grew_trans [OF append_instruction_Done [OF app] "is"(1)] by fastforce
qed

section \<open>Chunks\<close>

definition info_of_document :: "document_chunk \<Rightarrow> chunk_info" where
  "info_of_document c = \<lparr>ci_name = chunk_fourcc c, ci_size = chunk_payload_size c, ci_offset = chunk_offset c\<rparr>"

lemma info_fields [simp]:
  "ci_name (info_of_document c) = chunk_fourcc c" "ci_size (info_of_document c) = chunk_payload_size c" "ci_offset (info_of_document c) = chunk_offset c"
  by (simp_all add: info_of_document_def)

lemma chars_fourcc: "chars ''SHEX'' = fourcc ''SHEX''" "chars ''SHDR'' = fourcc ''SHDR''"
  by (simp_all add: chars_def fourcc_def)

lemma program_chunk_kind: "classify_chunk (chunk_fourcc c) = DXBC_DOCUMENT_CHUNK_EXECUTABLE \<longleftrightarrow> program_chunk (info_of_document c)"
  by (auto simp: classify_chunk_def program_chunk_def fourcc_equal_def chars_fourcc)

lemma chunk_tables_agree:
  assumes "document_ok view doc" "container_parsed uc view cs ps c"
  shows "map info_of_document (doc_chunks doc) = cs"
proof (rule nth_equalityI)
  obtain n where n: "rd32 view 28 = Some n" "length cs = unat n" "\<forall>j<length cs. rd32 view (32 + 4 * j) = Some (ci_offset (cs ! j))" "list_all (chunk_at view) cs"
    using assms(2) by (auto simp: container_parsed_def header_ok_def tables_of_def)
  have doc: "length (doc_chunks doc) = unat n" "\<forall>j<unat n. \<exists>e. chunk_ok view e j (doc_chunks doc ! j)"
    using assms(1) n(1) by (auto simp: document_ok_def chunk_table_ok_def)
  show "length (map info_of_document (doc_chunks doc)) = length cs" using doc(1) n(2) by simp
  fix j
  assume "j < length (map info_of_document (doc_chunks doc))"
  then have j: "j < unat n" "j < length cs" using doc(1) n(2) by simp_all
  obtain e where d: "chunk_ok view e j (doc_chunks doc ! j)" using doc(2) j(1) by blast
  have "chunk_at view (cs ! j)" using n(4) j(2) by (simp add: list_all_length)
  with d n(3) j have "info_of_document (doc_chunks doc ! j) = cs ! j"
    by (cases "cs ! j") (auto simp: info_of_document_def chunk_ok_def chunk_at_def mult.commute)
  then show "map info_of_document (doc_chunks doc) ! j = cs ! j" using j doc(1) by simp
qed

abbreviation (input) programs_at :: "unity_common \<Rightarrow> bytes \<Rightarrow> chunk_info list \<Rightarrow> parsed_program list \<Rightarrow> bool" where
  "programs_at uc view cis ps \<equiv> list_all2 (\<lambda>ci (v, insts, icb). program_at uc view (chunk_start ci) (chunk_finish ci) v insts icb) cis ps"

lemma executable_chunk_agrees:
  assumes "parse_executable_chunk uc c doc = Done doc'" "doc_owned_bytes doc = Some view" "chunk_payload_bytes c = unat (chunk_offset c) + 8"
    and "program_at uc view (chunk_start (info_of_document c)) (chunk_finish (info_of_document c)) v insts icb"
    and "chunk_finish (info_of_document c) \<le> length view" "length view \<le> UINT32_MAX" "little_endian_host uc"
  shows "\<exists>is ds. grew doc is ds doc' \<and> map raw_of_document is = raw_instructions insts"
proof -
  let ?po = "unat (chunk_offset c) + 8" and ?e = "chunk_finish (info_of_document c)"
  from assms(1-3) grew_refl [of doc] obtain declared doc1 ds where c: "4 dvd unat (chunk_payload_size c)"
      "declared = unat (chunk_payload_size c) div 4" "2 \<le> declared" "grew doc [] ds doc1"
      "scan_instructions uc view ?po (chunk_table_index c) declared 2 0 doc1 = Done doc'"
    by (auto simp: parse_executable_chunk_def outcome_simps Let_def and_3_dvd split: if_splits dest!: append_diagnostic_Done)
  have "\<exists>is. grew doc1 is [] doc' \<and> map raw_of_document is = raw_instructions insts"
    by (rule scan_agrees [of uc view ?e "?po + 8" 0 insts icb ?po 2 declared "chunk_table_index c"])
      (use assms(4-) c in \<open>auto simp: program_at_def\<close>)
  then show ?thesis using grew_trans [OF c(4)] by fastforce
qed

lemma executables_agree:
  assumes "ofold (parse_if_executable uc) dcs doc = Done doc'" "programs_at uc view (filter program_chunk (map info_of_document dcs)) ps" "doc_owned_bytes doc = Some view"
    and "\<forall>c\<in>set dcs. chunk_payload_bytes c = unat (chunk_offset c) + 8 \<and> chunk_kind c = classify_chunk (chunk_fourcc c) \<and> chunk_finish (info_of_document c) \<le> length view"
    and "length view \<le> UINT32_MAX" "little_endian_host uc"
  shows "\<exists>is ds. grew doc is ds doc' \<and> map raw_of_document is = raw_instructions (concat (map (\<lambda>(v, insts, icb). insts) ps))"
  using assms
proof (induction dcs arbitrary: doc ps)
  case Nil
  then show ?case using grew_refl by (auto simp: raw_instructions_def intro!: exI [of _ "[]"])
next
  case (Cons c dcs)
  then obtain doc1 where c: "parse_if_executable uc c doc = Done doc1" and rest: "ofold (parse_if_executable uc) dcs doc1 = Done doc'"
    by (auto simp: outcome_simps)
  have own: "doc_owned_bytes doc1 = Some view"
    using parse_if_executable_Done [OF c] Cons.prems(3,4) grew_frame(7) by fastforce
  show ?case
  proof (cases "program_chunk (info_of_document c)")
    case True
    then obtain v insts icb ps' where ps: "ps = (v, insts, icb) # ps'"
      "program_at uc view (chunk_start (info_of_document c)) (chunk_finish (info_of_document c)) v insts icb"
      "programs_at uc view (filter program_chunk (map info_of_document dcs)) ps'"
      using Cons.prems(2) by (auto simp: list_all2_Cons1)
    have "parse_executable_chunk uc c doc = Done doc1" using c True Cons.prems(4) program_chunk_kind by (auto simp: parse_if_executable_def)
    then obtain is1 ds1 where 1: "grew doc is1 ds1 doc1" "map raw_of_document is1 = raw_instructions insts"
      using executable_chunk_agrees [OF _ Cons.prems(3) _ ps(2) _ Cons.prems(5,6)] Cons.prems(4) by fastforce
    obtain is2 ds2 where 2: "grew doc1 is2 ds2 doc'" "map raw_of_document is2 = raw_instructions (concat (map (\<lambda>(v, insts, icb). insts) ps'))"
      using Cons.IH [OF rest ps(3) own _ Cons.prems(5,6)] Cons.prems(4) by auto
    show ?thesis using grew_trans [OF 1(1) 2(1)] 1(2) 2(2) by (intro exI conjI) (auto simp: ps(1) raw_instructions_def)
  next
    case False
    then have "doc1 = doc" using c Cons.prems(4) program_chunk_kind by (auto simp: parse_if_executable_def)
    then show ?thesis using Cons.IH [OF rest _ own _ Cons.prems(5,6), of ps] Cons.prems(2,4) False by auto
  qed
qed

lemma document_parse_run:
  assumes "dxbc_document_parse uc stack dst (Buf bs) = Done doc" "little_endian_host uc"
  obtains doc0 where "ofold (parse_if_executable uc) (doc_chunks doc) doc0 = Done doc" "doc_owned_bytes doc0 = Some bs" "doc_instructions doc0 = []"
proof -
  from assms(1) obtain version declared count chunks where
    hdr: "parse_header uc bs = Done (version, declared, count)"
    and table: "ofold (parse_chunk uc bs (32 + unat count * 4)) [0..<unat count] [] = Done chunks"
    and exec: "ofold (parse_if_executable uc) chunks (dxbc_document_init\<lparr>doc_magic := bslice bs 0 4,
        doc_hash := bslice bs 4 16, doc_container_version := version, doc_declared_size := declared,
        doc_chunk_count := count, doc_hash_valid := True, doc_owned_bytes := Some bs,
        doc_owned_size := length bs, doc_chunks := chunks\<rparr>) = Done doc" (is "ofold _ _ ?doc0 = _")
    by (auto simp: dxbc_document_parse_def outcome_simps Let_def split: option.splits if_splits)
  have start: "table_inv uc bs (32 + unat count * 4) (unat count) 0 []"
    using parse_header_Done [OF hdr assms(2)] assms(2) by (simp add: table_inv_def chunk_table_ok_def)
  have "chunk_table_ok bs (32 + unat count * 4) (unat count) chunks"
    using chunk_table.count_keeps [OF start _ _ table] by (simp add: table_inv_def)
  then have "\<forall>c\<in>set chunks. chunk_payload_bytes c = unat (chunk_offset c) + 8"
    by (auto simp: chunk_table_ok_def chunk_ok_def all_set_conv_all_nth)
  from parse_executables_Done [OF exec this] have "doc_chunks doc = chunks" using grew_frame(9) by fastforce
  with exec show ?thesis by (intro that [of ?doc0]) (simp_all add: dxbc_document_init_def)
qed

section \<open>Agreement\<close>

lemma readers_agree:
  assumes "little_endian_host uc" "dxbc_document_parse uc stack dst (Buf view) = Done doc" "container_parsed uc view cs ps c"
  shows "map info_of_document (doc_chunks doc) = chunk_array c" "map raw_of_document (doc_instructions doc) = raw_instructions (instrs c)"
proof -
  have ok: "document_ok view doc" using document_parse_Done [OF assms(2,1)] by blast
  have cs: "map info_of_document (doc_chunks doc) = cs" by (rule chunk_tables_agree [OF ok assms(3)])
  then show "map info_of_document (doc_chunks doc) = chunk_array c" using parsed_ok(2) [OF assms(3)] by simp
  obtain doc0 where doc0: "ofold (parse_if_executable uc) (doc_chunks doc) doc0 = Done doc" "doc_owned_bytes doc0 = Some view" "doc_instructions doc0 = []"
    by (rule document_parse_run [OF assms(2,1)])
  have "programs_at uc view (filter program_chunk (map info_of_document (doc_chunks doc))) ps"
    unfolding cs using assms(3) unfolding container_parsed_def programs_of_def by blast
  moreover have "\<forall>c\<in>set (doc_chunks doc). chunk_payload_bytes c = unat (chunk_offset c) + 8 \<and> chunk_kind c = classify_chunk (chunk_fourcc c) \<and> chunk_finish (info_of_document c) \<le> length view"
    using ok by (auto simp: document_ok_def chunk_table_ok_def chunk_ok_def chunk_end_def all_set_conv_all_nth)
  moreover have "length view \<le> UINT32_MAX" using ok unat_lt32 [of "doc_declared_size doc"] by (simp add: document_ok_def)
  ultimately obtain "is" ds where "grew doc0 is ds doc" "map raw_of_document is = raw_instructions (concat (map (\<lambda>(v, insts, icb). insts) ps))"
    using executables_agree [OF doc0(1) _ doc0(2) _ _ assms(1)] by blast
  then show "map raw_of_document (doc_instructions doc) = raw_instructions (instrs c)"
    using grew_frame(10) doc0(3) parsed_instrs [OF assms(3)] by fastforce
qed

lemma decode_semantic_Done:
  assumes "dxbc_document_decode_semantic uc c_malloc stack (Some doc) n = Done c" "document_ok bs doc"
  shows "dxbc_parse uc c_malloc stack (Buf bs) = Done c"
  using assms by (auto simp: dxbc_document_decode_semantic_def document_ok_def split: if_splits outcome.splits)

lemma whole_view:
  assumes "document_ok bs doc" "parsed_view uc stack bs view" "little_endian_host uc"
  shows "view = bs"
proof -
  have "bslice bs 0 4 = magic_DXBC" "rd32 bs 24 = Some (doc_declared_size doc)" "unat (doc_declared_size doc) = length bs" "32 \<le> length bs"
    using assms(1) by (auto simp: document_ok_def)
  then have "raw_dxbc_view uc bs 0 (length bs) = Done \<lparr>view_data = 0, view_size = length bs\<rparr>"
    using assms(3) by (auto simp: raw_dxbc_view_def memcmp_eq_def read_le_u32_at_def outcome_simps Let_def)
  then show ?thesis using assms(2) by (auto simp: parsed_view_def dxbc_container_view_first_def bslice_def)
qed

text \<open>The fields of the container that the stage contract is checked against.\<close>

definition program_of_container :: "dxbc_container \<Rightarrow> container_program" where
  "program_of_container c = \<lparr>cp_has_executable_program = dc_has_executable_program c, cp_program_type = dc_program_type c,
     cp_major_version = dc_major_version c, cp_minor_version = dc_minor_version c\<rparr>"

lemma filter_map_info:
  assumes "\<forall>c\<in>set dcs. chunk_kind c = classify_chunk (chunk_fourcc c)"
  shows "filter program_chunk (map info_of_document dcs) = map info_of_document (filter (\<lambda>c. chunk_kind c = DXBC_DOCUMENT_CHUNK_EXECUTABLE) dcs)"
  using assms by (induction dcs) (auto simp: program_chunk_kind)

lemma container_version:
  assumes "document_ok view doc" "container_parsed uc view cs ps c" "filter (\<lambda>c. chunk_kind c = DXBC_DOCUMENT_CHUNK_EXECUTABLE) (doc_chunks doc) = [ch]"
    and "rd32 view (chunk_payload_bytes ch) = Some v"
  shows "program_of_container c = \<lparr>cp_has_executable_program = True, cp_program_type = drop_bit 16 v, cp_major_version = ucast (drop_bit 4 v AND 0xf),
    cp_minor_version = ucast (v AND 0xf)\<rparr>"
proof -
  have chunks: "\<forall>c\<in>set (doc_chunks doc). chunk_kind c = classify_chunk (chunk_fourcc c) \<and> chunk_payload_bytes c = unat (chunk_offset c) + 8"
    using assms(1) by (auto simp: document_ok_def chunk_table_ok_def chunk_ok_def all_set_conv_all_nth)
  have "ch \<in> set (doc_chunks doc)" using arg_cong [OF assms(3), of set] by auto
  then have ch: "chunk_payload_bytes ch = chunk_start (info_of_document ch)" using chunks by simp
  have f: "filter program_chunk cs = [info_of_document ch]"
    using filter_map_info [of "doc_chunks doc"] chunks chunk_tables_agree [OF assms(1,2)] assms(3) by simp
  obtain n :: u32 and i o' p c1 where c: "ps \<noteq> []" "programs_of uc view cs ps (with_chunks (unat n) cs i o' p) c1"
    "c = c1\<lparr>dc_parsed_signature_authority := True\<rparr>"
    using assms(2) unfolding container_parsed_def by blast
  have "programs_at uc view [info_of_document ch] ps" using c(2) unfolding programs_of_def f by blast
  then obtain insts icb where ps: "ps = [(v, insts, icb)]"
    using assms(4) ch by (auto simp: list_all2_Cons1 program_at_def)
  have "container_frame c1 = set_program v (container_frame (with_chunks (unat n) cs i o' p))" using c(2) by (simp add: programs_of_def ps)
  note field = arg_cong [OF this]
  show ?thesis
    using field [of dc_has_executable_program] field [of dc_program_type] field [of dc_major_version] field [of dc_minor_version]
    by (simp add: program_of_container_def c(3) container_frame_def set_program_def Let_def)
qed

lemma decoded_container:
  assumes uc: "byte_stream_contract uc" "little_endian_host uc" and doc: "dxbc_document_parse uc stack dst (Buf bs) = Done doc"
    and c: "dxbc_document_decode_semantic uc c_malloc stack' (Some doc) n = Done c"
  obtains cs ps where "container_parsed uc bs cs ps c"
proof -
  have ok: "document_ok bs doc" using document_parse_Done [OF doc uc(2)] by blast
  from meetsD [OF dxbc_parse_meets [OF uc] decode_semantic_Done [OF c ok]] obtain view cs ps
    where "parsed_view uc stack' bs view" "container_parsed uc view cs ps c" by blast
  with whole_view [OF ok _ uc(2)] that show ?thesis by blast
qed

section \<open>An example\<close>

text \<open>The compute program of one thread group declaration and a return, read by both readers.\<close>

lemma compute_container_words:
  assumes "length h = 16" "view = magic_DXBC @ h @ drop 20 compute_container"
  shows "length view = 72" "rd32 view 0 = Some 0x43425844" "rd32 view 20 = Some 1" "rd32 view 24 = Some 72" "rd32 view 28 = Some 1" "rd32 view 32 = Some 36"
    "bslice view 36 4 = chars ''SHEX''" "rd32 view 40 = Some 28" "rd32 view 44 = Some 0x50050" "rd32 view 48 = Some 7" "rd32 view 52 = Some 0x0400009B"
    "rd32 view 56 = Some 8" "rd32 view 60 = Some 8" "rd32 view 64 = Some 1" "rd32 view 68 = Some 0x0100003E"
proof -
  have name: "fourcc ''SHEX'' = chars ''SHEX''" "length (chars ''SHEX'') = 4" by (simp_all add: fourcc_def chars_def)
  have magic: "magic_DXBC = bytes32 0x43425844" by (simp add: magic_DXBC_def bytes32_def)
  show "length view = 72" "rd32 view 0 = Some 0x43425844" "rd32 view 20 = Some 1" "rd32 view 24 = Some 72" "rd32 view 28 = Some 1" "rd32 view 32 = Some 36"
    "bslice view 36 4 = chars ''SHEX''" "rd32 view 40 = Some 28" "rd32 view 44 = Some 0x50050" "rd32 view 48 = Some 7" "rd32 view 52 = Some 0x0400009B"
    "rd32 view 56 = Some 8" "rd32 view 60 = Some 8" "rd32 view 64 = Some 1" "rd32 view 68 = Some 0x0100003E"
    using assms by (simp_all add: compute_tail image_simps name magic)
qed

lemma thread_group_decodes:
  fixes inst p r defines "inst \<equiv> begin_instruction 0x0400009B p (p + 16) r"
  shows "apply_controls 0x0400009B inst = Done inst" "in_opcode inst = 155" "in_operands inst = []"
proof -
  show i: "in_opcode inst = 155" "in_operands inst = []" by (simp_all add: inst_def begin_instruction_def zero_instruction_def Let_def)
  have "in_is_decl inst" by (simp add: inst_def begin_instruction_def zero_instruction_def Let_def dxbc_opcode_is_declaration_def)
  then show "apply_controls 0x0400009B inst = Done inst" using i by (simp add: apply_controls_def)
qed

lemma thread_group_payload:
  assumes "in_operands inst = []" "\<not> bs_big_endian s" "bs_position s = 56" "length (bs_data s) = 72"
    "rd32 (bs_data s) 56 = Some 8" "rd32 (bs_data s) 60 = Some 8" "rd32 (bs_data s) 64 = Some 1"
  shows "decode_payload lp64_common 0x0400009B 68 (inst, s, c) =
    Done (inst\<lparr>in_operands := [literal_operand 8, literal_operand 8, literal_operand 1]\<rparr>, s\<lparr>bs_position := 68\<rparr>, c)"
  using assms by (simp add: decode_payload_def dcl_thread_group_def with_literal_def append_declaration_literal_def lp64_instruction_next)

lemma compute_dxbc_parse:
  assumes "length stack = 64"
  shows "\<exists>c. dxbc_parse lp64_common (\<lambda>_. True) stack (Buf (stamp compute_container)) = Done c \<and> map in_opcode (instrs c) = [155, 62] \<and> dc_shader_type_model c = ''cs_5_0''"
proof -
  obtain h where h: "length h = 16" "stamp compute_container = magic_DXBC @ h @ drop 20 compute_container" using compute_image by blast
  have view: "dxbc_container_view_first lp64_common (Buf (magic_DXBC @ h @ drop 20 compute_container)) = Done \<lparr>view_data = 0, view_size = 72\<rparr>"
    using h(1) by (simp add: dxbc_container_view_first_def raw_dxbc_view_def compute_tail read_le_u32_at_def memcmp_eq_def image_simps Let_def)
  obtain view where img: "view = magic_DXBC @ h @ drop 20 compute_container" by blast
  note w = compute_container_words [OF h(1) img]
  have bytes: "bslice view 0 72 = view" using w(1) by (simp add: bslice_def)
  have "dxbc_verify_hash lp64_common stack (Buf (stamp compute_container))"
    by (rule stamp_verifies [OF assms]) (simp_all add: compute_container_def image_simps)
  note v = this [unfolded h(2), folded img]
  have steps: "decode_instructions 21 uc e r st = (if bs_position (fst st) < e then obind (decode_instruction uc e r st) (decode_instructions 20 uc e (r + 1)) else Done st)"
    "decode_instructions 20 uc e r st = (if bs_position (fst st) < e then obind (decode_instruction uc e r st) (decode_instructions 19 uc e (r + 1)) else Done st)"
    "decode_instructions 19 uc e r st = (if bs_position (fst st) < e then obind (decode_instruction uc e r st) (decode_instructions 18 uc e (r + 1)) else Done st)" for uc e r st
    using decode_instructions.simps(2) [of 20] decode_instructions.simps(2) [of 19] decode_instructions.simps(2) [of 18] by simp_all
  note group = thread_group_decodes [of 52 0, simplified]
  show ?thesis unfolding h(2) img [symmetric] dxbc_parse_def view [folded img] on_fail.simps obind.simps Let_def c_buffer.case container_view.simps bytes
    using v w
    apply (simp add: parse_view_def read_header_def)
    apply (simp add: parse_chunks_def allocate_chunks_def read_offset_def describe_chunk_def read_chunk_header_def range_within_def push_chunk_def fresh_container_def zero_container_def read_signature_chunk_def shex_name run_chunk_def)
    apply (simp add: parse_shader_logic_def lp64_instruction_next version_accepted_def Let_def)
    apply (simp add: steps(1) decode_instruction_def read_instruction_extent_def lp64_instruction_next dxbc_tokenized_instruction_length_def reserve_instructions_def Let_def store_instruction_def
      group thread_group_payload grow_allocation.simps [of _ 128] instrs_def shader_model_text_def switch_table_def)
    apply (simp add: steps(2) decode_instruction_def read_instruction_extent_def lp64_instruction_next dxbc_tokenized_instruction_length_def reserve_instructions_def Let_def store_instruction_def
      return_decodes)
    by (simp add: steps instrs_def return_decodes group char_of_def bit_Suc_0_iff)
qed

lemma compute_semantic:
  assumes "dxbc_document_parse lp64_common (replicate 64 0) (Some dxbc_document_init) (Buf (stamp compute_container)) = Done doc"
  obtains c where "dxbc_document_decode_semantic lp64_common (\<lambda>_. True) (replicate 64 0) (Some doc) False = Done c" "map in_opcode (instrs c) = [155, 62]"
proof -
  obtain c where c: "dxbc_parse lp64_common (\<lambda>_. True) (replicate 64 0) (Buf (stamp compute_container)) = Done c" "map in_opcode (instrs c) = [155, 62]"
    using compute_dxbc_parse [of "replicate 64 0"] by auto
  have "document_ok (stamp compute_container) doc" using document_parse_Done [OF assms] by simp
  then have own: "doc_owned_bytes doc = Some (stamp compute_container)" "doc_owned_size doc \<noteq> 0" by (auto simp: document_ok_def)
  then have "dxbc_document_decode_semantic lp64_common (\<lambda>_. True) (replicate 64 0) (Some doc) False = Done c"
    using c(1) by (simp add: dxbc_document_decode_semantic_def)
  from that [OF this c(2)] show ?thesis .
qed

section \<open>Properties\<close>

text \<open>
  C12: the two readers agree.  Decoding a parsed document gives a container with the chunks of the document, and its
  instructions, continuation rows of custom data apart, are one by one the raw instructions of the document: the same
  place, size, index in the program and opcode.
\<close>

theorem semantic_decoding_agrees_with_document:
  assumes "byte_stream_contract uc" "little_endian_host uc" "dxbc_document_parse uc stack dst (Buf bs) = Done doc"
    and "dxbc_document_decode_semantic uc c_malloc stack' (Some doc) n = Done c"
  shows "map info_of_document (doc_chunks doc) = chunk_array c \<and>
    map raw_of_document (doc_instructions doc) = map raw_of_semantic (filter (\<lambda>i. \<not> in_is_customdata_continuation i) (instrs c))"
proof -
  obtain cs ps where "container_parsed uc bs cs ps c" by (rule decoded_container [OF assms])
  from readers_agree [OF assms(2,3) this] show ?thesis by (simp add: raw_instructions_def)
qed

theorem semantic_decoding_agrees_with_document_witness:
  "\<exists>doc c. dxbc_document_decode_semantic lp64_common (\<lambda>_. True) (replicate 64 0) (Some doc) False = Done c \<and> length (doc_instructions doc) = 2 \<and>
     map raw_of_document (doc_instructions doc) = map raw_of_semantic (filter (\<lambda>i. \<not> in_is_customdata_continuation i) (instrs c))"
proof -
  obtain doc where doc: "dxbc_document_parse lp64_common (replicate 64 0) (Some dxbc_document_init) (Buf (stamp compute_container)) = Done doc"
    "length (doc_instructions doc) = 2"
    using compute_parse [of "replicate 64 0"] by auto
  obtain c where c: "dxbc_document_decode_semantic lp64_common (\<lambda>_. True) (replicate 64 0) (Some doc) False = Done c" by (rule compute_semantic [OF doc(1)])
  from semantic_decoding_agrees_with_document [OF lp64_common_ok(4,1) doc(1) c] c doc(2) show ?thesis by blast
qed

text \<open>
  C13: the stage contract accepts the container that a document decodes to.  When the document has a contract and decodes,
  checking the contract against the decoded container succeeds and returns the contract of the document alone.
\<close>

theorem decoded_container_passes_contract_check:
  assumes "byte_stream_contract uc" "little_endian_host uc" "dxbc_document_parse uc stack dst (Buf bs) = Done doc"
    and "dxbc_document_decode_semantic uc c_malloc stack' (Some doc) n = Done c"
    and "dxbc_stage_contract_decode_document uc (Some doc) True = Done ct"
  shows "dxbc_stage_contract_decode uc (Some doc) (Some (program_of_container c)) True = Done ct"
proof -
  obtain cs ps where parsed: "container_parsed uc bs cs ps c" by (rule decoded_container [OF assms(1-4)])
  have ok: "document_ok bs doc" using document_parse_Done [OF assms(3,2)] by blast
  have "describes bs doc ct" using decode_document_Done [OF assms(2,3,5)] by blast
  then obtain ch where ch: "filter (\<lambda>c. chunk_kind c = DXBC_DOCUMENT_CHUNK_EXECUTABLE) (doc_chunks doc) = [ch]"
    "rd32 bs (chunk_payload_bytes ch) = Some (sc_version_token ct)" and v: "version_ok ct" unfolding describes_def by blast
  show ?thesis
    unfolding container_version [OF ok parsed ch] using v assms(5)
    by (auto simp: version_ok_def dxbc_stage_contract_decode_def dxbc_stage_contract_decode_document_def dxbc_stage_contract_validate_container_def not_le outcome_simps Let_def)
qed

theorem decoded_container_passes_contract_check_witness:
  "\<exists>doc c ct. dxbc_document_decode_semantic lp64_common (\<lambda>_. True) (replicate 64 0) (Some doc) False = Done c \<and>
     dxbc_stage_contract_decode lp64_common (Some doc) (Some (program_of_container c)) True = Done ct \<and> sc_thread_group_size ct = [8, 8, 1]"
proof -
  obtain doc ct where e: "dxbc_document_parse lp64_common (replicate 64 0) (Some dxbc_document_init) (Buf (stamp compute_container)) = Done doc"
    "dxbc_stage_contract_decode_document lp64_common (Some doc) True = Done ct" "sc_thread_group_size ct = [8, 8, 1]"
    using compute_example by blast
  obtain c where c: "dxbc_document_decode_semantic lp64_common (\<lambda>_. True) (replicate 64 0) (Some doc) False = Done c" by (rule compute_semantic [OF e(1)])
  from decoded_container_passes_contract_check [OF lp64_common_ok(4,1) e(1) c e(2)] c e(3) show ?thesis by blast
qed

text \<open>
  The two readers accept the same shader models.  The version test of the semantic parser and that of the stage
  contract, written separately, agree on every version token.
\<close>

lemma version_domains_agree:
  assumes "little_endian_host uc" "rd32 owned (chunk_payload_bytes chunk) = Some v"
  shows "(\<exists>ct'. decode_version uc owned chunk ct = Done ct') \<longleftrightarrow> version_accepted v"
proof -
  have narrow: "unat (ucast x :: u8) = unat x" if "unat x < 16" for x :: u32
    using that by (simp add: unsigned_ucast_eq take_bit_nat_eq_self)
  have fifteen: "(0xf :: u32) = mask 4" by (simp add: mask_eq_exp_minus_1)
  have nibble: "unat (w AND 0xf) < 16" for w :: u32 unfolding fifteen unat_and_mask by simp
  have small: "(ucast (w AND 0xf) :: u8) = ucast c \<longleftrightarrow> w AND 0xf = c" "(ucast (w AND 0xf) :: u8) > ucast c \<longleftrightarrow> w AND 0xf > c" if "unat c < 16" for w c :: u32
    using narrow [OF nibble, of w] narrow [OF that] by (simp_all add: word_less_nat_alt flip: unat_inject)
  define program major minor where defs: "program = drop_bit 16 v" "major = drop_bit 4 v AND 0xf" "minor = v AND 0xf"
  have accepted: "version_accepted v \<longleftrightarrow> \<not> (v AND 0x0000ff00 \<noteq> 0 \<or> program > 5 \<or> major \<noteq> 4 \<and> major \<noteq> 5 \<or> major = 4 \<and> minor > 1 \<or> major = 5 \<and> minor \<noteq> 0 \<or>
    (program = 3 \<or> program = 4) \<and> major \<noteq> 5)"
    using small(1) [of 4 "drop_bit 4 v"] small(1) [of 5 "drop_bit 4 v"] small(2) [of 1 v] small(1) [of 0 v]
    unfolding version_accepted_def Let_def defs by simp
  have "program \<ge> 6 \<longleftrightarrow> program > 5" by (simp add: word_less_nat_alt word_le_nat_alt) linarith
  then have "(\<exists>ct'. decode_version uc owned chunk ct = Done ct') \<longleftrightarrow> \<not> (v AND 0x0000ff00 \<noteq> 0 \<or> program > 5) \<and>
    \<not> (major \<noteq> 4 \<and> major \<noteq> 5 \<or> major = 4 \<and> minor > 1 \<or> major = 5 \<and> minor \<noteq> 0 \<or> (program = 3 \<or> program = 4) \<and> major \<noteq> 5)"
    unfolding decode_version_def assms(2) mem_Some obind.simps Let_def little_endian_hostD [OF assms(1)] defs [symmetric] contract_fail_def
    by (simp only: if_bool_eq_conj) auto
  then show ?thesis unfolding accepted by blast
qed

end
