(* ===== verification/Byte_Codes.thy ===== *)
theory Byte_Codes
  imports Prelude
begin

text \<open>
  Codes that can be read back.  A code is uniquely readable on a set of values when an encoding at the start of a byte
  string determines the value and what follows it.  Words, counted strings and counted lists have such codes, and
  writing one behind the other keeps the property.
\<close>

locale prefix_code =
  fixes ok :: "'a \<Rightarrow> bool" and enc :: "'a \<Rightarrow> bytes"
  assumes unique: "ok a \<Longrightarrow> ok b \<Longrightarrow> enc a @ r = enc b @ s \<Longrightarrow> a = b \<and> r = s"
begin

lemma inj: "inj_on enc {a. ok a}"
  using unique [of _ _ "[]" "[]"] by (auto intro: inj_onI)

lemma read: "ok a \<Longrightarrow> ok b \<Longrightarrow> enc a @ r = enc b @ s \<longleftrightarrow> a = b \<and> r = s"
  using unique by blast

lemma read_list:
  "length xs = length ys \<Longrightarrow> list_all ok xs \<Longrightarrow> list_all ok ys \<Longrightarrow>
   concat (map enc xs) @ r = concat (map enc ys) @ s \<longleftrightarrow> xs = ys \<and> r = s"
  by (induction xs ys rule: list_induct2) (auto simp: read)

end

section \<open>Words\<close>

definition bytes64 :: "u64 \<Rightarrow> bytes" where
  "bytes64 v = map (\<lambda>i. ucast (drop_bit (8 * i) v)) [0..<8]"

lemma length_bytes64 [simp]: "length (bytes64 v) = 8"
  by (simp add: bytes64_def)

lemma bytes64_inject [simp]: "bytes64 v = bytes64 w \<longleftrightarrow> v = w"
proof
  assume eq: "bytes64 v = bytes64 w"
  show "v = w"
  proof (rule bit_word_eqI)
    fix n
    assume n: "n < LENGTH(64)"
    have i: "n div 8 < 8" using n by simp
    have "bytes64 v ! (n div 8) = bytes64 w ! (n div 8)" using eq by simp
    then have "bit (ucast (drop_bit (8 * (n div 8)) v) :: u8) (n mod 8) = bit (ucast (drop_bit (8 * (n div 8)) w) :: u8) (n mod 8)"
      using i by (simp add: bytes64_def)
    moreover have "n mod 8 < LENGTH(8)" by simp
    ultimately show "bit v n = bit w n" by (simp only: bit_unsigned_iff bit_drop_bit_eq o_apply mult_div_mod_eq) simp
  qed
qed simp

interpretation word32: prefix_code "\<lambda>_. True" bytes32
  by unfold_locales (simp add: bytes32_inject)

interpretation word64: prefix_code "\<lambda>_. True" bytes64
  by unfold_locales (simp add: bytes64_inject)

text \<open>Blocks of a fixed size are codes of themselves.\<close>

interpretation block: prefix_code "\<lambda>bs. length bs = n" "\<lambda>bs. bs" for n :: nat
  by unfold_locales simp

section \<open>Counted strings and lists\<close>

definition encode_string :: "bytes \<Rightarrow> bytes" where
  "encode_string s = bytes32 (of_nat (length s)) @ s"

definition encode_list :: "('a \<Rightarrow> bytes) \<Rightarrow> 'a list \<Rightarrow> bytes" where
  "encode_list enc xs = bytes32 (of_nat (length xs)) @ concat (map enc xs)"

lemma count_inject: "m \<le> UINT32_MAX \<Longrightarrow> n \<le> UINT32_MAX \<Longrightarrow> (of_nat m :: u32) = of_nat n \<longleftrightarrow> m = n"
  by (auto simp: word_of_nat_eq_iff take_bit_nat_eq_self)

interpretation counted_string: prefix_code "\<lambda>s. length s \<le> UINT32_MAX" encode_string
  by unfold_locales (auto simp: encode_string_def count_inject)

text \<open>A counted list of codes is a code.\<close>

locale counted_code = item: prefix_code ok enc for ok :: "'a \<Rightarrow> bool" and enc
begin

lemma counted_list:
  assumes "length xs \<le> UINT32_MAX" "length ys \<le> UINT32_MAX" "list_all ok xs" "list_all ok ys"
  shows "encode_list enc xs @ r = encode_list enc ys @ s \<longleftrightarrow> xs = ys \<and> r = s"
proof -
  have "encode_list enc xs @ r = encode_list enc ys @ s \<longleftrightarrow>
      length xs = length ys \<and> concat (map enc xs) @ r = concat (map enc ys) @ s"
    using assms(1,2) by (simp add: encode_list_def count_inject)
  then show ?thesis using item.read_list [OF _ assms(3,4)] by blast
qed

end

sublocale counted_code \<subseteq> listed: prefix_code "\<lambda>xs. length xs \<le> UINT32_MAX \<and> list_all ok xs" "encode_list enc"
  by unfold_locales (simp add: counted_list)

interpretation words: counted_code "\<lambda>_. True" bytes32
  by unfold_locales

interpretation strings: counted_code "\<lambda>s. length s \<le> UINT32_MAX" encode_string
  by unfold_locales

end
