(* ===== verification/Variant_Key.thy ===== *)
theory Variant_Key
  imports C_Strings Byte_Codes
begin

text \<open>
  The identity of a shader variant (\<open>src/common/variant_key.c\<close>): validation and copying of a descriptor, comparison,
  the stable serialisation and its digest.  Signed integers are words read with \<open>sint\<close>.  \<open>c_malloc\<close> tells whether
  \<open>malloc\<close> and \<open>calloc\<close> return storage for a size, \<open>sha256\<close> is the hash of UnityCommon.
\<close>

section \<open>Data\<close>

datatype variant_key_status =
    VARIANT_KEY_OK | VARIANT_KEY_INVALID_ARGUMENT | VARIANT_KEY_INVALID_COUNT | VARIANT_KEY_INCONSISTENT_ARRAY
  | VARIANT_KEY_INVALID_VALUE | VARIANT_KEY_ALLOCATION_FAILED | VARIANT_KEY_SIZE_OVERFLOW

type_synonym 'a key_outcome = "(variant_key_status, 'a) outcome"

abbreviation (input) VARIANT_KEY_FORMAT_VERSION :: u32 where "VARIANT_KEY_FORMAT_VERSION \<equiv> 4"
abbreviation (input) VARIANT_KEY_DIGEST_SIZE :: nat where "VARIANT_KEY_DIGEST_SIZE \<equiv> 32"
abbreviation (input) VARIANT_KEY_MAX_KEYWORD_INDICES :: nat where "VARIANT_KEY_MAX_KEYWORD_INDICES \<equiv> 1048576"
abbreviation (input) VARIANT_KEY_MAX_COMPILER_KEYWORDS :: nat where "VARIANT_KEY_MAX_COMPILER_KEYWORDS \<equiv> 1048576"
abbreviation (input) VARIANT_KEY_MAX_STRING_BYTES :: nat where "VARIANT_KEY_MAX_STRING_BYTES \<equiv> 16777216"
abbreviation (input) sizeof_VariantKey :: nat where "sizeof_VariantKey \<equiv> 416"

record fingerprint =
  fp_present :: bool
  fp_bytes :: bytes

type_synonym c_strings = "c_string c_array"

record compiler_authority =
  ca_schema_version :: u32
  ca_build_platform :: u32
  ca_compiler_flags :: u32
  ca_language :: u32
  ca_shader_type :: u32
  ca_request_requirements :: u64
  ca_request_program_mask :: u32
  ca_program_start :: u32
  ca_render_state_length :: u32
  ca_valid_apis :: u32
  ca_caching_preprocessor :: bool
  ca_preprocess_only :: bool
  ca_strip_line_directives :: bool
  ca_source_directory :: c_string
  ca_source_basename :: c_string
  ca_pass_name :: c_string
  ca_variant_keywords :: c_strings
  ca_variant_keyword_count :: nat
  ca_user_keywords :: c_strings
  ca_user_keyword_count :: nat
  ca_enabled_platform_keywords :: c_strings
  ca_enabled_platform_keyword_count :: nat
  ca_disabled_keywords :: c_strings
  ca_disabled_keyword_count :: nat
  ca_compiler_fingerprint :: fingerprint
  ca_environment_fingerprint :: fingerprint
  ca_source_fingerprint :: fingerprint
  ca_request_input_fingerprint :: fingerprint

record variant_key_descriptor =
  vd_shader_path_id :: u64
  vd_subshader_index :: u32
  vd_pass_index :: u32
  vd_stage :: u32
  vd_compiler_platform :: u32
  vd_archive_platform_index :: u32
  vd_hardware_tier_group :: u32
  vd_subprogram_index :: u32
  vd_parameter_blob_index :: u32
  vd_serialized_program_type :: u32
  vd_serialized_hardware_tier_present :: bool
  vd_serialized_hardware_tier :: u32
  vd_serialized_requirements :: u64
  vd_serialized_program_mask :: u32
  vd_player_metadata_present :: bool
  vd_player_program_type :: u32
  vd_player_header_words :: "u32 list"
  vd_player_source_map :: u32
  vd_keyword_scopes_are_explicit :: bool
  vd_global_keyword_indices :: "u32 c_array"
  vd_global_keyword_index_count :: nat
  vd_local_keyword_indices :: "u32 c_array"
  vd_local_keyword_index_count :: nat
  vd_compiler :: compiler_authority

record variant_key =
  vk_shader_path_id :: u64
  vk_subshader_index :: u32
  vk_pass_index :: u32
  vk_stage :: u32
  vk_compiler_platform :: u32
  vk_archive_platform_index :: u32
  vk_hardware_tier_group :: u32
  vk_subprogram_index :: u32
  vk_parameter_blob_index :: u32
  vk_serialized_program_type :: u32
  vk_serialized_hardware_tier_present :: bool
  vk_serialized_hardware_tier :: u32
  vk_serialized_requirements :: u64
  vk_serialized_program_mask :: u32
  vk_player_metadata_present :: bool
  vk_player_program_type :: u32
  vk_player_header_words :: "u32 list"
  vk_player_source_map :: u32
  vk_keyword_scopes_are_explicit :: bool
  vk_global_keyword_indices :: "u32 c_array"
  vk_global_keyword_index_count :: nat
  vk_local_keyword_indices :: "u32 c_array"
  vk_local_keyword_index_count :: nat
  vk_compiler :: compiler_authority

definition zero_fingerprint :: fingerprint where
  "zero_fingerprint = \<lparr>fp_present = False, fp_bytes = replicate VARIANT_KEY_DIGEST_SIZE 0\<rparr>"

definition zero_authority :: compiler_authority where
  "zero_authority = \<lparr>ca_schema_version = 0, ca_build_platform = 0, ca_compiler_flags = 0, ca_language = 0, ca_shader_type = 0,
     ca_request_requirements = 0, ca_request_program_mask = 0, ca_program_start = 0, ca_render_state_length = 0, ca_valid_apis = 0,
     ca_caching_preprocessor = False, ca_preprocess_only = False, ca_strip_line_directives = False, ca_source_directory = None,
     ca_source_basename = None, ca_pass_name = None, ca_variant_keywords = None, ca_variant_keyword_count = 0, ca_user_keywords = None,
     ca_user_keyword_count = 0, ca_enabled_platform_keywords = None, ca_enabled_platform_keyword_count = 0, ca_disabled_keywords = None,
     ca_disabled_keyword_count = 0, ca_compiler_fingerprint = zero_fingerprint, ca_environment_fingerprint = zero_fingerprint,
     ca_source_fingerprint = zero_fingerprint, ca_request_input_fingerprint = zero_fingerprint\<rparr>"

definition zero_variant_key :: variant_key where
  "zero_variant_key = \<lparr>vk_shader_path_id = 0, vk_subshader_index = 0, vk_pass_index = 0, vk_stage = 0, vk_compiler_platform = 0,
     vk_archive_platform_index = 0, vk_hardware_tier_group = 0, vk_subprogram_index = 0, vk_parameter_blob_index = 0, vk_serialized_program_type = 0,
     vk_serialized_hardware_tier_present = False, vk_serialized_hardware_tier = 0, vk_serialized_requirements = 0, vk_serialized_program_mask = 0,
     vk_player_metadata_present = False, vk_player_program_type = 0, vk_player_header_words = replicate 4 0, vk_player_source_map = 0,
     vk_keyword_scopes_are_explicit = False, vk_global_keyword_indices = None, vk_global_keyword_index_count = 0, vk_local_keyword_indices = None,
     vk_local_keyword_index_count = 0, vk_compiler = zero_authority\<rparr>"

section \<open>Validation\<close>

definition bytes_are_zero :: "bytes \<Rightarrow> bool" where
  "bytes_are_zero bs = list_all (\<lambda>b. b = 0) bs"

definition fingerprint_is_valid :: "fingerprint \<Rightarrow> bool" where
  "fingerprint_is_valid f \<longleftrightarrow> fp_present f \<or> bytes_are_zero (fp_bytes f)"

text \<open>The scan for the terminator, which gives up behind the longest string allowed.\<close>

function bounded_scan :: "bytes \<Rightarrow> nat \<Rightarrow> nat option key_outcome" where
  "bounded_scan value i =
     (if i \<le> VARIANT_KEY_MAX_STRING_BYTES then
        obind (element (Some value) i) (\<lambda>c. if c = 0 then Done (Some i) else bounded_scan value (i + 1))
      else Done None)"
  by pat_completeness auto
termination by (relation "measure (\<lambda>(_, i). Suc VARIANT_KEY_MAX_STRING_BYTES - i)") auto

declare bounded_scan.simps [simp del]

definition bounded_string_length :: "c_string \<Rightarrow> nat option key_outcome" where
  "bounded_string_length value = (case value of None \<Rightarrow> Done None | Some v \<Rightarrow> bounded_scan v 0)"

definition validate_string :: "bool \<Rightarrow> c_string \<Rightarrow> unit key_outcome" where
  "validate_string reject_empty value = obind (bounded_string_length value) (\<lambda>len. case len of
     None \<Rightarrow> Fail VARIANT_KEY_INVALID_VALUE
   | Some n \<Rightarrow> if reject_empty \<and> n = 0 then Fail VARIANT_KEY_INVALID_VALUE else Done ())"

definition validate_string_array :: "c_strings \<Rightarrow> nat \<Rightarrow> bool \<Rightarrow> unit key_outcome" where
  "validate_string_array values count reject_empty =
     (if count > VARIANT_KEY_MAX_COMPILER_KEYWORDS \<or> count > UINT32_MAX then Fail VARIANT_KEY_INVALID_COUNT
      else if (count = 0) \<noteq> (values = None) then Fail VARIANT_KEY_INCONSISTENT_ARRAY
      else ofold (\<lambda>i _. obind (element values i) (validate_string reject_empty)) [0..<count] ())"

definition validate_values :: "variant_key_descriptor \<Rightarrow> unit key_outcome" where
  "validate_values d = (let c = vd_compiler d in
     if sint (vd_compiler_platform d) < 0 \<or> vd_hardware_tier_group d > 3 \<or> sint (vd_parameter_blob_index d) < -1 \<or>
        sint (vd_serialized_program_type d) < 0 \<or>
        vd_serialized_hardware_tier_present d \<and> (sint (vd_serialized_hardware_tier d) < 0 \<or> sint (vd_serialized_hardware_tier d) > 3) \<or>
        vd_player_metadata_present d \<and> sint (vd_player_program_type d) < 0 \<or>
        sint (ca_language c) < 0 \<or> sint (ca_shader_type c) < 0 \<or> sint (ca_program_start c) < 0 \<or> sint (ca_render_state_length c) < 0
     then Fail VARIANT_KEY_INVALID_VALUE
     else if \<not> fingerprint_is_valid (ca_compiler_fingerprint c) \<or> \<not> fingerprint_is_valid (ca_environment_fingerprint c) \<or>
             \<not> fingerprint_is_valid (ca_source_fingerprint c) \<or> \<not> fingerprint_is_valid (ca_request_input_fingerprint c)
     then Fail VARIANT_KEY_INVALID_VALUE else Done ())"

definition validate_descriptor :: "variant_key_descriptor option \<Rightarrow> unit key_outcome" where
  "validate_descriptor descriptor = (case descriptor of
     None \<Rightarrow> Fail VARIANT_KEY_INVALID_ARGUMENT
   | Some d \<Rightarrow> let c = vd_compiler d in
       if vd_global_keyword_index_count d > VARIANT_KEY_MAX_KEYWORD_INDICES \<or> vd_local_keyword_index_count d > VARIANT_KEY_MAX_KEYWORD_INDICES \<or>
          vd_global_keyword_index_count d > UINT32_MAX \<or> vd_local_keyword_index_count d > UINT32_MAX
       then Fail VARIANT_KEY_INVALID_COUNT
       else if (vd_global_keyword_index_count d = 0) \<noteq> (vd_global_keyword_indices d = None) \<or>
               (vd_local_keyword_index_count d = 0) \<noteq> (vd_local_keyword_indices d = None)
       then Fail VARIANT_KEY_INCONSISTENT_ARRAY
       else obind (validate_string False (ca_source_directory c)) (\<lambda>_.
            obind (validate_string False (ca_source_basename c)) (\<lambda>_.
            obind (validate_string False (ca_pass_name c)) (\<lambda>_.
            obind (validate_string_array (ca_variant_keywords c) (ca_variant_keyword_count c) True) (\<lambda>_.
            obind (validate_string_array (ca_user_keywords c) (ca_user_keyword_count c) True) (\<lambda>_.
            obind (validate_string_array (ca_enabled_platform_keywords c) (ca_enabled_platform_keyword_count c) True) (\<lambda>_.
            obind (validate_string_array (ca_disabled_keywords c) (ca_disabled_keyword_count c) True) (\<lambda>_.
            validate_values d))))))))"

section \<open>Copying\<close>

text \<open>The copy routines return \<open>None\<close> for \<open>NULL\<close>: an empty array or an allocation that failed.\<close>

definition copy_indices :: "(nat \<Rightarrow> bool) \<Rightarrow> u32 c_array \<Rightarrow> nat \<Rightarrow> u32 c_array key_outcome" where
  "copy_indices c_malloc indices count =
     (if count = 0 then Done None
      else if count > SIZE_MAX div 4 then Done None
      else if \<not> c_malloc (count * 4) then Done None
      else obind (c_memcpy indices count) (\<lambda>xs. Done (Some xs)))"

definition copy_string :: "(nat \<Rightarrow> bool) \<Rightarrow> c_string \<Rightarrow> c_string key_outcome" where
  "copy_string c_malloc value = obind (c_strlen value) (\<lambda>n.
     if \<not> c_malloc (n + 1) then Done None else obind (c_memcpy value (n + 1)) (\<lambda>s. Done (Some s)))"

definition copy_next :: "(nat \<Rightarrow> bool) \<Rightarrow> c_strings \<Rightarrow> nat \<Rightarrow> c_strings \<Rightarrow> c_strings key_outcome" where
  "copy_next c_malloc values i result = (case result of
     None \<Rightarrow> Done None
   | Some copies \<Rightarrow> obind (element values i) (\<lambda>v. obind (copy_string c_malloc v) (\<lambda>copy.
       if copy = None then Done None else Done (Some (copies @ [copy])))))"

definition copy_string_array :: "(nat \<Rightarrow> bool) \<Rightarrow> c_strings \<Rightarrow> nat \<Rightarrow> c_strings key_outcome" where
  "copy_string_array c_malloc values count =
     (if count = 0 then Done None
      else if count > SIZE_MAX div 8 then Done None
      else if \<not> c_malloc (count * 8) then Done None
      else ofold (copy_next c_malloc values) [0..<count] (Some []))"

text \<open>Releasing an array reads every counted element.\<close>

definition free_string_array :: "c_strings \<Rightarrow> nat \<Rightarrow> unit key_outcome" where
  "free_string_array values count = (case values of
     None \<Rightarrow> Done ()
   | Some _ \<Rightarrow> ofold (\<lambda>i _. obind (element values i) (\<lambda>_. Done ())) [0..<count] ())"

definition variant_key_free :: "variant_key option \<Rightarrow> unit key_outcome" where
  "variant_key_free key = (case key of
     None \<Rightarrow> Done ()
   | Some k \<Rightarrow> let c = vk_compiler k in
       obind (free_string_array (ca_variant_keywords c) (ca_variant_keyword_count c)) (\<lambda>_.
       obind (free_string_array (ca_user_keywords c) (ca_user_keyword_count c)) (\<lambda>_.
       obind (free_string_array (ca_enabled_platform_keywords c) (ca_enabled_platform_keyword_count c)) (\<lambda>_.
       free_string_array (ca_disabled_keywords c) (ca_disabled_keyword_count c)))))"

definition canonicalize_fingerprint :: "fingerprint \<Rightarrow> fingerprint" where
  "canonicalize_fingerprint f = (if \<not> fp_present f then f\<lparr>fp_bytes := replicate VARIANT_KEY_DIGEST_SIZE 0\<rparr> else f)"

definition allocation_failed :: "variant_key \<Rightarrow> 'a key_outcome" where
  "allocation_failed key = obind (variant_key_free (Some key)) (\<lambda>_. Fail VARIANT_KEY_ALLOCATION_FAILED)"

text \<open>The scalar fields; the strings and keyword arrays of the authority start empty.\<close>

definition copy_authority :: "compiler_authority \<Rightarrow> compiler_authority" where
  "copy_authority c = c\<lparr>ca_source_directory := None, ca_source_basename := None, ca_pass_name := None, ca_variant_keywords := None,
     ca_variant_keyword_count := 0, ca_user_keywords := None, ca_user_keyword_count := 0, ca_enabled_platform_keywords := None,
     ca_enabled_platform_keyword_count := 0, ca_disabled_keywords := None, ca_disabled_keyword_count := 0,
     ca_compiler_fingerprint := canonicalize_fingerprint (ca_compiler_fingerprint c),
     ca_environment_fingerprint := canonicalize_fingerprint (ca_environment_fingerprint c),
     ca_source_fingerprint := canonicalize_fingerprint (ca_source_fingerprint c),
     ca_request_input_fingerprint := canonicalize_fingerprint (ca_request_input_fingerprint c)\<rparr>"

definition copy_scalars :: "variant_key_descriptor \<Rightarrow> variant_key \<Rightarrow> variant_key" where
  "copy_scalars d key = (let
     player = vd_player_metadata_present d in
     key\<lparr>vk_shader_path_id := vd_shader_path_id d, vk_subshader_index := vd_subshader_index d, vk_pass_index := vd_pass_index d,
     vk_stage := vd_stage d, vk_compiler_platform := vd_compiler_platform d, vk_archive_platform_index := vd_archive_platform_index d,
     vk_hardware_tier_group := vd_hardware_tier_group d, vk_subprogram_index := vd_subprogram_index d,
     vk_parameter_blob_index := vd_parameter_blob_index d, vk_serialized_program_type := vd_serialized_program_type d,
     vk_serialized_hardware_tier_present := vd_serialized_hardware_tier_present d,
     vk_serialized_hardware_tier := (if vd_serialized_hardware_tier_present d then vd_serialized_hardware_tier d else 0),
     vk_serialized_requirements := vd_serialized_requirements d, vk_serialized_program_mask := vd_serialized_program_mask d,
     vk_player_metadata_present := vd_player_metadata_present d, vk_player_program_type := (if player then vd_player_program_type d else 0),
     vk_player_header_words := (if player then vd_player_header_words d else vk_player_header_words key),
     vk_player_source_map := (if player then vd_player_source_map d else vk_player_source_map key),
     vk_keyword_scopes_are_explicit := vd_keyword_scopes_are_explicit d, vk_global_keyword_index_count := vd_global_keyword_index_count d,
     vk_local_keyword_index_count := vd_local_keyword_index_count d, vk_compiler := copy_authority (vd_compiler d)\<rparr>)"

definition copy_strings :: "(nat \<Rightarrow> bool) \<Rightarrow> compiler_authority \<Rightarrow> variant_key \<Rightarrow> variant_key key_outcome" where
  "copy_strings c_malloc c key =
     obind (copy_string c_malloc (ca_source_directory c)) (\<lambda>directory.
     obind (copy_string c_malloc (ca_source_basename c)) (\<lambda>basename.
     obind (copy_string c_malloc (ca_pass_name c)) (\<lambda>pass. let
       key = key\<lparr>vk_compiler := (vk_compiler key)\<lparr>ca_source_directory := directory, ca_source_basename := basename, ca_pass_name := pass\<rparr>\<rparr> in
     if directory = None \<or> basename = None \<or> pass = None then allocation_failed key else Done key)))"

definition copy_keywords :: "(nat \<Rightarrow> bool) \<Rightarrow> c_strings \<Rightarrow> nat \<Rightarrow> (c_strings \<Rightarrow> nat \<Rightarrow> compiler_authority \<Rightarrow> compiler_authority) \<Rightarrow> variant_key \<Rightarrow> variant_key key_outcome" where
  "copy_keywords c_malloc values count install key =
     obind (copy_string_array c_malloc values count) (\<lambda>copy.
     if count > 0 \<and> copy = None then allocation_failed (key\<lparr>vk_compiler := install copy 0 (vk_compiler key)\<rparr>)
     else Done (key\<lparr>vk_compiler := install copy count (vk_compiler key)\<rparr>))"

definition copy_authority_arrays :: "(nat \<Rightarrow> bool) \<Rightarrow> compiler_authority \<Rightarrow> variant_key \<Rightarrow> variant_key key_outcome" where
  "copy_authority_arrays c_malloc c key =
     obind (copy_keywords c_malloc (ca_variant_keywords c) (ca_variant_keyword_count c)
       (\<lambda>v n a. a\<lparr>ca_variant_keywords := v, ca_variant_keyword_count := n\<rparr>) key) (\<lambda>key.
     obind (copy_keywords c_malloc (ca_user_keywords c) (ca_user_keyword_count c)
       (\<lambda>v n a. a\<lparr>ca_user_keywords := v, ca_user_keyword_count := n\<rparr>) key) (\<lambda>key.
     obind (copy_keywords c_malloc (ca_enabled_platform_keywords c) (ca_enabled_platform_keyword_count c)
       (\<lambda>v n a. a\<lparr>ca_enabled_platform_keywords := v, ca_enabled_platform_keyword_count := n\<rparr>) key) (\<lambda>key.
     copy_keywords c_malloc (ca_disabled_keywords c) (ca_disabled_keyword_count c)
       (\<lambda>v n a. a\<lparr>ca_disabled_keywords := v, ca_disabled_keyword_count := n\<rparr>) key)))"

text \<open>\<open>out\<close> is false when the output pointer is \<open>NULL\<close>.\<close>

definition variant_key_init :: "(nat \<Rightarrow> bool) \<Rightarrow> bool \<Rightarrow> variant_key_descriptor option \<Rightarrow> variant_key key_outcome" where
  "variant_key_init c_malloc out descriptor =
     (if \<not> out then Fail VARIANT_KEY_INVALID_ARGUMENT
      else obind (validate_descriptor descriptor) (\<lambda>_.
      if \<not> c_malloc sizeof_VariantKey then Fail VARIANT_KEY_ALLOCATION_FAILED
      else obind (mem descriptor) (\<lambda>d.
      obind (copy_indices c_malloc (vd_global_keyword_indices d) (vd_global_keyword_index_count d)) (\<lambda>global. let
        key = zero_variant_key\<lparr>vk_global_keyword_indices := global\<rparr> in
      if vd_global_keyword_index_count d > 0 \<and> global = None then allocation_failed key
      else obind (copy_indices c_malloc (vd_local_keyword_indices d) (vd_local_keyword_index_count d)) (\<lambda>local. let
        key = key\<lparr>vk_local_keyword_indices := local\<rparr> in
      if vd_local_keyword_index_count d > 0 \<and> local = None then allocation_failed key
      else obind (copy_strings c_malloc (vd_compiler d) (copy_scalars d key)) (copy_authority_arrays c_malloc (vd_compiler d)))))))"

definition variant_key_describe :: "variant_key option \<Rightarrow> bool \<Rightarrow> variant_key_descriptor key_outcome" where
  "variant_key_describe key out = (case key of
     None \<Rightarrow> Fail VARIANT_KEY_INVALID_ARGUMENT
   | Some k \<Rightarrow> if \<not> out then Fail VARIANT_KEY_INVALID_ARGUMENT
       else Done \<lparr>vd_shader_path_id = vk_shader_path_id k, vd_subshader_index = vk_subshader_index k, vd_pass_index = vk_pass_index k,
     vd_stage = vk_stage k, vd_compiler_platform = vk_compiler_platform k, vd_archive_platform_index = vk_archive_platform_index k,
     vd_hardware_tier_group = vk_hardware_tier_group k, vd_subprogram_index = vk_subprogram_index k,
     vd_parameter_blob_index = vk_parameter_blob_index k, vd_serialized_program_type = vk_serialized_program_type k,
     vd_serialized_hardware_tier_present = vk_serialized_hardware_tier_present k, vd_serialized_hardware_tier = vk_serialized_hardware_tier k,
     vd_serialized_requirements = vk_serialized_requirements k, vd_serialized_program_mask = vk_serialized_program_mask k,
     vd_player_metadata_present = vk_player_metadata_present k, vd_player_program_type = vk_player_program_type k,
     vd_player_header_words = vk_player_header_words k, vd_player_source_map = vk_player_source_map k,
     vd_keyword_scopes_are_explicit = vk_keyword_scopes_are_explicit k, vd_global_keyword_indices = vk_global_keyword_indices k,
     vd_global_keyword_index_count = vk_global_keyword_index_count k, vd_local_keyword_indices = vk_local_keyword_indices k,
     vd_local_keyword_index_count = vk_local_keyword_index_count k, vd_compiler = vk_compiler k\<rparr>)"

definition variant_key_copy :: "(nat \<Rightarrow> bool) \<Rightarrow> bool \<Rightarrow> variant_key option \<Rightarrow> variant_key key_outcome" where
  "variant_key_copy c_malloc out source =
     (if \<not> out then Fail VARIANT_KEY_INVALID_ARGUMENT
      else if source = None then Fail VARIANT_KEY_INVALID_ARGUMENT
      else obind (variant_key_describe source True) (\<lambda>descriptor. variant_key_init c_malloc True (Some descriptor)))"

section \<open>Comparison\<close>

definition fingerprints_equal :: "fingerprint \<Rightarrow> fingerprint \<Rightarrow> bool" where
  "fingerprints_equal left right \<longleftrightarrow> fp_present left = fp_present right \<and> (\<not> fp_present left \<or> fp_bytes left = fp_bytes right)"

definition string_arrays_equal :: "c_strings \<Rightarrow> c_strings \<Rightarrow> nat \<Rightarrow> bool key_outcome" where
  "string_arrays_equal left right count = ofold (\<lambda>i equal. if \<not> equal then Done False
     else obind (element left i) (\<lambda>l. obind (element right i) (c_strcmp_eq l))) [0..<count] True"

definition compiler_authority_equal :: "compiler_authority \<Rightarrow> compiler_authority \<Rightarrow> bool key_outcome" where
  "compiler_authority_equal left right =
     oand (Done (ca_schema_version left = ca_schema_version right \<and> ca_build_platform left = ca_build_platform right \<and>
     ca_compiler_flags left = ca_compiler_flags right \<and> ca_language left = ca_language right \<and>
     ca_shader_type left = ca_shader_type right \<and> ca_request_requirements left = ca_request_requirements right \<and>
     ca_request_program_mask left = ca_request_program_mask right \<and> ca_program_start left = ca_program_start right \<and>
     ca_render_state_length left = ca_render_state_length right \<and> ca_valid_apis left = ca_valid_apis right \<and>
     ca_caching_preprocessor left = ca_caching_preprocessor right \<and> ca_preprocess_only left = ca_preprocess_only right \<and>
     ca_strip_line_directives left = ca_strip_line_directives right))
     (oand (c_strcmp_eq (ca_source_directory left) (ca_source_directory right))
     (oand (c_strcmp_eq (ca_source_basename left) (ca_source_basename right))
     (oand (c_strcmp_eq (ca_pass_name left) (ca_pass_name right))
     (oand (Done (ca_variant_keyword_count left = ca_variant_keyword_count right \<and>
     ca_user_keyword_count left = ca_user_keyword_count right \<and>
     ca_enabled_platform_keyword_count left = ca_enabled_platform_keyword_count right \<and>
     ca_disabled_keyword_count left = ca_disabled_keyword_count right))
     (oand (string_arrays_equal (ca_variant_keywords left) (ca_variant_keywords right) (ca_variant_keyword_count left))
     (oand (string_arrays_equal (ca_user_keywords left) (ca_user_keywords right) (ca_user_keyword_count left))
     (oand (string_arrays_equal (ca_enabled_platform_keywords left) (ca_enabled_platform_keywords right) (ca_enabled_platform_keyword_count left))
     (oand (string_arrays_equal (ca_disabled_keywords left) (ca_disabled_keywords right) (ca_disabled_keyword_count left))
     (Done (fingerprints_equal (ca_compiler_fingerprint left) (ca_compiler_fingerprint right) \<and>
     fingerprints_equal (ca_environment_fingerprint left) (ca_environment_fingerprint right) \<and>
     fingerprints_equal (ca_source_fingerprint left) (ca_source_fingerprint right) \<and>
     fingerprints_equal (ca_request_input_fingerprint left) (ca_request_input_fingerprint right)))))))))))"

text \<open>A key compared with itself through the same pointer is equal without a look at its fields.\<close>

definition variant_key_equal :: "bool \<Rightarrow> variant_key option \<Rightarrow> variant_key option \<Rightarrow> bool key_outcome" where
  "variant_key_equal same_pointer left right =
     (if same_pointer \<or> left = None \<and> right = None then Done True
      else case (left, right) of
        (Some l, Some r) \<Rightarrow>
          oand (Done (vk_shader_path_id l = vk_shader_path_id r \<and> vk_subshader_index l = vk_subshader_index r \<and>
     vk_pass_index l = vk_pass_index r \<and> vk_stage l = vk_stage r \<and> vk_compiler_platform l = vk_compiler_platform r \<and>
     vk_archive_platform_index l = vk_archive_platform_index r \<and> vk_hardware_tier_group l = vk_hardware_tier_group r \<and>
     vk_subprogram_index l = vk_subprogram_index r \<and> vk_parameter_blob_index l = vk_parameter_blob_index r \<and>
     vk_serialized_program_type l = vk_serialized_program_type r \<and>
     vk_serialized_hardware_tier_present l = vk_serialized_hardware_tier_present r \<and>
     vk_serialized_hardware_tier l = vk_serialized_hardware_tier r \<and> vk_serialized_requirements l = vk_serialized_requirements r \<and>
     vk_serialized_program_mask l = vk_serialized_program_mask r \<and> vk_player_metadata_present l = vk_player_metadata_present r \<and>
     vk_player_program_type l = vk_player_program_type r \<and> vk_player_header_words l = vk_player_header_words r \<and>
     vk_player_source_map l = vk_player_source_map r \<and> vk_keyword_scopes_are_explicit l = vk_keyword_scopes_are_explicit r \<and>
     vk_global_keyword_index_count l = vk_global_keyword_index_count r \<and> vk_local_keyword_index_count l = vk_local_keyword_index_count r))
          (oand (compiler_authority_equal (vk_compiler l) (vk_compiler r))
          (oand (if vk_global_keyword_index_count l = 0 then Done True else c_memcmp_eq (vk_global_keyword_indices l) (vk_global_keyword_indices r) (vk_global_keyword_index_count l))
          (if vk_local_keyword_index_count l = 0 then Done True else c_memcmp_eq (vk_local_keyword_indices l) (vk_local_keyword_indices r) (vk_local_keyword_index_count l))))
      | _ \<Rightarrow> Done False)"

section \<open>Serialisation\<close>

text \<open>\<open>Fail\<close> is the result \<open>false\<close>; the size so far is the state.\<close>

definition checked_add_size :: "nat \<Rightarrow> nat \<Rightarrow> nat key_outcome" where
  "checked_add_size sz amount = (if sz > SIZE_MAX - amount then Fail VARIANT_KEY_SIZE_OVERFLOW else Done (sz + amount))"

definition checked_add_encoded_string_size :: "c_string \<Rightarrow> nat \<Rightarrow> nat key_outcome" where
  "checked_add_encoded_string_size value sz = obind (c_strlen value) (\<lambda>n.
     if n > UINT32_MAX then Fail VARIANT_KEY_SIZE_OVERFLOW
     else obind (checked_add_size sz 4) (\<lambda>sz. checked_add_size sz n))"

definition checked_add_string_array_size :: "c_strings \<Rightarrow> nat \<Rightarrow> nat \<Rightarrow> nat key_outcome" where
  "checked_add_string_array_size values count sz =
     ofold (\<lambda>i sz. obind (element values i) (\<lambda>v. checked_add_encoded_string_size v sz)) [0..<count] sz"

text \<open>The writer: the bytes written so far, whose number is the offset, and the size of the buffer.\<close>

record key_writer =
  wr_written :: bytes
  wr_size :: nat

type_synonym key_write = "key_writer \<Rightarrow> key_writer key_outcome"

definition writer_bytes :: "bytes \<Rightarrow> key_write" where
  "writer_bytes data w = (let offset = length (wr_written w) in
     if offset > wr_size w \<or> length data > wr_size w - offset then Fail VARIANT_KEY_SIZE_OVERFLOW
     else Done (w\<lparr>wr_written := wr_written w @ data\<rparr>))"

definition writer_u32 :: "u32 \<Rightarrow> key_write" where
  "writer_u32 v = writer_bytes [ucast v, ucast (drop_bit 8 v), ucast (drop_bit 16 v), ucast (drop_bit 24 v)]"

definition writer_u64 :: "u64 \<Rightarrow> key_write" where
  "writer_u64 v = writer_bytes (map (\<lambda>i. ucast (drop_bit (i * 8) v)) [0..<8])"

definition writer_flag :: "bool \<Rightarrow> key_write" where
  "writer_flag b = writer_u32 (if b then 1 else 0)"

definition writer_string :: "c_string \<Rightarrow> key_write" where
  "writer_string value w = obind (c_strlen value) (\<lambda>n.
     if n > UINT32_MAX then Fail VARIANT_KEY_SIZE_OVERFLOW
     else obind (writer_u32 (of_nat n) w) (\<lambda>w. obind (c_memcpy value n) (\<lambda>data. writer_bytes data w)))"

definition writer_string_array :: "c_strings \<Rightarrow> nat \<Rightarrow> key_write" where
  "writer_string_array values count w =
     (if count > UINT32_MAX then Fail VARIANT_KEY_SIZE_OVERFLOW
      else obind (writer_u32 (of_nat count) w) (ofold (\<lambda>i w. obind (element values i) (\<lambda>v. writer_string v w)) [0..<count]))"

definition writer_indices :: "u32 c_array \<Rightarrow> nat \<Rightarrow> key_write" where
  "writer_indices indices count w = obind (writer_u32 (of_nat count) w)
     (ofold (\<lambda>i w. obind (element indices i) (\<lambda>v. writer_u32 v w)) [0..<count])"

definition writer_fingerprint :: "fingerprint \<Rightarrow> key_write" where
  "writer_fingerprint f w = obind (writer_flag (fp_present f) w)
     (writer_bytes (if fp_present f then fp_bytes f else replicate VARIANT_KEY_DIGEST_SIZE 0))"

definition VARIANT_KEY_MAGIC :: bytes where
  "VARIANT_KEY_MAGIC = map of_char ''DXBCVKEY''"

definition serialized_size :: "variant_key \<Rightarrow> nat key_outcome" where
  "serialized_size k = (let c = vk_compiler k in
     if vk_global_keyword_index_count k > SIZE_MAX div 4 \<or> vk_local_keyword_index_count k > SIZE_MAX div 4 then Fail VARIANT_KEY_SIZE_OVERFLOW
     else obind (checked_add_size 340 (vk_global_keyword_index_count k * 4)) (\<lambda>n.
     obind (checked_add_size n (vk_local_keyword_index_count k * 4)) (\<lambda>n.
     obind (checked_add_encoded_string_size (ca_source_directory c) n) (\<lambda>n.
     obind (checked_add_encoded_string_size (ca_source_basename c) n) (\<lambda>n.
     obind (checked_add_encoded_string_size (ca_pass_name c) n) (\<lambda>n.
     obind (checked_add_string_array_size (ca_variant_keywords c) (ca_variant_keyword_count c) n) (\<lambda>n.
     obind (checked_add_string_array_size (ca_user_keywords c) (ca_user_keyword_count c) n) (\<lambda>n.
     obind (checked_add_string_array_size (ca_enabled_platform_keywords c) (ca_enabled_platform_keyword_count c) n) (\<lambda>n.
     checked_add_string_array_size (ca_disabled_keywords c) (ca_disabled_keyword_count c) n)))))))))"

definition write_identity :: "variant_key \<Rightarrow> key_write list" where
  "write_identity k =
     [writer_u64 (vk_shader_path_id k), writer_u32 (vk_subshader_index k), writer_u32 (vk_pass_index k), writer_u32 (vk_stage k),
      writer_u32 (vk_compiler_platform k), writer_u32 (vk_archive_platform_index k), writer_u32 (vk_hardware_tier_group k),
      writer_u32 (vk_subprogram_index k), writer_u32 (vk_parameter_blob_index k), writer_u32 (vk_serialized_program_type k),
      writer_flag (vk_serialized_hardware_tier_present k), writer_u32 (vk_serialized_hardware_tier k),
      writer_u64 (vk_serialized_requirements k), writer_u32 (vk_serialized_program_mask k), writer_flag (vk_player_metadata_present k),
      writer_u32 (vk_player_program_type k)] @
     map (\<lambda>i w. obind (element (Some (vk_player_header_words k)) i) (\<lambda>v. writer_u32 v w)) [0..<4] @
     [writer_u32 (vk_player_source_map k), writer_flag (vk_keyword_scopes_are_explicit k),
      writer_indices (vk_global_keyword_indices k) (vk_global_keyword_index_count k),
      writer_indices (vk_local_keyword_indices k) (vk_local_keyword_index_count k)]"

definition write_authority :: "compiler_authority \<Rightarrow> key_write list" where
  "write_authority c =
     [writer_u32 (ca_schema_version c), writer_u32 (ca_build_platform c), writer_u32 (ca_compiler_flags c), writer_u32 (ca_language c),
      writer_u32 (ca_shader_type c), writer_u64 (ca_request_requirements c), writer_u32 (ca_request_program_mask c),
      writer_u32 (ca_program_start c), writer_u32 (ca_render_state_length c), writer_u32 (ca_valid_apis c),
      writer_flag (ca_caching_preprocessor c), writer_flag (ca_preprocess_only c), writer_flag (ca_strip_line_directives c),
      writer_string (ca_source_directory c), writer_string (ca_source_basename c), writer_string (ca_pass_name c),
      writer_string_array (ca_variant_keywords c) (ca_variant_keyword_count c),
      writer_string_array (ca_user_keywords c) (ca_user_keyword_count c),
      writer_string_array (ca_enabled_platform_keywords c) (ca_enabled_platform_keyword_count c),
      writer_string_array (ca_disabled_keywords c) (ca_disabled_keyword_count c),
      writer_fingerprint (ca_compiler_fingerprint c), writer_fingerprint (ca_environment_fingerprint c),
      writer_fingerprint (ca_source_fingerprint c), writer_fingerprint (ca_request_input_fingerprint c)]"

definition variant_key_serialize :: "(nat \<Rightarrow> bool) \<Rightarrow> bool \<Rightarrow> variant_key option \<Rightarrow> bytes key_outcome" where
  "variant_key_serialize c_malloc out key =
     (if \<not> out then Fail VARIANT_KEY_INVALID_ARGUMENT
      else case key of
        None \<Rightarrow> Fail VARIANT_KEY_INVALID_ARGUMENT
      | Some k \<Rightarrow>
          obind (serialized_size k) (\<lambda>sz.
          if \<not> c_malloc sz then Fail VARIANT_KEY_ALLOCATION_FAILED
          else obind (ofold (\<lambda>step w. step w)
            ([writer_bytes VARIANT_KEY_MAGIC, writer_u32 VARIANT_KEY_FORMAT_VERSION, writer_u64 (of_nat sz)] @ write_identity k @ write_authority (vk_compiler k))
            \<lparr>wr_written = [], wr_size = sz\<rparr>) (\<lambda>w.
          if length (wr_written w) \<noteq> sz then Fail VARIANT_KEY_SIZE_OVERFLOW else Done (wr_written w))))"

definition variant_key_digest :: "(nat \<Rightarrow> bool) \<Rightarrow> (bytes \<Rightarrow> bytes) \<Rightarrow> bool \<Rightarrow> variant_key option \<Rightarrow> bytes key_outcome" where
  "variant_key_digest c_malloc sha256 digest key =
     (if \<not> digest then Fail VARIANT_KEY_INVALID_ARGUMENT
      else obind (variant_key_serialize c_malloc True key) (\<lambda>data. Done (sha256 data)))"

fun variant_key_status_string :: "variant_key_status \<Rightarrow> string" where
  "variant_key_status_string VARIANT_KEY_OK = ''ok''"
| "variant_key_status_string VARIANT_KEY_INVALID_ARGUMENT = ''invalid argument''"
| "variant_key_status_string VARIANT_KEY_INVALID_COUNT = ''invalid count''"
| "variant_key_status_string VARIANT_KEY_INCONSISTENT_ARRAY = ''inconsistent array''"
| "variant_key_status_string VARIANT_KEY_INVALID_VALUE = ''invalid value''"
| "variant_key_status_string VARIANT_KEY_ALLOCATION_FAILED = ''allocation failed''"
| "variant_key_status_string VARIANT_KEY_SIZE_OVERFLOW = ''size overflow''"

end
