(* ===== verification/Variant_Key_Spec.thy ===== *)
theory Variant_Key_Spec
  imports Variant_Key
begin

text \<open>
  What a variant key is: the declarative form of a valid descriptor, the byte code of a key, and the theorems that make
  the serialisation an identity: it never fails on an initialised key, and two keys are equal exactly when their bytes are.
\<close>

section \<open>Well-formed keys\<close>

definition good_string :: "bytes \<Rightarrow> bool" where
  "good_string s \<longleftrightarrow> 0 \<notin> set s \<and> length s \<le> VARIANT_KEY_MAX_STRING_BYTES"

definition text_of :: "c_string \<Rightarrow> bytes" where "text_of p = content (the p)"

definition items :: "'a c_array \<Rightarrow> 'a list" where "items xs = (case xs of None \<Rightarrow> [] | Some ys \<Rightarrow> ys)"

definition string_ok :: "c_string \<Rightarrow> bool" where
  "string_ok p \<longleftrightarrow> good_string (text_of p) \<and> p = stored (text_of p)"

definition array_ok :: "'a c_array \<Rightarrow> nat \<Rightarrow> nat \<Rightarrow> bool" where
  "array_ok xs n limit \<longleftrightarrow> (xs = None \<longleftrightarrow> n = 0) \<and> length (items xs) = n \<and> n \<le> limit"

definition keywords_ok :: "c_strings \<Rightarrow> nat \<Rightarrow> bool" where
  "keywords_ok xs n \<longleftrightarrow> array_ok xs n VARIANT_KEY_MAX_COMPILER_KEYWORDS \<and> list_all (\<lambda>p. string_ok p \<and> text_of p \<noteq> []) (items xs)"

definition fingerprint_ok :: "fingerprint \<Rightarrow> bool" where
  "fingerprint_ok f \<longleftrightarrow> length (fp_bytes f) = VARIANT_KEY_DIGEST_SIZE \<and> (\<not> fp_present f \<longrightarrow> fp_bytes f = replicate VARIANT_KEY_DIGEST_SIZE 0)"

definition authority_ok :: "compiler_authority \<Rightarrow> bool" where
  "authority_ok c \<longleftrightarrow> string_ok (ca_source_directory c) \<and> string_ok (ca_source_basename c) \<and> string_ok (ca_pass_name c) \<and>
     keywords_ok (ca_variant_keywords c) (ca_variant_keyword_count c) \<and> keywords_ok (ca_user_keywords c) (ca_user_keyword_count c) \<and>
     keywords_ok (ca_enabled_platform_keywords c) (ca_enabled_platform_keyword_count c) \<and> keywords_ok (ca_disabled_keywords c) (ca_disabled_keyword_count c) \<and>
     fingerprint_ok (ca_compiler_fingerprint c) \<and> fingerprint_ok (ca_environment_fingerprint c) \<and>
     fingerprint_ok (ca_source_fingerprint c) \<and> fingerprint_ok (ca_request_input_fingerprint c)"

definition key_ok :: "variant_key \<Rightarrow> bool" where
  "key_ok k \<longleftrightarrow> array_ok (vk_global_keyword_indices k) (vk_global_keyword_index_count k) VARIANT_KEY_MAX_KEYWORD_INDICES \<and>
     array_ok (vk_local_keyword_indices k) (vk_local_keyword_index_count k) VARIANT_KEY_MAX_KEYWORD_INDICES \<and>
     length (vk_player_header_words k) = 4 \<and> authority_ok (vk_compiler k)"

section \<open>The encoding\<close>

definition bytes_flag :: "bool \<Rightarrow> bytes" where "bytes_flag b = bytes32 (if b then 1 else 0)"

definition encode_keywords :: "c_strings \<Rightarrow> bytes" where
  "encode_keywords xs = encode_list encode_string (map text_of (items xs))"

definition encode_fingerprint :: "fingerprint \<Rightarrow> bytes" where
  "encode_fingerprint f = bytes_flag (fp_present f) @ fp_bytes f"

definition encode_identity :: "variant_key \<Rightarrow> bytes list" where
  "encode_identity k =
     [bytes64 (vk_shader_path_id k), bytes32 (vk_subshader_index k), bytes32 (vk_pass_index k), bytes32 (vk_stage k),
      bytes32 (vk_compiler_platform k), bytes32 (vk_archive_platform_index k), bytes32 (vk_hardware_tier_group k),
      bytes32 (vk_subprogram_index k), bytes32 (vk_parameter_blob_index k), bytes32 (vk_serialized_program_type k),
      bytes_flag (vk_serialized_hardware_tier_present k), bytes32 (vk_serialized_hardware_tier k),
      bytes64 (vk_serialized_requirements k), bytes32 (vk_serialized_program_mask k), bytes_flag (vk_player_metadata_present k),
      bytes32 (vk_player_program_type k)] @
     map bytes32 (vk_player_header_words k) @
     [bytes32 (vk_player_source_map k), bytes_flag (vk_keyword_scopes_are_explicit k),
      encode_list bytes32 (items (vk_global_keyword_indices k)), encode_list bytes32 (items (vk_local_keyword_indices k))]"

definition encode_authority :: "compiler_authority \<Rightarrow> bytes list" where
  "encode_authority c =
     [bytes32 (ca_schema_version c), bytes32 (ca_build_platform c), bytes32 (ca_compiler_flags c), bytes32 (ca_language c),
      bytes32 (ca_shader_type c), bytes64 (ca_request_requirements c), bytes32 (ca_request_program_mask c),
      bytes32 (ca_program_start c), bytes32 (ca_render_state_length c), bytes32 (ca_valid_apis c),
      bytes_flag (ca_caching_preprocessor c), bytes_flag (ca_preprocess_only c), bytes_flag (ca_strip_line_directives c),
      encode_string (text_of (ca_source_directory c)), encode_string (text_of (ca_source_basename c)), encode_string (text_of (ca_pass_name c)),
      encode_keywords (ca_variant_keywords c), encode_keywords (ca_user_keywords c), encode_keywords (ca_enabled_platform_keywords c),
      encode_keywords (ca_disabled_keywords c),
      encode_fingerprint (ca_compiler_fingerprint c), encode_fingerprint (ca_environment_fingerprint c),
      encode_fingerprint (ca_source_fingerprint c), encode_fingerprint (ca_request_input_fingerprint c)]"

definition encode_fields :: "variant_key \<Rightarrow> bytes" where
  "encode_fields k = concat (encode_identity k @ encode_authority (vk_compiler k))"

definition encode_key :: "variant_key \<Rightarrow> bytes" where
  "encode_key k = VARIANT_KEY_MAGIC @ bytes32 VARIANT_KEY_FORMAT_VERSION @ bytes64 (of_nat (20 + length (encode_fields k))) @ encode_fields k"

section \<open>Writing\<close>

definition writes :: "key_write \<Rightarrow> bytes \<Rightarrow> bool" where
  "writes step out \<longleftrightarrow> (\<forall>w. length (wr_written w) + length out \<le> wr_size w \<longrightarrow> step w = Done (w\<lparr>wr_written := wr_written w @ out\<rparr>))"

lemma writesD: "writes step out \<Longrightarrow> length (wr_written w) + length out \<le> wr_size w \<Longrightarrow> step w = Done (w\<lparr>wr_written := wr_written w @ out\<rparr>)"
  by (simp add: writes_def)

lemma writes_bytes: "writes (writer_bytes out) out"
  by (auto simp: writes_def writer_bytes_def Let_def)

lemma writes_u32: "writes (writer_u32 v) (bytes32 v)"
  using writes_bytes by (simp add: writer_u32_def bytes32_def)

lemma writes_u64: "writes (writer_u64 v) (bytes64 v)"
  using writes_bytes by (simp add: writer_u64_def bytes64_def mult.commute)

lemma writes_flag: "writes (writer_flag b) (bytes_flag b)"
  using writes_u32 by (simp add: writer_flag_def bytes_flag_def)

lemma writes_then:
  assumes "writes step a" "\<And>w. next_step w = obind (step w) rest" "writes rest b"
  shows "writes next_step (a @ b)"
  unfolding writes_def using writesD [OF assms(1)] writesD [OF assms(3)] by (simp add: assms(2))

lemma writes_loop:
  assumes "\<And>i. i < length outs \<Longrightarrow> writes (step i) (outs ! i)"
  shows "writes (ofold step [0..<length outs]) (concat outs)"
proof -
  have "writes (ofold step [k..<length outs]) (concat (drop k outs))" if "k \<le> length outs" for k
    using that
  proof (induction "length outs - k" arbitrary: k)
    case 0
    then show ?case by (simp add: writes_def)
  next
    case (Suc n)
    then have k: "k < length outs" by simp
    have "writes (ofold step [k..<length outs]) (outs ! k @ concat (drop (Suc k) outs))"
      by (rule writes_then [OF assms [OF k]]) (use Suc k in \<open>auto simp: upt_conv_Cons\<close>)
    then show ?case using k by (simp flip: Cons_nth_drop_Suc)
  qed
  from this [of 0] show ?thesis by simp
qed

lemma writes_sequence:
  assumes "list_all2 writes steps outs"
  shows "writes (ofold (\<lambda>step w. step w) steps) (concat outs)"
  using assms
proof (induction rule: list_all2_induct)
  case Nil
  then show ?case by (simp add: writes_def)
next
  case (Cons step steps out outs)
  show ?case unfolding concat.simps by (rule writes_then [OF Cons(1) _ Cons.IH]) simp
qed

lemma writes_string:
  assumes "string_ok p"
  shows "writes (writer_string p) (encode_string (text_of p))"
proof -
  have p: "p = stored (text_of p)" "0 \<notin> set (text_of p)" "length (text_of p) \<le> UINT32_MAX" using assms by (auto simp: string_ok_def good_string_def)
  have len: "c_strlen p = Done (length (text_of p))" by (subst p(1)) (simp add: p(2))
  have copy: "c_memcpy p (length (text_of p)) = Done (text_of p)" by (subst p(1)) (simp add: c_memcpy_def stored_def)
  show ?thesis
    unfolding encode_string_def
    by (rule writes_then [OF writes_u32 _ writes_bytes]) (use p(3) in \<open>simp add: writer_string_def len copy\<close>)
qed

lemma element_items: "i < length (items xs) \<Longrightarrow> element xs i = Done (items xs ! i)"
  by (auto simp: element_def items_def split: option.splits)

lemma writes_indices:
  assumes "array_ok xs n VARIANT_KEY_MAX_KEYWORD_INDICES"
  shows "writes (writer_indices xs n) (encode_list bytes32 (items xs))"
proof -
  have n: "length (items xs) = n" using assms by (simp add: array_ok_def)
  have "writes (ofold (\<lambda>i w. obind (element xs i) (\<lambda>v. writer_u32 v w)) [0..<length (map bytes32 (items xs))]) (concat (map bytes32 (items xs)))"
    by (rule writes_loop) (use writes_u32 in \<open>simp add: writes_def element_items\<close>)
  then have loop: "writes (ofold (\<lambda>i w. obind (element xs i) (\<lambda>v. writer_u32 v w)) [0..<n]) (concat (map bytes32 (items xs)))" using n by simp
  show ?thesis
    unfolding encode_list_def n by (rule writes_then [OF writes_u32 _ loop]) (simp add: writer_indices_def)
qed

lemma writes_keywords:
  assumes "keywords_ok xs n"
  shows "writes (writer_string_array xs n) (encode_keywords xs)"
proof -
  have n: "length (items xs) = n" "n \<le> UINT32_MAX" using assms by (auto simp: keywords_ok_def array_ok_def)
  have "writes (ofold (\<lambda>i w. obind (element xs i) (\<lambda>v. writer_string v w)) [0..<length (map (encode_string \<circ> text_of) (items xs))]) (concat (map (encode_string \<circ> text_of) (items xs)))"
  proof (rule writes_loop)
    fix i
    assume i: "i < length (map (encode_string \<circ> text_of) (items xs))"
    then have "string_ok (items xs ! i)" using assms by (simp add: keywords_ok_def list_all_length)
    from writes_string [OF this] i show "writes (\<lambda>w. obind (element xs i) (\<lambda>v. writer_string v w)) (map (encode_string \<circ> text_of) (items xs) ! i)"
      by (simp add: writes_def element_items)
  qed
  then have loop: "writes (ofold (\<lambda>i w. obind (element xs i) (\<lambda>v. writer_string v w)) [0..<n]) (concat (map encode_string (map text_of (items xs))))" using n(1) by (simp add: comp_def)
  show ?thesis
    unfolding encode_keywords_def encode_list_def length_map n(1) by (rule writes_then [OF writes_u32 _ loop]) (use n(2) in \<open>simp add: writer_string_array_def\<close>)
qed

lemma writes_fingerprint: "fingerprint_ok f \<Longrightarrow> writes (writer_fingerprint f) (encode_fingerprint f)"
  unfolding encode_fingerprint_def by (rule writes_then [OF writes_flag _ writes_bytes]) (auto simp: writer_fingerprint_def fingerprint_ok_def)

lemma header_words:
  assumes "length ws = 4"
  shows "list_all2 writes (map (\<lambda>i w. obind (element (Some ws) i) (\<lambda>v. writer_u32 v w)) [0..<4]) (map bytes32 ws)"
  using assms writes_u32 by (auto simp: list_all2_conv_all_nth element_def)

lemma writes_identity: "key_ok k \<Longrightarrow> list_all2 writes (write_identity k) (encode_identity k)"
  unfolding write_identity_def encode_identity_def key_ok_def
  by (intro list_all2_appendI header_words list.rel_intros writes_u32 writes_u64 writes_flag writes_indices) simp_all

lemma writes_authority: "authority_ok c \<Longrightarrow> list_all2 writes (write_authority c) (encode_authority c)"
  unfolding write_authority_def encode_authority_def authority_ok_def
  by (intro list.rel_intros writes_u32 writes_u64 writes_flag writes_string writes_keywords writes_fingerprint) simp_all

lemma writes_key:
  assumes "key_ok k"
  shows "writes (ofold (\<lambda>step w. step w) ([writer_bytes VARIANT_KEY_MAGIC, writer_u32 VARIANT_KEY_FORMAT_VERSION, writer_u64 n] @ write_identity k @ write_authority (vk_compiler k)))
    (VARIANT_KEY_MAGIC @ bytes32 VARIANT_KEY_FORMAT_VERSION @ bytes64 n @ encode_fields k)"
proof -
  have "list_all2 writes ([writer_bytes VARIANT_KEY_MAGIC, writer_u32 VARIANT_KEY_FORMAT_VERSION, writer_u64 n] @ write_identity k @ write_authority (vk_compiler k))
      ([VARIANT_KEY_MAGIC, bytes32 VARIANT_KEY_FORMAT_VERSION, bytes64 n] @ encode_identity k @ encode_authority (vk_compiler k))"
    using assms by (intro list_all2_appendI list.rel_intros writes_bytes writes_u32 writes_u64 writes_identity writes_authority) (simp_all add: key_ok_def)
  from writes_sequence [OF this] show ?thesis by (simp add: encode_fields_def)
qed

section \<open>Sizes\<close>

lemma length_string [simp]: "length (encode_string s) = 4 + length s"
  by (simp add: encode_string_def)

lemma length_flag [simp]: "length (bytes_flag b) = 4"
  by (simp add: bytes_flag_def)

lemma length_fingerprint: "fingerprint_ok f \<Longrightarrow> length (encode_fingerprint f) = 36"
  by (simp add: encode_fingerprint_def fingerprint_ok_def)

lemma length_indices: "array_ok xs n l \<Longrightarrow> length (encode_list bytes32 (items xs)) = 4 + n * 4"
  by (simp add: encode_list_def array_ok_def length_concat comp_def sum_list_triv)

definition payload_size :: "c_strings \<Rightarrow> nat" where
  "payload_size xs = sum_list (map (\<lambda>p. 4 + length (text_of p)) (items xs))"

lemma length_keywords: "length (encode_keywords xs) = 4 + payload_size xs"
  by (simp add: encode_keywords_def encode_list_def payload_size_def length_concat comp_def)

lemma sum_list_bound: "\<forall>x\<in>set xs. f x \<le> b \<Longrightarrow> sum_list (map f xs) \<le> length xs * (b :: nat)"
  by (induction xs) auto

lemma payload_bound:
  assumes "keywords_ok xs n"
  shows "payload_size xs \<le> 17592190238720"
proof -
  have "payload_size xs \<le> length (items xs) * 16777220"
    unfolding payload_size_def using assms by (intro sum_list_bound) (auto simp: keywords_ok_def list_all_iff string_ok_def good_string_def)
  moreover have "length (items xs) \<le> 1048576" using assms by (simp add: keywords_ok_def array_ok_def)
  ultimately show ?thesis by linarith
qed

lemma length_fields:
  assumes "key_ok k"
  shows "20 + length (encode_fields k) = 340 + vk_global_keyword_index_count k * 4 + vk_local_keyword_index_count k * 4 +
    (4 + length (text_of (ca_source_directory (vk_compiler k)))) + (4 + length (text_of (ca_source_basename (vk_compiler k)))) +
    (4 + length (text_of (ca_pass_name (vk_compiler k)))) + payload_size (ca_variant_keywords (vk_compiler k)) + payload_size (ca_user_keywords (vk_compiler k)) +
    payload_size (ca_enabled_platform_keywords (vk_compiler k)) + payload_size (ca_disabled_keywords (vk_compiler k))"
proof -
  have "array_ok (vk_global_keyword_indices k) (vk_global_keyword_index_count k) 1048576" "array_ok (vk_local_keyword_indices k) (vk_local_keyword_index_count k) 1048576"
    using assms by (simp_all add: key_ok_def)
  note index_lengths = this [THEN length_indices]
  show ?thesis
    using assms by (simp add: encode_fields_def encode_identity_def encode_authority_def key_ok_def authority_ok_def length_fingerprint index_lengths
        length_keywords length_concat comp_def sum_list_triv)
qed

lemma add_size: "a + b \<le> SIZE_MAX \<Longrightarrow> checked_add_size a b = Done (a + b)"
  by (simp add: checked_add_size_def)

lemma add_string_size:
  assumes "string_ok p" "t0 + 4 + length (text_of p) \<le> SIZE_MAX"
  shows "checked_add_encoded_string_size p t0 = Done (t0 + (4 + length (text_of p)))"
proof -
  have p: "p = stored (text_of p)" "0 \<notin> set (text_of p)" "length (text_of p) \<le> UINT32_MAX" using assms(1) by (auto simp: string_ok_def good_string_def)
  have len: "c_strlen p = Done (length (text_of p))" by (subst p(1)) (simp add: p(2))
  show ?thesis using assms(2) p(3) by (simp add: checked_add_encoded_string_size_def checked_add_size_def len)
qed

lemma add_strings_size:
  assumes "keywords_ok xs n" "t0 + payload_size xs \<le> SIZE_MAX"
  shows "checked_add_string_array_size xs n t0 = Done (t0 + payload_size xs)"
proof -
  let ?f = "\<lambda>p. 4 + length (text_of p)"
  have n: "length (items xs) = n" using assms(1) by (simp add: keywords_ok_def array_ok_def)
  have "ofold (\<lambda>i t0. obind (element xs i) (\<lambda>v. checked_add_encoded_string_size v t0)) [k..<n] t = Done (t + sum_list (map ?f (drop k (items xs))))"
    if "k \<le> n" "t + sum_list (map ?f (drop k (items xs))) \<le> SIZE_MAX" for k t
    using that
  proof (induction "n - k" arbitrary: k t)
    case 0
    then show ?case using n by simp
  next
    case (Suc m)
    then have k: "k < n" by simp
    have d: "drop k (items xs) = items xs ! k # drop (Suc k) (items xs)" using k n by (simp add: Cons_nth_drop_Suc)
    have "string_ok (items xs ! k)" using assms(1) k n by (simp add: keywords_ok_def list_all_length)
    then have "checked_add_encoded_string_size (items xs ! k) t = Done (t + ?f (items xs ! k))"
      by (rule add_string_size) (use Suc.prems(2) in \<open>simp add: d\<close>)
    then show ?case using Suc.hyps(1) [of "Suc k" "t + ?f (items xs ! k)"] Suc.hyps(2) Suc.prems(2) k n
      by (simp add: upt_conv_Cons element_items d)
  qed
  from this [of 0 t0] assms(2) show ?thesis by (simp add: checked_add_string_array_size_def payload_size_def)
qed

lemma serialized_size_is:
  assumes "key_ok k"
  shows "serialized_size k = Done (20 + length (encode_fields k))" "20 + length (encode_fields k) \<le> 100000000000000"
proof -
  let ?c = "vk_compiler k"
  have a: "authority_ok ?c" and counts: "vk_global_keyword_index_count k \<le> 1048576" "vk_local_keyword_index_count k \<le> 1048576"
    using assms by (auto simp: key_ok_def array_ok_def)
  have s: "string_ok (ca_source_directory ?c)" "string_ok (ca_source_basename ?c)" "string_ok (ca_pass_name ?c)"
    and kw: "keywords_ok (ca_variant_keywords ?c) (ca_variant_keyword_count ?c)" "keywords_ok (ca_user_keywords ?c) (ca_user_keyword_count ?c)"
      "keywords_ok (ca_enabled_platform_keywords ?c) (ca_enabled_platform_keyword_count ?c)" "keywords_ok (ca_disabled_keywords ?c) (ca_disabled_keyword_count ?c)"
    using a by (auto simp: authority_ok_def)
  have t: "length (text_of (ca_source_directory ?c)) \<le> 16777216" "length (text_of (ca_source_basename ?c)) \<le> 16777216" "length (text_of (ca_pass_name ?c)) \<le> 16777216"
    using s by (auto simp: string_ok_def good_string_def)
  note bounds = counts t kw [THEN payload_bound]
  show "20 + length (encode_fields k) \<le> 100000000000000" unfolding length_fields [OF assms] using bounds by linarith
  show "serialized_size k = Done (20 + length (encode_fields k))"
    unfolding length_fields [OF assms]
    using bounds by (simp add: serialized_size_def Let_def add_size add_string_size [OF s(1)] add_string_size [OF s(2)] add_string_size [OF s(3)]
        add_strings_size [OF kw(1)] add_strings_size [OF kw(2)] add_strings_size [OF kw(3)] add_strings_size [OF kw(4)])
qed

lemma serialize_is:
  assumes "key_ok k"
  shows "variant_key_serialize c_malloc True (Some k) = (if c_malloc (length (encode_key k)) then Done (encode_key k) else Fail VARIANT_KEY_ALLOCATION_FAILED)"
proof -
  have n: "length (encode_key k) = 20 + length (encode_fields k)" by (simp add: encode_key_def VARIANT_KEY_MAGIC_def)
  have "ofold (\<lambda>step w. step w) ([writer_bytes VARIANT_KEY_MAGIC, writer_u32 VARIANT_KEY_FORMAT_VERSION, writer_u64 (of_nat (20 + length (encode_fields k)))] @ write_identity k @ write_authority (vk_compiler k))
     \<lparr>wr_written = [], wr_size = 20 + length (encode_fields k)\<rparr> = Done \<lparr>wr_written = encode_key k, wr_size = 20 + length (encode_fields k)\<rparr>"
    using writesD [OF writes_key [OF assms], of "\<lparr>wr_written = [], wr_size = 20 + length (encode_fields k)\<rparr>"] n by (simp add: encode_key_def)
  then show ?thesis unfolding n by (simp add: variant_key_serialize_def serialized_size_is [OF assms] n)
qed

section \<open>Reading back\<close>

lemma flag_inject [simp]: "bytes_flag a = bytes_flag b \<longleftrightarrow> a = b"
  by (auto simp: bytes_flag_def)

lemma string_inject: "string_ok p \<Longrightarrow> string_ok q \<Longrightarrow> text_of p = text_of q \<longleftrightarrow> p = q"
  by (metis string_ok_def)

lemma string_short: "string_ok p \<Longrightarrow> length (text_of p) \<le> UINT32_MAX"
  by (simp add: string_ok_def good_string_def)

lemma array_inject: "array_ok xs m l \<Longrightarrow> array_ok ys n l \<Longrightarrow> items xs = items ys \<longleftrightarrow> xs = ys \<and> m = n"
  by (auto simp: array_ok_def items_def split: option.splits)

lemma read_string: "string_ok p \<Longrightarrow> string_ok q \<Longrightarrow> encode_string (text_of p) @ r = encode_string (text_of q) @ s \<longleftrightarrow> p = q \<and> r = s"
  by (simp add: counted_string.read string_short string_inject)

lemma read_indices:
  assumes "array_ok xs m VARIANT_KEY_MAX_KEYWORD_INDICES" "array_ok ys n VARIANT_KEY_MAX_KEYWORD_INDICES"
  shows "encode_list bytes32 (items xs) @ r = encode_list bytes32 (items ys) @ s \<longleftrightarrow> xs = ys \<and> m = n \<and> r = s"
  using words.counted_list [of "items xs" "items ys" r s] array_inject [OF assms] assms by (auto simp: array_ok_def list_all_iff)

lemma texts_inject: "list_all string_ok xs \<Longrightarrow> list_all string_ok ys \<Longrightarrow> map text_of xs = map text_of ys \<longleftrightarrow> xs = ys"
proof (induction xs arbitrary: ys)
  case (Cons x xs)
  then show ?case by (cases ys) (auto simp: string_inject)
qed auto

lemma keywords_inject:
  assumes "keywords_ok xs m" "keywords_ok ys n"
  shows "map text_of (items xs) = map text_of (items ys) \<longleftrightarrow> xs = ys \<and> m = n"
proof -
  have "map text_of (items xs) = map text_of (items ys) \<longleftrightarrow> items xs = items ys"
    using assms by (intro texts_inject) (auto simp: keywords_ok_def list_all_iff)
  moreover have "items xs = items ys \<longleftrightarrow> xs = ys \<and> m = n" using assms by (intro array_inject [where l = 1048576]) (simp_all add: keywords_ok_def)
  ultimately show ?thesis by simp
qed

lemma read_keywords:
  assumes "keywords_ok xs m" "keywords_ok ys n"
  shows "encode_keywords xs @ r = encode_keywords ys @ s \<longleftrightarrow> xs = ys \<and> m = n \<and> r = s"
proof -
  have "length (map text_of (items xs)) \<le> UINT32_MAX" "length (map text_of (items ys)) \<le> UINT32_MAX"
    "list_all (\<lambda>s. length s \<le> UINT32_MAX) (map text_of (items xs))" "list_all (\<lambda>s. length s \<le> UINT32_MAX) (map text_of (items ys))"
    using assms string_short by (auto simp: keywords_ok_def array_ok_def list_all_iff)
  from strings.counted_list [OF this] keywords_inject [OF assms] show ?thesis unfolding encode_keywords_def by blast
qed

lemma read_fingerprint:
  assumes "fingerprint_ok f" "fingerprint_ok g"
  shows "encode_fingerprint f @ r = encode_fingerprint g @ s \<longleftrightarrow> f = g \<and> r = s"
  using assms by (auto simp: encode_fingerprint_def fingerprint_ok_def)

lemma read_header_words:
  "length ws = 4 \<Longrightarrow> length vs = 4 \<Longrightarrow> concat (map bytes32 ws) @ r = concat (map bytes32 vs) @ s \<longleftrightarrow> ws = vs \<and> r = s"
  by (intro word32.read_list) (simp_all add: list_all_iff)

definition same_scalars :: "compiler_authority \<Rightarrow> compiler_authority \<Rightarrow> bool" where
  "same_scalars a b \<longleftrightarrow> ca_schema_version a = ca_schema_version b \<and> ca_build_platform a = ca_build_platform b \<and>
     ca_compiler_flags a = ca_compiler_flags b \<and> ca_language a = ca_language b \<and> ca_shader_type a = ca_shader_type b \<and>
     ca_request_requirements a = ca_request_requirements b \<and> ca_request_program_mask a = ca_request_program_mask b \<and>
     ca_program_start a = ca_program_start b \<and> ca_render_state_length a = ca_render_state_length b \<and> ca_valid_apis a = ca_valid_apis b \<and>
     ca_caching_preprocessor a = ca_caching_preprocessor b \<and> ca_preprocess_only a = ca_preprocess_only b \<and>
     ca_strip_line_directives a = ca_strip_line_directives b"

lemma authority_eq_iff:
  "(a :: compiler_authority) = b \<longleftrightarrow> same_scalars a b \<and> ca_source_directory a = ca_source_directory b \<and> ca_source_basename a = ca_source_basename b \<and>
     ca_pass_name a = ca_pass_name b \<and> ca_variant_keywords a = ca_variant_keywords b \<and> ca_variant_keyword_count a = ca_variant_keyword_count b \<and>
     ca_user_keywords a = ca_user_keywords b \<and> ca_user_keyword_count a = ca_user_keyword_count b \<and>
     ca_enabled_platform_keywords a = ca_enabled_platform_keywords b \<and> ca_enabled_platform_keyword_count a = ca_enabled_platform_keyword_count b \<and>
     ca_disabled_keywords a = ca_disabled_keywords b \<and> ca_disabled_keyword_count a = ca_disabled_keyword_count b \<and>
     ca_compiler_fingerprint a = ca_compiler_fingerprint b \<and> ca_environment_fingerprint a = ca_environment_fingerprint b \<and>
     ca_source_fingerprint a = ca_source_fingerprint b \<and> ca_request_input_fingerprint a = ca_request_input_fingerprint b"
  by (intro iffI) (simp add: same_scalars_def, intro compiler_authority.equality, simp_all add: same_scalars_def)

lemma read_authority:
  assumes "authority_ok a" "authority_ok b"
  shows "concat (encode_authority a) = concat (encode_authority b) \<longleftrightarrow> a = b"
proof -
  have nil: "encode_fingerprint f = encode_fingerprint g \<longleftrightarrow> f = g" if "fingerprint_ok f" "fingerprint_ok g" for f g
    using read_fingerprint [OF that, of "[]" "[]"] by simp
  note a = assms [unfolded authority_ok_def]
  show ?thesis
    unfolding authority_eq_iff [of a b] same_scalars_def encode_authority_def
    using a by (simp add: read_string read_keywords [where m = "ca_variant_keyword_count a" and n = "ca_variant_keyword_count b"]
        read_keywords [where m = "ca_user_keyword_count a" and n = "ca_user_keyword_count b"]
        read_keywords [where m = "ca_enabled_platform_keyword_count a" and n = "ca_enabled_platform_keyword_count b"]
        read_keywords [where m = "ca_disabled_keyword_count a" and n = "ca_disabled_keyword_count b"] read_fingerprint nil conj_ac)
qed

lemma key_eq_iff:
  "(k :: variant_key) = l \<longleftrightarrow> vk_shader_path_id k = vk_shader_path_id l \<and> vk_subshader_index k = vk_subshader_index l \<and> vk_pass_index k = vk_pass_index l \<and>
     vk_stage k = vk_stage l \<and> vk_compiler_platform k = vk_compiler_platform l \<and> vk_archive_platform_index k = vk_archive_platform_index l \<and>
     vk_hardware_tier_group k = vk_hardware_tier_group l \<and> vk_subprogram_index k = vk_subprogram_index l \<and> vk_parameter_blob_index k = vk_parameter_blob_index l \<and>
     vk_serialized_program_type k = vk_serialized_program_type l \<and> vk_serialized_hardware_tier_present k = vk_serialized_hardware_tier_present l \<and>
     vk_serialized_hardware_tier k = vk_serialized_hardware_tier l \<and> vk_serialized_requirements k = vk_serialized_requirements l \<and>
     vk_serialized_program_mask k = vk_serialized_program_mask l \<and> vk_player_metadata_present k = vk_player_metadata_present l \<and>
     vk_player_program_type k = vk_player_program_type l \<and> vk_player_header_words k = vk_player_header_words l \<and> vk_player_source_map k = vk_player_source_map l \<and>
     vk_keyword_scopes_are_explicit k = vk_keyword_scopes_are_explicit l \<and> vk_global_keyword_indices k = vk_global_keyword_indices l \<and>
     vk_global_keyword_index_count k = vk_global_keyword_index_count l \<and> vk_local_keyword_indices k = vk_local_keyword_indices l \<and>
     vk_local_keyword_index_count k = vk_local_keyword_index_count l \<and> vk_compiler k = vk_compiler l"
  by (intro iffI) (simp, intro variant_key.equality, simp_all)

lemma read_key:
  assumes "key_ok k" "key_ok l"
  shows "encode_fields k = encode_fields l \<longleftrightarrow> k = l"
proof -
  note ok = assms [unfolded key_ok_def]
  have a: "concat (encode_authority (vk_compiler k)) = concat (encode_authority (vk_compiler l)) \<longleftrightarrow> vk_compiler k = vk_compiler l"
    using ok by (intro read_authority) simp_all
  have i: "encode_list bytes32 (items (vk_global_keyword_indices k)) @ r = encode_list bytes32 (items (vk_global_keyword_indices l)) @ s \<longleftrightarrow>
      vk_global_keyword_indices k = vk_global_keyword_indices l \<and> vk_global_keyword_index_count k = vk_global_keyword_index_count l \<and> r = s"
    "encode_list bytes32 (items (vk_local_keyword_indices k)) @ r = encode_list bytes32 (items (vk_local_keyword_indices l)) @ s \<longleftrightarrow>
      vk_local_keyword_indices k = vk_local_keyword_indices l \<and> vk_local_keyword_index_count k = vk_local_keyword_index_count l \<and> r = s" for r s
    using ok by (intro read_indices; simp)+
  show ?thesis
    unfolding key_eq_iff [of k l] encode_fields_def encode_identity_def
    using ok by (simp add: read_header_words i a)
qed

lemma encode_key_inject: "key_ok k \<Longrightarrow> key_ok l \<Longrightarrow> encode_key k = encode_key l \<longleftrightarrow> k = l"
  by (auto simp: encode_key_def read_key)

section \<open>Comparing\<close>

lemma strcmp_ok: "string_ok p \<Longrightarrow> string_ok q \<Longrightarrow> c_strcmp_eq p q = Done (p = q)"
  using strcmp_stored [of "text_of p" "text_of q"] string_inject [of p q] by (simp add: string_ok_def good_string_def)

lemma string_arrays_ok:
  assumes "keywords_ok xs n" "keywords_ok ys n"
  shows "string_arrays_equal xs ys n = Done (xs = ys)"
proof -
  have n: "length (items xs) = n" "length (items ys) = n" using assms by (simp_all add: keywords_ok_def array_ok_def)
  have "ofold (\<lambda>i equal. if \<not> equal then Done False else obind (element xs i) (\<lambda>l. obind (element ys i) (c_strcmp_eq l))) [k..<n] b =
      (Done (b \<and> drop k (items xs) = drop k (items ys)) :: bool key_outcome)" if "k \<le> n" for k b
    using that
  proof (induction "n - k" arbitrary: k b)
    case 0
    then show ?case using n by simp
  next
    case (Suc m)
    then have k: "k < n" by simp
    have d: "drop k (items xs) = items xs ! k # drop (Suc k) (items xs)" "drop k (items ys) = items ys ! k # drop (Suc k) (items ys)"
      using k n by (simp_all add: Cons_nth_drop_Suc)
    have "c_strcmp_eq (items xs ! k) (items ys ! k) = (Done (items xs ! k = items ys ! k) :: bool key_outcome)"
      using assms k n by (intro strcmp_ok) (auto simp: keywords_ok_def list_all_length)
    then show ?case using Suc.hyps(1) [of "Suc k"] Suc.hyps(2) k n by (simp add: upt_conv_Cons element_items d)
  qed
  moreover have "items xs = items ys \<longleftrightarrow> xs = ys" using array_inject [of xs n 1048576 ys n] assms by (simp add: keywords_ok_def)
  ultimately show ?thesis by (simp add: string_arrays_equal_def)
qed

lemma fingerprints_ok: "fingerprint_ok f \<Longrightarrow> fingerprint_ok g \<Longrightarrow> fingerprints_equal f g \<longleftrightarrow> f = g"
  by (auto simp: fingerprints_equal_def fingerprint_ok_def intro: fingerprint.equality)

lemma authority_equal_ok:
  assumes "authority_ok a" "authority_ok b"
  shows "compiler_authority_equal a b = Done (a = b)"
proof -
  note ok = assms [unfolded authority_ok_def]
  show ?thesis
    unfolding compiler_authority_equal_def authority_eq_iff [of a b] same_scalars_def
    using ok by (auto simp: strcmp_ok string_arrays_ok fingerprints_ok)
qed

lemma memcmp_ok:
  assumes "array_ok xs n l" "array_ok ys n l"
  shows "(if n = 0 then Done True else c_memcmp_eq xs ys n) = Done (xs = ys)"
proof (cases "n = 0")
  case False
  then obtain a b where "xs = Some a" "ys = Some b" using assms by (auto simp: array_ok_def)
  with False assms show ?thesis by (simp add: array_ok_def c_memcmp_eq_def c_memcpy_def items_def)
qed (use assms in \<open>simp add: array_ok_def\<close>)

definition same_identity :: "variant_key \<Rightarrow> variant_key \<Rightarrow> bool" where
  "same_identity l r \<longleftrightarrow> vk_shader_path_id l = vk_shader_path_id r \<and> vk_subshader_index l = vk_subshader_index r \<and> vk_pass_index l = vk_pass_index r \<and>
     vk_stage l = vk_stage r \<and> vk_compiler_platform l = vk_compiler_platform r \<and> vk_archive_platform_index l = vk_archive_platform_index r \<and>
     vk_hardware_tier_group l = vk_hardware_tier_group r \<and> vk_subprogram_index l = vk_subprogram_index r \<and> vk_parameter_blob_index l = vk_parameter_blob_index r \<and>
     vk_serialized_program_type l = vk_serialized_program_type r \<and> vk_serialized_hardware_tier_present l = vk_serialized_hardware_tier_present r \<and>
     vk_serialized_hardware_tier l = vk_serialized_hardware_tier r \<and> vk_serialized_requirements l = vk_serialized_requirements r \<and>
     vk_serialized_program_mask l = vk_serialized_program_mask r \<and> vk_player_metadata_present l = vk_player_metadata_present r \<and>
     vk_player_program_type l = vk_player_program_type r \<and> vk_player_header_words l = vk_player_header_words r \<and> vk_player_source_map l = vk_player_source_map r \<and>
     vk_keyword_scopes_are_explicit l = vk_keyword_scopes_are_explicit r \<and> vk_global_keyword_index_count l = vk_global_keyword_index_count r \<and>
     vk_local_keyword_index_count l = vk_local_keyword_index_count r"

lemma key_same: "k = l \<longleftrightarrow> same_identity k l \<and> vk_global_keyword_indices k = vk_global_keyword_indices l \<and>
    vk_local_keyword_indices k = vk_local_keyword_indices l \<and> vk_compiler k = vk_compiler l"
  unfolding key_eq_iff [of k l] same_identity_def by blast

lemma key_equal_unfold: "variant_key_equal False (Some l) (Some r) = oand (Done (same_identity l r))
   (oand (compiler_authority_equal (vk_compiler l) (vk_compiler r))
   (oand (if vk_global_keyword_index_count l = 0 then Done True else c_memcmp_eq (vk_global_keyword_indices l) (vk_global_keyword_indices r) (vk_global_keyword_index_count l))
   (if vk_local_keyword_index_count l = 0 then Done True else c_memcmp_eq (vk_local_keyword_indices l) (vk_local_keyword_indices r) (vk_local_keyword_index_count l))))"
  unfolding variant_key_equal_def same_identity_def by simp

lemma key_equal_ok:
  assumes "key_ok k" "key_ok l"
  shows "variant_key_equal False (Some k) (Some l) = Done (k = l)"
proof (cases "same_identity k l")
  case True
  then have n: "vk_global_keyword_index_count k = vk_global_keyword_index_count l" "vk_local_keyword_index_count k = vk_local_keyword_index_count l"
    by (simp_all add: same_identity_def)
  have a: "compiler_authority_equal (vk_compiler k) (vk_compiler l) = Done (vk_compiler k = vk_compiler l)"
    using assms by (intro authority_equal_ok) (simp_all add: key_ok_def)
  have arrays: "array_ok (vk_global_keyword_indices k) (vk_global_keyword_index_count l) 1048576" "array_ok (vk_global_keyword_indices l) (vk_global_keyword_index_count l) 1048576"
    "array_ok (vk_local_keyword_indices k) (vk_local_keyword_index_count l) 1048576" "array_ok (vk_local_keyword_indices l) (vk_local_keyword_index_count l) 1048576"
    using assms n by (simp_all add: key_ok_def)
  show ?thesis
    unfolding key_equal_unfold key_same [of k l] n a memcmp_ok [OF arrays(1,2)] memcmp_ok [OF arrays(3,4)] using True by simp
next
  case False
  then show ?thesis unfolding key_equal_unfold by (auto simp: key_same [of k l])
qed

section \<open>Valid descriptors\<close>

definition string_valid :: "c_string \<Rightarrow> bool" where
  "string_valid p \<longleftrightarrow> (\<exists>b. p = Some b \<and> 0 \<in> set b) \<and> length (text_of p) \<le> VARIANT_KEY_MAX_STRING_BYTES"

definition array_valid :: "'a c_array \<Rightarrow> nat \<Rightarrow> bool" where
  "array_valid xs n \<longleftrightarrow> n \<le> 1048576 \<and> (n = 0 \<longleftrightarrow> xs = None) \<and> n \<le> length (items xs)"

definition keywords_valid :: "c_strings \<Rightarrow> nat \<Rightarrow> bool" where
  "keywords_valid xs n \<longleftrightarrow> array_valid xs n \<and> list_all (\<lambda>p. string_valid p \<and> text_of p \<noteq> []) (take n (items xs))"

definition values_valid :: "variant_key_descriptor \<Rightarrow> bool" where
  "values_valid d \<longleftrightarrow> 0 \<le> sint (vd_compiler_platform d) \<and> vd_hardware_tier_group d \<le> 3 \<and> -1 \<le> sint (vd_parameter_blob_index d) \<and>
     0 \<le> sint (vd_serialized_program_type d) \<and> (vd_serialized_hardware_tier_present d \<longrightarrow> sint (vd_serialized_hardware_tier d) \<in> {0..3}) \<and>
     (vd_player_metadata_present d \<longrightarrow> 0 \<le> sint (vd_player_program_type d)) \<and> 0 \<le> sint (ca_language (vd_compiler d)) \<and>
     0 \<le> sint (ca_shader_type (vd_compiler d)) \<and> 0 \<le> sint (ca_program_start (vd_compiler d)) \<and> 0 \<le> sint (ca_render_state_length (vd_compiler d)) \<and>
     fingerprint_is_valid (ca_compiler_fingerprint (vd_compiler d)) \<and> fingerprint_is_valid (ca_environment_fingerprint (vd_compiler d)) \<and>
     fingerprint_is_valid (ca_source_fingerprint (vd_compiler d)) \<and> fingerprint_is_valid (ca_request_input_fingerprint (vd_compiler d))"

definition strings_valid :: "compiler_authority \<Rightarrow> bool" where
  "strings_valid c \<longleftrightarrow> string_valid (ca_source_directory c) \<and> string_valid (ca_source_basename c) \<and> string_valid (ca_pass_name c) \<and>
     keywords_valid (ca_variant_keywords c) (ca_variant_keyword_count c) \<and> keywords_valid (ca_user_keywords c) (ca_user_keyword_count c) \<and>
     keywords_valid (ca_enabled_platform_keywords c) (ca_enabled_platform_keyword_count c) \<and> keywords_valid (ca_disabled_keywords c) (ca_disabled_keyword_count c)"

text \<open>The counts and arrays of indices are checked, their elements are only read when they are copied.\<close>

definition descriptor_valid :: "variant_key_descriptor \<Rightarrow> bool" where
  "descriptor_valid d \<longleftrightarrow> array_valid (vd_global_keyword_indices d) (vd_global_keyword_index_count d) \<and>
     array_valid (vd_local_keyword_indices d) (vd_local_keyword_index_count d) \<and> strings_valid (vd_compiler d) \<and> values_valid d"

lemma content_nth: "i < length (content b) \<Longrightarrow> i < length b \<and> b ! i \<noteq> 0"
  using content_no_zero [of b] nth_mem [of i "content b"] length_takeWhile_le [of "\<lambda>c. c \<noteq> 0" b] takeWhile_nth [of i "\<lambda>c. c \<noteq> 0" b]
  by (auto simp: content_def)

lemma content_end: "0 \<in> set b \<Longrightarrow> length (content b) < length b \<and> b ! length (content b) = 0"
  using content_terminated [of b] by (metis append_is_Nil_conv length_append less_add_same_cancel1 length_greater_0_conv list.distinct(1) nth_append_length)

lemma bounded_scan_terminated:
  "0 \<in> set b \<Longrightarrow> i \<le> length (content b) \<Longrightarrow> bounded_scan b i = Done (if length (content b) \<le> VARIANT_KEY_MAX_STRING_BYTES then Some (length (content b)) else None)"
proof (induction b i rule: bounded_scan.induct)
  case (1 b i)
  show ?case
  proof (cases "i = length (content b)")
    case True
    then show ?thesis using content_end [OF "1.prems"(1)] by (subst bounded_scan.simps) (simp add: element_def)
  next
    case False
    then have i: "i < length b" "b ! i \<noteq> 0" "i < length (content b)" using content_nth [of i b] "1.prems"(2) by auto
    show ?thesis using "1.IH" [of "b ! i"] "1.prems" i by (subst bounded_scan.simps) (auto simp: element_def)
  qed
qed

lemma bounded_scan_unterminated: "0 \<notin> set b \<Longrightarrow> bounded_scan b i \<noteq> Done (Some n)"
proof (induction b i rule: bounded_scan.induct)
  case (1 b i)
  then show ?case by (subst bounded_scan.simps) (auto simp: element_def dest: nth_mem)
qed

lemma validate_string_Done: "validate_string e p = Done () \<longleftrightarrow> string_valid p \<and> (e \<longrightarrow> text_of p \<noteq> [])"
proof (cases p)
  case (Some b)
  show ?thesis
  proof (cases "0 \<in> set b")
    case True
    then show ?thesis using bounded_scan_terminated [OF True, of 0]
      by (auto simp: validate_string_def bounded_string_length_def string_valid_def text_of_def Some)
  next
    case False
    then show ?thesis using bounded_scan_unterminated [OF False, of 0]
      by (auto simp: validate_string_def bounded_string_length_def string_valid_def Some outcome_simps split: option.splits if_splits)
  qed
qed (simp add: validate_string_def bounded_string_length_def string_valid_def)

lemma loop_Done: "ofold (\<lambda>i _. f i) is () = Done () \<longleftrightarrow> list_all (\<lambda>i. f i = Done ()) is"
  by (induction "is") (auto simp: outcome_simps)

lemma element_Done: "obind (element xs i) f = Done y \<longleftrightarrow> i < length (items xs) \<and> f (items xs ! i) = Done y"
  by (auto simp: element_def items_def split: option.splits)

lemma indices_all: "list_all (\<lambda>i. i < length ys \<and> P (ys ! i)) [0..<n] \<longleftrightarrow> n \<le> length ys \<and> list_all P (take n ys)"
  by (auto simp: list_all_iff all_set_conv_all_nth)

lemma validate_array_Done: "validate_string_array xs n e = Done () \<longleftrightarrow>
   array_valid xs n \<and> list_all (\<lambda>p. string_valid p \<and> (e \<longrightarrow> text_of p \<noteq> [])) (take n (items xs))"
  using indices_all [of "items xs" "\<lambda>p. string_valid p \<and> (e \<longrightarrow> text_of p \<noteq> [])" n]
  by (auto simp: validate_string_array_def loop_Done element_Done validate_string_Done array_valid_def)

lemma validate_values_Done: "validate_values d = Done () \<longleftrightarrow> values_valid d"
  unfolding validate_values_def values_valid_def Let_def by (auto simp: not_less)

lemma descriptor_valid_iff: "validate_descriptor (Some d) = Done () \<longleftrightarrow>
   (let n = vd_global_keyword_index_count d; m = vd_local_keyword_index_count d in n \<le> 1048576 \<and> m \<le> 1048576 \<and>
     (n = 0 \<longleftrightarrow> vd_global_keyword_indices d = None) \<and> (m = 0 \<longleftrightarrow> vd_local_keyword_indices d = None)) \<and> strings_valid (vd_compiler d) \<and> values_valid d"
  unfolding validate_descriptor_def option.case Let_def
  by (auto simp: outcome_simps validate_string_Done validate_array_Done validate_values_Done strings_valid_def keywords_valid_def)


section \<open>Copying\<close>

text \<open>A step that copies into fresh storage gives \<open>v\<close>, unless an allocation fails.\<close>

definition copies :: "(nat \<Rightarrow> bool) \<Rightarrow> 'a \<Rightarrow> 'a key_outcome \<Rightarrow> bool" where
  "copies m v r \<longleftrightarrow> r = Done v \<or> r = Fail VARIANT_KEY_ALLOCATION_FAILED \<and> (\<exists>n. \<not> m n)"

lemma copies_bind: "copies m v r \<Longrightarrow> copies m w (f v) \<Longrightarrow> copies m w (obind r f)"
  by (auto simp: copies_def)

text \<open>The same with the C convention: a \<open>NULL\<close> result tells that an allocation failed.\<close>

definition copied :: "(nat \<Rightarrow> bool) \<Rightarrow> 'a c_array \<Rightarrow> 'a c_array key_outcome \<Rightarrow> bool" where
  "copied m v r \<longleftrightarrow> r = Done v \<or> r = Done None \<and> v \<noteq> None \<and> (\<exists>n. \<not> m n)"

lemma copied_string:
  assumes "string_valid p"
  shows "copied m (stored (text_of p)) (copy_string m p)"
proof -
  obtain b where b: "p = Some b" "0 \<in> set b" using assms by (auto simp: string_valid_def)
  have "c_strlen p = (Done (length (content b)) :: nat key_outcome)" using b by (simp add: c_strlen_def)
  moreover have "c_memcpy p (Suc (length (content b))) = (Done (content b @ [0]) :: bytes key_outcome)"
    using b take_content [OF b(2)] content_end [OF b(2)] by (simp add: c_memcpy_def)
  ultimately show ?thesis by (auto simp: copied_def copy_string_def text_of_def b stored_def)
qed

definition indices_of :: "'a c_array \<Rightarrow> nat \<Rightarrow> 'a c_array" where
  "indices_of xs n = (if n = 0 then None else Some (take n (items xs)))"

definition keywords_of :: "c_strings \<Rightarrow> nat \<Rightarrow> c_strings" where
  "keywords_of xs n = (if n = 0 then None else Some (map (stored \<circ> text_of) (take n (items xs))))"

lemma copied_indices: "array_valid xs n \<Longrightarrow> copied m (indices_of xs n) (copy_indices m xs n)"
  by (auto simp: array_valid_def copied_def copy_indices_def indices_of_def c_memcpy_def items_def split: option.splits)

lemma copy_rest:
  assumes "n \<le> length (items xs)" "list_all string_valid (take n (items xs))" "k \<le> n"
  shows "copied m (Some (acc @ map (stored \<circ> text_of) (drop k (take n (items xs))))) (ofold (copy_next m xs) [k..<n] (Some acc))"
  using assms(3)
proof (induction "n - k" arbitrary: k acc)
  case 0
  then show ?case by (simp add: copied_def)
next
  case (Suc j)
  let ?p = "items xs ! k"
  have k: "k < n" using Suc by simp
  have stop: "ofold (copy_next m xs) js None = Done None" for js by (induction js) (simp_all add: copy_next_def)
  have "string_valid ?p" using assms k by (auto simp: list_all_length)
  from copied_string [OF this, of m]
  consider "copy_string m ?p = Done (stored (text_of ?p))" | "copy_string m ?p = Done None" "\<exists>n. \<not> m n" by (auto simp: copied_def)
  then show ?case
  proof cases
    case 1
    have "drop k (take n (items xs)) = ?p # drop (Suc k) (take n (items xs))" using k assms(1) by (simp add: Cons_nth_drop_Suc [symmetric])
    with Suc.hyps(1) [of "Suc k" "acc @ [stored (text_of ?p)]"] Suc.hyps(2) k assms(1) 1 show ?thesis
      by (simp add: upt_conv_Cons copy_next_def element_items)
  next
    case 2
    with k assms(1) show ?thesis by (simp add: upt_conv_Cons copy_next_def element_items stop copied_def)
  qed
qed

lemma copied_keywords: "keywords_valid xs n \<Longrightarrow> copied m (keywords_of xs n) (copy_string_array m xs n)"
  using copy_rest [of n xs 0 m "[]"]
  by (auto simp: keywords_valid_def array_valid_def list_all_iff copy_string_array_def keywords_of_def copied_def)

text \<open>Every key that is released on the way has arrays as long as their counts.\<close>

definition free_ok :: "c_strings \<Rightarrow> nat \<Rightarrow> bool" where
  "free_ok xs n \<longleftrightarrow> xs = None \<or> n \<le> length (items xs)"

definition releasable :: "compiler_authority \<Rightarrow> bool" where
  "releasable c \<longleftrightarrow> free_ok (ca_variant_keywords c) (ca_variant_keyword_count c) \<and> free_ok (ca_user_keywords c) (ca_user_keyword_count c) \<and>
     free_ok (ca_enabled_platform_keywords c) (ca_enabled_platform_keyword_count c) \<and> free_ok (ca_disabled_keywords c) (ca_disabled_keyword_count c)"

lemma free_array_Done: "free_ok xs n \<Longrightarrow> free_string_array xs n = Done ()"
  by (auto simp: free_ok_def free_string_array_def loop_Done list_all_iff element_items split: option.splits)

lemma free_Done: "releasable (vk_compiler k) \<Longrightarrow> variant_key_free (Some k) = Done ()"
  by (simp add: releasable_def variant_key_free_def free_array_Done Let_def)

lemma failed_is: "releasable (vk_compiler k) \<Longrightarrow> allocation_failed k = Fail VARIANT_KEY_ALLOCATION_FAILED"
  by (simp add: allocation_failed_def free_Done)

lemma failed_copies: "releasable (vk_compiler k) \<Longrightarrow> \<not> m n \<Longrightarrow> copies m v (allocation_failed k)"
  by (auto simp: failed_is copies_def)


section \<open>Initialising\<close>

definition authority_of :: "compiler_authority \<Rightarrow> compiler_authority" where
  "authority_of c = (copy_authority c)\<lparr>ca_source_directory := stored (text_of (ca_source_directory c)),
     ca_source_basename := stored (text_of (ca_source_basename c)), ca_pass_name := stored (text_of (ca_pass_name c)),
     ca_variant_keywords := keywords_of (ca_variant_keywords c) (ca_variant_keyword_count c), ca_variant_keyword_count := ca_variant_keyword_count c,
     ca_user_keywords := keywords_of (ca_user_keywords c) (ca_user_keyword_count c), ca_user_keyword_count := ca_user_keyword_count c,
     ca_enabled_platform_keywords := keywords_of (ca_enabled_platform_keywords c) (ca_enabled_platform_keyword_count c),
     ca_enabled_platform_keyword_count := ca_enabled_platform_keyword_count c,
     ca_disabled_keywords := keywords_of (ca_disabled_keywords c) (ca_disabled_keyword_count c), ca_disabled_keyword_count := ca_disabled_keyword_count c\<rparr>"

definition key_of :: "variant_key_descriptor \<Rightarrow> variant_key" where
  "key_of d = (copy_scalars d zero_variant_key)\<lparr>
     vk_global_keyword_indices := indices_of (vd_global_keyword_indices d) (vd_global_keyword_index_count d),
     vk_local_keyword_indices := indices_of (vd_local_keyword_indices d) (vd_local_keyword_index_count d),
     vk_compiler := authority_of (vd_compiler d)\<rparr>"

lemma copies_strings:
  assumes "string_valid (ca_source_directory c)" "string_valid (ca_source_basename c)" "string_valid (ca_pass_name c)" "releasable (vk_compiler k)"
  shows "copies m (k\<lparr>vk_compiler := (vk_compiler k)\<lparr>ca_source_directory := stored (text_of (ca_source_directory c)),
     ca_source_basename := stored (text_of (ca_source_basename c)), ca_pass_name := stored (text_of (ca_pass_name c))\<rparr>\<rparr>) (copy_strings m c k)"
proof -
  have f: "copies m v (allocation_failed (k\<lparr>vk_compiler := (vk_compiler k)\<lparr>ca_source_directory := x, ca_source_basename := y, ca_pass_name := z\<rparr>\<rparr>))"
    if "\<exists>n. \<not> m n" for v :: variant_key and x y z
    using that assms(4) by (auto intro!: failed_copies simp: releasable_def)
  show ?thesis
    using copied_string [OF assms(1), of m] copied_string [OF assms(2), of m] copied_string [OF assms(3), of m] f
    unfolding copied_def copy_strings_def by (elim disjE) (auto simp: copies_def)
qed

lemma copies_keywords:
  assumes "keywords_valid xs n" "releasable (install None 0 (vk_compiler k))" "l = k\<lparr>vk_compiler := install (keywords_of xs n) n (vk_compiler k)\<rparr>"
  shows "copies m l (copy_keywords m xs n install k)"
  using copied_keywords [OF assms(1), of m] assms(2,3) unfolding copied_def copy_keywords_def
  by (auto simp: keywords_of_def copies_def failed_is)

lemma keywords_of_free: "keywords_valid xs n \<Longrightarrow> free_ok (keywords_of xs n) n"
  by (auto simp: keywords_of_def free_ok_def items_def keywords_valid_def array_valid_def)

lemma copies_arrays:
  assumes "strings_valid c" "ca_variant_keywords (vk_compiler k) = None" "ca_user_keywords (vk_compiler k) = None"
    "ca_enabled_platform_keywords (vk_compiler k) = None" "ca_disabled_keywords (vk_compiler k) = None"
  shows "copies m (k\<lparr>vk_compiler := (vk_compiler k)\<lparr>ca_variant_keywords := keywords_of (ca_variant_keywords c) (ca_variant_keyword_count c),
     ca_variant_keyword_count := ca_variant_keyword_count c, ca_user_keywords := keywords_of (ca_user_keywords c) (ca_user_keyword_count c),
     ca_user_keyword_count := ca_user_keyword_count c,
     ca_enabled_platform_keywords := keywords_of (ca_enabled_platform_keywords c) (ca_enabled_platform_keyword_count c),
     ca_enabled_platform_keyword_count := ca_enabled_platform_keyword_count c,
     ca_disabled_keywords := keywords_of (ca_disabled_keywords c) (ca_disabled_keyword_count c),
     ca_disabled_keyword_count := ca_disabled_keyword_count c\<rparr>\<rparr>) (copy_authority_arrays m c k)"
proof -
  have v: "keywords_valid (ca_variant_keywords c) (ca_variant_keyword_count c)" "keywords_valid (ca_user_keywords c) (ca_user_keyword_count c)"
    "keywords_valid (ca_enabled_platform_keywords c) (ca_enabled_platform_keyword_count c)" "keywords_valid (ca_disabled_keywords c) (ca_disabled_keyword_count c)"
    using assms(1) by (simp_all add: strings_valid_def)
  note free = v [THEN keywords_of_free]
  have none: "free_ok None j" for j by (simp add: free_ok_def)
  show ?thesis unfolding copy_authority_arrays_def
    apply (rule copies_bind, rule copies_keywords [OF v(1) _ refl], use assms none in \<open>simp add: releasable_def\<close>)
    apply (rule copies_bind, rule copies_keywords [OF v(2) _ refl], use assms none free in \<open>simp add: releasable_def\<close>)
    apply (rule copies_bind, rule copies_keywords [OF v(3) _ refl], use assms none free in \<open>simp add: releasable_def\<close>)
    apply (rule copies_keywords [OF v(4)], use assms none free in \<open>simp_all add: releasable_def\<close>)
    done
qed


lemma indices_of_None: "indices_of xs n = None \<longleftrightarrow> n = 0"
  by (simp add: indices_of_def)

lemma init_of_valid:
  assumes "descriptor_valid d"
  shows "copies m (key_of d) (variant_key_init m True (Some d))"
proof -
  have v: "validate_descriptor (Some d) = Done ()" "strings_valid (vd_compiler d)"
    "array_valid (vd_global_keyword_indices d) (vd_global_keyword_index_count d)" "array_valid (vd_local_keyword_indices d) (vd_local_keyword_index_count d)"
    using assms by (auto simp: descriptor_valid_iff descriptor_valid_def array_valid_def Let_def)
  let ?k = "zero_variant_key\<lparr>vk_global_keyword_indices := indices_of (vd_global_keyword_indices d) (vd_global_keyword_index_count d),
    vk_local_keyword_indices := indices_of (vd_local_keyword_indices d) (vd_local_keyword_index_count d)\<rparr>"
  have fresh: "releasable (vk_compiler (k\<lparr>vk_global_keyword_indices := x, vk_local_keyword_indices := y\<rparr>))" "releasable (vk_compiler (k\<lparr>vk_global_keyword_indices := x\<rparr>))"
    if "k = zero_variant_key" for k x y
    using that by (simp_all add: releasable_def free_ok_def zero_variant_key_def zero_authority_def)
  have r: "releasable (vk_compiler (copy_scalars d ?k))" by (simp add: copy_scalars_def copy_authority_def Let_def releasable_def free_ok_def)
  have tail: "copies m (key_of d) (obind (copy_strings m (vd_compiler d) (copy_scalars d ?k)) (copy_authority_arrays m (vd_compiler d)))"
    apply (rule copies_bind, rule copies_strings [OF _ _ _ r], use v(2) in \<open>simp_all add: strings_valid_def\<close>)
    apply (rule copies_arrays [OF v(2), THEN back_subst [where P = "\<lambda>x. copies m x _"]])
        apply (simp_all add: copy_scalars_def copy_authority_def Let_def key_of_def authority_of_def)
    done
  show ?thesis
    using copied_indices [OF v(3), of m] copied_indices [OF v(4), of m] tail fresh [OF refl]
    unfolding copied_def variant_key_init_def Let_def by (elim disjE) (auto simp: v(1) mem_def indices_of_None copies_def failed_is)
qed

section \<open>Initialised keys\<close>

text \<open>The fixed-size members of the C structures.\<close>

definition descriptor_typed :: "variant_key_descriptor \<Rightarrow> bool" where
  "descriptor_typed d \<longleftrightarrow> length (vd_player_header_words d) = 4 \<and>
     list_all (\<lambda>f. length (fp_bytes (f (vd_compiler d))) = VARIANT_KEY_DIGEST_SIZE)
       [ca_compiler_fingerprint, ca_environment_fingerprint, ca_source_fingerprint, ca_request_input_fingerprint]"

lemma text_stored [simp]: "text_of (stored (text_of p)) = text_of p"
  using content_no_zero [of "the p"] by (simp add: text_of_def stored_def)

lemma stored_ok: "string_valid p \<Longrightarrow> string_ok (stored (text_of p))"
  using content_no_zero [of "the p"] by (simp add: string_ok_def good_string_def string_valid_def) (simp add: text_of_def)

lemma stored_valid: "string_valid p \<Longrightarrow> string_valid (stored (text_of p))"
  by (simp add: string_valid_def) (simp add: stored_def)

lemma items_keywords_of: "items (keywords_of xs n) = (if n = 0 then [] else map (stored \<circ> text_of) (take n (items xs)))"
  by (simp add: keywords_of_def items_def)

lemma keywords_of_ok: "keywords_valid xs n \<Longrightarrow> keywords_ok (keywords_of xs n) n"
  by (auto simp: keywords_ok_def array_ok_def keywords_valid_def array_valid_def items_keywords_of list_all_iff stored_ok) (simp_all add: keywords_of_def)

lemma keywords_of_valid: "keywords_valid xs n \<Longrightarrow> keywords_valid (keywords_of xs n) n"
  by (auto simp: keywords_valid_def array_valid_def items_keywords_of list_all_iff stored_valid) (simp_all add: keywords_of_def)

lemma keywords_of_idem [simp]: "keywords_of (keywords_of xs n) n = keywords_of xs n"
  by (simp add: keywords_of_def items_keywords_of) (simp add: keywords_of_def items_def)

lemma indices_of_ok: "array_valid xs n \<Longrightarrow> array_ok (indices_of xs n) n VARIANT_KEY_MAX_KEYWORD_INDICES"
  by (auto simp: array_ok_def array_valid_def indices_of_def items_def)

lemma indices_of_valid: "array_valid xs n \<Longrightarrow> array_valid (indices_of xs n) n"
  by (auto simp: array_valid_def indices_of_def items_def)

lemma indices_of_idem [simp]: "indices_of (indices_of xs n) n = indices_of xs n"
  by (simp add: indices_of_def items_def)

lemma canonicalize_ok: "length (fp_bytes f) = VARIANT_KEY_DIGEST_SIZE \<Longrightarrow> fingerprint_ok (canonicalize_fingerprint f)"
  by (simp add: canonicalize_fingerprint_def fingerprint_ok_def)

lemma canonicalize_idem [simp]: "canonicalize_fingerprint (canonicalize_fingerprint f) = canonicalize_fingerprint f"
  by (simp add: canonicalize_fingerprint_def)

lemma canonicalize_valid: "fingerprint_is_valid f \<Longrightarrow> fingerprint_is_valid (canonicalize_fingerprint f)"
  by (simp add: canonicalize_fingerprint_def fingerprint_is_valid_def bytes_are_zero_def list_all_iff)

lemma authority_of_ok:
  assumes "strings_valid (vd_compiler d)" "descriptor_typed d"
  shows "authority_ok (authority_of (vd_compiler d))"
  using assms by (simp add: authority_ok_def authority_of_def copy_authority_def strings_valid_def descriptor_typed_def stored_ok keywords_of_ok canonicalize_ok)

lemma key_of_ok:
  assumes "descriptor_valid d" "descriptor_typed d"
  shows "key_ok (key_of d)"
  using assms authority_of_ok [of d]
  by (simp add: key_ok_def key_of_def descriptor_valid_def copy_scalars_def Let_def indices_of_ok zero_variant_key_def descriptor_typed_def)

lemma authority_of_idem: "authority_of (authority_of c) = authority_of c"
  by (intro compiler_authority.equality) (simp_all add: authority_of_def copy_authority_def)

definition described :: "variant_key \<Rightarrow> variant_key_descriptor" where
  "described k = (case variant_key_describe (Some k) True of Done d \<Rightarrow> d | _ \<Rightarrow> undefined)"

lemma describe_is: "variant_key_describe (Some k) True = Done (described k)"
  by (simp add: described_def variant_key_describe_def)

lemma key_of_described: "key_of (described (key_of d)) = key_of d"
  by (intro variant_key.equality)
     (simp_all add: described_def variant_key_describe_def key_of_def copy_scalars_def Let_def authority_of_idem zero_variant_key_def)

lemma strings_of_valid: "strings_valid c \<Longrightarrow> strings_valid (authority_of c)"
  by (simp add: strings_valid_def authority_of_def copy_authority_def stored_valid keywords_of_valid)

lemma described_values: "values_valid d \<Longrightarrow> values_valid (described (key_of d))"
  by (simp add: described_def variant_key_describe_def key_of_def copy_scalars_def Let_def values_valid_def authority_of_def copy_authority_def canonicalize_valid)

lemma described_valid: "descriptor_valid d \<Longrightarrow> descriptor_valid (described (key_of d))"
  using described_values [of d]
  by (simp add: descriptor_valid_def) (simp add: described_def variant_key_describe_def key_of_def copy_scalars_def Let_def strings_of_valid indices_of_valid)

lemma init_accepts_valid:
  assumes "variant_key_init m True (Some d) = Done k"
  shows "descriptor_valid d" "k = key_of d"
proof -
  have v: "validate_descriptor (Some d) = Done ()" using assms by (simp add: variant_key_init_def outcome_simps)
  have short: "n = 0 \<or> n \<le> length (items xs)" if "copy_indices m xs n \<noteq> Fault" "n > 0 \<Longrightarrow> copy_indices m xs n \<noteq> Done None" "n \<le> 1048576" for xs :: "u32 c_array" and n
    using that by (auto simp: copy_indices_def c_memcpy_def items_def split: option.splits if_splits)
  show valid: "descriptor_valid d"
    using assms v short [of "vd_global_keyword_indices d" "vd_global_keyword_index_count d"] short [of "vd_local_keyword_indices d" "vd_local_keyword_index_count d"]
    unfolding variant_key_init_def descriptor_valid_iff descriptor_valid_def array_valid_def
    by (auto simp: mem_def Let_def outcome_simps allocation_failed_def split: if_splits)
  from init_of_valid [OF this, of m] assms show "k = key_of d" by (auto simp: copies_def)
qed


lemma copy_of_initialised:
  assumes "variant_key_init m True (Some d) = Done k"
  shows "copies n k (variant_key_copy n True (Some k))"
proof -
  note d = init_accepts_valid [OF assms]
  have "copies n (key_of (described k)) (variant_key_init n True (Some (described k)))" using d described_valid by (intro init_of_valid) simp
  then show ?thesis using d by (simp add: variant_key_copy_def describe_is key_of_described)
qed

lemma initialised_ok: "variant_key_init m True (Some d) = Done k \<Longrightarrow> descriptor_typed d \<Longrightarrow> key_ok k"
  using init_accepts_valid key_of_ok by blast

section \<open>Correctness of variant keys\<close>


text \<open>C40: a copy of an initialised key is the key itself, and when the allocator refuses the size of one of the parts,
  the partial copy is released without a fault and the failure reported: no partial key is ever returned.\<close>

theorem copy_gives_the_same_key:
  assumes "variant_key_init m True (Some d) = Done k"
  shows "variant_key_copy n True (Some k) \<in> {Done k, Fail VARIANT_KEY_ALLOCATION_FAILED} \<and> variant_key_copy (\<lambda>_. True) True (Some k) = Done k"
  using copy_of_initialised [OF assms, of n] copy_of_initialised [OF assms, of "\<lambda>_. True"] by (auto simp: copies_def)

text \<open>C38: an initialised key can always be serialised: the size computation never overflows, the writer never runs out of the
  buffer, the bytes are exactly the reference encoding, and the only failure is the allocation of the buffer.\<close>

theorem serialization_never_overflows:
  assumes "variant_key_init m True (Some d) = Done k" "descriptor_typed d"
  shows "variant_key_serialize n True (Some k) = (if n (length (encode_key k)) then Done (encode_key k) else Fail VARIANT_KEY_ALLOCATION_FAILED)"
  using serialize_is [OF initialised_ok [OF assms]] by simp

text \<open>C37: \<open>variant_key_equal\<close> on two initialised keys is equality of their serialisations, so the bytes are a
  faithful identity of a variant.\<close>

theorem equal_keys_have_equal_bytes:
  assumes "variant_key_init m True (Some d) = Done k" "variant_key_init n True (Some e) = Done l" "descriptor_typed d" "descriptor_typed e"
  shows "variant_key_equal False (Some k) (Some l) =
    Done (variant_key_serialize (\<lambda>_. True) True (Some k) = variant_key_serialize (\<lambda>_. True) True (Some l))"
proof -
  have ok: "key_ok k" "key_ok l" using initialised_ok assms by blast+
  then show ?thesis by (simp add: key_equal_ok serialize_is encode_key_inject)
qed

section \<open>An example\<close>

definition sample_authority :: compiler_authority where
  "sample_authority = zero_authority\<lparr>ca_schema_version := 2, ca_source_directory := Some [0x61, 0, 0x7A], ca_source_basename := Some [0x62, 0],
     ca_pass_name := Some [0], ca_variant_keywords := Some [Some [0x4B, 0], Some [0x4C, 0]], ca_variant_keyword_count := 1\<rparr>"

definition sample_descriptor :: variant_key_descriptor where
  "sample_descriptor = \<lparr>vd_shader_path_id = 7, vd_subshader_index = 0, vd_pass_index = 1, vd_stage = 0, vd_compiler_platform = 4,
     vd_archive_platform_index = 0, vd_hardware_tier_group = 3, vd_subprogram_index = 2, vd_parameter_blob_index = -1, vd_serialized_program_type = 1,
     vd_serialized_hardware_tier_present = False, vd_serialized_hardware_tier = 9, vd_serialized_requirements = 1, vd_serialized_program_mask = 3,
     vd_player_metadata_present = False, vd_player_program_type = -5, vd_player_header_words = [1, 2, 3, 4], vd_player_source_map = 6,
     vd_keyword_scopes_are_explicit = True, vd_global_keyword_indices = Some [5, 6, 7], vd_global_keyword_index_count = 2,
     vd_local_keyword_indices = None, vd_local_keyword_index_count = 0, vd_compiler = sample_authority\<rparr>"

lemma sample_descriptor_valid: "descriptor_valid sample_descriptor" "descriptor_typed sample_descriptor"
  by (simp_all add: descriptor_valid_def descriptor_typed_def sample_descriptor_def sample_authority_def zero_authority_def zero_fingerprint_def
      array_valid_def strings_valid_def keywords_valid_def string_valid_def text_of_def content_def items_def values_valid_def fingerprint_is_valid_def bytes_are_zero_def
      list_all_iff)

lemma sample_key: "variant_key_init (\<lambda>_. True) True (Some sample_descriptor) = Done (key_of sample_descriptor)"
  using init_of_valid [OF sample_descriptor_valid(1), of "\<lambda>_. True"] by (simp add: copies_def)


lemma other_valid: "descriptor_valid (sample_descriptor\<lparr>vd_stage := 1\<rparr>)" "descriptor_typed (sample_descriptor\<lparr>vd_stage := 1\<rparr>)"
  using sample_descriptor_valid by (simp_all add: descriptor_valid_def descriptor_typed_def values_valid_def)

lemma other_key: "variant_key_init (\<lambda>_. True) True (Some (sample_descriptor\<lparr>vd_stage := 1\<rparr>)) = Done (key_of (sample_descriptor\<lparr>vd_stage := 1\<rparr>))"
  using init_of_valid [OF other_valid(1), of "\<lambda>_. True"] by (simp add: copies_def)

theorem copy_gives_the_same_key_witness: "variant_key_copy (\<lambda>_. True) True (Some (key_of sample_descriptor)) = Done (key_of sample_descriptor)"
  using copy_gives_the_same_key [OF sample_key, of "\<lambda>_. True"] by simp

theorem serialization_never_overflows_witness:
  "variant_key_serialize (\<lambda>n. n \<le> 4096) True (Some (key_of sample_descriptor)) = Done (encode_key (key_of sample_descriptor))"
proof -
  have "length (encode_key (key_of sample_descriptor)) = 367"
    using length_fields [OF key_of_ok [OF sample_descriptor_valid]]
    by (simp add: encode_key_def VARIANT_KEY_MAGIC_def key_of_def copy_scalars_def authority_of_def copy_authority_def sample_descriptor_def sample_authority_def
        Let_def zero_authority_def text_of_def stored_def content_def payload_size_def items_keywords_of items_def keywords_of_def)
  then show ?thesis using serialization_never_overflows [OF sample_key sample_descriptor_valid(2), of "\<lambda>n. n \<le> 4096"] by simp
qed

theorem equal_keys_have_equal_bytes_witness:
  "variant_key_serialize (\<lambda>_. True) True (Some (key_of sample_descriptor)) \<noteq> variant_key_serialize (\<lambda>_. True) True (Some (key_of (sample_descriptor\<lparr>vd_stage := 1\<rparr>)))"
proof -
  have "variant_key_equal False (Some (key_of sample_descriptor)) (Some (key_of (sample_descriptor\<lparr>vd_stage := 1\<rparr>))) = Done False"
    by (simp add: key_equal_unfold same_identity_def key_of_def copy_scalars_def sample_descriptor_def Let_def)
  then show ?thesis using equal_keys_have_equal_bytes [OF sample_key other_key sample_descriptor_valid(2) other_valid(2)] by simp
qed

end
