(* ===== verification/Hlsl_Cfg.thy ===== *)
theory Hlsl_Cfg
  imports C_Strings Unity_Common
begin

text \<open>
  The control-flow graph of a translated program (\<open>src/translation/hlsl_cfg.c\<close>): matching of the structured flow
  instructions, basic blocks and edges, immediate dominators and dominance frontiers (Cooper, Harvey, Kennedy), and the
  queries the lifting passes ask: dominance, unavoidable blocks, single-entry conditionals.  Indices are \<open>int\<close> as in C,
  with \<open>-1\<close> for none; a subscript outside an array, or of a cell that was never written, is \<open>Fault\<close>.  \<open>c_malloc\<close>
  tells whether \<open>malloc\<close>, \<open>calloc\<close> and \<open>realloc\<close> return storage for a size in bytes.
\<close>

section \<open>Data\<close>

text \<open>An opcode is its enumeration value; these are the ones the graph distinguishes.\<close>

type_synonym usil_opcode = nat

abbreviation (input) USIL_OP_NOP :: usil_opcode where "USIL_OP_NOP \<equiv> 0"
abbreviation (input) USIL_OP_IF :: usil_opcode where "USIL_OP_IF \<equiv> 57"
abbreviation (input) USIL_OP_ELSE :: usil_opcode where "USIL_OP_ELSE \<equiv> 58"
abbreviation (input) USIL_OP_ENDIF :: usil_opcode where "USIL_OP_ENDIF \<equiv> 59"
abbreviation (input) USIL_OP_LOOP :: usil_opcode where "USIL_OP_LOOP \<equiv> 60"
abbreviation (input) USIL_OP_ENDLOOP :: usil_opcode where "USIL_OP_ENDLOOP \<equiv> 61"
abbreviation (input) USIL_OP_SWITCH :: usil_opcode where "USIL_OP_SWITCH \<equiv> 62"
abbreviation (input) USIL_OP_CASE :: usil_opcode where "USIL_OP_CASE \<equiv> 63"
abbreviation (input) USIL_OP_DEFAULT :: usil_opcode where "USIL_OP_DEFAULT \<equiv> 64"
abbreviation (input) USIL_OP_ENDSWITCH :: usil_opcode where "USIL_OP_ENDSWITCH \<equiv> 65"
abbreviation (input) USIL_OP_BREAK :: usil_opcode where "USIL_OP_BREAK \<equiv> 66"
abbreviation (input) USIL_OP_BREAKC :: usil_opcode where "USIL_OP_BREAKC \<equiv> 67"
abbreviation (input) USIL_OP_CONTINUE :: usil_opcode where "USIL_OP_CONTINUE \<equiv> 68"
abbreviation (input) USIL_OP_CONTINUEC :: usil_opcode where "USIL_OP_CONTINUEC \<equiv> 69"
abbreviation (input) USIL_OP_RET :: usil_opcode where "USIL_OP_RET \<equiv> 70"
abbreviation (input) USIL_OP_DISCARD :: usil_opcode where "USIL_OP_DISCARD \<equiv> 71"
abbreviation (input) USIL_OP_GEOMETRY_APPEND :: usil_opcode where "USIL_OP_GEOMETRY_APPEND \<equiv> 91"
abbreviation (input) USIL_OP_GEOMETRY_RESTART_STRIP :: usil_opcode where "USIL_OP_GEOMETRY_RESTART_STRIP \<equiv> 92"

record usil_program =
  up_instructions :: "usil_opcode c_array"
  up_instruction_count :: int

text \<open>\<open>successors\<close> and \<open>predecessors\<close> are offsets of slices of the edge storage of the graph.\<close>

record hlsl_basic_block =
  bb_first_instruction :: int
  bb_last_instruction :: int
  bb_successors :: nat
  bb_predecessors :: nat
  bb_successor_count :: int
  bb_predecessor_count :: int
  bb_has_ambiguous_flow :: bool
  bb_may_exit :: bool

record hlsl_block_nesting =
  bn_parent_block :: int
  bn_is_loop :: bool
  bn_is_if :: bool

record hlsl_instruction_flow =
  fl_end :: int
  fl_alternate :: int
  fl_parent :: int
  fl_jump_scope :: int
  fl_first_case :: int
  fl_next_case :: int
  fl_has_default :: bool

text \<open>Storage that \<open>malloc\<close> does not initialise: \<open>None\<close> is a cell not yet written.\<close>

type_synonym cells = "int option list"

record hlsl_control_flow_graph =
  cfg_blocks :: "hlsl_basic_block c_array"
  cfg_successor_storage :: "cells option"
  cfg_predecessor_storage :: "cells option"
  cfg_block_count :: int
  cfg_instruction_count :: int
  cfg_instruction_block :: "int c_array"
  cfg_instruction_flow :: "hlsl_instruction_flow c_array"
  cfg_idom :: "int c_array"
  cfg_df :: "int list c_array"
  cfg_df_count :: "int c_array"
  cfg_nesting :: "hlsl_block_nesting c_array"

record hlsl_if_region =
  ir_header_block :: int
  ir_true_block :: int
  ir_false_block :: int
  ir_join_block :: int
  ir_else_instruction :: int
  ir_end_instruction :: int

definition zero_block :: hlsl_basic_block where
  "zero_block = \<lparr>bb_first_instruction = 0, bb_last_instruction = 0, bb_successors = 0, bb_predecessors = 0, bb_successor_count = 0,
     bb_predecessor_count = 0, bb_has_ambiguous_flow = False, bb_may_exit = False\<rparr>"

definition zero_nesting :: hlsl_block_nesting where
  "zero_nesting = \<lparr>bn_parent_block = 0, bn_is_loop = False, bn_is_if = False\<rparr>"

definition zero_flow :: hlsl_instruction_flow where
  "zero_flow = \<lparr>fl_end = 0, fl_alternate = 0, fl_parent = 0, fl_jump_scope = 0, fl_first_case = 0, fl_next_case = 0, fl_has_default = False\<rparr>"

definition zero_cfg :: hlsl_control_flow_graph where
  "zero_cfg = \<lparr>cfg_blocks = None, cfg_successor_storage = None, cfg_predecessor_storage = None, cfg_block_count = 0, cfg_instruction_count = 0,
     cfg_instruction_block = None, cfg_instruction_flow = None, cfg_idom = None, cfg_df = None, cfg_df_count = None, cfg_nesting = None\<rparr>"

section \<open>Subscripts\<close>

definition at :: "'a list \<Rightarrow> int \<Rightarrow> ('e, 'a) outcome" where
  "at xs i = (if 0 \<le> i \<and> nat i < length xs then Done (xs ! nat i) else Fault)"

definition put :: "'a list \<Rightarrow> int \<Rightarrow> 'a \<Rightarrow> ('e, 'a list) outcome" where
  "put xs i v = (if 0 \<le> i \<and> nat i < length xs then Done (xs[nat i := v]) else Fault)"

definition modify :: "'a list \<Rightarrow> int \<Rightarrow> ('a \<Rightarrow> 'a) \<Rightarrow> ('e, 'a list) outcome" where
  "modify xs i f = obind (at xs i) (\<lambda>v. put xs i (f v))"

definition cell :: "cells \<Rightarrow> int \<Rightarrow> ('e, int) outcome" where
  "cell xs i = obind (at xs i) mem"

text \<open>The values \<open>first\<close> to \<open>bound - 1\<close> of a counting loop.\<close>

definition counting :: "int \<Rightarrow> int \<Rightarrow> int list" where
  "counting first bound = map (\<lambda>k. first + int k) [0..<nat (bound - first)]"

section \<open>Structured flow\<close>

definition is_boundary :: "usil_opcode \<Rightarrow> bool" where
  "is_boundary opcode \<longleftrightarrow> opcode \<in> {USIL_OP_IF, USIL_OP_ELSE, USIL_OP_ENDIF, USIL_OP_LOOP, USIL_OP_ENDLOOP, USIL_OP_SWITCH, USIL_OP_CASE,
     USIL_OP_DEFAULT, USIL_OP_ENDSWITCH, USIL_OP_BREAK, USIL_OP_BREAKC, USIL_OP_CONTINUE, USIL_OP_CONTINUEC, USIL_OP_RET, USIL_OP_DISCARD,
     USIL_OP_GEOMETRY_APPEND, USIL_OP_GEOMETRY_RESTART_STRIP}"

text \<open>The matcher: the links so far and the open constructs, innermost first, each with its latest case label.\<close>

record flow_match =
  fm_flow :: "hlsl_instruction_flow list"
  fm_stack :: "(int \<times> int) list"

abbreviation (input) MAX_FLOW_DEPTH :: nat where "MAX_FLOW_DEPTH \<equiv> 64"

definition open_scope :: "int \<Rightarrow> flow_match \<Rightarrow> (unit, flow_match) outcome" where
  "open_scope index m = (if length (fm_stack m) = MAX_FLOW_DEPTH then Fail () else Done (m\<lparr>fm_stack := (index, -1) # fm_stack m\<rparr>))"

definition match_else :: "int \<Rightarrow> int \<Rightarrow> usil_opcode \<Rightarrow> flow_match \<Rightarrow> (unit, flow_match) outcome" where
  "match_else index scope enclosing m =
     (if enclosing \<noteq> USIL_OP_IF then Fail ()
      else obind (at (fm_flow m) scope) (\<lambda>s.
      if fl_alternate s \<ge> 0 then Fail ()
      else obind (modify (fm_flow m) scope (\<lambda>f. f\<lparr>fl_alternate := index\<rparr>)) (\<lambda>flow.
      obind (at flow scope) (\<lambda>s.
      obind (modify flow index (\<lambda>f. f\<lparr>fl_parent := fl_parent s\<rparr>)) (\<lambda>flow. Done (m\<lparr>fm_flow := flow\<rparr>))))))"

definition close_scope :: "int \<Rightarrow> usil_opcode \<Rightarrow> int \<Rightarrow> usil_opcode \<Rightarrow> flow_match \<Rightarrow> (unit, flow_match) outcome" where
  "close_scope index opcode scope enclosing m = (let
     required = (if opcode = USIL_OP_ENDIF then USIL_OP_IF else if opcode = USIL_OP_ENDLOOP then USIL_OP_LOOP else USIL_OP_SWITCH) in
     if enclosing \<noteq> required then Fail ()
     else obind (modify (fm_flow m) scope (\<lambda>f. f\<lparr>fl_end := index\<rparr>)) (\<lambda>flow.
     obind (at flow scope) (\<lambda>s.
     obind (if fl_alternate s \<ge> 0 then modify flow (fl_alternate s) (\<lambda>f. f\<lparr>fl_end := index\<rparr>) else Done flow) (\<lambda>flow.
     obind (at flow scope) (\<lambda>s.
     obind (modify flow index (\<lambda>f. f\<lparr>fl_jump_scope := scope, fl_parent := fl_parent s\<rparr>)) (\<lambda>flow.
     Done (m\<lparr>fm_flow := flow, fm_stack := tl (fm_stack m)\<rparr>)))))))"

definition match_label :: "int \<Rightarrow> usil_opcode \<Rightarrow> int \<Rightarrow> usil_opcode \<Rightarrow> flow_match \<Rightarrow> (unit, flow_match) outcome" where
  "match_label index opcode scope enclosing m =
     (if enclosing \<noteq> USIL_OP_SWITCH then Fail ()
      else obind (at (fm_flow m) scope) (\<lambda>s.
      if opcode = USIL_OP_DEFAULT \<and> fl_has_default s then Fail ()
      else obind (if opcode = USIL_OP_DEFAULT then modify (fm_flow m) scope (\<lambda>f. f\<lparr>fl_has_default := True\<rparr>) else Done (fm_flow m)) (\<lambda>flow.
      case fm_stack m of
        [] \<Rightarrow> Fault
      | (s, last_case) # rest \<Rightarrow>
          obind (if last_case \<ge> 0 then modify flow last_case (\<lambda>f. f\<lparr>fl_next_case := index\<rparr>)
                 else modify flow scope (\<lambda>f. f\<lparr>fl_first_case := index\<rparr>)) (\<lambda>flow.
          Done (m\<lparr>fm_flow := flow, fm_stack := (s, index) # rest\<rparr>)))))"

text \<open>The nearest open construct a jump leaves or repeats.\<close>

fun jump_target :: "usil_opcode list \<Rightarrow> bool \<Rightarrow> (int \<times> int) list \<Rightarrow> (unit, int) outcome" where
  "jump_target ops loop_only [] = Done (-1)"
| "jump_target ops loop_only ((scope, _) # rest) = obind (at ops scope) (\<lambda>kind.
     if kind = USIL_OP_LOOP \<or> \<not> loop_only \<and> kind = USIL_OP_SWITCH then Done scope else jump_target ops loop_only rest)"

definition match_jump :: "usil_opcode list \<Rightarrow> int \<Rightarrow> usil_opcode \<Rightarrow> flow_match \<Rightarrow> (unit, flow_match) outcome" where
  "match_jump ops index opcode m =
     obind (jump_target ops (opcode \<in> {USIL_OP_CONTINUE, USIL_OP_CONTINUEC}) (fm_stack m)) (\<lambda>target.
     if target \<ge> 0 then obind (modify (fm_flow m) index (\<lambda>f. f\<lparr>fl_jump_scope := target\<rparr>)) (\<lambda>flow. Done (m\<lparr>fm_flow := flow\<rparr>))
     else obind (at (fm_flow m) index) (\<lambda>f. if fl_jump_scope f < 0 then Fail () else Done m))"

definition match_instruction :: "usil_opcode list \<Rightarrow> int \<Rightarrow> flow_match \<Rightarrow> (unit, flow_match) outcome" where
  "match_instruction ops index m =
     obind (at ops index) (\<lambda>opcode. let
       scope = (case fm_stack m of [] \<Rightarrow> -1 | (s, _) # _ \<Rightarrow> s) in
     obind (if scope \<ge> 0 then at ops scope else Done USIL_OP_NOP) (\<lambda>enclosing.
     obind (if scope \<ge> 0 then obind (at (fm_flow m) scope) (\<lambda>s. Done (if fl_alternate s \<ge> 0 then fl_alternate s else scope)) else Done scope) (\<lambda>parent.
     obind (modify (fm_flow m) index (\<lambda>f. f\<lparr>fl_parent := parent\<rparr>)) (\<lambda>flow. let
       m = m\<lparr>fm_flow := flow\<rparr> in
     if opcode \<in> {USIL_OP_IF, USIL_OP_LOOP, USIL_OP_SWITCH} then open_scope index m
     else if opcode = USIL_OP_ELSE then match_else index scope enclosing m
     else if opcode \<in> {USIL_OP_ENDIF, USIL_OP_ENDLOOP, USIL_OP_ENDSWITCH} then close_scope index opcode scope enclosing m
     else if opcode \<in> {USIL_OP_CASE, USIL_OP_DEFAULT} then match_label index opcode scope enclosing m
     else if opcode \<in> {USIL_OP_BREAK, USIL_OP_BREAKC, USIL_OP_CONTINUE, USIL_OP_CONTINUEC} then match_jump ops index opcode m
     else Done m))))"

definition no_links :: "hlsl_instruction_flow \<Rightarrow> hlsl_instruction_flow" where
  "no_links f = f\<lparr>fl_end := -1, fl_alternate := -1, fl_parent := -1, fl_jump_scope := -1, fl_first_case := -1, fl_next_case := -1\<rparr>"

definition match_flow_structure :: "usil_opcode list \<Rightarrow> int \<Rightarrow> hlsl_instruction_flow list \<Rightarrow> int \<Rightarrow> int \<Rightarrow> (unit, hlsl_instruction_flow list) outcome" where
  "match_flow_structure ops count flow first_instruction end_instruction =
     obind (ofold (\<lambda>index flow. modify flow index no_links) (counting 0 count) flow) (\<lambda>flow.
     obind (ofold (match_instruction ops) (counting first_instruction end_instruction) \<lparr>fm_flow = flow, fm_stack = []\<rparr>) (\<lambda>m.
     if fm_stack m = [] then Done (fm_flow m) else Fail ()))"

section \<open>Blocks and edges\<close>

text \<open>The first instruction of every block: the entry, each boundary and what follows it.\<close>

definition mark_leader :: "usil_opcode list \<Rightarrow> int \<Rightarrow> int \<Rightarrow> bool list \<Rightarrow> (unit, bool list) outcome" where
  "mark_leader ops end_instruction index leader = obind (at ops index) (\<lambda>opcode.
     if \<not> is_boundary opcode then Done leader
     else obind (put leader index True) (\<lambda>leader.
       if index + 1 < end_instruction then put leader (index + 1) True else Done leader))"

definition start_block :: "bool list \<Rightarrow> int \<Rightarrow> hlsl_basic_block list \<times> int \<Rightarrow> (unit, hlsl_basic_block list \<times> int) outcome" where
  "start_block leader index s = (let (blocks, block_count) = s in
     obind (at leader index) (\<lambda>leads.
     if \<not> leads then Done (blocks, block_count)
     else obind (modify blocks block_count (\<lambda>b. b\<lparr>bb_first_instruction := index\<rparr>)) (\<lambda>blocks.
       obind (if block_count > 0 then modify blocks (block_count - 1) (\<lambda>b. b\<lparr>bb_last_instruction := index - 1\<rparr>) else Done blocks) (\<lambda>blocks.
       Done (blocks, block_count + 1)))))"

definition assign_block :: "hlsl_basic_block list \<Rightarrow> int \<Rightarrow> int list \<Rightarrow> (unit, int list) outcome" where
  "assign_block blocks block instruction_block = obind (at blocks block) (\<lambda>b.
     ofold (\<lambda>index owner. put owner index block) (counting (bb_first_instruction b) (bb_last_instruction b + 1)) instruction_block)"

text \<open>The edges so far: the blocks, the edge storage and the number of edges in it.\<close>

record edge_builder =
  eb_blocks :: "hlsl_basic_block list"
  eb_storage :: cells
  eb_edge_count :: nat

text \<open>\<open>has_edge\<close> is the search for the edge among those the block has already.\<close>

definition has_edge :: "cells \<Rightarrow> hlsl_basic_block \<Rightarrow> int \<Rightarrow> (unit, bool) outcome" where
  "has_edge storage block target = ofold (\<lambda>item found. if found then Done True
     else obind (cell storage (int (bb_successors block) + item)) (\<lambda>v. Done (v = target))) (counting 0 (bb_successor_count block)) False"

definition add_successor :: "int \<Rightarrow> int \<Rightarrow> int list \<Rightarrow> int \<Rightarrow> int \<Rightarrow> int \<Rightarrow> int \<Rightarrow> edge_builder \<Rightarrow> (unit, edge_builder) outcome" where
  "add_successor block_count instruction_count instruction_block from_block instruction first_instruction end_instruction eb =
     (if from_block < 0 \<or> from_block \<ge> block_count then Fail ()
      else if instruction = end_instruction then
        obind (modify (eb_blocks eb) from_block (\<lambda>b. b\<lparr>bb_may_exit := True\<rparr>)) (\<lambda>blocks. Done (eb\<lparr>eb_blocks := blocks\<rparr>))
      else if instruction < first_instruction \<or> instruction \<ge> end_instruction then Fail ()
      else obind (at instruction_block instruction) (\<lambda>target.
      if target < 0 \<or> target \<ge> block_count then Fail ()
      else obind (at (eb_blocks eb) from_block) (\<lambda>block.
      obind (has_edge (eb_storage eb) block target) (\<lambda>found.
      if found then Done eb
      else if eb_edge_count eb \<ge> nat instruction_count * 3 \<or> bb_successor_count block = int INT_MAX then Fail ()
      else obind (at (eb_blocks eb) target) (\<lambda>other.
      if bb_predecessor_count other = int INT_MAX then Fail ()
      else obind (put (eb_storage eb) (int (bb_successors block) + bb_successor_count block) (Some target)) (\<lambda>storage.
      obind (modify (eb_blocks eb) from_block (\<lambda>b. b\<lparr>bb_successor_count := bb_successor_count b + 1\<rparr>)) (\<lambda>blocks.
      obind (modify blocks target (\<lambda>b. b\<lparr>bb_predecessor_count := bb_predecessor_count b + 1\<rparr>)) (\<lambda>blocks.
      Done \<lparr>eb_blocks = blocks, eb_storage = storage, eb_edge_count = eb_edge_count eb + 1\<rparr>))))))))"

text \<open>The labels of a switch, along the links between them; the fuel bounds the length of the chain.\<close>

fun case_labels :: "nat \<Rightarrow> hlsl_instruction_flow list \<Rightarrow> int \<Rightarrow> (unit, int list) outcome" where
  "case_labels 0 flow label = Fault"
| "case_labels (Suc fuel) flow label =
     (if label < 0 then Done []
      else obind (at flow label) (\<lambda>f. obind (case_labels fuel flow (fl_next_case f)) (\<lambda>rest. Done (label # rest))))"

text \<open>
  The instructions control may reach after the last instruction of a block, in the order their edges are added; the
  instruction behind the last one stands for leaving the program.
\<close>

definition flow_targets :: "usil_opcode \<Rightarrow> hlsl_instruction_flow list \<Rightarrow> int \<Rightarrow> (unit, int list) outcome" where
  "flow_targets opcode flow last_index = obind (at flow last_index) (\<lambda>f.
     if opcode = USIL_OP_RET then Done []
     else if opcode = USIL_OP_SWITCH then
       obind (case_labels (length flow + 1) flow (fl_first_case f)) (\<lambda>labels.
       Done (labels @ (if \<not> fl_has_default f then [fl_end f + 1] else [])))
     else if opcode = USIL_OP_IF then Done [last_index + 1, (if fl_alternate f \<ge> 0 then fl_alternate f else fl_end f) + 1]
     else if opcode = USIL_OP_ELSE then Done [fl_end f + 1]
     else if opcode \<in> {USIL_OP_BREAK, USIL_OP_BREAKC, USIL_OP_CONTINUE, USIL_OP_CONTINUEC} then
       obind (at flow (fl_jump_scope f)) (\<lambda>scope.
       Done ((if opcode \<in> {USIL_OP_BREAKC, USIL_OP_CONTINUEC} then [last_index + 1] else []) @
         [if opcode \<in> {USIL_OP_CONTINUE, USIL_OP_CONTINUEC} then fl_end scope else fl_end scope + 1]))
     else if opcode = USIL_OP_ENDLOOP then Done [fl_jump_scope f + 1]
     else Done [last_index + 1])"

definition block_flags :: "usil_opcode \<Rightarrow> hlsl_basic_block \<Rightarrow> hlsl_basic_block" where
  "block_flags opcode b =
     (if opcode = USIL_OP_RET then b\<lparr>bb_may_exit := True\<rparr>
      else if opcode = USIL_OP_SWITCH then b\<lparr>bb_has_ambiguous_flow := True\<rparr>
      else if opcode \<in> {USIL_OP_IF, USIL_OP_ELSE, USIL_OP_BREAK, USIL_OP_BREAKC, USIL_OP_CONTINUE, USIL_OP_CONTINUEC, USIL_OP_ENDLOOP} then b
      else b\<lparr>bb_has_ambiguous_flow := bb_has_ambiguous_flow b \<or> opcode \<in> {USIL_OP_CASE, USIL_OP_DEFAULT, USIL_OP_ENDSWITCH},
             bb_may_exit := (opcode = USIL_OP_DISCARD)\<rparr>)"

definition block_nesting :: "usil_opcode list \<Rightarrow> int list \<Rightarrow> int \<Rightarrow> hlsl_block_nesting \<Rightarrow> (unit, hlsl_block_nesting) outcome" where
  "block_nesting ops instruction_block parent n =
     (if parent \<ge> 0 then obind (at instruction_block parent) (\<lambda>p. obind (at ops parent) (\<lambda>opcode.
        Done (n\<lparr>bn_parent_block := p, bn_is_loop := (opcode = USIL_OP_LOOP), bn_is_if := (opcode \<in> {USIL_OP_IF, USIL_OP_ELSE})\<rparr>)))
      else Done (n\<lparr>bn_parent_block := -1\<rparr>))"

definition connect_block :: "usil_opcode list \<Rightarrow> hlsl_instruction_flow list \<Rightarrow> int \<Rightarrow> int \<Rightarrow> int list \<Rightarrow> int \<Rightarrow> int \<Rightarrow> int \<Rightarrow>
    hlsl_block_nesting list \<times> edge_builder \<Rightarrow> (unit, hlsl_block_nesting list \<times> edge_builder) outcome" where
  "connect_block ops flow block_count instruction_count instruction_block first_instruction end_instruction block s = (let (nesting, eb) = s in
     obind (at (eb_blocks eb) block) (\<lambda>b.
     obind (at flow (bb_first_instruction b)) (\<lambda>f.
     obind (at nesting block) (\<lambda>n.
     obind (block_nesting ops instruction_block (fl_parent f) n) (\<lambda>n.
     obind (put nesting block n) (\<lambda>nesting.
     obind (at ops (bb_last_instruction b)) (\<lambda>opcode.
     obind (modify (eb_blocks eb) block (\<lambda>b. block_flags opcode (b\<lparr>bb_successors := eb_edge_count eb\<rparr>))) (\<lambda>blocks.
     obind (flow_targets opcode flow (bb_last_instruction b)) (\<lambda>targets.
     obind (ofold (\<lambda>target. add_successor block_count instruction_count instruction_block block target first_instruction end_instruction)
       targets (eb\<lparr>eb_blocks := blocks\<rparr>)) (\<lambda>eb. Done (nesting, eb)))))))))))"

text \<open>The slices of the predecessor storage, then the reverse of every edge in the order of the blocks.\<close>

definition place_predecessors :: "int \<Rightarrow> hlsl_basic_block list \<times> nat \<Rightarrow> (unit, hlsl_basic_block list \<times> nat) outcome" where
  "place_predecessors block s = (let (blocks, predecessor_offset) = s in
     obind (at blocks block) (\<lambda>b.
     obind (put blocks block (b\<lparr>bb_predecessors := predecessor_offset, bb_predecessor_count := 0\<rparr>)) (\<lambda>blocks.
     Done (blocks, predecessor_offset + nat (bb_predecessor_count b)))))"

definition reverse_edge :: "cells \<Rightarrow> int \<Rightarrow> int \<Rightarrow> hlsl_basic_block list \<times> cells \<Rightarrow> (unit, hlsl_basic_block list \<times> cells) outcome" where
  "reverse_edge successor_storage block edge s = (let (blocks, predecessors) = s in
     obind (at blocks block) (\<lambda>b.
     obind (cell successor_storage (int (bb_successors b) + edge)) (\<lambda>target.
     obind (at blocks target) (\<lambda>t.
     obind (put predecessors (int (bb_predecessors t) + bb_predecessor_count t) (Some block)) (\<lambda>predecessors.
     obind (modify blocks target (\<lambda>t. t\<lparr>bb_predecessor_count := bb_predecessor_count t + 1\<rparr>)) (\<lambda>blocks.
     Done (blocks, predecessors)))))))"

definition reverse_block :: "cells \<Rightarrow> int \<Rightarrow> hlsl_basic_block list \<times> cells \<Rightarrow> (unit, hlsl_basic_block list \<times> cells) outcome" where
  "reverse_block successor_storage block s = obind (at (fst s) block) (\<lambda>b.
     ofold (reverse_edge successor_storage block) (counting 0 (bb_successor_count b)) s)"

text \<open>Releasing the graph reads the frontier of every block.\<close>

definition free_control_flow_graph :: "hlsl_control_flow_graph \<Rightarrow> (hlsl_control_flow_graph, hlsl_control_flow_graph) outcome" where
  "free_control_flow_graph cfg = (case cfg_df cfg of
     None \<Rightarrow> Done zero_cfg
   | Some df \<Rightarrow> obind (ofold (\<lambda>i _. obind (at df i) (\<lambda>_. Done ())) (counting 0 (cfg_block_count cfg)) ()) (\<lambda>_. Done zero_cfg))"

text \<open>
  Everything between the allocations and the success of the builder, whose failure leads to the label \<open>fail\<close>; the
  count of blocks continues from the one the graph had.  A graph to be built is a cleared one, without frontiers.
\<close>

definition connect_graph :: "(nat \<Rightarrow> bool) \<Rightarrow> usil_opcode list \<Rightarrow> hlsl_control_flow_graph \<Rightarrow> int \<Rightarrow> int \<Rightarrow> (unit, hlsl_control_flow_graph) outcome" where
  "connect_graph c_malloc ops cfg first_instruction end_instruction = (let count = cfg_instruction_count cfg in
     obind (match_flow_structure ops count (replicate (nat count) zero_flow) first_instruction end_instruction) (\<lambda>flow.
     obind (put (replicate (nat count) False) first_instruction True) (\<lambda>leader.
     obind (ofold (mark_leader ops end_instruction) (counting first_instruction end_instruction) leader) (\<lambda>leader.
     obind (ofold (start_block leader) (counting first_instruction end_instruction) (replicate (nat count) zero_block, cfg_block_count cfg)) (\<lambda>(blocks, block_count).
     obind (modify blocks (block_count - 1) (\<lambda>b. b\<lparr>bb_last_instruction := end_instruction - 1\<rparr>)) (\<lambda>blocks.
     obind (ofold (assign_block blocks) (counting 0 block_count) (replicate (nat count) (-1))) (\<lambda>instruction_block.
     if \<not> c_malloc (nat block_count * 8) then Fail ()
     else obind (ofold (connect_block ops flow block_count count instruction_block first_instruction end_instruction) (counting 0 block_count)
       (replicate (nat block_count) zero_nesting, \<lparr>eb_blocks = blocks, eb_storage = replicate (nat count * 3) None, eb_edge_count = 0\<rparr>)) (\<lambda>(nesting, eb).
     if \<not> c_malloc (max (eb_edge_count eb) 1 * 4) then Fail ()
     else obind (ofold place_predecessors (counting 0 block_count) (eb_blocks eb, 0)) (\<lambda>(blocks, _).
     obind (ofold (reverse_block (eb_storage eb)) (counting 0 block_count) (blocks, replicate (max (eb_edge_count eb) 1) None)) (\<lambda>(blocks, predecessors).
     Done (cfg\<lparr>cfg_blocks := Some blocks, cfg_successor_storage := Some (eb_storage eb), cfg_predecessor_storage := Some predecessors,
       cfg_block_count := block_count, cfg_instruction_block := Some instruction_block, cfg_instruction_flow := Some flow,
       cfg_nesting := Some nesting\<rparr>)))))))))))"

text \<open>
  \<open>Fail cfg\<close> is the result \<open>false\<close> with the graph it leaves.  Sizes: an instruction flow has 28 bytes, a block 40, a block
  nesting 8.
\<close>

definition build_control_flow_graph_range ::
    "(nat \<Rightarrow> bool) \<Rightarrow> unity_common \<Rightarrow> usil_program option \<Rightarrow> hlsl_control_flow_graph \<Rightarrow> int \<Rightarrow> int \<Rightarrow> (hlsl_control_flow_graph, hlsl_control_flow_graph) outcome" where
  "build_control_flow_graph_range c_malloc uc program cfg first_instruction end_instruction = (case program of
     None \<Rightarrow> Fail cfg
   | Some p \<Rightarrow> let count = up_instruction_count p in
       if count < 0 then Fail cfg
       else if first_instruction < 0 \<or> end_instruction < first_instruction \<or> end_instruction > count \<or> first_instruction = end_instruction \<and> count \<noteq> 0
       then Fail cfg
       else if count = 0 then Done cfg
       else case up_instructions p of
         None \<Rightarrow> Fail cfg
       | Some ops \<Rightarrow>
         if cfg_blocks cfg \<noteq> None \<or> cfg_instruction_block cfg \<noteq> None \<or> cfg_successor_storage cfg \<noteq> None \<or> cfg_predecessor_storage cfg \<noteq> None \<or>
            cfg_instruction_flow cfg \<noteq> None \<or> size_multiply_overflows uc (nat count) 28 \<or> size_multiply_overflows uc (nat count) 40 \<or>
            size_multiply_overflows uc (nat count) 12
         then Fail cfg
         else let started = cfg\<lparr>cfg_instruction_count := count\<rparr>; failed = obind (free_control_flow_graph started) Fail in
         if \<not> c_malloc (nat count) \<or> \<not> c_malloc (nat count * 28) \<or> \<not> c_malloc (nat count * 4) \<or> \<not> c_malloc (nat count * 12) \<or> \<not> c_malloc (nat count * 40)
         then failed
         else on_fail (connect_graph c_malloc ops started first_instruction end_instruction) failed)"

definition build_control_flow_graph :: "(nat \<Rightarrow> bool) \<Rightarrow> unity_common \<Rightarrow> usil_program option \<Rightarrow> hlsl_control_flow_graph \<Rightarrow> (hlsl_control_flow_graph, hlsl_control_flow_graph) outcome" where
  "build_control_flow_graph c_malloc uc program cfg = (case program of
     None \<Rightarrow> Fail cfg
   | Some p \<Rightarrow> build_control_flow_graph_range c_malloc uc program cfg 0 (up_instruction_count p))"

section \<open>Access to a graph\<close>

definition block_at :: "hlsl_control_flow_graph \<Rightarrow> int \<Rightarrow> ('e, hlsl_basic_block) outcome" where
  "block_at cfg i = obind (mem (cfg_blocks cfg)) (\<lambda>blocks. at blocks i)"

definition successor_at :: "hlsl_control_flow_graph \<Rightarrow> hlsl_basic_block \<Rightarrow> int \<Rightarrow> ('e, int) outcome" where
  "successor_at cfg b i = obind (mem (cfg_successor_storage cfg)) (\<lambda>storage. cell storage (int (bb_successors b) + i))"

definition predecessor_at :: "hlsl_control_flow_graph \<Rightarrow> hlsl_basic_block \<Rightarrow> int \<Rightarrow> ('e, int) outcome" where
  "predecessor_at cfg b i = obind (mem (cfg_predecessor_storage cfg)) (\<lambda>storage. cell storage (int (bb_predecessors b) + i))"

definition pair_is_straight :: "hlsl_control_flow_graph \<Rightarrow> int \<Rightarrow> (unit, bool) outcome" where
  "pair_is_straight cfg block =
     obind (block_at cfg block) (\<lambda>current. obind (block_at cfg (block + 1)) (\<lambda>follower.
     if bb_has_ambiguous_flow current \<or> bb_has_ambiguous_flow follower \<or> bb_successor_count current \<noteq> 1 then Done False
     else obind (successor_at cfg current 0) (\<lambda>s. Done (s = block + 1 \<and> bb_predecessor_count follower = 1))))"

definition instructions_have_unambiguous_path :: "hlsl_control_flow_graph \<Rightarrow> usil_program \<Rightarrow> int \<Rightarrow> int \<Rightarrow> (unit, bool) outcome" where
  "instructions_have_unambiguous_path cfg program first second = (case cfg_instruction_block cfg of
     None \<Rightarrow> Done False
   | Some owner \<Rightarrow>
       if first < 0 \<or> second < first \<or> second \<ge> up_instruction_count program then Done False
       else obind (at owner first) (\<lambda>first_block. obind (at owner second) (\<lambda>second_block.
       if first_block < 0 \<or> second_block < 0 then Done False
       else if first_block = second_block then Done True
       else ofold (\<lambda>block straight. if straight then pair_is_straight cfg block else Done False) (counting first_block second_block) True)))"

section \<open>Dominance\<close>

text \<open>The depth-first search: its stack of blocks with the next successor to follow, the visited blocks, the finished ones.\<close>

record dfs_state =
  df_stack :: "(int \<times> int) list"
  df_visited :: "bool list"
  df_postorder :: "int list"

definition dfs_step :: "hlsl_control_flow_graph \<Rightarrow> int \<Rightarrow> int \<Rightarrow> (int \<times> int) list \<Rightarrow> dfs_state \<Rightarrow> (unit, dfs_state) outcome" where
  "dfs_step cfg block next_successor rest s =
     obind (block_at cfg block) (\<lambda>b.
     if next_successor = bb_successor_count b then
       if length (df_postorder s) < nat (cfg_block_count cfg) then Done (s\<lparr>df_stack := rest, df_postorder := df_postorder s @ [block]\<rparr>) else Fault
     else obind (successor_at cfg b next_successor) (\<lambda>successor.
       let stack = (block, next_successor + 1) # rest in
       obind (at (df_visited s) successor) (\<lambda>seen.
       if seen then Done (s\<lparr>df_stack := stack\<rparr>)
       else if length stack < nat (cfg_block_count cfg) then
         obind (put (df_visited s) successor True) (\<lambda>visited. Done (s\<lparr>df_stack := (successor, 0) # stack, df_visited := visited\<rparr>))
       else Fault)))"

fun dfs_loop :: "nat \<Rightarrow> hlsl_control_flow_graph \<Rightarrow> dfs_state \<Rightarrow> (unit, dfs_state) outcome" where
  "dfs_loop 0 cfg s = Fault"
| "dfs_loop (Suc fuel) cfg s = (case df_stack s of
     [] \<Rightarrow> Done s
   | (block, next_successor) # rest \<Rightarrow> obind (dfs_step cfg block next_successor rest s) (dfs_loop fuel cfg))"

text \<open>A turn finishes a block or passes an edge.\<close>

definition dfs_fuel :: "hlsl_control_flow_graph \<Rightarrow> nat" where
  "dfs_fuel cfg = nat (cfg_block_count cfg) + sum_list (map (\<lambda>b. nat (bb_successor_count b)) (case cfg_blocks cfg of None \<Rightarrow> [] | Some bs \<Rightarrow> take (nat (cfg_block_count cfg)) bs)) + 1"

definition build_postorder :: "(nat \<Rightarrow> bool) \<Rightarrow> unity_common \<Rightarrow> hlsl_control_flow_graph \<Rightarrow> (unit, int list) outcome" where
  "build_postorder c_malloc uc cfg = (let count = nat (cfg_block_count cfg) in
     if size_multiply_overflows uc count 8 then Fail ()
     else if \<not> c_malloc (count * 8) \<or> \<not> c_malloc count then Fail ()
     else obind (put (replicate count False) 0 True) (\<lambda>visited.
       obind (dfs_loop (dfs_fuel cfg) cfg \<lparr>df_stack = [(0, 0)], df_visited = visited, df_postorder = []\<rparr>) (\<lambda>s. Done (df_postorder s))))"

text \<open>One inner loop of \<open>intersect\<close>: a finger climbs the tree until its number is no longer below that of the other.\<close>

fun climb :: "nat \<Rightarrow> int list \<Rightarrow> int list \<Rightarrow> int \<Rightarrow> int \<Rightarrow> (unit, int) outcome" where
  "climb 0 numbers idom other finger = Fault"
| "climb (Suc fuel) numbers idom other finger =
     (if finger < 0 then Done finger
      else obind (at numbers finger) (\<lambda>a. obind (at numbers other) (\<lambda>b.
        if a < b then obind (at idom finger) (climb fuel numbers idom other) else Done finger)))"

fun intersect_loop :: "nat \<Rightarrow> nat \<Rightarrow> int list \<Rightarrow> int list \<Rightarrow> int \<Rightarrow> int \<Rightarrow> (unit, int) outcome" where
  "intersect_loop 0 steps numbers idom finger1 finger2 = Fault"
| "intersect_loop (Suc fuel) steps numbers idom finger1 finger2 =
     (if finger1 = finger2 then Done finger1
      else obind (climb steps numbers idom finger2 finger1) (\<lambda>finger1.
      if finger1 < 0 then Done finger2
      else obind (climb steps numbers idom finger1 finger2) (\<lambda>finger2.
      if finger2 < 0 then Done finger1 else intersect_loop fuel steps numbers idom finger1 finger2)))"

text \<open>Every turn moves a finger up, and a finger has at most as many places as there are blocks.\<close>

definition intersect_fingers :: "int \<Rightarrow> int \<Rightarrow> int list \<Rightarrow> int list \<Rightarrow> (unit, int) outcome" where
  "intersect_fingers b1 b2 postorder_numbers idom =
     intersect_loop (2 * length idom + 1) (length idom + 1) postorder_numbers idom b1 b2"

definition join_predecessor :: "hlsl_control_flow_graph \<Rightarrow> int list \<Rightarrow> int list \<Rightarrow> hlsl_basic_block \<Rightarrow> int \<Rightarrow> int \<Rightarrow> (unit, int) outcome" where
  "join_predecessor cfg numbers idom block edge parent =
     obind (predecessor_at cfg block edge) (\<lambda>predecessor.
     obind (at idom predecessor) (\<lambda>d.
     if d < 0 then Done parent
     else if parent < 0 then Done predecessor else intersect_fingers parent predecessor numbers idom))"

definition update_idom :: "hlsl_control_flow_graph \<Rightarrow> int list \<Rightarrow> int list \<Rightarrow> nat \<Rightarrow> int list \<times> bool \<Rightarrow> (unit, int list \<times> bool) outcome" where
  "update_idom cfg postorder numbers index s = (let (idom, changed) = s in
     obind (at postorder (int index)) (\<lambda>block_index.
     obind (block_at cfg block_index) (\<lambda>block.
     obind (ofold (join_predecessor cfg numbers idom block) (counting 0 (bb_predecessor_count block)) (-1)) (\<lambda>parent.
     obind (at idom block_index) (\<lambda>old.
     if parent \<noteq> old then obind (put idom block_index parent) (\<lambda>idom. Done (idom, True)) else Done (idom, changed))))))"

definition dominance_pass :: "hlsl_control_flow_graph \<Rightarrow> int list \<Rightarrow> int list \<Rightarrow> int list \<Rightarrow> (unit, int list \<times> bool) outcome" where
  "dominance_pass cfg postorder numbers idom = ofold (update_idom cfg postorder numbers) (rev [0..<length postorder - 1]) (idom, False)"

fun dominance_loop :: "nat \<Rightarrow> hlsl_control_flow_graph \<Rightarrow> int list \<Rightarrow> int list \<Rightarrow> int list \<Rightarrow> (unit, int list) outcome" where
  "dominance_loop 0 cfg postorder numbers idom = Fault"
| "dominance_loop (Suc fuel) cfg postorder numbers idom =
     obind (dominance_pass cfg postorder numbers idom) (\<lambda>(idom, changed).
     if changed then dominance_loop fuel cfg postorder numbers idom else Done idom)"

text \<open>The frontiers: the values of each block and their count.\<close>

definition add_frontier :: "(nat \<Rightarrow> bool) \<Rightarrow> unity_common \<Rightarrow> int list \<times> int \<Rightarrow> int \<Rightarrow> (unit, int list \<times> int) outcome" where
  "add_frontier c_malloc uc s block = (let (values, count) = s in
     obind (ofold (\<lambda>index found. if found then Done True else obind (at values index) (\<lambda>v. Done (v = block))) (counting 0 count) False) (\<lambda>found.
     if found then Done (values, count)
     else if count = int INT_MAX \<or> size_multiply_overflows uc (nat count + 1) 4 then Fail ()
     else if \<not> c_malloc ((nat count + 1) * 4) then Fail ()
     else Done (take (nat count) values @ [block], count + 1)))"

fun run_frontier :: "nat \<Rightarrow> (nat \<Rightarrow> bool) \<Rightarrow> unity_common \<Rightarrow> int list \<Rightarrow> int \<Rightarrow> int \<Rightarrow> int list list \<times> int list \<Rightarrow> (unit, int list list \<times> int list) outcome" where
  "run_frontier 0 c_malloc uc idom block runner s = Fault"
| "run_frontier (Suc fuel) c_malloc uc idom block runner s = (let (frontiers, counts) = s in
     obind (at idom block) (\<lambda>stop.
     if runner = stop then Done (frontiers, counts)
     else obind (at frontiers runner) (\<lambda>values.
       obind (at counts runner) (\<lambda>count.
       obind (add_frontier c_malloc uc (values, count) block) (\<lambda>(values, count).
       obind (put frontiers runner values) (\<lambda>frontiers.
       obind (put counts runner count) (\<lambda>counts.
       obind (at idom runner) (\<lambda>above. run_frontier fuel c_malloc uc idom block above (frontiers, counts)))))))))"

definition frontier_edge :: "(nat \<Rightarrow> bool) \<Rightarrow> unity_common \<Rightarrow> hlsl_control_flow_graph \<Rightarrow> int list \<Rightarrow> int \<Rightarrow> hlsl_basic_block \<Rightarrow> int \<Rightarrow>
    int list list \<times> int list \<Rightarrow> (unit, int list list \<times> int list) outcome" where
  "frontier_edge c_malloc uc cfg idom block_index block edge s =
     obind (predecessor_at cfg block edge) (\<lambda>runner.
     obind (at idom runner) (\<lambda>d. if d < 0 then Done s else run_frontier (length idom + 1) c_malloc uc idom block_index runner s))"

definition frontier_block :: "(nat \<Rightarrow> bool) \<Rightarrow> unity_common \<Rightarrow> hlsl_control_flow_graph \<Rightarrow> int list \<Rightarrow> int \<Rightarrow>
    int list list \<times> int list \<Rightarrow> (unit, int list list \<times> int list) outcome" where
  "frontier_block c_malloc uc cfg idom block_index s =
     obind (block_at cfg block_index) (\<lambda>block. obind (at idom block_index) (\<lambda>d.
     if d < 0 \<or> bb_predecessor_count block < 2 then Done s
     else ofold (frontier_edge c_malloc uc cfg idom block_index block) (counting 0 (bb_predecessor_count block)) s))"

text \<open>
  The passes are bounded by the square of the number of blocks: a pass that changes a parent moves it up.
\<close>

definition immediate_dominators :: "(nat \<Rightarrow> bool) \<Rightarrow> unity_common \<Rightarrow> hlsl_control_flow_graph \<Rightarrow> (unit, int list) outcome" where
  "immediate_dominators c_malloc uc cfg = (let count = nat (cfg_block_count cfg) in
     obind (build_postorder c_malloc uc cfg) (\<lambda>postorder.
     obind (ofold (\<lambda>index numbers. obind (at postorder (int index)) (\<lambda>b. put numbers b (int index))) [0..<length postorder] (replicate count (-1))) (\<lambda>numbers.
     obind (put (replicate count (-1)) 0 0) (\<lambda>idom.
     dominance_loop (count * count + 2) cfg postorder numbers idom))))"

definition compute_dominance :: "(nat \<Rightarrow> bool) \<Rightarrow> unity_common \<Rightarrow> hlsl_control_flow_graph option \<Rightarrow> (unit, hlsl_control_flow_graph) outcome" where
  "compute_dominance c_malloc uc graph = (case graph of
     None \<Rightarrow> Fail ()
   | Some cfg \<Rightarrow> let count = nat (cfg_block_count cfg) in
       if cfg_block_count cfg < 0 \<or> cfg_idom cfg \<noteq> None \<or> cfg_df cfg \<noteq> None \<or> cfg_df_count cfg \<noteq> None \<or>
          size_multiply_overflows uc count 4 \<or> size_multiply_overflows uc count 8 then Fail ()
       else if cfg_block_count cfg = 0 then Done cfg
       else if cfg_blocks cfg = None \<or> cfg_successor_storage cfg = None \<or> cfg_predecessor_storage cfg = None then Fail ()
       else if \<not> c_malloc (count * 4) \<or> \<not> c_malloc (count * 8) then Fail ()
       else obind (immediate_dominators c_malloc uc cfg) (\<lambda>idom.
         obind (ofold (frontier_block c_malloc uc cfg idom) (counting 0 (cfg_block_count cfg)) (replicate count [], replicate count 0)) (\<lambda>(frontiers, counts).
         Done (cfg\<lparr>cfg_idom := Some idom, cfg_df := Some frontiers, cfg_df_count := Some counts\<rparr>))))"

definition analyze_block_nesting :: "hlsl_control_flow_graph option \<Rightarrow> bool" where
  "analyze_block_nesting graph = (case graph of None \<Rightarrow> False | Some cfg \<Rightarrow>
     cfg_block_count cfg \<ge> 0 \<and> (cfg_block_count cfg = 0 \<or> cfg_nesting cfg \<noteq> None))"

section \<open>Queries\<close>

fun climb_to :: "nat \<Rightarrow> int \<Rightarrow> int list \<Rightarrow> int \<Rightarrow> int \<Rightarrow> (unit, bool) outcome" where
  "climb_to 0 block_count idom dominator block = Done False"
| "climb_to (Suc steps) block_count idom dominator block =
     (if block = dominator then Done True
      else obind (at idom block) (\<lambda>parent.
        if parent < 0 \<or> parent \<ge> block_count \<or> parent = block then Done False else climb_to steps block_count idom dominator parent))"

definition hlsl_cfg_dominates :: "hlsl_control_flow_graph option \<Rightarrow> int \<Rightarrow> int \<Rightarrow> (unit, bool) outcome" where
  "hlsl_cfg_dominates graph dominator block = (case graph of
     None \<Rightarrow> Done False
   | Some cfg \<Rightarrow> (case cfg_idom cfg of
       None \<Rightarrow> Done False
     | Some idom \<Rightarrow>
         if dominator < 0 \<or> dominator \<ge> cfg_block_count cfg \<or> block < 0 \<or> block \<ge> cfg_block_count cfg then Done False
         else obind (at idom dominator) (\<lambda>d. obind (at idom block) (\<lambda>b.
         if d < 0 \<or> b < 0 then Done False else climb_to (nat (cfg_block_count cfg)) (cfg_block_count cfg) idom dominator block))))"

text \<open>
  The worklist: the unproven successors left of every block and the queue.  \<open>Fail proven\<close> is the jump to the label
  \<open>cleanup\<close> with that result.
\<close>

definition prove_predecessor :: "hlsl_control_flow_graph \<Rightarrow> int list \<Rightarrow> int \<Rightarrow> hlsl_basic_block \<Rightarrow> int \<Rightarrow> int list \<times> int list \<Rightarrow> (bool, int list \<times> int list) outcome" where
  "prove_predecessor cfg idom start block edge s = (let (remaining, queue) = s in
     obind (predecessor_at cfg block edge) (\<lambda>predecessor.
     if predecessor < 0 \<or> predecessor \<ge> cfg_block_count cfg then Fail False
     else obind (at idom predecessor) (\<lambda>d. obind (block_at cfg predecessor) (\<lambda>p. obind (at remaining predecessor) (\<lambda>r.
     if d < 0 \<or> bb_may_exit p \<or> r \<le> 0 then Done (remaining, queue)
     else obind (put remaining predecessor (r - 1)) (\<lambda>remaining.
       if r - 1 = 0 then
         if predecessor = start then Fail True
         else if length queue < nat (cfg_block_count cfg) then Done (remaining, queue @ [predecessor]) else Fault
       else Done (remaining, queue)))))))"

fun must_reach_loop :: "nat \<Rightarrow> hlsl_control_flow_graph \<Rightarrow> int list \<Rightarrow> int \<Rightarrow> nat \<Rightarrow> int list \<times> int list \<Rightarrow> (bool, bool) outcome" where
  "must_reach_loop 0 cfg idom start head s = Fault"
| "must_reach_loop (Suc fuel) cfg idom start head s =
     (if head < length (snd s) then
        obind (block_at cfg (snd s ! head)) (\<lambda>block.
        obind (ofold (prove_predecessor cfg idom start block) (counting 0 (bb_predecessor_count block)) s) (\<lambda>s.
        must_reach_loop fuel cfg idom start (head + 1) s))
      else Done False)"

fun cleanup :: "(bool, bool) outcome \<Rightarrow> (unit, bool) outcome" where
  "cleanup Fault = Fault"
| "cleanup (Fail proven) = Done proven"
| "cleanup (Done proven) = Done proven"

definition hlsl_cfg_must_reach :: "(nat \<Rightarrow> bool) \<Rightarrow> unity_common \<Rightarrow> hlsl_control_flow_graph option \<Rightarrow> int \<Rightarrow> int \<Rightarrow> (unit, bool) outcome" where
  "hlsl_cfg_must_reach c_malloc uc graph start target = (case graph of
     None \<Rightarrow> Done False
   | Some cfg \<Rightarrow> (case cfg_idom cfg of
       None \<Rightarrow> Done False
     | Some idom \<Rightarrow> let count = nat (cfg_block_count cfg) in
         if cfg_blocks cfg = None \<or> start < 0 \<or> start \<ge> cfg_block_count cfg \<or> target < 0 \<or> target \<ge> cfg_block_count cfg then Done False
         else obind (at idom start) (\<lambda>s. obind (at idom target) (\<lambda>t.
         if s < 0 \<or> t < 0 \<or> size_multiply_overflows uc count 4 then Done False
         else if start = target then Done True
         else if \<not> c_malloc (count * 4) then Done False
         else cleanup (obind (ofold (\<lambda>block remaining. obind (block_at cfg block) (\<lambda>b. Done (remaining @ [bb_successor_count b]))) (counting 0 (cfg_block_count cfg)) []) (\<lambda>remaining.
           obind (put remaining target 0) (\<lambda>remaining. must_reach_loop (count + 1) cfg idom start 0 (remaining, [target]))))))))"

definition region_block :: "hlsl_control_flow_graph \<Rightarrow> hlsl_if_region \<Rightarrow> int \<Rightarrow> (unit, unit) outcome" where
  "region_block cfg region index =
     obind (block_at cfg index) (\<lambda>block.
     obind (hlsl_cfg_dominates (Some cfg) (ir_header_block region) index) (\<lambda>dominated.
     if \<not> dominated then Fail ()
     else ofold (\<lambda>edge _. obind (predecessor_at cfg block edge) (\<lambda>predecessor.
       if predecessor < ir_header_block region \<or> predecessor \<ge> ir_join_block region then Fail () else Done ())) (counting 0 (bb_predecessor_count block)) ()))"

definition hlsl_cfg_if_region :: "(nat \<Rightarrow> bool) \<Rightarrow> unity_common \<Rightarrow> usil_program option \<Rightarrow> hlsl_control_flow_graph \<Rightarrow> int \<Rightarrow> bool \<Rightarrow> (unit, hlsl_if_region) outcome" where
  "hlsl_cfg_if_region c_malloc uc program cfg instruction out = (case program of
     None \<Rightarrow> Fail ()
   | Some p \<Rightarrow> (case up_instructions p of
       None \<Rightarrow> Fail ()
     | Some ops \<Rightarrow>
         if \<not> out \<or> instruction < 0 \<or> instruction \<ge> up_instruction_count p then Fail ()
         else obind (at ops instruction) (\<lambda>opcode.
         if opcode \<noteq> USIL_OP_IF then Fail ()
         else case (cfg_blocks cfg, cfg_instruction_flow cfg, cfg_instruction_block cfg) of
           (Some _, Some flows, Some owner) \<Rightarrow>
             if cfg_instruction_count cfg \<noteq> up_instruction_count p then Fail ()
             else obind (at flows instruction) (\<lambda>flow.
             if fl_end flow \<le> instruction \<or> fl_end flow \<ge> cfg_instruction_count cfg - 1 then Fail ()
             else obind (at owner instruction) (\<lambda>header.
             obind (at owner (instruction + 1)) (\<lambda>true_block.
             obind (at owner ((if fl_alternate flow \<ge> 0 then fl_alternate flow else fl_end flow) + 1)) (\<lambda>false_block.
             obind (at owner (fl_end flow + 1)) (\<lambda>join_block. let
               candidate = \<lparr>ir_header_block = header, ir_true_block = true_block, ir_false_block = false_block, ir_join_block = join_block,
                 ir_else_instruction = fl_alternate flow, ir_end_instruction = fl_end flow\<rparr> in
             obind (hlsl_cfg_dominates (Some cfg) header join_block) (\<lambda>dominated.
             if \<not> dominated then Fail ()
             else obind (hlsl_cfg_must_reach c_malloc uc (Some cfg) header join_block) (\<lambda>reached.
             if \<not> reached then Fail ()
             else obind (ofold (\<lambda>index _. region_block cfg candidate index) (counting (header + 1) join_block) ()) (\<lambda>_. Done candidate))))))))
         | _ \<Rightarrow> Fail ())))"

end
