(* ===== verification/Flow_Graph.thy ===== *)
theory Flow_Graph
  imports Prelude
begin

text \<open>
  Graphs of basic blocks, independent of the code: walks, reachability, dominance and blocks that cannot be avoided; and the
  argument why the tree of the algorithm of Cooper, Harvey and Kennedy converges to the dominators.
\<close>

section \<open>Walks\<close>

text \<open>Nodes are numbers, the entry is \<open>0\<close>, \<open>E b\<close> are the successors of \<open>b\<close>.  A walk is the list of its nodes.\<close>

inductive walk :: "(nat \<Rightarrow> nat list) \<Rightarrow> nat \<Rightarrow> nat list \<Rightarrow> nat \<Rightarrow> bool" for E where
  walk_here: "walk E a [a] a"
| walk_step: "walk E a xs b \<Longrightarrow> c \<in> set (E b) \<Longrightarrow> walk E a (xs @ [c]) c"

definition reachable :: "(nat \<Rightarrow> nat list) \<Rightarrow> nat \<Rightarrow> bool" where
  "reachable E b \<longleftrightarrow> (\<exists>xs. walk E 0 xs b)"

definition dominating :: "(nat \<Rightarrow> nat list) \<Rightarrow> nat \<Rightarrow> nat \<Rightarrow> bool" where
  "dominating E d b \<longleftrightarrow> (\<forall>xs. walk E 0 xs b \<longrightarrow> d \<in> set xs)"

lemma walk_ends: "walk E a xs b \<Longrightarrow> a \<in> set xs \<and> b \<in> set xs"
  by (induction rule: walk.induct) auto

lemma walk_append: "walk E b ys c \<Longrightarrow> walk E a xs b \<Longrightarrow> walk E a (xs @ tl ys) c"
proof (induction rule: walk.induct)
  case (walk_step b ys c d)
  then have "walk E a ((xs @ tl ys) @ [d]) d" using walk.walk_step by blast
  moreover have "ys \<noteq> []" using walk_step.hyps(1) by (auto elim: walk.cases)
  ultimately show ?case by (cases ys) auto
qed simp

lemma reachable_entry [simp]: "reachable E 0"
  unfolding reachable_def using walk_here by blast

lemma reachable_step: "reachable E b \<Longrightarrow> c \<in> set (E b) \<Longrightarrow> reachable E c"
  unfolding reachable_def using walk_step by blast

lemma dominating_self: "dominating E b b"
  using walk_ends by (auto simp: dominating_def)

lemma dominating_step: "dominating E d c \<Longrightarrow> d \<noteq> c \<Longrightarrow> c \<in> set (E b) \<Longrightarrow> dominating E d b"
  unfolding dominating_def using walk_step by fastforce

lemma entry_dominates: "dominating E 0 b"
  using walk_ends by (auto simp: dominating_def)

section \<open>Ancestors\<close>

text \<open>\<open>par\<close> is the parent of every node of the tree; the entry is its own parent.\<close>

inductive ancestor :: "(nat \<Rightarrow> nat option) \<Rightarrow> nat \<Rightarrow> nat \<Rightarrow> bool" for par where
  ancestor_self: "ancestor par x x"
| ancestor_up: "par b = Some p \<Longrightarrow> ancestor par x p \<Longrightarrow> ancestor par x b"

lemma ancestor_iff: "par b = Some p \<Longrightarrow> ancestor par x b \<longleftrightarrow> x = b \<or> ancestor par x p"
  by (auto elim: ancestor.cases intro: ancestor_up ancestor_self)

lemma ancestor_trans: "ancestor par y b \<Longrightarrow> ancestor par x y \<Longrightarrow> ancestor par x b"
  by (induction rule: ancestor.induct) (auto intro: ancestor_up)

text \<open>
  A graph whose reachable nodes are numbered: the entry has the greatest number, and every other node has a predecessor
  of a greater one.  A depth-first search that numbers nodes when it leaves them provides it.
\<close>

locale numbered_graph =
  fixes E :: "nat \<Rightarrow> nat list"
    and num :: "nat \<Rightarrow> nat"
  assumes num_inject: "reachable E a \<Longrightarrow> reachable E b \<Longrightarrow> num a = num b \<Longrightarrow> a = b"
    and num_entry: "reachable E b \<Longrightarrow> b \<noteq> 0 \<Longrightarrow> num b < num 0"
    and forward: "reachable E b \<Longrightarrow> b \<noteq> 0 \<Longrightarrow> \<exists>p. reachable E p \<and> b \<in> set (E p) \<and> num b < num p"
begin

definition tree :: "(nat \<Rightarrow> nat option) \<Rightarrow> bool" where
  "tree par \<longleftrightarrow> par 0 = Some 0 \<and> (\<forall>b p. par b = Some p \<longrightarrow> reachable E b \<and> p \<in> dom par \<and> (b \<noteq> 0 \<longrightarrow> num b < num p))"

lemma treeD:
  assumes "tree par" "par b = Some p"
  shows "reachable E b" "p \<in> dom par" "b \<noteq> 0 \<Longrightarrow> num b < num p" "b = 0 \<Longrightarrow> p = 0"
  using assms unfolding tree_def by auto

lemma ancestor_num: "ancestor par x b \<Longrightarrow> tree par \<Longrightarrow> b \<in> dom par \<Longrightarrow> x \<in> dom par \<and> (x = b \<or> num b < num x)"
proof (induction rule: ancestor.induct)
  case (ancestor_up b p x)
  then show ?case using treeD [OF ancestor_up.prems(1) ancestor_up.hyps(1)] by (cases "b = 0") auto
qed simp

lemma ancestor_reach: "tree par \<Longrightarrow> b \<in> dom par \<Longrightarrow> ancestor par x b \<Longrightarrow> reachable E x"
  using ancestor_num treeD(1) by blast

lemma entry_ancestor: "tree par \<Longrightarrow> b \<in> dom par \<Longrightarrow> ancestor par 0 b"
proof (induction "num 0 - num b" arbitrary: b rule: less_induct)
  case less
  then obtain p where p: "par b = Some p" by blast
  show ?case
  proof (cases "b = 0")
    case False
    have r: "reachable E b" "p \<in> dom par" "num b < num p" using treeD [OF less.prems(1) p] False by auto
    then have "num b < num 0" using num_entry False by blast
    then have "ancestor par 0 p" using less r by (intro less.hyps) auto
    then show ?thesis using p ancestor_up by blast
  qed (simp add: ancestor_self)
qed

lemma ancestor_linear: "ancestor par x b \<Longrightarrow> tree par \<Longrightarrow> b \<in> dom par \<Longrightarrow> ancestor par y b \<Longrightarrow> num x \<le> num y \<Longrightarrow> ancestor par y x"
proof (induction rule: ancestor.induct)
  case (ancestor_up b p x)
  show ?case
  proof (cases "y = b")
    case True
    have "ancestor par x b" using ancestor_up.hyps ancestor.ancestor_up by blast
    from ancestor_num [OF this ancestor_up.prems(1,2)] have "x = b" using True ancestor_up.prems(4) by auto
    then show ?thesis using True ancestor_self by simp
  next
    case False
    then have "ancestor par y p" using ancestor_up.prems(3) ancestor_iff [of par b p y, OF ancestor_up.hyps(1)] by blast
    then show ?thesis using ancestor_up treeD [OF ancestor_up.prems(1) ancestor_up.hyps(1)] by simp
  qed
qed simp

lemma ancestor_entry: "tree par \<Longrightarrow> ancestor par x 0 \<longleftrightarrow> x = 0"
proof
  assume t: "tree par" and a: "ancestor par x 0"
  have "0 \<in> dom par" using t by (auto simp: tree_def)
  with ancestor_num [OF a t] ancestor_reach [OF t _ a] num_entry [of x] show "x = 0" by fastforce
qed (simp add: ancestor_self)

section \<open>Replacing a parent\<close>

lemma tree_update:
  assumes "tree par" "reachable E b" "b \<noteq> 0" "p \<in> dom par" "num b < num p"
  shows "tree (par(b \<mapsto> p))"
  using assms unfolding tree_def by auto

lemma ancestor_kept:
  assumes "ancestor par x y" "tree par" "y \<in> dom par" "\<not> ancestor par b y"
  shows "ancestor (par(b \<mapsto> p)) x y"
  using assms
proof (induction rule: ancestor.induct)
  case (ancestor_up y q x)
  have "y \<noteq> b" using ancestor_up.prems(3) ancestor_self by blast
  moreover have "\<not> ancestor par b q" using ancestor_up.prems(3) ancestor_up.hyps(1) ancestor.ancestor_up by blast
  ultimately have "ancestor (par(b \<mapsto> p)) x q" using ancestor_up.IH treeD [OF ancestor_up.prems(1) ancestor_up.hyps(1)] ancestor_up.prems(1) by blast
  moreover have "(par(b \<mapsto> p)) y = Some q" using \<open>y \<noteq> b\<close> ancestor_up.hyps(1) by simp
  ultimately show ?case using ancestor.ancestor_up by blast
qed (simp add: ancestor_self)

lemma ancestor_kept_back:
  assumes "ancestor (par(b \<mapsto> p)) x y" "tree par" "y \<in> dom par" "\<not> ancestor par b y"
  shows "ancestor par x y"
  using assms
proof (induction rule: ancestor.induct)
  case (ancestor_up y q x)
  have "y \<noteq> b" using ancestor_up.prems(3) ancestor_self by blast
  then have q: "par y = Some q" using ancestor_up.hyps(1) by simp
  moreover have "\<not> ancestor par b q" using ancestor_up.prems(3) q ancestor.ancestor_up by blast
  ultimately show ?case using ancestor_up treeD [OF ancestor_up.prems(1) q] ancestor.ancestor_up by blast
qed (simp add: ancestor_self)

text \<open>Only the nodes below \<open>b\<close> see the new parent of \<open>b\<close>.\<close>

lemma ancestor_above:
  assumes "tree par" "y \<in> dom par" "num b < num y"
  shows "ancestor (par(b \<mapsto> p)) x y \<longleftrightarrow> ancestor par x y"
proof -
  have "\<not> ancestor par b y" using ancestor_num [OF _ assms(1,2)] assms(3) by fastforce
  then show ?thesis using ancestor_kept ancestor_kept_back assms by blast
qed

lemma ancestor_below:
  assumes "tree par" "reachable E b" "b \<noteq> 0" "p \<in> dom par" "num b < num p" "ancestor par b y" "y \<in> dom par"
  shows "ancestor (par(b \<mapsto> p)) x y \<longleftrightarrow> ancestor par x y \<and> num x \<le> num b \<or> ancestor par x p"
proof -
  let ?par = "par(b \<mapsto> p)"
  have top: "ancestor ?par x b \<longleftrightarrow> x = b \<or> ancestor par x p" for x
    using ancestor_iff [of ?par b p x] ancestor_above [OF assms(1,4,5), of p x] by simp
  have low: "num y \<le> num b" if "ancestor par b y" "y \<in> dom par" for y using ancestor_num [OF that(1) assms(1) that(2)] by auto
  have high: "num b < num x" if "ancestor par x p" for x using ancestor_num [OF that assms(1,4)] assms(5) by auto
  show ?thesis
    using assms(6,7)
  proof (induction "num b - num y" arbitrary: y rule: less_induct)
    case less
    then obtain q where q: "par y = Some q" by blast
    show ?case
    proof (cases "y = b")
      case True
      have "ancestor par x b \<and> num x \<le> num b \<longleftrightarrow> x = b" using ancestor_num [of par x b] assms(1) less.prems True ancestor_self by fastforce
      then show ?thesis using top True by simp
    next
      case False
      then have up: "ancestor par b q" using less.prems(1) ancestor_iff [of par y q b, OF q] by blast
      have y: "y \<noteq> 0" using ancestor_entry [OF assms(1), of b] assms(3) less.prems(1) by (intro notI) simp
      have qd: "q \<in> dom par" "num y < num q" using treeD [OF assms(1) q] y by auto
      have "num q \<le> num b" using low [OF up qd(1)] .
      then have IH: "ancestor ?par x q \<longleftrightarrow> ancestor par x q \<and> num x \<le> num b \<or> ancestor par x p" using up qd by (intro less.hyps) linarith+
      have "num y \<le> num b" using low less.prems by blast
      moreover have "?par y = Some q" using q False by simp
      ultimately show ?thesis unfolding ancestor_iff [of ?par y q x, OF \<open>?par y = Some q\<close>] ancestor_iff [of par y q x, OF q] IH by blast
    qed
  qed
qed

section \<open>Soundness of the tree\<close>

text \<open>A walk down from \<open>x\<close> that never goes above the number of \<open>x\<close>.\<close>

definition low :: "nat \<Rightarrow> nat \<Rightarrow> bool" where
  "low x c \<longleftrightarrow> (\<exists>xs. walk E x xs c \<and> (\<forall>y\<in>set xs. num y \<le> num x))"

lemma low_self: "low x x"
  unfolding low_def using walk_here by fastforce

lemma low_step: "low x q \<Longrightarrow> b \<in> set (E q) \<Longrightarrow> num b \<le> num x \<Longrightarrow> low x b"
  unfolding low_def using walk_step by fastforce

lemma low_trans: "low x b \<Longrightarrow> low b c \<Longrightarrow> num b \<le> num x \<Longrightarrow> low x c"
proof -
  assume a: "low x b" "low b c" "num b \<le> num x"
  then obtain xs ys where w: "walk E x xs b" "walk E b ys c" "\<forall>y\<in>set xs. num y \<le> num x" "\<forall>y\<in>set ys. num y \<le> num b"
    by (auto simp: low_def)
  have "set (xs @ tl ys) \<subseteq> set xs \<union> set ys" by (cases ys) auto
  then show ?thesis unfolding low_def using walk_append [OF w(2,1)] w(3,4) a(3) by (meson UnE le_trans subsetD)
qed

lemma dominating_low:
  assumes "dominating E d c" "low b c" "num b < num d"
  shows "dominating E d b"
  unfolding dominating_def
proof (intro allI impI)
  fix xs
  assume xs: "walk E 0 xs b"
  obtain ys where ys: "walk E b ys c" "\<forall>y\<in>set ys. num y \<le> num b" using assms(2) by (auto simp: low_def)
  have "d \<in> set (xs @ tl ys)" using walk_append [OF ys(1) xs] assms(1) by (auto simp: dominating_def)
  moreover have "d \<notin> set (tl ys)" using ys(2) assms(3) by (cases ys) auto
  ultimately show "d \<in> set xs" by simp
qed

definition sound :: "(nat \<Rightarrow> nat option) \<Rightarrow> bool" where
  "sound par \<longleftrightarrow> tree par \<and> (\<forall>c\<in>dom par. \<forall>x. (ancestor par x c \<longrightarrow> low x c) \<and> (dominating E x c \<longrightarrow> ancestor par x c))"

text \<open>\<open>p\<close> is the nearest common ancestor of the predecessors of \<open>b\<close> that are in the tree.\<close>

definition meet :: "(nat \<Rightarrow> nat option) \<Rightarrow> nat \<Rightarrow> nat \<Rightarrow> bool" where
  "meet par b p \<longleftrightarrow> p \<in> dom par \<and> num b < num p \<and> (\<forall>x. ancestor par x p \<longleftrightarrow> (\<forall>q\<in>dom par. b \<in> set (E q) \<longrightarrow> ancestor par x q))"

lemma meet_dominator: "sound par \<Longrightarrow> meet par b p \<Longrightarrow> dominating E d b \<Longrightarrow> d \<noteq> b \<Longrightarrow> ancestor par d p"
  unfolding meet_def sound_def using dominating_step by blast

lemma sound_update:
  assumes s: "sound par" and b: "reachable E b" "b \<noteq> 0" and m: "meet par b p" and q: "q \<in> dom par" "b \<in> set (E q)" "num b < num q"
  shows "sound (par(b \<mapsto> p))"
proof -
  let ?par = "par(b \<mapsto> p)"
  have t: "tree par" and p: "p \<in> dom par" "num b < num p" using s m by (auto simp: sound_def meet_def)
  have pq: "ancestor par x q" if "ancestor par x p" for x using that m q by (auto simp: meet_def)
  have top: "ancestor ?par x b \<longleftrightarrow> x = b \<or> ancestor par x p" for x
    using ancestor_iff [of ?par b p x] ancestor_above [OF t p, of p x] by simp
  have high: "num b < num x" if "ancestor par x p" for x using ancestor_num [OF that t p(1)] p(2) by auto
  have lowb: "low x b" if "ancestor par x p" for x
    using s q pq [OF that] low_step [of x q b] high [OF that] by (auto simp: sound_def)
  have below: "ancestor ?par x c \<longleftrightarrow> ancestor par x c \<and> num x \<le> num b \<or> ancestor par x p" if "ancestor par b c" "c \<in> dom par" for x c
    by (rule ancestor_below [OF t b p that])
  have other: "ancestor ?par x c \<longleftrightarrow> ancestor par x c" if "\<not> ancestor par b c" "c \<in> dom par" for x c
    using that t ancestor_kept ancestor_kept_back by blast
  have lows: "low x c" if "ancestor ?par x c" "c \<in> dom par" "c \<noteq> b" for x c
  proof (cases "ancestor par b c")
    case True
    have "low b c" using s True that(2) by (auto simp: sound_def)
    then show ?thesis using below [OF True that(2)] that s lowb high low_trans [of x b c] by (auto simp: sound_def dest: less_imp_le)
  next
    case False
    then show ?thesis using other [OF False that(2)] that s by (auto simp: sound_def)
  qed
  have doms: "ancestor ?par d c" if "dominating E d c" "c \<in> dom par" "c \<noteq> b" for d c
  proof (cases "ancestor par b c")
    case True
    have "low b c" "ancestor par d c" using s True that by (auto simp: sound_def)
    moreover have "ancestor par d p" if "num b < num d"
      using meet_dominator [OF s m dominating_low [OF \<open>dominating E d c\<close> \<open>low b c\<close> that]] that by auto
    ultimately show ?thesis using below [OF True that(2)] by (meson not_le_imp_less)
  next
    case False
    then show ?thesis using other [OF False that(2)] that s by (auto simp: sound_def)
  qed
  have "low x b" if "ancestor ?par x b" for x using that lowb low_self unfolding top by blast
  moreover have "ancestor ?par d b" if "dominating E d b" for d using that meet_dominator [OF s m] unfolding top by blast
  ultimately show ?thesis
    unfolding sound_def using tree_update [OF t b p] lows doms by (metis dom_fun_upd insertE option.distinct(1))
qed

lemma exact_fixpoint:
  assumes "sound par" "\<And>b. reachable E b \<Longrightarrow> b \<in> dom par" "\<And>b. reachable E b \<Longrightarrow> b \<noteq> 0 \<Longrightarrow> \<exists>p. par b = Some p \<and> meet par b p" "reachable E b"
  shows "ancestor par d b \<longleftrightarrow> dominating E d b"
proof
  have t: "tree par" using assms(1) by (simp add: sound_def)
  have "ancestor par d b \<Longrightarrow> walk E a xs b \<Longrightarrow> a = 0 \<Longrightarrow> d \<in> set xs" for a xs b
  proof (rotate_tac, induction a xs b arbitrary: rule: walk.induct)
    case (walk_here a)
    then show ?case using ancestor_entry [OF t] by simp
  next
    case (walk_step a xs b c)
    then have "reachable E b" unfolding reachable_def by blast
    note r = this reachable_step [OF this walk_step.hyps(2)]
    show ?case
    proof (cases "c = 0 \<or> d = c")
      case True
      then show ?thesis using walk_step ancestor_entry [OF t] walk_ends [OF walk_step.hyps(1)] by auto
    next
      case False
      then obtain p where p: "par c = Some p" "meet par c p" using assms(3) r by blast
      then have "ancestor par d p" using walk_step.prems False ancestor_iff [of par c p d] by blast
      then have "ancestor par d b" using p(2) assms(2) [OF r(1)] walk_step.hyps(2) by (auto simp: meet_def)
      then show ?thesis using walk_step by simp
    qed
  qed
  then show "ancestor par d b \<Longrightarrow> dominating E d b" by (auto simp: dominating_def)
qed (use assms in \<open>auto simp: sound_def\<close>)

section \<open>Passes in descending order\<close>

text \<open>
  A tree left by a pass: the ancestors of a node are ancestors of each of its forward predecessors.  While the next pass
  runs, \<open>par\<close> is its tree once the nodes numbered \<open>i\<close> and more are done.
\<close>

definition settled :: "(nat \<Rightarrow> nat option) \<Rightarrow> bool" where
  "settled old \<longleftrightarrow> tree old \<and> (\<forall>b\<in>dom old - {0}. \<forall>w. reachable E w \<longrightarrow> b \<in> set (E w) \<longrightarrow> num b < num w \<longrightarrow>
     w \<in> dom old \<and> (\<forall>x. ancestor old x b \<longrightarrow> x = b \<or> ancestor old x w))"

definition raised :: "(nat \<Rightarrow> nat option) \<Rightarrow> bool" where
  "raised par \<longleftrightarrow> (\<forall>b p y. b \<noteq> 0 \<longrightarrow> par b = Some p \<longrightarrow> (\<forall>q\<in>dom par. b \<in> set (E q) \<longrightarrow> ancestor par y q) \<longrightarrow> num p \<le> num y)"

definition follows :: "(nat \<Rightarrow> nat option) \<Rightarrow> nat \<Rightarrow> (nat \<Rightarrow> nat option) \<Rightarrow> bool" where
  "follows old i par \<longleftrightarrow> (\<forall>u\<in>dom old. \<forall>t y. i \<le> num u \<longrightarrow> ancestor old t u \<longrightarrow> ancestor par y u \<longrightarrow> num t \<le> num y \<longrightarrow> ancestor par y t)"

definition swept :: "nat \<Rightarrow> (nat \<Rightarrow> nat option) \<Rightarrow> bool" where
  "swept i par \<longleftrightarrow> (\<forall>b w x. reachable E b \<longrightarrow> b \<noteq> 0 \<longrightarrow> i \<le> num b \<longrightarrow> reachable E w \<longrightarrow> b \<in> set (E w) \<longrightarrow> num b < num w \<longrightarrow>
     ancestor par x b \<longrightarrow> x = b \<or> ancestor par x w)"

definition covers :: "(nat \<Rightarrow> nat option) \<Rightarrow> nat \<Rightarrow> (nat \<Rightarrow> nat option) \<Rightarrow> bool" where
  "covers old i par \<longleftrightarrow> (\<forall>v. reachable E v \<longrightarrow> i \<le> num v \<longrightarrow> v \<in> dom par) \<and> dom old \<subseteq> dom par \<and> (\<forall>v. reachable E v \<longrightarrow> num v < i \<longrightarrow> par v = old v)"

definition sweep :: "(nat \<Rightarrow> nat option) \<Rightarrow> nat \<Rightarrow> (nat \<Rightarrow> nat option) \<Rightarrow> bool" where
  "sweep old i par \<longleftrightarrow> sound par \<and> raised par \<and> follows old i par \<and> swept i par \<and> covers old i par"

lemma sweep_facts:
  assumes "sweep old (Suc i) par" "reachable E c" "c \<noteq> 0" "num c = i"
  shows "tree par" "sound par" "raised par" "\<And>v. v \<in> dom par \<Longrightarrow> reachable E v" "\<And>v. reachable E v \<Longrightarrow> i < num v \<Longrightarrow> v \<in> dom par"
    "dom old \<subseteq> dom par" "par c = old c" "\<exists>q. q \<in> dom par \<and> reachable E q \<and> c \<in> set (E q) \<and> i < num q"
proof -
  show t: "tree par" "sound par" "raised par" using assms by (auto simp: sweep_def sound_def)
  show "v \<in> dom par \<Longrightarrow> reachable E v" for v using t treeD(1) by blast
  show d: "reachable E v \<Longrightarrow> i < num v \<Longrightarrow> v \<in> dom par" for v using assms(1) by (auto simp: sweep_def covers_def)
  show "dom old \<subseteq> dom par" "par c = old c" using assms by (auto simp: sweep_def covers_def)
  show "\<exists>q. q \<in> dom par \<and> reachable E q \<and> c \<in> set (E q) \<and> i < num q" using forward [OF assms(2,3)] assms(4) d by metis
qed

text \<open>The new parent of a node is above the old one, so every set of ancestors shrinks.\<close>

lemma parent_raised:
  assumes "sweep old (Suc i) par" "settled old" "reachable E c" "c \<noteq> 0" "num c = i" "meet par c p" "par c = Some a"
  shows "num a \<le> num p" "ancestor par y p \<Longrightarrow> ancestor par y a"
proof -
  note f = sweep_facts [OF assms(1,3-5)]
  obtain q where q: "q \<in> dom par" "reachable E q" "c \<in> set (E q)" "i < num q" using f(8) by blast
  have above: "num a \<le> num y" if "ancestor par y p" for y
    using f(3) assms(4,6,7) that unfolding raised_def meet_def by blast
  then show "num a \<le> num p" using ancestor_self by blast
  assume y: "ancestor par y p"
  have old: "old c = Some a" using f(7) assms(7) by simp
  note old = this domI [of old, OF this]
  have "ancestor old a c" using old(1) ancestor_up ancestor_self by blast
  moreover have "a \<noteq> c" using treeD(3) [OF f(1) assms(7)] assms(4) by auto
  ultimately have "q \<in> dom old" "ancestor old a q" using assms(2,4,5) old(2) q unfolding settled_def by blast+
  moreover have "ancestor par y q" using assms(6) q y by (auto simp: meet_def)
  ultimately show "ancestor par y a" using assms(1) above [OF y] q(4) unfolding sweep_def follows_def by (meson Suc_leI)
qed

lemma shrinks:
  assumes "sweep old (Suc i) par" "settled old" "reachable E c" "c \<noteq> 0" "num c = i" "meet par c p" "x \<in> dom par" "ancestor (par(c \<mapsto> p)) y x"
  shows "ancestor par y x"
proof (cases "ancestor par c x")
  case True
  note f = sweep_facts [OF assms(1,3-5)]
  have p: "p \<in> dom par" "num c < num p" using assms(6) by (auto simp: meet_def)
  obtain a where a: "par c = Some a" using ancestor_num [OF True f(1) assms(7)] by blast
  have "ancestor par y x \<or> ancestor par y p" using ancestor_below [OF f(1) assms(3,4) p True assms(7), of y] assms(8) by blast
  moreover have "ancestor par y x" if "ancestor par y p"
    using parent_raised(2) [OF assms(1-6) a that] ancestor_up [of par c a y] a ancestor_trans [OF True] by blast
  ultimately show ?thesis by blast
next
  case False
  then show ?thesis using ancestor_kept_back assms sweep_facts(1) [OF assms(1,3-5)] by blast
qed

text \<open>What giving block \<open>c\<close> the parent \<open>p\<close> changes: the ancestors of \<open>c\<close>, and of no block handled before it.\<close>

lemma sweep_update:
  assumes sw: "sweep old (Suc i) par" and c: "reachable E c" "c \<noteq> 0" "num c = i" and m: "meet par c p"
  shows "ancestor (par(c \<mapsto> p)) x c \<longleftrightarrow> x = c \<or> ancestor par x p"
    and "v \<in> dom par \<Longrightarrow> i < num v \<Longrightarrow> ancestor (par(c \<mapsto> p)) x v \<longleftrightarrow> ancestor par x v"
    and "reachable E v \<Longrightarrow> i \<le> num v \<Longrightarrow> v \<noteq> c \<Longrightarrow> i < num v"
proof -
  note f = sweep_facts [OF sw c]
  have p: "p \<in> dom par" "num c < num p" using m by (auto simp: meet_def)
  show "ancestor (par(c \<mapsto> p)) x c \<longleftrightarrow> x = c \<or> ancestor par x p"
    using ancestor_iff [of "par(c \<mapsto> p)" c p x] ancestor_above [OF f(1) p, of p x] by simp
  show "ancestor (par(c \<mapsto> p)) x v \<longleftrightarrow> ancestor par x v" if "v \<in> dom par" "i < num v"
    using ancestor_above [OF f(1) that(1)] that(2) c(3) by simp
  show "i < num v" if "reachable E v" "i \<le> num v" "v \<noteq> c" using num_inject [OF that(1) c(1)] that c(3) by fastforce
qed

lemma sweep_raised:
  assumes sw: "sweep old (Suc i) par" and old: "settled old" and c: "reachable E c" "c \<noteq> 0" "num c = i" and m: "meet par c p"
  shows "raised (par(c \<mapsto> p))"
  unfolding raised_def
proof (intro allI impI)
  note f = sweep_facts [OF sw c]
  have p: "p \<in> dom par" using m by (simp add: meet_def)
  fix b r y
  assume b: "b \<noteq> 0" "(par(c \<mapsto> p)) b = Some r" and all: "\<forall>q\<in>dom (par(c \<mapsto> p)). b \<in> set (E q) \<longrightarrow> ancestor (par(c \<mapsto> p)) y q"
  then have old_all: "\<forall>q\<in>dom par. b \<in> set (E q) \<longrightarrow> ancestor par y q" using shrinks [OF sw old c m] by simp
  show "num r \<le> num y"
  proof (cases "b = c")
    case True
    then have "ancestor par y p" using m old_all by (auto simp: meet_def)
    then show ?thesis using ancestor_num [OF _ f(1) p] b True by fastforce
  next
    case False
    then show ?thesis using f(3) b old_all unfolding raised_def by simp
  qed
qed

lemma sweep_follows:
  assumes sw: "sweep old (Suc i) par" and old: "settled old" and c: "reachable E c" "c \<noteq> 0" "num c = i" and m: "meet par c p"
  shows "follows old i (par(c \<mapsto> p))"
  unfolding follows_def
proof (intro ballI allI impI)
  note f = sweep_facts [OF sw c] and top = sweep_update(1) [OF sw c m] and same = sweep_update(2) [OF sw c m] and only = sweep_update(3) [OF sw c m]
  obtain q where q: "q \<in> dom par" "reachable E q" "c \<in> set (E q)" "i < num q" using f(8) by blast
  fix u t y
  assume u: "u \<in> dom old" "i \<le> num u" "ancestor old t u" "ancestor (par(c \<mapsto> p)) y u" "num t \<le> num y"
  have told: "tree old" using old by (simp add: settled_def)
  have t: "t \<in> dom old" "t = u \<or> num u < num t" using ancestor_num [OF u(3) told u(1)] by auto
  show "ancestor (par(c \<mapsto> p)) y t"
  proof (cases "t = u")
    case False
    have tp: "t \<in> dom par" "i < num t" using t False f(6) u(2) by auto
    have "\<exists>v\<in>dom old. i < num v \<and> ancestor old t v \<and> ancestor par y v"
    proof (cases "u = c")
      case True
      have "q \<in> dom old" "ancestor old t q" using old u(1,3) True False q c unfolding settled_def by blast+
      moreover have "ancestor par y p" using u(4,5) t False top [of y] True by fastforce
      then have "ancestor par y q" using m q by (auto simp: meet_def)
      ultimately show ?thesis using q(4) by blast
    next
      case False
      then have "i < num u" using only u(1,2) f(4,6) by blast
      then show ?thesis using u same f(6) by blast
    qed
    then have "ancestor par y t" using sw u(5) unfolding sweep_def follows_def by (meson Suc_leI)
    then show ?thesis using same [OF tp] by simp
  qed (use u in simp)
qed

lemma sweep_swept:
  assumes sw: "sweep old (Suc i) par" and c: "reachable E c" "c \<noteq> 0" "num c = i" and m: "meet par c p"
  shows "swept i (par(c \<mapsto> p))"
  unfolding swept_def
proof (intro allI impI)
  note f = sweep_facts [OF sw c] and top = sweep_update(1) [OF sw c m] and same = sweep_update(2) [OF sw c m] and only = sweep_update(3) [OF sw c m]
  fix b w x
  assume b: "reachable E b" "b \<noteq> 0" "i \<le> num b" "reachable E w" "b \<in> set (E w)" "num b < num w" "ancestor (par(c \<mapsto> p)) x b"
  have w: "w \<in> dom par" "i < num w" using f(5) b by auto
  show "x = b \<or> ancestor (par(c \<mapsto> p)) x w"
  proof (cases "b = c")
    case True
    then show ?thesis using b(5,7) top [of x] same [OF w] m w(1) by (auto simp: meet_def)
  next
    case False
    then have "i < num b" using only b by blast
    then show ?thesis using b same [OF w] same [of b x] f(5) sw unfolding sweep_def swept_def by (meson Suc_leI)
  qed
qed

lemma sweep_step:
  assumes sw: "sweep old (Suc i) par" and old: "settled old" and c: "reachable E c" "c \<noteq> 0" "num c = i" and m: "meet par c p"
  shows "sweep old i (par(c \<mapsto> p))"
proof -
  note f = sweep_facts [OF sw c]
  obtain q where q: "q \<in> dom par" "reachable E q" "c \<in> set (E q)" "i < num q" using f(8) by blast
  have "sound (par(c \<mapsto> p))" using sound_update [OF f(2) c(1,2) m] q c(3) by simp
  moreover have "v \<in> dom (par(c \<mapsto> p))" if "reachable E v" "i \<le> num v" for v
    using f(5) sweep_update(3) [OF sw c m that] that by (cases "v = c") auto
  then have "covers old i (par(c \<mapsto> p))" using sw f(6) c unfolding covers_def sweep_def by auto
  ultimately show ?thesis using sweep_raised [OF sw old c m] sweep_follows [OF sw old c m] sweep_swept [OF sw c m] by (simp add: sweep_def)
qed

lemma sweep_start:
  assumes "sound old" "raised old" "settled old"
  shows "sweep old (num 0) old"
proof -
  have t: "tree old" using assms(3) by (simp add: settled_def)
  have z: "0 \<in> dom old" using t by (simp add: tree_def domI)
  have r: "reachable E v" if "v \<in> dom old" for v using that treeD(1) [OF t] by blast
  have only: "v = 0" if "reachable E v" "num 0 \<le> num v" for v using num_entry [of v] that by fastforce
  have "follows old (num 0) old" unfolding follows_def
  proof (intro ballI allI impI)
    fix u t' y
    assume u: "u \<in> dom old" "num 0 \<le> num u" "ancestor old t' u" "ancestor old y u" "num t' \<le> num y"
    then have "u = 0" using only r by blast
    then show "ancestor old y t'" using u ancestor_entry [OF t] by simp
  qed
  moreover have "swept (num 0) old" unfolding swept_def using only by blast
  moreover have "covers old (num 0) old" unfolding covers_def using only z by blast
  ultimately show ?thesis using assms by (simp add: sweep_def)
qed

lemma sweep_end:
  assumes "sweep old 0 par"
  shows "sound par" "raised par" "settled par" "reachable E b \<Longrightarrow> b \<in> dom par"
proof -
  show s: "sound par" "raised par" and d: "reachable E b \<Longrightarrow> b \<in> dom par" for b using assms by (auto simp: sweep_def covers_def)
  have t: "tree par" using s by (simp add: sound_def)
  have "reachable E b" if "b \<in> dom par" for b using that t treeD(1) by blast
  then show "settled par" using assms t d unfolding settled_def sweep_def swept_def by blast
qed

lemma first_tree: "sound [0 \<mapsto> 0]" "raised [0 \<mapsto> 0]" "settled [0 \<mapsto> 0]"
proof -
  have t: "tree [0 \<mapsto> 0]" by (auto simp: tree_def split: if_splits)
  have "x = 0" if "dominating E x 0" for x using that walk_here [of E 0] by (auto simp: dominating_def)
  then show "sound [0 \<mapsto> 0]" using t ancestor_entry [OF t] low_self ancestor_self by (auto simp: sound_def split: if_splits)
  show "raised [0 \<mapsto> 0]" "settled [0 \<mapsto> 0]" using t by (auto simp: raised_def settled_def split: if_splits)
qed

section \<open>Progress\<close>

definition weight :: "nat \<Rightarrow> (nat \<Rightarrow> nat option) \<Rightarrow> nat" where
  "weight n par = (\<Sum>b<n. case par b of None \<Rightarrow> 0 | Some p \<Rightarrow> Suc (num p))"

lemma weight_bound:
  assumes "tree par" "num 0 < n"
  shows "weight n par \<le> n * n"
proof -
  have "(case par b of None \<Rightarrow> 0 | Some p \<Rightarrow> Suc (num p)) \<le> n" for b
  proof (cases "par b")
    case (Some p)
    then have "reachable E p" using treeD [OF assms(1)] by blast
    then have "num p \<le> num 0" using num_entry [of p] by (cases "p = 0") auto
    then show ?thesis using Some assms(2) by simp
  qed simp
  then show ?thesis unfolding weight_def using sum_bounded_above [of "{..<n}" "\<lambda>b. case par b of None \<Rightarrow> 0 | Some p \<Rightarrow> Suc (num p)" n] by simp
qed

lemma weight_update:
  assumes "sweep old (Suc i) par" "settled old" "reachable E c" "c \<noteq> 0" "num c = i" "meet par c p" "par c \<noteq> Some p" "c < n"
  shows "weight n par < weight n (par(c \<mapsto> p))"
proof -
  note f = sweep_facts [OF assms(1,3-5)]
  have "(case par c of None \<Rightarrow> 0 | Some p \<Rightarrow> Suc (num p)) < Suc (num p)"
  proof (cases "par c")
    case (Some a)
    have "num a \<noteq> num p" using num_inject [of a p] treeD(2) [OF f(1) Some] f(4) assms(6,7) Some by (auto simp: meet_def)
    then show ?thesis using parent_raised(1) [OF assms(1-6) Some] Some by simp
  qed simp
  then show ?thesis unfolding weight_def using assms(8) by (intro sum_strict_mono_ex1) auto
qed

end

section \<open>Blocks that cannot be avoided\<close>

text \<open>Every walk from the block that ends in a block without successors, or never ends, meets \<open>t\<close>; \<open>leaves b\<close> tells that
  the program may stop in \<open>b\<close>.\<close>

inductive inevitable :: "(nat \<Rightarrow> nat list) \<Rightarrow> (nat \<Rightarrow> bool) \<Rightarrow> nat \<Rightarrow> nat \<Rightarrow> bool" for E leaves t where
  inevitable_here: "inevitable E leaves t t"
| inevitable_step: "\<not> leaves b \<Longrightarrow> E b \<noteq> [] \<Longrightarrow> (\<And>c. c \<in> set (E b) \<Longrightarrow> inevitable E leaves t c) \<Longrightarrow> inevitable E leaves t b"

text \<open>
  In terms of walks: \<open>t\<close> is inevitable from \<open>s\<close> when no walk from \<open>s\<close> that avoids \<open>t\<close> comes to a place where it could
  stop, and none goes on forever.
\<close>

lemma walk_split: "walk E a xs c \<Longrightarrow> xs = [a] \<and> c = a \<or> (\<exists>b ys. b \<in> set (E a) \<and> walk E b ys c \<and> xs = a # ys)"
proof (induction rule: walk.induct)
  case (walk_step xs c d)
  then show ?case using walk.walk_here walk.walk_step by fastforce
qed simp

definition avoids :: "(nat \<Rightarrow> nat list) \<Rightarrow> nat \<Rightarrow> nat \<Rightarrow> (nat \<Rightarrow> nat) \<Rightarrow> bool" where
  "avoids E t s f \<longleftrightarrow> f 0 = s \<and> (\<forall>i. f (Suc i) \<in> set (E (f i)) \<and> f i \<noteq> t)"

lemma inevitable_sound:
  "inevitable E leaves t s \<Longrightarrow> (\<forall>xs b. walk E s xs b \<and> t \<notin> set xs \<longrightarrow> \<not> leaves b \<and> E b \<noteq> []) \<and> (\<forall>f. \<not> avoids E t s f)"
proof (induction rule: inevitable.induct)
  case inevitable_here
  then show ?case using walk_ends by (auto simp: avoids_def)
next
  case (inevitable_step b)
  have "\<not> leaves c \<and> E c \<noteq> []" if "walk E b xs c" "t \<notin> set xs" for xs c
    using walk_split [OF that(1)] that(2) inevitable_step by fastforce
  moreover have "\<not> avoids E t b f" for f
  proof
    assume f: "avoids E t b f"
    then have "avoids E t (f 1) (\<lambda>i. f (Suc i))" "f 1 \<in> set (E b)" by (auto simp: avoids_def)
    then show False using inevitable_step.IH by blast
  qed
  ultimately show ?case by blast
qed

lemma inevitable_complete:
  assumes stop: "\<And>xs b. walk E s xs b \<Longrightarrow> t \<notin> set xs \<Longrightarrow> \<not> leaves b \<and> E b \<noteq> []" and ever: "\<And>f. \<not> avoids E t s f"
  shows "inevitable E leaves t s"
proof (rule ccontr)
  assume no: "\<not> inevitable E leaves t s"
  define open_at where "open_at = (\<lambda>b. \<not> inevitable E leaves t b \<and> (\<exists>xs. walk E s xs b \<and> t \<notin> set xs))"
  have st: "s \<noteq> t" using no inevitable_here by blast
  have "open_at s" using no st walk_here [of E s] by (auto simp: open_at_def intro!: exI [of _ "[s]"])
  moreover have "\<exists>c. open_at c \<and> c \<in> set (E b)" if ob: "open_at b" for b
  proof -
    obtain xs where xs: "walk E s xs b" "t \<notin> set xs" and b: "\<not> inevitable E leaves t b" using ob by (auto simp: open_at_def)
    then obtain c where c: "c \<in> set (E b)" "\<not> inevitable E leaves t c" using stop [OF xs] inevitable_step [of leaves b E t] by blast
    then have "c \<noteq> t" using inevitable_here by blast
    then show ?thesis using c walk_step [OF xs(1) c(1)] xs(2) by (auto simp: open_at_def intro!: exI [of _ c] exI [of _ "xs @ [c]"])
  qed
  ultimately obtain f where f: "f 0 = s" "\<forall>i. open_at (f i) \<and> f (Suc i) \<in> set (E (f i))"
    using dependent_nat_choice [of "\<lambda>i b. open_at b \<and> (i = 0 \<longrightarrow> b = s)" "\<lambda>i b c. c \<in> set (E b)"] by auto
  have "f i \<noteq> t" for i using f(2) walk_ends unfolding open_at_def by blast
  then show False using ever [of f] f by (simp add: avoids_def)
qed

lemma inevitable_iff:
  "inevitable E leaves t s \<longleftrightarrow> (\<forall>xs b. walk E s xs b \<and> t \<notin> set xs \<longrightarrow> \<not> leaves b \<and> E b \<noteq> []) \<and> (\<forall>f. \<not> avoids E t s f)"
  using inevitable_sound inevitable_complete by blast

end
