(* ===== verification/Hlsl_Dominance.thy ===== *)
theory Hlsl_Dominance
  imports Hlsl_Cfg Flow_Graph
begin

text \<open>
  The dominators of a built graph: the depth-first numbering, the convergence of the passes to the immediate dominators,
  the frontiers, and the queries on them.
\<close>

section \<open>A graph as lists of edges\<close>

definition slice_of :: "cells \<Rightarrow> nat \<Rightarrow> nat \<Rightarrow> nat list" where
  "slice_of cs start len = map (\<lambda>i. nat (the (cs ! (start + i)))) [0..<len]"

definition slice_ok :: "nat \<Rightarrow> cells \<Rightarrow> nat \<Rightarrow> int \<Rightarrow> bool" where
  "slice_ok n cs start len \<longleftrightarrow> 0 \<le> len \<and> start + nat len \<le> length cs \<and> (\<forall>i<nat len. \<exists>v<n. cs ! (start + i) = Some (int v))"

definition block_total :: "hlsl_control_flow_graph \<Rightarrow> nat" where "block_total cfg = nat (cfg_block_count cfg)"

definition blk :: "hlsl_control_flow_graph \<Rightarrow> nat \<Rightarrow> hlsl_basic_block" where "blk cfg b = the (cfg_blocks cfg) ! b"

definition succs :: "hlsl_control_flow_graph \<Rightarrow> nat \<Rightarrow> nat list" where
  "succs cfg b = (if b < block_total cfg then slice_of (the (cfg_successor_storage cfg)) (bb_successors (blk cfg b)) (nat (bb_successor_count (blk cfg b))) else [])"

definition preds :: "hlsl_control_flow_graph \<Rightarrow> nat \<Rightarrow> nat list" where
  "preds cfg b = (if b < block_total cfg then slice_of (the (cfg_predecessor_storage cfg)) (bb_predecessors (blk cfg b)) (nat (bb_predecessor_count (blk cfg b))) else [])"

definition graph_ok :: "hlsl_control_flow_graph \<Rightarrow> bool" where
  "graph_ok cfg \<longleftrightarrow> cfg_blocks cfg \<noteq> None \<and> cfg_successor_storage cfg \<noteq> None \<and> cfg_predecessor_storage cfg \<noteq> None \<and>
     0 < cfg_block_count cfg \<and> block_total cfg \<le> length (the (cfg_blocks cfg)) \<and>
     (\<forall>b<block_total cfg. slice_ok (block_total cfg) (the (cfg_successor_storage cfg)) (bb_successors (blk cfg b)) (bb_successor_count (blk cfg b)) \<and>
        slice_ok (block_total cfg) (the (cfg_predecessor_storage cfg)) (bb_predecessors (blk cfg b)) (bb_predecessor_count (blk cfg b)) \<and>
        distinct (succs cfg b) \<and> distinct (preds cfg b) \<and> set (preds cfg b) = {p. p < block_total cfg \<and> b \<in> set (succs cfg p)})"

lemma counting_int: "counting 0 (int m) = map int [0..<m]"
  by (simp add: counting_def)

lemma at_int [simp]: "i < length xs \<Longrightarrow> at xs (int i) = Done (xs ! i)"
  by (simp add: at_def)

lemma put_int [simp]: "i < length xs \<Longrightarrow> put xs (int i) v = Done (xs[i := v])"
  by (simp add: put_def)

lemma cell_slice: "slice_ok n cs start len \<Longrightarrow> i < nat len \<Longrightarrow> cell cs (int start + int i) = Done (int (slice_of cs start (nat len) ! i))"
  by (auto simp: slice_ok_def cell_def slice_of_def at_def nat_add_distrib)

lemma length_slice [simp]: "length (slice_of cs start len) = len"
  by (simp add: slice_of_def)

lemma slice_member: "slice_ok n cs start len \<Longrightarrow> v \<in> set (slice_of cs start (nat len)) \<Longrightarrow> v < n"
  by (auto simp: slice_ok_def slice_of_def)

lemma graph_okD:
  assumes "graph_ok cfg"
  shows "cfg_block_count cfg = int (block_total cfg)" "0 < block_total cfg"
    "b < block_total cfg \<Longrightarrow> bb_successor_count (blk cfg b) = int (length (succs cfg b))"
    "b < block_total cfg \<Longrightarrow> bb_predecessor_count (blk cfg b) = int (length (preds cfg b))"
    "distinct (succs cfg b)" "distinct (preds cfg b)" "b < block_total cfg \<Longrightarrow> p \<in> set (preds cfg b) \<longleftrightarrow> p < block_total cfg \<and> b \<in> set (succs cfg p)"
    "s \<in> set (succs cfg b) \<Longrightarrow> s < block_total cfg \<and> b < block_total cfg"
proof -
  let ?n = "block_total cfg"
  have sl: "slice_ok ?n (the (cfg_successor_storage cfg)) (bb_successors (blk cfg b)) (bb_successor_count (blk cfg b))"
    "slice_ok ?n (the (cfg_predecessor_storage cfg)) (bb_predecessors (blk cfg b)) (bb_predecessor_count (blk cfg b))" if "b < ?n" for b
    using assms that by (auto simp: graph_ok_def)
  show "cfg_block_count cfg = int ?n" "0 < ?n" using assms by (auto simp: graph_ok_def block_total_def)
  show "b < ?n \<Longrightarrow> bb_successor_count (blk cfg b) = int (length (succs cfg b))" "b < ?n \<Longrightarrow> bb_predecessor_count (blk cfg b) = int (length (preds cfg b))"
    using sl by (simp_all add: slice_ok_def succs_def preds_def)
  show "distinct (succs cfg b)" "distinct (preds cfg b)" using assms by (cases "b < ?n"; auto simp: graph_ok_def succs_def preds_def)+
  show "b < ?n \<Longrightarrow> p \<in> set (preds cfg b) \<longleftrightarrow> p < ?n \<and> b \<in> set (succs cfg p)" using assms by (auto simp: graph_ok_def)
  show "s \<in> set (succs cfg b) \<Longrightarrow> s < ?n \<and> b < ?n" using slice_member [OF sl(1)] by (auto simp: succs_def split: if_splits)
qed

lemma block_at_ok: "graph_ok cfg \<Longrightarrow> b < block_total cfg \<Longrightarrow> block_at cfg (int b) = Done (blk cfg b)"
  by (auto simp: graph_ok_def block_at_def blk_def)

lemma successor_at_ok:
  assumes "graph_ok cfg" "b < block_total cfg" "i < length (succs cfg b)"
  shows "successor_at cfg (blk cfg b) (int i) = Done (int (succs cfg b ! i))"
proof -
  have sl: "slice_ok (block_total cfg) (the (cfg_successor_storage cfg)) (bb_successors (blk cfg b)) (bb_successor_count (blk cfg b))"
    and st: "cfg_successor_storage cfg = Some (the (cfg_successor_storage cfg))" using assms(1,2) by (auto simp: graph_ok_def)
  show ?thesis unfolding successor_at_def by (subst st) (use assms cell_slice [OF sl] in \<open>simp add: succs_def\<close>)
qed

lemma predecessor_at_ok:
  assumes "graph_ok cfg" "b < block_total cfg" "i < length (preds cfg b)"
  shows "predecessor_at cfg (blk cfg b) (int i) = Done (int (preds cfg b ! i))"
proof -
  have sl: "slice_ok (block_total cfg) (the (cfg_predecessor_storage cfg)) (bb_predecessors (blk cfg b)) (bb_predecessor_count (blk cfg b))"
    and st: "cfg_predecessor_storage cfg = Some (the (cfg_predecessor_storage cfg))" using assms(1,2) by (auto simp: graph_ok_def)
  show ?thesis unfolding predecessor_at_def by (subst st) (use assms cell_slice [OF sl] in \<open>simp add: preds_def\<close>)
qed

lemma ofold_nth: "(\<And>i s. i < length xs \<Longrightarrow> f (int i) s = g (xs ! i) s) \<Longrightarrow> ofold f (counting 0 (int (length xs))) s = ofold g xs s"
proof -
  assume a: "\<And>i s. i < length xs \<Longrightarrow> f (int i) s = g (xs ! i) s"
  have "ofold f (map int [k..<length xs]) s = ofold g (drop k xs) s" if "k \<le> length xs" for k s
    using that
  proof (induction "length xs - k" arbitrary: k s)
    case (Suc m)
    then have "k < length xs" by simp
    with Suc a [of k] show ?case by (simp add: upt_conv_Cons Cons_nth_drop_Suc [symmetric] del: upt_Suc cong: obind_cong)
  qed simp
  from this [of 0] show ?thesis by (simp add: counting_int)
qed

text \<open>A loop over the predecessors of a block is a loop over their list.\<close>

lemma fold_predecessors:
  assumes "graph_ok cfg" "b < block_total cfg"
  shows "ofold (\<lambda>e s. obind (predecessor_at cfg (blk cfg b) e) (\<lambda>p. g p s)) (counting 0 (bb_predecessor_count (blk cfg b))) s = ofold (\<lambda>p. g (int p)) (preds cfg b) s"
  unfolding graph_okD(4) [OF assms] by (rule ofold_nth) (simp add: predecessor_at_ok assms)

lemma reachable_block: "graph_ok cfg \<Longrightarrow> reachable (succs cfg) b \<Longrightarrow> b < block_total cfg"
proof -
  assume ok: "graph_ok cfg" and "reachable (succs cfg) b"
  then obtain xs where "walk (succs cfg) 0 xs b" by (auto simp: reachable_def)
  then show ?thesis using graph_okD(2,8) [OF ok] by (cases rule: walk.cases) auto
qed

section \<open>Depth-first numbering\<close>

text \<open>The blocks on the stack with the number of successors passed, the visited blocks, the finished ones in order.\<close>

definition seen :: "bool list \<Rightarrow> nat set" where "seen vis = {v. v < length vis \<and> vis ! v}"

definition finished_ok :: "(nat \<Rightarrow> nat list) \<Rightarrow> nat set \<Rightarrow> nat list \<Rightarrow> bool" where
  "finished_ok E gray po \<longleftrightarrow> (\<forall>i<length po. po ! i \<noteq> 0 \<longrightarrow> (\<exists>j<length po. i < j \<and> po ! i \<in> set (E (po ! j))) \<or> (\<exists>b\<in>gray. po ! i \<in> set (E b)))"

fun linked :: "(nat \<Rightarrow> nat list) \<Rightarrow> (nat \<times> nat) list \<Rightarrow> bool" where
  "linked E [] = True"
| "linked E [(b, _)] = (b = 0)"
| "linked E ((b, _) # (c, i) # rest) = (b \<in> set (E c) \<and> linked E ((c, i) # rest))"

definition frames_ok :: "(nat \<Rightarrow> nat list) \<Rightarrow> nat set \<Rightarrow> (nat \<times> nat) list \<Rightarrow> bool" where
  "frames_ok E V st \<longleftrightarrow> (\<forall>(b, i)\<in>set st. i \<le> length (E b) \<and> set (take i (E b)) \<subseteq> V)"

definition explored :: "(nat \<Rightarrow> nat list) \<Rightarrow> nat set \<Rightarrow> nat list \<Rightarrow> bool" where
  "explored E V po \<longleftrightarrow> (\<forall>b\<in>set po. set (E b) \<subseteq> V) \<and> (\<forall>b\<in>V. reachable E b)"

definition dfs_inv :: "(nat \<Rightarrow> nat list) \<Rightarrow> nat \<Rightarrow> (nat \<times> nat) list \<Rightarrow> bool list \<Rightarrow> nat list \<Rightarrow> bool" where
  "dfs_inv E n st vis po \<longleftrightarrow> length vis = n \<and> distinct (map fst st @ po) \<and> seen vis = set (map fst st) \<union> set po \<and>
     frames_ok E (seen vis) st \<and> explored E (seen vis) po \<and> finished_ok E (set (map fst st)) po \<and> linked E st \<and> (st = [] \<longrightarrow> po \<noteq> [] \<and> last po = 0)"

lemma frames_ok_Cons: "frames_ok E V ((b, i) # rest) \<longleftrightarrow> i \<le> length (E b) \<and> set (take i (E b)) \<subseteq> V \<and> frames_ok E V rest"
  by (simp add: frames_ok_def)

lemma frames_ok_mono: "frames_ok E V st \<Longrightarrow> V \<subseteq> W \<Longrightarrow> frames_ok E W st"
  by (fastforce simp: frames_ok_def)

lemma dfs_invD:
  assumes "dfs_inv E n st vis po"
  shows "length vis = n" "distinct (map fst st @ po)" "seen vis = set (map fst st) \<union> set po" "frames_ok E (seen vis) st" "explored E (seen vis) po"
    "finished_ok E (set (map fst st)) po" "linked E st" "st = [] \<Longrightarrow> po \<noteq> [] \<and> last po = 0"
  using assms unfolding dfs_inv_def by blast+

definition potential :: "(nat \<Rightarrow> nat list) \<Rightarrow> nat \<Rightarrow> (nat \<times> nat) list \<Rightarrow> bool list \<Rightarrow> nat" where
  "potential E n st vis = sum_list (map (\<lambda>(b, i). length (E b) - i + 1) st) + (\<Sum>v\<in>{..<n} - seen vis. length (E v) + 1)"

lemma linked_tl: "linked E ((b, i) # rest) \<Longrightarrow> linked E rest"
  by (cases rest) auto

lemma linked_parent: "linked E ((b, i) # rest) \<Longrightarrow> b = 0 \<and> rest = [] \<or> (\<exists>c\<in>set (map fst rest). b \<in> set (E c))"
  by (cases rest) auto

lemma linked_step: "linked E ((b, i) # rest) \<longleftrightarrow> linked E ((b, j) # rest)"
  by (cases rest) auto

lemma seen_bound: "dfs_inv E n st vis po \<Longrightarrow> length st + length po \<le> n"
proof -
  assume a: "dfs_inv E n st vis po"
  have "length st + length po = card (seen vis)"
    using a distinct_card [of "map fst st @ po"] by (simp add: dfs_inv_def)
  also have "\<dots> \<le> card {..<n}" using a by (intro card_mono) (auto simp: dfs_inv_def seen_def)
  finally show ?thesis by simp
qed

lemma finished_pop:
  assumes "finished_ok E (insert b gray) po" "b = 0 \<or> (\<exists>c\<in>gray. b \<in> set (E c))"
  shows "finished_ok E gray (po @ [b])"
  unfolding finished_ok_def
proof (intro allI impI)
  fix i
  assume i: "i < length (po @ [b])" "(po @ [b]) ! i \<noteq> 0"
  show "(\<exists>j<length (po @ [b]). i < j \<and> (po @ [b]) ! i \<in> set (E ((po @ [b]) ! j))) \<or> (\<exists>b'\<in>gray. (po @ [b]) ! i \<in> set (E b'))"
  proof (cases "i = length po")
    case False
    then have "i < length po" using i by simp
    then consider j where "j < length po" "i < j" "po ! i \<in> set (E (po ! j))" | "po ! i \<in> set (E b)" | "\<exists>c\<in>gray. po ! i \<in> set (E c)"
      using assms(1) i unfolding finished_ok_def by (metis insert_iff nth_append)
    then show ?thesis
    proof cases
      case (1 j)
      then show ?thesis using \<open>i < length po\<close> by (intro disjI1 exI [of _ j]) (simp add: nth_append)
    next
      case 2
      then show ?thesis using \<open>i < length po\<close> by (intro disjI1 exI [of _ "length po"]) (simp add: nth_append)
    qed (use \<open>i < length po\<close> in \<open>simp add: nth_append\<close>)
  qed (use assms(2) i in simp)
qed

lemma finished_more: "finished_ok E gray po \<Longrightarrow> gray \<subseteq> gray' \<Longrightarrow> finished_ok E gray' po"
  unfolding finished_ok_def by blast

lemma dfs_pop:
  assumes "dfs_inv E n ((b, length (E b)) # rest) vis po"
  shows "dfs_inv E n rest vis (po @ [b])" "potential E n ((b, length (E b)) # rest) vis = potential E n rest vis + 1"
proof -
  have l: "linked E ((b, length (E b)) # rest)" and f: "finished_ok E (insert b (set (map fst rest))) po" using assms by (simp_all add: dfs_inv_def)
  from linked_parent [OF l] have "finished_ok E (set (map fst rest)) (po @ [b])" "rest = [] \<Longrightarrow> b = 0" using finished_pop [OF f] by auto
  moreover have "explored E (seen vis) (po @ [b])" "frames_ok E (seen vis) rest" using dfs_invD(4,5) [OF assms] unfolding explored_def frames_ok_Cons by simp_all
  moreover have "seen vis = set (map fst rest) \<union> set (po @ [b])" "distinct (map fst rest @ po @ [b])" using dfs_invD(2,3) [OF assms] by auto
  ultimately show "dfs_inv E n rest vis (po @ [b])"
    unfolding dfs_inv_def using dfs_invD(1) [OF assms] linked_tl [OF l] by simp
  show "potential E n ((b, length (E b)) # rest) vis = potential E n rest vis + 1" by (simp add: potential_def)
qed

lemma dfs_skip:
  assumes "dfs_inv E n ((b, i) # rest) vis po" "i < length (E b)" "E b ! i \<in> seen vis"
  shows "dfs_inv E n ((b, Suc i) # rest) vis po" "potential E n ((b, i) # rest) vis = potential E n ((b, Suc i) # rest) vis + 1"
proof -
  have "frames_ok E (seen vis) ((b, Suc i) # rest)" using dfs_invD(4) [OF assms(1)] assms(2,3) unfolding frames_ok_Cons by (simp add: take_Suc_conv_app_nth)
  then show "dfs_inv E n ((b, Suc i) # rest) vis po"
    using dfs_invD [OF assms(1)] linked_step [of E b i rest "Suc i"] unfolding dfs_inv_def list.map fst_conv by blast
  show "potential E n ((b, i) # rest) vis = potential E n ((b, Suc i) # rest) vis + 1" using assms(2) by (simp add: potential_def)
qed

lemma seen_update: "s < length vis \<Longrightarrow> seen (vis[s := True]) = insert s (seen vis)"
  by (auto simp: seen_def nth_list_update)

lemma dfs_push:
  assumes inv: "dfs_inv E n ((b, i) # rest) vis po" and i: "i < length (E b)" and s: "s = E b ! i" "s < n" "s \<notin> seen vis"
  shows "dfs_inv E n ((s, 0) # (b, Suc i) # rest) (vis[s := True]) po"
    "potential E n ((b, i) # rest) vis = potential E n ((s, 0) # (b, Suc i) # rest) (vis[s := True]) + 1"
proof -
  have len: "length vis = n" and V: "seen vis = insert b (set (map fst rest)) \<union> set po" using dfs_invD(1,3) [OF inv] by simp_all
  have sn: "seen (vis[s := True]) = insert s (seen vis)" using s(2) len by (simp add: seen_update)
  have "reachable E b" using dfs_invD(5) [OF inv] V unfolding explored_def by blast
  then have "reachable E s" using i s(1) reachable_step by simp
  then have "explored E (insert s (seen vis)) po" using dfs_invD(5) [OF inv] unfolding explored_def by blast
  moreover have "finished_ok E (insert s (insert b (set (map fst rest)))) po"
    by (rule finished_more [OF dfs_invD(6) [OF inv]]) auto
  moreover have "frames_ok E (insert s (seen vis)) ((s, 0) # (b, Suc i) # rest)"
    using dfs_invD(4) [OF inv] i s(1) frames_ok_mono [of E "seen vis" rest "insert s (seen vis)"] unfolding frames_ok_Cons by (auto simp: take_Suc_conv_app_nth)
  moreover have "linked E ((s, 0) # (b, Suc i) # rest)" using dfs_invD(7) [OF inv] i s(1) linked_step [of E b i rest "Suc i"] by simp
  moreover have "distinct (map fst ((s, 0) # (b, Suc i) # rest) @ po)" using dfs_invD(2) [OF inv] s(3) unfolding V by simp
  ultimately show "dfs_inv E n ((s, 0) # (b, Suc i) # rest) (vis[s := True]) po"
    unfolding dfs_inv_def sn using len V by simp
  have "(\<Sum>v\<in>{..<n} - seen vis. length (E v) + 1) = (length (E s) + 1) + (\<Sum>v\<in>{..<n} - seen vis - {s}. length (E v) + 1)"
    using s by (intro sum.remove) auto
  moreover have "{..<n} - seen vis - {s} = {..<n} - insert s (seen vis)" by auto
  ultimately show "potential E n ((b, i) # rest) vis = potential E n ((s, 0) # (b, Suc i) # rest) (vis[s := True]) + 1"
    using i by (simp add: potential_def sn)
qed

definition dfs_repr :: "(nat \<times> nat) list \<Rightarrow> bool list \<Rightarrow> nat list \<Rightarrow> dfs_state" where
  "dfs_repr st vis po = \<lparr>df_stack = map (\<lambda>(b, i). (int b, int i)) st, df_visited = vis, df_postorder = map int po\<rparr>"

lemma dfs_turn:
  assumes ok: "graph_ok cfg" and inv: "dfs_inv (succs cfg) (block_total cfg) ((b, i) # rest) vis po"
  obtains st' vis' po' where "dfs_step cfg (int b) (int i) (map (\<lambda>(b, i). (int b, int i)) rest) (dfs_repr ((b, i) # rest) vis po) = Done (dfs_repr st' vis' po')"
    "dfs_inv (succs cfg) (block_total cfg) st' vis' po'"
    "potential (succs cfg) (block_total cfg) ((b, i) # rest) vis = potential (succs cfg) (block_total cfg) st' vis' + 1"
proof -
  let ?E = "succs cfg" and ?n = "block_total cfg"
  note d = dfs_invD [OF inv]
  have b: "b < ?n" using d(1,3) by (auto simp: seen_def)
  note blk = block_at_ok [OF ok b]
  have cnt: "bb_successor_count (blk cfg b) = int (length (?E b))" by (rule graph_okD(3) [OF ok b])
  have i: "i \<le> length (?E b)" using d(4) by (simp add: frames_ok_Cons)
  have bound: "Suc (length rest + length po) \<le> ?n" using seen_bound [OF inv] by simp
  have total: "nat (cfg_block_count cfg) = ?n" by (simp add: block_total_def)
  show ?thesis
  proof (cases "i = length (?E b)")
    case True
    have "dfs_step cfg (int b) (int i) (map (\<lambda>(b, i). (int b, int i)) rest) (dfs_repr ((b, i) # rest) vis po) = Done (dfs_repr rest vis (po @ [b]))"
      using bound by (simp add: dfs_step_def blk cnt True total dfs_repr_def)
    then show ?thesis using dfs_pop [of ?E ?n b rest vis po] inv True by (intro that) auto
  next
    case False
    then have less: "i < length (?E b)" using i by simp
    let ?s = "?E b ! i"
    have s: "?s < ?n" using graph_okD(8) [OF ok nth_mem [OF less]] by simp
    note succ = successor_at_ok [OF ok b less]
    show ?thesis
    proof (cases "vis ! ?s")
      case True
      have "dfs_step cfg (int b) (int i) (map (\<lambda>(b, i). (int b, int i)) rest) (dfs_repr ((b, i) # rest) vis po) = Done (dfs_repr ((b, Suc i) # rest) vis po)"
        using s d(1) True False by (simp add: dfs_step_def blk cnt succ dfs_repr_def Let_def add.commute)
      moreover have "?s \<in> seen vis" using True s d(1) by (simp add: seen_def)
      ultimately show ?thesis using dfs_skip [OF inv less] by (intro that) auto
    next
      case False
      then have unseen: "?s \<notin> seen vis" by (simp add: seen_def)
      note push = dfs_push [OF inv less refl s unseen]
      have "Suc (Suc (length rest)) \<le> ?n" using seen_bound [OF push(1)] by simp
      then have "dfs_step cfg (int b) (int i) (map (\<lambda>(b, i). (int b, int i)) rest) (dfs_repr ((b, i) # rest) vis po) =
          Done (dfs_repr ((?s, 0) # (b, Suc i) # rest) (vis[?s := True]) po)"
        using s d(1) False \<open>i \<noteq> length (?E b)\<close> by (simp add: dfs_step_def blk cnt succ dfs_repr_def Let_def add.commute total)
      then show ?thesis using push by (intro that) auto
    qed
  qed
qed

lemma dfs_loop_ok:
  assumes "graph_ok cfg"
  shows "dfs_inv (succs cfg) (block_total cfg) st vis po \<Longrightarrow> potential (succs cfg) (block_total cfg) st vis < fuel \<Longrightarrow>
    \<exists>vis' po'. dfs_loop fuel cfg (dfs_repr st vis po) = Done (dfs_repr [] vis' po') \<and> dfs_inv (succs cfg) (block_total cfg) [] vis' po'"
proof (induction fuel arbitrary: st vis po)
  case (Suc fuel)
  show ?case
  proof (cases st)
    case Nil
    then show ?thesis using Suc.prems by (simp add: dfs_repr_def)
  next
    case (Cons f rest)
    obtain b i where f: "f = (b, i)" by force
    have inv: "dfs_inv (succs cfg) (block_total cfg) ((b, i) # rest) vis po" using Suc.prems(1) Cons f by simp
    obtain st' vis' po' where step: "dfs_step cfg (int b) (int i) (map (\<lambda>(b, i). (int b, int i)) rest) (dfs_repr ((b, i) # rest) vis po) = Done (dfs_repr st' vis' po')"
      "dfs_inv (succs cfg) (block_total cfg) st' vis' po'"
      "potential (succs cfg) (block_total cfg) ((b, i) # rest) vis = potential (succs cfg) (block_total cfg) st' vis' + 1"
      by (rule dfs_turn [OF assms inv])
    have "dfs_loop (Suc fuel) cfg (dfs_repr st vis po) = dfs_loop fuel cfg (dfs_repr st' vis' po')"
      using step(1) Cons f by (simp add: dfs_repr_def)
    then show ?thesis using Suc.IH [OF step(2)] step(3) Suc.prems(2) Cons f by simp
  qed
qed simp

text \<open>What the numbering provides.\<close>

definition postorder_of :: "(nat \<Rightarrow> nat list) \<Rightarrow> nat list \<Rightarrow> bool" where
  "postorder_of E po \<longleftrightarrow> distinct po \<and> set po = {b. reachable E b} \<and> po \<noteq> [] \<and> last po = 0 \<and>
     (\<forall>i<length po. po ! i \<noteq> 0 \<longrightarrow> (\<exists>j<length po. i < j \<and> po ! i \<in> set (E (po ! j))))"

lemma dfs_result:
  assumes "dfs_inv E n [] vis po"
  shows "postorder_of E po"
proof -
  note d = dfs_invD [OF assms]
  have "0 \<in> set po" using d(8) last_in_set [of po] by auto
  have "b \<in> set po" if "walk E a xs b" "a = 0" for a xs b
    using that d(3,5) \<open>0 \<in> set po\<close> by (induction rule: walk.induct) (auto simp: explored_def)
  then have "set po = {b. reachable E b}" using d(3,5) by (auto simp: explored_def reachable_def)
  then show ?thesis using d(2,6,8) by (simp add: postorder_of_def finished_ok_def)
qed

lemma dfs_fuel_ok:
  assumes ok: "graph_ok cfg"
  shows "potential (succs cfg) (block_total cfg) [(0, 0)] ((replicate (block_total cfg) False)[0 := True]) < dfs_fuel cfg"
proof -
  let ?E = "succs cfg" and ?n = "block_total cfg"
  have n: "0 < ?n" by (rule graph_okD(2) [OF ok])
  have seen: "seen ((replicate ?n False)[0 := True]) = {0}" using n by (auto simp: seen_def nth_list_update)
  have "(\<Sum>v\<in>{..<?n}. length (?E v) + 1) = (length (?E 0) + 1) + (\<Sum>v\<in>{..<?n} - {0}. length (?E v) + 1)" using n by (intro sum.remove) auto
  then have "potential ?E ?n [(0, 0)] ((replicate ?n False)[0 := True]) = (\<Sum>v<?n. length (?E v) + 1)" by (simp add: potential_def seen)
  also have "\<dots> = (\<Sum>v<?n. length (?E v)) + ?n" by (subst sum.distrib) simp
  also have "(\<Sum>v<?n. length (?E v)) = sum_list (map (\<lambda>b. nat (bb_successor_count b)) (take ?n (the (cfg_blocks cfg))))"
    using ok graph_okD(3) [OF ok] by (auto simp: graph_ok_def sum_list_sum_nth blk_def min_def lessThan_atLeast0 intro!: sum.cong)
  finally show ?thesis using ok by (auto simp: dfs_fuel_def graph_ok_def block_total_def)
qed

section \<open>The numbering of a graph\<close>

definition num_of :: "nat list \<Rightarrow> nat \<Rightarrow> nat" where
  "num_of po b = length (takeWhile (\<lambda>x. x \<noteq> b) po)"

lemma num_of_nth: "distinct po \<Longrightarrow> i < length po \<Longrightarrow> num_of po (po ! i) = i"
  unfolding num_of_def by (subst takeWhile_eq_take_P_nth [of i]) (auto simp: nth_eq_iff_index_eq)

lemma postorder_entry: "postorder_of E po \<Longrightarrow> num_of po 0 = length po - 1 \<and> po \<noteq> []"
  using num_of_nth [of po "length po - 1"] last_conv_nth [of po] by (simp add: postorder_of_def)

lemma postorder_numbers:
  assumes "postorder_of E po"
  shows "numbered_graph E (num_of po)"
proof
  note d = assms [unfolded postorder_of_def]
  have idx: "\<exists>i<length po. b = po ! i \<and> num_of po b = i" if "reachable E b" for b
    using d that num_of_nth [of po] by (metis in_set_conv_nth mem_Collect_eq)
  show "a = b" if "reachable E a" "reachable E b" "num_of po a = num_of po b" for a b using idx [OF that(1)] idx [OF that(2)] that(3) by auto
  note zero = conjunct1 [OF postorder_entry [OF assms]]
  fix b
  assume b: "reachable E b" "b \<noteq> 0"
  then obtain i where i: "i < length po" "b = po ! i" "num_of po b = i" using idx by blast
  then obtain j where j: "j < length po" "i < j" "b \<in> set (E (po ! j))" using d b by blast
  then show "num_of po b < num_of po 0" using zero i by simp
  have "reachable E (po ! j)" using d j(1) nth_mem by blast
  then show "\<exists>p. reachable E p \<and> b \<in> set (E p) \<and> num_of po b < num_of po p" using i j num_of_nth [of po j] d by auto
qed

text \<open>The order in which the search leaves the blocks, and the edges of a well-formed graph.\<close>

definition finish_order :: "hlsl_control_flow_graph \<Rightarrow> nat list" where
  "finish_order cfg = (case dfs_loop (dfs_fuel cfg) cfg (dfs_repr [(0, 0)] ((replicate (block_total cfg) False)[0 := True]) []) of
     Done s \<Rightarrow> map nat (df_postorder s) | _ \<Rightarrow> [])"

definition graph_edges :: "hlsl_control_flow_graph \<Rightarrow> nat \<Rightarrow> nat list" where
  "graph_edges cfg = (if graph_ok cfg then succs cfg else (\<lambda>_. []))"

lemma build_postorder_is:
  assumes "graph_ok cfg"
  shows "build_postorder c_malloc uc cfg \<in> {Fail (), Done (map int (finish_order cfg))}" "postorder_of (succs cfg) (finish_order cfg)"
proof -
  let ?n = "block_total cfg" and ?vis = "(replicate (block_total cfg) False)[0 := True]"
  have n: "0 < ?n" by (rule graph_okD(2) [OF assms])
  have seen: "seen ?vis = {0}" using n by (auto simp: seen_def nth_list_update)
  have "dfs_inv (succs cfg) ?n [(0, 0)] ?vis []"
    by (simp add: dfs_inv_def seen frames_ok_def explored_def finished_ok_def)
  from dfs_loop_ok [OF assms this dfs_fuel_ok [OF assms]] obtain vis po
    where l: "dfs_loop (dfs_fuel cfg) cfg (dfs_repr [(0, 0)] ?vis []) = Done (dfs_repr [] vis po)" and inv: "dfs_inv (succs cfg) ?n [] vis po" by blast
  have po: "finish_order cfg = po" by (simp add: finish_order_def l) (simp add: dfs_repr_def comp_def)
  then show "postorder_of (succs cfg) (finish_order cfg)" using dfs_result [OF inv] by simp
  have "put (replicate ?n False) 0 True = (Done ?vis :: (unit, bool list) outcome)" using put_int [of 0 "replicate ?n False" True] n by simp
  then show "build_postorder c_malloc uc cfg \<in> {Fail (), Done (map int (finish_order cfg))}"
    using l po by (auto simp: build_postorder_def Let_def block_total_def [symmetric] dfs_repr_def)
qed

lemma entry_number:
  assumes "graph_ok cfg"
  shows "num_of (finish_order cfg) 0 < block_total cfg" "length (finish_order cfg) \<le> block_total cfg"
proof -
  have "distinct (finish_order cfg)" "set (finish_order cfg) \<subseteq> {..<block_total cfg}"
    using build_postorder_is(2) [OF assms] reachable_block [OF assms] by (auto simp: postorder_of_def)
  then show "length (finish_order cfg) \<le> block_total cfg" using card_mono [of "{..<block_total cfg}" "set (finish_order cfg)"] by (simp add: distinct_card)
  with postorder_entry [OF build_postorder_is(2) [OF assms]] show "num_of (finish_order cfg) 0 < block_total cfg" by (cases "finish_order cfg") auto
qed

lemma graph_numbered: "numbered_graph (graph_edges cfg) (num_of (finish_order cfg))"
proof (cases "graph_ok cfg")
  case True
  then show ?thesis using postorder_numbers [OF build_postorder_is(2)] by (simp add: graph_edges_def)
next
  case False
  have "b = 0" if "reachable (\<lambda>_. []) b" for b using that by (auto simp: reachable_def elim: walk.cases)
  then show ?thesis using False by unfold_locales (auto simp: graph_edges_def)
qed

interpretation dominance: numbered_graph "graph_edges cfg" "num_of (finish_order cfg)" for cfg
  by (rule graph_numbered)

section \<open>Meeting in the tree\<close>

text \<open>The tree that the array of immediate dominators stands for.\<close>

definition par_of :: "int list \<Rightarrow> nat \<Rightarrow> nat option" where
  "par_of idom b = (if b < length idom \<and> 0 \<le> idom ! b then Some (nat (idom ! b)) else None)"

definition numbers_ok :: "hlsl_control_flow_graph \<Rightarrow> int list \<Rightarrow> bool" where
  "numbers_ok cfg numbers \<longleftrightarrow> length numbers = block_total cfg \<and>
     (\<forall>b. reachable (graph_edges cfg) b \<longrightarrow> b < block_total cfg \<and> numbers ! b = int (num_of (finish_order cfg) b))"

definition tree_array :: "hlsl_control_flow_graph \<Rightarrow> int list \<Rightarrow> bool" where
  "tree_array cfg idom \<longleftrightarrow> length idom = block_total cfg \<and> dominance.tree cfg (par_of idom)"

lemma tree_arrayD:
  assumes "tree_array cfg idom" "numbers_ok cfg numbers" "b \<in> dom (par_of idom)"
  shows "at idom (int b) = Done (int (the (par_of idom b)))" "at numbers (int b) = Done (int (num_of (finish_order cfg) b))"
    "the (par_of idom b) \<in> dom (par_of idom)" "num_of (finish_order cfg) b \<le> num_of (finish_order cfg) 0"
proof -
  from assms(3) obtain p where p: "par_of idom b = Some p" by blast
  note t = dominance.treeD [of cfg "par_of idom" b p, OF _ p]
  have r: "reachable (graph_edges cfg) b" "p \<in> dom (par_of idom)" using t assms(1) by (auto simp: tree_array_def)
  show "at idom (int b) = Done (int (the (par_of idom b)))" using p by (auto simp: par_of_def at_def split: if_splits)
  show "at numbers (int b) = Done (int (num_of (finish_order cfg) b))" using r(1) assms(2) by (auto simp: numbers_ok_def)
  show "the (par_of idom b) \<in> dom (par_of idom)" using r(2) p by simp
  show "num_of (finish_order cfg) b \<le> num_of (finish_order cfg) 0" using dominance.num_entry [OF r(1)] by (cases "b = 0") auto
qed

lemma climb_ok:
  assumes t: "tree_array cfg idom" and nb: "numbers_ok cfg numbers" and other: "g \<in> dom (par_of idom)"
  shows "f \<in> dom (par_of idom) \<Longrightarrow> num_of (finish_order cfg) 0 - num_of (finish_order cfg) f < fuel \<Longrightarrow>
    \<exists>z. climb fuel numbers idom (int g) (int f) = Done (int z) \<and> z \<in> dom (par_of idom) \<and> ancestor (par_of idom) z f \<and>
      num_of (finish_order cfg) g \<le> num_of (finish_order cfg) z \<and>
      (\<forall>x. ancestor (par_of idom) x f \<longrightarrow> num_of (finish_order cfg) g \<le> num_of (finish_order cfg) x \<longrightarrow> ancestor (par_of idom) x z)"
proof (induction fuel arbitrary: f)
  case (Suc fuel)
  let ?num = "num_of (finish_order cfg)" and ?par = "par_of idom"
  note a = tree_arrayD [OF t nb Suc.prems(1)] and b = tree_arrayD [OF t nb other]
  have tree: "dominance.tree cfg ?par" using t by (simp add: tree_array_def)
  show ?case
  proof (cases "?num f < ?num g")
    case False
    then show ?thesis using Suc.prems ancestor_self by (intro exI [of _ f]) (simp add: a b)
  next
    case True
    obtain p where p: "?par f = Some p" using Suc.prems(1) by blast
    have f: "f \<noteq> 0" using True b(4) by (intro notI) simp
    then have pn: "?num f < ?num p" "p \<in> dom ?par" using dominance.treeD [OF tree p] by auto
    then have "?num 0 - ?num p < fuel" using Suc.prems(2) tree_arrayD(4) [OF t nb pn(2)] by simp
    from Suc.IH [OF pn(2) this] obtain z where z: "climb fuel numbers idom (int g) (int p) = Done (int z)" "z \<in> dom ?par" "ancestor ?par z p" "?num g \<le> ?num z"
      "\<forall>x. ancestor ?par x p \<longrightarrow> ?num g \<le> ?num x \<longrightarrow> ancestor ?par x z" by blast
    have "climb (Suc fuel) numbers idom (int g) (int f) = Done (int z)" using True z(1) p by (simp add: a b)
    moreover have "ancestor ?par z f" using z(3) p ancestor_up by blast
    moreover have "\<forall>x. ancestor ?par x f \<longrightarrow> ?num g \<le> ?num x \<longrightarrow> ancestor ?par x z" using z(5) True ancestor_iff [of ?par f p, OF p] by auto
    ultimately show ?thesis using z(2,4) by blast
  qed
qed simp

lemma intersect_loop_ok:
  assumes t: "tree_array cfg idom" and nb: "numbers_ok cfg numbers" and steps: "num_of (finish_order cfg) 0 < steps"
  shows "f \<in> dom (par_of idom) \<Longrightarrow> g \<in> dom (par_of idom) \<Longrightarrow>
    (num_of (finish_order cfg) 0 - num_of (finish_order cfg) f) + (num_of (finish_order cfg) 0 - num_of (finish_order cfg) g) < fuel \<Longrightarrow>
    \<exists>z. intersect_loop fuel steps numbers idom (int f) (int g) = Done (int z) \<and> z \<in> dom (par_of idom) \<and>
      (\<forall>x. ancestor (par_of idom) x z \<longleftrightarrow> ancestor (par_of idom) x f \<and> ancestor (par_of idom) x g)"
proof (induction fuel arbitrary: f g)
  case (Suc fuel)
  let ?num = "num_of (finish_order cfg)" and ?par = "par_of idom"
  have tree: "dominance.tree cfg ?par" using t by (simp add: tree_array_def)
  have steps': "?num 0 - ?num f < steps" for f using steps by simp
  show ?case
  proof (cases "f = g")
    case True
    then show ?thesis using Suc.prems by auto
  next
    case False
    obtain f' where f': "climb steps numbers idom (int g) (int f) = Done (int f')" "f' \<in> dom ?par" "ancestor ?par f' f" "?num g \<le> ?num f'"
      "\<forall>x. ancestor ?par x f \<longrightarrow> ?num g \<le> ?num x \<longrightarrow> ancestor ?par x f'"
      using climb_ok [OF t nb Suc.prems(2,1) steps'] by blast
    obtain g' where g': "climb steps numbers idom (int f') (int g) = Done (int g')" "g' \<in> dom ?par" "ancestor ?par g' g" "?num f' \<le> ?num g'"
      "\<forall>x. ancestor ?par x g \<longrightarrow> ?num f' \<le> ?num x \<longrightarrow> ancestor ?par x g'"
      using climb_ok [OF t nb f'(2) Suc.prems(2) steps'] by blast
    have num: "?num y \<le> ?num x" if "ancestor ?par x y" "y \<in> dom ?par" for x y
      using dominance.ancestor_num [OF that(1) tree that(2)] by auto
    have step: "intersect_loop (Suc fuel) steps numbers idom (int f) (int g) = intersect_loop fuel steps numbers idom (int f') (int g')"
      using False f'(1) g'(1) by simp
    have common: "ancestor ?par x f \<and> ancestor ?par x g \<longleftrightarrow> ancestor ?par x f' \<and> ancestor ?par x g'" for x
    proof
      assume x: "ancestor ?par x f \<and> ancestor ?par x g"
      then have "ancestor ?par x f'" using f'(5) num [of x g] Suc.prems(2) by blast
      moreover from this have "ancestor ?par x g'" using x g'(5) num [of x f'] f'(2) by blast
      ultimately show "ancestor ?par x f' \<and> ancestor ?par x g'" ..
    qed (use ancestor_trans f'(3) g'(3) in blast)
    have bounds: "?num f \<le> ?num f'" "?num g \<le> ?num g'" "?num f' \<le> ?num 0" "?num g' \<le> ?num 0"
      using num [OF f'(3) Suc.prems(1)] num [OF g'(3) Suc.prems(2)] tree_arrayD(4) [OF t nb f'(2)] tree_arrayD(4) [OF t nb g'(2)] by auto
    have "?num f \<noteq> ?num g" using dominance.num_inject [of cfg f g] dominance.treeD(1) [OF tree] Suc.prems(1,2) False by blast
    then have "?num f < ?num f' \<or> ?num g < ?num g'" using bounds f'(4) g'(4) by linarith
    then have "(?num 0 - ?num f') + (?num 0 - ?num g') < fuel" using bounds Suc.prems(3) by linarith
    from Suc.IH [OF f'(2) g'(2) this] show ?thesis unfolding step common .
  qed
qed simp

lemma intersect_ok:
  assumes "graph_ok cfg" "tree_array cfg idom" "numbers_ok cfg numbers" "f \<in> dom (par_of idom)" "g \<in> dom (par_of idom)"
  shows "\<exists>z. intersect_fingers (int f) (int g) numbers idom = Done (int z) \<and> z \<in> dom (par_of idom) \<and>
    (\<forall>x. ancestor (par_of idom) x z \<longleftrightarrow> ancestor (par_of idom) x f \<and> ancestor (par_of idom) x g)"
proof -
  have "num_of (finish_order cfg) 0 < block_total cfg" by (rule entry_number [OF assms(1)])
  moreover have "length idom = block_total cfg" using assms(2) by (simp add: tree_array_def)
  ultimately show ?thesis unfolding intersect_fingers_def by (intro intersect_loop_ok [OF assms(2,3)] assms(4,5)) auto
qed

section \<open>The passes\<close>

definition enc :: "nat option \<Rightarrow> int" where
  "enc r = (case r of None \<Rightarrow> -1 | Some z \<Rightarrow> int z)"

lemma enc_sign: "enc r < 0 \<longleftrightarrow> r = None"
  by (simp add: enc_def split: option.split)

lemma par_of_sign: "b < length idom \<Longrightarrow> idom ! b < 0 \<longleftrightarrow> b \<notin> dom (par_of idom)"
  by (auto simp: par_of_def)

lemma join_fold:
  assumes ok: "graph_ok cfg" and t: "tree_array cfg idom" and nb: "numbers_ok cfg numbers"
  shows "set ps \<subseteq> {..<block_total cfg} \<Longrightarrow> \<forall>a. acc = Some a \<longrightarrow> a \<in> dom (par_of idom) \<Longrightarrow>
    \<exists>r. ofold (\<lambda>p parent. obind (at idom (int p)) (\<lambda>d. if d < 0 then Done parent
          else if parent < 0 then Done (int p) else intersect_fingers parent (int p) numbers idom)) ps (enc acc) = Done (enc r) \<and>
      (r = None \<longleftrightarrow> acc = None \<and> set ps \<inter> dom (par_of idom) = {}) \<and>
      (\<forall>z. r = Some z \<longrightarrow> z \<in> dom (par_of idom) \<and> (\<forall>x. ancestor (par_of idom) x z \<longleftrightarrow>
         (\<forall>a. acc = Some a \<longrightarrow> ancestor (par_of idom) x a) \<and> (\<forall>q\<in>set ps \<inter> dom (par_of idom). ancestor (par_of idom) x q)))"
proof (induction ps arbitrary: acc)
  case Nil
  then show ?case by (intro exI [of _ acc]) auto
next
  case (Cons p ps)
  let ?par = "par_of idom"
  let ?step = "\<lambda>p parent. obind (at idom (int p)) (\<lambda>d. if d < 0 then Done parent
          else if parent < 0 then Done (int p) else intersect_fingers parent (int p) numbers idom)"
  have len: "p < length idom" using Cons.prems(1) t by (simp add: tree_array_def)
  obtain acc' where acc': "?step p (enc acc) = Done (enc acc')" "\<forall>a. acc' = Some a \<longrightarrow> a \<in> dom ?par" "acc' = None \<longleftrightarrow> acc = None \<and> p \<notin> dom ?par"
    "\<And>z x. acc' = Some z \<Longrightarrow> ancestor ?par x z \<longleftrightarrow> (\<forall>a. acc = Some a \<longrightarrow> ancestor ?par x a) \<and> (p \<in> dom ?par \<longrightarrow> ancestor ?par x p)"
  proof (cases "p \<in> dom ?par")
    case False
    then show ?thesis using len Cons.prems(2) par_of_sign [OF len] by (intro that [of acc]) auto
  next
    case True
    then have pos: "\<not> idom ! p < 0" using par_of_sign [OF len] by simp
    show ?thesis
    proof (cases acc)
      case None
      then show ?thesis using len True pos by (intro that [of "Some p"]) (auto simp: enc_def)
    next
      case (Some a)
      then have a: "a \<in> dom ?par" using Cons.prems(2) by blast
      obtain z where z: "intersect_fingers (int a) (int p) numbers idom = Done (int z)" "z \<in> dom ?par"
        "\<forall>x. ancestor ?par x z \<longleftrightarrow> ancestor ?par x a \<and> ancestor ?par x p" using intersect_ok [OF ok t nb a True] by blast
      then show ?thesis using len True pos Some by (intro that [of "Some z"]) (auto simp: enc_def)
    qed
  qed
  have "set ps \<subseteq> {..<block_total cfg}" using Cons.prems(1) by simp
  from Cons.IH [OF this acc'(2)] obtain r where r: "ofold ?step ps (enc acc') = Done (enc r)"
    "r = None \<longleftrightarrow> acc' = None \<and> set ps \<inter> dom ?par = {}"
    "\<forall>z. r = Some z \<longrightarrow> z \<in> dom ?par \<and> (\<forall>x. ancestor ?par x z \<longleftrightarrow> (\<forall>a. acc' = Some a \<longrightarrow> ancestor ?par x a) \<and> (\<forall>q\<in>set ps \<inter> dom ?par. ancestor ?par x q))"
    by (elim exE conjE) (rule that, assumption+)
  show ?case
  proof (intro exI [of _ r] conjI allI impI)
    show "ofold ?step (p # ps) (enc acc) = Done (enc r)" unfolding ofold.simps acc'(1) obind.simps r(1) ..
    show "r = None \<longleftrightarrow> acc = None \<and> set (p # ps) \<inter> dom ?par = {}" using r(2) acc'(3) by auto
    fix z
    assume z: "r = Some z"
    then show "z \<in> dom ?par" using r(3) by blast
    fix x
    have "ancestor ?par x z \<longleftrightarrow> (\<forall>a. acc' = Some a \<longrightarrow> ancestor ?par x a) \<and> (\<forall>q\<in>set ps \<inter> dom ?par. ancestor ?par x q)" using r(3) z by blast
    also have "(\<forall>a. acc' = Some a \<longrightarrow> ancestor ?par x a) \<longleftrightarrow> (\<forall>a. acc = Some a \<longrightarrow> ancestor ?par x a) \<and> (p \<in> dom ?par \<longrightarrow> ancestor ?par x p)"
      using acc'(3,4) by (cases acc') auto
    finally show "ancestor ?par x z \<longleftrightarrow> (\<forall>a. acc = Some a \<longrightarrow> ancestor ?par x a) \<and> (\<forall>q\<in>set (p # ps) \<inter> dom ?par. ancestor ?par x q)" by auto
  qed
qed

lemma par_of_update: "b < length idom \<Longrightarrow> par_of (idom[b := int z]) = (par_of idom)(b \<mapsto> z)"
  by (rule ext) (auto simp: par_of_def nth_list_update)

lemma update_idom_ok:
  assumes ok: "graph_ok cfg" and nb: "numbers_ok cfg numbers" and len: "length idom = block_total cfg" and sw: "dominance.sweep cfg old (Suc i) (par_of idom)"
    and i: "i < length (finish_order cfg) - 1"
  obtains idom' z where
    "update_idom cfg (map int (finish_order cfg)) numbers i (idom, changed) = Done (idom', changed \<or> par_of idom (finish_order cfg ! i) \<noteq> Some z)"
    "length idom' = block_total cfg" "dominance.meet cfg (par_of idom) (finish_order cfg ! i) z" "par_of idom' = (par_of idom)(finish_order cfg ! i \<mapsto> z)"
proof -
  let ?po = "finish_order cfg" and ?par = "par_of idom" and ?E = "graph_edges cfg"
  let ?c = "?po ! i" and ?num = "num_of (finish_order cfg)"
  have E: "?E = succs cfg" using ok by (simp add: graph_edges_def)
  note po = build_postorder_is(2) [OF ok, unfolded postorder_of_def]
  have c: "reachable ?E ?c" using po i E nth_mem [of i ?po] by auto
  have num: "?num ?c = i" using num_of_nth [of ?po i] po i by simp
  then have c0: "?c \<noteq> 0" using postorder_entry [OF build_postorder_is(2) [OF ok]] i by (intro notI) simp
  note f = dominance.sweep_facts [OF sw c c0 num]
  have t: "tree_array cfg idom" using len f(1) by (simp add: tree_array_def)
  have cn: "?c < block_total cfg" using reachable_block [OF ok] c E by simp
  have ps: "set (preds cfg ?c) \<subseteq> {..<block_total cfg}" using graph_okD(7) [OF ok cn] by blast
  from join_fold [OF ok t nb ps, of None] obtain r where
    r: "ofold (\<lambda>p parent. obind (at idom (int p)) (\<lambda>d. if d < 0 then Done parent
          else if parent < 0 then Done (int p) else intersect_fingers parent (int p) numbers idom)) (preds cfg ?c) (-1) = Done (enc r)"
      "r = None \<longleftrightarrow> set (preds cfg ?c) \<inter> dom ?par = {}"
      "\<forall>z. r = Some z \<longrightarrow> z \<in> dom ?par \<and> (\<forall>x. ancestor ?par x z \<longleftrightarrow> (\<forall>q\<in>set (preds cfg ?c) \<inter> dom ?par. ancestor ?par x q))"
    by (auto simp: enc_def)
  obtain q where q: "q \<in> dom ?par" "reachable ?E q" "?c \<in> set (?E q)" "i < ?num q" using f(8) by blast
  have qp: "q \<in> set (preds cfg ?c)" using q(3) graph_okD(7) [OF ok cn] reachable_block [OF ok, of q] q(2) E by auto
  then obtain z where z: "r = Some z" using r(2) q(1) by blast
  have "ancestor ?par z q" using r(3) z qp q(1) ancestor_self by blast
  then have above: "i < ?num z" using dominance.ancestor_num [OF _ f(1) q(1)] q(4) by fastforce
  have edge: "p \<in> set (preds cfg ?c) \<longleftrightarrow> ?c \<in> set (?E p)" if "p \<in> dom ?par" for p
    using graph_okD(7) [OF ok cn] reachable_block [OF ok, of p] f(4) [OF that] E by auto
  have "ancestor ?par x z \<longleftrightarrow> (\<forall>q\<in>dom ?par. ?c \<in> set (?E q) \<longrightarrow> ancestor ?par x q)" for x using r(3) z edge by blast
  moreover have "z \<in> dom ?par" using r(3) z by blast
  ultimately have meet: "dominance.meet cfg ?par ?c z" unfolding dominance.meet_def num using above by blast
  have join: "ofold (join_predecessor cfg numbers idom (blk cfg ?c)) (counting 0 (bb_predecessor_count (blk cfg ?c))) (-1) = Done (int z)"
    unfolding join_predecessor_def using r(1) fold_predecessors [OF ok cn, of "\<lambda>predecessor parent. obind (at idom predecessor) (\<lambda>d. if d < 0 then Done parent
      else if parent < 0 then Done predecessor else intersect_fingers parent predecessor numbers idom)" "-1"] z by (simp add: enc_def)
  have same: "idom ! ?c = int z \<longleftrightarrow> ?par ?c = Some z" using cn len by (auto simp: par_of_def)
  have upd: "update_idom cfg (map int ?po) numbers i (idom, changed) =
      (if int z \<noteq> idom ! ?c then Done (idom[?c := int z], True) else Done (idom, changed))"
    using i cn len by (simp add: update_idom_def block_at_ok [OF ok cn] join)
  show ?thesis
  proof (cases "?par ?c = Some z")
    case True
    have "?par(?c \<mapsto> z) = ?par" using True by (simp add: fun_upd_idem)
    then show ?thesis using True upd len meet same by (intro that [of idom z]) auto
  next
    case False
    then show ?thesis using upd len meet same cn par_of_update [of ?c idom z] by (intro that [of "idom[?c := int z]" z]) auto
  qed
qed

definition pass_inv :: "hlsl_control_flow_graph \<Rightarrow> (nat \<Rightarrow> nat option) \<Rightarrow> nat \<Rightarrow> int list \<times> bool \<Rightarrow> bool" where
  "pass_inv cfg old k s \<longleftrightarrow> length (fst s) = block_total cfg \<and> dominance.sweep cfg old k (par_of (fst s)) \<and>
     dominance.weight cfg (block_total cfg) old + (if snd s then 1 else 0) \<le> dominance.weight cfg (block_total cfg) (par_of (fst s)) \<and>
     (\<not> snd s \<longrightarrow> par_of (fst s) = old \<and>
       (\<forall>c. reachable (graph_edges cfg) c \<longrightarrow> c \<noteq> 0 \<longrightarrow> k \<le> num_of (finish_order cfg) c \<longrightarrow> (\<exists>p. old c = Some p \<and> dominance.meet cfg old c p)))"

lemma pass_turn:
  assumes ok: "graph_ok cfg" and nb: "numbers_ok cfg numbers" and old: "dominance.settled cfg old" and k: "k < length (finish_order cfg) - 1" and inv: "pass_inv cfg old (Suc k) s"
  obtains s' where "update_idom cfg (map int (finish_order cfg)) numbers k s = Done s'" "pass_inv cfg old k s'"
proof -
  obtain idom changed where s: "s = (idom, changed)" by force
  let ?c = "finish_order cfg ! k" and ?n = "block_total cfg"
  have len: "length idom = ?n" and sw: "dominance.sweep cfg old (Suc k) (par_of idom)" using inv s by (simp_all add: pass_inv_def)
  obtain idom' z where u: "update_idom cfg (map int (finish_order cfg)) numbers k (idom, changed) = Done (idom', changed \<or> par_of idom ?c \<noteq> Some z)"
    "length idom' = ?n" "dominance.meet cfg (par_of idom) ?c z" "par_of idom' = (par_of idom)(?c \<mapsto> z)"
    by (rule update_idom_ok [OF ok nb len sw k])
  note po = build_postorder_is(2) [OF ok, unfolded postorder_of_def]
  have E: "graph_edges cfg = succs cfg" using ok by (simp add: graph_edges_def)
  have c: "reachable (graph_edges cfg) ?c" using po k E nth_mem [of k "finish_order cfg"] by auto
  have num: "num_of (finish_order cfg) ?c = k" using num_of_nth [of "finish_order cfg" k] po k by simp
  then have c0: "?c \<noteq> 0" using postorder_entry [OF build_postorder_is(2) [OF ok]] k by (intro notI) simp
  have cn: "?c < ?n" using reachable_block [OF ok] c E by simp
  have step: "dominance.sweep cfg old k (par_of idom')" using dominance.sweep_step [OF sw old c c0 num u(3)] u(4) by simp
  have "pass_inv cfg old k (idom', changed \<or> par_of idom ?c \<noteq> Some z)"
  proof (cases "par_of idom ?c = Some z")
    case True
    then have same: "par_of idom' = par_of idom" using u(4) by (simp add: fun_upd_idem)
    have "\<exists>p. old c' = Some p \<and> dominance.meet cfg old c' p"
      if "\<not> changed" "reachable (graph_edges cfg) c'" "c' \<noteq> 0" "k \<le> num_of (finish_order cfg) c'" for c'
    proof (cases "c' = ?c")
      case False
      then have "Suc k \<le> num_of (finish_order cfg) c'" using dominance.num_inject [OF that(2) c] that(4) num by fastforce
      then show ?thesis using inv s that by (simp add: pass_inv_def)
    next
      case True
      then show ?thesis using inv s that u(3) \<open>par_of idom ?c = Some z\<close> by (auto simp: pass_inv_def)
    qed
    then show ?thesis using inv s u(2) step same True by (simp add: pass_inv_def)
  next
    case False
    then show ?thesis using inv s u(2,4) step dominance.weight_update [OF sw old c c0 num u(3) False cn] by (simp add: pass_inv_def split: if_splits)
  qed
  then show ?thesis using u(1) s by (intro that) auto
qed

lemma dominance_pass_ok:
  assumes ok: "graph_ok cfg" and nb: "numbers_ok cfg numbers" and old: "dominance.settled cfg (par_of idom)" "dominance.sound cfg (par_of idom)" "dominance.raised cfg (par_of idom)"
    and len: "length idom = block_total cfg"
  obtains s where "dominance_pass cfg (map int (finish_order cfg)) numbers idom = Done s" "pass_inv cfg (par_of idom) 0 s"
proof -
  let ?upd = "update_idom cfg (map int (finish_order cfg)) numbers"
  have run: "\<exists>s'. ofold ?upd (rev [0..<k]) s = Done s' \<and> pass_inv cfg (par_of idom) 0 s'"
    if "pass_inv cfg (par_of idom) k s" "k \<le> length (finish_order cfg) - 1" for k s
    using that
  proof (induction k arbitrary: s)
    case (Suc k)
    obtain s' where "?upd k s = Done s'" "pass_inv cfg (par_of idom) k s'" using pass_turn [OF ok nb old(1) _ Suc.prems(1)] Suc.prems(2) by auto
    then show ?case using Suc.IH [of s'] Suc.prems(2) by simp
  qed simp
  have "num_of (finish_order cfg) 0 = length (finish_order cfg) - 1" using postorder_entry [OF build_postorder_is(2) [OF ok]] by simp
  moreover have "c = 0" if "reachable (graph_edges cfg) c" "num_of (finish_order cfg) 0 \<le> num_of (finish_order cfg) c" for c
    using dominance.num_entry [OF that(1)] that(2) by fastforce
  ultimately have "pass_inv cfg (par_of idom) (length (finish_order cfg) - 1) (idom, False)"
    using dominance.sweep_start [OF old(2,3,1)] len by (auto simp: pass_inv_def)
  from run [OF this] show ?thesis using that by (auto simp: dominance_pass_def)
qed

definition exact_tree :: "hlsl_control_flow_graph \<Rightarrow> int list \<Rightarrow> bool" where
  "exact_tree cfg idom \<longleftrightarrow> tree_array cfg idom \<and> (\<forall>b. b \<in> dom (par_of idom) \<longleftrightarrow> reachable (succs cfg) b) \<and>
     (\<forall>b d. reachable (succs cfg) b \<longrightarrow> (ancestor (par_of idom) d b \<longleftrightarrow> dominating (succs cfg) d b))"

lemma dominance_loop_ok:
  assumes ok: "graph_ok cfg" and nb: "numbers_ok cfg numbers"
  shows "dominance.settled cfg (par_of idom) \<Longrightarrow> dominance.sound cfg (par_of idom) \<Longrightarrow> dominance.raised cfg (par_of idom) \<Longrightarrow> length idom = block_total cfg \<Longrightarrow>
    block_total cfg * block_total cfg < fuel + dominance.weight cfg (block_total cfg) (par_of idom) \<Longrightarrow>
    \<exists>idom'. dominance_loop fuel cfg (map int (finish_order cfg)) numbers idom = Done idom' \<and> exact_tree cfg idom'"
proof (induction fuel arbitrary: idom)
  case 0
  have "dominance.weight cfg (block_total cfg) (par_of idom) \<le> block_total cfg * block_total cfg"
    using dominance.weight_bound [OF _ entry_number(1) [OF ok]] 0 by (simp add: dominance.sound_def)
  then show ?case using 0 by simp
next
  case (Suc fuel)
  let ?par = "par_of idom" and ?n = "block_total cfg"
  obtain idom' changed where p: "dominance_pass cfg (map int (finish_order cfg)) numbers idom = Done (idom', changed)" "pass_inv cfg ?par 0 (idom', changed)"
    using dominance_pass_ok [OF ok nb Suc.prems(1-4)] by (metis surj_pair)
  have sw: "dominance.sweep cfg ?par 0 (par_of idom')" and len: "length idom' = ?n" using p(2) by (simp_all add: pass_inv_def)
  note e = dominance.sweep_end [OF sw]
  show ?case
  proof (cases changed)
    case True
    then have "?n * ?n < fuel + dominance.weight cfg ?n (par_of idom')" using p(2) Suc.prems(5) by (simp add: pass_inv_def)
    from Suc.IH [OF e(3,1,2) len this] show ?thesis using p(1) True by simp
  next
    case False
    then have same: "par_of idom' = ?par" and stable: "\<And>c. reachable (graph_edges cfg) c \<Longrightarrow> c \<noteq> 0 \<Longrightarrow> \<exists>p. ?par c = Some p \<and> dominance.meet cfg ?par c p"
      using p(2) by (auto simp: pass_inv_def)
    have E: "graph_edges cfg = succs cfg" using ok by (simp add: graph_edges_def)
    have s: "dominance.sound cfg (par_of idom')" by (rule e(1))
    have "ancestor (par_of idom') d b \<longleftrightarrow> dominating (succs cfg) d b" if "reachable (succs cfg) b" for b d
      using dominance.exact_fixpoint [OF s e(4) stable [folded same]] that E by simp
    moreover have "dominance.tree cfg (par_of idom')" using s by (simp add: dominance.sound_def)
    ultimately have "exact_tree cfg idom'" unfolding exact_tree_def tree_array_def using len e(4) dominance.treeD(1) [of cfg "par_of idom'"] E by auto
    then show ?thesis using p(1) False by simp
  qed
qed

lemma numbers_fold:
  assumes "distinct po" "set po \<subseteq> {..<n}"
  shows "k \<le> length po \<Longrightarrow> \<exists>ns. ofold (\<lambda>index numbers. obind (at (map int po) (int index)) (\<lambda>b. put numbers b (int index))) [0..<k] (replicate n (-1)) = (Done ns :: (unit, int list) outcome) \<and>
    length ns = n \<and> (\<forall>i<k. ns ! (po ! i) = int i)"
proof (induction k)
  case (Suc k)
  then obtain ns where ns: "ofold (\<lambda>index numbers. obind (at (map int po) (int index)) (\<lambda>b. put numbers b (int index))) [0..<k] (replicate n (-1)) = (Done ns :: (unit, int list) outcome)"
    "length ns = n" "\<forall>i<k. ns ! (po ! i) = int i" by auto
  have "po ! k \<in> set po" using Suc.prems by simp
  then have "po ! k < n" using assms(2) by blast
  then show ?case using ns Suc.prems assms(1) by (auto simp: ofold_append less_Suc_eq nth_list_update nth_eq_iff_index_eq)
qed simp

lemma immediate_dominators_ok:
  assumes ok: "graph_ok cfg"
  shows "immediate_dominators c_malloc uc cfg = Fail () \<or> (\<exists>idom. immediate_dominators c_malloc uc cfg = Done idom \<and> exact_tree cfg idom)"
proof (cases "build_postorder c_malloc uc cfg = Fail ()")
  case True
  then show ?thesis by (simp add: immediate_dominators_def)
next
  case False
  let ?po = "finish_order cfg" and ?n = "block_total cfg"
  have E: "graph_edges cfg = succs cfg" using ok by (simp add: graph_edges_def)
  have b: "build_postorder c_malloc uc cfg = Done (map int ?po)" using build_postorder_is(1) [OF ok, of c_malloc uc] False by blast
  note po = build_postorder_is(2) [OF ok, unfolded postorder_of_def]
  have "set ?po \<subseteq> {..<?n}" using po reachable_block [OF ok] by auto
  from numbers_fold [OF _ this, of "length ?po"] obtain ns where
    ns: "ofold (\<lambda>index numbers. obind (at (map int ?po) (int index)) (\<lambda>b. put numbers b (int index))) [0..<length ?po] (replicate ?n (-1)) = (Done ns :: (unit, int list) outcome)"
      "length ns = ?n" "\<forall>i<length ?po. ns ! (?po ! i) = int i" using po by auto
  have "ns ! b = int (num_of ?po b)" if b: "reachable (graph_edges cfg) b" for b
  proof -
    obtain i where "i < length ?po" "b = ?po ! i" using b po E by (metis in_set_conv_nth mem_Collect_eq)
    then show ?thesis using ns(3) num_of_nth [of ?po i] po by simp
  qed
  then have nb: "numbers_ok cfg ns" using ns(2) reachable_block [OF ok] E by (simp add: numbers_ok_def)
  let ?idom = "(replicate ?n (-1))[0 := 0]"
  have n: "0 < ?n" by (rule graph_okD(2) [OF ok])
  have par: "par_of ?idom = [0 \<mapsto> 0]" using n by (intro ext) (auto simp: par_of_def nth_list_update)
  have "put (replicate ?n (-1)) 0 0 = (Done ?idom :: (unit, int list) outcome)" using put_int [of 0 "replicate ?n (-1)" 0] n by simp
  moreover have "\<exists>idom'. dominance_loop (?n * ?n + 2) cfg (map int ?po) ns ?idom = Done idom' \<and> exact_tree cfg idom'"
    using dominance_loop_ok [OF ok nb, of ?idom "?n * ?n + 2"] dominance.first_tree [of cfg] par by simp
  ultimately show ?thesis using b ns(1) by (simp add: immediate_dominators_def Let_def block_total_def [symmetric])
qed

section \<open>Frontiers\<close>

text \<open>\<open>y\<close> is in the frontier of \<open>x\<close>: \<open>x\<close> dominates a predecessor of \<open>y\<close> but not strictly \<open>y\<close> itself.\<close>

definition in_frontier :: "(nat \<Rightarrow> nat list) \<Rightarrow> nat \<Rightarrow> nat \<Rightarrow> bool" where
  "in_frontier E x y \<longleftrightarrow> (\<exists>q. reachable E q \<and> y \<in> set (E q) \<and> dominating E x q) \<and> (dominating E x y \<longrightarrow> x = y)"

definition front_ok :: "nat \<Rightarrow> int list list \<times> int list \<Rightarrow> bool" where
  "front_ok n s \<longleftrightarrow> length (fst s) = n \<and> length (snd s) = n \<and> (\<forall>x<n. snd s ! x = int (length (fst s ! x)) \<and> distinct (fst s ! x))"

definition front_pairs :: "int list list \<times> int list \<Rightarrow> (nat \<times> int) set" where
  "front_pairs s = {(x, y). x < length (fst s) \<and> y \<in> set (fst s ! x)}"

lemma search_found: "ofold (\<lambda>index found. if found then Done True else obind (at vals index) (\<lambda>v. Done (v = block))) (counting 0 (int (length vals))) False =
    (Done (block \<in> set vals) :: (unit, bool) outcome)"
proof -
  have "ofold (\<lambda>v found. if found then Done True else Done (v = block)) vs b = (Done (b \<or> block \<in> set vs) :: (unit, bool) outcome)" for vs b
    by (induction vs arbitrary: b) auto
  then show ?thesis by (subst ofold_nth [where g = "\<lambda>v found. if found then Done True else Done (v = block)"]) auto
qed

lemma add_frontier_ok:
  assumes "distinct vals" "count = int (length vals)"
  shows "add_frontier c_malloc uc (vals, count) block = Fail () \<or>
    add_frontier c_malloc uc (vals, count) block = (let vs = if block \<in> set vals then vals else vals @ [block] in Done (vs, int (length vs)))"
  unfolding add_frontier_def Let_def prod.case assms(2) search_found by auto

lemma front_add:
  assumes "front_ok n (fs, cs)" "r < n" "vs = (if y \<in> set (fs ! r) then fs ! r else fs ! r @ [y])"
  shows "front_ok n (fs[r := vs], cs[r := int (length vs)])" "front_pairs (fs[r := vs], cs') = insert (r, y) (front_pairs (fs, cs))"
  using assms by (auto simp: front_ok_def front_pairs_def nth_list_update split: if_splits)

lemma run_frontier_ok:
  assumes t: "tree_array cfg idom" and y: "par_of idom y = Some a" and n: "n = block_total cfg"
  shows "r \<in> dom (par_of idom) \<Longrightarrow> ancestor (par_of idom) a r \<Longrightarrow> num_of (finish_order cfg) 0 - num_of (finish_order cfg) r < fuel \<Longrightarrow> front_ok n s \<Longrightarrow>
    run_frontier fuel c_malloc uc idom (int y) (int r) s = Fail () \<or>
    (\<exists>s'. run_frontier fuel c_malloc uc idom (int y) (int r) s = Done s' \<and> front_ok n s' \<and>
       front_pairs s' = front_pairs s \<union> {(x, int y) | x. ancestor (par_of idom) x r \<and> \<not> ancestor (par_of idom) x a})"
proof (induction fuel arbitrary: r s)
  case (Suc fuel)
  let ?par = "par_of idom" and ?num = "num_of (finish_order cfg)"
  obtain fs cs where s: "s = (fs, cs)" by force
  have tree: "dominance.tree cfg ?par" and len: "length idom = n" using t n by (simp_all add: tree_array_def)
  have stop: "at idom (int y) = (Done (int a) :: (unit, int) outcome)" using y by (auto simp: par_of_def at_def split: if_splits)
  obtain p where p: "?par r = Some p" using Suc.prems(1) by blast
  have up: "at idom (int r) = (Done (int p) :: (unit, int) outcome)" and rn: "r < n" using p len by (auto simp: par_of_def at_def split: if_splits)
  show ?case
  proof (cases "r = a")
    case True
    then show ?thesis using stop Suc.prems(4) s by (intro disjI2 exI [of _ s]) auto
  next
    case False
    have ap: "ancestor ?par a p" using Suc.prems(2) ancestor_iff [of ?par r p a, OF p] False by blast
    have r0: "r \<noteq> 0" using False Suc.prems(2) dominance.ancestor_entry [OF tree, of a] by (intro notI) simp
    note pd = dominance.treeD [OF tree p]
    have rp: "reachable (graph_edges cfg) p" using pd(2) dominance.treeD(1) [OF tree] by blast
    have "?num p \<le> ?num 0" using dominance.num_entry [OF rp] by (cases "p = 0") auto
    then have fuel: "?num 0 - ?num p < fuel" using Suc.prems(3) pd(3) [OF r0] by simp
    have nra: "\<not> ancestor ?par r a"
    proof
      assume ra: "ancestor ?par r a"
      have ad: "a \<in> dom ?par" using dominance.ancestor_num [OF Suc.prems(2) tree Suc.prems(1)] by simp
      show False using dominance.ancestor_num [OF ra tree ad] dominance.ancestor_num [OF Suc.prems(2) tree Suc.prems(1)] False by auto
    qed
    have at': "at fs (int r) = (Done (fs ! r) :: (unit, int list) outcome)" "at cs (int r) = (Done (cs ! r) :: (unit, int) outcome)" "distinct (fs ! r)" "cs ! r = int (length (fs ! r))" "length fs = n" "length cs = n"
      using Suc.prems(4) s rn by (auto simp: front_ok_def)
    let ?vs = "if int y \<in> set (fs ! r) then fs ! r else fs ! r @ [int y]"
    from add_frontier_ok [OF at'(3,4), of c_malloc uc "int y"] show ?thesis
    proof
      assume "add_frontier c_malloc uc (fs ! r, cs ! r) (int y) = Fail ()"
      then show ?thesis using False s stop at' by simp
    next
      assume "add_frontier c_malloc uc (fs ! r, cs ! r) (int y) = (let vs = ?vs in Done (vs, int (length vs)))"
      then have add: "add_frontier c_malloc uc (fs ! r, cs ! r) (int y) = Done (?vs, int (length ?vs))" by (simp only: Let_def)
      let ?s = "(fs[r := ?vs], cs[r := int (length ?vs)])"
      have "run_frontier (Suc fuel) c_malloc uc idom (int y) (int r) s = run_frontier fuel c_malloc uc idom (int y) (int p) ?s"
        using False s stop at'(1,2,5,6) up rn by (simp only: run_frontier.simps Let_def prod.case stop obind.simps add at'(1,2) of_nat_eq_iff if_False put_int)
      moreover have "front_ok n ?s" "front_pairs ?s = insert (r, int y) (front_pairs s)" using front_add [OF Suc.prems(4) [unfolded s] rn refl] s by auto
      moreover have "{(x, int y) | x. ancestor ?par x r \<and> \<not> ancestor ?par x a} = insert (r, int y) {(x, int y) | x. ancestor ?par x p \<and> \<not> ancestor ?par x a}"
        using ancestor_iff [of ?par r p, OF p] nra by auto
      ultimately show ?thesis using Suc.IH [OF pd(2) ap fuel, of ?s] by auto
    qed
  qed
qed simp

definition runner_pairs :: "int list \<Rightarrow> nat \<Rightarrow> nat set \<Rightarrow> (nat \<times> int) set" where
  "runner_pairs idom y qs = {(x, int y) | x q. q \<in> qs \<and> q \<in> dom (par_of idom) \<and> ancestor (par_of idom) x q \<and> \<not> ancestor (par_of idom) x (the (par_of idom y))}"

lemma frontier_edges_ok:
  assumes ok: "graph_ok cfg" and t: "tree_array cfg idom" and y: "par_of idom y = Some a"
  shows "set ps \<subseteq> {..<block_total cfg} \<Longrightarrow> \<forall>q\<in>set ps \<inter> dom (par_of idom). ancestor (par_of idom) a q \<Longrightarrow> front_ok (block_total cfg) s \<Longrightarrow>
    ofold (\<lambda>q s. obind (at idom (int q)) (\<lambda>d. if d < 0 then Done s else run_frontier (length idom + 1) c_malloc uc idom (int y) (int q) s)) ps s = Fail () \<or>
    (\<exists>s'. ofold (\<lambda>q s. obind (at idom (int q)) (\<lambda>d. if d < 0 then Done s else run_frontier (length idom + 1) c_malloc uc idom (int y) (int q) s)) ps s = Done s' \<and>
       front_ok (block_total cfg) s' \<and> front_pairs s' = front_pairs s \<union> runner_pairs idom y (set ps))"
proof (induction ps arbitrary: s)
  case Nil
  then show ?case by (auto simp: runner_pairs_def)
next
  case (Cons q ps)
  let ?par = "par_of idom"
  have q: "q < length idom" using Cons.prems(1) t by (simp add: tree_array_def)
  show ?case
  proof (cases "q \<in> dom ?par")
    case False
    then have "idom ! q < 0" using par_of_sign [OF q] by simp
    moreover have "runner_pairs idom y (set (q # ps)) = runner_pairs idom y (set ps)" using False by (auto simp: runner_pairs_def)
    ultimately show ?thesis using q Cons by simp
  next
    case True
    then have pos: "\<not> idom ! q < 0" using par_of_sign [OF q] by simp
    have "num_of (finish_order cfg) 0 - num_of (finish_order cfg) q < length idom + 1" using entry_number(1) [OF ok] t by (simp add: tree_array_def)
    moreover have "ancestor ?par a q" using Cons.prems(2) True by simp
    ultimately consider "run_frontier (length idom + 1) c_malloc uc idom (int y) (int q) s = Fail ()"
      | s' where "run_frontier (length idom + 1) c_malloc uc idom (int y) (int q) s = Done s'" "front_ok (block_total cfg) s'"
        "front_pairs s' = front_pairs s \<union> {(x, int y) | x. ancestor ?par x q \<and> \<not> ancestor ?par x a}"
      using run_frontier_ok [OF t y refl True, of "length idom + 1" s c_malloc uc] Cons.prems(3) by blast
    then show ?thesis
    proof cases
      case 1
      then show ?thesis using q pos by simp
    next
      case (2 s')
      have "runner_pairs idom y (set (q # ps)) = {(x, int y) | x. ancestor ?par x q \<and> \<not> ancestor ?par x a} \<union> runner_pairs idom y (set ps)"
        using True y by (auto simp: runner_pairs_def)
      then show ?thesis using q pos 2 Cons.IH [of s'] Cons.prems by (simp add: Un_assoc) 
    qed
  qed
qed

definition join_pairs :: "hlsl_control_flow_graph \<Rightarrow> int list \<Rightarrow> nat \<Rightarrow> (nat \<times> int) set" where
  "join_pairs cfg idom y = (if y \<in> dom (par_of idom) \<and> 2 \<le> length (preds cfg y) then runner_pairs idom y (set (preds cfg y)) else {})"

lemma frontier_block_ok:
  assumes ok: "graph_ok cfg" and e: "exact_tree cfg idom" and y: "y < block_total cfg" and s: "front_ok (block_total cfg) s"
  shows "frontier_block c_malloc uc cfg idom (int y) s = Fail () \<or>
    (\<exists>s'. frontier_block c_malloc uc cfg idom (int y) s = Done s' \<and> front_ok (block_total cfg) s' \<and> front_pairs s' = front_pairs s \<union> join_pairs cfg idom y)"
proof -
  let ?par = "par_of idom"
  have t: "tree_array cfg idom" and tree: "dominance.tree cfg ?par" and len: "length idom = block_total cfg" using e by (simp_all add: exact_tree_def tree_array_def)
  have d: "at idom (int y) = (Done (idom ! y) :: (unit, int) outcome)" using y len by simp
  have cnt: "bb_predecessor_count (blk cfg y) = int (length (preds cfg y))" by (rule graph_okD(4) [OF ok y])
  show ?thesis
  proof (cases "y \<in> dom ?par \<and> 2 \<le> length (preds cfg y)")
    case False
    then have "idom ! y < 0 \<or> bb_predecessor_count (blk cfg y) < 2" using par_of_sign [of y idom] y len cnt by auto
    then have "frontier_block c_malloc uc cfg idom (int y) s = Done s" by (simp add: frontier_block_def block_at_ok [OF ok y] d)
    then show ?thesis using False s by (auto simp: join_pairs_def)
  next
    case True
    then obtain a where a: "?par y = Some a" by blast
    have ps: "set (preds cfg y) \<subseteq> {..<block_total cfg}" using graph_okD(7) [OF ok y] by blast
    have up: "\<forall>q\<in>set (preds cfg y) \<inter> dom ?par. ancestor ?par a q"
    proof
      fix q
      assume q: "q \<in> set (preds cfg y) \<inter> dom ?par"
      then have edge: "y \<in> set (succs cfg q)" "reachable (succs cfg) q" using graph_okD(7) [OF ok y] e by (auto simp: exact_tree_def)
      show "ancestor ?par a q"
      proof (cases "y = 0")
        case True
        then show ?thesis using dominance.treeD(4) [OF tree a] dominance.entry_ancestor [OF tree] q by simp
      next
        case False
        then have "a \<noteq> y" using dominance.treeD(3) [OF tree a] by auto
        moreover have "ancestor ?par a y" using a ancestor_up ancestor_self by blast
        then have "dominating (succs cfg) a y" using e True by (auto simp: exact_tree_def)
        ultimately show ?thesis using dominating_step edge e by (auto simp: exact_tree_def)
      qed
    qed
    have "\<not> idom ! y < 0" "\<not> bb_predecessor_count (blk cfg y) < 2" using True par_of_sign [of y idom] y len cnt by auto
    then have "frontier_block c_malloc uc cfg idom (int y) s =
        ofold (\<lambda>q s. obind (at idom (int q)) (\<lambda>d. if d < 0 then Done s else run_frontier (length idom + 1) c_malloc uc idom (int y) (int q) s)) (preds cfg y) s"
      unfolding frontier_block_def block_at_ok [OF ok y] d obind.simps frontier_edge_def
      using fold_predecessors [OF ok y, of "\<lambda>runner s. obind (at idom runner) (\<lambda>d. if d < 0 then Done s else run_frontier (length idom + 1) c_malloc uc idom (int y) runner s)" s]
      by simp
    then show ?thesis using frontier_edges_ok [OF ok t a ps up s, of c_malloc uc] True by (simp add: join_pairs_def)
  qed
qed

lemma frontiers_ok:
  assumes ok: "graph_ok cfg" and e: "exact_tree cfg idom"
  shows "set ys \<subseteq> {..<block_total cfg} \<Longrightarrow> front_ok (block_total cfg) s \<Longrightarrow>
    ofold (frontier_block c_malloc uc cfg idom) (map int ys) s = Fail () \<or>
    (\<exists>s'. ofold (frontier_block c_malloc uc cfg idom) (map int ys) s = Done s' \<and> front_ok (block_total cfg) s' \<and> front_pairs s' = front_pairs s \<union> (\<Union>y\<in>set ys. join_pairs cfg idom y))"
proof (induction ys arbitrary: s)
  case (Cons y ys)
  have "y < block_total cfg" using Cons.prems(1) by simp
  from frontier_block_ok [OF ok e this Cons.prems(2), of c_malloc uc]
  consider "frontier_block c_malloc uc cfg idom (int y) s = Fail ()"
    | s' where "frontier_block c_malloc uc cfg idom (int y) s = Done s'" "front_ok (block_total cfg) s'" "front_pairs s' = front_pairs s \<union> join_pairs cfg idom y" by blast
  then show ?case
  proof cases
    case (2 s')
    then show ?thesis using Cons.IH [of s'] Cons.prems(1) by (simp add: Un_assoc)
  qed simp
qed auto

text \<open>A block with a single predecessor is in no frontier.\<close>

lemma sole_predecessor:
  assumes "y \<noteq> 0" "\<And>q. y \<in> set (E q) \<Longrightarrow> reachable E q \<Longrightarrow> q = p" "reachable E p" "dominating E x p"
  shows "dominating E x y" "reachable E y \<Longrightarrow> x \<noteq> y"
proof -
  have pre: "\<exists>ys. xs = ys @ [y] \<and> walk E 0 ys p" if "walk E 0 xs y" for xs
    using that assms(1,2) by (cases rule: walk.cases) (auto simp: reachable_def)
  then show "dominating E x y" unfolding dominating_def using assms(4) by (fastforce simp: dominating_def)
  assume "reachable E y"
  then obtain xs where xs: "walk E 0 xs y" by (auto simp: reachable_def)
  show "x \<noteq> y"
  proof
    assume [simp]: "x = y"
    have prefix: "\<exists>us vs. xs = us @ vs \<and> walk E 0 us c" if "walk E a xs b" "a = 0" "c \<in> set xs" for a b c xs
      using that
    proof (induction rule: walk.induct)
      case (walk_here a)
      then show ?case using walk.walk_here by (intro exI [of _ "[a]"] exI [of _ "[]"]) auto
    next
      case (walk_step a xs b d)
      show ?case
      proof (cases "c = d")
        case True
        have "walk E 0 (xs @ [d]) c" using walk.walk_step [OF walk_step.hyps] walk_step.prems(1) True by simp
        then show ?thesis by blast
      next
        case False
        then have "c \<in> set xs" using walk_step.prems(2) by simp
        from walk_step.IH [OF walk_step.prems(1) this] obtain us vs where "xs = us @ vs" "walk E 0 us c" by blast
        then have "xs @ [d] = us @ (vs @ [d]) \<and> walk E 0 us c" by simp
        then show ?thesis by blast
      qed
    qed
    have False if "walk E 0 xs y" for xs
      using that
    proof (induction "length xs" arbitrary: xs rule: less_induct)
      case less
      obtain ys where ys: "xs = ys @ [y]" "walk E 0 ys p" using pre [OF less.prems] by blast
      then have "y \<in> set ys" using assms(4) by (auto simp: dominating_def)
      from prefix [OF ys(2) refl this] obtain us vs where "ys = us @ vs" "walk E 0 us y" by blast
      then show False using less.hyps [of us] ys(1) by simp
    qed
    with xs show False by blast
  qed
qed

lemma join_frontier:
  assumes ok: "graph_ok cfg" and e: "exact_tree cfg idom" and y: "y \<noteq> 0"
  shows "(x, int y) \<in> join_pairs cfg idom y \<longleftrightarrow> in_frontier (succs cfg) x y"
proof
  let ?par = "par_of idom" and ?E = "succs cfg"
  have tree: "dominance.tree cfg ?par" using e by (simp add: exact_tree_def tree_array_def)
  have anc: "ancestor ?par d b \<longleftrightarrow> dominating ?E d b" if "reachable ?E b" for d b using e that by (auto simp: exact_tree_def)
  have dom: "b \<in> dom ?par \<longleftrightarrow> reachable ?E b" for b using e by (auto simp: exact_tree_def)
  {
    assume "(x, int y) \<in> join_pairs cfg idom y"
    then obtain q where m: "y \<in> dom ?par" "q \<in> set (preds cfg y)" "q \<in> dom ?par" "ancestor ?par x q" "\<not> ancestor ?par x (the (?par y))"
      by (simp add: join_pairs_def runner_pairs_def split: if_splits) blast
    then obtain a where "?par y = Some a" by blast
    note q = this m(2-4) m(5) [unfolded this option.sel]
    have r: "reachable ?E y" "reachable ?E q" using q(1,3) dom by blast+
    have "y \<in> set (?E q)" using graph_okD(7) [OF ok reachable_block [OF ok r(1)]] q(2) by blast
    moreover have "dominating ?E x y \<Longrightarrow> x = y" using anc [OF r(1), of x] ancestor_iff [of ?par y a x, OF q(1)] q(5) by blast
    ultimately show "in_frontier ?E x y" unfolding in_frontier_def using anc [OF r(2)] q(4) r(2) by blast
  next
    assume "in_frontier ?E x y"
    then obtain q where q: "reachable ?E q" "y \<in> set (?E q)" "dominating ?E x q" and strict: "dominating ?E x y \<Longrightarrow> x = y" by (auto simp: in_frontier_def)
    have r: "reachable ?E y" by (rule reachable_step [OF q(1,2)])
    note iff = graph_okD(7) [OF ok reachable_block [OF ok r]]
    have qp: "q \<in> set (preds cfg y)" using iff q reachable_block [OF ok q(1)] by blast
    obtain a where a: "?par y = Some a" using dom r by blast
    have two: "2 \<le> length (preds cfg y)"
    proof (rule ccontr)
      assume "\<not> 2 \<le> length (preds cfg y)"
      then have "preds cfg y = [q]" using qp by (cases "preds cfg y"; cases "tl (preds cfg y)") auto
      then have "\<And>p. y \<in> set (?E p) \<Longrightarrow> reachable ?E p \<Longrightarrow> p = q" using iff reachable_block [OF ok] by auto
      from sole_predecessor [OF y this q(1,3)] r strict show False by blast
    qed
    have "\<not> ancestor ?par x a"
    proof
      assume xa: "ancestor ?par x a"
      then have "ancestor ?par x y" using a ancestor_up by blast
      then have "x = y" using strict anc [OF r] by blast
      moreover have "num_of (finish_order cfg) y < num_of (finish_order cfg) x"
        using dominance.ancestor_num [OF xa tree] dominance.treeD(2,3) [OF tree a] y by fastforce
      ultimately show False by simp
    qed
    then show "(x, int y) \<in> join_pairs cfg idom y"
      using a two qp q(1,3) dom anc [OF q(1)] by (auto simp: join_pairs_def runner_pairs_def)
  }
qed

section \<open>The result of the analysis\<close>

definition frontiers_exact :: "hlsl_control_flow_graph \<Rightarrow> int list list \<Rightarrow> int list \<Rightarrow> bool" where
  "frontiers_exact cfg df counts \<longleftrightarrow> front_ok (block_total cfg) (df, counts) \<and>
     (\<forall>x<block_total cfg. \<forall>v. v \<noteq> 0 \<or> preds cfg 0 = [] \<longrightarrow> (v \<in> set (df ! x) \<longleftrightarrow> (\<exists>y. v = int y \<and> in_frontier (succs cfg) x y)))"

definition analysed :: "hlsl_control_flow_graph \<Rightarrow> bool" where
  "analysed cfg \<longleftrightarrow> graph_ok cfg \<and> (\<exists>idom df counts. cfg_idom cfg = Some idom \<and> cfg_df cfg = Some df \<and> cfg_df_count cfg = Some counts \<and>
     exact_tree cfg idom \<and> frontiers_exact cfg df counts)"

abbreviation (input) with_dominance :: "hlsl_control_flow_graph \<Rightarrow> int list \<Rightarrow> int list list \<Rightarrow> int list \<Rightarrow> hlsl_control_flow_graph" where
  "with_dominance cfg idom df counts \<equiv> cfg\<lparr>cfg_idom := Some idom, cfg_df := Some df, cfg_df_count := Some counts\<rparr>"

lemma same_graph:
  "block_total (with_dominance cfg idom df counts) = block_total cfg" "blk (with_dominance cfg idom df counts) = blk cfg"
  "succs (with_dominance cfg idom df counts) = succs cfg" "preds (with_dominance cfg idom df counts) = preds cfg"
  "graph_ok (with_dominance cfg idom df counts) = graph_ok cfg"
proof -
  show s: "block_total (with_dominance cfg idom df counts) = block_total cfg" "blk (with_dominance cfg idom df counts) = blk cfg"
    by (simp_all add: block_total_def blk_def fun_eq_iff)
  show e: "succs (with_dominance cfg idom df counts) = succs cfg" "preds (with_dominance cfg idom df counts) = preds cfg"
    by (simp_all add: succs_def preds_def s fun_eq_iff)
  show "graph_ok (with_dominance cfg idom df counts) = graph_ok cfg" unfolding graph_ok_def s e by simp
qed

lemma same_search: "finish_order (with_dominance cfg idom df counts) = finish_order cfg"
proof -
  let ?cfg = "with_dominance cfg idom df counts"
  have "block_at ?cfg = (block_at cfg :: _ \<Rightarrow> (unit, _) outcome)" "successor_at ?cfg = (successor_at cfg :: _ \<Rightarrow> _ \<Rightarrow> (unit, _) outcome)"
    "cfg_block_count ?cfg = cfg_block_count cfg" by (simp_all add: fun_eq_iff block_at_def successor_at_def)
  then have "dfs_step ?cfg = dfs_step cfg" unfolding dfs_step_def [abs_def] by presburger
  then have "dfs_loop fuel ?cfg s = dfs_loop fuel cfg s" for fuel s
    by (induction fuel arbitrary: s) (auto split: list.split cong: obind_cong)
  moreover have "dfs_fuel ?cfg = dfs_fuel cfg" by (simp add: dfs_fuel_def split: option.split)
  ultimately show ?thesis by (simp add: finish_order_def same_graph)
qed

lemma same_tree: "exact_tree (with_dominance cfg i df counts) idom = exact_tree cfg idom"
  by (simp add: exact_tree_def tree_array_def same_graph same_search graph_edges_def)

lemma compute_dominance_ok:
  assumes ok: "graph_ok cfg"
  shows "compute_dominance c_malloc uc (Some cfg) = Fail () \<or>
    (\<exists>idom df counts. compute_dominance c_malloc uc (Some cfg) = Done (with_dominance cfg idom df counts) \<and> analysed (with_dominance cfg idom df counts))"
proof (cases "compute_dominance c_malloc uc (Some cfg) = Fail ()")
  case False
  let ?n = "block_total cfg"
  note nz = graph_okD(1,2) [OF ok]
  have body: "compute_dominance c_malloc uc (Some cfg) = obind (immediate_dominators c_malloc uc cfg) (\<lambda>idom.
      obind (ofold (frontier_block c_malloc uc cfg idom) (map int [0..<?n]) (replicate ?n [], replicate ?n 0)) (\<lambda>(frontiers, counts).
      Done (with_dominance cfg idom frontiers counts)))"
    using False nz by (auto simp: compute_dominance_def Let_def counting_int split: if_splits)
  then obtain idom where i: "immediate_dominators c_malloc uc cfg = Done idom" "exact_tree cfg idom"
    using immediate_dominators_ok [OF ok, of c_malloc uc] False by auto
  have z: "front_ok ?n (replicate ?n [], replicate ?n 0)" "front_pairs (replicate ?n [], replicate ?n 0) = {}" by (auto simp: front_ok_def front_pairs_def)
  have "set [0..<?n] \<subseteq> {..<?n}" by auto
  from frontiers_ok [OF ok i(2) this z(1), of c_malloc uc] obtain df counts where
    f: "ofold (frontier_block c_malloc uc cfg idom) (map int [0..<?n]) (replicate ?n [], replicate ?n 0) = Done (df, counts)" "front_ok ?n (df, counts)"
      "front_pairs (df, counts) = (\<Union>y<?n. join_pairs cfg idom y)" using False body i(1) z(2) by (auto simp: lessThan_atLeast0)
  have "v \<in> set (df ! x) \<longleftrightarrow> (\<exists>y. v = int y \<and> in_frontier (succs cfg) x y)" if x: "x < ?n" "v \<noteq> 0 \<or> preds cfg 0 = []" for x v
  proof -
    have "v \<in> set (df ! x) \<longleftrightarrow> (x, v) \<in> front_pairs (df, counts)" using x(1) f(2) by (simp add: front_pairs_def front_ok_def)
    also have "\<dots> \<longleftrightarrow> (\<exists>y<?n. v = int y \<and> (x, int y) \<in> join_pairs cfg idom y)" unfolding f(3) by (auto simp: join_pairs_def runner_pairs_def split: if_splits)
    also have "\<dots> \<longleftrightarrow> (\<exists>y<?n. v = int y \<and> in_frontier (succs cfg) x y)"
    proof -
      have "(x, int y) \<in> join_pairs cfg idom y \<longleftrightarrow> in_frontier (succs cfg) x y" if y: "y < ?n" "v = int y" for y
      proof (cases "y = 0")
        case True
        then have "preds cfg 0 = []" using x(2) y(2) by simp
        moreover have "\<not> in_frontier (succs cfg) x 0" using calculation graph_okD(7) [OF ok, of 0] graph_okD(8) [OF ok] nz by (auto simp: in_frontier_def dest: reachable_block [OF ok])
        ultimately show ?thesis using True by (simp add: join_pairs_def)
      qed (rule join_frontier [OF ok i(2)])
      then show ?thesis by blast
    qed
    also have "\<dots> \<longleftrightarrow> (\<exists>y. v = int y \<and> in_frontier (succs cfg) x y)" using graph_okD(8) [OF ok] by (auto simp: in_frontier_def)
    finally show ?thesis .
  qed
  then have "frontiers_exact cfg df counts" using f(2) by (simp add: frontiers_exact_def)
  then have "analysed (with_dominance cfg idom df counts)"
    using ok i(2) by (auto simp: analysed_def same_graph same_tree frontiers_exact_def)
  then show ?thesis using body i(1) f(1) by auto
qed simp

section \<open>Dominance queries\<close>

lemma climb_to_ok:
  assumes ok: "graph_ok cfg" and e: "exact_tree cfg idom"
  shows "b \<in> dom (par_of idom) \<Longrightarrow> num_of (finish_order cfg) 0 - num_of (finish_order cfg) b < steps \<Longrightarrow>
    climb_to steps (int (block_total cfg)) idom (int d) (int b) = Done (ancestor (par_of idom) d b)"
proof (induction steps arbitrary: b)
  case (Suc steps)
  let ?par = "par_of idom" and ?num = "num_of (finish_order cfg)"
  have tree: "dominance.tree cfg ?par" and len: "length idom = block_total cfg" using e by (simp_all add: exact_tree_def tree_array_def)
  obtain p where p: "?par b = Some p" using Suc.prems(1) by blast
  note pd = dominance.treeD [OF tree p]
  have at: "at idom (int b) = (Done (int p) :: (unit, int) outcome)" using p by (auto simp: par_of_def at_def split: if_splits)
  have pr: "reachable (graph_edges cfg) p" using pd(2) dominance.treeD(1) [OF tree] by blast
  then have pn: "p < block_total cfg" using reachable_block [OF ok] ok by (simp add: graph_edges_def)
  show ?case
  proof (cases "b = 0")
    case True
    then have "p = 0" using pd(4) by simp
    then have "climb_to (Suc steps) (int (block_total cfg)) idom (int d) (int b) = Done (d = 0)" using at True by auto
    then show ?thesis using dominance.ancestor_entry [OF tree, of d] True by simp
  next
    case False
    have "?num p \<le> ?num 0" using dominance.num_entry [OF pr] by (cases "p = 0") auto
    then have fuel: "?num 0 - ?num p < steps" using Suc.prems(2) pd(3) [OF False] by simp
    have "p \<noteq> b" using pd(3) [OF False] by auto
    then have "climb_to (Suc steps) (int (block_total cfg)) idom (int d) (int b) = (if b = d then Done True else Done (ancestor ?par d p))"
      using at pn Suc.IH [OF pd(2) fuel] by simp
    then show ?thesis using ancestor_iff [of ?par b p d, OF p] by auto
  qed
qed simp

lemma cfg_dominates_ok:
  assumes "analysed cfg"
  shows "hlsl_cfg_dominates (Some cfg) d b = Done (\<exists>d' b'. d = int d' \<and> b = int b' \<and> reachable (succs cfg) b' \<and> dominating (succs cfg) d' b')"
proof -
  let ?n = "block_total cfg"
  obtain idom where i: "cfg_idom cfg = Some idom" "exact_tree cfg idom" and ok: "graph_ok cfg" using assms by (auto simp: analysed_def)
  have len: "length idom = ?n" and tree: "dominance.tree cfg (par_of idom)" using i(2) by (simp_all add: exact_tree_def tree_array_def)
  note n = graph_okD(1) [OF ok]
  have in_tree: "d' \<in> dom (par_of idom)" if "reachable (succs cfg) b'" "dominating (succs cfg) d' b'" for d' b'
    using that i(2) dominance.ancestor_num [OF _ tree] unfolding exact_tree_def by blast
  show ?thesis
  proof (cases "0 \<le> d \<and> d < int ?n \<and> 0 \<le> b \<and> b < int ?n")
    case True
    then obtain d' b' where db: "d = int d'" "b = int b'" "d' < ?n" "b' < ?n" by (metis nonneg_int_cases of_nat_less_iff)
    have sign: "idom ! d' < 0 \<longleftrightarrow> d' \<notin> dom (par_of idom)" "idom ! b' < 0 \<longleftrightarrow> b' \<notin> dom (par_of idom)" using par_of_sign db len by auto
    have "hlsl_cfg_dominates (Some cfg) d b = (if idom ! d' < 0 \<or> idom ! b' < 0 then Done False else climb_to ?n (int ?n) idom (int d') (int b'))"
      using db len n by (simp add: hlsl_cfg_dominates_def i(1))
    also have "\<dots> = Done (reachable (succs cfg) b' \<and> dominating (succs cfg) d' b')"
    proof (cases "d' \<in> dom (par_of idom) \<and> b' \<in> dom (par_of idom)")
      case True
      have "num_of (finish_order cfg) 0 - num_of (finish_order cfg) b' < ?n" using entry_number(1) [OF ok] by simp
      then show ?thesis using True sign climb_to_ok [OF ok i(2), of b' ?n d'] i(2) by (simp add: exact_tree_def)
    next
      case False
      then show ?thesis using sign in_tree [of b' d'] i(2) by (auto simp: exact_tree_def)
    qed
    finally show ?thesis using db by auto
  next
    case False
    moreover have "d' < ?n \<and> b' < ?n" if "reachable (succs cfg) b'" "dominating (succs cfg) d' b'" for d' b'
      using that reachable_block [OF ok] in_tree [OF that] len by (auto simp: par_of_def split: if_splits)
    ultimately show ?thesis using n by (auto simp: hlsl_cfg_dominates_def i(1))
  qed
qed

section \<open>Unavoidable blocks\<close>

abbreviation (input) leaving :: "hlsl_control_flow_graph \<Rightarrow> nat \<Rightarrow> bool" where
  "leaving cfg b \<equiv> bb_may_exit (blk cfg b)"

text \<open>The worklist while the predecessors \<open>D\<close> of its block \<open>w\<close> are done, after the blocks \<open>W\<close>.\<close>

definition counts_ok :: "hlsl_control_flow_graph \<Rightarrow> nat set \<Rightarrow> nat set \<Rightarrow> int list \<Rightarrow> nat list \<Rightarrow> bool" where
  "counts_ok cfg W D remaining queue \<longleftrightarrow> length remaining = block_total cfg \<and>
     (\<forall>b<block_total cfg. if b \<in> set queue then remaining ! b = 0
        else reachable (succs cfg) b \<longrightarrow> \<not> leaving cfg b \<longrightarrow> succs cfg b \<noteq> [] \<longrightarrow>
          0 < remaining ! b \<and> remaining ! b + int (card (set (succs cfg b) \<inter> W)) + (if b \<in> D then 1 else 0) = int (length (succs cfg b)))"

definition queue_ok :: "hlsl_control_flow_graph \<Rightarrow> nat \<Rightarrow> nat \<Rightarrow> nat list \<Rightarrow> bool" where
  "queue_ok cfg start target queue \<longleftrightarrow> distinct queue \<and> target \<in> set queue \<and> start \<notin> set queue \<and>
     (\<forall>b\<in>set queue. reachable (succs cfg) b \<and> inevitable (succs cfg) (leaving cfg) target b)"

lemma queue_room:
  assumes "graph_ok cfg" "distinct queue" "\<forall>b\<in>set queue. reachable (succs cfg) b" "p < block_total cfg" "p \<notin> set queue"
  shows "length queue < block_total cfg"
proof -
  have "set (p # queue) \<subseteq> {..<block_total cfg}" using assms reachable_block [OF assms(1)] by auto
  then have "card (set (p # queue)) \<le> block_total cfg" using card_mono [of "{..<block_total cfg}"] by simp
  then show ?thesis using assms(2,5) by (simp add: distinct_card)
qed

lemma prove_turn:
  assumes ok: "graph_ok cfg" and e: "exact_tree cfg idom" and w: "w \<in> set queue" "w \<notin> W" "W \<subseteq> set queue"
    and p: "w \<in> set (succs cfg p)" "p \<notin> D" and c: "counts_ok cfg W D remaining queue" and q: "queue_ok cfg start target queue"
    and g: "g = (\<lambda>predecessor s. let (remaining, queue) = s in
     if predecessor < 0 \<or> predecessor \<ge> cfg_block_count cfg then Fail False
     else obind (at idom predecessor) (\<lambda>d. obind (block_at cfg predecessor) (\<lambda>p. obind (at remaining predecessor) (\<lambda>r.
     if d < 0 \<or> bb_may_exit p \<or> r \<le> 0 then Done (remaining, queue)
     else obind (put remaining predecessor (r - 1)) (\<lambda>remaining.
       if r - 1 = 0 then
         if predecessor = int start then Fail True
         else if length queue < nat (cfg_block_count cfg) then Done (remaining, queue @ [predecessor]) else Fault
       else Done (remaining, queue))))))"
  shows "g (int p) (remaining, map int queue) = Fail True \<and> inevitable (succs cfg) (leaving cfg) target start \<or>
    (\<exists>remaining' more. g (int p) (remaining, map int queue) = Done (remaining', map int (queue @ more)) \<and>
       counts_ok cfg W (insert p D) remaining' (queue @ more) \<and> queue_ok cfg start target (queue @ more))"
proof -
  let ?n = "block_total cfg" and ?E = "succs cfg"
  have pn: "p < ?n" using graph_okD(8) [OF ok p(1)] by simp
  have len: "length idom = ?n" "length remaining = ?n" using e c by (simp_all add: exact_tree_def tree_array_def counts_ok_def)
  have reach: "idom ! p < 0 \<longleftrightarrow> \<not> reachable ?E p" using par_of_sign [of p idom] pn len e by (simp add: exact_tree_def)
  note n = graph_okD(1) [OF ok]
  have val: "g (int p) (remaining, map int queue) = (if idom ! p < 0 \<or> leaving cfg p \<or> remaining ! p \<le> 0 then Done (remaining, map int queue)
      else if remaining ! p = 1 then if p = start then Fail True else if length queue < ?n then Done (remaining[p := 0], map int (queue @ [p])) else Fault
      else Done (remaining[p := remaining ! p - 1], map int queue))"
    using pn len n by (simp add: g block_at_ok [OF ok pn])
  have ne: "?E p \<noteq> []" using p(1) by auto
  show ?thesis
  proof (cases "idom ! p < 0 \<or> leaving cfg p \<or> remaining ! p \<le> 0")
    case True
    have "p \<in> set queue \<or> \<not> reachable ?E p \<or> leaving cfg p" using c pn True reach ne unfolding counts_ok_def by fastforce
    then have "counts_ok cfg W (insert p D) remaining queue" using c unfolding counts_ok_def by auto
    then show ?thesis using True val q by (intro disjI2 exI [of _ remaining] exI [of _ "[]"]) simp
  next
    case False
    then have p': "reachable ?E p" "\<not> leaving cfg p" "0 < remaining ! p" using reach by auto
    have notq: "p \<notin> set queue" using c pn p'(3) by (auto simp: counts_ok_def)
    then have sum: "remaining ! p + int (card (set (?E p) \<inter> W)) = int (length (?E p))" using c pn p' ne p(2) by (auto simp: counts_ok_def)
    show ?thesis
    proof (cases "remaining ! p = 1")
      case True
      have "card (set (?E p) \<inter> W) + 1 = card (set (?E p))" using sum True distinct_card [OF graph_okD(5) [OF ok, of p]] by simp
      moreover have "set (?E p) \<inter> W \<subseteq> set (?E p) - {w}" using w(2) by auto
      moreover have "card (set (?E p) - {w}) + 1 = card (set (?E p))" using p(1) card_Suc_Diff1 [of "set (?E p)" w] by simp
      ultimately have "set (?E p) \<inter> W = set (?E p) - {w}" using card_subset_eq [of "set (?E p) - {w}" "set (?E p) \<inter> W"] by simp
      then have "set (?E p) \<subseteq> set queue" using w(1,3) by blast
      then have inev: "inevitable ?E (leaving cfg) target p" using q p'(2) ne unfolding queue_ok_def by (blast intro: inevitable_step)
      have room: "length queue < ?n" using queue_room [OF ok _ _ pn notq] q by (simp add: queue_ok_def)
      have cp: "counts_ok cfg W (insert p D) (remaining[p := 0]) (queue @ [p])" using c pn unfolding counts_ok_def by (auto simp: nth_list_update)
      have qp: "queue_ok cfg start target (queue @ [p])" if "p \<noteq> start" using q notq p'(1) inev that by (auto simp: queue_ok_def)
      show ?thesis
      proof (cases "p = start")
        case False
        then show ?thesis using val \<open>\<not> (idom ! p < 0 \<or> leaving cfg p \<or> remaining ! p \<le> 0)\<close> True room cp qp
          by (intro disjI2 exI [of _ "remaining[p := 0]"] exI [of _ "[p]"]) simp
      qed (use val False True inev in auto)
    next
      case False
      then have "counts_ok cfg W (insert p D) (remaining[p := remaining ! p - 1]) queue" using c pn notq p' p(2) sum unfolding counts_ok_def by (auto simp: nth_list_update)
      then show ?thesis using val False q \<open>\<not> (idom ! p < 0 \<or> leaving cfg p \<or> remaining ! p \<le> 0)\<close>
        by (intro disjI2 exI [of _ "remaining[p := remaining ! p - 1]"] exI [of _ "[]"]) simp
    qed
  qed
qed

lemma prove_fold:
  assumes ok: "graph_ok cfg" and e: "exact_tree cfg idom" and w: "w \<notin> W"
    and step: "\<And>p D remaining queue. w \<in> set (succs cfg p) \<Longrightarrow> p \<notin> D \<Longrightarrow> w \<in> set queue \<Longrightarrow> W \<subseteq> set queue \<Longrightarrow> counts_ok cfg W D remaining queue \<Longrightarrow>
      queue_ok cfg start target queue \<Longrightarrow>
      g (int p) (remaining, map int queue) = Fail True \<and> inevitable (succs cfg) (leaving cfg) target start \<or>
      (\<exists>remaining' more. g (int p) (remaining, map int queue) = Done (remaining', map int (queue @ more)) \<and>
         counts_ok cfg W (insert p D) remaining' (queue @ more) \<and> queue_ok cfg start target (queue @ more))"
  shows "\<forall>p\<in>set ps. w \<in> set (succs cfg p) \<and> p \<notin> D \<Longrightarrow> distinct ps \<Longrightarrow> w \<in> set queue \<Longrightarrow> W \<subseteq> set queue \<Longrightarrow> counts_ok cfg W D remaining queue \<Longrightarrow>
    queue_ok cfg start target queue \<Longrightarrow>
    ofold (\<lambda>p. g (int p)) ps (remaining, map int queue) = Fail True \<and> inevitable (succs cfg) (leaving cfg) target start \<or>
    (\<exists>remaining' more. ofold (\<lambda>p. g (int p)) ps (remaining, map int queue) = Done (remaining', map int (queue @ more)) \<and>
       counts_ok cfg W (D \<union> set ps) remaining' (queue @ more) \<and> queue_ok cfg start target (queue @ more))"
proof (induction ps arbitrary: D remaining queue)
  case Nil
  then show ?case by (intro disjI2 exI [of _ remaining] exI [of _ "[]"]) simp
next
  case (Cons p ps)
  from step [of p D queue remaining] Cons.prems
  consider "g (int p) (remaining, map int queue) = Fail True" "inevitable (succs cfg) (leaving cfg) target start"
    | remaining' more where "g (int p) (remaining, map int queue) = Done (remaining', map int (queue @ more))"
      "counts_ok cfg W (insert p D) remaining' (queue @ more)" "queue_ok cfg start target (queue @ more)" by auto
  then show ?case
  proof cases
    case (2 r more)
    have "\<forall>q\<in>set ps. w \<in> set (succs cfg q) \<and> q \<notin> insert p D" "distinct ps" "w \<in> set (queue @ more)" "W \<subseteq> set (queue @ more)" using Cons.prems by auto
    from Cons.IH [OF this 2(2,3)] show ?thesis
    proof
      assume "\<exists>r' more'. ofold (\<lambda>p. g (int p)) ps (r, map int (queue @ more)) = Done (r', map int ((queue @ more) @ more')) \<and>
        counts_ok cfg W (insert p D \<union> set ps) r' ((queue @ more) @ more') \<and> queue_ok cfg start target ((queue @ more) @ more')"
      then obtain r' more' where "ofold (\<lambda>p. g (int p)) ps (r, map int (queue @ more)) = Done (r', map int (queue @ more @ more'))"
        "counts_ok cfg W (insert p D \<union> set ps) r' (queue @ more @ more')" "queue_ok cfg start target (queue @ more @ more')" by auto
      then show ?thesis using 2(1) by (intro disjI2 exI [of _ r'] exI [of _ "more @ more'"]) simp
    qed (use 2(1) in simp)
  qed simp
qed

lemma counts_done:
  assumes ok: "graph_ok cfg" and w: "w \<notin> W" "w < block_total cfg" and c: "counts_ok cfg W (set (preds cfg w)) remaining queue"
  shows "counts_ok cfg (insert w W) {} remaining queue"
proof -
  have "card (set (succs cfg b) \<inter> insert w W) = card (set (succs cfg b) \<inter> W) + (if b \<in> set (preds cfg w) then 1 else 0)" if "b < block_total cfg" for b
    using that w graph_okD(7) [OF ok w(2), of b] by (cases "w \<in> set (succs cfg b)") auto
  then show ?thesis using c unfolding counts_ok_def by auto
qed

lemma prove_block:
  assumes ok: "graph_ok cfg" and e: "exact_tree cfg idom" and w: "w \<in> set queue" "w \<notin> W" "W \<subseteq> set queue"
    and c: "counts_ok cfg W {} remaining queue" and q: "queue_ok cfg start target queue"
  shows "ofold (prove_predecessor cfg idom (int start) (blk cfg w)) (counting 0 (bb_predecessor_count (blk cfg w))) (remaining, map int queue) = Fail True \<and>
      inevitable (succs cfg) (leaving cfg) target start \<or>
    (\<exists>remaining' more. ofold (prove_predecessor cfg idom (int start) (blk cfg w)) (counting 0 (bb_predecessor_count (blk cfg w))) (remaining, map int queue) =
        Done (remaining', map int (queue @ more)) \<and> counts_ok cfg (insert w W) {} remaining' (queue @ more) \<and> queue_ok cfg start target (queue @ more))"
proof -
  define g :: "int \<Rightarrow> int list \<times> int list \<Rightarrow> (bool, int list \<times> int list) outcome" where "g = (\<lambda>predecessor s. let (remaining, queue) = s in
     if predecessor < 0 \<or> predecessor \<ge> cfg_block_count cfg then Fail False
     else obind (at idom predecessor) (\<lambda>d. obind (block_at cfg predecessor) (\<lambda>p. obind (at remaining predecessor) (\<lambda>r.
     if d < 0 \<or> bb_may_exit p \<or> r \<le> 0 then Done (remaining, queue)
     else obind (put remaining predecessor (r - 1)) (\<lambda>remaining.
       if r - 1 = 0 then
         if predecessor = int start then Fail True
         else if length queue < nat (cfg_block_count cfg) then Done (remaining, queue @ [predecessor]) else Fault
       else Done (remaining, queue))))))"
  have wn: "w < block_total cfg" using q w(1) reachable_block [OF ok] by (auto simp: queue_ok_def)
  have "prove_predecessor cfg idom (int start) (blk cfg w) = (\<lambda>e s. obind (predecessor_at cfg (blk cfg w) e) (\<lambda>p. g p s))"
    by (intro ext) (simp add: prove_predecessor_def g_def Let_def split: prod.split)
  then have fold: "ofold (prove_predecessor cfg idom (int start) (blk cfg w)) (counting 0 (bb_predecessor_count (blk cfg w))) (remaining, map int queue) =
      ofold (\<lambda>p. g (int p)) (preds cfg w) (remaining, map int queue)" using fold_predecessors [OF ok wn] by simp
  have ps: "\<forall>p\<in>set (preds cfg w). w \<in> set (succs cfg p) \<and> p \<notin> {}" using graph_okD(7) [OF ok wn] by blast
  have step: "g (int p) (remaining, map int queue) = Fail True \<and> inevitable (succs cfg) (leaving cfg) target start \<or>
      (\<exists>remaining' more. g (int p) (remaining, map int queue) = Done (remaining', map int (queue @ more)) \<and>
         counts_ok cfg W (insert p D) remaining' (queue @ more) \<and> queue_ok cfg start target (queue @ more))"
    if "w \<in> set (succs cfg p)" "p \<notin> D" "w \<in> set queue" "W \<subseteq> set queue" "counts_ok cfg W D remaining queue" "queue_ok cfg start target queue" for p D remaining queue
    by (rule prove_turn [OF ok e that(3) w(2) that(4,1,2,5,6) g_def])
  show ?thesis unfolding fold
    using prove_fold [OF ok e w(2) step ps graph_okD(6) [OF ok] w(1,3) c q] counts_done [OF ok w(2) wn] by auto
qed

lemma worklist_complete:
  assumes c: "counts_ok cfg (set queue) {} remaining queue" and q: "queue_ok cfg start target queue"
  shows "inevitable (succs cfg) (leaving cfg) target b \<Longrightarrow> reachable (succs cfg) b \<Longrightarrow> b < block_total cfg \<Longrightarrow>
    (\<And>x y. y \<in> set (succs cfg x) \<Longrightarrow> y < block_total cfg) \<Longrightarrow> distinct (succs cfg b) \<Longrightarrow> (\<And>x. distinct (succs cfg x)) \<Longrightarrow> b \<in> set queue"
proof (induction rule: inevitable.induct)
  case inevitable_here
  then show ?case using q by (simp add: queue_ok_def)
next
  case (inevitable_step b)
  have "set (succs cfg b) \<subseteq> set queue" using inevitable_step reachable_step by blast
  then have "card (set (succs cfg b) \<inter> set queue) = length (succs cfg b)" using inevitable_step.prems(4) by (simp add: Int_absorb2 distinct_card)
  note full = this
  have at: "b \<in> set queue" if "b \<notin> set queue \<Longrightarrow> False" using that by blast
  show ?case
  proof (rule at)
    assume out: "b \<notin> set queue"
    have "0 < remaining ! b \<and> remaining ! b + int (card (set (succs cfg b) \<inter> set queue)) = int (length (succs cfg b))"
      using spec [OF conjunct2 [OF c [unfolded counts_ok_def]], of b] out inevitable_step.hyps(1,2) inevitable_step.prems(1,2) by simp
    then show False using full by auto
  qed
qed

lemma must_reach_loop_ok:
  assumes ok: "graph_ok cfg" and e: "exact_tree cfg idom" and s: "reachable (succs cfg) start"
  shows "counts_ok cfg (set (take h queue)) {} remaining queue \<Longrightarrow> queue_ok cfg start target queue \<Longrightarrow> h \<le> length queue \<Longrightarrow> block_total cfg < fuel + h \<Longrightarrow>
    cleanup (must_reach_loop fuel cfg idom (int start) h (remaining, map int queue)) = Done (inevitable (succs cfg) (leaving cfg) target start)"
proof (induction fuel arbitrary: h queue remaining)
  case 0
  have "set queue \<subseteq> {..<block_total cfg}" using 0(2) reachable_block [OF ok] by (auto simp: queue_ok_def)
  then have "length queue \<le> block_total cfg" using card_mono [of "{..<block_total cfg}" "set queue"] 0(2) by (simp add: queue_ok_def distinct_card)
  then show ?case using 0 by simp
next
  case (Suc fuel)
  show ?case
  proof (cases "h < length queue")
    case False
    then have all: "counts_ok cfg (set queue) {} remaining queue" using Suc.prems by simp
    have "start \<notin> set queue" using Suc.prems(2) by (simp add: queue_ok_def)
    then have "\<not> inevitable (succs cfg) (leaving cfg) target start"
      using worklist_complete [OF all Suc.prems(2) _ s reachable_block [OF ok s]] graph_okD(5,8) [OF ok] by blast
    then show ?thesis using False by simp
  next
    case True
    let ?w = "queue ! h"
    have d: "distinct queue" "?w \<in> set queue" using Suc.prems(2) True by (simp_all add: queue_ok_def)
    have wn: "?w < block_total cfg" using Suc.prems(2) d(2) reachable_block [OF ok] by (auto simp: queue_ok_def)
    have tk: "set (take (Suc h) queue) = insert ?w (set (take h queue))" using True by (simp add: take_Suc_conv_app_nth)
    have nw: "?w \<notin> set (take h queue)" using d(1) True distinct_take [of queue "Suc h"] by (simp add: take_Suc_conv_app_nth)
    have sub: "set (take h queue) \<subseteq> set queue" by (rule set_take_subset)
    from prove_block [OF ok e d(2) nw sub Suc.prems(1,2)]
    consider "ofold (prove_predecessor cfg idom (int start) (blk cfg ?w)) (counting 0 (bb_predecessor_count (blk cfg ?w))) (remaining, map int queue) = Fail True"
        "inevitable (succs cfg) (leaving cfg) target start"
      | r more where "ofold (prove_predecessor cfg idom (int start) (blk cfg ?w)) (counting 0 (bb_predecessor_count (blk cfg ?w))) (remaining, map int queue) = Done (r, map int (queue @ more))"
        "counts_ok cfg (insert ?w (set (take h queue))) {} r (queue @ more)" "queue_ok cfg start target (queue @ more)" by blast
    then show ?thesis
    proof cases
      case 1
      then show ?thesis using True by (simp add: block_at_ok [OF ok wn])
    next
      case (2 r more)
      have "counts_ok cfg (set (take (Suc h) (queue @ more))) {} r (queue @ more)" using 2(2) True tk by simp
      from Suc.IH [OF this 2(3)] have "cleanup (must_reach_loop fuel cfg idom (int start) (Suc h) (r, map int (queue @ more))) = Done (inevitable (succs cfg) (leaving cfg) target start)"
        using True Suc.prems(4) by simp
      then show ?thesis using True 2(1) by (simp add: block_at_ok [OF ok wn])
    qed
  qed
qed

lemma remaining_start:
  assumes "graph_ok cfg"
  shows "(ofold (\<lambda>block remaining. obind (block_at cfg block) (\<lambda>b. Done (remaining @ [bb_successor_count b]))) (counting 0 (cfg_block_count cfg)) [] :: (bool, int list) outcome) =
    Done (map (\<lambda>b. int (length (succs cfg b))) [0..<block_total cfg])"
proof -
  have "(ofold (\<lambda>block remaining. obind (block_at cfg block) (\<lambda>b. Done (remaining @ [bb_successor_count b]))) (map int bs) acc :: (bool, int list) outcome) =
      Done (acc @ map (\<lambda>b. int (length (succs cfg b))) bs)" if "set bs \<subseteq> {..<block_total cfg}" for bs acc
    using that by (induction bs arbitrary: acc) (auto simp: block_at_ok [OF assms] graph_okD(3) [OF assms])
  from this [of "[0..<block_total cfg]" "[]"] show ?thesis using graph_okD(1) [OF assms] by (simp add: counting_int lessThan_atLeast0)
qed

lemma cfg_must_reach_ok:
  assumes "analysed cfg"
  shows "hlsl_cfg_must_reach c_malloc uc (Some cfg) a b = Done False \<or>
    hlsl_cfg_must_reach c_malloc uc (Some cfg) a b = Done (\<exists>s t. a = int s \<and> b = int t \<and> reachable (succs cfg) s \<and> reachable (succs cfg) t \<and> inevitable (succs cfg) (leaving cfg) t s)"
    "exact_size_checks uc \<Longrightarrow> block_total cfg \<le> INT_MAX \<Longrightarrow> c_malloc (block_total cfg * 4) \<Longrightarrow>
    hlsl_cfg_must_reach c_malloc uc (Some cfg) a b = Done (\<exists>s t. a = int s \<and> b = int t \<and> reachable (succs cfg) s \<and> reachable (succs cfg) t \<and> inevitable (succs cfg) (leaving cfg) t s)"
proof -
  let ?n = "block_total cfg" and ?E = "succs cfg"
  let ?goal = "\<exists>s t. a = int s \<and> b = int t \<and> reachable ?E s \<and> reachable ?E t \<and> inevitable ?E (leaving cfg) t s"
  obtain idom where i: "cfg_idom cfg = Some idom" "exact_tree cfg idom" and ok: "graph_ok cfg" using assms by (auto simp: analysed_def)
  have len: "length idom = ?n" using i(2) by (simp add: exact_tree_def tree_array_def)
  note n = graph_okD(1) [OF ok]
  have result: "hlsl_cfg_must_reach c_malloc uc (Some cfg) a b = (if ?goal \<and> \<not> size_multiply_overflows uc ?n 4 \<and> (a = b \<or> c_malloc (?n * 4)) then Done True else Done False)"
  proof (cases "0 \<le> a \<and> a < int ?n \<and> 0 \<le> b \<and> b < int ?n")
    case False
    then have "\<not> ?goal" using reachable_block [OF ok] by auto
    then show ?thesis using False n by (auto simp: hlsl_cfg_must_reach_def i(1))
  next
    case True
    then obtain s t where st: "a = int s" "b = int t" "s < ?n" "t < ?n" by (metis nonneg_int_cases of_nat_less_iff)
    have sign: "idom ! s < 0 \<longleftrightarrow> \<not> reachable ?E s" "idom ! t < 0 \<longleftrightarrow> \<not> reachable ?E t" using par_of_sign st len i(2) by (auto simp: exact_tree_def)
    obtain bs where blocks: "cfg_blocks cfg = Some bs" using ok by (auto simp: graph_ok_def)
    let ?rem = "(map (\<lambda>b. int (length (?E b))) [0..<?n])[t := 0]"
    have run: "cleanup (must_reach_loop (?n + 1) cfg idom (int s) 0 (?rem, [int t])) = Done (inevitable ?E (leaving cfg) t s)"
      if "reachable ?E s" "reachable ?E t" "s \<noteq> t"
    proof -
      have "counts_ok cfg (set (take 0 [t])) {} ?rem [t]" by (auto simp: counts_ok_def nth_list_update)
      moreover have "queue_ok cfg s t [t]" using that inevitable_here by (auto simp: queue_ok_def)
      ultimately show ?thesis using must_reach_loop_ok [OF ok i(2) that(1), of 0 "[t]" ?rem t "?n + 1"] by simp
    qed
    have "hlsl_cfg_must_reach c_malloc uc (Some cfg) a b =
      (if \<not> reachable ?E s \<or> \<not> reachable ?E t \<or> size_multiply_overflows uc ?n 4 then Done False else if s = t then Done True
       else if \<not> c_malloc (?n * 4) then Done False else cleanup (must_reach_loop (?n + 1) cfg idom (int s) 0 (?rem, [int t])))"
      using st n len blocks sign by (simp add: hlsl_cfg_must_reach_def i(1) remaining_start [OF ok, unfolded n] Let_def del: must_reach_loop.simps)
    then show ?thesis using run st inevitable_here by auto
  qed
  then show "hlsl_cfg_must_reach c_malloc uc (Some cfg) a b = Done False \<or> hlsl_cfg_must_reach c_malloc uc (Some cfg) a b = Done ?goal" by auto
  assume "exact_size_checks uc" "?n \<le> INT_MAX" "c_malloc (?n * 4)"
  then show "hlsl_cfg_must_reach c_malloc uc (Some cfg) a b = Done ?goal" using result exact_size_checksD(2) by auto
qed

end
