(* ===== verification/Hlsl_Match.thy ===== *)
theory Hlsl_Match
  imports Hlsl_Dominance
begin

text \<open>
  Matching the structured flow instructions of a program (\<open>match_flow_structure\<close>): what the links between the
  instructions say, and that every instruction of an accepted program leads to instructions of that program or to its end.
\<close>

lemma counting_nat: "counting (int a) (int b) = map int [a..<b]"
  by (rule nth_equalityI) (auto simp: counting_def)

lemma delivers_counting:
  assumes "a \<le> b" "holds a s" "\<And>i s. a \<le> i \<Longrightarrow> i < b \<Longrightarrow> holds i s \<Longrightarrow> delivers (holds (Suc i)) (step (int i) s)"
  shows "delivers (holds b) (ofold step (counting (int a) (int b)) s)"
proof -
  have "delivers (holds (a + length (counting (int a) (int b)))) (ofold step (counting (int a) (int b)) s)"
  proof (rule delivers_ofold [where holds = "\<lambda>k. holds (a + k)"])
    fix k s assume "k < length (counting (int a) (int b))" "holds (a + k) s"
    then show "delivers (holds (a + Suc k)) (step (counting (int a) (int b) ! k) s)"
      using assms(3) [of "a + k" s] by (simp add: counting_nat)
  qed (simp add: assms(2))
  then show ?thesis using assms(1) by (simp add: counting_nat)
qed

lemma modify_int [simp]: "i < length xs \<Longrightarrow> modify xs (int i) f = Done (xs[i := f (xs ! i)])"
  by (simp add: modify_def)

section \<open>Structured flow\<close>

definition opener :: "usil_opcode \<Rightarrow> bool" where "opener opcode \<longleftrightarrow> opcode \<in> {USIL_OP_IF, USIL_OP_LOOP, USIL_OP_SWITCH}"

definition closer_of :: "usil_opcode \<Rightarrow> usil_opcode" where
  "closer_of opcode = (if opcode = USIL_OP_IF then USIL_OP_ENDIF else if opcode = USIL_OP_LOOP then USIL_OP_ENDLOOP else USIL_OP_ENDSWITCH)"

definition is_label :: "usil_opcode \<Rightarrow> bool" where "is_label opcode \<longleftrightarrow> opcode \<in> {USIL_OP_CASE, USIL_OP_DEFAULT}"

definition is_jump :: "usil_opcode \<Rightarrow> bool" where
  "is_jump opcode \<longleftrightarrow> opcode \<in> {USIL_OP_BREAK, USIL_OP_BREAKC, USIL_OP_CONTINUE, USIL_OP_CONTINUEC}"

definition is_closer :: "usil_opcode \<Rightarrow> bool" where "is_closer opcode \<longleftrightarrow> opcode \<in> {USIL_OP_ENDIF, USIL_OP_ENDLOOP, USIL_OP_ENDSWITCH}"

text \<open>
  What the links say once the instructions from \<open>F\<close> up to \<open>i\<close> have been matched, one predicate per link; \<open>active\<close> are
  the constructs still open.
\<close>

definition stack_ok :: "usil_opcode list \<Rightarrow> nat \<Rightarrow> nat \<Rightarrow> (int \<times> int) list \<Rightarrow> bool" where
  "stack_ok ops F i stack \<longleftrightarrow> sorted_wrt (>) (map fst stack) \<and> length stack \<le> MAX_FLOW_DEPTH \<and>
     (\<forall>(s, l)\<in>set stack. int F \<le> s \<and> s < int i \<and> opener (ops ! nat s) \<and> (l = -1 \<or> s < l \<and> l < int i \<and> is_label (ops ! nat l)))"

definition fresh_ok :: "nat \<Rightarrow> nat \<Rightarrow> hlsl_instruction_flow list \<Rightarrow> bool" where
  "fresh_ok F i flow \<longleftrightarrow> (\<forall>j<length flow. j < F \<or> i \<le> j \<longrightarrow> flow ! j = no_links zero_flow)"

definition parent_ok :: "nat \<Rightarrow> nat \<Rightarrow> hlsl_instruction_flow list \<Rightarrow> bool" where
  "parent_ok F i flow \<longleftrightarrow> (\<forall>j<length flow. fl_parent (flow ! j) = -1 \<or> int F \<le> fl_parent (flow ! j) \<and> fl_parent (flow ! j) < int i)"

definition alternate_ok :: "usil_opcode list \<Rightarrow> nat \<Rightarrow> nat \<Rightarrow> hlsl_instruction_flow list \<Rightarrow> bool" where
  "alternate_ok ops F i flow \<longleftrightarrow> (\<forall>j<length flow. fl_alternate (flow ! j) = -1 \<or>
     F \<le> j \<and> int j < fl_alternate (flow ! j) \<and> fl_alternate (flow ! j) < int i \<and> ops ! j = USIL_OP_IF \<and> ops ! nat (fl_alternate (flow ! j)) = USIL_OP_ELSE)"

definition else_ok :: "usil_opcode list \<Rightarrow> nat \<Rightarrow> nat \<Rightarrow> hlsl_instruction_flow list \<Rightarrow> bool" where
  "else_ok ops F i flow \<longleftrightarrow> (\<forall>j. F \<le> j \<and> j < i \<and> ops ! j = USIL_OP_ELSE \<longrightarrow>
     (\<exists>s. F \<le> s \<and> s < j \<and> ops ! s = USIL_OP_IF \<and> fl_alternate (flow ! s) = int j \<and> fl_end (flow ! j) = fl_end (flow ! s)))"

definition closed_at :: "usil_opcode list \<Rightarrow> nat \<Rightarrow> hlsl_instruction_flow list \<Rightarrow> nat \<Rightarrow> bool" where
  "closed_at ops i flow j \<longleftrightarrow> int j < fl_end (flow ! j) \<and> fl_end (flow ! j) < int i \<and> fl_alternate (flow ! j) < fl_end (flow ! j) \<and>
     ops ! nat (fl_end (flow ! j)) = closer_of (ops ! j) \<and> fl_jump_scope (flow ! nat (fl_end (flow ! j))) = int j"

definition end_ok :: "usil_opcode list \<Rightarrow> nat \<Rightarrow> nat \<Rightarrow> int set \<Rightarrow> hlsl_instruction_flow list \<Rightarrow> bool" where
  "end_ok ops F i active flow \<longleftrightarrow> (\<forall>j. F \<le> j \<and> j < i \<and> opener (ops ! j) \<longrightarrow>
     (if int j \<in> active then fl_end (flow ! j) = -1 else closed_at ops i flow j))"

definition close_ok :: "usil_opcode list \<Rightarrow> nat \<Rightarrow> nat \<Rightarrow> hlsl_instruction_flow list \<Rightarrow> bool" where
  "close_ok ops F i flow \<longleftrightarrow> (\<forall>j. F \<le> j \<and> j < i \<and> is_closer (ops ! j) \<longrightarrow>
     (\<exists>s. F \<le> s \<and> s < j \<and> fl_jump_scope (flow ! j) = int s \<and> opener (ops ! s) \<and> closer_of (ops ! s) = ops ! j \<and> fl_end (flow ! s) = int j))"

definition jump_ok :: "usil_opcode list \<Rightarrow> nat \<Rightarrow> nat \<Rightarrow> hlsl_instruction_flow list \<Rightarrow> bool" where
  "jump_ok ops F i flow \<longleftrightarrow> (\<forall>j. F \<le> j \<and> j < i \<and> is_jump (ops ! j) \<longrightarrow>
     (\<exists>s. F \<le> s \<and> s < j \<and> fl_jump_scope (flow ! j) = int s \<and> (fl_end (flow ! s) = -1 \<or> int j < fl_end (flow ! s)) \<and>
        (ops ! s = USIL_OP_LOOP \<or> ops ! s = USIL_OP_SWITCH \<and> ops ! j \<in> {USIL_OP_BREAK, USIL_OP_BREAKC})))"

definition labels_ok :: "usil_opcode list \<Rightarrow> nat \<Rightarrow> hlsl_instruction_flow list \<Rightarrow> bool" where
  "labels_ok ops i flow \<longleftrightarrow> (\<forall>j<length flow. \<forall>l\<in>{fl_first_case (flow ! j), fl_next_case (flow ! j)}.
     l = -1 \<or> int j < l \<and> l < int i \<and> is_label (ops ! nat l))"

definition match_inv :: "usil_opcode list \<Rightarrow> nat \<Rightarrow> nat \<Rightarrow> nat \<Rightarrow> flow_match \<Rightarrow> bool" where
  "match_inv ops N F i m \<longleftrightarrow> length (fm_flow m) = N \<and> stack_ok ops F i (fm_stack m) \<and> fresh_ok F i (fm_flow m) \<and> parent_ok F i (fm_flow m) \<and>
     alternate_ok ops F i (fm_flow m) \<and> else_ok ops F i (fm_flow m) \<and> end_ok ops F i (fst ` set (fm_stack m)) (fm_flow m) \<and>
     close_ok ops F i (fm_flow m) \<and> jump_ok ops F i (fm_flow m) \<and> labels_ok ops i (fm_flow m)"

lemma stack_ok_simps:
  "stack_ok ops F i []"
  "stack_ok ops F i ((s, l) # rest) \<longleftrightarrow> length rest < MAX_FLOW_DEPTH \<and> (\<forall>t\<in>fst ` set rest. t < s) \<and>
     int F \<le> s \<and> s < int i \<and> opener (ops ! nat s) \<and> (l = -1 \<or> s < l \<and> l < int i \<and> is_label (ops ! nat l)) \<and> stack_ok ops F i rest"
  by (auto simp: stack_ok_def)

lemma stack_ok_mono: "stack_ok ops F i stack \<Longrightarrow> stack_ok ops F (Suc i) stack"
  by (fastforce simp: stack_ok_def)

lemma stack_scope: "stack_ok ops F i stack \<Longrightarrow> t \<in> fst ` set stack \<Longrightarrow> int F \<le> t \<and> t < int i \<and> opener (ops ! nat t)"
  by (auto simp: stack_ok_def)

text \<open>The state inside a turn: instruction \<open>i\<close> has its parent and no other link.\<close>

definition turn_ok :: "usil_opcode list \<Rightarrow> nat \<Rightarrow> nat \<Rightarrow> nat \<Rightarrow> flow_match \<Rightarrow> bool" where
  "turn_ok ops N F i m \<longleftrightarrow> i < N \<and> F \<le> i \<and> length (fm_flow m) = N \<and> stack_ok ops F i (fm_stack m) \<and> fresh_ok F (Suc i) (fm_flow m) \<and>
     (\<exists>p. fm_flow m ! i = no_links zero_flow\<lparr>fl_parent := p\<rparr>) \<and> parent_ok F i (fm_flow m) \<and>
     alternate_ok ops F i (fm_flow m) \<and> else_ok ops F i (fm_flow m) \<and> end_ok ops F i (fst ` set (fm_stack m)) (fm_flow m) \<and>
     close_ok ops F i (fm_flow m) \<and> jump_ok ops F i (fm_flow m) \<and> labels_ok ops i (fm_flow m)"

lemma no_links_simps [simp]:
  "fl_end (no_links f) = -1" "fl_alternate (no_links f) = -1" "fl_jump_scope (no_links f) = -1" "fl_first_case (no_links f) = -1"
  "fl_next_case (no_links f) = -1" "fl_parent (no_links f) = -1"
  by (simp_all add: no_links_def)

lemma fresh_link:
  assumes "fresh_ok F i flow" "j < length flow" "i \<le> j"
  shows "flow ! j = no_links zero_flow"
  using assms by (simp add: fresh_ok_def)

lemma end_okD:
  assumes "end_ok ops F i active flow" "F \<le> j" "j < i" "opener (ops ! j)"
  shows "int j \<in> active \<Longrightarrow> fl_end (flow ! j) = -1" "int j \<notin> active \<Longrightarrow> closed_at ops i flow j"
  using assms by (auto simp: end_ok_def)

lemma alternate_okD:
  assumes "alternate_ok ops F i flow" "j < length flow"
  shows "fl_alternate (flow ! j) = -1 \<or> F \<le> j \<and> int j < fl_alternate (flow ! j) \<and> fl_alternate (flow ! j) < int i \<and> ops ! j = USIL_OP_IF \<and>
    ops ! nat (fl_alternate (flow ! j)) = USIL_OP_ELSE"
  using assms by (simp add: alternate_ok_def)

lemma same_links:
  assumes "\<And>j. fl_end (new ! j) = fl_end (flow ! j)" "\<And>j. fl_alternate (new ! j) = fl_alternate (flow ! j)"
    "\<And>j. fl_jump_scope (new ! j) = fl_jump_scope (flow ! j)" "length new = length flow"
  shows "alternate_ok ops F i new = alternate_ok ops F i flow" "else_ok ops F i new = else_ok ops F i flow" "end_ok ops F i active new = end_ok ops F i active flow"
    "close_ok ops F i new = close_ok ops F i flow" "jump_ok ops F i new = jump_ok ops F i flow"
proof -
  have "closed_at ops i new = closed_at ops i flow" by (intro ext) (simp add: closed_at_def assms)
  then show "end_ok ops F i active new = end_ok ops F i active flow" by (simp add: end_ok_def assms)
qed (simp_all add: alternate_ok_def else_ok_def close_ok_def jump_ok_def assms)

lemma turn_start:
  assumes m: "match_inv ops N F i m" and i: "i < N" "F \<le> i" and p: "p = -1 \<or> int F \<le> p \<and> p < int i"
  shows "turn_ok ops N F i (m\<lparr>fm_flow := (fm_flow m)[i := (fm_flow m ! i)\<lparr>fl_parent := p\<rparr>]\<rparr>)"
proof -
  let ?flow = "fm_flow m" and ?new = "(fm_flow m)[i := (fm_flow m ! i)\<lparr>fl_parent := p\<rparr>]"
  have len: "length ?flow = N" using m by (simp add: match_inv_def)
  have nth: "?new ! j = (if j = i then (?flow ! i)\<lparr>fl_parent := p\<rparr> else ?flow ! j)" for j using i len by (simp add: nth_list_update)
  have same: "fl_end (?new ! j) = fl_end (?flow ! j)" "fl_alternate (?new ! j) = fl_alternate (?flow ! j)" "fl_jump_scope (?new ! j) = fl_jump_scope (?flow ! j)"
    "fl_first_case (?new ! j) = fl_first_case (?flow ! j)" "fl_next_case (?new ! j) = fl_next_case (?flow ! j)" for j by (simp_all add: nth)
  have fresh: "?flow ! i = no_links zero_flow" using m i by (auto simp: match_inv_def intro: fresh_link)
  have "fresh_ok F (Suc i) ?new" using m i by (auto simp: match_inv_def fresh_ok_def nth)
  moreover have "parent_ok F i ?new" using m p by (auto simp: match_inv_def parent_ok_def nth)
  moreover have "alternate_ok ops F i ?new" "else_ok ops F i ?new" "end_ok ops F i (fst ` set (fm_stack m)) ?new" "close_ok ops F i ?new" "jump_ok ops F i ?new"
    using m same_links [OF same(1-3) length_list_update] by (simp_all add: match_inv_def)
  moreover have "labels_ok ops i ?new" using m by (simp add: match_inv_def labels_ok_def same)
  moreover have "?new ! i = no_links zero_flow\<lparr>fl_parent := p\<rparr>" using i len fresh by simp
  ultimately show ?thesis using m i by (auto simp: match_inv_def turn_ok_def len)
qed

lemma end_more:
  assumes "end_ok ops F i active flow" "\<And>j. j < i \<Longrightarrow> int j \<in> active' \<longleftrightarrow> int j \<in> active" "opener (ops ! i) \<Longrightarrow> int i \<in> active' \<and> fl_end (flow ! i) = -1"
  shows "end_ok ops F (Suc i) active' flow"
proof -
  have "closed_at ops i flow j \<Longrightarrow> closed_at ops (Suc i) flow j" for j by (simp add: closed_at_def)
  then show ?thesis using assms by (auto simp: end_ok_def less_Suc_eq)
qed

lemma turn_plain:
  assumes m: "turn_ok ops N F i m" and o: "\<not> opener (ops ! i)" "ops ! i \<noteq> USIL_OP_ELSE" "\<not> is_closer (ops ! i)" "\<not> is_jump (ops ! i)"
  shows "match_inv ops N F (Suc i) m"
proof -
  have "parent_ok F (Suc i) (fm_flow m)" using m by (fastforce simp: turn_ok_def parent_ok_def)
  moreover have "alternate_ok ops F (Suc i) (fm_flow m)" using m by (fastforce simp: turn_ok_def alternate_ok_def)
  moreover have "else_ok ops F (Suc i) (fm_flow m)" using m o by (auto simp: turn_ok_def else_ok_def less_Suc_eq)
  moreover have "end_ok ops F (Suc i) (fst ` set (fm_stack m)) (fm_flow m)" using m o(1) by (intro end_more [where active = "fst ` set (fm_stack m)"]) (auto simp: turn_ok_def)
  moreover have "close_ok ops F (Suc i) (fm_flow m)" using m o by (auto simp: turn_ok_def close_ok_def less_Suc_eq)
  moreover have "jump_ok ops F (Suc i) (fm_flow m)" using m o by (auto simp: turn_ok_def jump_ok_def less_Suc_eq)
  moreover have "labels_ok ops (Suc i) (fm_flow m)" using m by (fastforce simp: turn_ok_def labels_ok_def)
  ultimately show ?thesis using m by (simp add: turn_ok_def match_inv_def stack_ok_mono)
qed

lemma turn_open:
  assumes m: "turn_ok ops N F i m" and o: "opener (ops ! i)"
  shows "delivers (match_inv ops N F (Suc i)) (open_scope (int i) m)"
proof -
  have c: "ops ! i \<noteq> USIL_OP_ELSE" "\<not> is_closer (ops ! i)" "\<not> is_jump (ops ! i)" using o by (auto simp: opener_def is_closer_def is_jump_def)
  have new: "fl_end (fm_flow m ! i) = -1" "F \<le> i" using m by (auto simp: turn_ok_def)
  have "parent_ok F (Suc i) (fm_flow m)" using m by (fastforce simp: turn_ok_def parent_ok_def)
  moreover have "alternate_ok ops F (Suc i) (fm_flow m)" using m by (fastforce simp: turn_ok_def alternate_ok_def)
  moreover have "else_ok ops F (Suc i) (fm_flow m)" using m c by (auto simp: turn_ok_def else_ok_def less_Suc_eq)
  moreover have "end_ok ops F (Suc i) (insert (int i) (fst ` set (fm_stack m))) (fm_flow m)" using m new by (intro end_more [where active = "fst ` set (fm_stack m)"]) (auto simp: turn_ok_def)
  moreover have "close_ok ops F (Suc i) (fm_flow m)" using m c by (auto simp: turn_ok_def close_ok_def less_Suc_eq)
  moreover have "jump_ok ops F (Suc i) (fm_flow m)" using m c by (auto simp: turn_ok_def jump_ok_def less_Suc_eq)
  moreover have "labels_ok ops (Suc i) (fm_flow m)" using m by (fastforce simp: turn_ok_def labels_ok_def)
  moreover have "stack_ok ops F (Suc i) ((int i, -1) # fm_stack m)" if "length (fm_stack m) \<noteq> MAX_FLOW_DEPTH"
  proof -
    have st: "stack_ok ops F i (fm_stack m)" using m by (simp add: turn_ok_def)
    have "length (fm_stack m) < MAX_FLOW_DEPTH" using st that by (simp add: stack_ok_def)
    moreover have "\<forall>t\<in>fst ` set (fm_stack m). t < int i" using stack_scope [OF st] by blast
    ultimately show ?thesis using o new(2) stack_ok_mono [OF st] by (simp add: stack_ok_simps)
  qed
  ultimately show ?thesis using m by (auto simp: turn_ok_def match_inv_def open_scope_def intro!: delivers_intros)
qed

text \<open>Outside the construct on top of the stack and its ELSE nothing refers to the links that closing it changes.\<close>

lemma parent_from:
  assumes "parent_ok F i flow" "length new = length flow" "s < length flow"
    "\<And>j. j < length flow \<Longrightarrow> fl_parent (new ! j) = fl_parent (flow ! j) \<or> fl_parent (new ! j) = fl_parent (flow ! s)"
  shows "parent_ok F (Suc i) new"
  unfolding parent_ok_def
proof (intro allI impI)
  fix j assume "j < length new"
  then obtain k where "k < length flow" "fl_parent (new ! j) = fl_parent (flow ! k)" using assms(2-4) by metis
  then show "fl_parent (new ! j) = -1 \<or> int F \<le> fl_parent (new ! j) \<and> fl_parent (new ! j) < int (Suc i)"
    using assms(1) by (auto simp: parent_ok_def)
qed

lemma turn_else:
  assumes m: "turn_ok ops N F i m" and o: "ops ! i = USIL_OP_ELSE" and top: "fm_stack m = (int s, l) # rest" and e: "ops ! s = USIL_OP_IF"
  shows "delivers (match_inv ops N F (Suc i)) (match_else (int i) (int s) USIL_OP_IF m)"
proof -
  let ?flow = "fm_flow m"
  define new where "new = ?flow[s := (?flow ! s)\<lparr>fl_alternate := int i\<rparr>, i := (?flow ! i)\<lparr>fl_parent := fl_parent (?flow ! s)\<rparr>]"
  have i: "i < N" "F \<le> i" "length ?flow = N" using m by (auto simp: turn_ok_def)
  have s: "F \<le> s" "s < i" "s < N" "opener (ops ! s)" "int s \<in> fst ` set (fm_stack m)" using m top i by (auto simp: turn_ok_def stack_ok_simps)
  have c: "\<not> opener (ops ! i)" "\<not> is_closer (ops ! i)" "\<not> is_jump (ops ! i)" using o by (auto simp: opener_def is_closer_def is_jump_def)
  have nth: "new ! j = (if j = i then (?flow ! i)\<lparr>fl_parent := fl_parent (?flow ! s)\<rparr> else if j = s then (?flow ! s)\<lparr>fl_alternate := int i\<rparr> else ?flow ! j)" for j
    using i s by (simp add: new_def nth_list_update)
  have same: "fl_end (new ! j) = fl_end (?flow ! j)" "fl_jump_scope (new ! j) = fl_jump_scope (?flow ! j)"
    "fl_first_case (new ! j) = fl_first_case (?flow ! j)" "fl_next_case (new ! j) = fl_next_case (?flow ! j)"
    "fl_alternate (new ! j) = (if j = s then int i else fl_alternate (?flow ! j))" for j using s by (auto simp: nth)
  have len: "length new = N" by (simp add: new_def i)
  have fend: "fl_end (?flow ! s) = -1" "fl_end (?flow ! i) = -1" using m s by (auto simp: turn_ok_def end_ok_def)
  have "fresh_ok F (Suc i) new" using m s i by (auto simp: turn_ok_def fresh_ok_def nth len)
  moreover have "parent_ok F (Suc i) new"
    using m s i by (intro parent_from [of F i ?flow _ s]) (auto simp: turn_ok_def nth len)
  moreover have "alternate_ok ops F (Suc i) new" using m s o e by (fastforce simp: turn_ok_def alternate_ok_def same len)
  moreover have "else_ok ops F (Suc i) new" if "fl_alternate (?flow ! s) < 0"
    unfolding else_ok_def
  proof (intro allI impI)
    fix j assume j: "F \<le> j \<and> j < Suc i \<and> ops ! j = USIL_OP_ELSE"
    show "\<exists>t\<ge>F. t < j \<and> ops ! t = USIL_OP_IF \<and> fl_alternate (new ! t) = int j \<and> fl_end (new ! j) = fl_end (new ! t)"
    proof (cases "j = i")
      case True
      then show ?thesis using s e fend by (intro exI [of _ s]) (simp add: same)
    next
      case False
      then obtain t where "F \<le> t" "t < j" "ops ! t = USIL_OP_IF" "fl_alternate (?flow ! t) = int j" "fl_end (?flow ! j) = fl_end (?flow ! t)"
        using m j unfolding turn_ok_def else_ok_def by (metis less_antisym)
      then show ?thesis using that by (intro exI [of _ t]) (auto simp: same)
    qed
  qed
  moreover have "end_ok ops F (Suc i) (fst ` set (fm_stack m)) new"
  proof (rule end_more [where active = "fst ` set (fm_stack m)"])
    show "end_ok ops F i (fst ` set (fm_stack m)) new"
      unfolding end_ok_def
    proof (intro allI impI)
      fix j assume "F \<le> j \<and> j < i \<and> opener (ops ! j)"
      with m end_okD [of ops F i "fst ` set (fm_stack m)" ?flow j]
      have "if int j \<in> fst ` set (fm_stack m) then fl_end (?flow ! j) = -1 else closed_at ops i ?flow j" by (simp add: turn_ok_def)
      then show "if int j \<in> fst ` set (fm_stack m) then fl_end (new ! j) = -1 else closed_at ops i new j"
        using s(5) by (cases "j = s") (simp_all add: closed_at_def same split: if_splits)
    qed
  qed (simp_all add: c)
  moreover have "close_ok ops F (Suc i) new" using m c by (auto simp: turn_ok_def close_ok_def less_Suc_eq same)
  moreover have "jump_ok ops F (Suc i) new" using m c by (auto simp: turn_ok_def jump_ok_def less_Suc_eq same)
  moreover have "labels_ok ops (Suc i) new" using m len by (fastforce simp: turn_ok_def labels_ok_def same)
  moreover have "stack_ok ops F (Suc i) (fm_stack m)" using m by (simp add: turn_ok_def stack_ok_mono)
  moreover have "match_else (int i) (int s) USIL_OP_IF m = (if fl_alternate (?flow ! s) \<ge> 0 then Fail () else Done (m\<lparr>fm_flow := new\<rparr>))"
    using i s by (simp add: match_else_def new_def)
  ultimately show ?thesis by (auto simp: match_inv_def len intro!: delivers_intros)
qed

text \<open>Closing the construct \<open>s\<close> on top of the stack at instruction \<open>i\<close>: which links change.\<close>

definition closing :: "nat \<Rightarrow> nat \<Rightarrow> hlsl_instruction_flow list \<Rightarrow> hlsl_instruction_flow list \<Rightarrow> bool" where
  "closing i s flow new \<longleftrightarrow> length new = length flow \<and> (\<forall>j.
     fl_jump_scope (new ! j) = (if j = i then int s else fl_jump_scope (flow ! j)) \<and>
     fl_first_case (new ! j) = fl_first_case (flow ! j) \<and> fl_next_case (new ! j) = fl_next_case (flow ! j) \<and>
     fl_alternate (new ! j) = fl_alternate (flow ! j) \<and> fl_parent (new ! j) = (if j = i then fl_parent (flow ! s) else fl_parent (flow ! j)) \<and>
     fl_end (new ! j) = (if j = s \<or> int j = fl_alternate (flow ! s) then int i else fl_end (flow ! j)))"

lemma closingD:
  assumes "closing i s flow new"
  shows "length new = length flow" "fl_jump_scope (new ! j) = (if j = i then int s else fl_jump_scope (flow ! j))"
    "fl_first_case (new ! j) = fl_first_case (flow ! j)" "fl_next_case (new ! j) = fl_next_case (flow ! j)"
    "fl_alternate (new ! j) = fl_alternate (flow ! j)" "fl_parent (new ! j) = (if j = i then fl_parent (flow ! s) else fl_parent (flow ! j))"
    "fl_end (new ! j) = (if j = s \<or> int j = fl_alternate (flow ! s) then int i else fl_end (flow ! j))"
  using assms unfolding closing_def by blast+

lemma top_facts:
  assumes m: "turn_ok ops N F i m" and top: "fm_stack m = (int s, l) # rest"
  shows "F \<le> s" "s < i" "s < N" "i < N" "length (fm_flow m) = N" "opener (ops ! s)" "int s \<in> fst ` set (fm_stack m)" "int s \<notin> fst ` set rest"
    "fl_alternate (fm_flow m ! s) = -1 \<or> int s < fl_alternate (fm_flow m ! s) \<and> fl_alternate (fm_flow m ! s) < int i \<and>
      ops ! nat (fl_alternate (fm_flow m ! s)) = USIL_OP_ELSE \<and> ops ! s = USIL_OP_IF"
    "fl_end (fm_flow m ! s) = -1" "ops ! j \<noteq> USIL_OP_ELSE \<Longrightarrow> int j \<noteq> fl_alternate (fm_flow m ! s)"
proof -
  let ?a = "fl_alternate (fm_flow m ! s)"
  show s: "F \<le> s" "s < i" "s < N" "i < N" "length (fm_flow m) = N" "opener (ops ! s)" "int s \<in> fst ` set (fm_stack m)" "int s \<notin> fst ` set rest"
    using m top by (auto simp: turn_ok_def stack_ok_simps)
  show a: "?a = -1 \<or> int s < ?a \<and> ?a < int i \<and> ops ! nat ?a = USIL_OP_ELSE \<and> ops ! s = USIL_OP_IF"
    using m alternate_okD [of ops F i "fm_flow m" s] s(3) by (auto simp: turn_ok_def)
  show "fl_end (fm_flow m ! s) = -1" using m s by (auto simp: turn_ok_def end_ok_def)
  show "int j \<noteq> ?a" if "ops ! j \<noteq> USIL_OP_ELSE"
  proof
    assume e: "int j = ?a"
    then have "nat ?a = j" by linarith
    then show False using a that e by auto
  qed
qed

lemma closing_else:
  assumes m: "turn_ok ops N F i m" and top: "fm_stack m = (int s, l) # rest" and c: "closing i s (fm_flow m) new" and o: "ops ! i \<noteq> USIL_OP_ELSE"
  shows "else_ok ops F (Suc i) new"
  unfolding else_ok_def
proof (intro allI impI)
  fix j assume "F \<le> j \<and> j < Suc i \<and> ops ! j = USIL_OP_ELSE"
  then have j: "F \<le> j" "j < i" "ops ! j = USIL_OP_ELSE" using o less_antisym by blast+
  note f = top_facts [OF m top] and new = closingD [OF c]
  obtain t where t: "F \<le> t" "t < j" "ops ! t = USIL_OP_IF" "fl_alternate (fm_flow m ! t) = int j" "fl_end (fm_flow m ! j) = fl_end (fm_flow m ! t)"
    using m j unfolding turn_ok_def else_ok_def by metis
  have js: "j \<noteq> s" using f(6) j(3) by (auto simp: opener_def)
  show "\<exists>t\<ge>F. t < j \<and> ops ! t = USIL_OP_IF \<and> fl_alternate (new ! t) = int j \<and> fl_end (new ! j) = fl_end (new ! t)"
  proof (cases "int j = fl_alternate (fm_flow m ! s)")
    case True
    then show ?thesis using f(1,9) by (intro exI [of _ s]) (auto simp: new)
  next
    case False
    then have "t \<noteq> s" using t(4) by auto
    then show ?thesis using t f(11) [of t] False js by (intro exI [of _ t]) (simp add: new)
  qed
qed

lemma closing_end:
  assumes m: "turn_ok ops N F i m" and top: "fm_stack m = (int s, l) # rest" and c: "closing i s (fm_flow m) new"
    and o: "\<not> opener (ops ! i)" "ops ! i = closer_of (ops ! s)"
  shows "end_ok ops F (Suc i) (fst ` set rest) new"
  unfolding end_ok_def
proof (intro allI impI)
  fix j assume "F \<le> j \<and> j < Suc i \<and> opener (ops ! j)"
  then have j: "F \<le> j" "j < i" "opener (ops ! j)" using o(1) less_antisym by blast+
  note f = top_facts [OF m top] and new = closingD [OF c]
  show "if int j \<in> fst ` set rest then fl_end (new ! j) = -1 else closed_at ops (Suc i) new j"
  proof (cases "j = s")
    case True
    then show ?thesis using f(2,8,9) o(2) by (auto simp: closed_at_def new)
  next
    case False
    have "fl_end (new ! j) = fl_end (fm_flow m ! j)" using False f(11) [of j] j(3) by (auto simp: new opener_def)
    moreover have "if int j \<in> fst ` set rest then fl_end (fm_flow m ! j) = -1 else closed_at ops i (fm_flow m) j"
      using m j False top by (auto simp: turn_ok_def end_ok_def)
    ultimately show ?thesis by (auto simp: closed_at_def new)
  qed
qed

lemma closing_close:
  assumes m: "turn_ok ops N F i m" and top: "fm_stack m = (int s, l) # rest" and c: "closing i s (fm_flow m) new" and o: "ops ! i = closer_of (ops ! s)"
  shows "close_ok ops F (Suc i) new"
  unfolding close_ok_def
proof (intro allI impI)
  fix j assume j: "F \<le> j \<and> j < Suc i \<and> is_closer (ops ! j)"
  note f = top_facts [OF m top] and new = closingD [OF c]
  show "\<exists>t\<ge>F. t < j \<and> fl_jump_scope (new ! j) = int t \<and> opener (ops ! t) \<and> closer_of (ops ! t) = ops ! j \<and> fl_end (new ! t) = int j"
  proof (cases "j = i")
    case True
    then show ?thesis using f(1,2,6) o by (intro exI [of _ s]) (simp add: new)
  next
    case False
    then obtain t where "F \<le> t" "t < j" "fl_jump_scope (fm_flow m ! j) = int t" "opener (ops ! t)" "closer_of (ops ! t) = ops ! j" "fl_end (fm_flow m ! t) = int j"
      using m j unfolding turn_ok_def close_ok_def by (metis less_antisym)
    then show ?thesis using False f(11) [of t] f(10) by (intro exI [of _ t]) (auto simp: new opener_def)
  qed
qed

lemma closing_jump:
  assumes m: "turn_ok ops N F i m" and top: "fm_stack m = (int s, l) # rest" and c: "closing i s (fm_flow m) new" and o: "\<not> is_jump (ops ! i)"
  shows "jump_ok ops F (Suc i) new"
  unfolding jump_ok_def
proof (intro allI impI)
  fix j assume "F \<le> j \<and> j < Suc i \<and> is_jump (ops ! j)"
  then have j: "F \<le> j" "j < i" "is_jump (ops ! j)" using o less_antisym by blast+
  note f = top_facts [OF m top] and new = closingD [OF c]
  obtain t where t: "F \<le> t" "t < j" "fl_jump_scope (fm_flow m ! j) = int t" "fl_end (fm_flow m ! t) = -1 \<or> int j < fl_end (fm_flow m ! t)"
      "ops ! t = USIL_OP_LOOP \<or> ops ! t = USIL_OP_SWITCH \<and> ops ! j \<in> {USIL_OP_BREAK, USIL_OP_BREAKC}"
    using m j unfolding turn_ok_def jump_ok_def by metis
  then show "\<exists>t\<ge>F. t < j \<and> fl_jump_scope (new ! j) = int t \<and> (fl_end (new ! t) = -1 \<or> int j < fl_end (new ! t)) \<and>
      (ops ! t = USIL_OP_LOOP \<or> ops ! t = USIL_OP_SWITCH \<and> ops ! j \<in> {USIL_OP_BREAK, USIL_OP_BREAKC})"
    using j(2) f(11) [of t] by (intro exI [of _ t]) (auto simp: new)
qed

lemma turn_close:
  assumes m: "turn_ok ops N F i m" and o: "is_closer (ops ! i)" and top: "fm_stack m = (int s, l) # rest"
  shows "delivers (match_inv ops N F (Suc i)) (close_scope (int i) (ops ! i) (int s) (ops ! s) m)"
proof -
  let ?flow = "fm_flow m" and ?a = "fl_alternate (fm_flow m ! s)"
  define new where "new = (let flow = ?flow[s := (?flow ! s)\<lparr>fl_end := int i\<rparr>];
      flow = (if ?a \<ge> 0 then flow[nat ?a := (flow ! nat ?a)\<lparr>fl_end := int i\<rparr>] else flow) in
      flow[i := (flow ! i)\<lparr>fl_jump_scope := int s, fl_parent := fl_parent (?flow ! s)\<rparr>])"
  note f = top_facts [OF m top]
  have kinds: "\<not> opener (ops ! i)" "ops ! i \<noteq> USIL_OP_ELSE" "\<not> is_jump (ops ! i)" using o by (auto simp: opener_def is_closer_def is_jump_def)
  have c: "closing i s ?flow new" unfolding closing_def using f(1-5,9) by (auto simp: new_def Let_def nth_list_update)
  have len: "length new = N" using closingD(1) [OF c] f(5) by simp
  have "fresh_ok F (Suc i) new"
  proof -
    have "new ! j = ?flow ! j" if "j < F \<or> i < j" for j using that m f(1,2,9) by (auto simp: new_def Let_def nth_list_update turn_ok_def)
    then show ?thesis using m by (auto simp: turn_ok_def fresh_ok_def len)
  qed
  moreover have "parent_ok F (Suc i) new" using m f(3,5) by (intro parent_from [of F i ?flow _ s]) (auto simp: turn_ok_def closingD [OF c])
  moreover have "alternate_ok ops F (Suc i) new" using m by (fastforce simp: turn_ok_def alternate_ok_def closingD [OF c])
  moreover have "labels_ok ops (Suc i) new" using m by (fastforce simp: turn_ok_def labels_ok_def closingD [OF c])
  moreover have "stack_ok ops F (Suc i) rest" using m top by (auto simp: turn_ok_def stack_ok_simps intro: stack_ok_mono)
  moreover have "close_scope (int i) (ops ! i) (int s) (ops ! s) m =
      (if ops ! i = closer_of (ops ! s) then Done (m\<lparr>fm_flow := new, fm_stack := rest\<rparr>) else Fail ())"
  proof -
    have pair: "(ops ! s \<noteq> (if ops ! i = USIL_OP_ENDIF then USIL_OP_IF else if ops ! i = USIL_OP_ENDLOOP then USIL_OP_LOOP else USIL_OP_SWITCH)) \<longleftrightarrow> ops ! i \<noteq> closer_of (ops ! s)"
      using o f(6) by (auto simp: is_closer_def closer_of_def opener_def)
    show ?thesis
    proof (cases "?a < 0")
      case True
      then show ?thesis using f(2-5) top pair by (simp add: close_scope_def new_def Let_def)
    next
      case False
      then obtain b where "?a = int b" using zero_le_imp_eq_int by fastforce
      then show ?thesis using f(2-5,9) top pair by (simp add: close_scope_def new_def Let_def)
    qed
  qed
  ultimately show ?thesis using closing_else [OF m top c kinds(2)] closing_end [OF m top c kinds(1)] closing_close [OF m top c] closing_jump [OF m top c kinds(3)]
    by (auto simp: match_inv_def len intro!: delivers_intros)
qed

lemma turn_label:
  assumes m: "turn_ok ops N F i m" and o: "is_label (ops ! i)" and top: "fm_stack m = (int s, l) # rest"
  shows "delivers (match_inv ops N F (Suc i)) (match_label (int i) (ops ! i) (int s) (ops ! s) m)"
proof -
  let ?flow = "fm_flow m"
  define mid where "mid = (if ops ! i = USIL_OP_DEFAULT then ?flow[s := (?flow ! s)\<lparr>fl_has_default := True\<rparr>] else ?flow)"
  define new where "new = (if l \<ge> 0 then mid[nat l := (mid ! nat l)\<lparr>fl_next_case := int i\<rparr>] else mid[s := (mid ! s)\<lparr>fl_first_case := int i\<rparr>])"
  have i: "i < N" "F \<le> i" "length ?flow = N" using m by (auto simp: turn_ok_def)
  have s: "F \<le> s" "s < i" "s < N" using m top i by (auto simp: turn_ok_def stack_ok_simps)
  have l: "l = -1 \<or> int s < l \<and> l < int i" using m top by (auto simp: turn_ok_def stack_ok_simps)
  have c: "\<not> opener (ops ! i)" "ops ! i \<noteq> USIL_OP_ELSE" "\<not> is_closer (ops ! i)" "\<not> is_jump (ops ! i)" using o by (auto simp: opener_def is_closer_def is_jump_def is_label_def)
  have base: "match_inv ops N F (Suc i) m" by (rule turn_plain [OF m c])
  have len: "length new = length ?flow" by (simp add: new_def mid_def)
  have same: "fl_end (new ! j) = fl_end (?flow ! j)" "fl_alternate (new ! j) = fl_alternate (?flow ! j)" "fl_jump_scope (new ! j) = fl_jump_scope (?flow ! j)"
    "fl_parent (new ! j) = fl_parent (?flow ! j)"
    "fl_first_case (new ! j) = (if l < 0 \<and> j = s then int i else fl_first_case (?flow ! j))"
    "fl_next_case (new ! j) = (if int j = l then int i else fl_next_case (?flow ! j))" for j
    using i s l by (auto simp: new_def mid_def nth_list_update)
  have "fresh_ok F (Suc i) new"
  proof -
    have "new ! j = ?flow ! j" if "j < F \<or> i < j" for j using that s l by (auto simp: new_def mid_def nth_list_update)
    then show ?thesis using base by (auto simp: match_inv_def fresh_ok_def len)
  qed
  moreover have "parent_ok F (Suc i) new" using base by (simp add: match_inv_def parent_ok_def same len)
  moreover have "labels_ok ops (Suc i) new"
    unfolding labels_ok_def
  proof (intro allI impI)
    fix j assume "j < length new"
    then have "\<forall>x\<in>{fl_first_case (?flow ! j), fl_next_case (?flow ! j)}. x = -1 \<or> int j < x \<and> x < int (Suc i) \<and> is_label (ops ! nat x)"
      using base len unfolding match_inv_def labels_ok_def by metis
    then show "\<forall>x\<in>{fl_first_case (new ! j), fl_next_case (new ! j)}. x = -1 \<or> int j < x \<and> x < int (Suc i) \<and> is_label (ops ! nat x)"
      using o s l by (auto simp: same)
  qed
  moreover have "stack_ok ops F (Suc i) ((int s, int i) # rest)" using base top s o by (auto simp: match_inv_def stack_ok_simps)
  moreover have "match_label (int i) (ops ! i) (int s) (ops ! s) m =
      (if ops ! s \<noteq> USIL_OP_SWITCH \<or> ops ! i = USIL_OP_DEFAULT \<and> fl_has_default (?flow ! s) then Fail () else Done (m\<lparr>fm_flow := new, fm_stack := (int s, int i) # rest\<rparr>))"
  proof (cases "l < 0")
    case True
    then show ?thesis using i s top by (simp add: match_label_def new_def mid_def)
  next
    case False
    then obtain b where "l = int b" using zero_le_imp_eq_int by fastforce
    then show ?thesis using i s top l by (simp add: match_label_def new_def mid_def)
  qed
  ultimately show ?thesis using base same_links [OF same(1-3) len] top by (auto simp: match_inv_def len intro!: delivers_intros)
qed

lemma jump_target_ok:
  assumes "stack_ok ops F i stack" "i \<le> length ops"
  shows "\<exists>t. jump_target ops loop_only stack = Done t \<and>
    (t = -1 \<or> (\<exists>s. t = int s \<and> int s \<in> fst ` set stack \<and> (ops ! s = USIL_OP_LOOP \<or> \<not> loop_only \<and> ops ! s = USIL_OP_SWITCH)))"
  using assms
proof (induction stack)
  case (Cons x stack)
  obtain s l where x: "x = (int s, l)" "s < i" using Cons.prems(1) by (cases x) (auto simp: stack_ok_simps elim: nonneg_int_cases [rotated] dest: order_trans [OF of_nat_0_le_iff])
  have "stack_ok ops F i stack" using Cons.prems(1) by (cases x) (simp add: stack_ok_simps)
  with Cons.IH Cons.prems(2) show ?case using x(2) by (auto simp: x(1))
qed simp

lemma turn_jump:
  assumes m: "turn_ok ops N F i m" and o: "is_jump (ops ! i)" and n: "N \<le> length ops"
  shows "delivers (match_inv ops N F (Suc i)) (match_jump ops (int i) (ops ! i) m)"
proof -
  let ?flow = "fm_flow m"
  have i: "i < N" "F \<le> i" "length ?flow = N" "stack_ok ops F i (fm_stack m)" using m by (auto simp: turn_ok_def)
  have new: "fl_jump_scope (?flow ! i) = -1" using m by (auto simp: turn_ok_def)
  have c: "\<not> opener (ops ! i)" "ops ! i \<noteq> USIL_OP_ELSE" "\<not> is_closer (ops ! i)" using o by (auto simp: opener_def is_closer_def is_jump_def)
  let ?only = "ops ! i \<in> {USIL_OP_CONTINUE, USIL_OP_CONTINUEC}"
  obtain t where t: "jump_target ops ?only (fm_stack m) = Done t"
    "t = -1 \<or> (\<exists>s. t = int s \<and> int s \<in> fst ` set (fm_stack m) \<and> (ops ! s = USIL_OP_LOOP \<or> \<not> ?only \<and> ops ! s = USIL_OP_SWITCH))"
    using jump_target_ok [OF i(4), of ?only] i(1) n by auto
  show ?thesis
  proof (cases "t = -1")
    case True
    then show ?thesis using t(1) new i by (simp add: match_jump_def delivers_intros)
  next
    case False
    then obtain s where s: "t = int s" "int s \<in> fst ` set (fm_stack m)" "ops ! s = USIL_OP_LOOP \<or> \<not> ?only \<and> ops ! s = USIL_OP_SWITCH" using t(2) by auto
    have sb: "F \<le> s" "s < i" using stack_scope [OF i(4) s(2)] by auto
    have "end_ok ops F i (fst ` set (fm_stack m)) ?flow" using m by (simp add: turn_ok_def)
    then have fend: "fl_end (?flow ! s) = -1" using end_okD(1) [OF _ sb _ s(2)] s(3) by (auto simp: opener_def)
    define next' where "next' = ?flow[i := (?flow ! i)\<lparr>fl_jump_scope := int s\<rparr>]"
    have nth: "next' ! j = (if j = i then (?flow ! i)\<lparr>fl_jump_scope := int s\<rparr> else ?flow ! j)" for j using i by (simp add: next'_def nth_list_update)
    have same: "fl_end (next' ! j) = fl_end (?flow ! j)" "fl_alternate (next' ! j) = fl_alternate (?flow ! j)" "fl_parent (next' ! j) = fl_parent (?flow ! j)"
      "fl_first_case (next' ! j) = fl_first_case (?flow ! j)" "fl_next_case (next' ! j) = fl_next_case (?flow ! j)"
      "fl_jump_scope (next' ! j) = (if j = i then int s else fl_jump_scope (?flow ! j))" for j by (simp_all add: nth)
    have len: "length next' = N" by (simp add: next'_def i)
    have "fresh_ok F (Suc i) next'" using m i by (auto simp: turn_ok_def fresh_ok_def nth len)
    moreover have "parent_ok F (Suc i) next'" using m i by (fastforce simp: turn_ok_def parent_ok_def same len)
    moreover have "alternate_ok ops F (Suc i) next'" using m by (fastforce simp: turn_ok_def alternate_ok_def same len)
    moreover have "else_ok ops F (Suc i) next'" using m c by (auto simp: turn_ok_def else_ok_def less_Suc_eq same)
    moreover have "end_ok ops F (Suc i) (fst ` set (fm_stack m)) next'"
    proof (rule end_more [where active = "fst ` set (fm_stack m)"])
      have "closed_at ops i ?flow j \<Longrightarrow> closed_at ops i next' j" for j by (auto simp: closed_at_def same)
      then show "end_ok ops F i (fst ` set (fm_stack m)) next'" using m by (simp add: turn_ok_def end_ok_def same)
    qed (simp_all add: c)
    moreover have "close_ok ops F (Suc i) next'" using m c by (auto simp: turn_ok_def close_ok_def less_Suc_eq same)
    moreover have "jump_ok ops F (Suc i) next'"
      unfolding jump_ok_def
    proof (intro allI impI)
      fix j assume j: "F \<le> j \<and> j < Suc i \<and> is_jump (ops ! j)"
      show "\<exists>t\<ge>F. t < j \<and> fl_jump_scope (next' ! j) = int t \<and> (fl_end (next' ! t) = -1 \<or> int j < fl_end (next' ! t)) \<and>
          (ops ! t = USIL_OP_LOOP \<or> ops ! t = USIL_OP_SWITCH \<and> ops ! j \<in> {USIL_OP_BREAK, USIL_OP_BREAKC})"
      proof (cases "j = i")
        case True
        then show ?thesis using sb s(3) fend o by (intro exI [of _ s]) (auto simp: same is_jump_def)
      next
        case False
        then show ?thesis using m j unfolding turn_ok_def jump_ok_def same by (metis less_antisym)
      qed
    qed
    moreover have "labels_ok ops (Suc i) next'" using m len by (fastforce simp: turn_ok_def labels_ok_def same)
    moreover have "match_jump ops (int i) (ops ! i) m = Done (m\<lparr>fm_flow := next'\<rparr>)" using t(1) s(1) i by (simp add: match_jump_def next'_def)
    ultimately show ?thesis using stack_ok_mono [OF i(4)] by (simp add: match_inv_def len delivers_done)
  qed
qed

lemma match_step:
  assumes m: "match_inv ops N F i m" and i: "F \<le> i" "i < N" and n: "N \<le> length ops"
  shows "delivers (match_inv ops N F (Suc i)) (match_instruction ops (int i) m)"
proof -
  let ?flow = "fm_flow m"
  have len: "length ?flow = N" and st: "stack_ok ops F i (fm_stack m)" and alt: "alternate_ok ops F i ?flow" using m by (simp_all add: match_inv_def)
  define body where "body = (\<lambda>scope enclosing m. let opcode = ops ! i in
     if opcode \<in> {USIL_OP_IF, USIL_OP_LOOP, USIL_OP_SWITCH} then open_scope (int i) m
     else if opcode = USIL_OP_ELSE then match_else (int i) scope enclosing m
     else if opcode \<in> {USIL_OP_ENDIF, USIL_OP_ENDLOOP, USIL_OP_ENDSWITCH} then close_scope (int i) opcode scope enclosing m
     else if opcode \<in> {USIL_OP_CASE, USIL_OP_DEFAULT} then match_label (int i) opcode scope enclosing m
     else if opcode \<in> {USIL_OP_BREAK, USIL_OP_BREAKC, USIL_OP_CONTINUE, USIL_OP_CONTINUEC} then match_jump ops (int i) opcode m
     else Done m)"
  have open_case: "delivers (match_inv ops N F (Suc i)) (body scope enclosing n)"
    if "turn_ok ops N F i n" "opener (ops ! i) \<or> is_jump (ops ! i) \<or> ops ! i \<noteq> USIL_OP_ELSE \<and> \<not> is_closer (ops ! i) \<and> \<not> is_label (ops ! i)" for scope enclosing n
    using that turn_open [OF that(1)] turn_jump [OF that(1) _ n] turn_plain [OF that(1)]
    by (auto simp: body_def Let_def opener_def is_jump_def is_label_def is_closer_def delivers_done)
  show ?thesis
  proof (cases "fm_stack m")
    case Nil
    have t: "turn_ok ops N F i (m\<lparr>fm_flow := ?flow[i := (?flow ! i)\<lparr>fl_parent := -1\<rparr>]\<rparr>)" by (rule turn_start [OF m i(2,1)]) simp
    have "match_instruction ops (int i) m = body (-1) USIL_OP_NOP (m\<lparr>fm_flow := ?flow[i := (?flow ! i)\<lparr>fl_parent := -1\<rparr>]\<rparr>)"
      using i n len Nil by (simp add: match_instruction_def body_def Let_def)
    moreover have "delivers Q (body (-1) USIL_OP_NOP n)" if "ops ! i = USIL_OP_ELSE \<or> is_closer (ops ! i) \<or> is_label (ops ! i)" for Q n
      using that by (auto simp: body_def Let_def is_closer_def is_label_def match_else_def close_scope_def match_label_def delivers_intros)
    ultimately show ?thesis using open_case [OF t] by metis
  next
    case (Cons x rest)
    obtain s l where x: "x = (int s, l)" "F \<le> s" "s < i"
      using st Cons by (cases x) (auto simp: stack_ok_simps elim: nonneg_int_cases [rotated] dest: order_trans [OF of_nat_0_le_iff])
    let ?p = "if fl_alternate (?flow ! s) \<ge> 0 then fl_alternate (?flow ! s) else int s"
    let ?m = "m\<lparr>fm_flow := ?flow[i := (?flow ! i)\<lparr>fl_parent := ?p\<rparr>]\<rparr>"
    have t: "turn_ok ops N F i ?m" using alternate_okD [OF alt, of s] x i len by (intro turn_start [OF m i(2,1)]) auto
    have top: "fm_stack ?m = (int s, l) # rest" using Cons x by simp
    have "match_instruction ops (int i) m = body (int s) (ops ! s) ?m"
      using i n len Cons x by (simp add: match_instruction_def body_def Let_def)
    moreover have "delivers (match_inv ops N F (Suc i)) (body (int s) (ops ! s) ?m)" if kind: "ops ! i = USIL_OP_ELSE \<or> is_closer (ops ! i) \<or> is_label (ops ! i)"
    proof -
      consider "ops ! i = USIL_OP_ELSE" "ops ! s = USIL_OP_IF" | "ops ! i = USIL_OP_ELSE" "ops ! s \<noteq> USIL_OP_IF" | "is_closer (ops ! i)" | "is_label (ops ! i)" using kind by blast
      then show ?thesis
      proof cases
        case 1
        then show ?thesis using turn_else [OF t 1(1) top 1(2)] by (simp add: body_def Let_def)
      next
        case 2
        then show ?thesis by (simp add: body_def Let_def match_else_def delivers_intros)
      next
        case 3
        then show ?thesis using turn_close [OF t 3 top] by (auto simp: body_def Let_def is_closer_def)
      next
        case 4
        then show ?thesis using turn_label [OF t 4 top] by (auto simp: body_def Let_def is_label_def)
      qed
    qed
    ultimately show ?thesis using open_case [OF t] by metis
  qed
qed

text \<open>The links of an accepted program.\<close>

definition matched :: "usil_opcode list \<Rightarrow> nat \<Rightarrow> nat \<Rightarrow> nat \<Rightarrow> hlsl_instruction_flow list \<Rightarrow> bool" where
  "matched ops N F E flow \<longleftrightarrow> match_inv ops N F E \<lparr>fm_flow = flow, fm_stack = []\<rparr>"

lemma clear_links:
  "ofold (\<lambda>index flow. modify flow index no_links) (counting 0 (int N)) (replicate N zero_flow) = (Done (replicate N (no_links zero_flow)) :: (unit, _) outcome)"
proof -
  have "delivers (\<lambda>flow. flow = replicate N (no_links zero_flow) @ replicate (N - N) zero_flow)
      (ofold (\<lambda>index flow. modify flow index no_links) (counting (int 0) (int N)) (replicate N zero_flow) :: (unit, _) outcome)"
  proof (rule delivers_counting [where holds = "\<lambda>k flow. flow = replicate k (no_links zero_flow) @ replicate (N - k) zero_flow"])
    fix i flow assume "i < N" "flow = replicate i (no_links zero_flow) @ replicate (N - i) zero_flow"
    then show "delivers (\<lambda>flow. flow = replicate (Suc i) (no_links zero_flow) @ replicate (N - Suc i) zero_flow) (modify flow (int i) no_links :: (unit, _) outcome)"
      by (simp add: delivers_done list_update_append nth_append replicate_append_same flip: Suc_diff_Suc)
  qed simp_all
  moreover have "fails_only (\<lambda>_. False) (ofold (\<lambda>index flow. modify flow index no_links) (counting (int 0) (int N)) (replicate N zero_flow) :: (unit, _) outcome)"
    by (intro fails_intros) (simp add: modify_def at_def put_def fails_only_def)
  ultimately show ?thesis
    by (cases "ofold (\<lambda>index flow. modify flow index no_links) (counting 0 (int N)) (replicate N zero_flow) :: (unit, _) outcome")
      (auto simp: delivers_def safe_def yields_def fails_only_def)
qed

lemma match_flow_structure_ok:
  assumes "F \<le> E" "E \<le> N" "N \<le> length ops"
  shows "delivers (matched ops N F E) (match_flow_structure ops (int N) (replicate N zero_flow) (int F) (int E))"
proof -
  have "match_inv ops N F F \<lparr>fm_flow = replicate N (no_links zero_flow), fm_stack = []\<rparr>"
    by (auto simp: match_inv_def stack_ok_simps fresh_ok_def parent_ok_def alternate_ok_def else_ok_def end_ok_def close_ok_def jump_ok_def labels_ok_def)
  then have "delivers (match_inv ops N F E) (ofold (match_instruction ops) (counting (int F) (int E)) \<lparr>fm_flow = replicate N (no_links zero_flow), fm_stack = []\<rparr>)"
    using assms match_step by (intro delivers_counting) auto
  then show ?thesis unfolding match_flow_structure_def clear_links obind.simps
    by (rule delivers_obind) (auto simp: matched_def match_inv_def intro!: delivers_intros)
qed

lemma between_nat: "int a < x \<Longrightarrow> x < int b \<Longrightarrow> \<exists>y. x = int y \<and> a < y \<and> y < b"
  by (intro exI [of _ "nat x"]) auto

lemma matchedD:
  assumes "matched ops N F E flow"
  shows "length flow = N" "parent_ok F E flow" "alternate_ok ops F E flow" "else_ok ops F E flow" "close_ok ops F E flow" "jump_ok ops F E flow" "labels_ok ops E flow"
    "F \<le> j \<Longrightarrow> j < E \<Longrightarrow> opener (ops ! j) \<Longrightarrow> closed_at ops E flow j"
  using assms by (auto simp: matched_def match_inv_def end_ok_def)

lemma case_labels_ok:
  assumes l: "labels_ok ops E flow" "E \<le> length flow"
  shows "label = -1 \<or> int F \<le> label \<and> label < int E \<Longrightarrow> nat (int E - label) < fuel \<Longrightarrow>
    \<exists>ls. case_labels fuel flow label = Done (map int ls) \<and> (\<forall>x\<in>set ls. F \<le> x \<and> x < E)"
proof (induction fuel arbitrary: label)
  case (Suc fuel)
  show ?case
  proof (cases "label < 0")
    case True
    then show ?thesis by (intro exI [of _ "[]"]) simp
  next
    case False
    then obtain x where x: "label = int x" "F \<le> x" "x < E" using Suc.prems(1) by (auto elim!: nonneg_int_cases [rotated])
    let ?next = "fl_next_case (flow ! x)"
    have "?next = -1 \<or> int x < ?next \<and> ?next < int E" using l x unfolding labels_ok_def by (metis insertCI order_less_le_trans)
    then have "?next = -1 \<or> int F \<le> ?next \<and> ?next < int E" "?next = -1 \<or> nat (int E - ?next) < fuel" using x Suc.prems(2) by auto
    moreover have "\<exists>ls. case_labels fuel flow (-1) = Done (map int ls) \<and> (\<forall>x\<in>set ls. F \<le> x \<and> x < E)" if "0 < fuel"
      using that by (cases fuel) (auto intro: exI [of _ "[]"])
    ultimately obtain ls where "case_labels fuel flow ?next = Done (map int ls)" "\<forall>x\<in>set ls. F \<le> x \<and> x < E"
      using Suc.IH [of ?next] Suc.prems(2) x by fastforce
    then show ?thesis using x l by (intro exI [of _ "x # ls"]) simp
  qed
qed simp

text \<open>Where control may go after instruction \<open>j\<close>: inside the program, or to its end.\<close>

lemma flow_targets_ok:
  assumes m: "matched ops N F E flow" and e: "E \<le> N" and j: "F \<le> j" "j < E"
  shows "\<exists>ts. flow_targets (ops ! j) flow (int j) = Done (map int ts) \<and> (\<forall>t\<in>set ts. F \<le> t \<and> t \<le> E)"
proof -
  let ?op = "ops ! j" and ?f = "flow ! j"
  have len: "length flow = N" and jn: "j < N" using matchedD(1) [OF m] j e by auto
  have closed: "\<exists>x. fl_end (flow ! s) = int x \<and> s < x \<and> x < E" if "F \<le> s" "s < E" "opener (ops ! s)" for s
    using matchedD(8) [OF m that] unfolding closed_at_def by (blast intro: between_nat)
  show ?thesis
  proof (cases "?op = USIL_OP_SWITCH")
    case True
    obtain x where x: "fl_end ?f = int x" "j < x" "x < E" using closed [OF j] True by (auto simp: opener_def)
    have "fl_first_case ?f = -1 \<or> int F \<le> fl_first_case ?f \<and> fl_first_case ?f < int E"
      using matchedD(7) [OF m] jn len j unfolding labels_ok_def by fastforce
    moreover have "nat (int E - fl_first_case ?f) < length flow + 1 \<or> fl_first_case ?f = -1 \<and> nat (int E + 1) \<le> length flow + 1" using calculation j e len by linarith
    ultimately obtain ls where "case_labels (length flow + 1) flow (fl_first_case ?f) = Done (map int ls)" "\<forall>x\<in>set ls. F \<le> x \<and> x < E"
      using case_labels_ok [OF matchedD(7) [OF m], of "fl_first_case ?f" F "length flow + 1"] e len
      by (cases "fl_first_case ?f = -1") (auto intro: exI [of _ "[]"])
    then show ?thesis using True x j jn len
      by (intro exI [of _ "ls @ (if \<not> fl_has_default ?f then [x + 1] else [])"]) (auto simp: flow_targets_def)
  next
    case False
    consider "?op = USIL_OP_IF" | "?op = USIL_OP_ELSE" | "is_jump ?op" | "?op = USIL_OP_ENDLOOP" | "?op \<notin> {USIL_OP_IF, USIL_OP_ELSE, USIL_OP_ENDLOOP}" "\<not> is_jump ?op" by blast
    then show ?thesis
    proof cases
      case 1
      obtain x where x: "fl_end ?f = int x" "j < x" "x < E" using closed [OF j] 1 by (auto simp: opener_def)
      have "fl_alternate ?f = -1 \<or> (\<exists>a. fl_alternate ?f = int a \<and> F \<le> a \<and> a < E)"
        using alternate_okD [OF matchedD(3) [OF m], of j] between_nat [of j "fl_alternate ?f" E] jn len j by (metis le_trans less_imp_le)
      then show ?thesis
      proof (elim disjE exE conjE)
        assume "fl_alternate ?f = -1"
        then show ?thesis using 1 x j jn len by (intro exI [of _ "[j + 1, x + 1]"]) (auto simp: flow_targets_def)
      next
        fix a assume "fl_alternate ?f = int a" "F \<le> a" "a < E"
        then show ?thesis using 1 x j jn len by (intro exI [of _ "[j + 1, a + 1]"]) (auto simp: flow_targets_def)
      qed
    next
      case 2
      then obtain s where s: "F \<le> s" "s < j" "ops ! s = USIL_OP_IF" "fl_end ?f = fl_end (flow ! s)" using matchedD(4) [OF m] j unfolding else_ok_def by metis
      then obtain x where "fl_end ?f = int x" "s < x" "x < E" using closed [of s] j by (auto simp: opener_def)
      then show ?thesis using 2 s j jn len by (intro exI [of _ "[x + 1]"]) (auto simp: flow_targets_def)
    next
      case 3
      then obtain s where s: "F \<le> s" "s < j" "fl_jump_scope ?f = int s" "ops ! s = USIL_OP_LOOP \<or> ops ! s = USIL_OP_SWITCH"
        using matchedD(6) [OF m] j unfolding jump_ok_def by metis
      then obtain x where x: "fl_end (flow ! s) = int x" "s < x" "x < E" using closed [of s] j by (auto simp: opener_def)
      let ?t = "(if ?op \<in> {USIL_OP_BREAKC, USIL_OP_CONTINUEC} then [j + 1] else []) @ [if ?op \<in> {USIL_OP_CONTINUE, USIL_OP_CONTINUEC} then x else x + 1]"
      show ?thesis using 3 s x j jn len by (intro exI [of _ ?t]) (auto simp: flow_targets_def is_jump_def)
    next
      case 4
      then obtain s where "F \<le> s" "s < j" "fl_jump_scope ?f = int s" using matchedD(5) [OF m] j unfolding close_ok_def is_closer_def by (metis insertCI)
      then show ?thesis using 4 j jn len by (intro exI [of _ "[s + 1]"]) (auto simp: flow_targets_def)
    next
      case 5
      then show ?thesis using False j jn len by (intro exI [of _ "if ?op = USIL_OP_RET then [] else [j + 1]"]) (auto simp: flow_targets_def is_jump_def)
    qed
  qed
qed

end
