(* ===== verification/Hlsl_Build.thy ===== *)
theory Hlsl_Build
  imports Hlsl_Match
begin

text \<open>
  Building the control-flow graph of a program (\<open>build_control_flow_graph_range\<close>): the blocks and the edges are what
  the instructions say, and every program is either rejected with a cleared graph or given a well-formed one.
\<close>

section \<open>Blocks\<close>

definition leads :: "usil_opcode list \<Rightarrow> nat \<Rightarrow> nat \<Rightarrow> bool" where
  "leads ops F j \<longleftrightarrow> j = F \<or> is_boundary (ops ! j) \<or> F < j \<and> is_boundary (ops ! (j - 1))"

definition leaders :: "usil_opcode list \<Rightarrow> nat \<Rightarrow> nat \<Rightarrow> nat list" where
  "leaders ops F i = filter (leads ops F) [F..<i]"

text \<open>Block \<open>b\<close> holds the instructions from its leader up to the next one.\<close>

definition block_start :: "usil_opcode list \<Rightarrow> nat \<Rightarrow> nat \<Rightarrow> nat \<Rightarrow> nat" where
  "block_start ops F E b = (if b < length (leaders ops F E) then leaders ops F E ! b else E)"

lemma modify_zero [simp]: "xs \<noteq> [] \<Longrightarrow> modify xs 0 f = Done (xs[0 := f (xs ! 0)])"
  using modify_int [of 0 xs f] by simp

lemma modify_Suc [simp]: "Suc k < length xs \<Longrightarrow> modify xs (1 + int k) f = Done (xs[Suc k := f (xs ! Suc k)])"
  using modify_int [of "Suc k" xs f] by simp

lemma marked_leaders:
  assumes "F < E" "E \<le> N" "N \<le> length ops"
  shows "delivers (\<lambda>leader. length leader = N \<and> (\<forall>j. F \<le> j \<and> j < E \<longrightarrow> leader ! j = leads ops F j))
    (obind (put (replicate N False) (int F) True) (ofold (mark_leader ops (int E)) (counting (int F) (int E))))"
proof -
  define holds where "holds = (\<lambda>i (leader :: bool list). length leader = N \<and>
    (\<forall>j<N. leader ! j \<longleftrightarrow> j = F \<or> (\<exists>k\<ge>F. k < i \<and> is_boundary (ops ! k) \<and> (j = k \<or> j = Suc k \<and> Suc k < E))))"
  have "delivers (holds E) (ofold (mark_leader ops (int E)) (counting (int F) (int E)) ((replicate N False)[F := True]))"
  proof (rule delivers_counting)
    fix i leader assume i: "F \<le> i" "i < E" and h: "holds i leader"
    have len: "length leader = N" and val: "\<And>j. j < N \<Longrightarrow> leader ! j \<longleftrightarrow> j = F \<or> (\<exists>k\<ge>F. k < i \<and> is_boundary (ops ! k) \<and> (j = k \<or> j = Suc k \<and> Suc k < E))"
      using h by (auto simp: holds_def)
    have up: "int i + 1 = int (Suc i)" by simp
    have "mark_leader ops (int E) (int i) leader =
      Done (if is_boundary (ops ! i) then if Suc i < E then leader[i := True, Suc i := True] else leader[i := True] else leader)"
      using i assms len unfolding mark_leader_def up by (simp del: of_nat_Suc)
    moreover have "holds (Suc i) (if is_boundary (ops ! i) then if Suc i < E then leader[i := True, Suc i := True] else leader[i := True] else leader)"
      unfolding holds_def using i assms len by (auto simp: nth_list_update val less_Suc_eq)
    ultimately show "delivers (holds (Suc i)) (mark_leader ops (int E) (int i) leader)" by (simp add: delivers_done)
  qed (use assms in \<open>auto simp: holds_def nth_list_update\<close>)
  moreover have "leader ! j = leads ops F j" if "holds E leader" "F \<le> j" "j < E" for leader j
  proof -
    have "leader ! j \<longleftrightarrow> j = F \<or> (\<exists>k\<ge>F. k < E \<and> is_boundary (ops ! k) \<and> (j = k \<or> j = Suc k \<and> Suc k < E))" using that assms by (auto simp: holds_def)
    also have "\<dots> \<longleftrightarrow> leads ops F j" using that unfolding leads_def by (cases j) (force simp: less_Suc_eq_le)+
    finally show ?thesis .
  qed
  moreover have "length leader = N" if "holds E leader" for leader using that by (simp add: holds_def)
  ultimately show ?thesis using assms by simp (erule delivers_mono, simp)
qed

lemma leaders_Suc: "F \<le> i \<Longrightarrow> leaders ops F (Suc i) = leaders ops F i @ (if leads ops F i then [i] else [])"
  by (simp add: leaders_def)

lemma leaders_sorted: "sorted_wrt (<) (leaders ops F i)"
  by (simp add: leaders_def sorted_wrt_filter)

lemma leaders_bound: "x \<in> set (leaders ops F i) \<Longrightarrow> F \<le> x \<and> x < i" "length (leaders ops F i) \<le> i - F"
  by (auto simp: leaders_def intro: le_trans [OF length_filter_le])

lemma leaders_first: "F < E \<Longrightarrow> leaders ops F E \<noteq> [] \<and> leaders ops F E ! 0 = F"
  by (simp add: leaders_def upt_conv_Cons leads_def)

text \<open>The blocks after the scan up to \<open>i\<close>; the last one is still open.\<close>

definition scanned :: "nat list \<Rightarrow> nat \<Rightarrow> nat \<Rightarrow> hlsl_basic_block" where
  "scanned ls e b = (if b < length ls then zero_block\<lparr>bb_first_instruction := int (ls ! b), bb_last_instruction := if Suc b < length ls then int (ls ! Suc b) - 1 else int e - 1\<rparr> else zero_block)"

lemma scanned_simps:
  "b < length ls \<Longrightarrow> scanned ls e b = zero_block\<lparr>bb_first_instruction := int (ls ! b), bb_last_instruction := if Suc b < length ls then int (ls ! Suc b) - 1 else int e - 1\<rparr>"
  "length ls \<le> b \<Longrightarrow> scanned ls e b = zero_block"
  by (simp_all add: scanned_def)

lemma started_blocks:
  assumes "F < E" "E \<le> N" "length leader = N" "\<And>j. F \<le> j \<Longrightarrow> j < E \<Longrightarrow> leader ! j = leads ops F j"
  shows "delivers (\<lambda>(blocks, count). count = int (length (leaders ops F E)) \<and> blocks = map (scanned (leaders ops F E) 1) [0..<N])
    (ofold (start_block leader) (counting (int F) (int E)) (replicate N zero_block, 0))"
proof -
  define holds where "holds = (\<lambda>i (blocks, count). count = int (length (leaders ops F i)) \<and> blocks = map (scanned (leaders ops F i) 1) [0..<N])"
  have "delivers (holds E) (ofold (start_block leader) (counting (int F) (int E)) (replicate N zero_block, 0))"
  proof (rule delivers_counting)
    show "holds F (replicate N zero_block, 0)" by (auto simp: holds_def leaders_def scanned_def intro!: nth_equalityI)
    fix i and s :: "hlsl_basic_block list \<times> int" assume i: "F \<le> i" "i < E" and h: "holds i s"
    let ?L = "leaders ops F i" and ?bs = "map (scanned (leaders ops F i) 1) [0..<N]"
    have s: "s = (?bs, int (length ?L))" using h by (cases s) (simp add: holds_def)
    have len: "length ?L < N" using leaders_bound(2) [of ops F i] i assms by simp
    show "delivers (holds (Suc i)) (start_block leader (int i) s)"
    proof (cases "leads ops F i")
      case False
      then show ?thesis using i assms s by (simp add: start_block_def holds_def leaders_Suc delivers_done)
    next
      case True
      let ?new = "map (scanned (?L @ [i]) 1) [0..<N]"
      have eq: "start_block leader (int i) s = Done (?new, int (length ?L) + 1)"
      proof (cases "?L = []")
        case True
        then have "?bs[0 := (?bs ! 0)\<lparr>bb_first_instruction := int i\<rparr>] = ?new"
          using len by (intro nth_equalityI) (auto simp: nth_list_update scanned_def zero_block_def)
        then show ?thesis using i assms s \<open>leads ops F i\<close> len True by (simp add: start_block_def)
      next
        case False
        then obtain k where k: "length ?L = Suc k" by (cases ?L) auto
        have "?bs[Suc k := (?bs ! Suc k)\<lparr>bb_first_instruction := int i\<rparr>, k := (?bs ! k)\<lparr>bb_last_instruction := int i - 1\<rparr>] = ?new"
          using k len by (intro nth_equalityI) (auto simp: nth_list_update scanned_def nth_append zero_block_def)
        then show ?thesis using i assms s \<open>leads ops F i\<close> len k by (simp add: start_block_def)
      qed
      show ?thesis using True i by (simp add: eq delivers_done holds_def leaders_Suc)
    qed
  qed (use assms in auto)
  then show ?thesis by (simp add: holds_def)
qed

abbreviation (input) block_number :: "usil_opcode list \<Rightarrow> nat \<Rightarrow> nat \<Rightarrow> nat" where
  "block_number ops F E \<equiv> length (leaders ops F E)"

text \<open>The block of instruction \<open>j\<close>.\<close>

definition block_of :: "usil_opcode list \<Rightarrow> nat \<Rightarrow> nat \<Rightarrow> nat" where
  "block_of ops F j = length (leaders ops F (Suc j)) - 1"

lemma block_start_ends: "F < E \<Longrightarrow> block_start ops F E 0 = F" "block_start ops F E (block_number ops F E) = E"
  using leaders_first [of F E ops] by (simp_all add: block_start_def)

lemma block_start_less: "b < block_number ops F E \<Longrightarrow> block_start ops F E b < block_start ops F E (Suc b)"
  using leaders_sorted [of ops F E] leaders_bound(1) [OF nth_mem, of b ops F E] by (auto simp: block_start_def sorted_wrt_iff_nth_less)

lemma block_start_bound: "F \<le> E \<Longrightarrow> F \<le> block_start ops F E b \<and> block_start ops F E b \<le> E"
  using leaders_bound(1) [OF nth_mem, of b ops F E] by (auto simp: block_start_def intro: less_imp_le)

lemma block_start_leads: "b < block_number ops F E \<Longrightarrow> leads ops F (block_start ops F E b)"
proof -
  have "leads ops F x" if "x \<in> set (leaders ops F E)" for x using that by (simp add: leaders_def)
  then show "b < block_number ops F E \<Longrightarrow> leads ops F (block_start ops F E b)" by (simp add: block_start_def)
qed

lemma leaders_upto: "j < E \<Longrightarrow> leaders ops F (Suc j) = filter (\<lambda>x. x \<le> j) (leaders ops F E)"
proof -
  assume "j < E"
  then have "filter (\<lambda>x. x \<le> j) [F..<E] = [F..<Suc j]"
  proof (cases "F \<le> Suc j")
    case True
    then have "[F..<E] = [F..<Suc j] @ [Suc j..<E]" using \<open>j < E\<close> upt_add_eq_append [of F "Suc j" "E - Suc j"] by simp
    then show ?thesis by (simp add: filter_id_conv filter_empty_conv del: upt_Suc)
  next
    case False
    then show ?thesis by (simp add: filter_empty_conv)
  qed
  moreover have "filter (\<lambda>x. x \<le> j) (leaders ops F E) = filter (leads ops F) (filter (\<lambda>x. x \<le> j) [F..<E])" by (simp add: leaders_def conj_commute)
  ultimately show ?thesis by (simp add: leaders_def del: upt_Suc)
qed

lemma block_of_unique:
  assumes "b < block_number ops F E" "block_start ops F E b \<le> j" "j < block_start ops F E (Suc b)" "F \<le> E"
  shows "block_of ops F j = b"
proof -
  let ?L = "leaders ops F E"
  have j: "j < E" using assms(3) block_start_bound [OF assms(4), of ops "Suc b"] by simp
  have sorted: "\<And>x y. x < y \<Longrightarrow> y < length ?L \<Longrightarrow> ?L ! x < ?L ! y" using leaders_sorted by (simp add: sorted_wrt_iff_nth_less)
  have "x \<le> j" if x: "x \<in> set (take (Suc b) ?L)" for x
  proof -
    obtain k where "k \<le> b" "x = ?L ! k" using x by (auto simp: in_set_conv_nth less_Suc_eq_le)
    then show ?thesis using sorted [of k b] assms(1,2) by (cases "k = b") (auto simp: block_start_def)
  qed
  moreover have "\<not> x \<le> j" if x: "x \<in> set (drop (Suc b) ?L)" for x
  proof -
    obtain k where "Suc b \<le> k" "k < length ?L" "x = ?L ! k" using x by (auto simp: in_set_conv_nth) (metis add.commute le_add2 less_diff_conv add_Suc)
    then show ?thesis using sorted [of "Suc b" k] assms(3) by (cases "k = Suc b") (auto simp: block_start_def)
  qed
  ultimately have "filter (\<lambda>x. x \<le> j) (take (Suc b) ?L @ drop (Suc b) ?L) = take (Suc b) ?L" unfolding filter_append by (simp add: filter_id_conv filter_empty_conv)
  then show ?thesis using assms(1) j by (simp add: block_of_def leaders_upto)
qed

definition owners :: "usil_opcode list \<Rightarrow> nat \<Rightarrow> nat \<Rightarrow> nat \<Rightarrow> int list" where
  "owners ops N F i = map (\<lambda>j. if F \<le> j \<and> j < i then int (block_of ops F j) else -1) [0..<N]"

definition laid_block :: "usil_opcode list \<Rightarrow> nat \<Rightarrow> nat \<Rightarrow> nat \<Rightarrow> hlsl_basic_block" where
  "laid_block ops F E b = (if b < block_number ops F E
     then zero_block\<lparr>bb_first_instruction := int (block_start ops F E b), bb_last_instruction := int (block_start ops F E (Suc b)) - 1\<rparr> else zero_block)"

definition laid_blocks :: "usil_opcode list \<Rightarrow> nat \<Rightarrow> nat \<Rightarrow> nat \<Rightarrow> hlsl_basic_block list" where
  "laid_blocks ops N F E = map (laid_block ops F E) [0..<N]"

lemma last_block_closed:
  assumes "F < E" "E \<le> N"
  shows "modify (map (scanned (leaders ops F E) 1) [0..<N]) (int (block_number ops F E) - 1) (\<lambda>b. b\<lparr>bb_last_instruction := int E - 1\<rparr>) = Done (laid_blocks ops N F E)"
proof -
  let ?bs = "map (scanned (leaders ops F E) 1) [0..<N]"
  obtain k where k: "block_number ops F E = Suc k" using leaders_first [OF assms(1), of ops] by (cases "leaders ops F E") auto
  have n: "k < N" using k leaders_bound(2) [of ops F E] assms by auto
  have "?bs[k := (?bs ! k)\<lparr>bb_last_instruction := int E - 1\<rparr>] = laid_blocks ops N F E"
    using k n by (intro nth_equalityI) (auto simp: laid_blocks_def laid_block_def scanned_def block_start_def nth_list_update zero_block_def less_Suc_eq)
  then show ?thesis using k n by simp
qed

lemma assigned_owners:
  assumes "F < E" "E \<le> N"
  shows "delivers (\<lambda>owner. owner = owners ops N F E)
    (ofold (assign_block (laid_blocks ops N F E)) (counting 0 (int (block_number ops F E))) (replicate N (-1)))"
proof -
  let ?n = "block_number ops F E" and ?start = "block_start ops F E"
  have n: "?n \<le> N" using leaders_bound(2) [of ops F E] assms by simp
  have "delivers (\<lambda>owner. owner = owners ops N F (?start ?n)) (ofold (assign_block (laid_blocks ops N F E)) (counting (int 0) (int ?n)) (replicate N (-1)))"
  proof (rule delivers_counting [where holds = "\<lambda>b owner. owner = owners ops N F (?start b)"])
    show "replicate N (-1) = owners ops N F (?start 0)" by (auto simp: owners_def block_start_ends(1) [OF assms(1)] intro!: nth_equalityI)
    fix b owner assume b: "b < ?n" and o: "owner = owners ops N F (?start b)"
    have block: "at (laid_blocks ops N F E) (int b) = Done (laid_block ops F E b)" using b n by (simp add: laid_blocks_def)
    have lt: "?start b < ?start (Suc b)" by (rule block_start_less [OF b])
    have "delivers (\<lambda>owner. owner = owners ops N F (?start (Suc b))) (ofold (\<lambda>index owner. put owner index (int b)) (counting (int (?start b)) (int (?start (Suc b)))) owner :: (unit, _) outcome)"
    proof (rule delivers_counting [where holds = "\<lambda>i owner. owner = owners ops N F i"])
      fix i w assume i: "?start b \<le> i" "i < ?start (Suc b)" and w: "w = owners ops N F i"
      have "F \<le> i" "i < N" using i block_start_bound [of F E ops] assms by (auto intro: le_trans dest: order_less_le_trans)
      then have "(put w (int i) (int b) :: (unit, _) outcome) = Done (owners ops N F (Suc i))"
        using block_of_unique [OF b i] assms(1) by (auto simp: w owners_def nth_list_update less_Suc_eq intro!: nth_equalityI)
      then show "delivers (\<lambda>w. w = owners ops N F (Suc i)) (put w (int i) (int b) :: (unit, _) outcome)" by (simp add: delivers_done)
    qed (use lt o in auto)
    then show "delivers (\<lambda>owner. owner = owners ops N F (?start (Suc b))) (assign_block (laid_blocks ops N F E) (int b) owner)"
      using b by (simp add: assign_block_def block laid_block_def)
  qed simp
  then show ?thesis by (simp add: block_start_ends)
qed

section \<open>Edges\<close>

text \<open>The blocks \<open>S\<close> lists have their edges: block \<open>b\<close> leads to the blocks of \<open>S ! b\<close>.\<close>

definition edges_ok :: "nat \<Rightarrow> nat \<Rightarrow> nat list list \<Rightarrow> edge_builder \<Rightarrow> bool" where
  "edges_ok B N S eb \<longleftrightarrow> length S \<le> B \<and> B \<le> N \<and> length (eb_blocks eb) = N \<and> eb_edge_count eb = length (concat S) \<and> length (concat S) \<le> 3 * N \<and>
     eb_storage eb = map (\<lambda>t. Some (int t)) (concat S) @ replicate (3 * N - length (concat S)) None \<and>
     (\<forall>l\<in>set S. distinct l \<and> set l \<subseteq> {..<B}) \<and>
     (\<forall>b<length S. bb_successors (eb_blocks eb ! b) = length (concat (take b S)) \<and> bb_successor_count (eb_blocks eb ! b) = int (length (S ! b))) \<and>
     (\<forall>b<B. length S \<le> b \<longrightarrow> bb_successor_count (eb_blocks eb ! b) = 0) \<and>
     (\<forall>b<B. bb_predecessor_count (eb_blocks eb ! b) = int (length (filter (\<lambda>l. b \<in> set l) S)))"

text \<open>Adding edges of block \<open>b\<close> changes no other field, except that \<open>b\<close> may leave the program.\<close>

definition rest_same :: "nat \<Rightarrow> bool \<Rightarrow> edge_builder \<Rightarrow> edge_builder \<Rightarrow> bool" where
  "rest_same b leaves eb eb' \<longleftrightarrow> (\<forall>c<length (eb_blocks eb). bb_first_instruction (eb_blocks eb' ! c) = bb_first_instruction (eb_blocks eb ! c) \<and>
     bb_last_instruction (eb_blocks eb' ! c) = bb_last_instruction (eb_blocks eb ! c) \<and> bb_has_ambiguous_flow (eb_blocks eb' ! c) = bb_has_ambiguous_flow (eb_blocks eb ! c) \<and>
     bb_may_exit (eb_blocks eb' ! c) = (bb_may_exit (eb_blocks eb ! c) \<or> c = b \<and> leaves))"

lemma has_edge_ok:
  assumes "bb_successor_count block = int (length l)" "\<And>i. i < length l \<Longrightarrow> storage ! (bb_successors block + i) = Some (int (l ! i))"
    "bb_successors block + length l \<le> length storage"
  shows "has_edge storage block (int t) = Done (t \<in> set l)"
proof -
  have get: "(cell storage (int (bb_successors block) + int i) :: (unit, _) outcome) = Done (int (l ! i))" if "i < length l" for i
    using that assms(2) [OF that] assms(3) by (simp add: cell_def at_def nat_add_distrib)
  have "has_edge storage block (int t) = ofold (\<lambda>x found. if found then Done True else Done (x = t)) l False"
    unfolding has_edge_def assms(1) by (rule ofold_nth) (simp add: get)
  also have "\<dots> = Done (t \<in> set l)"
  proof -
    have "ofold (\<lambda>x found. if found then Done True else Done (x = t)) l found = (Done (found \<or> t \<in> set l) :: (unit, bool) outcome)" for found
      by (induction l arbitrary: found) (auto split: if_splits)
    then show ?thesis by simp
  qed
  finally show ?thesis .
qed

lemma edges_slice:
  assumes "edges_ok B N S eb" "b < length S" "i < length (S ! b)"
  shows "eb_storage eb ! (length (concat (take b S)) + i) = Some (int (S ! b ! i))" "length (concat (take b S)) + length (S ! b) \<le> length (concat S)"
proof -
  have split: "concat S = concat (take b S) @ S ! b @ concat (drop (Suc b) S)" using id_take_nth_drop [OF assms(2)] by (metis concat.simps(2) concat_append)
  then show "length (concat (take b S)) + length (S ! b) \<le> length (concat S)" by (metis length_append le_add1 add.assoc)
  have "length (concat (take b S)) + i < length (concat S)" using arg_cong [OF split, of length] assms(3) by simp
  moreover have "concat S ! (length (concat (take b S)) + i) = S ! b ! i" using assms(3) by (subst split) (simp add: nth_append)
  ultimately show "eb_storage eb ! (length (concat (take b S)) + i) = Some (int (S ! b ! i))" using assms(1) by (simp add: edges_ok_def nth_append)
qed

lemma edges_more:
  assumes ok: "edges_ok B N (S @ [l]) eb" and t: "t < B" "t \<notin> set l" and room: "length (concat S @ l) < 3 * N"
    and bs: "blocks = (let bs = eb_blocks eb; bs = bs[length S := (bs ! length S)\<lparr>bb_successor_count := bb_successor_count (bs ! length S) + 1\<rparr>] in
      bs[t := (bs ! t)\<lparr>bb_predecessor_count := bb_predecessor_count (bs ! t) + 1\<rparr>])"
  shows "edges_ok B N (S @ [l @ [t]]) \<lparr>eb_blocks = blocks, eb_storage = (eb_storage eb)[length (concat S @ l) := Some (int t)], eb_edge_count = eb_edge_count eb + 1\<rparr>"
    "rest_same (length S) False eb \<lparr>eb_blocks = blocks, eb_storage = (eb_storage eb)[length (concat S @ l) := Some (int t)], eb_edge_count = eb_edge_count eb + 1\<rparr>"
proof -
  have len: "length S < B" "B \<le> N" "length (eb_blocks eb) = N" using ok by (auto simp: edges_ok_def)
  have same: "bb_successors (blocks ! c) = bb_successors (eb_blocks eb ! c)"
    "bb_successor_count (blocks ! c) = bb_successor_count (eb_blocks eb ! c) + (if c = length S then 1 else 0)"
    "bb_predecessor_count (blocks ! c) = bb_predecessor_count (eb_blocks eb ! c) + (if c = t then 1 else 0)" for c
    using len t(1) by (auto simp: bs Let_def nth_list_update)
  have st: "(eb_storage eb)[length (concat S @ l) := Some (int t)] = map (\<lambda>t. Some (int t)) (concat S @ l @ [t]) @ replicate (3 * N - length (concat S @ l @ [t])) None"
  proof -
    obtain k where k: "3 * N - length (concat S @ l) = Suc k" using room by (metis Suc_diff_Suc)
    moreover have "3 * N - length (concat S @ l @ [t]) = k" using k by simp
    moreover have "eb_storage eb = map (\<lambda>t. Some (int t)) (concat S @ l) @ replicate (3 * N - length (concat S @ l)) None" using ok by (simp add: edges_ok_def)
    ultimately show ?thesis by (simp add: list_update_append)
  qed
  have "\<forall>b<length (S @ [l @ [t]]). bb_successors (blocks ! b) = length (concat (take b (S @ [l @ [t]]))) \<and> bb_successor_count (blocks ! b) = int (length ((S @ [l @ [t]]) ! b))"
    using ok by (auto simp: edges_ok_def same less_Suc_eq nth_append)
  moreover have "\<forall>b<B. length (S @ [l @ [t]]) \<le> b \<longrightarrow> bb_successor_count (blocks ! b) = 0" using ok by (auto simp: edges_ok_def same)
  moreover have "\<forall>b<B. bb_predecessor_count (blocks ! b) = int (length (filter (\<lambda>l. b \<in> set l) (S @ [l @ [t]])))" using ok t by (auto simp: edges_ok_def same)
  moreover have "length blocks = N" using len by (simp add: bs Let_def)
  moreover have "\<forall>k\<in>set (S @ [l @ [t]]). distinct k \<and> set k \<subseteq> {..<B}" using ok t by (auto simp: edges_ok_def)
  ultimately show "edges_ok B N (S @ [l @ [t]]) \<lparr>eb_blocks = blocks, eb_storage = (eb_storage eb)[length (concat S @ l) := Some (int t)], eb_edge_count = eb_edge_count eb + 1\<rparr>"
    using ok room st len unfolding edges_ok_def by simp
  show "rest_same (length S) False eb \<lparr>eb_blocks = blocks, eb_storage = (eb_storage eb)[length (concat S @ l) := Some (int t)], eb_edge_count = eb_edge_count eb + 1\<rparr>"
    using len t by (auto simp: rest_same_def bs Let_def nth_list_update)
qed

lemma block_of_bound: "F \<le> j \<Longrightarrow> j < E \<Longrightarrow> block_of ops F j < block_number ops F E"
proof -
  assume j: "F \<le> j" "j < E"
  have "0 < length (leaders ops F (Suc j))" using leaders_first [of F "Suc j" ops] j(1) by simp
  moreover have "length (leaders ops F (Suc j)) \<le> block_number ops F E" by (simp add: leaders_upto [OF j(2)])
  ultimately show ?thesis unfolding block_of_def by linarith
qed

lemma block_of_range:
  assumes j: "F \<le> j" "j < E"
  shows "block_start ops F E (block_of ops F j) \<le> j" "j < block_start ops F E (Suc (block_of ops F j))"
proof -
  let ?k = "LEAST k. j < block_start ops F E k"
  have end_: "j < block_start ops F E (block_number ops F E)" using block_start_ends(2) j(2) by simp
  have k: "j < block_start ops F E ?k" by (rule LeastI [of "\<lambda>k. j < block_start ops F E k", OF end_])
  have "?k \<noteq> 0" using k block_start_ends(1) [of F E ops] j by (metis leD order_less_le_trans le_less_trans)
  then obtain b where b: "?k = Suc b" by (cases ?k) auto
  then have "block_start ops F E b \<le> j" using not_less_Least [of b "\<lambda>k. j < block_start ops F E k"] by simp
  moreover have "b < block_number ops F E" using Least_le [of "\<lambda>k. j < block_start ops F E k", OF end_] b by simp
  moreover have "j < block_start ops F E (Suc b)" using k b by simp
  ultimately show "block_start ops F E (block_of ops F j) \<le> j" "j < block_start ops F E (Suc (block_of ops F j))"
    using block_of_unique [of b ops F E j] j by auto
qed

lemma rest_same_trans: "rest_same b x eb eb' \<Longrightarrow> rest_same b y eb' eb'' \<Longrightarrow> length (eb_blocks eb') = length (eb_blocks eb) \<Longrightarrow> rest_same b (x \<or> y) eb eb''"
  by (auto simp: rest_same_def)

lemma add_successor_ok:
  assumes ok: "edges_ok B N (S @ [l]) eb" and B: "B = block_number ops F E" and t: "F \<le> t" "t \<le> E" "E \<le> N"
  shows "delivers (\<lambda>eb'. \<exists>l'. edges_ok B N (S @ [l']) eb' \<and> set l' = set l \<union> block_of ops F ` ({t} - {E}) \<and> rest_same (length S) (t = E) eb eb')
    (add_successor (int B) (int N) (owners ops N F E) (int (length S)) (int t) (int F) (int E) eb)"
proof -
  let ?b = "length S" and ?t = "block_of ops F t"
  have len: "?b < B" "B \<le> N" "length (eb_blocks eb) = N" using ok by (auto simp: edges_ok_def)
  have fields: "bb_successors (eb_blocks eb ! ?b) = length (concat S)" "bb_successor_count (eb_blocks eb ! ?b) = int (length l)" "eb_edge_count eb = length (concat S @ l)"
    "length (eb_storage eb) = 3 * N" "length (concat S @ l) \<le> 3 * N" using ok by (auto simp: edges_ok_def dest: spec [of _ ?b])
  show ?thesis
  proof (cases "t = E")
    case True
    define eb' where "eb' = eb\<lparr>eb_blocks := (eb_blocks eb)[?b := (eb_blocks eb ! ?b)\<lparr>bb_may_exit := True\<rparr>]\<rparr>"
    have same: "bb_successors (eb_blocks eb' ! c) = bb_successors (eb_blocks eb ! c)" "bb_successor_count (eb_blocks eb' ! c) = bb_successor_count (eb_blocks eb ! c)"
      "bb_predecessor_count (eb_blocks eb' ! c) = bb_predecessor_count (eb_blocks eb ! c)" for c using len by (auto simp: eb'_def nth_list_update)
    have "edges_ok B N (S @ [l]) eb'" using ok unfolding edges_ok_def same by (simp add: eb'_def)
    moreover have "rest_same ?b True eb eb'" using len by (auto simp: rest_same_def eb'_def nth_list_update)
    moreover have "add_successor (int B) (int N) (owners ops N F E) (int ?b) (int t) (int F) (int E) eb = Done eb'" using True len by (simp add: add_successor_def eb'_def)
    ultimately show ?thesis using True by (auto simp: delivers_done)
  next
    case False
    then have tE: "t < E" using t by simp
    have tB: "?t < B" using block_of_bound [OF t(1) tE] B by simp
    have own: "(at (owners ops N F E) (int t) :: (unit, _) outcome) = Done (int ?t)" using t tE by (simp add: owners_def)
    have found: "has_edge (eb_storage eb) (eb_blocks eb ! ?b) (int ?t) = Done (?t \<in> set l)"
    proof (rule has_edge_ok)
      show "bb_successor_count (eb_blocks eb ! ?b) = int (length l)" by (rule fields(2))
      show "bb_successors (eb_blocks eb ! ?b) + length l \<le> length (eb_storage eb)" using fields by simp
      show "eb_storage eb ! (bb_successors (eb_blocks eb ! ?b) + i) = Some (int (l ! i))" if "i < length l" for i
        using edges_slice(1) [OF ok, of ?b i] that fields(1) by simp
    qed
    show ?thesis
    proof (cases "?t \<in> set l")
      case True
      then have "add_successor (int B) (int N) (owners ops N F E) (int ?b) (int t) (int F) (int E) eb = Done eb"
        using False t tE tB len own found by (simp add: add_successor_def)
      then show ?thesis using ok True False by (auto simp: delivers_done rest_same_def intro!: exI [of _ l])
    next
      case new: False
      define blocks where "blocks = (let bs = eb_blocks eb; bs = bs[?b := (bs ! ?b)\<lparr>bb_successor_count := bb_successor_count (bs ! ?b) + 1\<rparr>] in
        bs[?t := (bs ! ?t)\<lparr>bb_predecessor_count := bb_predecessor_count (bs ! ?t) + 1\<rparr>])"
      define eb' where "eb' = \<lparr>eb_blocks = blocks, eb_storage = (eb_storage eb)[length (concat S @ l) := Some (int ?t)], eb_edge_count = eb_edge_count eb + 1\<rparr>"
      have place: "int (length (concat S)) + int (length l) = int (length (concat S @ l))" by simp
      have "add_successor (int B) (int N) (owners ops N F E) (int ?b) (int t) (int F) (int E) eb =
          (if length (concat S @ l) \<ge> 3 * N \<or> bb_successor_count (eb_blocks eb ! ?b) = int INT_MAX \<or> bb_predecessor_count (eb_blocks eb ! ?t) = int INT_MAX then Fail () else Done eb')"
        using False t tE tB len own found new fields unfolding add_successor_def
        by (simp add: eb'_def blocks_def Let_def nth_list_update place del: of_nat_add length_append)
      moreover have "edges_ok B N (S @ [l @ [?t]]) eb'" "rest_same ?b False eb eb'" if "\<not> length (concat S @ l) \<ge> 3 * N"
        using edges_more [OF ok tB new _ blocks_def] that by (simp_all add: eb'_def)
      ultimately show ?thesis using False by (auto simp: intro!: delivers_intros exI [of _ "l @ [?t]"])
    qed
  qed
qed

lemma add_successors_ok:
  assumes "edges_ok B N (S @ [l]) eb" "B = block_number ops F E" "\<forall>t\<in>set ts. F \<le> t \<and> t \<le> E" "E \<le> N"
  shows "delivers (\<lambda>eb'. \<exists>l'. edges_ok B N (S @ [l']) eb' \<and> set l' = set l \<union> block_of ops F ` (set ts - {E}) \<and> rest_same (length S) (E \<in> set ts) eb eb')
    (ofold (\<lambda>t. add_successor (int B) (int N) (owners ops N F E) (int (length S)) t (int F) (int E)) (map int ts) eb)"
  using assms
proof (induction ts arbitrary: l eb)
  case Nil
  then show ?case by (auto simp: delivers_done rest_same_def)
next
  case (Cons t ts)
  show ?case unfolding list.map ofold.simps
  proof (rule delivers_obind [OF add_successor_ok [OF Cons.prems(1,2) _ _ Cons.prems(4), of t]])
    fix eb' assume "\<exists>l'. edges_ok B N (S @ [l']) eb' \<and> set l' = set l \<union> block_of ops F ` ({t} - {E}) \<and> rest_same (length S) (t = E) eb eb'"
    then obtain l' where l': "edges_ok B N (S @ [l']) eb'" "set l' = set l \<union> block_of ops F ` ({t} - {E})" "rest_same (length S) (t = E) eb eb'" by blast
    have len: "length (eb_blocks eb') = length (eb_blocks eb)" using l'(1) Cons.prems(1) by (simp add: edges_ok_def)
    show "delivers (\<lambda>eb'. \<exists>l'. edges_ok B N (S @ [l']) eb' \<and> set l' = set l \<union> block_of ops F ` (set (t # ts) - {E}) \<and> rest_same (length S) (E \<in> set (t # ts)) eb eb')
      (ofold (\<lambda>t. add_successor (int B) (int N) (owners ops N F E) (int (length S)) t (int F) (int E)) (map int ts) eb')"
    proof (rule delivers_mono [OF Cons.IH [OF l'(1) Cons.prems(2) _ Cons.prems(4)]])
      fix e assume "\<exists>k. edges_ok B N (S @ [k]) e \<and> set k = set l' \<union> block_of ops F ` (set ts - {E}) \<and> rest_same (length S) (E \<in> set ts) eb' e"
      then obtain k where k: "edges_ok B N (S @ [k]) e" "set k = set l' \<union> block_of ops F ` (set ts - {E})" "rest_same (length S) (E \<in> set ts) eb' e" by blast
      have "rest_same (length S) (E \<in> set (t # ts)) eb e" using rest_same_trans [OF l'(3) k(3) len] by (auto simp: rest_same_def)
      moreover have "set k = set l \<union> block_of ops F ` (set (t # ts) - {E})" using k(2) l'(2) by (auto split: if_splits)
      ultimately show "\<exists>l'. edges_ok B N (S @ [l']) e \<and> set l' = set l \<union> block_of ops F ` (set (t # ts) - {E}) \<and> rest_same (length S) (E \<in> set (t # ts)) eb e"
        using k(1) by blast
    qed (use Cons.prems in auto)
  qed (use Cons.prems in auto)
qed

text \<open>
  What the instructions say of block \<open>b\<close>: its last instruction, where control may go after it, whether it may leave the
  program, and the construct around it.
\<close>

definition block_last :: "usil_opcode list \<Rightarrow> nat \<Rightarrow> nat \<Rightarrow> nat \<Rightarrow> nat" where
  "block_last ops F E b = block_start ops F E (Suc b) - 1"

definition targets_of :: "usil_opcode list \<Rightarrow> hlsl_instruction_flow list \<Rightarrow> nat \<Rightarrow> nat set" where
  "targets_of ops flow j = (case flow_targets (ops ! j) flow (int j) of Done ts \<Rightarrow> nat ` set ts | _ \<Rightarrow> {})"

definition nesting_of :: "usil_opcode list \<Rightarrow> nat \<Rightarrow> hlsl_instruction_flow list \<Rightarrow> nat \<Rightarrow> hlsl_block_nesting" where
  "nesting_of ops F flow j = (let p = fl_parent (flow ! j) in
     if p \<ge> 0 then \<lparr>bn_parent_block = int (block_of ops F (nat p)), bn_is_loop = (ops ! nat p = USIL_OP_LOOP), bn_is_if = (ops ! nat p \<in> {USIL_OP_IF, USIL_OP_ELSE})\<rparr>
     else \<lparr>bn_parent_block = -1, bn_is_loop = False, bn_is_if = False\<rparr>)"

definition block_says :: "usil_opcode list \<Rightarrow> nat \<Rightarrow> nat \<Rightarrow> hlsl_instruction_flow list \<Rightarrow> nat \<Rightarrow> hlsl_basic_block \<Rightarrow> nat set \<Rightarrow> bool" where
  "block_says ops F E flow b block next \<longleftrightarrow> (let j = block_last ops F E b in
     next = block_of ops F ` (targets_of ops flow j - {E}) \<and>
     bb_may_exit block = (ops ! j \<in> {USIL_OP_RET, USIL_OP_DISCARD} \<or> E \<in> targets_of ops flow j) \<and>
     bb_has_ambiguous_flow block = (ops ! j \<in> {USIL_OP_SWITCH, USIL_OP_CASE, USIL_OP_DEFAULT, USIL_OP_ENDSWITCH}))"

definition laid_out :: "usil_opcode list \<Rightarrow> nat \<Rightarrow> nat \<Rightarrow> hlsl_basic_block list \<Rightarrow> bool" where
  "laid_out ops F E blocks \<longleftrightarrow> (\<forall>b<block_number ops F E. bb_first_instruction (blocks ! b) = int (block_start ops F E b) \<and>
     bb_last_instruction (blocks ! b) = int (block_last ops F E b))"

definition connected :: "usil_opcode list \<Rightarrow> nat \<Rightarrow> nat \<Rightarrow> nat \<Rightarrow> hlsl_instruction_flow list \<Rightarrow> nat \<Rightarrow> hlsl_block_nesting list \<times> edge_builder \<Rightarrow> bool" where
  "connected ops N F E flow b s \<longleftrightarrow> (let (nesting, eb) = s; B = block_number ops F E in
     nesting = map (\<lambda>c. nesting_of ops F flow (block_start ops F E c)) [0..<b] @ replicate (B - b) zero_nesting \<and> laid_out ops F E (eb_blocks eb) \<and>
     (\<exists>S. length S = b \<and> edges_ok B N S eb \<and> (\<forall>c<b. block_says ops F E flow c (eb_blocks eb ! c) (set (S ! c)))) \<and>
     (\<forall>c<B. b \<le> c \<longrightarrow> \<not> bb_may_exit (eb_blocks eb ! c) \<and> \<not> bb_has_ambiguous_flow (eb_blocks eb ! c)))"

lemma block_last_bound:
  assumes "b < block_number ops F E" "F < E"
  shows "block_start ops F E b \<le> block_last ops F E b" "block_last ops F E b < E" "F \<le> block_start ops F E b"
    "int (block_start ops F E (Suc b)) - 1 = int (block_last ops F E b)"
proof -
  have "block_start ops F E b < block_start ops F E (Suc b)" "block_start ops F E (Suc b) \<le> E" "F \<le> block_start ops F E b"
    using block_start_less [OF assms(1)] block_start_bound [of F E ops] assms(2) by auto
  then show "block_start ops F E b \<le> block_last ops F E b" "block_last ops F E b < E" "F \<le> block_start ops F E b"
    "int (block_start ops F E (Suc b)) - 1 = int (block_last ops F E b)" by (auto simp: block_last_def)
qed

lemma nesting_ok:
  assumes m: "matched ops N F E flow" and e: "E \<le> N" "N \<le> length ops" and j: "j < N"
  shows "block_nesting ops (owners ops N F E) (fl_parent (flow ! j)) zero_nesting = Done (nesting_of ops F flow j)"
proof -
  let ?p = "fl_parent (flow ! j)"
  have "?p = -1 \<or> int F \<le> ?p \<and> ?p < int E" using matchedD(1,2) [OF m] j by (auto simp: parent_ok_def)
  then show ?thesis
  proof
    assume p: "int F \<le> ?p \<and> ?p < int E"
    then obtain p where "?p = int p" "F \<le> p" "p < E" by (intro that [of "nat ?p"]) auto
    then show ?thesis using e by (simp add: block_nesting_def nesting_of_def owners_def zero_nesting_def)
  qed (simp add: block_nesting_def nesting_of_def zero_nesting_def)
qed

text \<open>The start of block \<open>b\<close>'s turn: its edges begin at the end of the array and its flags are those of its last instruction.\<close>

definition open_block :: "usil_opcode \<Rightarrow> nat \<Rightarrow> edge_builder \<Rightarrow> edge_builder" where
  "open_block opc b eb = eb\<lparr>eb_blocks := (eb_blocks eb)[b := block_flags opc ((eb_blocks eb ! b)\<lparr>bb_successors := eb_edge_count eb\<rparr>)]\<rparr>"

lemma block_flags_keeps [simp]:
  "bb_successors (block_flags opc x) = bb_successors x" "bb_successor_count (block_flags opc x) = bb_successor_count x"
  "bb_predecessor_count (block_flags opc x) = bb_predecessor_count x"
  "bb_first_instruction (block_flags opc x) = bb_first_instruction x" "bb_last_instruction (block_flags opc x) = bb_last_instruction x"
  by (simp_all add: block_flags_def)

lemma nth_open_block:
  "b < length (eb_blocks eb) \<Longrightarrow> eb_blocks (open_block opc b eb) ! c =
    (if c = b then block_flags opc ((eb_blocks eb ! b)\<lparr>bb_successors := eb_edge_count eb\<rparr>) else eb_blocks eb ! c)"
  by (simp add: open_block_def nth_list_update)

lemma open_block_edges:
  assumes S: "edges_ok B N S eb" and b: "length S < B"
  shows "edges_ok B N (S @ [[]]) (open_block opc (length S) eb)"
proof -
  have len: "length S < length (eb_blocks eb)" using S b by (auto simp: edges_ok_def)
  have count: "bb_successor_count (eb_blocks eb ! length S) = 0" using S b by (auto simp: edges_ok_def)
  have "\<forall>c<length (S @ [[]]). bb_successors (eb_blocks (open_block opc (length S) eb) ! c) = length (concat (take c (S @ [[]]))) \<and>
      bb_successor_count (eb_blocks (open_block opc (length S) eb) ! c) = int (length ((S @ [[]]) ! c))"
    using S count by (auto simp: edges_ok_def nth_open_block [OF len] less_Suc_eq nth_append)
  then show ?thesis using S b count unfolding edges_ok_def by (simp add: nth_open_block [OF len]) (simp add: open_block_def)
qed

lemma connect_block_ok:
  assumes m: "matched ops N F E flow" and e: "F < E" "E \<le> N" "N \<le> length ops" and b: "b < block_number ops F E" and c: "connected ops N F E flow b s"
  shows "delivers (connected ops N F E flow (Suc b)) (connect_block ops flow (int (block_number ops F E)) (int N) (owners ops N F E) (int F) (int E) (int b) s)"
proof -
  let ?B = "block_number ops F E" and ?j = "block_last ops F E b" and ?start = "block_start ops F E b"
  obtain nesting eb S where s: "s = (nesting, eb)" and nest: "nesting = map (\<lambda>c. nesting_of ops F flow (block_start ops F E c)) [0..<b] @ replicate (?B - b) zero_nesting"
    and laid: "laid_out ops F E (eb_blocks eb)" and S: "length S = b" "edges_ok ?B N S eb" "\<forall>c<b. block_says ops F E flow c (eb_blocks eb ! c) (set (S ! c))"
    and rest: "\<forall>c<?B. b \<le> c \<longrightarrow> \<not> bb_may_exit (eb_blocks eb ! c) \<and> \<not> bb_has_ambiguous_flow (eb_blocks eb ! c)"
    using c by (cases s) (auto simp: connected_def Let_def)
  note last = block_last_bound [OF b e(1)]
  have len: "length (eb_blocks eb) = N" "?B \<le> N" "length flow = N" using S(2) matchedD(1) [OF m] by (auto simp: edges_ok_def)
  have ends: "bb_first_instruction (eb_blocks eb ! b) = int ?start" "bb_last_instruction (eb_blocks eb ! b) = int ?j" using laid b by (auto simp: laid_out_def)
  obtain ts where ts: "flow_targets (ops ! ?j) flow (int ?j) = Done (map int ts)" "\<forall>t\<in>set ts. F \<le> t \<and> t \<le> E"
    using flow_targets_ok [OF m e(2), of ?j] last by auto
  have targets: "targets_of ops flow ?j = set ts" using ts(1) by (simp add: targets_of_def image_image)
  define eb1 where "eb1 = open_block (ops ! ?j) b eb"
  have "b < length (eb_blocks eb)" using b len by simp
  note nth = nth_open_block [OF this, of "ops ! ?j", folded eb1_def]
  have start: "edges_ok ?B N (S @ [[]]) eb1" using open_block_edges [OF S(2)] b S(1) by (simp add: eb1_def)
  have "\<not> bb_may_exit (eb_blocks eb ! b)" "\<not> bb_has_ambiguous_flow (eb_blocks eb ! b)" using rest b by auto
  then have set_flags: "bb_may_exit (eb_blocks eb1 ! b) = (ops ! ?j \<in> {USIL_OP_RET, USIL_OP_DISCARD})"
      "bb_has_ambiguous_flow (eb_blocks eb1 ! b) = (ops ! ?j \<in> {USIL_OP_SWITCH, USIL_OP_CASE, USIL_OP_DEFAULT, USIL_OP_ENDSWITCH})"
    by (auto simp: nth block_flags_def)
  define nesting' where "nesting' = nesting[b := nesting_of ops F flow ?start]"
  have nest': "nesting' = map (\<lambda>c. nesting_of ops F flow (block_start ops F E c)) [0..<Suc b] @ replicate (?B - Suc b) zero_nesting"
    using b by (simp add: nesting'_def nest list_update_append flip: Suc_diff_Suc)
  have same_first: "bb_first_instruction (eb_blocks eb1 ! c) = bb_first_instruction (eb_blocks eb ! c)" "bb_last_instruction (eb_blocks eb1 ! c) = bb_last_instruction (eb_blocks eb ! c)" for c
    by (simp_all add: nth)
  have after: "connected ops N F E flow (Suc b) (nesting', eb')"
    if l: "edges_ok ?B N (S @ [l]) eb'" "set l = block_of ops F ` (set ts - {E})" "rest_same b (E \<in> set ts) eb1 eb'" for l eb'
  proof -
    have keep: "bb_first_instruction (eb_blocks eb' ! c) = bb_first_instruction (eb_blocks eb1 ! c)" "bb_last_instruction (eb_blocks eb' ! c) = bb_last_instruction (eb_blocks eb1 ! c)"
      "bb_has_ambiguous_flow (eb_blocks eb' ! c) = bb_has_ambiguous_flow (eb_blocks eb1 ! c)" "bb_may_exit (eb_blocks eb' ! c) = (bb_may_exit (eb_blocks eb1 ! c) \<or> c = b \<and> E \<in> set ts)"
      if "c < ?B" for c using l(3) that len by (auto simp: rest_same_def eb1_def open_block_def)
    have "block_says ops F E flow c (eb_blocks eb' ! c) (set ((S @ [l]) ! c))" if "c < Suc b" for c
    proof (cases "c = b")
      case True
      then show ?thesis using l(2) S(1) targets unfolding block_says_def Let_def True keep(3,4) [OF b] set_flags by (simp add: nth_append)
    next
      case False
      then show ?thesis using that S(1,3) keep [of c] b nth [of c] by (simp add: block_says_def nth_append)
    qed
    moreover have "laid_out ops F E (eb_blocks eb')" using laid keep(1,2) same_first by (simp add: laid_out_def)
    moreover have "\<forall>c<?B. Suc b \<le> c \<longrightarrow> \<not> bb_may_exit (eb_blocks eb' ! c) \<and> \<not> bb_has_ambiguous_flow (eb_blocks eb' ! c)" using rest keep(3,4) nth by auto
    moreover have "\<exists>S'. length S' = Suc b \<and> edges_ok ?B N S' eb' \<and> (\<forall>c<Suc b. block_says ops F E flow c (eb_blocks eb' ! c) (set (S' ! c)))"
      using l(1) S(1) calculation(1) by (intro exI [of _ "S @ [l]"]) simp
    ultimately show ?thesis using nest' unfolding connected_def Let_def split by blast
  qed
  have run: "connect_block ops flow (int ?B) (int N) (owners ops N F E) (int F) (int E) (int b) s =
    obind (ofold (\<lambda>t. add_successor (int ?B) (int N) (owners ops N F E) (int (length S)) t (int F) (int E)) (map int ts) eb1) (\<lambda>eb. Done (nesting', eb))"
    using b len last e nest ends ts(1) S(1) nesting_ok [OF m e(2,3), of ?start] by (simp add: s connect_block_def eb1_def open_block_def nesting'_def nth_append)
  show ?thesis unfolding run
    by (rule delivers_obind [OF add_successors_ok [OF start refl ts(2) e(2)]]) (use after S(1) in \<open>auto simp: delivers_done\<close>)
qed

section \<open>Reverse edges\<close>

text \<open>The blocks that lead to block \<open>t\<close>, among the first \<open>b\<close>; how many there are, and where their slice starts.\<close>

definition sources :: "nat list list \<Rightarrow> nat \<Rightarrow> nat \<Rightarrow> nat list" where
  "sources S b t = filter (\<lambda>p. t \<in> set (S ! p)) [0..<b]"

definition slice_start :: "nat list list \<Rightarrow> nat \<Rightarrow> nat" where
  "slice_start S t = sum_list (map (\<lambda>c. length (sources S (length S) c)) [0..<t])"

lemma sources_count: "length (filter (\<lambda>l. t \<in> set l) S) = length (sources S (length S) t)"
proof -
  have "filter (\<lambda>l. t \<in> set l) (map ((!) S) [0..<length S]) = map ((!) S) (sources S (length S) t)" by (simp only: filter_map sources_def comp_def)
  then show ?thesis by (simp add: map_nth)
qed

lemma sources_mono: "b \<le> c \<Longrightarrow> length (sources S b t) \<le> length (sources S c t)"
proof -
  assume "b \<le> c"
  then have "[0..<c] = [0..<b] @ [b..<c]" using upt_add_eq_append [of 0 b "c - b"] by simp
  then show ?thesis by (simp add: sources_def)
qed

lemma slice_start_less: "t < u \<Longrightarrow> slice_start S t + length (sources S (length S) t) \<le> slice_start S u"
proof -
  assume "t < u"
  then have "[0..<u] = [0..<Suc t] @ [Suc t..<u]" using upt_add_eq_append [of 0 "Suc t" "u - Suc t"] by simp
  then show ?thesis by (simp add: slice_start_def)
qed

text \<open>Every edge is counted once at its target.\<close>

lemma slices_fill:
  assumes "\<forall>l\<in>set S. distinct l \<and> set l \<subseteq> {..<B}"
  shows "slice_start S B = length (concat S)"
proof -
  have one: "sum_list (map (\<lambda>c. length (filter (\<lambda>l. c \<in> set l) [l])) [0..<B]) = length l" if "distinct l" "set l \<subseteq> {..<B}" for l
  proof -
    have "sum_list (map (\<lambda>c. length (filter (\<lambda>l. c \<in> set l) [l])) xs) = length (filter (\<lambda>c. c \<in> set l) xs)" for xs by (induction xs) auto
    moreover have "length (filter (\<lambda>c. c \<in> set l) [0..<B]) = card (set l)"
      using that(2) distinct_card [of "filter (\<lambda>c. c \<in> set l) [0..<B]"] by (simp add: Collect_conj_eq inf.absorb2 lessThan_def [symmetric] Int_commute inf.absorb1)
    ultimately show ?thesis using distinct_card [OF that(1)] by simp
  qed
  have "sum_list (map (\<lambda>c. length (filter (\<lambda>l. c \<in> set l) S)) [0..<B]) = length (concat S)" using assms
  proof (induction S)
    case (Cons l S)
    have "(\<lambda>c. length (filter (\<lambda>k. c \<in> set k) (l # S))) = (\<lambda>c. length (filter (\<lambda>k. c \<in> set k) [l]) + length (filter (\<lambda>k. c \<in> set k) S))" by auto
    then show ?case using one [of l] Cons by (simp add: sum_list_addf del: filter.simps)
  qed simp
  then show ?thesis by (simp add: slice_start_def sources_count)
qed

definition placed :: "nat list list \<Rightarrow> nat \<Rightarrow> hlsl_basic_block list \<Rightarrow> hlsl_basic_block list" where
  "placed S b blocks = map (\<lambda>c. if c < b then (blocks ! c)\<lparr>bb_predecessors := slice_start S c, bb_predecessor_count := 0\<rparr> else blocks ! c) [0..<length blocks]"

lemma place_predecessors_ok:
  assumes "edges_ok B N S eb" "length S = B"
  shows "delivers (\<lambda>(blocks, off). blocks = placed S B (eb_blocks eb)) (ofold place_predecessors (counting 0 (int B)) (eb_blocks eb, 0))"
proof -
  have len: "B \<le> N" "length (eb_blocks eb) = N" using assms(1) by (auto simp: edges_ok_def)
  have "delivers (\<lambda>s. s = (placed S B (eb_blocks eb), slice_start S B)) (ofold place_predecessors (counting (int 0) (int B)) (eb_blocks eb, 0))"
  proof (rule delivers_counting [where holds = "\<lambda>b s. s = (placed S b (eb_blocks eb), slice_start S b)"])
    show "(eb_blocks eb, 0) = (placed S 0 (eb_blocks eb), slice_start S 0)" by (simp add: placed_def slice_start_def map_nth)
    fix b s assume b: "b < B" and s: "s = (placed S b (eb_blocks eb), slice_start S b)"
    have "bb_predecessor_count (eb_blocks eb ! b) = int (length (sources S (length S) b))" using assms b by (simp add: edges_ok_def sources_count)
    moreover have "placed S (Suc b) (eb_blocks eb) = (placed S b (eb_blocks eb))[b := (eb_blocks eb ! b)\<lparr>bb_predecessors := slice_start S b, bb_predecessor_count := 0\<rparr>]"
      using b len by (intro nth_equalityI) (auto simp: placed_def nth_list_update less_Suc_eq)
    moreover have "b < length (placed S b (eb_blocks eb))" "placed S b (eb_blocks eb) ! b = eb_blocks eb ! b" using b len by (auto simp: placed_def)
    ultimately show "delivers (\<lambda>s. s = (placed S (Suc b) (eb_blocks eb), slice_start S (Suc b))) (place_predecessors (int b) s)"
      by (simp add: s place_predecessors_def delivers_done slice_start_def)
  qed simp
  then show ?thesis by (auto elim: delivers_mono)
qed

text \<open>The reverse edges so far: \<open>R t\<close> are the blocks entered for block \<open>t\<close>.\<close>

definition reversed :: "nat list list \<Rightarrow> nat \<Rightarrow> hlsl_basic_block list \<Rightarrow> (nat \<Rightarrow> nat list) \<Rightarrow> hlsl_basic_block list \<times> cells \<Rightarrow> bool" where
  "reversed S M base R s \<longleftrightarrow> (let (blocks, predecessors) = s; B = length S in
     length blocks = length base \<and> (\<forall>c<B. blocks ! c = (base ! c)\<lparr>bb_predecessor_count := int (length (R c))\<rparr>) \<and> length predecessors = M \<and>
     (\<forall>c<B. length (R c) \<le> length (sources S B c) \<and> (\<forall>i<length (R c). predecessors ! (slice_start S c + i) = Some (int (R c ! i)))))"

lemma reverse_edge_ok:
  assumes r: "reversed S M (placed S (length S) (eb_blocks eb)) R s" and ok: "edges_ok B N S eb" "length S = B" and b: "b < B" and i: "i < length (S ! b)"
    and room: "length (R (S ! b ! i)) < length (sources S B (S ! b ! i))" and M: "length (concat S) \<le> M"
  shows "delivers (reversed S M (placed S (length S) (eb_blocks eb)) (R(S ! b ! i := R (S ! b ! i) @ [b]))) (reverse_edge (eb_storage eb) (int b) (int i) s)"
proof -
  let ?base = "placed S (length S) (eb_blocks eb)" and ?t = "S ! b ! i"
  obtain blocks preds where s: "s = (blocks, preds)" by (cases s)
  have len: "length (eb_blocks eb) = N" "B \<le> N" using ok by (auto simp: edges_ok_def)
  have bs: "length blocks = N" "\<And>c. c < B \<Longrightarrow> blocks ! c = (?base ! c)\<lparr>bb_predecessor_count := int (length (R c))\<rparr>" "length preds = M"
    "\<And>c. c < B \<Longrightarrow> length (R c) \<le> length (sources S B c)" "\<And>c i. c < B \<Longrightarrow> i < length (R c) \<Longrightarrow> preds ! (slice_start S c + i) = Some (int (R c ! i))"
    using r len by (auto simp: reversed_def s ok(2) placed_def)
  have dist: "\<forall>l\<in>set S. distinct l \<and> set l \<subseteq> {..<B}" using ok by (simp add: edges_ok_def)
  have t: "?t < B" using dist b i ok(2) nth_mem [of b S] nth_mem [of i "S ! b"] by blast
  have base: "bb_successors (?base ! b) = length (concat (take b S))" "bb_predecessors (?base ! ?t) = slice_start S ?t"
    using ok b t len by (auto simp: placed_def edges_ok_def)
  have edge: "(cell (eb_storage eb) (int (length (concat (take b S))) + int i) :: (unit, _) outcome) = Done (int ?t)"
    using edges_slice [OF ok(1), of b i] b i ok by (simp add: cell_def at_def nat_add_distrib edges_ok_def)
  have fits: "slice_start S ?t + length (R ?t) < M"
    using room slice_start_less [OF t, of S] slices_fill [OF dist] M ok(2) by simp
  define preds' where "preds' = preds[slice_start S ?t + length (R ?t) := Some (int b)]"
  define blocks' where "blocks' = blocks[?t := (blocks ! ?t)\<lparr>bb_predecessor_count := bb_predecessor_count (blocks ! ?t) + 1\<rparr>]"
  have put_here: "(put preds (int (slice_start S ?t) + int (length (R ?t))) (Some (int b)) :: (unit, _) outcome) = Done preds'"
    using fits bs(3) put_int [of "slice_start S ?t + length (R ?t)" preds] by (simp add: preds'_def)
  have "reverse_edge (eb_storage eb) (int b) (int i) s = Done (blocks', preds')"
    using b t len bs(1) base edge put_here by (simp add: s reverse_edge_def bs(2) blocks'_def)
  moreover have "preds' ! (slice_start S c + k) = Some (int ((R(?t := R ?t @ [b])) c ! k))" if "c < B" "k < length ((R(?t := R ?t @ [b])) c)" for c k
  proof (cases "c = ?t")
    case True
    then show ?thesis using that fits bs(3,5) t by (auto simp: preds'_def nth_list_update nth_append less_Suc_eq)
  next
    case False
    then have "slice_start S c + k \<noteq> slice_start S ?t + length (R ?t)"
      using that bs(4) [of c] room slice_start_less [of c ?t S] slice_start_less [of ?t c S] ok(2) by (cases "c < ?t") auto
    then show ?thesis using False that bs(5) by (simp add: preds'_def)
  qed
  moreover have "blocks' ! c = (?base ! c)\<lparr>bb_predecessor_count := int (length ((R(?t := R ?t @ [b])) c))\<rparr>" if "c < B" for c
    using that bs(1,2) t len by (auto simp: blocks'_def nth_list_update)
  ultimately show ?thesis using bs(1,3,4) room len ok(2) by (simp add: delivers_done reversed_def blocks'_def preds'_def placed_def)
qed

lemma reverse_block_ok:
  assumes ok: "edges_ok B N S eb" "length S = B" and b: "b < B" and M: "length (concat S) \<le> M"
    and r: "reversed S M (placed S (length S) (eb_blocks eb)) (sources S b) s"
  shows "delivers (reversed S M (placed S (length S) (eb_blocks eb)) (sources S (Suc b))) (reverse_block (eb_storage eb) (int b) s)"
proof -
  let ?base = "placed S (length S) (eb_blocks eb)" and ?l = "S ! b"
  define R where "R = (\<lambda>i t. sources S b t @ (if t \<in> set (take i ?l) then [b] else []))"
  have len: "length (eb_blocks eb) = N" "B \<le> N" using ok by (auto simp: edges_ok_def)
  have "bb_successor_count (?base ! b) = int (length ?l)" using ok b len by (simp add: placed_def edges_ok_def)
  moreover have "fst s ! b = (?base ! b)\<lparr>bb_predecessor_count := int (length (sources S b b))\<rparr>" "length (fst s) = N"
    using r b ok(2) len by (cases s; simp add: reversed_def placed_def)+
  ultimately have run: "reverse_block (eb_storage eb) (int b) s = ofold (reverse_edge (eb_storage eb) (int b)) (counting 0 (int (length ?l))) s"
    using b len by (simp add: reverse_block_def)
  have d: "distinct ?l" using ok b by (auto simp: edges_ok_def)
  have "delivers (reversed S M ?base (R (length ?l))) (ofold (reverse_edge (eb_storage eb) (int b)) (counting (int 0) (int (length ?l))) s)"
  proof (rule delivers_counting [where holds = "\<lambda>i. reversed S M ?base (R i)"])
    show "reversed S M ?base (R 0) s" using r by (simp add: R_def)
    fix i s assume i: "i < length ?l" and h: "reversed S M ?base (R i) s"
    have fresh: "?l ! i \<notin> set (take i ?l)" using d i by (auto simp: in_set_conv_nth nth_eq_iff_index_eq)
    have "length (sources S b (?l ! i)) < length (sources S (Suc b) (?l ! i))" using i by (simp add: sources_def)
    also have "\<dots> \<le> length (sources S B (?l ! i))" using b by (intro sources_mono) simp
    finally have "length (R i (?l ! i)) < length (sources S B (?l ! i))" using fresh by (simp add: R_def)
    from reverse_edge_ok [OF h ok b i this M]
    have "delivers (reversed S M ?base ((R i)(?l ! i := R i (?l ! i) @ [b]))) (reverse_edge (eb_storage eb) (int b) (int i) s)" .
    moreover have "(R i)(?l ! i := R i (?l ! i) @ [b]) = R (Suc i)" using fresh i by (auto simp: R_def fun_eq_iff take_Suc_conv_app_nth)
    ultimately show "delivers (reversed S M ?base (R (Suc i))) (reverse_edge (eb_storage eb) (int b) (int i) s)" by simp
  qed simp
  moreover have "R (length ?l) = sources S (Suc b)" by (auto simp: R_def sources_def fun_eq_iff)
  ultimately show ?thesis by (simp add: run)
qed

lemma reverse_blocks_ok:
  assumes ok: "edges_ok B N S eb" "length S = B" and M: "length (concat S) \<le> M"
  shows "delivers (reversed S M (placed S (length S) (eb_blocks eb)) (sources S B))
    (ofold (reverse_block (eb_storage eb)) (counting 0 (int B)) (placed S B (eb_blocks eb), replicate M None))"
proof -
  have "delivers (reversed S M (placed S (length S) (eb_blocks eb)) (sources S B)) (ofold (reverse_block (eb_storage eb)) (counting (int 0) (int B)) (placed S B (eb_blocks eb), replicate M None))"
  proof (rule delivers_counting [where holds = "\<lambda>b. reversed S M (placed S (length S) (eb_blocks eb)) (sources S b)"])
    show "reversed S M (placed S (length S) (eb_blocks eb)) (sources S 0) (placed S B (eb_blocks eb), replicate M None)"
      using ok by (simp add: reversed_def sources_def placed_def edges_ok_def)
  qed (use reverse_block_ok [OF ok _ M] in auto)
  then show ?thesis by simp
qed

section \<open>The built graph\<close>

definition built :: "usil_opcode list \<Rightarrow> nat \<Rightarrow> nat \<Rightarrow> nat \<Rightarrow> hlsl_control_flow_graph \<Rightarrow> bool" where
  "built ops N F E cfg \<longleftrightarrow> (let B = block_number ops F E in
     F < E \<and> E \<le> N \<and> N \<le> length ops \<and> graph_ok cfg \<and> cfg_block_count cfg = int B \<and> cfg_instruction_count cfg = int N \<and> cfg_instruction_block cfg = Some (owners ops N F E) \<and>
     cfg_idom cfg = None \<and> cfg_df cfg = None \<and> cfg_df_count cfg = None \<and>
     (\<exists>flow. cfg_instruction_flow cfg = Some flow \<and> matched ops N F E flow \<and> laid_out ops F E (the (cfg_blocks cfg)) \<and>
        cfg_nesting cfg = Some (map (\<lambda>b. nesting_of ops F flow (block_start ops F E b)) [0..<B]) \<and>
        (\<forall>b<B. block_says ops F E flow b (blk cfg b) (set (succs cfg b)))))"

lemma finished_graph:
  assumes ok: "edges_ok B N S eb" "length S = B" "0 < B" and r: "reversed S M (placed S (length S) (eb_blocks eb)) (sources S B) (blocks, pcells)" and M: "length (concat S) \<le> M"
    and c: "cfg_blocks cfg = Some blocks" "cfg_successor_storage cfg = Some (eb_storage eb)" "cfg_predecessor_storage cfg = Some pcells" "cfg_block_count cfg = int B"
  shows "graph_ok cfg" "\<And>b. b < B \<Longrightarrow> succs cfg b = S ! b"
proof -
  have len: "length (eb_blocks eb) = N" "B \<le> N" and dist: "\<forall>l\<in>set S. distinct l \<and> set l \<subseteq> {..<B}" using ok by (auto simp: edges_ok_def)
  have total: "block_total cfg = B" by (simp add: block_total_def c)
  have rl: "length blocks = N" "length pcells = M" using r len by (auto simp: reversed_def placed_def Let_def)
  have blk: "bb_successors (blk cfg b) = length (concat (take b S))" "bb_successor_count (blk cfg b) = int (length (S ! b))"
    "bb_predecessors (blk cfg b) = slice_start S b" "bb_predecessor_count (blk cfg b) = int (length (sources S B b))" if "b < B" for b
    using that r ok(1,2) len by (auto simp: blk_def c reversed_def placed_def edges_ok_def)
  show succs: "succs cfg b = S ! b" if "b < B" for b
    using that edges_slice(1) [OF ok(1)] ok(2) by (auto simp: succs_def total blk slice_of_def c intro!: nth_equalityI)
  have preds: "preds cfg b = sources S B b" if "b < B" for b
    using that r ok(2) by (auto simp: preds_def total blk slice_of_def c reversed_def intro!: nth_equalityI)
  have succ_slice: "slice_ok B (eb_storage eb) (bb_successors (blk cfg b)) (bb_successor_count (blk cfg b))" if "b < B" for b
  proof -
    have "length (concat (take b S)) + length (S ! b) \<le> length (eb_storage eb)"
    proof (cases "S ! b = []")
      case True
      have "length (concat (take b S)) \<le> length (concat S)" by (metis append_take_drop_id concat_append length_append le_add1)
      then show ?thesis using ok(1) True by (simp add: edges_ok_def)
    next
      case False
      then show ?thesis using edges_slice(2) [OF ok(1), of b 0] ok(1,2) that by (simp add: edges_ok_def)
    qed
    moreover have "\<exists>v<B. eb_storage eb ! (length (concat (take b S)) + i) = Some (int v)" if "i < length (S ! b)" for i
      using edges_slice(1) [OF ok(1), of b i] that \<open>b < B\<close> ok(2) dist nth_mem [of b S] nth_mem [of i "S ! b"] by blast
    ultimately show ?thesis using that by (simp add: slice_ok_def blk)
  qed
  have pred_slice: "slice_ok B pcells (bb_predecessors (blk cfg b)) (bb_predecessor_count (blk cfg b))" if "b < B" for b
  proof -
    have "slice_start S b + length (sources S B b) \<le> M" using slice_start_less [OF that, of S] slices_fill [OF dist] M ok(2) by simp
    moreover have "\<exists>v<B. pcells ! (slice_start S b + i) = Some (int v)" if "i < length (sources S B b)" for i
      using r that \<open>b < B\<close> ok(2) nth_mem [OF that] by (auto simp: reversed_def sources_def)
    ultimately show ?thesis using that rl by (simp add: slice_ok_def blk)
  qed
  have "set (preds cfg b) = {p. p < B \<and> b \<in> set (succs cfg p)}" "distinct (preds cfg b)" "distinct (succs cfg b)" if "b < B" for b
    using that dist ok(2) by (auto simp: preds succs sources_def)
  then show "graph_ok cfg" unfolding graph_ok_def using succ_slice pred_slice ok(3) rl len by (simp add: c total)
qed

lemma blocks_connected:
  assumes m: "matched ops N F E flow" and e: "F < E" "E \<le> N" "N \<le> length ops"
  shows "delivers (connected ops N F E flow (block_number ops F E))
    (ofold (connect_block ops flow (int (block_number ops F E)) (int N) (owners ops N F E) (int F) (int E)) (counting 0 (int (block_number ops F E)))
      (replicate (block_number ops F E) zero_nesting, \<lparr>eb_blocks = laid_blocks ops N F E, eb_storage = replicate (N * 3) None, eb_edge_count = 0\<rparr>))"
proof -
  let ?B = "block_number ops F E"
  have n: "?B \<le> N" using leaders_bound(2) [of ops F E] e by simp
  have block: "laid_blocks ops N F E ! b = laid_block ops F E b" if "b < ?B" for b using that n by (simp add: laid_blocks_def)
  let ?s = "(replicate ?B zero_nesting, \<lparr>eb_blocks = laid_blocks ops N F E, eb_storage = replicate (N * 3) None, eb_edge_count = 0\<rparr>)"
  have start: "connected ops N F E flow 0 ?s"
  proof -
    have "edges_ok ?B N [] (snd ?s)" using n by (simp add: edges_ok_def block laid_block_def zero_block_def mult.commute) (simp add: laid_blocks_def)
    moreover have "laid_out ops F E (laid_blocks ops N F E)" using block_last_bound(4) [of _ ops F E] e(1) by (simp add: laid_out_def block laid_block_def)
    ultimately show ?thesis by (simp add: connected_def block laid_block_def zero_block_def)
  qed
  have "delivers (connected ops N F E flow ?B) (ofold (connect_block ops flow (int ?B) (int N) (owners ops N F E) (int F) (int E)) (counting (int 0) (int ?B)) ?s)"
    by (rule delivers_counting [where holds = "connected ops N F E flow"]) (use start connect_block_ok [OF m e] in auto)
  then show ?thesis by simp
qed

lemma built_graph:
  assumes m: "matched ops N F E flow" and e: "F < E" "E \<le> N" "N \<le> length ops" and con: "connected ops N F E flow (block_number ops F E) (nesting, eb)"
    and S: "length S = block_number ops F E" "edges_ok (block_number ops F E) N S eb"
    and says: "\<forall>b<block_number ops F E. block_says ops F E flow b (eb_blocks eb ! b) (set (S ! b))"
    and r: "reversed S (max (eb_edge_count eb) 1) (placed S (length S) (eb_blocks eb)) (sources S (block_number ops F E)) (blocks, pcells)"
  shows "built ops N F E (zero_cfg\<lparr>cfg_instruction_count := int N, cfg_blocks := Some blocks, cfg_successor_storage := Some (eb_storage eb), cfg_predecessor_storage := Some pcells,
    cfg_block_count := int (block_number ops F E), cfg_instruction_block := Some (owners ops N F E), cfg_instruction_flow := Some flow, cfg_nesting := Some nesting\<rparr>)" (is "built ops N F E ?cfg")
proof -
  let ?B = "block_number ops F E"
  have B: "0 < ?B" using leaders_first [OF e(1), of ops] by simp
  have M: "length (concat S) \<le> max (eb_edge_count eb) 1" using S(2) by (simp add: edges_ok_def)
  have graph: "graph_ok ?cfg" "\<And>b. b < ?B \<Longrightarrow> succs ?cfg b = S ! b"
    by (rule finished_graph [OF S(2,1) B r M]; simp)+
  have len: "length (eb_blocks eb) = N" "?B \<le> N" using S(2) by (auto simp: edges_ok_def)
  have block: "blocks ! b = (eb_blocks eb ! b)\<lparr>bb_predecessors := slice_start S b, bb_predecessor_count := int (length (sources S ?B b))\<rparr>" if "b < ?B" for b
    using r that S(1) len by (auto simp: reversed_def placed_def Let_def)
  have "laid_out ops F E (eb_blocks eb)" "nesting = map (\<lambda>b. nesting_of ops F flow (block_start ops F E b)) [0..<?B]" using con by (auto simp: connected_def Let_def)
  then have "laid_out ops F E blocks" "nesting = map (\<lambda>b. nesting_of ops F flow (block_start ops F E b)) [0..<?B]" by (simp_all add: laid_out_def block)
  moreover have "block_says ops F E flow b (blk ?cfg b) (set (succs ?cfg b))" if "b < ?B" for b
    using says that graph(2) [OF that] by (simp add: block_says_def blk_def block)
  ultimately show ?thesis unfolding built_def using graph(1) m e by (simp add: zero_cfg_def)
qed

lemma connect_graph_ok:
  assumes e: "F < E" "E \<le> N" "N \<le> length ops"
  shows "delivers (built ops N F E) (connect_graph c_malloc ops (zero_cfg\<lparr>cfg_instruction_count := int N\<rparr>) (int F) (int E))"
proof -
  let ?B = "block_number ops F E"
  define finish :: "hlsl_instruction_flow list \<Rightarrow> hlsl_block_nesting list \<times> edge_builder \<Rightarrow> (unit, hlsl_control_flow_graph) outcome" where "finish = (\<lambda>flow (nesting, eb). if \<not> c_malloc (max (eb_edge_count eb) 1 * 4) then Fail ()
     else obind (ofold place_predecessors (counting 0 (int ?B)) (eb_blocks eb, 0)) (\<lambda>(blocks, _).
     obind (ofold (reverse_block (eb_storage eb)) (counting 0 (int ?B)) (blocks, replicate (max (eb_edge_count eb) 1) None)) (\<lambda>(blocks, predecessors).
     Done (zero_cfg\<lparr>cfg_instruction_count := int N, cfg_blocks := Some blocks, cfg_successor_storage := Some (eb_storage eb), cfg_predecessor_storage := Some predecessors,
       cfg_block_count := int ?B, cfg_instruction_block := Some (owners ops N F E), cfg_instruction_flow := Some flow, cfg_nesting := Some nesting\<rparr>))))"
  have finish: "delivers (built ops N F E) (finish flow (nesting, eb))" if m: "matched ops N F E flow" and con: "connected ops N F E flow ?B (nesting, eb)" for flow nesting eb
  proof -
    obtain S where S: "length S = ?B" "edges_ok ?B N S eb" "\<forall>b<?B. block_says ops F E flow b (eb_blocks eb ! b) (set (S ! b))" using con by (auto simp: connected_def Let_def)
    have M: "length (concat S) \<le> max (eb_edge_count eb) 1" using S(2) by (simp add: edges_ok_def)
    have rev: "delivers (built ops N F E) (obind (ofold (reverse_block (eb_storage eb)) (counting 0 (int ?B)) (placed S ?B (eb_blocks eb), replicate (max (eb_edge_count eb) 1) None)) (\<lambda>(blocks, predecessors).
          Done (zero_cfg\<lparr>cfg_instruction_count := int N, cfg_blocks := Some blocks, cfg_successor_storage := Some (eb_storage eb), cfg_predecessor_storage := Some predecessors,
            cfg_block_count := int ?B, cfg_instruction_block := Some (owners ops N F E), cfg_instruction_flow := Some flow, cfg_nesting := Some nesting\<rparr>)))"
      by (rule delivers_obind [OF reverse_blocks_ok [OF S(2,1) M]]) (use built_graph [OF m e con S] in \<open>auto simp: delivers_done\<close>)
    show ?thesis unfolding finish_def prod.case
      by (intro delivers_if delivers_basic delivers_obind [OF place_predecessors_ok [OF S(2,1)]]) (use rev in auto)
  qed
  have lead: "delivers (\<lambda>leader. length leader = N \<and> (\<forall>j. F \<le> j \<and> j < E \<longrightarrow> leader ! j = leads ops F j))
      (ofold (mark_leader ops (int E)) (counting (int F) (int E)) ((replicate N False)[F := True]))" using marked_leaders [OF e] e by simp
  have edges: "delivers (built ops N F E) (obind (ofold (connect_block ops flow (int ?B) (int N) (owners ops N F E) (int F) (int E)) (counting 0 (int ?B))
      (replicate ?B zero_nesting, \<lparr>eb_blocks = laid_blocks ops N F E, eb_storage = replicate (N * 3) None, eb_edge_count = 0\<rparr>)) (finish flow))" if "matched ops N F E flow" for flow
    by (rule delivers_obind [OF blocks_connected [OF that e]]) (use finish [OF that] in auto)
  have fields: "cfg_instruction_count (zero_cfg\<lparr>cfg_instruction_count := int N\<rparr>) = int N" "cfg_block_count (zero_cfg\<lparr>cfg_instruction_count := int N\<rparr>) = 0"
    by (simp_all add: zero_cfg_def)
  have mark: "(put (replicate N False) (int F) True :: (unit, _) outcome) = Done ((replicate N False)[F := True])" using e by simp
  show ?thesis unfolding connect_graph_def Let_def fields nat_int mark obind.simps
  proof (intro delivers_obind [OF match_flow_structure_ok [of F E N ops]] delivers_obind [OF lead], goal_cases)
    case (4 flow leader)
    have st: "delivers (\<lambda>s. s = (map (scanned (leaders ops F E) 1) [0..<N], int ?B)) (ofold (start_block leader) (counting (int F) (int E)) (replicate N zero_block, 0))"
      by (rule delivers_mono [OF started_blocks [OF e(1,2), of leader ops]]) (use 4(2) in auto)
    have rest: "delivers (built ops N F E) (if \<not> c_malloc (?B * 8) then Fail () else obind (ofold (connect_block ops flow (int ?B) (int N) (owners ops N F E) (int F) (int E)) (counting 0 (int ?B))
        (replicate ?B zero_nesting, \<lparr>eb_blocks = laid_blocks ops N F E, eb_storage = replicate (N * 3) None, eb_edge_count = 0\<rparr>)) (finish flow))"
      by (intro delivers_if delivers_basic edges [OF 4(1)])
    show ?case
      by (rule delivers_obind [OF st]; simp only: prod.case last_block_closed [OF e(1,2)] obind.simps nat_int;
          rule delivers_obind [OF assigned_owners [OF e(1,2)]]; use rest in \<open>simp only: finish_def\<close>)
  qed (use e in auto)
qed

text \<open>The instruction array of a program holds at least the counted instructions.\<close>

definition program_ok :: "usil_program \<Rightarrow> bool" where
  "program_ok p \<longleftrightarrow> (case up_instructions p of None \<Rightarrow> True | Some ops \<Rightarrow> nat (up_instruction_count p) \<le> length ops)"

lemma cleared_graph: "free_control_flow_graph (zero_cfg\<lparr>cfg_instruction_count := n\<rparr>) = Done zero_cfg"
  by (simp add: free_control_flow_graph_def zero_cfg_def)

lemma build_result:
  assumes "program_ok p"
  shows "case build_control_flow_graph_range c_malloc uc (Some p) zero_cfg first stop of
      Fault \<Rightarrow> False
    | Fail cfg \<Rightarrow> cfg = zero_cfg
    | Done cfg \<Rightarrow> up_instruction_count p = 0 \<and> cfg = zero_cfg \<or>
        (\<exists>ops. up_instructions p = Some ops \<and> built ops (nat (up_instruction_count p)) (nat first) (nat stop) cfg)"
proof -
  let ?r = "build_control_flow_graph_range c_malloc uc (Some p) zero_cfg first stop" and ?n = "up_instruction_count p"
  let ?started = "zero_cfg\<lparr>cfg_instruction_count := ?n\<rparr>"
  have zero: "cfg_blocks zero_cfg = None" "cfg_instruction_block zero_cfg = None" "cfg_successor_storage zero_cfg = None" "cfg_predecessor_storage zero_cfg = None"
    "cfg_instruction_flow zero_cfg = None" by (simp_all add: zero_cfg_def)
  consider "?r = Fail zero_cfg" | "?r = Done zero_cfg" "?n = 0"
    | ops where "up_instructions p = Some ops" "0 < ?n" "0 \<le> first" "first < stop" "stop \<le> ?n" "?r = on_fail (connect_graph c_malloc ops ?started first stop) (Fail zero_cfg)"
  proof (cases "0 \<le> ?n \<and> 0 \<le> first \<and> first \<le> stop \<and> stop \<le> ?n \<and> (first = stop \<longrightarrow> ?n = 0)")
    case False
    then have "?r = Fail zero_cfg" by (auto simp: build_control_flow_graph_range_def Let_def)
    then show ?thesis by (rule that(1))
  next
    case range: True
    show ?thesis
    proof (cases "?n = 0 \<or> up_instructions p = None")
      case True
      then have "?r = (if ?n = 0 then Done zero_cfg else Fail zero_cfg)" using range by (auto simp: build_control_flow_graph_range_def Let_def)
      then show ?thesis using that(1,2) by (auto split: if_splits)
    next
      case False
      then obtain ops where ops: "up_instructions p = Some ops" by auto
      have "?r = Fail zero_cfg \<or> ?r = on_fail (connect_graph c_malloc ops ?started first stop) (Fail zero_cfg)"
        using range False ops by (simp add: build_control_flow_graph_range_def Let_def zero cleared_graph)
      then show ?thesis using that(1) that(3) [OF ops] range False by linarith
    qed
  qed
  then show ?thesis
  proof cases
    case (3 ops)
    have "delivers (built ops (nat ?n) (nat first) (nat stop)) (connect_graph c_malloc ops (zero_cfg\<lparr>cfg_instruction_count := int (nat ?n)\<rparr>) (int (nat first)) (int (nat stop)))"
      using 3 assms by (intro connect_graph_ok) (auto simp: program_ok_def)
    then show ?thesis using 3 by (cases "connect_graph c_malloc ops ?started first stop") (auto simp: delivers_def safe_def yields_def)
  qed simp_all
qed

end
