(* ===== verification/Hlsl_Cfg_Spec.thy ===== *)
theory Hlsl_Cfg_Spec
  imports Hlsl_Build "HOL-Library.Code_Target_Numeral"
begin

text \<open>
  The control-flow graph from the program to its queries: control never returns to the first block, and the answers of
  the queries of \<open>hlsl_cfg.c\<close> on the graph of a program are statements about the walks through that program.
\<close>

section \<open>The entry\<close>

text \<open>Control never returns to the first block: every edge leads to a leader behind the first instruction.\<close>

lemma boundary_kinds: "opener opc \<or> is_closer opc \<or> is_label opc \<or> is_jump opc \<or> opc \<in> {USIL_OP_ELSE, USIL_OP_RET, USIL_OP_DISCARD} \<Longrightarrow> is_boundary opc"
  by (auto simp: opener_def is_closer_def is_label_def is_jump_def is_boundary_def)

lemma leads_after: "F \<le> j \<Longrightarrow> is_boundary (ops ! j) \<Longrightarrow> leads ops F (Suc j)"
  by (simp add: leads_def)

lemma case_labels_lead:
  assumes l: "labels_ok ops E flow"
  shows "label = -1 \<or> int F < label \<and> is_label (ops ! nat label) \<Longrightarrow> case_labels fuel flow label = Done ls \<Longrightarrow> x \<in> set ls \<Longrightarrow> int F < x \<and> is_boundary (ops ! nat x)"
proof (induction fuel arbitrary: label ls)
  case (Suc fuel)
  then obtain rest where r: "0 \<le> label" "nat label < length flow" "ls = label # rest" "case_labels fuel flow (fl_next_case (flow ! nat label)) = Done rest"
    by (auto simp: outcome_simps at_def split: if_splits)
  let ?next = "fl_next_case (flow ! nat label)"
  have "?next = -1 \<or> int (nat label) < ?next \<and> is_label (ops ! nat ?next)" using l r(2) unfolding labels_ok_def by blast
  then have "?next = -1 \<or> int F < ?next \<and> is_label (ops ! nat ?next)" using r(1) Suc.prems(1) by auto
  then show ?case using Suc.IH [OF _ r(4)] Suc.prems(1,3) r boundary_kinds by auto
qed simp

lemma closed_lead:
  assumes m: "matched ops N F E flow" and s: "F \<le> s" "s < E" "opener (ops ! s)"
  shows "\<exists>x. fl_end (flow ! s) = int x \<and> s < x \<and> is_boundary (ops ! x)"
proof -
  have c: "closed_at ops E flow s" by (rule matchedD(8) [OF m s])
  then obtain x where x: "fl_end (flow ! s) = int x" "s < x" "x < E" unfolding closed_at_def using between_nat by blast
  then have "is_closer (ops ! x)" using c by (auto simp: closed_at_def closer_of_def is_closer_def)
  then show ?thesis using x boundary_kinds by blast
qed

lemma targets_lead:
  assumes m: "matched ops N F E flow" and e: "E \<le> N" and j: "F \<le> j" "j < E" "leads ops F (Suc j) \<or> Suc j = E" and t: "t \<in> targets_of ops flow j"
  shows "F < t \<and> (t = E \<or> leads ops F t)"
proof -
  let ?op = "ops ! j" and ?f = "flow ! j"
  have len: "length flow = N" and jn: "j < N" using matchedD(1) [OF m] j e by auto
  obtain ts where ts: "flow_targets ?op flow (int j) = Done (map int ts)" using flow_targets_ok [OF m e j(1,2)] by auto
  have mem: "int t \<in> set (map int ts)" using t ts by (simp add: targets_of_def image_image)
  have boundary: "F < t \<and> leads ops F t" if "F \<le> k" "is_boundary (ops ! k)" "t = Suc k \<or> t = k \<and> F < k" for k
    using that leads_after [of F k ops] by (auto simp: leads_def)
  consider "?op = USIL_OP_SWITCH" | "?op = USIL_OP_IF" | "?op = USIL_OP_ELSE" | "is_jump ?op" | "?op = USIL_OP_ENDLOOP"
    | "?op \<notin> {USIL_OP_SWITCH, USIL_OP_IF, USIL_OP_ELSE, USIL_OP_ENDLOOP}" "\<not> is_jump ?op" by blast
  then show ?thesis
  proof cases
    case 1
    obtain x where x: "fl_end ?f = int x" "j < x" "is_boundary (ops ! x)" using closed_lead [OF m j(1,2)] 1 by (auto simp: opener_def)
    obtain ls where ls: "case_labels (length flow + 1) flow (fl_first_case ?f) = Done ls" "map int ts = ls @ (if \<not> fl_has_default ?f then [fl_end ?f + 1] else [])"
      using ts 1 jn len by (auto simp: flow_targets_def outcome_simps)
    have "fl_first_case ?f = -1 \<or> int F < fl_first_case ?f \<and> is_label (ops ! nat (fl_first_case ?f))"
      using matchedD(7) [OF m] jn len j(1) unfolding labels_ok_def by fastforce
    then have "int t \<in> set ls \<Longrightarrow> F < t \<and> is_boundary (ops ! t)" using case_labels_lead [OF matchedD(7) [OF m] _ ls(1)] by fastforce
    then show ?thesis using mem ls(2) x j(1) boundary [of t] boundary [of x] by (auto split: if_splits)
  next
    case 2
    obtain x where x: "fl_end ?f = int x" "j < x" "is_boundary (ops ! x)" using closed_lead [OF m j(1,2)] 2 by (auto simp: opener_def)
    have "int t = int (Suc j) \<or> int t = fl_end ?f + 1 \<or> int t = fl_alternate ?f + 1 \<and> 0 \<le> fl_alternate ?f" using ts mem 2 jn len by (auto simp: flow_targets_def split: if_splits)
    then consider "t = Suc j" | "t = Suc x" | a where "fl_alternate ?f = int a" "t = Suc a" using x(1) by (metis add.commute int_nat_eq nat_int of_nat_Suc)
    then show ?thesis
    proof cases
      case 3
      then have "F \<le> a" "is_boundary (ops ! a)" using alternate_okD [OF matchedD(3) [OF m], of j] jn len j boundary_kinds by auto
      then show ?thesis using 3 boundary by blast
    qed (use boundary [of j] boundary [of x] x 2 j(1) in \<open>auto simp: is_boundary_def\<close>)
  next
    case 3
    then obtain s where s: "F \<le> s" "s < j" "ops ! s = USIL_OP_IF" "fl_end ?f = fl_end (flow ! s)" using matchedD(4) [OF m] j unfolding else_ok_def by metis
    then obtain x where "fl_end ?f = int x" "s < x" "is_boundary (ops ! x)" using closed_lead [OF m, of s] j by (auto simp: opener_def)
    then show ?thesis using ts mem 3 jn len s(1) boundary [of x] by (auto simp: flow_targets_def)
  next
    case 4
    then obtain s where s: "F \<le> s" "s < j" "fl_jump_scope ?f = int s" "ops ! s = USIL_OP_LOOP \<or> ops ! s = USIL_OP_SWITCH"
      using matchedD(6) [OF m] j unfolding jump_ok_def by metis
    then obtain x where x: "fl_end (flow ! s) = int x" "s < x" "is_boundary (ops ! x)" using closed_lead [OF m, of s] j by (auto simp: opener_def)
    have "int t = int (Suc j) \<or> int t = int x \<or> int t = int (Suc x)" using ts mem 4 jn len s x by (auto simp: flow_targets_def is_jump_def split: if_splits)
    then have "t = Suc j \<or> t = x \<or> t = Suc x" by linarith
    then show ?thesis using boundary [of j] boundary [of x] x s(1) 4 j(1) boundary_kinds [of ?op] by auto
  next
    case 5
    then obtain s where s: "F \<le> s" "fl_jump_scope ?f = int s" "opener (ops ! s)" using matchedD(5) [OF m] j unfolding close_ok_def is_closer_def by (metis insertCI)
    then have "t = Suc s" using ts mem 5 jn len by (auto simp: flow_targets_def)
    then show ?thesis using boundary [of s] s boundary_kinds by auto
  next
    case 6
    then have "int j + 1 = int t" using ts mem jn len by (auto simp: flow_targets_def is_jump_def split: if_splits)
    then have "t = Suc j" by linarith
    then show ?thesis using j by auto
  qed
qed

lemma builtD:
  assumes "built ops N F E cfg"
  shows "F < E" "E \<le> N" "N \<le> length ops" "graph_ok cfg" "block_total cfg = block_number ops F E" "cfg_instruction_block cfg = Some (owners ops N F E)"
    "\<exists>flow. cfg_instruction_flow cfg = Some flow \<and> matched ops N F E flow \<and> (\<forall>b<block_number ops F E. block_says ops F E flow b (blk cfg b) (set (succs cfg b)))"
  using assms by (auto simp: built_def Let_def block_total_def)

lemma entry_not_entered:
  assumes b: "built ops N F E cfg"
  shows "0 \<notin> set (succs cfg p)" "preds cfg 0 = []"
proof -
  note d = builtD [OF b]
  obtain flow where m: "matched ops N F E flow" and says: "\<forall>b<block_number ops F E. block_says ops F E flow b (blk cfg b) (set (succs cfg b))" using d(7) by auto
  show s: "0 \<notin> set (succs cfg p)" for p
  proof (cases "p < block_number ops F E")
    case True
    let ?j = "block_last ops F E p"
    note last = block_last_bound [OF True d(1)]
    have "Suc ?j = block_start ops F E (Suc p)" using last(4) by linarith
    then have end_: "leads ops F (Suc ?j) \<or> Suc ?j = E" using block_start_leads [of "Suc p" ops F E] by (auto simp: block_start_def)
    have "block_of ops F t \<noteq> 0" if t: "t \<in> targets_of ops flow ?j" "t \<noteq> E" for t
    proof -
      have "F < t" "leads ops F t" using targets_lead [OF m d(2) _ last(2) end_ t(1)] last(1,3) t(2) by auto
      then show ?thesis using leaders_first [of F t ops] by (cases "leaders ops F t") (auto simp: block_of_def leaders_Suc)
    qed
    moreover have "set (succs cfg p) = block_of ops F ` (targets_of ops flow ?j - {E})" using says True by (simp add: block_says_def Let_def)
    ultimately show ?thesis by fastforce
  next
    case False
    then show ?thesis by (simp add: succs_def d(5))
  qed
  then show "preds cfg 0 = []" using graph_okD(7) [OF d(4), of 0] graph_okD(2) [OF d(4)] by (cases "preds cfg 0") auto
qed

section \<open>Conditional regions\<close>

text \<open>
  A region of the IF at instruction \<open>i\<close>: its header dominates the blocks up to its join, none of them is entered from
  outside, and every way on from the header arrives at the join.
\<close>

definition region_walks :: "hlsl_control_flow_graph \<Rightarrow> nat \<Rightarrow> nat \<Rightarrow> bool" where
  "region_walks cfg header join \<longleftrightarrow> reachable (succs cfg) header \<and> dominating (succs cfg) header join \<and> inevitable (succs cfg) (leaving cfg) join header \<and>
     (\<forall>b. header < b \<and> b < join \<longrightarrow> reachable (succs cfg) b \<and> dominating (succs cfg) header b \<and> (\<forall>p. b \<in> set (succs cfg p) \<longrightarrow> header \<le> p \<and> p < join))"

definition region_of :: "usil_opcode list \<Rightarrow> nat \<Rightarrow> hlsl_control_flow_graph \<Rightarrow> nat \<Rightarrow> hlsl_if_region \<Rightarrow> bool" where
  "region_of ops F cfg i r \<longleftrightarrow> ops ! i = USIL_OP_IF \<and> (\<exists>e a. i < e \<and> ops ! e = USIL_OP_ENDIF \<and> (a = e \<and> ir_else_instruction r = -1 \<or> i < a \<and> a < e \<and> ops ! a = USIL_OP_ELSE \<and> ir_else_instruction r = int a) \<and>
     ir_end_instruction r = int e \<and> ir_header_block r = int (block_of ops F i) \<and> ir_true_block r = int (block_of ops F (i + 1)) \<and>
     ir_false_block r = int (block_of ops F (a + 1)) \<and> ir_join_block r = int (block_of ops F (e + 1)) \<and> region_walks cfg (block_of ops F i) (block_of ops F (e + 1)))"

lemma region_block_ok:
  assumes a: "analysed cfg" and b: "b < block_total cfg" and h: "ir_header_block r = int h" "ir_join_block r = int j"
  shows "delivers (\<lambda>_. reachable (succs cfg) b \<and> dominating (succs cfg) h b \<and> (\<forall>p. b \<in> set (succs cfg p) \<longrightarrow> h \<le> p \<and> p < j)) (region_block cfg r (int b))"
proof -
  have ok: "graph_ok cfg" using a by (simp add: analysed_def)
  have fold: "ofold (\<lambda>edge _. obind (predecessor_at cfg (blk cfg b) edge) (\<lambda>p. if p < int h \<or> p \<ge> int j then Fail () else Done ())) (counting 0 (bb_predecessor_count (blk cfg b))) () =
      (ofold (\<lambda>p _. if int p < int h \<or> int p \<ge> int j then Fail () else Done ()) (preds cfg b) () :: (unit, unit) outcome)"
    using fold_predecessors [OF ok b, of "\<lambda>p _. if p < int h \<or> p \<ge> int j then Fail () else Done ()"] by simp
  have scan: "delivers (\<lambda>_. \<forall>p\<in>set ps. h \<le> p \<and> p < j) (ofold (\<lambda>p _. if int p < int h \<or> int p \<ge> int j then Fail () else Done ()) ps () :: (unit, unit) outcome)" for ps
    by (induction ps) (auto simp: delivers_def safe_def yields_def)
  show ?thesis unfolding region_block_def block_at_ok [OF ok b] obind.simps cfg_dominates_ok [OF a] h fold
    by (rule delivers_if, rule delivers_basic, rule delivers_mono [OF scan]) (use graph_okD(7,8) [OF ok] b in \<open>auto\<close>)
qed

text \<open>The instructions around an \<open>IF\<close> whose links the region query follows: its \<open>ENDIF\<close> and the instruction its false branch starts after.\<close>

lemma if_links:
  assumes m: "matched ops N F E flow" and k: "k < N" "ops ! k = USIL_OP_IF" and far: "\<not> (fl_end (flow ! k) \<le> int k \<or> fl_end (flow ! k) \<ge> int N - 1)"
  obtains e a where "F \<le> k" "k < E" "fl_end (flow ! k) = int e" "k < e" "e + 1 < N" "ops ! e = USIL_OP_ENDIF"
    "a = e \<and> fl_alternate (flow ! k) = -1 \<or> k < a \<and> a < e \<and> ops ! a = USIL_OP_ELSE \<and> fl_alternate (flow ! k) = int a"
proof -
  let ?f = "flow ! k"
  have len: "length flow = N" using matchedD(1) [OF m] by simp
  have inside: "F \<le> k \<and> k < E"
  proof (rule ccontr)
    assume "\<not> ?thesis"
    then have "?f = no_links zero_flow" using m k(1) len by (auto simp: matched_def match_inv_def fresh_ok_def)
    then show False using far by simp
  qed
  have c: "closed_at ops E flow k" using matchedD(8) [OF m] inside k(2) by (simp add: opener_def)
  then obtain e where e: "fl_end ?f = int e" "k < e" "e < E" unfolding closed_at_def using between_nat by blast
  have endif: "ops ! e = USIL_OP_ENDIF" using c e k(2) by (simp add: closed_at_def closer_of_def)
  obtain a where a: "a = e \<and> fl_alternate ?f = -1 \<or> k < a \<and> a < e \<and> ops ! a = USIL_OP_ELSE \<and> fl_alternate ?f = int a"
  proof (cases "fl_alternate ?f = -1")
    case False
    then have "int k < fl_alternate ?f" "fl_alternate ?f < int e" "ops ! nat (fl_alternate ?f) = USIL_OP_ELSE"
      using alternate_okD [OF matchedD(3) [OF m], of k] k(1) len c e by (auto simp: closed_at_def)
    moreover from this obtain y where "fl_alternate ?f = int y" "k < y" "y < e" using between_nat by blast
    ultimately show ?thesis using that [of y] by simp
  qed (use that in auto)
  show thesis using that [of e a] inside e endif a far by auto
qed

text \<open>What the query's loop establishes of a block between the header \<open>h\<close> and the join \<open>t\<close>.\<close>

definition inner_block :: "hlsl_control_flow_graph \<Rightarrow> nat \<Rightarrow> nat \<Rightarrow> nat \<Rightarrow> bool" where
  "inner_block cfg h t b \<longleftrightarrow> reachable (succs cfg) b \<and> dominating (succs cfg) h b \<and> (\<forall>p. b \<in> set (succs cfg p) \<longrightarrow> h \<le> p \<and> p < t)"

lemma region_blocks_ok:
  assumes a: "analysed cfg" and r: "ir_header_block r = int h" "ir_join_block r = int t" and t: "t < block_total cfg"
  shows "delivers (\<lambda>_. \<forall>b. h < b \<and> b < t \<longrightarrow> inner_block cfg h t b) (ofold (\<lambda>index _. region_block cfg r index) (counting (int h + 1) (int t)) ())"
proof (cases "Suc h \<le> t")
  case True
  have "delivers (\<lambda>_. \<forall>b. h < b \<and> b < t \<longrightarrow> inner_block cfg h t b) (ofold (\<lambda>index _. region_block cfg r index) (counting (int (Suc h)) (int t)) ())"
  proof (rule delivers_counting [where holds = "\<lambda>m _. \<forall>b. h < b \<and> b < m \<longrightarrow> inner_block cfg h t b", OF True])
    fix b u assume b: "b < t" and before: "\<forall>c. h < c \<and> c < b \<longrightarrow> inner_block cfg h t c"
    show "delivers (\<lambda>_. \<forall>c. h < c \<and> c < Suc b \<longrightarrow> inner_block cfg h t c) (region_block cfg r (int b))"
      by (rule delivers_mono [OF region_block_ok [OF a _ r]]) (use b t before in \<open>auto simp: inner_block_def less_Suc_eq\<close>)
  qed auto
  then show ?thesis by (simp add: add.commute)
next
  case False
  then show ?thesis by (auto simp: counting_def delivers_done)
qed

lemma if_region_ok:
  assumes b: "built ops N F E g" and cfg: "cfg = with_dominance g idom df counts" and a: "analysed cfg"
    and p: "up_instructions p = Some ops" "up_instruction_count p = int N"
  shows "delivers (region_of ops F cfg (nat i)) (hlsl_cfg_if_region c_malloc uc (Some p) cfg i out)"
proof (cases "out \<and> 0 \<le> i \<and> i < int N \<and> ops ! nat i = USIL_OP_IF")
  case False
  then show ?thesis using p builtD(3) [OF b] by (auto simp: hlsl_cfg_if_region_def at_def delivers_intros)
next
  case True
  then obtain k where k: "i = int k" "k < N" "ops ! k = USIL_OP_IF" by (auto elim!: nonneg_int_cases)
  note d = builtD [OF b]
  obtain flow where flow: "cfg_instruction_flow g = Some flow" "matched ops N F E flow" using d(7) by auto
  obtain bs where bs: "cfg_blocks g = Some bs" using d(4) by (auto simp: graph_ok_def)
  have count: "cfg_instruction_count g = int N" using b by (simp add: built_def Let_def)
  have len: "length flow = N" "length (owners ops N F E) = N" using matchedD(1) [OF flow(2)] by (simp_all add: owners_def)
  let ?f = "flow ! k"
  show ?thesis
  proof (cases "fl_end ?f \<le> int k \<or> fl_end ?f \<ge> int N - 1")
    case True
    then show ?thesis using k d(3) p flow(1) bs count len by (auto simp: hlsl_cfg_if_region_def cfg d(6) delivers_intros)
  next
    case False
    obtain e a' where inside: "F \<le> k" "k < E" and e: "fl_end ?f = int e" "k < e" and eN: "e + 1 < N" and endif: "ops ! e = USIL_OP_ENDIF"
      and a': "a' = e \<and> fl_alternate ?f = -1 \<or> k < a' \<and> a' < e \<and> ops ! a' = USIL_OP_ELSE \<and> fl_alternate ?f = int a'"
      by (rule if_links [OF flow(2) k(2,3) False])
    let ?own = "\<lambda>x. owners ops N F E ! x"
    have place: "a' + 1 < N" using a' eN by auto
    define r where "r = \<lparr>ir_header_block = ?own k, ir_true_block = ?own (k + 1), ir_false_block = ?own (a' + 1), ir_join_block = ?own (e + 1),
      ir_else_instruction = fl_alternate ?f, ir_end_instruction = int e\<rparr>"
    have get: "(at (owners ops N F E) (int x) :: (unit, int) outcome) = Done (?own x)" if "x < N" for x using that len by simp
    have steps: "int k + 1 = int (k + 1)" "int e + 1 = int (e + 1)" by simp_all
    have run: "hlsl_cfg_if_region c_malloc uc (Some p) cfg i out = obind (hlsl_cfg_dominates (Some cfg) (?own k) (?own (e + 1))) (\<lambda>dominated.
        if \<not> dominated then Fail ()
        else obind (hlsl_cfg_must_reach c_malloc uc (Some cfg) (?own k) (?own (e + 1))) (\<lambda>reached.
        if \<not> reached then Fail ()
        else obind (ofold (\<lambda>index _. region_block cfg r index) (counting (?own k + 1) (?own (e + 1))) ()) (\<lambda>_. Done r)))"
    proof -
      have "int a' + 1 = int (a' + 1)" by simp
      note simps = hlsl_cfg_if_region_def cfg d(6) r_def Let_def steps this
      show ?thesis using a'
      proof (elim disjE conjE)
        assume "a' = e" "fl_alternate ?f = -1"
        then show ?thesis using k True d(3) p flow(1) bs count len False e eN get by (simp add: simps del: of_nat_add of_nat_Suc cong: if_cong)
      next
        assume "k < a'" "a' < e" "fl_alternate ?f = int a'"
        then show ?thesis using k True d(3) p flow(1) bs count len False e eN get by (simp add: simps del: of_nat_add of_nat_Suc cong: if_cong)
      qed
    qed
    let ?h = "block_of ops F k" and ?j = "block_of ops F (e + 1)"
    have own: "?own x = (if F \<le> x \<and> x < E then int (block_of ops F x) else -1)" if "x < N" for x using that by (simp add: owners_def)
    have header: "?own k = int ?h" using own k(2) inside by simp
    have whole: "delivers (region_of ops F cfg k) (obind (ofold (\<lambda>index _. region_block cfg r index) (counting (?own k + 1) (?own (e + 1))) ()) (\<lambda>_. Done r))"
      if dom: "?own (e + 1) = int t" "reachable (succs cfg) t" "dominating (succs cfg) ?h t" and inev: "reachable (succs cfg) ?h" "inevitable (succs cfg) (leaving cfg) t ?h" for t
    proof -
      have t: "t = ?j" "e + 1 < E" using dom(1) own [OF eN] by (auto split: if_splits)
      have ok: "graph_ok cfg" using a by (simp add: analysed_def)
      have tn: "t < block_total cfg" by (rule reachable_block [OF ok dom(2)])
      have r: "ir_header_block r = int ?h" "ir_join_block r = int t" using header dom(1) by (simp_all add: r_def)
      show ?thesis unfolding header dom(1)
      proof (rule delivers_obind [OF region_blocks_ok [OF a r tn]])
        assume "\<forall>b. ?h < b \<and> b < t \<longrightarrow> inner_block cfg ?h t b"
        then have "region_walks cfg ?h ?j" using dom inev t by (simp add: region_walks_def inner_block_def)
        moreover have "?own (k + 1) = int (block_of ops F (k + 1))" "?own (a' + 1) = int (block_of ops F (a' + 1))" using own inside e t a' place k eN by auto
        ultimately show "delivers (region_of ops F cfg k) (Done r)" unfolding delivers_done region_of_def
          using k(3) e(2) endif a' header dom(1) t by (intro conjI exI [of _ e] exI [of _ a']) (auto simp: r_def)
      qed
    qed
    show ?thesis unfolding k(1) run [unfolded k(1)] nat_int cfg_dominates_ok [OF a] obind.simps
    proof (rule delivers_if, rule delivers_basic)
      assume "\<not> \<not> (\<exists>d' b'. ?own k = int d' \<and> ?own (e + 1) = int b' \<and> reachable (succs cfg) b' \<and> dominating (succs cfg) d' b')"
      then obtain t where t: "?own (e + 1) = int t" "reachable (succs cfg) t" "dominating (succs cfg) ?h t" using header by auto
      show "delivers (region_of ops F cfg k) (obind (hlsl_cfg_must_reach c_malloc uc (Some cfg) (?own k) (?own (e + 1))) (\<lambda>reached. if \<not> reached then Fail ()
          else obind (ofold (\<lambda>index _. region_block cfg r index) (counting (?own k + 1) (?own (e + 1))) ()) (\<lambda>_. Done r)))"
        using cfg_must_reach_ok(1) [OF a, of c_malloc uc "?own k" "?own (e + 1)"] whole [OF t] header t(1) by (auto simp: delivers_basic)
    qed
  qed
qed

section \<open>Straight paths\<close>

text \<open>Block \<open>c\<close> leads to the next block and to no other, which is entered from \<open>c\<close> alone.\<close>

definition straight :: "hlsl_control_flow_graph \<Rightarrow> nat \<Rightarrow> bool" where
  "straight cfg c \<longleftrightarrow> succs cfg c = [Suc c] \<and> preds cfg (Suc c) = [c] \<and> \<not> bb_has_ambiguous_flow (blk cfg c) \<and> \<not> bb_has_ambiguous_flow (blk cfg (Suc c))"

lemma block_of_mono: "F \<le> a \<Longrightarrow> a \<le> b \<Longrightarrow> block_of ops F a \<le> block_of ops F b"
proof -
  assume ab: "F \<le> a" "a \<le> b"
  have "length (leaders ops F (Suc a)) \<le> length (leaders ops F (Suc b))" using leaders_upto [of a "Suc b" ops F] ab(2) by (simp add: le_imp_less_Suc)
  then show ?thesis by (simp add: block_of_def)
qed

lemma pair_is_straight_ok:
  assumes ok: "graph_ok cfg" and c: "Suc c < block_total cfg"
  shows "pair_is_straight cfg (int c) = Done (straight cfg c)"
proof -
  have at_c: "block_at cfg (int c) = (Done (blk cfg c) :: (unit, _) outcome)" "block_at cfg (int c + 1) = (Done (blk cfg (Suc c)) :: (unit, _) outcome)"
    using block_at_ok [OF ok, of c] block_at_ok [OF ok c] c by (simp_all add: add.commute)
  have count: "bb_successor_count (blk cfg c) = int (length (succs cfg c))" "bb_predecessor_count (blk cfg (Suc c)) = int (length (preds cfg (Suc c)))"
    using graph_okD(3,4) [OF ok] c by auto
  have rev: "Suc c \<in> set (succs cfg c) \<longleftrightarrow> c \<in> set (preds cfg (Suc c))" using graph_okD(7) [OF ok c] c by auto
  show ?thesis
  proof (cases "\<exists>s. succs cfg c = [s]")
    case True
    then obtain s where s: "succs cfg c = [s]" by blast
    have "(successor_at cfg (blk cfg c) 0 :: (unit, _) outcome) = Done (int s)" using successor_at_ok [OF ok, of c 0] c s by simp
    moreover have "length (preds cfg (Suc c)) = 1 \<and> s = Suc c \<longleftrightarrow> preds cfg (Suc c) = [c] \<and> s = Suc c" using rev s by (cases "preds cfg (Suc c)") auto
    ultimately show ?thesis using at_c count s by (auto simp: pair_is_straight_def straight_def)
  next
    case False
    then have "length (succs cfg c) \<noteq> 1" by (auto simp: length_Suc_conv)
    then show ?thesis using at_c count False by (simp add: pair_is_straight_def straight_def)
  qed
qed

lemma straight_path_ok:
  assumes b: "built ops N F E cfg" and p: "up_instruction_count p = int N"
  shows "instructions_have_unambiguous_path cfg p first second =
    Done (\<exists>x y. first = int x \<and> second = int y \<and> F \<le> x \<and> x \<le> y \<and> y < E \<and> (\<forall>c. block_of ops F x \<le> c \<and> c < block_of ops F y \<longrightarrow> straight cfg c))"
proof (cases "0 \<le> first \<and> first \<le> second \<and> second < int N")
  case False
  then show ?thesis using p builtD(2,6) [OF b] by (auto simp: instructions_have_unambiguous_path_def)
next
  case True
  then obtain x y where xy: "first = int x" "second = int y" "x \<le> y" "y < N" by (metis nonneg_int_cases of_nat_le_iff of_nat_less_iff order_trans)
  note d = builtD [OF b]
  have own: "(at (owners ops N F E) (int z) :: (unit, _) outcome) = Done (if F \<le> z \<and> z < E then int (block_of ops F z) else -1)" if "z < N" for z using that by (simp add: owners_def)
  show ?thesis
  proof (cases "F \<le> x \<and> y < E")
    case False
    then show ?thesis using xy p own [of x] own [of y] by (auto simp: instructions_have_unambiguous_path_def d(6))
  next
    case inside: True
    let ?a = "block_of ops F x" and ?b = "block_of ops F y"
    have ab: "?a \<le> ?b" "?b < block_total cfg" using block_of_mono [of F x y ops] block_of_bound [of F y E ops] inside xy(3) d(5) by auto
    have fold: "ofold (\<lambda>block straight. if straight then pair_is_straight cfg block else Done False) (map int cs) s = Done (s \<and> (\<forall>c\<in>set cs. straight cfg c))"
      if "\<forall>c\<in>set cs. Suc c < block_total cfg" for cs s
      using that by (induction cs arbitrary: s) (auto simp: pair_is_straight_ok [OF d(4)])
    have "instructions_have_unambiguous_path cfg p first second = (if ?a = ?b then Done True else ofold (\<lambda>block straight. if straight then pair_is_straight cfg block else Done False) (map int [?a..<?b]) True)"
      using xy p inside own [of x] own [of y] by (simp add: instructions_have_unambiguous_path_def d(6) counting_nat)
    also have "\<dots> = Done (\<forall>c. ?a \<le> c \<and> c < ?b \<longrightarrow> straight cfg c)" using fold [of "[?a..<?b]" True] ab by auto
    finally show ?thesis using xy inside by auto
  qed
qed

lemma straight_dominates:
  assumes ok: "graph_ok cfg" and ab: "a \<le> b" "\<forall>c. a \<le> c \<and> c < b \<longrightarrow> straight cfg c"
  shows "dominating (succs cfg) a b"
  using ab
proof (induction b)
  case 0
  then show ?case unfolding dominating_def using walk_ends by fastforce
next
  case (Suc b)
  show ?case
  proof (cases "a = Suc b")
    case True
    then show ?thesis unfolding dominating_def using walk_ends by fastforce
  next
    case False
    then have s: "straight cfg b" "dominating (succs cfg) a b" using Suc by auto
    show ?thesis unfolding dominating_def
    proof (intro allI impI)
      fix xs assume "walk (succs cfg) 0 xs (Suc b)"
      then show "a \<in> set xs"
      proof (cases rule: walk.cases)
        case (walk_step ys q)
        then have "q \<in> set (preds cfg (Suc b))" using graph_okD(7) [OF ok, of "Suc b" q] graph_okD(8) [OF ok] by auto
        then have "q = b" using s(1) by (simp add: straight_def)
        then show ?thesis using walk_step s(2) by (auto simp: dominating_def)
      qed
    qed
  qed
qed

section \<open>From the program to the answers\<close>

text \<open>\<open>cfg\<close> is the analysed graph of the instructions of \<open>p\<close> from \<open>first\<close> up to \<open>stop\<close>, and \<open>g\<close> the graph before the analysis.\<close>

lemma analysed_program:
  assumes p: "program_ok p" "0 < up_instruction_count p" and g: "build_control_flow_graph_range c_malloc uc (Some p) zero_cfg first stop = Done g"
    and cfg: "compute_dominance c_malloc uc (Some g) = Done cfg"
  shows "\<exists>ops idom df counts. up_instructions p = Some ops \<and> built ops (nat (up_instruction_count p)) (nat first) (nat stop) g \<and>
    cfg = with_dominance g idom df counts \<and> analysed cfg"
proof -
  obtain ops where ops: "up_instructions p = Some ops" "built ops (nat (up_instruction_count p)) (nat first) (nat stop) g"
    using build_result [OF p(1), of first stop c_malloc uc] g p(2) by auto
  have "graph_ok g" using builtD(4) [OF ops(2)] .
  from compute_dominance_ok [OF this, of c_malloc uc] cfg obtain idom df counts where "cfg = with_dominance g idom df counts" "analysed cfg" by auto
  then show ?thesis using ops by blast
qed

text \<open>The answer of the parent array: the nearest dominator of a block other than itself.\<close>

definition nearest_dominator :: "(nat \<Rightarrow> nat list) \<Rightarrow> nat \<Rightarrow> nat \<Rightarrow> bool" where
  "nearest_dominator E b d \<longleftrightarrow> d \<noteq> b \<and> dominating E d b \<and> (\<forall>x. dominating E x b \<longrightarrow> x = b \<or> dominating E x d)"

lemma exact_parent:
  assumes ok: "graph_ok cfg" and e: "exact_tree cfg idom" and b: "b < block_total cfg"
  shows "if \<not> reachable (succs cfg) b then idom ! b < 0 else if b = 0 then idom ! b = 0 else (\<exists>d. idom ! b = int d \<and> reachable (succs cfg) d \<and> nearest_dominator (succs cfg) b d)"
proof (cases "reachable (succs cfg) b")
  case False
  then show ?thesis using e b par_of_sign [of b idom] by (auto simp: exact_tree_def tree_array_def)
next
  case True
  have tree: "dominance.tree cfg (par_of idom)" and len: "length idom = block_total cfg" using e by (simp_all add: exact_tree_def tree_array_def)
  obtain d where d: "par_of idom b = Some d" using True e unfolding exact_tree_def by blast
  then have val: "idom ! b = int d" by (auto simp: par_of_def split: if_splits)
  note td = dominance.treeD [OF tree d]
  have anc: "ancestor (par_of idom) x c \<longleftrightarrow> dominating (succs cfg) x c" if "reachable (succs cfg) c" for x c using e that by (auto simp: exact_tree_def)
  have rd: "reachable (succs cfg) d" using td(2) e unfolding exact_tree_def by blast
  have "nearest_dominator (succs cfg) b d" if "b \<noteq> 0"
    unfolding nearest_dominator_def using td(3) [OF that] ancestor_iff [of "par_of idom" b d, OF d] anc [OF True] anc [OF rd] ancestor_self [of "par_of idom" d] by auto
  then show ?thesis using True val rd td(4) by auto
qed

section \<open>Enough memory\<close>

text \<open>With memory for every request the analysis has no reason to fail.\<close>

lemma access_never_fails [fails_intros]: "fails_only P (at xs i)" "fails_only P (put xs i v)" "fails_only P (cell cs i)"
  "fails_only P (block_at cfg i)" "fails_only P (successor_at cfg b i)" "fails_only P (predecessor_at cfg b i)"
  by (auto simp: fails_only_def at_def put_def cell_def block_at_def successor_at_def predecessor_at_def outcome_simps mem_def split: if_splits option.splits)

lemma climb_never_fails: "fails_only P (climb fuel numbers idom other finger)"
  by (induction fuel arbitrary: finger) (auto intro!: fails_intros)

lemma intersect_never_fails: "fails_only P (intersect_loop fuel steps numbers idom f1 f2)"
  by (induction fuel arbitrary: f1 f2) (auto intro!: fails_intros climb_never_fails)

lemma pass_never_fails: "fails_only P (dominance_pass cfg postorder numbers idom)"
  unfolding dominance_pass_def update_idom_def join_predecessor_def intersect_fingers_def Let_def
  by (intro fails_intros intersect_never_fails)

lemma loop_never_fails: "fails_only P (dominance_loop fuel cfg postorder numbers idom)"
  by (induction fuel arbitrary: idom) (auto intro!: fails_intros pass_never_fails)

definition small_frontiers :: "nat \<Rightarrow> int list list \<times> int list \<Rightarrow> bool" where
  "small_frontiers n s \<longleftrightarrow> length (snd s) = length (fst s) \<and>
     (\<forall>x<length (fst s). distinct (fst s ! x) \<and> set (fst s ! x) \<subseteq> int ` {..<n} \<and> snd s ! x = int (length (fst s ! x)))"

lemma add_frontier_room:
  assumes "distinct vals" "set vals \<subseteq> int ` {..<n}" "y < n" "n \<le> INT_MAX" "exact_size_checks uc" "\<forall>k. c_malloc k"
  shows "\<exists>vs. add_frontier c_malloc uc (vals, int (length vals)) (int y) = Done (vs, int (length vs)) \<and> distinct vs \<and> set vs \<subseteq> int ` {..<n}"
proof (cases "int y \<in> set vals")
  case True
  then show ?thesis using assms by (simp add: add_frontier_def search_found)
next
  case False
  have "card (insert (int y) (set vals)) \<le> card (int ` {..<n})" using assms(2,3) by (intro card_mono) auto
  then have "length vals + 1 \<le> n" using False assms(1) by (simp add: distinct_card card_image)
  then show ?thesis using False assms by (auto simp: add_frontier_def search_found exact_size_checksD(2))
qed

lemma run_frontier_room:
  assumes r: "y < n" "n \<le> INT_MAX" "exact_size_checks uc" "\<forall>k. c_malloc k"
  shows "small_frontiers n s \<Longrightarrow> fails_only (\<lambda>_. False) (run_frontier fuel c_malloc uc idom (int y) runner s) \<and> yields (small_frontiers n) (run_frontier fuel c_malloc uc idom (int y) runner s)"
proof (induction fuel arbitrary: runner s)
  case (Suc fuel)
  obtain fs cs where s: "s = (fs, cs)" by force
  show ?case
  proof (cases "0 \<le> runner \<and> nat runner < length fs")
    case False
    then show ?thesis using Suc.prems by (cases "at idom (int y) :: (unit, int) outcome") (auto simp: s at_def fails_only_def yields_def split: if_splits)
  next
    case True
    then obtain x where x: "runner = int x" "x < length fs" by (auto elim!: nonneg_int_cases)
    then obtain vs where vs: "add_frontier c_malloc uc (fs ! x, cs ! x) (int y) = Done (vs, int (length vs))" "distinct vs" "set vs \<subseteq> int ` {..<n}"
      using add_frontier_room [of "fs ! x" n y uc c_malloc] r Suc.prems by (auto simp: small_frontiers_def s)
    let ?s = "(fs[x := vs], cs[x := int (length vs)])"
    have sm: "small_frontiers n ?s" using Suc.prems vs x by (auto simp: small_frontiers_def s nth_list_update)
    have "run_frontier (Suc fuel) c_malloc uc idom (int y) runner s = obind (at idom (int y)) (\<lambda>stop. if int x = stop then Done s else obind (at idom (int x)) (\<lambda>above. run_frontier fuel c_malloc uc idom (int y) above ?s))"
      using Suc.prems x vs(1) by (simp add: s small_frontiers_def cong: if_cong)
    then show ?thesis using Suc.IH [OF sm] Suc.prems by (auto simp: at_def fails_only_def yields_def)
  qed
qed (simp add: fails_only_def yields_def)

lemma frontier_blocks_room:
  assumes n: "n \<le> INT_MAX" "exact_size_checks uc" "\<forall>k. c_malloc k"
  shows "set ys \<subseteq> {..<n} \<Longrightarrow> small_frontiers n s \<Longrightarrow> fails_only (\<lambda>_. False) (ofold (frontier_block c_malloc uc cfg idom) (map int ys) s)"
proof (induction ys arbitrary: s)
  case (Cons y ys)
  have edges: "fails_only (\<lambda>_. False) (ofold (frontier_edge c_malloc uc cfg idom (int y) block) es s) \<and> yields (small_frontiers n) (ofold (frontier_edge c_malloc uc cfg idom (int y) block) es s)"
    if "small_frontiers n s" for es block s
    using that
  proof (induction es arbitrary: s)
    case (Cons e es)
    have "fails_only (\<lambda>_. False) (frontier_edge c_malloc uc cfg idom (int y) block e s) \<and> yields (small_frontiers n) (frontier_edge c_malloc uc cfg idom (int y) block e s)"
      using run_frontier_room [OF _ n, of y s] Cons.prems \<open>set (y # ys) \<subseteq> {..<n}\<close> unfolding frontier_edge_def
      by (intro conjI fails_intros yields_intros) (auto simp del: run_frontier.simps)
    then show ?case using Cons.IH by (auto simp: fails_only_def yields_def outcome_simps)
  qed (simp add: fails_only_def yields_def)
  have "fails_only (\<lambda>_. False) (frontier_block c_malloc uc cfg idom (int y) s) \<and> yields (small_frontiers n) (frontier_block c_malloc uc cfg idom (int y) s)"
    using edges [OF Cons.prems(2)] Cons.prems(2) unfolding frontier_block_def by (intro conjI fails_only_rules access_never_fails yields_intros) auto
  then show ?case using Cons.IH Cons.prems(1) by (auto simp: fails_only_def yields_def outcome_simps)
qed (simp add: fails_only_def)

lemma compute_dominance_room:
  assumes ok: "graph_ok cfg" "cfg_idom cfg = None" "cfg_df cfg = None" "cfg_df_count cfg = None" and n: "block_total cfg \<le> INT_MAX" "exact_size_checks uc" "\<forall>k. c_malloc k"
  shows "compute_dominance c_malloc uc (Some cfg) \<noteq> Fail ()"
proof -
  let ?n = "block_total cfg"
  have sizes: "\<not> size_multiply_overflows uc ?n 4" "\<not> size_multiply_overflows uc ?n 8" using n by (simp_all add: exact_size_checksD(2))
  have "fails_only (\<lambda>_. False) (build_postorder c_malloc uc cfg)"
  proof -
    have "fails_only (\<lambda>_. False) (dfs_loop fuel cfg s)" for fuel s
      by (induction fuel arbitrary: s) (auto simp: dfs_step_def Let_def split: list.split intro!: fails_intros)
    then show ?thesis using sizes n(3) unfolding build_postorder_def Let_def block_total_def [symmetric] by (auto intro!: fails_intros)
  qed
  then have "fails_only (\<lambda>_. False) (immediate_dominators c_malloc uc cfg)"
    unfolding immediate_dominators_def Let_def by (intro fails_intros loop_never_fails)
  moreover have "small_frontiers ?n (replicate ?n [], replicate ?n 0)" by (simp add: small_frontiers_def)
  then have "fails_only (\<lambda>_. False) (ofold (frontier_block c_malloc uc cfg idom) (map int [0..<?n]) (replicate ?n [], replicate ?n 0))" for idom
    using frontier_blocks_room [OF n, of "[0..<?n]"] by (simp add: lessThan_atLeast0)
  ultimately have "fails_only (\<lambda>_. False) (compute_dominance c_malloc uc (Some cfg))"
    using ok sizes n(3) graph_okD(1,2) [OF ok(1)] unfolding compute_dominance_def Let_def
    by (auto simp: block_total_def [symmetric] counting_int graph_ok_def intro!: fails_only_rules)
  then show ?thesis by (auto simp: fails_only_def)
qed

section \<open>Properties\<close>

text \<open>The program of the witnesses: a conditional with two arms and a return.\<close>

definition sample_program :: usil_program where
  "sample_program = \<lparr>up_instructions = Some [USIL_OP_IF, 6, USIL_OP_ELSE, 6, USIL_OP_ENDIF, USIL_OP_RET], up_instruction_count = 6\<rparr>"

definition sample_graph :: hlsl_control_flow_graph where
  "sample_graph = (case build_control_flow_graph_range (\<lambda>_. True) lp64_common (Some sample_program) zero_cfg 0 6 of Done g \<Rightarrow> g | _ \<Rightarrow> zero_cfg)"

definition sample_cfg :: hlsl_control_flow_graph where
  "sample_cfg = (case compute_dominance (\<lambda>_. True) lp64_common (Some sample_graph) of Done cfg \<Rightarrow> cfg | _ \<Rightarrow> zero_cfg)"

lemma sample_ok: "program_ok sample_program" "0 < up_instruction_count sample_program"
  by (simp_all add: program_ok_def sample_program_def)

lemma sample_built: "build_control_flow_graph_range (\<lambda>_. True) lp64_common (Some sample_program) zero_cfg 0 6 = Done sample_graph"
proof -
  have "case build_control_flow_graph_range (\<lambda>_. True) lp64_common (Some sample_program) zero_cfg 0 6 of Done g \<Rightarrow> True | _ \<Rightarrow> False" by code_simp
  then show ?thesis by (simp add: sample_graph_def split: outcome.splits)
qed

lemma sample_analysed: "compute_dominance (\<lambda>_. True) lp64_common (Some sample_graph) = Done sample_cfg"
proof -
  have "case compute_dominance (\<lambda>_. True) lp64_common (Some sample_graph) of Done g \<Rightarrow> True | _ \<Rightarrow> False" by code_simp
  then show ?thesis by (simp add: sample_cfg_def split: outcome.splits)
qed



text \<open>
  C15: the analysis of the graph of a program ends without leaving an array, and with memory for its requests it succeeds.
  The parent array then holds the nearest dominator of every reachable block, \<open>0\<close> for the entry and a negative number
  for the blocks no walk reaches, and the frontier of a block is exactly the set of blocks at which its dominance ends.
\<close>

theorem dominance_analysis_exact:
  assumes "program_ok p" "0 < up_instruction_count p" "build_control_flow_graph_range c_malloc uc (Some p) zero_cfg first stop = Done g"
  shows "case compute_dominance c_malloc uc (Some g) of
      Fault \<Rightarrow> False
    | Fail _ \<Rightarrow> \<not> (exact_size_checks uc \<and> (\<forall>n. c_malloc n) \<and> block_total g \<le> INT_MAX)
    | Done cfg \<Rightarrow> (\<exists>idom df counts. cfg = g\<lparr>cfg_idom := Some idom, cfg_df := Some df, cfg_df_count := Some counts\<rparr> \<and>
        (\<forall>b<block_total g.
          (if \<not> reachable (succs g) b then idom ! b < 0 else if b = 0 then idom ! b = 0
           else \<exists>d. idom ! b = int d \<and> reachable (succs g) d \<and> nearest_dominator (succs g) b d) \<and>
          distinct (df ! b) \<and> counts ! b = int (length (df ! b)) \<and> set (df ! b) = {int y | y. in_frontier (succs g) b y}))"
proof -
  obtain ops where b: "built ops (nat (up_instruction_count p)) (nat first) (nat stop) g" using build_result [OF assms(1), of first stop c_malloc uc] assms(2,3) by auto
  have ok: "graph_ok g" by (rule builtD(4) [OF b])
  have fresh: "cfg_idom g = None" "cfg_df g = None" "cfg_df_count g = None" using b by (simp_all add: built_def Let_def)
  from compute_dominance_ok [OF ok, of c_malloc uc] show ?thesis
  proof (elim disjE exE conjE)
    assume f: "compute_dominance c_malloc uc (Some g) = Fail ()"
    then show ?thesis using compute_dominance_room [OF ok fresh] by auto
  next
    fix idom df counts
    assume r: "compute_dominance c_malloc uc (Some g) = Done (with_dominance g idom df counts)" and a: "analysed (with_dominance g idom df counts)"
    have tree: "exact_tree (with_dominance g idom df counts) idom" and front: "frontiers_exact (with_dominance g idom df counts) df counts" using a by (auto simp: analysed_def)
    have ok': "graph_ok (with_dominance g idom df counts)" using a by (simp add: analysed_def)
    have "if \<not> reachable (succs g) b then idom ! b < 0 else if b = 0 then idom ! b = 0 else \<exists>d. idom ! b = int d \<and> reachable (succs g) d \<and> nearest_dominator (succs g) b d"
      if "b < block_total g" for b using exact_parent [OF ok' tree, of b] that unfolding same_graph .
    moreover have "distinct (df ! b) \<and> counts ! b = int (length (df ! b)) \<and> set (df ! b) = {int y | y. in_frontier (succs g) b y}" if "b < block_total g" for b
      using front that entry_not_entered(2) [OF b] unfolding frontiers_exact_def same_graph front_ok_def by auto
    ultimately show ?thesis unfolding r outcome.case by blast
  qed
qed

theorem dominance_analysis_exact_witness:
  "nearest_dominator (succs sample_graph) 5 0 \<and> {int y | y. in_frontier (succs sample_graph) 4 y} = {5}"
proof -
  from dominance_analysis_exact [OF sample_ok sample_built, unfolded sample_analysed outcome.case] obtain idom df counts where
    r: "sample_cfg = sample_graph\<lparr>cfg_idom := Some idom, cfg_df := Some df, cfg_df_count := Some counts\<rparr>"
    and exact: "\<forall>b<block_total sample_graph. (if \<not> reachable (succs sample_graph) b then idom ! b < 0 else if b = 0 then idom ! b = 0
      else \<exists>d. idom ! b = int d \<and> reachable (succs sample_graph) d \<and> nearest_dominator (succs sample_graph) b d) \<and>
      distinct (df ! b) \<and> counts ! b = int (length (df ! b)) \<and> set (df ! b) = {int y | y. in_frontier (succs sample_graph) b y}" by blast
  have n: "4 < block_total sample_graph" "5 < block_total sample_graph" by code_simp+
  have "cfg_df sample_cfg = Some [[], [5], [5], [5], [5], []]" "cfg_idom sample_cfg = Some [0, 0, 1, 0, 3, 0]" by code_simp+
  then have "df = [[], [5], [5], [5], [5], []]" "idom = [0, 0, 1, 0, 3, 0]" by (simp_all add: r)
  then show ?thesis using exact [rule_format, OF n(1)] exact [rule_format, OF n(2)] by (simp split: if_splits)
qed

text \<open>
  C16: on the analysed graph of a program \<open>hlsl_cfg_dominates\<close> answers for all arguments, and answers true exactly when
  every walk from the entry to the block passes through the dominator, for blocks the entry reaches.
\<close>

theorem dominates_query_exact:
  assumes "program_ok p" "0 < up_instruction_count p" "build_control_flow_graph_range c_malloc uc (Some p) zero_cfg first stop = Done g"
    "compute_dominance c_malloc uc (Some g) = Done cfg"
  shows "hlsl_cfg_dominates (Some cfg) dominator block =
    Done (\<exists>d b. dominator = int d \<and> block = int b \<and> reachable (succs g) b \<and> (\<forall>xs. walk (succs g) 0 xs b \<longrightarrow> d \<in> set xs))"
proof -
  obtain idom df counts where "cfg = with_dominance g idom df counts" "analysed cfg" using analysed_program [OF assms] by blast
  then show ?thesis using cfg_dominates_ok [of cfg dominator block] by (simp add: same_graph dominating_def)
qed

theorem dominates_query_exact_witness:
  "hlsl_cfg_dominates (Some sample_cfg) 0 5 = Done True \<and> dominating (succs sample_graph) 0 5 \<and> hlsl_cfg_dominates (Some sample_cfg) 3 5 = Done False"
proof -
  have "hlsl_cfg_dominates (Some sample_cfg) 0 5 = Done True" "hlsl_cfg_dominates (Some sample_cfg) 3 5 = Done False" by code_simp+
  then show ?thesis using dominates_query_exact [OF sample_ok sample_built sample_analysed, of 0 5] by (simp add: dominating_def)
qed

text \<open>
  C17: on the analysed graph of a program \<open>hlsl_cfg_must_reach\<close> claims nothing unproved: it answers true only when every
  walk from \<open>start\<close> arrives at \<open>target\<close>, walks that leave the program, end or go on forever included; with memory for its
  two arrays it answers true whenever that is so.
\<close>

theorem must_reach_query_exact:
  assumes "program_ok p" "0 < up_instruction_count p" "build_control_flow_graph_range c_malloc uc (Some p) zero_cfg first stop = Done g"
    "compute_dominance c_malloc uc (Some g) = Done cfg"
  shows "\<exists>answer. hlsl_cfg_must_reach c_malloc' uc (Some cfg) start target = Done answer \<and>
    (let unavoidable = (\<exists>s t. start = int s \<and> target = int t \<and> reachable (succs g) s \<and> reachable (succs g) t \<and>
       (\<forall>xs b. walk (succs g) s xs b \<and> t \<notin> set xs \<longrightarrow> \<not> bb_may_exit (blk g b) \<and> succs g b \<noteq> []) \<and> (\<forall>f. \<not> avoids (succs g) t s f)) in
     (answer \<longrightarrow> unavoidable) \<and> (exact_size_checks uc \<and> block_total g \<le> INT_MAX \<and> c_malloc' (block_total g * 4) \<and> unavoidable \<longrightarrow> answer))"
proof -
  obtain idom df counts where c: "cfg = with_dominance g idom df counts" "analysed cfg" using analysed_program [OF assms] by blast
  have same: "succs cfg = succs g" "blk cfg = blk g" "block_total cfg = block_total g" using c(1) by (simp_all add: same_graph)
  show ?thesis unfolding Let_def inevitable_iff [symmetric] using cfg_must_reach_ok [OF c(2), where c_malloc = c_malloc' and uc = uc and a = start and b = target, unfolded same]
    by (elim disjE) auto
qed

theorem must_reach_query_exact_witness:
  "hlsl_cfg_must_reach (\<lambda>_. True) lp64_common (Some sample_cfg) 0 5 = Done True \<and> (\<forall>f. \<not> avoids (succs sample_graph) 5 0 f) \<and>
   hlsl_cfg_must_reach (\<lambda>_. True) lp64_common (Some sample_cfg) 0 3 = Done False"
proof -
  have "hlsl_cfg_must_reach (\<lambda>_. True) lp64_common (Some sample_cfg) 0 5 = Done True" "hlsl_cfg_must_reach (\<lambda>_. True) lp64_common (Some sample_cfg) 0 3 = Done False" by code_simp+
  then show ?thesis using must_reach_query_exact [OF sample_ok sample_built sample_analysed, of "\<lambda>_. True" 0 5] by (auto simp: Let_def)
qed





end
