(* ===== verification/Spec2Isabelle.thy ===== *)
theory Spec2Isabelle
  imports Dxbc_Compare Usbd Semantic_Document Variant_Key_Spec Hlsl_Cfg_Spec
begin

text \<open>
  Verification of the container core of DXBCSandbox, the C11 tools that read Unity shader assets, decode DXBC
  (compiled Direct3D shaders) and reconstruct source.  Everything the tools do with a shader starts in the code
  modelled here: finding a container in an asset, checking its hash, slicing it losslessly, decoding it and
  summarising what its program requires.

  \<^bold>\<open>The program and the theories.\<close>
  \<^item> \<open>Prelude\<close>: the \<open>outcome\<close> of a C call (\<open>Done\<close> a value, \<open>Fail\<close> the error path with what it reports, \<open>Fault\<close> a
    read or write outside an object, which the theorems exclude), folds over loops, byte strings and little-endian words.
  \<^item> \<open>Unity_Common\<close>: the services of the UnityCommon submodule (byte order, size checks, allocator, byte stream) as a
    record \<open>unity_common\<close> that every model takes as an argument, with the documented behaviour as named hypotheses
    (\<open>little_endian_host\<close>, \<open>exact_size_checks\<close>, \<open>byte_stream_contract\<close>, \<open>memory_available\<close>) and an instance,
    \<open>lp64_common\<close>, on which the witnesses are evaluated.
  \<^item> \<open>Container_View\<close> (\<open>dxbc_container.c\<close>): the first container of a raw blob, a Unity program record or a USBD table.
  \<^item> \<open>Dxbc_Hash\<close> (\<open>dxbc_hash.c\<close>): the modified MD5 with its incremental update, against a block-wise reference.
  \<^item> \<open>Dxbc_Document\<close> (\<open>dxbc_document.c\<close>): the lossless document: header, chunk table, raw instructions, diagnostics,
    exact serialisation and token reads.
  \<^item> \<open>Dxbc_Compare\<close> (\<open>dxbc_compare.c\<close>): the exact comparison of two containers and its report.
  \<^item> \<open>Usbd\<close> (\<open>usbd.c\<close>): opening, reading and encoding the USBD shader-blob directory, and its UTF-8 name test.
  \<^item> \<open>Shader_Stage\<close> (\<open>src/common/shader_stage.c\<close>): the numberings of the shader stages and the D3D11 tuple test.
  \<^item> \<open>Stage_Contract\<close>, \<open>Stage_Contract_Spec\<close> (\<open>dxbc_stage_contract.c\<close>): the scan of the raw instructions of a document
    into the contract of its program, with hull phases, geometry effects, barriers and shared memory.
  \<^item> \<open>Opcode_Tables\<close> (\<open>dxbc_decoder.c\<close>), \<open>Resource_Table\<close>, \<open>Signature\<close>, \<open>Signature_Spec\<close> (\<open>dxbc_parser.c\<close>): opcode and
    name tables, the sorted resource and UAV declaration arrays, signature elements and chunks.
  \<^item> \<open>Operand\<close>, \<open>Operand_Spec\<close> (\<open>dxbc_operand.c\<close>): the recursive operand parser and the grammar it recognises.
  \<^item> \<open>Instruction\<close>, \<open>Instruction_Spec\<close> (\<open>dxbc_instruction.c\<close>): the instruction loop of \<open>parse_shader_logic\<close> with one
    definition per declaration handler, opcode extensions, immediate constants and the growing instruction array.
  \<^item> \<open>Dxbc_Parse\<close>, \<open>Dxbc_Parse_Spec\<close> (\<open>dxbc_parse\<close>, \<open>dxbc_free\<close> of \<open>dxbc_parser.c\<close>): the semantic container.
  \<^item> \<open>Semantic_Document\<close>: \<open>dxbc_document_decode_semantic\<close> and the agreement of document, container and contract.
  \<^item> \<open>C_Strings\<close>, \<open>Byte_Codes\<close>: C strings and counted arrays behind pointers; uniquely readable byte codes (locales
    \<open>prefix_code\<close>, \<open>counted_code\<close>) and their interpretations.
  \<^item> \<open>Variant_Key\<close>, \<open>Variant_Key_Spec\<close> (\<open>src/common/variant_key.c\<close>): the identity of a shader variant: validation, canonical
    copy, comparison, the stable serialisation and its digest.
  \<^item> \<open>Hlsl_Cfg\<close> (\<open>src/translation/hlsl_cfg.c\<close>): the control-flow graph of a translated program and its queries.  \<open>Flow_Graph\<close>:
    graphs, dominance over walks and the fixpoint theory of the dominator tree (locale \<open>numbered_graph\<close>).
    \<open>Hlsl_Dominance\<close>: depth-first order, immediate dominators, frontiers, dominance and unavoidable blocks.
    \<open>Hlsl_Match\<close>, \<open>Hlsl_Build\<close>: the matcher of the structured flow instructions, the blocks and edges of the built graph.
    \<open>Hlsl_Cfg_Spec\<close>: the queries on the graph of a program as statements about the walks through it.

  \<^bold>\<open>State and operations.\<close>  C structs are records with the fields of the source, enums are datatypes, \<open>uint32_t\<close> is a
  32-bit word.  A function with output parameters returns their new contents; a pointer into a buffer is an offset.
  Arrays that grow keep their count, allocation and element list as separate fields, as the C code does, and an access
  outside the list is \<open>Fault\<close>.  An allocator answers per request, and the theorems hold for every allocator unless
  \<open>memory_available\<close> is assumed.

  \<^bold>\<open>What is shown.\<close>  For each reader: no access outside the input; on success a complete description of the result in
  terms of the bytes (\<open>document_ok\<close>, \<open>good_view\<close>, \<open>container_parsed\<close>, \<open>describes\<close>, \<open>signature_parsed\<close>); round trips
  (document, USBD table in both directions, operands and instructions back to their words); equivalence of optimised
  code with a reference (hash, UTF-8, operand grammar, float range test); and that readers written separately agree:
  the first USBD record and the container search, the document and the semantic container, the version tests of
  parser and contract, the container that a document decodes to and its contract.

  \<^bold>\<open>Loops and fuel.\<close>  Loops over a known range are folds.  Loops that advance a position are \<open>function\<close>s with a measure
  or recursion on fuel whose exhaustion is \<open>Fault\<close>, so that safety theorems include that the fuel is enough: an
  operand gets its token budget plus one, the opcode extensions and the instructions the bytes left plus one (each
  turn reads at least a word), the operands of an instruction nine turns (the ninth is refused).  In the control-flow
  graph the depth-first search gets a turn per block and edge, the dominator passes the square of the number of blocks
  plus two, the two fingers of \<open>intersect\<close> and the frontier walk one step per block and one more, the worklist of
  \<open>hlsl_cfg_must_reach\<close> one turn per block and one more, a chain of case labels one turn per instruction and one more.

  \<^bold>\<open>Not modelled.\<close>  The diagnostic texts of operands and instructions (they are only displayed; \<open>snprintf\<close> of floating
  point numbers), log messages, and the other layers of the tools: Unity serialized files and archives (\<open>src/io\<close>), the
  translation to HLSL and ShaderLab (\<open>src/translation\<close>, its control-flow graph apart), the clients of Unity's compiler and its caches
  (\<open>src/compiler\<close>), batches and certificates (\<open>src/app\<close>), the command lines (\<open>src/cli\<close>).
\<close>

end
